(* ===== verification/Lime_Prelude.thy ===== *)
theory Lime_Prelude
  imports Main "HOL-Library.Word" "HOL-Library.State_Monad"
begin

text \<open>
  What the component theories share: the machine integer types of the C sources, the
  collections of rewrite rules the component proofs use, facts on bits of fixed-width
  words, the little-endian view of words as bytes, and the two ways the programs touch
  hardware: a memory-mapped bus (volatile loads and stores through a pointer) and loops
  that poll it.
\<close>

unbundle bit_operations_syntax

section \<open>Machine integers\<close>

type_synonym u8 = "8 word"
type_synonym u16 = "16 word"
type_synonym u32 = "32 word"
type_synonym u64 = "64 word"

text \<open>The status codes of \<^verbatim>\<open>xstatus.h\<close> that the drivers return.\<close>

definition XST_SUCCESS :: int where
  "XST_SUCCESS = 0"

definition XST_FAILURE :: int where
  "XST_FAILURE = 1"

definition XST_INVALID_PARAM :: int where
  "XST_INVALID_PARAM = 15"

lemma XST_distinct [simp]:
  "XST_SUCCESS \<noteq> XST_FAILURE" "XST_FAILURE \<noteq> XST_SUCCESS"
  "XST_SUCCESS \<noteq> XST_INVALID_PARAM" "XST_INVALID_PARAM \<noteq> XST_SUCCESS"
  by (simp_all add: XST_SUCCESS_def XST_FAILURE_def XST_INVALID_PARAM_def)

section \<open>Rule collections\<close>

named_theorems reg_consts \<open>values of register offsets, masks and field positions\<close>
named_theorems run_simps \<open>what a driver operation does to the device state\<close>
named_theorems blast_bits \<open>bounded quantifiers over bit positions, unrolled\<close>

section \<open>Bits of words\<close>

lemma not_bit_if_less_power:
  fixes x :: "'a::len word"
  assumes "x < 2 ^ k" and "k \<le> n"
  shows "\<not> bit x n"
proof
  assume "bit x n"
  moreover have "x AND mask k = x"
    using assms(1) by (rule less_mask_eq)
  ultimately have "bit (x AND mask k) n"
    by simp
  then show False
    using assms(2) by (simp add: bit_and_iff bit_mask_iff)
qed

lemma bit_less_powerD:
  fixes x :: "'a::len word"
  shows "bit x n \<Longrightarrow> x < 2 ^ k \<Longrightarrow> n < k"
  using not_bit_if_less_power not_le by blast

lemma all_less_8 [blast_bits]:
  "(\<forall>n<8. P n) \<longleftrightarrow> P 0 \<and> P 1 \<and> P 2 \<and> P 3 \<and> P 4 \<and> P 5 \<and> P 6 \<and> P (7::nat)"
  by (simp add: numeral_eq_Suc All_less_Suc conj_ac)

lemma all_less_32 [blast_bits]:
  "(\<forall>n<32. P n) \<longleftrightarrow>
     P 0 \<and> P 1 \<and> P 2 \<and> P 3 \<and> P 4 \<and> P 5 \<and> P 6 \<and> P 7 \<and>
     P 8 \<and> P 9 \<and> P 10 \<and> P 11 \<and> P 12 \<and> P 13 \<and> P 14 \<and> P 15 \<and>
     P 16 \<and> P 17 \<and> P 18 \<and> P 19 \<and> P 20 \<and> P 21 \<and> P 22 \<and> P 23 \<and>
     P 24 \<and> P 25 \<and> P 26 \<and> P 27 \<and> P 28 \<and> P 29 \<and> P 30 \<and> P (31::nat)"
  by (simp add: numeral_eq_Suc All_less_Suc conj_ac)

lemma u8_eq_iff: "(x :: u8) = y \<longleftrightarrow> (\<forall>n<8. bit x n = bit y n)"
  by (auto simp: bit_eq_iff dest: bit_imp_le_length)

lemma u32_eq_iff: "(x :: u32) = y \<longleftrightarrow> (\<forall>n<32. bit x n = bit y n)"
  by (auto simp: bit_eq_iff dest: bit_imp_le_length)

section \<open>Little-endian words in byte memory\<close>

type_synonym mem = "u64 \<Rightarrow> u8"

definition le32_bytes :: "u32 \<Rightarrow> u8 list" where
  "le32_bytes w = [ucast w, ucast (drop_bit 8 w), ucast (drop_bit 16 w), ucast (drop_bit 24 w)]"

definition le32_word :: "u8 \<Rightarrow> u8 \<Rightarrow> u8 \<Rightarrow> u8 \<Rightarrow> u32" where
  "le32_word a b c d = ucast a OR push_bit 8 (ucast b) OR push_bit 16 (ucast c) OR push_bit 24 (ucast d)"

lemma length_le32_bytes [simp]: "length (le32_bytes w) = 4"
  by (simp add: le32_bytes_def)

lemma le32_bytes_word: "le32_bytes (le32_word a b c d) = [a, b, c, d]"
  by (auto simp: le32_bytes_def le32_word_def bit_eq_iff bit_simps dest: bit_imp_le_length)

lemma le32_word_bytes:
  "le32_word (ucast w) (ucast (drop_bit 8 w)) (ucast (drop_bit 16 w)) (ucast (drop_bit 24 w)) = w"
  by (auto simp: le32_word_def u32_eq_iff bit_simps blast_bits)

text \<open>The words behind a byte pointer, and the bytes a memory holds from an address on.\<close>

definition ptr_words :: "(nat \<Rightarrow> u8) \<Rightarrow> nat \<Rightarrow> u32" where
  "ptr_words b i = le32_word (b (4 * i)) (b (4 * i + 1)) (b (4 * i + 2)) (b (4 * i + 3))"

definition mem_ptr :: "mem \<Rightarrow> u64 \<Rightarrow> nat \<Rightarrow> u8" where
  "mem_ptr m p i = m (p + of_nat i)"

fun store_bytes :: "u64 \<Rightarrow> u8 list \<Rightarrow> mem \<Rightarrow> mem" where
  "store_bytes p [] m = m"
| "store_bytes p (b # bs) m = store_bytes (p + 1) bs (m(p := b))"

lemma store_bytes_append: "store_bytes p (xs @ ys) m = store_bytes (p + of_nat (length xs)) ys (store_bytes p xs m)"
  by (induction xs arbitrary: p m) (simp_all add: add.assoc)

lemma unat_minus_Suc:
  fixes a p :: u64
  assumes "a \<noteq> p"
  shows "unat (a - p) = Suc (unat (a - (p + 1)))"
proof -
  have "a - p \<noteq> 0"
    using assms by simp
  then have "unat (a - p - 1) = unat (a - p) - 1" "unat (a - p) \<noteq> 0"
    by (simp_all add: unat_minus_one unat_eq_zero del: right_minus_eq)
  then show ?thesis
    by (simp add: diff_diff_eq)
qed

lemma store_bytes_apply:
  assumes "length bs \<le> 2 ^ 64"
  shows "store_bytes p bs m a = (if unat (a - p) < length bs then bs ! unat (a - p) else m a)"
  using assms
proof (induction bs arbitrary: p m)
  case (Cons b bs)
  show ?case
  proof (cases "a = p")
    case True
    have "unat (- 1 :: u64) = 2 ^ 64 - 1"
      by (simp add: unsigned_minus_1_eq_mask mask_eq_exp_minus_1)
    with True Cons show ?thesis
      by simp
  next
    case False
    with Cons show ?thesis
      by (simp add: unat_minus_Suc)
  qed
qed simp

lemma ptr_words_bytes:
  "concat (map (\<lambda>i. le32_bytes (ptr_words b i)) [0..<n]) = map b [0..<4 * n]"
proof (induction n)
  case (Suc n)
  have "[0..<4 * n + 4] = [0..<4 * n] @ [4 * n..<4 * n + 4]"
    by (rule upt_add_eq_append) simp
  also have "[4 * n..<4 * n + 4] = [4 * n, 4 * n + 1, 4 * n + 2, 4 * n + 3]"
    by (simp add: upt_conv_Cons)
  finally have "[0..<4 * Suc n] = [0..<4 * n] @ [4 * n, 4 * n + 1, 4 * n + 2, 4 * n + 3]"
    by (simp add: add.commute)
  then show ?case
    using Suc by (simp add: ptr_words_def le32_bytes_word)
qed simp

section \<open>Memory-mapped devices\<close>

text \<open>
  A volatile access \<^verbatim>\<open>*(volatile u32 *)(addr)\<close> reaches a device, not a memory cell: a
  load may change the device and a store may do more than keep the value. The device is a
  parameter of every driver model: a record of its load and store functions over an
  arbitrary device state. Plain memory is the instance in which every address is a cell.
\<close>

record 's mmio =
  mload :: "u64 \<Rightarrow> 's \<Rightarrow> u32 \<times> 's"
  mstore :: "u64 \<Rightarrow> u32 \<Rightarrow> 's \<Rightarrow> 's"

definition mem_mmio :: "(u64 \<Rightarrow> u32) mmio" where
  "mem_mmio = \<lparr>mload = (\<lambda>a m. (m a, m)), mstore = (\<lambda>a v m. m(a := v))\<rparr>"

definition load32 :: "'s mmio \<Rightarrow> u64 \<Rightarrow> ('s, u32) state" where
  "load32 M a = State (mload M a)"

definition store32 :: "'s mmio \<Rightarrow> u64 \<Rightarrow> u32 \<Rightarrow> ('s, unit) state" where
  "store32 M a v = State (\<lambda>s. ((), mstore M a v s))"

lemma run_load32 [run_simps]: "run_state (load32 M a) s = mload M a s"
  by (simp add: load32_def)

lemma run_store32 [run_simps]: "run_state (store32 M a v) s = ((), mstore M a v s)"
  by (simp add: store32_def)

text \<open>
  The contract of the registers a driver programs: on the addresses \<open>R\<close> the device keeps
  one 32-bit cell each. A load returns the cell and changes nothing; a store sets its own
  cell and no other one. What the device does besides is not constrained.
\<close>

locale reg_cells =
  fixes M :: "'s mmio" and cell :: "u64 \<Rightarrow> 's \<Rightarrow> u32" and R :: "u64 set"
  assumes load_cell: "a \<in> R \<Longrightarrow> mload M a s = (cell a s, s)"
    and store_cell: "a \<in> R \<Longrightarrow> b \<in> R \<Longrightarrow> cell b (mstore M a v s) = (if b = a then v else cell b s)"
begin

lemma run_load_cell: "a \<in> R \<Longrightarrow> run_state (load32 M a) s = (cell a s, s)"
  by (simp add: run_load32 load_cell)

lemma load_after_store:
  "a \<in> R \<Longrightarrow> run_state (load32 M a) (mstore M a v s) = (v, mstore M a v s)"
  by (simp add: run_load_cell store_cell)

lemma store_store:
  "a \<in> R \<Longrightarrow> b \<in> R \<Longrightarrow> cell b (mstore M a v (mstore M a w s)) = cell b (mstore M a v s)"
  by (simp add: store_cell)

end

interpretation mem: reg_cells mem_mmio "\<lambda>a m. m a" UNIV
  by unfold_locales (simp_all add: mem_mmio_def)

end
