(* ===== verification/Apm_Regs.thy ===== *)
theory Apm_Regs
  imports Lime_Prelude
begin

text \<open>
  The register map of the AXI Performance Monitor, \<^verbatim>\<open>src/shared/linux/xapm.h\<close>: register
  offsets, bit masks, metric sets, event flags and modes, one definition per macro. The
  numbered families of per-counter registers (\<^verbatim>\<open>XAPM_MC0_OFFSET\<close> to \<^verbatim>\<open>XAPM_MC47_OFFSET\<close>
  and so on) are lists, so that \<open>XAPM_MC_OFFSETS ! k\<close> is the offset the header gives
  to register \<open>k\<close>.
\<close>

definition XAPM_GCC_HIGH_OFFSET :: u32 where
  "XAPM_GCC_HIGH_OFFSET = 0x0"

definition XAPM_GCC_LOW_OFFSET :: u32 where
  "XAPM_GCC_LOW_OFFSET = 0x4"

definition XAPM_SI_LOW_OFFSET :: u32 where
  "XAPM_SI_LOW_OFFSET = 0x24"

definition XAPM_SICR_OFFSET :: u32 where
  "XAPM_SICR_OFFSET = 0x28"

definition XAPM_SR_OFFSET :: u32 where
  "XAPM_SR_OFFSET = 0x2C"

definition XAPM_GIE_OFFSET :: u32 where
  "XAPM_GIE_OFFSET = 0x30"

definition XAPM_IE_OFFSET :: u32 where
  "XAPM_IE_OFFSET = 0x34"

definition XAPM_IS_OFFSET :: u32 where
  "XAPM_IS_OFFSET = 0x38"

definition XAPM_MSR0_OFFSET :: u32 where
  "XAPM_MSR0_OFFSET = 0x44"

definition XAPM_MSR1_OFFSET :: u32 where
  "XAPM_MSR1_OFFSET = 0x48"

definition XAPM_MSR2_OFFSET :: u32 where
  "XAPM_MSR2_OFFSET = 0x4C"

definition XAPM_MC0_OFFSET :: u32 where
  "XAPM_MC0_OFFSET = 0x100"

definition XAPM_INC0_OFFSET :: u32 where
  "XAPM_INC0_OFFSET = 0x104"

definition XAPM_RANGE0_OFFSET :: u32 where
  "XAPM_RANGE0_OFFSET = 0x108"

definition XAPM_MC0LOGEN_OFFSET :: u32 where
  "XAPM_MC0LOGEN_OFFSET = 0x10C"

definition XAPM_SMC0_OFFSET :: u32 where
  "XAPM_SMC0_OFFSET = 0x200"

definition XAPM_SINC0_OFFSET :: u32 where
  "XAPM_SINC0_OFFSET = 0x204"

definition XAPM_CTL_OFFSET :: u32 where
  "XAPM_CTL_OFFSET = 0x300"

definition XAPM_ID_OFFSET :: u32 where
  "XAPM_ID_OFFSET = 0x304"

definition XAPM_IDMASK_OFFSET :: u32 where
  "XAPM_IDMASK_OFFSET = 0x308"

definition XAPM_RID_OFFSET :: u32 where
  "XAPM_RID_OFFSET = 0x30C"

definition XAPM_RIDMASK_OFFSET :: u32 where
  "XAPM_RIDMASK_OFFSET = 0x310"

definition XAPM_FEC_OFFSET :: u32 where
  "XAPM_FEC_OFFSET = 0x400"

definition XAPM_SWD_OFFSET :: u32 where
  "XAPM_SWD_OFFSET = 0x404"

definition XAPM_SICR_MCNTR_RST_MASK :: u32 where
  "XAPM_SICR_MCNTR_RST_MASK = 0x100"

definition XAPM_SICR_LOAD_MASK :: u32 where
  "XAPM_SICR_LOAD_MASK = 0x2"

definition XAPM_SICR_ENABLE_MASK :: u32 where
  "XAPM_SICR_ENABLE_MASK = 0x1"

definition XAPM_IXR_MC9_OVERFLOW_MASK :: u32 where
  "XAPM_IXR_MC9_OVERFLOW_MASK = 0x1000"

definition XAPM_IXR_MC8_OVERFLOW_MASK :: u32 where
  "XAPM_IXR_MC8_OVERFLOW_MASK = 0x800"

definition XAPM_IXR_MC7_OVERFLOW_MASK :: u32 where
  "XAPM_IXR_MC7_OVERFLOW_MASK = 0x400"

definition XAPM_IXR_MC6_OVERFLOW_MASK :: u32 where
  "XAPM_IXR_MC6_OVERFLOW_MASK = 0x200"

definition XAPM_IXR_MC5_OVERFLOW_MASK :: u32 where
  "XAPM_IXR_MC5_OVERFLOW_MASK = 0x100"

definition XAPM_IXR_MC4_OVERFLOW_MASK :: u32 where
  "XAPM_IXR_MC4_OVERFLOW_MASK = 0x80"

definition XAPM_IXR_MC3_OVERFLOW_MASK :: u32 where
  "XAPM_IXR_MC3_OVERFLOW_MASK = 0x40"

definition XAPM_IXR_MC2_OVERFLOW_MASK :: u32 where
  "XAPM_IXR_MC2_OVERFLOW_MASK = 0x20"

definition XAPM_IXR_MC1_OVERFLOW_MASK :: u32 where
  "XAPM_IXR_MC1_OVERFLOW_MASK = 0x10"

definition XAPM_IXR_MC0_OVERFLOW_MASK :: u32 where
  "XAPM_IXR_MC0_OVERFLOW_MASK = 0x8"

definition XAPM_IXR_FIFO_FULL_MASK :: u32 where
  "XAPM_IXR_FIFO_FULL_MASK = 0x4"

definition XAPM_IXR_SIC_OVERFLOW_MASK :: u32 where
  "XAPM_IXR_SIC_OVERFLOW_MASK = 0x2"

definition XAPM_IXR_GCC_OVERFLOW_MASK :: u32 where
  "XAPM_IXR_GCC_OVERFLOW_MASK = 0x1"

definition XAPM_CR_FIFO_RESET_MASK :: u32 where
  "XAPM_CR_FIFO_RESET_MASK = 0x2000000"

definition XAPM_CR_GCC_RESET_MASK :: u32 where
  "XAPM_CR_GCC_RESET_MASK = 0x20000"

definition XAPM_CR_GCC_ENABLE_MASK :: u32 where
  "XAPM_CR_GCC_ENABLE_MASK = 0x10000"

definition XAPM_CR_EVTLOG_EXTTRIGGER_MASK :: u32 where
  "XAPM_CR_EVTLOG_EXTTRIGGER_MASK = 0x200"

definition XAPM_CR_EVENTLOG_ENABLE_MASK :: u32 where
  "XAPM_CR_EVENTLOG_ENABLE_MASK = 0x100"

definition XAPM_CR_RDLATENCY_END_MASK :: u32 where
  "XAPM_CR_RDLATENCY_END_MASK = 0x80"

definition XAPM_CR_RDLATENCY_START_MASK :: u32 where
  "XAPM_CR_RDLATENCY_START_MASK = 0x40"

definition XAPM_CR_WRLATENCY_END_MASK :: u32 where
  "XAPM_CR_WRLATENCY_END_MASK = 0x20"

definition XAPM_CR_WRLATENCY_START_MASK :: u32 where
  "XAPM_CR_WRLATENCY_START_MASK = 0x10"

definition XAPM_CR_IDFILTER_ENABLE_MASK :: u32 where
  "XAPM_CR_IDFILTER_ENABLE_MASK = 0x8"

definition XAPM_CR_MCNTR_EXTTRIGGER_MASK :: u32 where
  "XAPM_CR_MCNTR_EXTTRIGGER_MASK = 0x4"

definition XAPM_CR_MCNTR_RESET_MASK :: u32 where
  "XAPM_CR_MCNTR_RESET_MASK = 0x2"

definition XAPM_CR_MCNTR_ENABLE_MASK :: u32 where
  "XAPM_CR_MCNTR_ENABLE_MASK = 0x1"

definition XAPM_ID_RID_MASK :: u32 where
  "XAPM_ID_RID_MASK = 0xFFFF0000"

definition XAPM_ID_WID_MASK :: u32 where
  "XAPM_ID_WID_MASK = 0xFFFF"

definition XAPM_MASKID_RID_MASK :: u32 where
  "XAPM_MASKID_RID_MASK = 0xFFFF0000"

definition XAPM_MASKID_WID_MASK :: u32 where
  "XAPM_MASKID_WID_MASK = 0xFFFF"

definition XAPM_METRIC_COUNTER_0 :: u32 where
  "XAPM_METRIC_COUNTER_0 = 0"

definition XAPM_METRIC_COUNTER_1 :: u32 where
  "XAPM_METRIC_COUNTER_1 = 1"

definition XAPM_METRIC_COUNTER_2 :: u32 where
  "XAPM_METRIC_COUNTER_2 = 2"

definition XAPM_METRIC_COUNTER_3 :: u32 where
  "XAPM_METRIC_COUNTER_3 = 3"

definition XAPM_METRIC_COUNTER_4 :: u32 where
  "XAPM_METRIC_COUNTER_4 = 4"

definition XAPM_METRIC_COUNTER_5 :: u32 where
  "XAPM_METRIC_COUNTER_5 = 5"

definition XAPM_METRIC_COUNTER_6 :: u32 where
  "XAPM_METRIC_COUNTER_6 = 6"

definition XAPM_METRIC_COUNTER_7 :: u32 where
  "XAPM_METRIC_COUNTER_7 = 7"

definition XAPM_INCREMENTER_2 :: u32 where
  "XAPM_INCREMENTER_2 = 2"

definition XAPM_INCREMENTER_6 :: u32 where
  "XAPM_INCREMENTER_6 = 6"

definition XAPM_METRIC_SET_0 :: u8 where
  "XAPM_METRIC_SET_0 = 0"

definition XAPM_METRIC_SET_1 :: u8 where
  "XAPM_METRIC_SET_1 = 1"

definition XAPM_METRIC_SET_2 :: u8 where
  "XAPM_METRIC_SET_2 = 2"

definition XAPM_METRIC_SET_3 :: u8 where
  "XAPM_METRIC_SET_3 = 3"

definition XAPM_METRIC_SET_4 :: u8 where
  "XAPM_METRIC_SET_4 = 4"

definition XAPM_METRIC_SET_5 :: u8 where
  "XAPM_METRIC_SET_5 = 5"

definition XAPM_METRIC_SET_6 :: u8 where
  "XAPM_METRIC_SET_6 = 6"

definition XAPM_METRIC_SET_7 :: u8 where
  "XAPM_METRIC_SET_7 = 7"

definition XAPM_METRIC_SET_8 :: u8 where
  "XAPM_METRIC_SET_8 = 8"

definition XAPM_METRIC_SET_9 :: u8 where
  "XAPM_METRIC_SET_9 = 9"

definition XAPM_METRIC_SET_10 :: u8 where
  "XAPM_METRIC_SET_10 = 10"

definition XAPM_METRIC_SET_11 :: u8 where
  "XAPM_METRIC_SET_11 = 11"

definition XAPM_METRIC_SET_12 :: u8 where
  "XAPM_METRIC_SET_12 = 12"

definition XAPM_METRIC_SET_13 :: u8 where
  "XAPM_METRIC_SET_13 = 13"

definition XAPM_METRIC_SET_14 :: u8 where
  "XAPM_METRIC_SET_14 = 14"

definition XAPM_METRIC_SET_15 :: u8 where
  "XAPM_METRIC_SET_15 = 15"

definition XAPM_METRIC_SET_16 :: u8 where
  "XAPM_METRIC_SET_16 = 16"

definition XAPM_METRIC_SET_17 :: u8 where
  "XAPM_METRIC_SET_17 = 17"

definition XAPM_METRIC_SET_18 :: u8 where
  "XAPM_METRIC_SET_18 = 18"

definition XAPM_METRIC_SET_19 :: u8 where
  "XAPM_METRIC_SET_19 = 19"

definition XAPM_METRIC_SET_20 :: u8 where
  "XAPM_METRIC_SET_20 = 20"

definition XAPM_METRIC_SET_21 :: u8 where
  "XAPM_METRIC_SET_21 = 21"

definition XAPM_METRIC_SET_22 :: u8 where
  "XAPM_METRIC_SET_22 = 22"

definition XAPM_METRIC_SET_30 :: u8 where
  "XAPM_METRIC_SET_30 = 30"

definition XAPM_FLAG_WRADDR :: u32 where
  "XAPM_FLAG_WRADDR = 0x1"

definition XAPM_FLAG_FIRSTWR :: u32 where
  "XAPM_FLAG_FIRSTWR = 0x2"

definition XAPM_FLAG_LASTWR :: u32 where
  "XAPM_FLAG_LASTWR = 0x4"

definition XAPM_FLAG_RESPONSE :: u32 where
  "XAPM_FLAG_RESPONSE = 0x8"

definition XAPM_FLAG_RDADDR :: u32 where
  "XAPM_FLAG_RDADDR = 0x10"

definition XAPM_FLAG_FIRSTRD :: u32 where
  "XAPM_FLAG_FIRSTRD = 0x20"

definition XAPM_FLAG_LASTRD :: u32 where
  "XAPM_FLAG_LASTRD = 0x40"

definition XAPM_FLAG_SWDATA :: u32 where
  "XAPM_FLAG_SWDATA = 0x10000"

definition XAPM_LATENCY_ADDR_ISSUE :: u8 where
  "XAPM_LATENCY_ADDR_ISSUE = 0"

definition XAPM_LATENCY_ADDR_ACCEPT :: u8 where
  "XAPM_LATENCY_ADDR_ACCEPT = 1"

definition XAPM_LATENCY_LASTRD :: u8 where
  "XAPM_LATENCY_LASTRD = 0"

definition XAPM_LATENCY_LASTWR :: u8 where
  "XAPM_LATENCY_LASTWR = 0"

definition XAPM_LATENCY_FIRSTRD :: u8 where
  "XAPM_LATENCY_FIRSTRD = 1"

definition XAPM_LATENCY_FIRSTWR :: u8 where
  "XAPM_LATENCY_FIRSTWR = 1"

definition XAPM_MODE_TRACE :: u32 where
  "XAPM_MODE_TRACE = 2"

definition XAPM_MODE_PROFILE :: u32 where
  "XAPM_MODE_PROFILE = 1"

definition XAPM_MODE_ADVANCED :: u32 where
  "XAPM_MODE_ADVANCED = 0"

definition XAPM_MC_OFFSETS :: "u32 list" where
  "XAPM_MC_OFFSETS =
     [0x100, 0x110, 0x120, 0x130, 0x140, 0x150, 0x160, 0x170,
      0x180, 0x190, 0x1A0, 0x1B0, 0x500, 0x510, 0x520, 0x530,
      0x540, 0x550, 0x560, 0x570, 0x580, 0x590, 0x5A0, 0x5B0,
      0x700, 0x710, 0x720, 0x730, 0x740, 0x750, 0x760, 0x770,
      0x780, 0x790, 0x7A0, 0x7B0, 0x900, 0x910, 0x920, 0x930,
      0x940, 0x950, 0x960, 0x970, 0x980, 0x990, 0x9A0, 0x9B0]"

definition XAPM_INC_OFFSETS :: "u32 list" where
  "XAPM_INC_OFFSETS =
     [0x104, 0x114, 0x124, 0x134, 0x144, 0x154, 0x164, 0x174,
      0x184, 0x194]"

definition XAPM_RANGE_OFFSETS :: "u32 list" where
  "XAPM_RANGE_OFFSETS =
     [0x108, 0x118, 0x128, 0x138, 0x148, 0x158, 0x168, 0x178,
      0x188, 0x198]"

definition XAPM_MCLOGEN_OFFSETS :: "u32 list" where
  "XAPM_MCLOGEN_OFFSETS =
     [0x10C, 0x11C, 0x12C, 0x13C, 0x14C, 0x15C, 0x16C, 0x17C,
      0x18C, 0x19C]"

definition XAPM_SMC_OFFSETS :: "u32 list" where
  "XAPM_SMC_OFFSETS =
     [0x200, 0x210, 0x220, 0x230, 0x240, 0x250, 0x260, 0x270,
      0x280, 0x290, 0x2A0, 0x2B0, 0x600, 0x610, 0x620, 0x630,
      0x640, 0x650, 0x660, 0x670, 0x680, 0x690, 0x6A0, 0x6B0,
      0x800, 0x810, 0x820, 0x830, 0x840, 0x850, 0x860, 0x870,
      0x880, 0x890, 0x8A0, 0x8B0, 0xA00, 0xA10, 0xA20, 0xA30,
      0xA40, 0xA50, 0xA60, 0xA70, 0xA80, 0xA90, 0xAA0, 0xAB0]"

definition XAPM_SINC_OFFSETS :: "u32 list" where
  "XAPM_SINC_OFFSETS =
     [0x204, 0x214, 0x224, 0x234, 0x244, 0x254, 0x264, 0x274,
      0x284, 0x294]"

definition XAPM_IXR_ALL_MASK :: u32 where
  "XAPM_IXR_ALL_MASK =
     XAPM_IXR_SIC_OVERFLOW_MASK OR XAPM_IXR_GCC_OVERFLOW_MASK OR XAPM_IXR_FIFO_FULL_MASK OR
     XAPM_IXR_MC0_OVERFLOW_MASK OR XAPM_IXR_MC1_OVERFLOW_MASK OR XAPM_IXR_MC2_OVERFLOW_MASK OR
     XAPM_IXR_MC3_OVERFLOW_MASK OR XAPM_IXR_MC4_OVERFLOW_MASK OR XAPM_IXR_MC5_OVERFLOW_MASK OR
     XAPM_IXR_MC6_OVERFLOW_MASK OR XAPM_IXR_MC7_OVERFLOW_MASK OR XAPM_IXR_MC8_OVERFLOW_MASK OR
     XAPM_IXR_MC9_OVERFLOW_MASK"

lemmas apm_consts [reg_consts] =
  XAPM_GCC_HIGH_OFFSET_def XAPM_GCC_LOW_OFFSET_def XAPM_SI_LOW_OFFSET_def XAPM_SICR_OFFSET_def
  XAPM_SR_OFFSET_def XAPM_GIE_OFFSET_def XAPM_IE_OFFSET_def XAPM_IS_OFFSET_def
  XAPM_MSR0_OFFSET_def XAPM_MSR1_OFFSET_def XAPM_MSR2_OFFSET_def XAPM_MC0_OFFSET_def
  XAPM_INC0_OFFSET_def XAPM_RANGE0_OFFSET_def XAPM_MC0LOGEN_OFFSET_def XAPM_SMC0_OFFSET_def
  XAPM_SINC0_OFFSET_def XAPM_CTL_OFFSET_def XAPM_ID_OFFSET_def XAPM_IDMASK_OFFSET_def
  XAPM_RID_OFFSET_def XAPM_RIDMASK_OFFSET_def XAPM_FEC_OFFSET_def XAPM_SWD_OFFSET_def
  XAPM_SICR_MCNTR_RST_MASK_def XAPM_SICR_LOAD_MASK_def XAPM_SICR_ENABLE_MASK_def
  XAPM_IXR_MC9_OVERFLOW_MASK_def XAPM_IXR_MC8_OVERFLOW_MASK_def XAPM_IXR_MC7_OVERFLOW_MASK_def
  XAPM_IXR_MC6_OVERFLOW_MASK_def XAPM_IXR_MC5_OVERFLOW_MASK_def XAPM_IXR_MC4_OVERFLOW_MASK_def
  XAPM_IXR_MC3_OVERFLOW_MASK_def XAPM_IXR_MC2_OVERFLOW_MASK_def XAPM_IXR_MC1_OVERFLOW_MASK_def
  XAPM_IXR_MC0_OVERFLOW_MASK_def XAPM_IXR_FIFO_FULL_MASK_def XAPM_IXR_SIC_OVERFLOW_MASK_def
  XAPM_IXR_GCC_OVERFLOW_MASK_def XAPM_CR_FIFO_RESET_MASK_def XAPM_CR_GCC_RESET_MASK_def
  XAPM_CR_GCC_ENABLE_MASK_def XAPM_CR_EVTLOG_EXTTRIGGER_MASK_def
  XAPM_CR_EVENTLOG_ENABLE_MASK_def XAPM_CR_RDLATENCY_END_MASK_def
  XAPM_CR_RDLATENCY_START_MASK_def XAPM_CR_WRLATENCY_END_MASK_def
  XAPM_CR_WRLATENCY_START_MASK_def XAPM_CR_IDFILTER_ENABLE_MASK_def
  XAPM_CR_MCNTR_EXTTRIGGER_MASK_def XAPM_CR_MCNTR_RESET_MASK_def XAPM_CR_MCNTR_ENABLE_MASK_def
  XAPM_ID_RID_MASK_def XAPM_ID_WID_MASK_def XAPM_MASKID_RID_MASK_def XAPM_MASKID_WID_MASK_def
  XAPM_METRIC_COUNTER_0_def XAPM_METRIC_COUNTER_1_def XAPM_METRIC_COUNTER_2_def
  XAPM_METRIC_COUNTER_3_def XAPM_METRIC_COUNTER_4_def XAPM_METRIC_COUNTER_5_def
  XAPM_METRIC_COUNTER_6_def XAPM_METRIC_COUNTER_7_def XAPM_INCREMENTER_2_def
  XAPM_INCREMENTER_6_def XAPM_METRIC_SET_0_def XAPM_METRIC_SET_1_def XAPM_METRIC_SET_2_def
  XAPM_METRIC_SET_3_def XAPM_METRIC_SET_4_def XAPM_METRIC_SET_5_def XAPM_METRIC_SET_6_def
  XAPM_METRIC_SET_7_def XAPM_METRIC_SET_8_def XAPM_METRIC_SET_9_def XAPM_METRIC_SET_10_def
  XAPM_METRIC_SET_11_def XAPM_METRIC_SET_12_def XAPM_METRIC_SET_13_def XAPM_METRIC_SET_14_def
  XAPM_METRIC_SET_15_def XAPM_METRIC_SET_16_def XAPM_METRIC_SET_17_def XAPM_METRIC_SET_18_def
  XAPM_METRIC_SET_19_def XAPM_METRIC_SET_20_def XAPM_METRIC_SET_21_def XAPM_METRIC_SET_22_def
  XAPM_METRIC_SET_30_def XAPM_FLAG_WRADDR_def XAPM_FLAG_FIRSTWR_def XAPM_FLAG_LASTWR_def
  XAPM_FLAG_RESPONSE_def XAPM_FLAG_RDADDR_def XAPM_FLAG_FIRSTRD_def XAPM_FLAG_LASTRD_def
  XAPM_FLAG_SWDATA_def XAPM_LATENCY_ADDR_ISSUE_def XAPM_LATENCY_ADDR_ACCEPT_def
  XAPM_LATENCY_LASTRD_def XAPM_LATENCY_LASTWR_def XAPM_LATENCY_FIRSTRD_def
  XAPM_LATENCY_FIRSTWR_def XAPM_MODE_TRACE_def XAPM_MODE_PROFILE_def XAPM_MODE_ADVANCED_def

text \<open>
  The per-counter registers sit 16 bytes apart only within a block of twelve: the
  arithmetic the driver uses (offset of register 0 plus 16 per index) meets the header's
  offsets exactly on the first block.
\<close>

lemma MC_OFFSETS_table:
  "list_all (\<lambda>k. (XAPM_MC_OFFSETS ! k = XAPM_MC0_OFFSET + of_nat k * 16) \<longleftrightarrow> k < 12) [0..<48]"
  by code_simp

lemma SMC_OFFSETS_table:
  "list_all (\<lambda>k. (XAPM_SMC_OFFSETS ! k = XAPM_SMC0_OFFSET + of_nat k * 16) \<longleftrightarrow> k < 12) [0..<48]"
  by code_simp

lemma block_OFFSETS_table:
  "list_all (\<lambda>k. XAPM_INC_OFFSETS ! k = XAPM_INC0_OFFSET + of_nat k * 16 \<and>
     XAPM_RANGE_OFFSETS ! k = XAPM_RANGE0_OFFSET + of_nat k * 16 \<and>
     XAPM_MCLOGEN_OFFSETS ! k = XAPM_MC0LOGEN_OFFSET + of_nat k * 16 \<and>
     XAPM_SINC_OFFSETS ! k = XAPM_SINC0_OFFSET + of_nat k * 16) [0..<10]"
  by code_simp

lemma MC_OFFSETS_nth:
  "k < 48 \<Longrightarrow> (XAPM_MC_OFFSETS ! k = XAPM_MC0_OFFSET + of_nat k * 16) \<longleftrightarrow> k < 12"
  using MC_OFFSETS_table by (simp add: list_all_iff)

lemma SMC_OFFSETS_nth:
  "k < 48 \<Longrightarrow> (XAPM_SMC_OFFSETS ! k = XAPM_SMC0_OFFSET + of_nat k * 16) \<longleftrightarrow> k < 12"
  using SMC_OFFSETS_table by (simp add: list_all_iff)

lemma block_OFFSETS_nth:
  assumes "k < 10"
  shows "XAPM_INC_OFFSETS ! k = XAPM_INC0_OFFSET + of_nat k * 16"
    and "XAPM_RANGE_OFFSETS ! k = XAPM_RANGE0_OFFSET + of_nat k * 16"
    and "XAPM_MCLOGEN_OFFSETS ! k = XAPM_MC0LOGEN_OFFSET + of_nat k * 16"
    and "XAPM_SINC_OFFSETS ! k = XAPM_SINC0_OFFSET + of_nat k * 16"
  using block_OFFSETS_table assms by (simp_all add: list_all_iff)

end
