(* ===== verification/Apm.thy ===== *)
theory Apm
  imports Apm_Regs
begin

text \<open>
  The AXI Performance Monitor driver, \<^verbatim>\<open>src/shared/linux/xapm.c\<close> and the register access
  macros of \<^verbatim>\<open>xapm.h\<close>. The file-scope variables \<^verbatim>\<open>baseaddr\<close> and \<^verbatim>\<open>params\<close> are fields of
  the record \<open>apm\<close> together with the device they reach; every operation is a state-monad
  program over the device state. The locale \<open>apm_dev\<close> is the contract of the registers
  that keep what is written to them; set/get round trips and read-modify-write effects are
  proved once in it.
\<close>

section \<open>Driver state and register access\<close>

record xapm_param =
  mode :: u32
  maxslots :: u32
  eventcnt :: u32
  eventlog :: u32
  sampledcnt :: u32
  numcounters :: u32
  metricwidth :: u32
  sampledwidth :: u32
  globalcntwidth :: u32
  scalefactor :: u32
  isr :: u32
  is_32bit_filter :: bool

record 's apm =
  bus :: "'s mmio"
  baseaddr :: u64
  params :: xapm_param

definition readreg :: "'s apm \<Rightarrow> u32 \<Rightarrow> ('s, u32) state" where
  "readreg A regoffset = load32 (bus A) (baseaddr A + ucast regoffset)"

definition writereg :: "'s apm \<Rightarrow> u32 \<Rightarrow> u32 \<Rightarrow> ('s, unit) state" where
  "writereg A regoffset data = store32 (bus A) (baseaddr A + ucast regoffset) data"

section \<open>Access macros\<close>

definition intrglobalenable :: "'s apm \<Rightarrow> ('s, unit) state" where
  "intrglobalenable A = writereg A XAPM_GIE_OFFSET 1"

definition intrglobaldisable :: "'s apm \<Rightarrow> ('s, unit) state" where
  "intrglobaldisable A = writereg A XAPM_GIE_OFFSET 0"

definition intrenable :: "'s apm \<Rightarrow> u32 \<Rightarrow> ('s, unit) state" where
  "intrenable A msk = do {
     v \<leftarrow> readreg A XAPM_IE_OFFSET;
     writereg A XAPM_IE_OFFSET (v OR msk)
   }"

definition intrdisable :: "'s apm \<Rightarrow> u32 \<Rightarrow> ('s, unit) state" where
  "intrdisable A msk = do {
     v \<leftarrow> readreg A XAPM_IE_OFFSET;
     writereg A XAPM_IE_OFFSET (v OR msk)
   }"

definition intrclear :: "'s apm \<Rightarrow> u32 \<Rightarrow> ('s, unit) state" where
  "intrclear A msk = do {
     v \<leftarrow> readreg A XAPM_IS_OFFSET;
     writereg A XAPM_IS_OFFSET (v OR msk)
   }"

definition intrgetstatus :: "'s apm \<Rightarrow> u32" where
  "intrgetstatus A = isr (params A)"

definition intrhwgetstatus :: "'s apm \<Rightarrow> u32" where
  "intrhwgetstatus A = isr (params A)"

definition enablegcc :: "'s apm \<Rightarrow> ('s, unit) state" where
  "enablegcc A = do {
     v \<leftarrow> readreg A XAPM_CTL_OFFSET;
     writereg A XAPM_CTL_OFFSET (v OR XAPM_CR_GCC_ENABLE_MASK)
   }"

definition disablegcc :: "'s apm \<Rightarrow> ('s, unit) state" where
  "disablegcc A = do {
     v \<leftarrow> readreg A XAPM_CTL_OFFSET;
     writereg A XAPM_CTL_OFFSET (v AND NOT XAPM_CR_GCC_ENABLE_MASK)
   }"

definition enableflag :: "'s apm \<Rightarrow> u32 \<Rightarrow> ('s, unit) state" where
  "enableflag A flag = do {
     v \<leftarrow> readreg A XAPM_FEC_OFFSET;
     writereg A XAPM_FEC_OFFSET (v OR flag)
   }"

definition disableflag :: "'s apm \<Rightarrow> u32 \<Rightarrow> ('s, unit) state" where
  "disableflag A flag = do {
     v \<leftarrow> readreg A XAPM_FEC_OFFSET;
     writereg A XAPM_FEC_OFFSET (v AND NOT flag)
   }"

definition loadsic :: "'s apm \<Rightarrow> ('s, unit) state" where
  "loadsic A = writereg A XAPM_SICR_OFFSET XAPM_SICR_LOAD_MASK"

definition enablesic :: "'s apm \<Rightarrow> ('s, unit) state" where
  "enablesic A = writereg A XAPM_SICR_OFFSET XAPM_SICR_ENABLE_MASK"

definition disablesic :: "'s apm \<Rightarrow> ('s, unit) state" where
  "disablesic A = do {
     v \<leftarrow> readreg A XAPM_SICR_OFFSET;
     writereg A XAPM_SICR_OFFSET (v AND NOT XAPM_SICR_ENABLE_MASK)
   }"

definition enablemcreset :: "'s apm \<Rightarrow> ('s, unit) state" where
  "enablemcreset A = writereg A XAPM_SICR_OFFSET XAPM_SICR_MCNTR_RST_MASK"

definition disablemcreset :: "'s apm \<Rightarrow> ('s, unit) state" where
  "disablemcreset A = do {
     v \<leftarrow> readreg A XAPM_SICR_OFFSET;
     writereg A XAPM_SICR_OFFSET (v AND NOT XAPM_SICR_MCNTR_RST_MASK)
   }"

definition enableidfilter :: "'s apm \<Rightarrow> ('s, unit) state" where
  "enableidfilter A = do {
     v \<leftarrow> readreg A XAPM_CTL_OFFSET;
     writereg A XAPM_CTL_OFFSET (v OR XAPM_CR_IDFILTER_ENABLE_MASK)
   }"

definition disableidfilter :: "'s apm \<Rightarrow> ('s, unit) state" where
  "disableidfilter A = do {
     v \<leftarrow> readreg A XAPM_CTL_OFFSET;
     writereg A XAPM_CTL_OFFSET (v AND NOT XAPM_CR_IDFILTER_ENABLE_MASK)
   }"

definition samplemetrics :: "'s apm \<Rightarrow> ('s, u32) state" where
  "samplemetrics A = readreg A XAPM_SR_OFFSET"

section \<open>Resets\<close>

definition resetmetriccounter :: "'s apm \<Rightarrow> ('s, int) state" where
  "resetmetriccounter A = do {
     regval \<leftarrow> readreg A XAPM_CTL_OFFSET;
     writereg A XAPM_CTL_OFFSET (regval OR XAPM_CR_MCNTR_RESET_MASK);
     writereg A XAPM_CTL_OFFSET (regval AND NOT XAPM_CR_MCNTR_RESET_MASK);
     State_Monad.return XST_SUCCESS
   }"

definition resetglobalclkcounter :: "'s apm \<Rightarrow> ('s, unit) state" where
  "resetglobalclkcounter A = do {
     regval \<leftarrow> readreg A XAPM_CTL_OFFSET;
     writereg A XAPM_CTL_OFFSET (regval OR XAPM_CR_GCC_RESET_MASK);
     writereg A XAPM_CTL_OFFSET (regval AND NOT XAPM_CR_GCC_RESET_MASK)
   }"

definition resetfifo :: "'s apm \<Rightarrow> ('s, int) state" where
  "resetfifo A =
     (if eventlog (params A) = 0 then State_Monad.return XST_SUCCESS
      else do {
        regval \<leftarrow> readreg A XAPM_CTL_OFFSET;
        writereg A XAPM_CTL_OFFSET (regval OR XAPM_CR_FIFO_RESET_MASK);
        writereg A XAPM_CTL_OFFSET (regval AND NOT XAPM_CR_FIFO_RESET_MASK);
        State_Monad.return XST_SUCCESS
      })"

section \<open>Ranges, sample interval, metric selectors\<close>

definition setincrementerrange :: "'s apm \<Rightarrow> u8 \<Rightarrow> u16 \<Rightarrow> u16 \<Rightarrow> ('s, unit) state" where
  "setincrementerrange A incrementer rangehigh rangelow =
     writereg A (XAPM_RANGE0_OFFSET + ucast incrementer * 16)
       (push_bit 16 (ucast rangehigh) OR ucast rangelow)"

definition getincrementerrange :: "'s apm \<Rightarrow> u8 \<Rightarrow> ('s, u16 \<times> u16) state" where
  "getincrementerrange A incrementer = do {
     regval \<leftarrow> readreg A (XAPM_RANGE0_OFFSET + ucast incrementer * 16);
     let rangelow = ucast (regval AND 0xFFFF);
     let rangehigh = ucast (drop_bit 16 regval AND 0xFFFF);
     State_Monad.return (rangehigh, rangelow)
   }"

definition setsampleinterval :: "'s apm \<Rightarrow> u32 \<Rightarrow> ('s, unit) state" where
  "setsampleinterval A sampleinterval = writereg A XAPM_SI_LOW_OFFSET sampleinterval"

definition getsampleinterval :: "'s apm \<Rightarrow> ('s, u32) state" where
  "getsampleinterval A = readreg A XAPM_SI_LOW_OFFSET"

text \<open>
  The three branches of \<^verbatim>\<open>setmetrics\<close> and of \<^verbatim>\<open>getmetrics\<close> build and read the register
  value with the same expressions; they are named here. Shifts by 32 or more (counters
  above 11, outside the documented 0 to 9) are undefined in C.
\<close>

definition msr_value :: "u32 \<Rightarrow> u32 \<Rightarrow> u8 \<Rightarrow> u8 \<Rightarrow> u8 \<Rightarrow> u32" where
  "msr_value regval msk slot metrics counter =
     (regval AND msk) OR push_bit (unat counter * 8) (ucast metrics)
       OR push_bit (unat counter * 8 + 5) (ucast slot)"

definition msr_fields :: "u32 \<Rightarrow> u8 \<Rightarrow> u8 \<times> u8" where
  "msr_fields regval counter =
     (ucast (drop_bit (unat counter * 8) regval AND 0x1F),
      ucast (drop_bit (unat counter * 8 + 5) regval AND 0x7))"

definition setmetrics :: "'s apm \<Rightarrow> u8 \<Rightarrow> u8 \<Rightarrow> u8 \<Rightarrow> ('s, int) state" where
  "setmetrics A slot metrics counter =
    (let msk =
       (if counter = 0 \<or> counter = 4 \<or> counter = 8 then 0xFFFFFF00
        else if counter = 1 \<or> counter = 5 \<or> counter = 9 then 0xFFFF00FF
        else if counter = 2 \<or> counter = 6 then 0xFF00FFFF
        else 0x00FFFFFF)
     in if counter \<le> 3 then do {
          regval \<leftarrow> readreg A XAPM_MSR0_OFFSET;
          writereg A XAPM_MSR0_OFFSET (msr_value regval msk slot metrics counter);
          State_Monad.return XST_SUCCESS
        } else if counter \<ge> 4 \<and> counter \<le> 7 then do {
          regval \<leftarrow> readreg A XAPM_MSR1_OFFSET;
          writereg A XAPM_MSR1_OFFSET (msr_value regval msk slot metrics (counter - 4));
          State_Monad.return XST_SUCCESS
        } else do {
          regval \<leftarrow> readreg A XAPM_MSR2_OFFSET;
          writereg A XAPM_MSR2_OFFSET (msr_value regval msk slot metrics (counter - 8));
          State_Monad.return XST_SUCCESS
        })"

definition getmetrics :: "'s apm \<Rightarrow> u8 \<Rightarrow> ('s, u8 \<times> u8) state" where
  "getmetrics A counter =
     (if counter \<le> 3 then do {
        regval \<leftarrow> readreg A XAPM_MSR0_OFFSET;
        State_Monad.return (msr_fields regval counter)
      } else if counter \<ge> 4 \<and> counter \<le> 7 then do {
        regval \<leftarrow> readreg A XAPM_MSR1_OFFSET;
        State_Monad.return (msr_fields regval (counter - 4))
      } else do {
        regval \<leftarrow> readreg A XAPM_MSR2_OFFSET;
        State_Monad.return (msr_fields regval (counter - 8))
      })"

section \<open>Counters\<close>

definition getglobalclkcounter :: "'s apm \<Rightarrow> ('s, u32 \<times> u32) state" where
  "getglobalclkcounter A = do {
     cnthigh \<leftarrow> (if globalcntwidth (params A) = 64 then readreg A XAPM_GCC_HIGH_OFFSET
                 else State_Monad.return 0);
     cntlow \<leftarrow> readreg A XAPM_GCC_LOW_OFFSET;
     State_Monad.return (cnthigh, cntlow)
   }"

definition getmetriccounter :: "'s apm \<Rightarrow> u32 \<Rightarrow> ('s, u32) state" where
  "getmetriccounter A counter = readreg A (XAPM_MC0_OFFSET + counter * 16)"

definition getsampledmetriccounter :: "'s apm \<Rightarrow> u32 \<Rightarrow> ('s, u32) state" where
  "getsampledmetriccounter A counter = readreg A (XAPM_SMC0_OFFSET + counter * 16)"

definition getincrementer :: "'s apm \<Rightarrow> u32 \<Rightarrow> ('s, u32) state" where
  "getincrementer A incrementer = readreg A (XAPM_INC0_OFFSET + incrementer * 16)"

definition getsampledincrementer :: "'s apm \<Rightarrow> u32 \<Rightarrow> ('s, u32) state" where
  "getsampledincrementer A incrementer = readreg A (XAPM_SINC0_OFFSET + incrementer * 16)"

definition setswdatareg :: "'s apm \<Rightarrow> u32 \<Rightarrow> ('s, unit) state" where
  "setswdatareg A swdata = writereg A XAPM_SWD_OFFSET swdata"

definition getswdatareg :: "'s apm \<Rightarrow> ('s, u32) state" where
  "getswdatareg A = readreg A XAPM_SWD_OFFSET"

definition starteventlog :: "'s apm \<Rightarrow> u32 \<Rightarrow> ('s, int) state" where
  "starteventlog A flagenables = do {
     regval \<leftarrow> readreg A XAPM_CTL_OFFSET;
     writereg A XAPM_FEC_OFFSET flagenables;
     writereg A XAPM_CTL_OFFSET (regval OR XAPM_CR_EVENTLOG_ENABLE_MASK);
     State_Monad.return XST_SUCCESS
   }"

definition stopeventlog :: "'s apm \<Rightarrow> ('s, int) state" where
  "stopeventlog A = do {
     regval \<leftarrow> readreg A XAPM_CTL_OFFSET;
     writereg A XAPM_CTL_OFFSET (regval AND NOT XAPM_CR_EVENTLOG_ENABLE_MASK);
     State_Monad.return XST_SUCCESS
   }"

definition startcounters :: "'s apm \<Rightarrow> u32 \<Rightarrow> ('s, int) state" where
  "startcounters A sampleinterval = do {
     regval \<leftarrow> readreg A XAPM_CTL_OFFSET;
     let regval = (if mode (params A) = 1 then regval OR XAPM_CR_GCC_ENABLE_MASK else regval);
     writereg A XAPM_CTL_OFFSET (regval OR XAPM_CR_MCNTR_ENABLE_MASK);
     setsampleinterval A sampleinterval;
     loadsic A;
     enablesic A;
     State_Monad.return XST_SUCCESS
   }"

definition stopcounters :: "'s apm \<Rightarrow> ('s, int) state" where
  "stopcounters A = do {
     regval \<leftarrow> readreg A XAPM_CTL_OFFSET;
     let regval = (if mode (params A) = 1 then regval AND NOT XAPM_CR_GCC_ENABLE_MASK else regval);
     writereg A XAPM_CTL_OFFSET (regval AND NOT XAPM_CR_MCNTR_ENABLE_MASK);
     State_Monad.return XST_SUCCESS
   }"

definition enablemetricscounter :: "'s apm \<Rightarrow> ('s, unit) state" where
  "enablemetricscounter A = do {
     regval \<leftarrow> readreg A XAPM_CTL_OFFSET;
     writereg A XAPM_CTL_OFFSET (regval OR XAPM_CR_MCNTR_ENABLE_MASK)
   }"

definition disablemetricscounter :: "'s apm \<Rightarrow> ('s, unit) state" where
  "disablemetricscounter A = do {
     regval \<leftarrow> readreg A XAPM_CTL_OFFSET;
     writereg A XAPM_CTL_OFFSET (regval AND NOT XAPM_CR_MCNTR_ENABLE_MASK)
   }"

definition setlogenableranges :: "'s apm \<Rightarrow> u32 \<Rightarrow> u16 \<Rightarrow> u16 \<Rightarrow> ('s, unit) state" where
  "setlogenableranges A counter rangehigh rangelow =
     writereg A (XAPM_MC0LOGEN_OFFSET + counter * 16)
       (push_bit 16 (ucast rangehigh) OR ucast rangelow)"

definition getlogenableranges :: "'s apm \<Rightarrow> u32 \<Rightarrow> ('s, u16 \<times> u16) state" where
  "getlogenableranges A counter = do {
     regval \<leftarrow> readreg A (XAPM_MC0LOGEN_OFFSET + counter * 16);
     let rangelow = ucast (regval AND 0xFFFF);
     let rangehigh = ucast (drop_bit 16 regval AND 0xFFFF);
     State_Monad.return (rangehigh, rangelow)
   }"

section \<open>Event log and external triggers\<close>

definition enableeventlog :: "'s apm \<Rightarrow> ('s, unit) state" where
  "enableeventlog A = do {
     regval \<leftarrow> readreg A XAPM_CTL_OFFSET;
     writereg A XAPM_CTL_OFFSET (regval OR XAPM_CR_EVENTLOG_ENABLE_MASK)
   }"

definition enablemctrigger :: "'s apm \<Rightarrow> ('s, unit) state" where
  "enablemctrigger A = do {
     regval \<leftarrow> readreg A XAPM_CTL_OFFSET;
     writereg A XAPM_CTL_OFFSET (regval OR XAPM_CR_MCNTR_EXTTRIGGER_MASK)
   }"

definition disablemctrigger :: "'s apm \<Rightarrow> ('s, unit) state" where
  "disablemctrigger A = do {
     regval \<leftarrow> readreg A XAPM_CTL_OFFSET;
     writereg A XAPM_CTL_OFFSET (regval AND NOT XAPM_CR_MCNTR_EXTTRIGGER_MASK)
   }"

definition enableeventlogtrigger :: "'s apm \<Rightarrow> ('s, unit) state" where
  "enableeventlogtrigger A = do {
     regval \<leftarrow> readreg A XAPM_CTL_OFFSET;
     writereg A XAPM_CTL_OFFSET (regval OR XAPM_CR_EVTLOG_EXTTRIGGER_MASK)
   }"

definition disableeventlogtrigger :: "'s apm \<Rightarrow> ('s, unit) state" where
  "disableeventlogtrigger A = do {
     regval \<leftarrow> readreg A XAPM_CTL_OFFSET;
     writereg A XAPM_CTL_OFFSET (regval AND NOT XAPM_CR_EVTLOG_EXTTRIGGER_MASK)
   }"

definition getmetricname :: "u8 \<Rightarrow> string" where
  "getmetricname metrics =
    (if metrics = XAPM_METRIC_SET_0 then ''Write Transaction Count''
     else if metrics = XAPM_METRIC_SET_1 then ''Read Transaction Count''
     else if metrics = XAPM_METRIC_SET_2 then ''Write Byte Count''
     else if metrics = XAPM_METRIC_SET_3 then ''Read Byte Count''
     else if metrics = XAPM_METRIC_SET_4 then ''Write Beat Count''
     else if metrics = XAPM_METRIC_SET_5 then ''Total Read Latency''
     else if metrics = XAPM_METRIC_SET_6 then ''Total Write Latency''
     else if metrics = XAPM_METRIC_SET_7 then ''Slv_Wr_Idle_Cnt''
     else if metrics = XAPM_METRIC_SET_8 then ''Mst_Rd_Idle_Cnt''
     else if metrics = XAPM_METRIC_SET_9 then ''Num_BValids''
     else if metrics = XAPM_METRIC_SET_10 then ''Num_WLasts''
     else if metrics = XAPM_METRIC_SET_11 then ''Num_RLasts''
     else if metrics = XAPM_METRIC_SET_12 then ''Minimum Write Latency''
     else if metrics = XAPM_METRIC_SET_13 then ''Maximum Write Latency''
     else if metrics = XAPM_METRIC_SET_14 then ''Minimum Read Latency''
     else if metrics = XAPM_METRIC_SET_15 then ''Maximum Read Latency''
     else if metrics = XAPM_METRIC_SET_16 then ''Transfer Cycle Count''
     else if metrics = XAPM_METRIC_SET_17 then ''Packet Count''
     else if metrics = XAPM_METRIC_SET_18 then ''Data Byte Count''
     else if metrics = XAPM_METRIC_SET_19 then ''Position Byte Count''
     else if metrics = XAPM_METRIC_SET_20 then ''Null Byte Count''
     else if metrics = XAPM_METRIC_SET_21 then ''Slv_Idle_Cnt''
     else if metrics = XAPM_METRIC_SET_22 then ''Mst_Idle_Cnt''
     else if metrics = XAPM_METRIC_SET_30 then ''External event count''
     else ''Unsupported'')"

section \<open>Latency identifiers and end points\<close>

definition setwriteid :: "'s apm \<Rightarrow> u32 \<Rightarrow> ('s, unit) state" where
  "setwriteid A writeid =
     (if \<not> is_32bit_filter (params A) then do {
        regval \<leftarrow> readreg A XAPM_ID_OFFSET;
        writereg A XAPM_ID_OFFSET ((regval AND NOT XAPM_ID_WID_MASK) OR writeid)
      } else writereg A XAPM_ID_OFFSET writeid)"

definition setreadid :: "'s apm \<Rightarrow> u32 \<Rightarrow> ('s, unit) state" where
  "setreadid A readid =
     (if \<not> is_32bit_filter (params A) then do {
        regval \<leftarrow> readreg A XAPM_ID_OFFSET;
        writereg A XAPM_ID_OFFSET ((regval AND NOT XAPM_ID_RID_MASK) OR push_bit 16 readid)
      } else writereg A XAPM_RID_OFFSET readid)"

definition getwriteid :: "'s apm \<Rightarrow> ('s, u32) state" where
  "getwriteid A =
     (if \<not> is_32bit_filter (params A) then do {
        regval \<leftarrow> readreg A XAPM_ID_OFFSET;
        State_Monad.return (regval AND XAPM_ID_WID_MASK)
      } else State_Monad.return XAPM_IDMASK_OFFSET)"

definition getreadid :: "'s apm \<Rightarrow> ('s, u32) state" where
  "getreadid A =
     (if \<not> is_32bit_filter (params A) then do {
        regval \<leftarrow> readreg A XAPM_ID_OFFSET;
        State_Monad.return (drop_bit 16 (regval AND XAPM_ID_RID_MASK))
      } else State_Monad.return XAPM_RID_OFFSET)"

definition setwrlatencystart :: "'s apm \<Rightarrow> u8 \<Rightarrow> ('s, unit) state" where
  "setwrlatencystart A param = do {
     regval \<leftarrow> readreg A XAPM_CTL_OFFSET;
     (if param = XAPM_LATENCY_ADDR_ACCEPT
      then writereg A XAPM_CTL_OFFSET (regval OR XAPM_CR_WRLATENCY_START_MASK)
      else do {
        v \<leftarrow> readreg A XAPM_CTL_OFFSET;
        writereg A XAPM_CTL_OFFSET (v AND NOT XAPM_CR_WRLATENCY_START_MASK)
      })
   }"

definition setwrlatencyend :: "'s apm \<Rightarrow> u8 \<Rightarrow> ('s, unit) state" where
  "setwrlatencyend A param = do {
     regval \<leftarrow> readreg A XAPM_CTL_OFFSET;
     (if param = XAPM_LATENCY_FIRSTWR
      then writereg A XAPM_CTL_OFFSET (regval OR XAPM_CR_WRLATENCY_END_MASK)
      else do {
        v \<leftarrow> readreg A XAPM_CTL_OFFSET;
        writereg A XAPM_CTL_OFFSET (v AND NOT XAPM_CR_WRLATENCY_END_MASK)
      })
   }"

definition setrdlatencystart :: "'s apm \<Rightarrow> u8 \<Rightarrow> ('s, unit) state" where
  "setrdlatencystart A param = do {
     regval \<leftarrow> readreg A XAPM_CTL_OFFSET;
     (if param = XAPM_LATENCY_ADDR_ACCEPT
      then writereg A XAPM_CTL_OFFSET (regval OR XAPM_CR_RDLATENCY_START_MASK)
      else do {
        v \<leftarrow> readreg A XAPM_CTL_OFFSET;
        writereg A XAPM_CTL_OFFSET (v AND NOT XAPM_CR_RDLATENCY_START_MASK)
      })
   }"

definition setrdlatencyend :: "'s apm \<Rightarrow> u8 \<Rightarrow> ('s, unit) state" where
  "setrdlatencyend A param = do {
     regval \<leftarrow> readreg A XAPM_CTL_OFFSET;
     (if param = XAPM_LATENCY_FIRSTRD
      then writereg A XAPM_CTL_OFFSET (regval OR XAPM_CR_RDLATENCY_END_MASK)
      else do {
        v \<leftarrow> readreg A XAPM_CTL_OFFSET;
        writereg A XAPM_CTL_OFFSET (v AND NOT XAPM_CR_RDLATENCY_END_MASK)
      })
   }"

text \<open>The four getters read the 32-bit register into a \<^verbatim>\<open>u8\<close>, so only its low byte survives.\<close>

definition getwrlatencystart :: "'s apm \<Rightarrow> ('s, u8) state" where
  "getwrlatencystart A = do {
     v \<leftarrow> readreg A XAPM_CTL_OFFSET;
     let regval = (ucast v :: u8);
     let regval = (ucast (ucast regval AND XAPM_CR_WRLATENCY_START_MASK) :: u8);
     State_Monad.return (if regval \<noteq> XAPM_LATENCY_ADDR_ISSUE then XAPM_LATENCY_ADDR_ACCEPT
                         else XAPM_LATENCY_ADDR_ISSUE)
   }"

definition getwrlatencyend :: "'s apm \<Rightarrow> ('s, u8) state" where
  "getwrlatencyend A = do {
     v \<leftarrow> readreg A XAPM_CTL_OFFSET;
     let regval = (ucast v :: u8);
     let regval = (ucast (ucast regval AND XAPM_CR_WRLATENCY_END_MASK) :: u8);
     State_Monad.return (if regval \<noteq> XAPM_LATENCY_LASTWR then XAPM_LATENCY_FIRSTWR
                         else XAPM_LATENCY_LASTWR)
   }"

definition getrdlatencystart :: "'s apm \<Rightarrow> ('s, u8) state" where
  "getrdlatencystart A = do {
     v \<leftarrow> readreg A XAPM_CTL_OFFSET;
     let regval = (ucast v :: u8);
     let regval = (ucast (ucast regval AND XAPM_CR_RDLATENCY_START_MASK) :: u8);
     State_Monad.return (if regval \<noteq> XAPM_LATENCY_ADDR_ISSUE then XAPM_LATENCY_ADDR_ACCEPT
                         else XAPM_LATENCY_ADDR_ISSUE)
   }"

definition getrdlatencyend :: "'s apm \<Rightarrow> ('s, u8) state" where
  "getrdlatencyend A = do {
     v \<leftarrow> readreg A XAPM_CTL_OFFSET;
     let regval = (ucast v :: u8);
     let regval = (ucast (ucast regval AND XAPM_CR_RDLATENCY_END_MASK) :: u8);
     State_Monad.return (if regval \<noteq> XAPM_LATENCY_LASTRD then XAPM_LATENCY_FIRSTRD
                         else XAPM_LATENCY_LASTRD)
   }"

definition setwriteidmask :: "'s apm \<Rightarrow> u32 \<Rightarrow> ('s, unit) state" where
  "setwriteidmask A wrmask =
     (if \<not> is_32bit_filter (params A) then do {
        regval \<leftarrow> readreg A XAPM_IDMASK_OFFSET;
        writereg A XAPM_IDMASK_OFFSET ((regval AND NOT XAPM_MASKID_WID_MASK) OR wrmask)
      } else writereg A XAPM_IDMASK_OFFSET wrmask)"

definition setreadidmask :: "'s apm \<Rightarrow> u32 \<Rightarrow> ('s, unit) state" where
  "setreadidmask A rdmask =
     (if \<not> is_32bit_filter (params A) then do {
        regval \<leftarrow> readreg A XAPM_IDMASK_OFFSET;
        writereg A XAPM_IDMASK_OFFSET ((regval AND NOT XAPM_MASKID_RID_MASK) OR push_bit 16 rdmask)
      } else writereg A XAPM_RIDMASK_OFFSET rdmask)"

definition getwriteidmask :: "'s apm \<Rightarrow> ('s, u32) state" where
  "getwriteidmask A =
     (if \<not> is_32bit_filter (params A) then do {
        regval \<leftarrow> readreg A XAPM_IDMASK_OFFSET;
        State_Monad.return (regval AND XAPM_MASKID_WID_MASK)
      } else State_Monad.return XAPM_IDMASK_OFFSET)"

definition getreadidmask :: "'s apm \<Rightarrow> ('s, u32) state" where
  "getreadidmask A =
     (if \<not> is_32bit_filter (params A) then do {
        regval \<leftarrow> readreg A XAPM_IDMASK_OFFSET;
        State_Monad.return (drop_bit 16 (regval AND XAPM_MASKID_RID_MASK))
      } else State_Monad.return XAPM_RIDMASK_OFFSET)"

end
