(* ===== verification/Apm_Correct.thy ===== *)
theory Apm_Correct
  imports Apm
begin

text \<open>
  Correctness of the APM driver of theory \<open>Apm\<close>. The contract of the device is the locale
  \<open>apm_dev\<close>: the registers listed in \<open>apm_rw\<close> are cells (theory \<open>Lime_Prelude\<close>). In it the
  read-modify-write operations are described by their effect on a register, the set/get
  pairs are proved to be round trips that keep everything else, and the reset operations
  to be pulses. The properties are these facts for every device that meets the contract;
  \<open>mem_apm\<close>, a device whose registers are memory, meets it.
\<close>

section \<open>The registers as cells\<close>

text \<open>
  The registers the driver programs and reads back: control, metric selectors, flag
  enables, sample interval and its control, interrupt enables, software data, identifiers
  and their masks, and the ranges of the ten incrementers and counters.
\<close>

definition apm_rw :: "u32 list" where
  "apm_rw = [XAPM_CTL_OFFSET, XAPM_MSR0_OFFSET, XAPM_MSR1_OFFSET, XAPM_MSR2_OFFSET,
     XAPM_FEC_OFFSET, XAPM_SI_LOW_OFFSET, XAPM_SICR_OFFSET, XAPM_GIE_OFFSET, XAPM_IE_OFFSET,
     XAPM_SWD_OFFSET, XAPM_ID_OFFSET, XAPM_IDMASK_OFFSET, XAPM_RID_OFFSET,
     XAPM_RIDMASK_OFFSET] @ XAPM_RANGE_OFFSETS @ XAPM_MCLOGEN_OFFSETS"

definition mem_apm :: "xapm_param \<Rightarrow> (u64 \<Rightarrow> u32) apm" where
  "mem_apm p = \<lparr>bus = mem_mmio, baseaddr = 0x44A00000, params = p\<rparr>"

lemma ucast_32_64_eq_iff: "(ucast (x :: u32) :: u64) = ucast y \<longleftrightarrow> x = y"
proof
  assume "(ucast x :: u64) = ucast y"
  then have "(ucast (ucast x :: u64) :: u32) = ucast (ucast y :: u64)"
    by simp
  then show "x = y"
    by (simp add: ucast_down_ucast_id is_down)
qed simp

lemma apm_rw_members [simp]:
  "XAPM_CTL_OFFSET \<in> set apm_rw" "XAPM_MSR0_OFFSET \<in> set apm_rw"
  "XAPM_MSR1_OFFSET \<in> set apm_rw" "XAPM_MSR2_OFFSET \<in> set apm_rw"
  "XAPM_FEC_OFFSET \<in> set apm_rw" "XAPM_SI_LOW_OFFSET \<in> set apm_rw"
  "XAPM_SICR_OFFSET \<in> set apm_rw" "XAPM_GIE_OFFSET \<in> set apm_rw"
  "XAPM_IE_OFFSET \<in> set apm_rw" "XAPM_SWD_OFFSET \<in> set apm_rw"
  "XAPM_ID_OFFSET \<in> set apm_rw" "XAPM_IDMASK_OFFSET \<in> set apm_rw"
  "XAPM_RID_OFFSET \<in> set apm_rw" "XAPM_RIDMASK_OFFSET \<in> set apm_rw"
  by (simp_all add: apm_rw_def)

lemma apm_offsets_distinct [simp]:
  "XAPM_CTL_OFFSET \<noteq> XAPM_FEC_OFFSET" "XAPM_CTL_OFFSET \<noteq> XAPM_SI_LOW_OFFSET"
  "XAPM_CTL_OFFSET \<noteq> XAPM_SICR_OFFSET" "XAPM_CTL_OFFSET \<noteq> XAPM_SWD_OFFSET"
  "XAPM_CTL_OFFSET \<noteq> XAPM_ID_OFFSET" "XAPM_CTL_OFFSET \<noteq> XAPM_IDMASK_OFFSET"
  "XAPM_CTL_OFFSET \<noteq> XAPM_RID_OFFSET" "XAPM_CTL_OFFSET \<noteq> XAPM_RIDMASK_OFFSET"
  "XAPM_FEC_OFFSET \<noteq> XAPM_CTL_OFFSET" "XAPM_FEC_OFFSET \<noteq> XAPM_SI_LOW_OFFSET"
  "XAPM_FEC_OFFSET \<noteq> XAPM_SICR_OFFSET" "XAPM_FEC_OFFSET \<noteq> XAPM_SWD_OFFSET"
  "XAPM_FEC_OFFSET \<noteq> XAPM_ID_OFFSET" "XAPM_FEC_OFFSET \<noteq> XAPM_IDMASK_OFFSET"
  "XAPM_FEC_OFFSET \<noteq> XAPM_RID_OFFSET" "XAPM_FEC_OFFSET \<noteq> XAPM_RIDMASK_OFFSET"
  "XAPM_SI_LOW_OFFSET \<noteq> XAPM_CTL_OFFSET" "XAPM_SI_LOW_OFFSET \<noteq> XAPM_FEC_OFFSET"
  "XAPM_SI_LOW_OFFSET \<noteq> XAPM_SICR_OFFSET" "XAPM_SI_LOW_OFFSET \<noteq> XAPM_SWD_OFFSET"
  "XAPM_SI_LOW_OFFSET \<noteq> XAPM_ID_OFFSET" "XAPM_SI_LOW_OFFSET \<noteq> XAPM_IDMASK_OFFSET"
  "XAPM_SI_LOW_OFFSET \<noteq> XAPM_RID_OFFSET" "XAPM_SI_LOW_OFFSET \<noteq> XAPM_RIDMASK_OFFSET"
  "XAPM_SICR_OFFSET \<noteq> XAPM_CTL_OFFSET" "XAPM_SICR_OFFSET \<noteq> XAPM_FEC_OFFSET"
  "XAPM_SICR_OFFSET \<noteq> XAPM_SI_LOW_OFFSET" "XAPM_SICR_OFFSET \<noteq> XAPM_SWD_OFFSET"
  "XAPM_SICR_OFFSET \<noteq> XAPM_ID_OFFSET" "XAPM_SICR_OFFSET \<noteq> XAPM_IDMASK_OFFSET"
  "XAPM_SICR_OFFSET \<noteq> XAPM_RID_OFFSET" "XAPM_SICR_OFFSET \<noteq> XAPM_RIDMASK_OFFSET"
  "XAPM_SWD_OFFSET \<noteq> XAPM_CTL_OFFSET" "XAPM_SWD_OFFSET \<noteq> XAPM_FEC_OFFSET"
  "XAPM_SWD_OFFSET \<noteq> XAPM_SI_LOW_OFFSET" "XAPM_SWD_OFFSET \<noteq> XAPM_SICR_OFFSET"
  "XAPM_SWD_OFFSET \<noteq> XAPM_ID_OFFSET" "XAPM_SWD_OFFSET \<noteq> XAPM_IDMASK_OFFSET"
  "XAPM_SWD_OFFSET \<noteq> XAPM_RID_OFFSET" "XAPM_SWD_OFFSET \<noteq> XAPM_RIDMASK_OFFSET"
  "XAPM_ID_OFFSET \<noteq> XAPM_CTL_OFFSET" "XAPM_ID_OFFSET \<noteq> XAPM_FEC_OFFSET"
  "XAPM_ID_OFFSET \<noteq> XAPM_SI_LOW_OFFSET" "XAPM_ID_OFFSET \<noteq> XAPM_SICR_OFFSET"
  "XAPM_ID_OFFSET \<noteq> XAPM_SWD_OFFSET" "XAPM_ID_OFFSET \<noteq> XAPM_IDMASK_OFFSET"
  "XAPM_ID_OFFSET \<noteq> XAPM_RID_OFFSET" "XAPM_ID_OFFSET \<noteq> XAPM_RIDMASK_OFFSET"
  "XAPM_IDMASK_OFFSET \<noteq> XAPM_CTL_OFFSET" "XAPM_IDMASK_OFFSET \<noteq> XAPM_FEC_OFFSET"
  "XAPM_IDMASK_OFFSET \<noteq> XAPM_SI_LOW_OFFSET" "XAPM_IDMASK_OFFSET \<noteq> XAPM_SICR_OFFSET"
  "XAPM_IDMASK_OFFSET \<noteq> XAPM_SWD_OFFSET" "XAPM_IDMASK_OFFSET \<noteq> XAPM_ID_OFFSET"
  "XAPM_IDMASK_OFFSET \<noteq> XAPM_RID_OFFSET" "XAPM_IDMASK_OFFSET \<noteq> XAPM_RIDMASK_OFFSET"
  "XAPM_RID_OFFSET \<noteq> XAPM_CTL_OFFSET" "XAPM_RID_OFFSET \<noteq> XAPM_FEC_OFFSET"
  "XAPM_RID_OFFSET \<noteq> XAPM_SI_LOW_OFFSET" "XAPM_RID_OFFSET \<noteq> XAPM_SICR_OFFSET"
  "XAPM_RID_OFFSET \<noteq> XAPM_SWD_OFFSET" "XAPM_RID_OFFSET \<noteq> XAPM_ID_OFFSET"
  "XAPM_RID_OFFSET \<noteq> XAPM_IDMASK_OFFSET" "XAPM_RID_OFFSET \<noteq> XAPM_RIDMASK_OFFSET"
  "XAPM_RIDMASK_OFFSET \<noteq> XAPM_CTL_OFFSET" "XAPM_RIDMASK_OFFSET \<noteq> XAPM_FEC_OFFSET"
  "XAPM_RIDMASK_OFFSET \<noteq> XAPM_SI_LOW_OFFSET" "XAPM_RIDMASK_OFFSET \<noteq> XAPM_SICR_OFFSET"
  "XAPM_RIDMASK_OFFSET \<noteq> XAPM_SWD_OFFSET" "XAPM_RIDMASK_OFFSET \<noteq> XAPM_ID_OFFSET"
  "XAPM_RIDMASK_OFFSET \<noteq> XAPM_IDMASK_OFFSET" "XAPM_RIDMASK_OFFSET \<noteq> XAPM_RID_OFFSET"
  by (simp_all add: reg_consts)

lemma u8_less_10: "(k :: u8) < 10 \<Longrightarrow> k \<in> {0, 1, 2, 3, 4, 5, 6, 7, 8, 9}"
proof -
  assume "k < 10"
  then have "unat k < 10"
    by (simp add: word_less_nat_alt)
  then have "unat k \<in> {0, 1, 2, 3, 4, 5, 6, 7, 8, 9}"
    by auto
  then show ?thesis
    by (auto simp: word_unat_eq_iff)
qed


section \<open>Fields of a metric selector register\<close>

text \<open>Byte \<open>k\<close> of a selector register holds the metric (5 bits) and the slot (3 bits).\<close>

definition msr_mask :: "u8 \<Rightarrow> u32" where
  "msr_mask k = (if k = 0 then 0xFFFFFF00 else if k = 1 then 0xFFFF00FF
     else if k = 2 then 0xFF00FFFF else 0x00FFFFFF)"

lemma u8_less_4: "(k :: u8) \<le> 3 \<Longrightarrow> k = 0 \<or> k = 1 \<or> k = 2 \<or> k = 3"
  using u8_less_10 [of k] by (auto simp: word_le_nat_alt word_less_nat_alt word_unat_eq_iff)

lemma msr_mask_alt:
  assumes "k \<le> 3"
  shows "msr_mask k = NOT (push_bit (unat k * 8) (mask 8))"
  using u8_less_4 [OF assms] by (elim disjE; simp; code_simp)

lemma bit_msr_value:
  assumes "k \<le> 3" "n < 32"
  shows "bit (msr_value r (msr_mask k) slot metrics k) n \<longleftrightarrow>
    (bit r n \<and> \<not> (unat k * 8 \<le> n \<and> n < unat k * 8 + 8)) \<or>
    (unat k * 8 \<le> n \<and> bit metrics (n - unat k * 8)) \<or>
    (unat k * 8 + 5 \<le> n \<and> bit slot (n - (unat k * 8 + 5)))"
  using assms by (auto simp: msr_value_def msr_mask_alt bit_simps)

lemma bit_msr_fields:
  assumes "k \<le> 3"
  shows "bit (fst (msr_fields r k)) j \<longleftrightarrow> j < 5 \<and> bit r (unat k * 8 + j)"
    and "bit (snd (msr_fields r k)) j \<longleftrightarrow> j < 3 \<and> bit r (unat k * 8 + 5 + j)"
proof -
  have m: "(0x1F :: u32) = mask 5" "(7 :: u32) = mask 3"
    by (simp_all add: mask_eq_exp_minus_1)
  show "bit (fst (msr_fields r k)) j \<longleftrightarrow> j < 5 \<and> bit r (unat k * 8 + j)"
    and "bit (snd (msr_fields r k)) j \<longleftrightarrow> j < 3 \<and> bit r (unat k * 8 + 5 + j)"
    unfolding msr_fields_def m by (auto simp: bit_simps)
qed

lemma msr_fields_value:
  assumes "metrics < 32" "slot < 8" "k \<le> 3" "k' \<le> 3"
  shows "msr_fields (msr_value r (msr_mask k) slot metrics k) k' =
    (if k' = k then (metrics, slot) else msr_fields r k')"
proof -
  let ?v = "msr_value r (msr_mask k) slot metrics k"
  have lim: "bit metrics j \<Longrightarrow> j < 5" "bit slot j \<Longrightarrow> j < 3" for j
    using assms bit_less_powerD [of metrics j 5] bit_less_powerD [of slot j 3] by simp_all
  have pos: "unat k \<le> 3" "unat k' \<le> 3" "k' = k \<longleftrightarrow> unat k' = unat k"
    using assms by (simp_all add: word_le_nat_alt word_unat_eq_iff)
  have other: "bit ?v (unat k' * 8 + i) = bit r (unat k' * 8 + i)" if "k' \<noteq> k" "i < 8" for i
    using that assms(3) pos lim(1) [of "unat k' * 8 + i - unat k * 8"]
      lim(2) [of "unat k' * 8 + i - (unat k * 8 + 5)"]
    by (auto simp: bit_msr_value)
  have same: "j < 5 \<Longrightarrow> bit ?v (unat k * 8 + j) = bit metrics j"
    "j < 3 \<Longrightarrow> bit ?v (unat k * 8 + 5 + j) = bit slot j" for j
    using assms(3) pos(1) lim(1) [of "5 + j"] by (auto simp: bit_msr_value)
  have "bit (fst (msr_fields ?v k')) j \<longleftrightarrow>
      bit (fst (if k' = k then (metrics, slot) else msr_fields r k')) j" for j
    using assms(3,4) lim(1) [of j] other [of j] same(1) [of j] by (auto simp: bit_msr_fields)
  moreover have "bit (snd (msr_fields ?v k')) j \<longleftrightarrow>
      bit (snd (if k' = k then (metrics, slot) else msr_fields r k')) j" for j
    using assms(3,4) lim(2) [of j] other [of "5 + j"] same(2) [of j]
    by (auto simp: bit_msr_fields add.assoc)
  ultimately show ?thesis
    by (simp add: prod_eq_iff bit_eq_iff)
qed

text \<open>The register and the byte of it that select the metric of a counter.\<close>

definition msr_reg :: "u8 \<Rightarrow> u32" where
  "msr_reg counter = (if counter \<le> 3 then XAPM_MSR0_OFFSET
     else if counter \<le> 7 then XAPM_MSR1_OFFSET else XAPM_MSR2_OFFSET)"

definition msr_pos :: "u8 \<Rightarrow> u8" where
  "msr_pos counter = (if counter \<le> 3 then counter
     else if counter \<le> 7 then counter - 4 else counter - 8)"

lemma msr_reg_rw [simp]: "msr_reg counter \<in> set apm_rw"
  by (simp add: msr_reg_def)

lemma msr_pos_le: "counter < 10 \<Longrightarrow> msr_pos counter \<le> 3"
  by (drule u8_less_10) (auto simp: msr_pos_def)

lemma msr_reg_pos_inj:
  assumes "c < 10" "c' < 10"
  shows "msr_reg c = msr_reg c' \<and> msr_pos c = msr_pos c' \<longleftrightarrow> c = c'"
  using u8_less_10 [OF assms(1)] u8_less_10 [OF assms(2)]
  by (auto simp: msr_pos_def msr_reg_def reg_consts split: if_splits)

section \<open>Pairs of 16-bit limits\<close>

lemma pack16_fields:
  fixes hi lo :: u16
  shows "(ucast ((push_bit 16 (ucast hi) OR ucast lo) AND 0xFFFF :: u32) :: u16) = lo"
    and "(ucast ((drop_bit 16 (push_bit 16 (ucast hi)) OR drop_bit 16 (ucast lo)) AND 0xFFFF :: u32) :: u16) = hi"
proof -
  have m: "(0xFFFF :: u32) = mask 16"
    by (simp add: mask_eq_exp_minus_1)
  show "(ucast ((push_bit 16 (ucast hi) OR ucast lo) AND 0xFFFF :: u32) :: u16) = lo"
    and "(ucast ((drop_bit 16 (push_bit 16 (ucast hi)) OR drop_bit 16 (ucast lo)) AND 0xFFFF :: u32) :: u16) = hi"
    unfolding m by (auto simp: bit_eq_iff bit_simps dest: bit_imp_le_length)
qed

lemma range_index_inj:
  assumes "i < 10" "i' < 10"
  shows "(ucast (i' :: u8) * 16 :: u32) = ucast i * 16 \<longleftrightarrow> i' = i"
  using u8_less_10 [OF assms(1)] u8_less_10 [OF assms(2)] by auto

text \<open>The latency selectors are bits 4 to 7 of the control register, so the byte suffices.\<close>

lemma low_byte_bit:
  fixes v :: u32
  assumes "k < 8"
  shows "(ucast (ucast (ucast v :: u8) AND 2 ^ k :: u32) :: u8) = 0 \<longleftrightarrow> \<not> bit v k"
  using assms by (auto simp: bit_eq_iff [where ?'a = "8 word"] bit_simps)

lemma low_byte_bits:
  fixes v :: u32
  shows "(ucast (ucast (ucast v :: u8) AND XAPM_CR_WRLATENCY_START_MASK) :: u8) = 0 \<longleftrightarrow> \<not> bit v 4"
    and "(ucast (ucast (ucast v :: u8) AND XAPM_CR_WRLATENCY_END_MASK) :: u8) = 0 \<longleftrightarrow> \<not> bit v 5"
    and "(ucast (ucast (ucast v :: u8) AND XAPM_CR_RDLATENCY_START_MASK) :: u8) = 0 \<longleftrightarrow> \<not> bit v 6"
    and "(ucast (ucast (ucast v :: u8) AND XAPM_CR_RDLATENCY_END_MASK) :: u8) = 0 \<longleftrightarrow> \<not> bit v 7"
  using low_byte_bit [of 4 v] low_byte_bit [of 5 v] low_byte_bit [of 6 v] low_byte_bit [of 7 v]
  by (simp_all add: reg_consts)

lemmas latency_consts =
  XAPM_LATENCY_ADDR_ISSUE_def XAPM_LATENCY_ADDR_ACCEPT_def XAPM_LATENCY_LASTRD_def
  XAPM_LATENCY_LASTWR_def XAPM_LATENCY_FIRSTRD_def XAPM_LATENCY_FIRSTWR_def

lemma latency_mask_bits:
  "bit XAPM_CR_WRLATENCY_START_MASK 4" "bit XAPM_CR_WRLATENCY_END_MASK 5"
  "bit XAPM_CR_RDLATENCY_START_MASK 6" "bit XAPM_CR_RDLATENCY_END_MASK 7"
  by code_simp+

lemma set_then_clear:
  fixes x :: u32
  assumes "x AND m = 0" "P \<Longrightarrow> x AND g = 0"
  shows "(x OR (m OR (if P then g else 0))) AND NOT (m OR (if P then g else 0)) = x"
  using assms by (auto simp: bit_eq_iff bit_simps)

lemma id_masks:
  "XAPM_ID_WID_MASK = mask 16" "XAPM_ID_RID_MASK = NOT (mask 16)"
  "XAPM_MASKID_WID_MASK = mask 16" "XAPM_MASKID_RID_MASK = NOT (mask 16)"
  by code_simp+

lemma id_fields:
  fixes x w r wm rm :: u32
  assumes "wm = mask 16" "rm = NOT (mask 16)" "w < 2 ^ 16" "r < 2 ^ 16"
  shows "((x AND NOT wm) OR w) AND wm = w"
    and "drop_bit 16 (((x AND NOT rm) OR push_bit 16 r) AND rm) = r"
    and "drop_bit 16 (((x AND NOT wm) OR w) AND rm) = drop_bit 16 (x AND rm)"
    and "((x AND NOT rm) OR push_bit 16 r) AND wm = x AND wm"
  unfolding assms(1,2) using assms(3,4)
  by (auto simp: bit_eq_iff bit_simps dest: bit_less_powerD [where k = 16, simplified])

lemmas id_field_rules = id_fields [OF id_masks(1,2)] id_fields [OF id_masks(3,4)]

locale apm_dev =
  fixes A :: "'s apm" and reg :: "u32 \<Rightarrow> 's \<Rightarrow> u32"
  assumes cells: "reg_cells (bus A) (\<lambda>a s. reg (ucast (a - baseaddr A)) s)
    ((\<lambda>off. baseaddr A + ucast off) ` set apm_rw)"
begin

lemma rd:
  assumes "off \<in> set apm_rw"
  shows "run_state (readreg A off) s = (reg off s, s)"
  using assms reg_cells.run_load_cell [OF cells, of "baseaddr A + ucast off"]
  by (simp add: readreg_def ucast_down_ucast_id is_down)

lemma wr:
  assumes "off \<in> set apm_rw" "off' \<in> set apm_rw"
  shows "reg off' (snd (run_state (writereg A off v) s)) = (if off' = off then v else reg off' s)"
  using assms reg_cells.store_cell [OF cells, of "baseaddr A + ucast off" "baseaddr A + ucast off'" v s]
  by (simp add: writereg_def run_store32 ucast_32_64_eq_iff ucast_down_ucast_id is_down)

lemma run_wr: "run_state (writereg A off v) s = ((), snd (run_state (writereg A off v) s))"
  by (simp add: prod_eq_iff)

end


context apm_dev
begin

lemma rmw:
  assumes "off \<in> set apm_rw"
  shows "run_state (State_Monad.bind (readreg A off) (\<lambda>v. writereg A off (f v))) s =
    run_state (writereg A off (f (reg off s))) s"
  using assms by (simp add: rd)

lemma setmetrics_eq:
  assumes "counter < 10"
  shows "run_state (setmetrics A slot metrics counter) s =
    (XST_SUCCESS, snd (run_state (writereg A (msr_reg counter)
      (msr_value (reg (msr_reg counter) s) (msr_mask (msr_pos counter)) slot metrics (msr_pos counter))) s))"
  using u8_less_10 [OF assms]
  by (auto simp: setmetrics_def msr_reg_def msr_pos_def Let_def rd msr_mask_def split_beta)

lemma getmetrics_eq:
  assumes "counter < 10"
  shows "run_state (getmetrics A counter) s = (msr_fields (reg (msr_reg counter) s) (msr_pos counter), s)"
  using u8_less_10 [OF assms] by (auto simp: getmetrics_def msr_reg_def msr_pos_def rd)

lemma getmetrics_setmetrics:
  assumes "counter < 10" "counter' < 10" "metrics < 32" "slot < 8"
  shows "fst (run_state (getmetrics A counter') (snd (run_state (setmetrics A slot metrics counter) s))) =
    (if counter' = counter then (metrics, slot) else fst (run_state (getmetrics A counter') s))"
  using assms msr_pos_le [OF assms(1)] msr_pos_le [OF assms(2)] msr_reg_pos_inj [OF assms(1,2)]
  by (auto simp: setmetrics_eq getmetrics_eq wr msr_fields_value)

lemma range_offsets:
  assumes "i < 10"
  shows "XAPM_RANGE0_OFFSET + ucast (i :: u8) * 16 \<in> set apm_rw"
    and "XAPM_MC0LOGEN_OFFSET + ucast (i :: u8) * 16 \<in> set apm_rw"
  using u8_less_10 [OF assms]
  by (auto simp: apm_rw_def XAPM_RANGE_OFFSETS_def XAPM_MCLOGEN_OFFSETS_def reg_consts)

lemma incrementerrange_roundtrip:
  assumes "i < 10" "i' < 10"
  shows "fst (run_state (getincrementerrange A i') (snd (run_state (setincrementerrange A i hi lo) s))) =
    (if i' = i then (hi, lo) else fst (run_state (getincrementerrange A i') s))"
  using assms
  by (simp add: getincrementerrange_def setincrementerrange_def Let_def rd wr range_offsets
      range_index_inj pack16_fields)

lemma logenableranges_roundtrip:
  fixes i i' :: u8
  assumes "i < 10" "i' < 10"
  shows "fst (run_state (getlogenableranges A (ucast i')) (snd (run_state (setlogenableranges A (ucast i) hi lo) s))) =
    (if i' = i then (hi, lo) else fst (run_state (getlogenableranges A (ucast i')) s))"
  using assms
  by (simp add: getlogenableranges_def setlogenableranges_def Let_def rd wr range_offsets
      range_index_inj pack16_fields)

lemma reset_pulse:
  shows "fst (run_state (resetmetriccounter A) s) = XST_SUCCESS"
    and "off \<in> set apm_rw \<Longrightarrow> reg off (snd (run_state (resetmetriccounter A) s)) =
      (if off = XAPM_CTL_OFFSET then reg off s AND NOT XAPM_CR_MCNTR_RESET_MASK else reg off s)"
    and "off \<in> set apm_rw \<Longrightarrow> reg off (snd (run_state (resetglobalclkcounter A) s)) =
      (if off = XAPM_CTL_OFFSET then reg off s AND NOT XAPM_CR_GCC_RESET_MASK else reg off s)"
    and "eventlog (params A) = 0 \<Longrightarrow> run_state (resetfifo A) s = (XST_SUCCESS, s)"
    and "eventlog (params A) \<noteq> 0 \<Longrightarrow> off \<in> set apm_rw \<Longrightarrow>
      reg off (snd (run_state (resetfifo A) s)) =
      (if off = XAPM_CTL_OFFSET then reg off s AND NOT XAPM_CR_FIFO_RESET_MASK else reg off s)"
  by (simp_all add: resetmetriccounter_def resetglobalclkcounter_def resetfifo_def rd wr split_beta)

lemma latency_roundtrip:
  assumes "param = 0 \<or> param = 1"
  shows "fst (run_state (getwrlatencystart A) (snd (run_state (setwrlatencystart A param) s))) = param"
    and "fst (run_state (getwrlatencyend A) (snd (run_state (setwrlatencyend A param) s))) = param"
    and "fst (run_state (getrdlatencystart A) (snd (run_state (setrdlatencystart A param) s))) = param"
    and "fst (run_state (getrdlatencyend A) (snd (run_state (setrdlatencyend A param) s))) = param"
  using assms
  by (auto simp: getwrlatencystart_def setwrlatencystart_def getwrlatencyend_def setwrlatencyend_def
      getrdlatencystart_def setrdlatencystart_def getrdlatencyend_def setrdlatencyend_def
      Let_def rd wr split_beta latency_consts low_byte_bits bit_or_iff bit_and_iff bit_not_iff
      latency_mask_bits)

lemma startcounters_regs:
  "reg XAPM_CTL_OFFSET (snd (run_state (startcounters A si) s)) =
     reg XAPM_CTL_OFFSET s OR (XAPM_CR_MCNTR_ENABLE_MASK OR
     (if mode (params A) = 1 then XAPM_CR_GCC_ENABLE_MASK else 0))"
  "reg XAPM_SI_LOW_OFFSET (snd (run_state (startcounters A si) s)) = si"
  "reg XAPM_SICR_OFFSET (snd (run_state (startcounters A si) s)) = XAPM_SICR_ENABLE_MASK"
  by (simp_all add: startcounters_def setsampleinterval_def loadsic_def enablesic_def Let_def
      rd wr split_beta ac_simps)

lemma stopcounters_regs:
  "reg XAPM_CTL_OFFSET (snd (run_state (stopcounters A) s)) =
     reg XAPM_CTL_OFFSET s AND NOT (XAPM_CR_MCNTR_ENABLE_MASK OR
     (if mode (params A) = 1 then XAPM_CR_GCC_ENABLE_MASK else 0))"
  by (simp add: stopcounters_def Let_def rd wr split_beta ac_simps)

lemma stop_after_start:
  assumes "reg XAPM_CTL_OFFSET s AND XAPM_CR_MCNTR_ENABLE_MASK = 0"
    and "mode (params A) = 1 \<Longrightarrow> reg XAPM_CTL_OFFSET s AND XAPM_CR_GCC_ENABLE_MASK = 0"
  shows "reg XAPM_CTL_OFFSET (snd (run_state (stopcounters A) (snd (run_state (startcounters A si) s)))) =
    reg XAPM_CTL_OFFSET s"
  unfolding stopcounters_regs startcounters_regs using assms by (rule set_then_clear)

lemma writeid_readid:
  assumes "\<not> is_32bit_filter (params A)" "w < 2 ^ 16" "r < 2 ^ 16"
  shows "fst (run_state (getwriteid A) (snd (run_state (setwriteid A w) s))) = w"
    and "fst (run_state (getreadid A) (snd (run_state (setreadid A r) s))) = r"
    and "fst (run_state (getreadid A) (snd (run_state (setwriteid A w) s))) = fst (run_state (getreadid A) s)"
    and "fst (run_state (getwriteid A) (snd (run_state (setreadid A r) s))) = fst (run_state (getwriteid A) s)"
  using assms
  by (simp_all add: getwriteid_def getreadid_def setwriteid_def setreadid_def rd wr split_beta
      id_field_rules del: drop_bit_and drop_bit_or)

lemma writeidmask_readidmask:
  assumes "\<not> is_32bit_filter (params A)" "w < 2 ^ 16" "r < 2 ^ 16"
  shows "fst (run_state (getwriteidmask A) (snd (run_state (setwriteidmask A w) s))) = w"
    and "fst (run_state (getreadidmask A) (snd (run_state (setreadidmask A r) s))) = r"
    and "fst (run_state (getreadidmask A) (snd (run_state (setwriteidmask A w) s))) =
      fst (run_state (getreadidmask A) s)"
    and "fst (run_state (getwriteidmask A) (snd (run_state (setreadidmask A r) s))) =
      fst (run_state (getwriteidmask A) s)"
  using assms
  by (simp_all add: getwriteidmask_def getreadidmask_def setwriteidmask_def setreadidmask_def rd wr
      split_beta id_field_rules del: drop_bit_and drop_bit_or)

end

lemma mem_apm_dev: "apm_dev (mem_apm p) (\<lambda>off m. m (0x44A00000 + ucast off))"
  by (auto simp: apm_dev_def mem_apm_def mem_mmio_def reg_cells_def ucast_32_64_eq_iff
      ucast_down_ucast_id is_down)

interpretation memapm: apm_dev "mem_apm p" "\<lambda>off m. m (0x44A00000 + ucast off)" for p
  by (rule mem_apm_dev)

section \<open>Properties\<close>

abbreviation demo_params :: xapm_param where
  "demo_params \<equiv> \<lparr>mode = 0, maxslots = 6, eventcnt = 1, eventlog = 1, sampledcnt = 1,
     numcounters = 10, metricwidth = 32, sampledwidth = 32, globalcntwidth = 32,
     scalefactor = 1, isr = 0, is_32bit_filter = False\<rparr>"

abbreviation mem_reg :: "u32 \<Rightarrow> (u64 \<Rightarrow> u32) \<Rightarrow> u32" where
  "mem_reg \<equiv> (\<lambda>off m. m (0x44A00000 + ucast off))"

text \<open>C8: After \<^verbatim>\<open>setmetrics\<close> the counter it names reads back the metric and slot it was
  given, and every other counter of the ten still reads back its own selection: the masked
  read-modify-write of the three selector registers neither loses nor leaks a field.\<close>

theorem setmetrics_getmetrics:
  assumes "apm_dev A reg" "counter < 10" "counter' < 10" "metrics < 32" "slot < 8"
  shows "fst (run_state (getmetrics A counter') (snd (run_state (setmetrics A slot metrics counter) s))) =
    (if counter' = counter then (metrics, slot) else fst (run_state (getmetrics A counter') s))"
  using assms by (rule apm_dev.getmetrics_setmetrics)

theorem setmetrics_getmetrics_witness:
  "fst (run_state (getmetrics (mem_apm demo_params) 5)
     (snd (run_state (setmetrics (mem_apm demo_params) 3 17 5) (\<lambda>_. 0)))) = (17, 3)"
  using setmetrics_getmetrics [OF mem_apm_dev, of 5 5 17 3 demo_params "\<lambda>_. 0"] by simp

text \<open>The high and low limits written for an incrementer (and for a log-enable counter)
  read back unchanged, and the limits of the other nine are kept.\<close>

theorem range_set_get:
  fixes i i' :: u8
  assumes "apm_dev A reg" "i < 10" "i' < 10"
  shows "fst (run_state (getincrementerrange A i') (snd (run_state (setincrementerrange A i hi lo) s))) =
      (if i' = i then (hi, lo) else fst (run_state (getincrementerrange A i') s)) \<and>
    fst (run_state (getlogenableranges A (ucast i')) (snd (run_state (setlogenableranges A (ucast i) hi lo) s))) =
      (if i' = i then (hi, lo) else fst (run_state (getlogenableranges A (ucast i')) s))"
  using apm_dev.incrementerrange_roundtrip [OF assms] apm_dev.logenableranges_roundtrip [OF assms] by simp

theorem range_set_get_witness:
  "fst (run_state (getincrementerrange (mem_apm demo_params) 7)
     (snd (run_state (setincrementerrange (mem_apm demo_params) 7 9 4) (\<lambda>_. 0)))) = (9, 4)"
  using range_set_get [OF mem_apm_dev, of 7 7 demo_params 9 4 "\<lambda>_. 0"] by simp

text \<open>The three resets are pulses: afterwards the reset bit of the control register is clear,
  the other control bits and all other registers are what they were; without an event log
  \<^verbatim>\<open>resetfifo\<close> does not touch the device. They report success.\<close>

theorem resets_are_pulses:
  assumes "apm_dev A reg" "off \<in> set apm_rw"
  shows "fst (run_state (resetmetriccounter A) s) = XST_SUCCESS \<and>
    reg off (snd (run_state (resetmetriccounter A) s)) =
      (if off = XAPM_CTL_OFFSET then reg off s AND NOT XAPM_CR_MCNTR_RESET_MASK else reg off s) \<and>
    reg off (snd (run_state (resetglobalclkcounter A) s)) =
      (if off = XAPM_CTL_OFFSET then reg off s AND NOT XAPM_CR_GCC_RESET_MASK else reg off s) \<and>
    (if eventlog (params A) = 0 then run_state (resetfifo A) s = (XST_SUCCESS, s)
     else reg off (snd (run_state (resetfifo A) s)) =
      (if off = XAPM_CTL_OFFSET then reg off s AND NOT XAPM_CR_FIFO_RESET_MASK else reg off s))"
  using apm_dev.reset_pulse [OF assms(1)] assms(2) by simp

theorem resets_are_pulses_witness:
  "mem_reg XAPM_CTL_OFFSET (snd (run_state (resetmetriccounter (mem_apm demo_params)) (\<lambda>_. 0xFF)))
     = 0xFF AND NOT XAPM_CR_MCNTR_RESET_MASK"
  using resets_are_pulses [OF mem_apm_dev, of XAPM_CTL_OFFSET demo_params "\<lambda>_. 0xFF"] by simp

text \<open>Each of the four latency end points reads back the point it was set to, although the
  getters keep only the low byte of the control register.\<close>

theorem latency_points_set_get:
  assumes "apm_dev A reg" "param = 0 \<or> param = 1"
  shows "fst (run_state (getwrlatencystart A) (snd (run_state (setwrlatencystart A param) s))) = param \<and>
    fst (run_state (getwrlatencyend A) (snd (run_state (setwrlatencyend A param) s))) = param \<and>
    fst (run_state (getrdlatencystart A) (snd (run_state (setrdlatencystart A param) s))) = param \<and>
    fst (run_state (getrdlatencyend A) (snd (run_state (setrdlatencyend A param) s))) = param"
  using apm_dev.latency_roundtrip [OF assms] by simp

theorem latency_points_set_get_witness:
  "fst (run_state (getrdlatencyend (mem_apm demo_params))
     (snd (run_state (setrdlatencyend (mem_apm demo_params) 1) (\<lambda>_. 0)))) = 1"
  using latency_points_set_get [OF mem_apm_dev, of 1 demo_params "\<lambda>_. 0"] by simp

text \<open>\<^verbatim>\<open>startcounters\<close> enables the metric counters, loads the sample interval and leaves the
  sample interval counter enabled; \<^verbatim>\<open>stopcounters\<close> after it gives back the control register
  as it was when the counters were off.\<close>

theorem start_stop_counters:
  assumes "apm_dev A reg"
    and "reg XAPM_CTL_OFFSET s AND XAPM_CR_MCNTR_ENABLE_MASK = 0"
    and "reg XAPM_CTL_OFFSET s AND XAPM_CR_GCC_ENABLE_MASK = 0"
  shows "reg XAPM_CTL_OFFSET (snd (run_state (startcounters A si) s)) =
      reg XAPM_CTL_OFFSET s OR (XAPM_CR_MCNTR_ENABLE_MASK OR
        (if mode (params A) = 1 then XAPM_CR_GCC_ENABLE_MASK else 0)) \<and>
    reg XAPM_SI_LOW_OFFSET (snd (run_state (startcounters A si) s)) = si \<and>
    reg XAPM_SICR_OFFSET (snd (run_state (startcounters A si) s)) = XAPM_SICR_ENABLE_MASK \<and>
    reg XAPM_CTL_OFFSET (snd (run_state (stopcounters A) (snd (run_state (startcounters A si) s)))) =
      reg XAPM_CTL_OFFSET s"
  using apm_dev.startcounters_regs [OF assms(1)] apm_dev.stop_after_start [OF assms(1,2)] assms(3)
  by simp

theorem start_stop_counters_witness:
  "mem_reg XAPM_SI_LOW_OFFSET (snd (run_state (startcounters (mem_apm demo_params) 1000) (\<lambda>_. 0))) = 1000"
  using start_stop_counters [OF mem_apm_dev, of "\<lambda>_. 0" demo_params 1000] by simp

text \<open>With 16-bit identifier filters the write and the read identifier share one register, and
  their masks another: each reads back what was set, and setting one keeps the other.\<close>

theorem ids_set_get:
  assumes "apm_dev A reg" "\<not> is_32bit_filter (params A)" "w < 2 ^ 16" "r < 2 ^ 16"
  shows "fst (run_state (getwriteid A) (snd (run_state (setwriteid A w) s))) = w \<and>
    fst (run_state (getreadid A) (snd (run_state (setreadid A r) s))) = r \<and>
    fst (run_state (getreadid A) (snd (run_state (setwriteid A w) s))) = fst (run_state (getreadid A) s) \<and>
    fst (run_state (getwriteid A) (snd (run_state (setreadid A r) s))) = fst (run_state (getwriteid A) s) \<and>
    fst (run_state (getwriteidmask A) (snd (run_state (setwriteidmask A w) s))) = w \<and>
    fst (run_state (getreadidmask A) (snd (run_state (setreadidmask A r) s))) = r"
  using apm_dev.writeid_readid [OF assms] apm_dev.writeidmask_readidmask [OF assms] by simp

theorem ids_set_get_witness:
  "fst (run_state (getreadid (mem_apm demo_params))
     (snd (run_state (setreadid (mem_apm demo_params) 0xBEEF) (\<lambda>_. 0)))) = 0xBEEF"
  using ids_set_get [of "mem_apm demo_params" mem_reg 1 "0xBEEF" "\<lambda>_. 0"]
  by (simp add: mem_apm_dev) (simp add: mem_apm_def)

text \<open>The metric counter and sampled counter the driver reads for index \<open>k\<close> are the registers
  the header lists as number \<open>k\<close> exactly for the first block of twelve; the header lists 48,
  and from the thirteenth on the driver reads another address.\<close>

theorem getmetriccounter_block:
  fixes A :: "'s apm"
  assumes "k < 48"
  shows "(if k < 12 then getmetriccounter A (of_nat k) = readreg A (XAPM_MC_OFFSETS ! k) \<and>
        getsampledmetriccounter A (of_nat k) = readreg A (XAPM_SMC_OFFSETS ! k)
      else getmetriccounter A (of_nat k) = readreg A (XAPM_MC0_OFFSET + of_nat k * 16) \<and>
        XAPM_MC0_OFFSET + of_nat k * 16 \<noteq> XAPM_MC_OFFSETS ! k)"
  using MC_OFFSETS_nth [OF assms] SMC_OFFSETS_nth [OF assms]
  by (auto simp: getmetriccounter_def getsampledmetriccounter_def)

theorem getmetriccounter_block_witness:
  "getmetriccounter (mem_apm demo_params) 11 = readreg (mem_apm demo_params) (XAPM_MC_OFFSETS ! 11)"
  using getmetriccounter_block [of 11 "mem_apm demo_params"] by simp

text \<open>\<^verbatim>\<open>intrdisable\<close> does to the interrupt enable register exactly what \<^verbatim>\<open>intrenable\<close> does:
  it sets the bits of the mask, so no call of it disables an enabled interrupt.\<close>

theorem intrdisable_sets_bits:
  assumes "apm_dev A reg"
  shows "reg XAPM_IE_OFFSET (snd (run_state (intrdisable A msk) s)) = reg XAPM_IE_OFFSET s OR msk \<and>
    run_state (intrdisable A msk) s = run_state (intrenable A msk) s"
  using assms
  by (simp add: intrdisable_def intrenable_def apm_dev.rd apm_dev.wr)

theorem intrdisable_sets_bits_witness:
  "mem_reg XAPM_IE_OFFSET (snd (run_state (intrdisable (mem_apm demo_params) 4) (\<lambda>_. 4))) = 4"
  using intrdisable_sets_bits [OF mem_apm_dev, of demo_params 4 "\<lambda>_. 4"] by (metis or.idem)

end
