(* ===== verification/Streamer.thy ===== *)
theory Streamer
  imports Lime_Prelude
begin

text \<open>
  The byte streamer of the AXI FIFO driver, \<^verbatim>\<open>src/shared/linux/xllfifo/xstreamer.c\<close> and
  \<^verbatim>\<open>xstreamer.h\<close>: it turns a FIFO that moves whole words into one that moves bytes, by way
  of a 16-byte holding buffer. The function pointers of the C structures are fields, the
  FIFO instance they are called with is the state they run on. The locales \<open>tx_fifo\<close> and
  \<open>rx_fifo\<close> are what the streamer assumes of them; the refinement theorems say that a
  sequence of reads and writes of any sizes and alignments is one byte stream.
\<close>

section \<open>Streamer state\<close>

text \<open>
  A pointer argument is the function from an offset to the byte there; a read function
  returns the bytes it stores through its pointer.
\<close>

record 'f XStrm_RxFifoStreamer =
  RxBuffer :: "u8 list"
  HeadIndex :: u32
  RxFifoWidth :: u32
  FrmByteCnt :: u32
  ReadFn :: "u32 \<Rightarrow> ('f, u8 list) state"
  GetLenFn :: "('f, u32) state"
  GetOccupancyFn :: "('f, u32) state"

record 'f XStrm_TxFifoStreamer =
  TxBuffer :: "u8 list"
  TailIndex :: u32
  TxFifoWidth :: u32
  WriteFn :: "(nat \<Rightarrow> u8) \<Rightarrow> u32 \<Rightarrow> ('f, unit) state"
  SetLenFn :: "u32 \<Rightarrow> ('f, unit) state"
  GetVacancyFn :: "('f, u32) state"

definition XStrm_RxInitialize ::
  "u32 \<Rightarrow> (u32 \<Rightarrow> ('f, u8 list) state) \<Rightarrow> ('f, u32) state \<Rightarrow> ('f, u32) state \<Rightarrow>
   'f XStrm_RxFifoStreamer \<Rightarrow> 'f XStrm_RxFifoStreamer" where
  "XStrm_RxInitialize width readfn getlenfn getoccupancyfn r =
     r\<lparr>HeadIndex := width, RxFifoWidth := width, ReadFn := readfn, GetLenFn := getlenfn,
       GetOccupancyFn := getoccupancyfn\<rparr>"

definition XStrm_TxInitialize ::
  "u32 \<Rightarrow> ((nat \<Rightarrow> u8) \<Rightarrow> u32 \<Rightarrow> ('f, unit) state) \<Rightarrow> (u32 \<Rightarrow> ('f, unit) state) \<Rightarrow>
   ('f, u32) state \<Rightarrow> 'f XStrm_TxFifoStreamer \<Rightarrow> 'f XStrm_TxFifoStreamer" where
  "XStrm_TxInitialize width writefn setlenfn getvacancyfn t =
     t\<lparr>TailIndex := 0, TxFifoWidth := width, WriteFn := writefn, SetLenFn := setlenfn,
       GetVacancyFn := getvacancyfn\<rparr>"

definition XStrm_TxVacancy :: "'f XStrm_TxFifoStreamer \<Rightarrow> ('f, u32) state" where
  "XStrm_TxVacancy t = do {
     v \<leftarrow> GetVacancyFn t;
     State_Monad.return (v - (TailIndex t + 3) div 4)
   }"

definition XStrm_RxOccupancy :: "'f XStrm_RxFifoStreamer \<Rightarrow> ('f, u32) state" where
  "XStrm_RxOccupancy r = do {
     v \<leftarrow> GetOccupancyFn r;
     State_Monad.return (v + (if FrmByteCnt r \<noteq> 0 then RxFifoWidth r - HeadIndex r else 0))
   }"

definition XStrm_IsRxInternalEmpty :: "'f XStrm_RxFifoStreamer \<Rightarrow> bool" where
  "XStrm_IsRxInternalEmpty r = (FrmByteCnt r = 0)"

section \<open>Receive\<close>

definition XStrm_RxGetLen ::
  "'f XStrm_RxFifoStreamer \<Rightarrow> ('f, u32 \<times> 'f XStrm_RxFifoStreamer) state" where
  "XStrm_RxGetLen r = do {
     let r = r\<lparr>HeadIndex := RxFifoWidth r\<rparr>;
     len \<leftarrow> GetLenFn r;
     State_Monad.return (len, r\<lparr>FrmByteCnt := len\<rparr>)
   }"

text \<open>
  The inner loop \<^verbatim>\<open>while (PartialBytes--)\<close> that empties the holding buffer; an index outside
  the 16 bytes of the buffer is undefined behaviour, here \<open>None\<close>.
\<close>

fun rx_copy :: "u8 list \<Rightarrow> nat \<Rightarrow> nat \<Rightarrow> u64 \<Rightarrow> mem \<Rightarrow> mem option" where
  "rx_copy buf i 0 dest m = Some m"
| "rx_copy buf i (Suc n) dest m =
     (if i < length buf then rx_copy buf (i + 1) n (dest + 1) (m(dest := buf ! i)) else None)"

text \<open>The bytes a FIFO read stores at the start of the holding buffer.\<close>

definition fill_buffer :: "u8 list \<Rightarrow> u8 list \<Rightarrow> u8 list" where
  "fill_buffer buf bs = bs @ drop (length bs) buf"

partial_function (option) XStrm_Read_loop ::
  "'f XStrm_RxFifoStreamer \<Rightarrow> u64 \<Rightarrow> u32 \<Rightarrow> mem \<Rightarrow> 'f \<Rightarrow> ('f XStrm_RxFifoStreamer \<times> mem \<times> 'f) option"
where
  "XStrm_Read_loop r dest rem m f =
     (if rem = 0 then Some (r, m, f)
      else if HeadIndex r \<noteq> RxFifoWidth r then
        (let i = HeadIndex r;
             part = min rem (RxFifoWidth r - HeadIndex r);
             r' = r\<lparr>HeadIndex := HeadIndex r + part, FrmByteCnt := FrmByteCnt r - part\<rparr>
         in Option.bind (rx_copy (RxBuffer r) (unat i) (unat part) dest m)
              (\<lambda>m'. XStrm_Read_loop r' (dest + ucast part) (rem - part) m' f))
      else if dest AND 3 = 0 \<and> RxFifoWidth r \<le> rem then
        (if RxFifoWidth r = 0 then None
         else (let words = rem div RxFifoWidth r;
                   x = run_state (ReadFn r words) f;
                   n = words * RxFifoWidth r
               in XStrm_Read_loop (r\<lparr>FrmByteCnt := FrmByteCnt r - n\<rparr>) (dest + ucast n) (rem - n)
                    (store_bytes dest (fst x) m) (snd x)))
      else
        (let x = run_state (ReadFn r 1) f
         in XStrm_Read_loop (r\<lparr>RxBuffer := fill_buffer (RxBuffer r) (fst x), HeadIndex := 0\<rparr>)
              dest rem m (snd x)))"

definition XStrm_Read ::
  "'f XStrm_RxFifoStreamer \<Rightarrow> u64 \<Rightarrow> u32 \<Rightarrow> mem \<Rightarrow> 'f \<Rightarrow> ('f XStrm_RxFifoStreamer \<times> mem \<times> 'f) option"
where
  "XStrm_Read r dest bytes m f =
     (case XStrm_Read_loop r dest bytes m f of
        None \<Rightarrow> None
      | Some (r', m', f') \<Rightarrow>
          Some (if FrmByteCnt r' = 0 then r'\<lparr>HeadIndex := 0\<rparr> else r', m', f'))"

section \<open>Transmit\<close>

definition XStrm_TxSetLen ::
  "'f XStrm_TxFifoStreamer \<Rightarrow> u32 \<Rightarrow> ('f, 'f XStrm_TxFifoStreamer) state" where
  "XStrm_TxSetLen t bytes = do {
     t \<leftarrow> (if TailIndex t \<noteq> 0 then do {
             WriteFn t (\<lambda>i. TxBuffer t ! i) 1;
             State_Monad.return (t\<lparr>TailIndex := 0\<rparr>)
           } else State_Monad.return t);
     SetLenFn t bytes;
     State_Monad.return t
   }"

fun tx_copy :: "u8 list \<Rightarrow> nat \<Rightarrow> nat \<Rightarrow> u64 \<Rightarrow> mem \<Rightarrow> u8 list option" where
  "tx_copy buf i 0 src m = Some buf"
| "tx_copy buf i (Suc n) src m =
     (if i < length buf then tx_copy (buf[i := m src]) (i + 1) n (src + 1) m else None)"

text \<open>Case 1 of the loop: a full holding buffer goes to the FIFO before anything else.\<close>

definition tx_flush :: "'f XStrm_TxFifoStreamer \<Rightarrow> ('f, 'f XStrm_TxFifoStreamer) state" where
  "tx_flush t =
     (if TailIndex t = TxFifoWidth t then do {
        WriteFn t (\<lambda>i. TxBuffer t ! i) 1;
        State_Monad.return (t\<lparr>TailIndex := 0\<rparr>)
      } else State_Monad.return t)"

partial_function (option) XStrm_Write_loop ::
  "'f XStrm_TxFifoStreamer \<Rightarrow> u64 \<Rightarrow> u32 \<Rightarrow> mem \<Rightarrow> 'f \<Rightarrow> ('f XStrm_TxFifoStreamer \<times> 'f) option"
where
  "XStrm_Write_loop t0 src rem m f0 =
     (if rem = 0 then Some (t0, f0)
      else (let t = fst (run_state (tx_flush t0) f0);
                f = snd (run_state (tx_flush t0) f0)
        in if TailIndex t = 0 \<and> TxFifoWidth t \<le> rem \<and> src AND 3 = 0 then
             (if TxFifoWidth t = 0 then None
              else (let words = rem div TxFifoWidth t;
                        n = words * TxFifoWidth t
                    in XStrm_Write_loop t (src + ucast n) (rem - n) m
                         (snd (run_state (WriteFn t (mem_ptr m src) words) f))))
           else
             (let i = TailIndex t;
                  part = min rem (TxFifoWidth t - TailIndex t)
              in Option.bind (tx_copy (TxBuffer t) (unat i) (unat part) src m)
                   (\<lambda>buf. XStrm_Write_loop (t\<lparr>TxBuffer := buf, TailIndex := TailIndex t + part\<rparr>)
                      (src + ucast part) (rem - part) m f))))"

definition XStrm_Write ::
  "'f XStrm_TxFifoStreamer \<Rightarrow> u64 \<Rightarrow> u32 \<Rightarrow> mem \<Rightarrow> 'f \<Rightarrow> ('f XStrm_TxFifoStreamer \<times> 'f) option"
where
  "XStrm_Write t src bytes m f = XStrm_Write_loop t src bytes m f"

section \<open>Lists and pointers\<close>

lemma map_nth_take: "n \<le> length xs \<Longrightarrow> map (\<lambda>i. xs ! i) [0..<n] = take n xs"
  by (rule nth_equalityI) simp_all

lemma mem_ptr_shift: "mem_ptr m (src + of_nat n) i = mem_ptr m src (n + i)"
  by (simp add: mem_ptr_def add.assoc)

lemma map_mem_ptr_split:
  assumes "n \<le> k"
  shows "map (mem_ptr m src) [0..<k] =
    map (mem_ptr m src) [0..<n] @ map (mem_ptr m (src + of_nat n)) [0..<k - n]"
proof -
  have "[0..<k] = [0..<n] @ map (\<lambda>i. n + i) [0..<k - n]"
    using assms upt_add_eq_append [of 0 n "k - n"] by (simp add: map_add_upt add.commute)
  then show ?thesis
    by (simp add: mem_ptr_shift)
qed

lemma tx_copy_eq:
  "i + n \<le> length buf \<Longrightarrow>
   tx_copy buf i n src m = Some (take i buf @ map (mem_ptr m src) [0..<n] @ drop (i + n) buf)"
proof (induction n arbitrary: buf i src)
  case (Suc n)
  have "map (mem_ptr m src) [0..<Suc n] = m src # map (mem_ptr m (src + 1)) [0..<n]"
    using map_mem_ptr_split [of 1 "Suc n" m src] by (simp add: mem_ptr_def)
  moreover have "take (Suc i) (buf[i := m src]) = take i buf @ [m src]"
    using Suc.prems by (simp add: take_Suc_conv_app_nth)
  ultimately show ?case
    using Suc.prems Suc.IH [of "i + 1" "buf[i := m src]" "src + 1"] by simp
qed simp

lemma rx_copy_eq:
  "i + n \<le> length buf \<Longrightarrow> rx_copy buf i n dest m = Some (store_bytes dest (take n (drop i buf)) m)"
proof (induction n arbitrary: i dest m)
  case (Suc n)
  have "drop i buf = buf ! i # drop (Suc i) buf"
    using Suc.prems by (simp add: Cons_nth_drop_Suc)
  then show ?case
    using Suc.prems Suc.IH [of "i + 1"] by simp
qed simp

lemma u32_part:
  fixes rem w t :: u32
  assumes "t \<le> w" "part = min rem (w - t)"
  shows "unat part = min (unat rem) (unat w - unat t)" "unat (t + part) = unat t + unat part"
    "unat (rem - part) = unat rem - unat part"
    "unat t + unat part \<le> unat w"
proof -
  show p: "unat part = min (unat rem) (unat w - unat t)"
    using assms by (simp add: min_def word_le_nat_alt unat_sub)
  have t: "unat t \<le> unat w" "unat w < 2 ^ 32"
    using assms unsigned_less [of w] by (simp_all add: word_le_nat_alt)
  then show "unat t + unat part \<le> unat w"
    using p by simp
  then show "unat (t + part) = unat t + unat part"
    using t by (intro unat_add_lem [THEN iffD1]) simp
  show "unat (rem - part) = unat rem - unat part"
    using p by (intro unat_sub) (simp add: word_le_nat_alt)
qed

lemma u32_words:
  fixes rem w :: u32
  assumes "0 < w" "w \<le> rem" "n = rem div w * w"
  shows "unat n = unat (rem div w) * unat w" "unat n \<le> unat rem" "0 < unat n"
    "unat (rem - n) = unat rem - unat n"
proof -
  have d: "unat (rem div w) = unat rem div unat w"
    by (simp add: unat_div)
  have "unat (rem div w) * unat w \<le> unat rem"
    by (simp add: d)
  moreover have "unat rem < 2 ^ 32"
    using unsigned_less [of rem] by simp
  ultimately show n: "unat n = unat (rem div w) * unat w"
    unfolding assms(3) by (intro unat_mult_lem [THEN iffD1]) simp
  then show le: "unat n \<le> unat rem"
    by (simp add: d)
  show "0 < unat n"
    unfolding n d using assms(1,2) by (simp add: word_less_nat_alt word_le_nat_alt div_greater_zero_iff)
  show "unat (rem - n) = unat rem - unat n"
    using le by (intro unat_sub) (simp add: word_le_nat_alt)
qed

section \<open>Transmit: the writes are one byte stream\<close>

text \<open>
  What the transmit side assumes of its write function: it hands the FIFO the words behind
  the pointer, in order. The bytes of the stream are those handed over and then those that
  wait in the holding buffer.
\<close>

definition tx_ok ::
  "u32 \<Rightarrow> ((nat \<Rightarrow> u8) \<Rightarrow> u32 \<Rightarrow> ('f, unit) state) \<Rightarrow> 'f XStrm_TxFifoStreamer \<Rightarrow> bool" where
  "tx_ok width W t \<longleftrightarrow> WriteFn t = W \<and> TxFifoWidth t = width \<and> TailIndex t \<le> width \<and>
     length (TxBuffer t) = 16"

definition tx_stream :: "('f \<Rightarrow> u8 list) \<Rightarrow> 'f XStrm_TxFifoStreamer \<Rightarrow> 'f \<Rightarrow> u8 list" where
  "tx_stream sent t f = sent f @ take (unat (TailIndex t)) (TxBuffer t)"

locale tx_fifo =
  fixes W :: "(nat \<Rightarrow> u8) \<Rightarrow> u32 \<Rightarrow> ('f, unit) state"
    and sent :: "'f \<Rightarrow> u8 list" and width :: u32
  assumes width: "0 < width" "width \<le> 16"
    and write_sends: "sent (snd (run_state (W b n) f)) = sent f @ map b [0..<unat n * unat width]"
begin

lemma width_nonzero: "width \<noteq> 0"
  using width(1) by simp

lemma width_nat: "0 < unat width" "unat width \<le> 16"
  using width by (simp_all add: word_less_nat_alt word_le_nat_alt unat_gt_0)

lemma flush:
  assumes "tx_ok width W t"
  shows "tx_ok width W (fst (run_state (tx_flush t) f))"
    and "TailIndex (fst (run_state (tx_flush t) f)) < width"
    and "tx_stream sent (fst (run_state (tx_flush t) f)) (snd (run_state (tx_flush t) f)) =
      tx_stream sent t f"
    and "SetLenFn (fst (run_state (tx_flush t) f)) = SetLenFn t"
  using assms width width_nat
  by (auto simp: tx_flush_def tx_ok_def tx_stream_def split_beta write_sends map_nth_take)

lemma write_step_words:
  assumes "tx_ok width W t" "TailIndex t = 0" "n = unat words * unat width"
  shows "tx_stream sent t (snd (run_state (WriteFn t (mem_ptr m src) words) f)) =
    tx_stream sent t f @ map (mem_ptr m src) [0..<n]"
  using assms by (simp add: tx_ok_def tx_stream_def write_sends)

lemma write_step_buffer:
  assumes "tx_ok width W t" "TailIndex t < width" "part = min rem (width - TailIndex t)"
  obtains buf where "tx_copy (TxBuffer t) (unat (TailIndex t)) (unat part) src m = Some buf"
    and "tx_ok width W (t\<lparr>TxBuffer := buf, TailIndex := TailIndex t + part\<rparr>)"
    and "tx_stream sent (t\<lparr>TxBuffer := buf, TailIndex := TailIndex t + part\<rparr>) f =
      tx_stream sent t f @ map (mem_ptr m src) [0..<unat part]"
proof -
  have le: "TailIndex t \<le> width"
    using assms(2) by simp
  note p = u32_part [OF le assms(3)]
  have len: "unat (TailIndex t) + unat part \<le> length (TxBuffer t)"
    using p(4) width_nat assms(1) by (simp add: tx_ok_def)
  show thesis
    by (rule that [OF tx_copy_eq [OF len]])
      (use assms(1) p len in \<open>auto simp: tx_ok_def tx_stream_def word_le_nat_alt\<close>)
qed

lemma write_refines:
  assumes "tx_ok width W t"
  shows "\<exists>t' f'. XStrm_Write_loop t src rem m f = Some (t', f') \<and> tx_ok width W t' \<and>
    SetLenFn t' = SetLenFn t \<and>
    tx_stream sent t' f' = tx_stream sent t f @ map (mem_ptr m src) [0..<unat rem]"
  using assms
proof (induction "unat rem" arbitrary: t src rem f rule: less_induct)
  case less
  show ?case
  proof (cases "rem = 0")
    case True
    with less.prems show ?thesis
      by (simp add: XStrm_Write_loop.simps)
  next
    case False
    define t1 f1 where "t1 = fst (run_state (tx_flush t) f)" "f1 = snd (run_state (tx_flush t) f)"
    have t1: "tx_ok width W t1" "TailIndex t1 < width" "tx_stream sent t1 f1 = tx_stream sent t f"
      "SetLenFn t1 = SetLenFn t" "TxFifoWidth t1 = width"
      using flush [OF less.prems, of f] unfolding t1_f1_def [symmetric] by (simp_all add: tx_ok_def)
    show ?thesis
    proof (cases "TailIndex t1 = 0 \<and> width \<le> rem \<and> src AND 3 = 0")
      case True
      define n where "n = rem div width * width"
      define f2 where "f2 = snd (run_state (WriteFn t1 (mem_ptr m src) (rem div width)) f1)"
      have "width \<le> rem"
        using True by simp
      note w = u32_words [OF width(1) this n_def]
      have f2: "tx_stream sent t1 f2 = tx_stream sent t1 f1 @ map (mem_ptr m src) [0..<unat n]"
        unfolding f2_def using True by (intro write_step_words [OF t1(1) _ w(1)]) simp
      have "unat (rem - n) < unat rem"
        using w(2-4) by linarith
      note IH = less.hyps [OF this t1(1), of "src + ucast n" f2]
      have "XStrm_Write_loop t src rem m f = XStrm_Write_loop t1 (src + ucast n) (rem - n) m f2"
        using \<open>rem \<noteq> 0\<close> True t1(5) width_nonzero
        unfolding XStrm_Write_loop.simps [of t] t1_f1_def [symmetric] Let_def
        by (simp add: n_def f2_def)
      then show ?thesis
        using IH by (simp add: f2 t1 w(4) map_mem_ptr_split [OF w(2), of m src])
    next
      case no_words: False
      define part where "part = min rem (width - TailIndex t1)"
      have le: "TailIndex t1 \<le> width"
        using t1(2) by simp
      note p = u32_part [OF le part_def]
      have pos: "0 < unat part"
        using p(1) t1(2) \<open>rem \<noteq> 0\<close> by (simp add: word_less_nat_alt unat_gt_0)
      obtain buf where buf: "tx_copy (TxBuffer t1) (unat (TailIndex t1)) (unat part) src m = Some buf"
        "tx_ok width W (t1\<lparr>TxBuffer := buf, TailIndex := TailIndex t1 + part\<rparr>)"
        "tx_stream sent (t1\<lparr>TxBuffer := buf, TailIndex := TailIndex t1 + part\<rparr>) f1 =
          tx_stream sent t1 f1 @ map (mem_ptr m src) [0..<unat part]"
        using write_step_buffer [OF t1(1,2) part_def] by blast
      have "unat (rem - part) < unat rem"
        using p pos \<open>rem \<noteq> 0\<close> by (simp add: unat_gt_0)
      note IH = less.hyps [OF this buf(2), of "src + ucast part" f1]
      have "XStrm_Write_loop t src rem m f =
          XStrm_Write_loop (t1\<lparr>TxBuffer := buf, TailIndex := TailIndex t1 + part\<rparr>)
            (src + ucast part) (rem - part) m f1"
        using \<open>rem \<noteq> 0\<close> no_words t1(5) buf(1) width_nonzero
        unfolding XStrm_Write_loop.simps [of t] t1_f1_def [symmetric] Let_def
        by (auto simp: part_def [symmetric])
      moreover have "unat part \<le> unat rem"
        using p(1) by simp
      ultimately show ?thesis
        using IH by (simp add: buf(3) t1 p(3) map_mem_ptr_split [of "unat part" "unat rem" m src])
    qed
  qed
qed

end

section \<open>Receive: the reads are one byte stream\<close>

text \<open>
  What the receive side assumes of its read function: as long as the FIFO holds enough
  bytes, a read of \<open>n\<close> words takes them off the front. The stream is what is left in the
  holding buffer and then what the FIFO holds; it holds whole words.
\<close>

definition rx_ok ::
  "u32 \<Rightarrow> (u32 \<Rightarrow> ('f, u8 list) state) \<Rightarrow> 'f XStrm_RxFifoStreamer \<Rightarrow> bool" where
  "rx_ok width R r \<longleftrightarrow> ReadFn r = R \<and> RxFifoWidth r = width \<and> HeadIndex r \<le> width \<and>
     length (RxBuffer r) = 16"

definition rx_stream :: "('f \<Rightarrow> u8 list) \<Rightarrow> 'f XStrm_RxFifoStreamer \<Rightarrow> 'f \<Rightarrow> u8 list" where
  "rx_stream pending r f =
     drop (unat (HeadIndex r)) (take (unat (RxFifoWidth r)) (RxBuffer r)) @ pending f"

locale rx_fifo =
  fixes R :: "u32 \<Rightarrow> ('f, u8 list) state"
    and pending :: "'f \<Rightarrow> u8 list" and width :: u32
  assumes width: "0 < width" "width \<le> 16"
    and whole: "unat width dvd length (pending f)"
    and read_takes: "unat n * unat width \<le> length (pending f) \<Longrightarrow>
      fst (run_state (R n) f) = take (unat n * unat width) (pending f) \<and>
      pending (snd (run_state (R n) f)) = drop (unat n * unat width) (pending f)"
begin

lemma width_nonzero: "width \<noteq> 0"
  using width(1) by simp

lemma width_nat: "0 < unat width" "unat width \<le> 16"
  using width by (simp_all add: word_less_nat_alt word_le_nat_alt unat_gt_0)

lemma one_word: "pending f \<noteq> [] \<Longrightarrow> unat width \<le> length (pending f)"
  using whole [of f] by (simp add: dvd_imp_le)

text \<open>One pass that moves the first \<open>n\<close> bytes, and a loop that moves the others.\<close>

lemma read_compose:
  assumes step: "XStrm_Read_loop r dest rem m f =
      XStrm_Read_loop r1 (dest + ucast n) (rem - n) (store_bytes dest (take (unat n) S) m) f1"
    and n: "unat n \<le> unat rem" "unat rem \<le> length S"
    and r1: "FrmByteCnt r1 = FrmByteCnt r - n" "GetLenFn r1 = GetLenFn r"
    and IH: "\<exists>r' f'. XStrm_Read_loop r1 (dest + ucast n) (rem - n) (store_bytes dest (take (unat n) S) m) f1 =
      Some (r', store_bytes (dest + ucast n) (take (unat (rem - n)) (drop (unat n) S))
        (store_bytes dest (take (unat n) S) m), f') \<and>
      rx_ok width R r' \<and> FrmByteCnt r' = FrmByteCnt r1 - (rem - n) \<and> GetLenFn r' = GetLenFn r1 \<and>
      rx_stream pending r' f' = drop (unat (rem - n)) (drop (unat n) S)"
  shows "\<exists>r' f'. XStrm_Read_loop r dest rem m f = Some (r', store_bytes dest (take (unat rem) S) m, f') \<and>
    rx_ok width R r' \<and> FrmByteCnt r' = FrmByteCnt r - rem \<and> GetLenFn r' = GetLenFn r \<and>
    rx_stream pending r' f' = drop (unat rem) S"
proof -
  have sub: "unat (rem - n) = unat rem - unat n"
    using n(1) by (intro unat_sub) (simp add: word_le_nat_alt)
  have "take (unat rem) S = take (unat n) S @ take (unat (rem - n)) (drop (unat n) S)"
    using n(1) sub take_add [of "unat n" "unat rem - unat n" S] by simp
  then have "store_bytes dest (take (unat rem) S) m =
      store_bytes (dest + ucast n) (take (unat (rem - n)) (drop (unat n) S))
        (store_bytes dest (take (unat n) S) m)"
    using n by (simp add: store_bytes_append min_absorb2)
  then show ?thesis
    using IH step sub n r1 by (simp add: drop_drop algebra_simps)
qed

lemma buffer_step:
  assumes "rx_ok width R r" "HeadIndex r \<noteq> width" "rem \<noteq> 0"
    "part = min rem (width - HeadIndex r)"
    "r1 = r\<lparr>HeadIndex := HeadIndex r + part, FrmByteCnt := FrmByteCnt r - part\<rparr>"
  shows "rx_ok width R r1" "0 < unat part" "unat part \<le> unat rem"
    and "rx_stream pending r1 f = drop (unat part) (rx_stream pending r f)"
    and "XStrm_Read_loop r dest rem m f = XStrm_Read_loop r1 (dest + ucast part) (rem - part)
      (store_bytes dest (take (unat part) (rx_stream pending r f)) m) f"
proof -
  have r: "RxFifoWidth r = width" "HeadIndex r \<le> width" "length (RxBuffer r) = 16"
    using assms(1) by (simp_all add: rx_ok_def)
  note p = u32_part [OF r(2) assms(4)]
  have lt: "unat (HeadIndex r) < unat width"
    using r(2) assms(2) by (simp add: word_less_nat_alt flip: word_less_nat_alt order_less_le)
  show "rx_ok width R r1"
    using assms(1,5) p by (auto simp: rx_ok_def word_le_nat_alt)
  show "0 < unat part" "unat part \<le> unat rem"
    using p(1) lt assms(3) by (simp_all add: unat_gt_0)
  show "rx_stream pending r1 f = drop (unat part) (rx_stream pending r f)"
    using p r width_nat by (simp add: assms(5) rx_stream_def drop_drop add.commute)
  have "take (unat part) (rx_stream pending r f) = take (unat part) (drop (unat (HeadIndex r)) (RxBuffer r))"
    using p(4) r width_nat by (simp add: rx_stream_def drop_take min_absorb1)
  moreover have "unat (HeadIndex r) + unat part \<le> length (RxBuffer r)"
    using p(4) width_nat r by simp
  ultimately show "XStrm_Read_loop r dest rem m f = XStrm_Read_loop r1 (dest + ucast part) (rem - part)
      (store_bytes dest (take (unat part) (rx_stream pending r f)) m) f"
    using assms(2-5) r by (simp add: XStrm_Read_loop.simps [of r] Let_def rx_copy_eq)
qed

lemma words_step:
  assumes "rx_ok width R r" "HeadIndex r = width" "dest AND 3 = 0" "width \<le> rem" "rem \<noteq> 0"
    and "n = rem div width * width" "unat rem \<le> length (rx_stream pending r f)"
    and "r1 = r\<lparr>FrmByteCnt := FrmByteCnt r - n\<rparr>" "f1 = snd (run_state (R (rem div width)) f)"
  shows "rx_ok width R r1" "rx_stream pending r1 f1 = drop (unat n) (rx_stream pending r f)"
    and "XStrm_Read_loop r dest rem m f = XStrm_Read_loop r1 (dest + ucast n) (rem - n)
      (store_bytes dest (take (unat n) (rx_stream pending r f)) m) f1"
proof -
  have r: "RxFifoWidth r = width" "length (RxBuffer r) = 16" "ReadFn r = R"
    using assms(1) by (simp_all add: rx_ok_def)
  note w = u32_words [OF width(1) assms(4,6)]
  have S: "rx_stream pending r f = pending f"
    using assms(2) r by (simp add: rx_stream_def)
  have rd: "fst (run_state (R (rem div width)) f) = take (unat n) (pending f)"
    "pending f1 = drop (unat n) (pending f)"
    using read_takes [of "rem div width" f] w(1,2) assms(7) unfolding S assms(9) by simp_all
  show "rx_ok width R r1"
    using assms(1,8) by (simp add: rx_ok_def)
  show "rx_stream pending r1 f1 = drop (unat n) (rx_stream pending r f)"
    using rd(2) assms(2,8) r unfolding S by (simp add: rx_stream_def)
  show "XStrm_Read_loop r dest rem m f = XStrm_Read_loop r1 (dest + ucast n) (rem - n)
      (store_bytes dest (take (unat n) (rx_stream pending r f)) m) f1"
    using assms(2-6,8,9) r rd(1) width(1) unfolding S
    by (auto simp: XStrm_Read_loop.simps [of r] Let_def)
qed

lemma fill_step:
  assumes "rx_ok width R r" "HeadIndex r = width" "\<not> (dest AND 3 = 0 \<and> width \<le> rem)" "rem \<noteq> 0"
    and "unat rem \<le> length (rx_stream pending r f)" "x = run_state (R 1) f"
    and "r1 = r\<lparr>RxBuffer := fill_buffer (RxBuffer r) (fst x), HeadIndex := 0\<rparr>"
  shows "rx_ok width R r1" "rx_stream pending r1 (snd x) = rx_stream pending r f"
    and "XStrm_Read_loop r dest rem m f = XStrm_Read_loop r1 dest rem m (snd x)"
proof -
  have r: "RxFifoWidth r = width" "length (RxBuffer r) = 16" "ReadFn r = R"
    using assms(1) by (simp_all add: rx_ok_def)
  have S: "rx_stream pending r f = pending f"
    using assms(2) r by (simp add: rx_stream_def)
  have le: "unat width \<le> length (pending f)"
    using assms(4,5) S by (intro one_word) (auto simp: unat_eq_zero)
  have rd: "fst x = take (unat width) (pending f)" "pending (snd x) = drop (unat width) (pending f)"
    using read_takes [of 1 f] le unfolding assms(6) by simp_all
  show "rx_ok width R r1"
    using assms(1,7) rd(1) le width_nat by (simp add: rx_ok_def fill_buffer_def)
  show "rx_stream pending r1 (snd x) = rx_stream pending r f"
    using rd le r unfolding S by (simp add: assms(7) rx_stream_def fill_buffer_def)
  show "XStrm_Read_loop r dest rem m f = XStrm_Read_loop r1 dest rem m (snd x)"
    using assms(2-4,6,7) r by (auto simp: XStrm_Read_loop.simps [of r] Let_def)
qed

lemma read_refines:
  assumes "rx_ok width R r" "unat rem \<le> length (rx_stream pending r f)"
  shows "\<exists>r' f'. XStrm_Read_loop r dest rem m f =
      Some (r', store_bytes dest (take (unat rem) (rx_stream pending r f)) m, f') \<and>
    rx_ok width R r' \<and> FrmByteCnt r' = FrmByteCnt r - rem \<and> GetLenFn r' = GetLenFn r \<and>
    rx_stream pending r' f' = drop (unat rem) (rx_stream pending r f)"
  using assms
proof (induction "2 * unat rem + (if HeadIndex r = RxFifoWidth r then 1 else 0)"
    arbitrary: r dest rem m f rule: less_induct)
  case less
  have r: "ReadFn r = R" "RxFifoWidth r = width" "HeadIndex r \<le> width" "length (RxBuffer r) = 16"
    using less.prems(1) by (simp_all add: rx_ok_def)
  consider (finished) "rem = 0" | (buffer) "rem \<noteq> 0" "HeadIndex r \<noteq> width"
    | (words) "rem \<noteq> 0" "HeadIndex r = width" "dest AND 3 = 0" "width \<le> rem"
    | (fill) "rem \<noteq> 0" "HeadIndex r = width" "\<not> (dest AND 3 = 0 \<and> width \<le> rem)"
    by blast
  then show ?case
  proof cases
    case finished
    with less.prems show ?thesis
      by (simp add: XStrm_Read_loop.simps)
  next
    case buffer
    define part r1 where "part = min rem (width - HeadIndex r)"
      and "r1 = r\<lparr>HeadIndex := HeadIndex r + part, FrmByteCnt := FrmByteCnt r - part\<rparr>"
    note b = buffer_step [OF less.prems(1) buffer(2,1) part_def r1_def]
    have sub: "unat (rem - part) = unat rem - unat part"
      using b(3) by (intro unat_sub) (simp add: word_le_nat_alt)
    have len: "unat (rem - part) \<le> length (rx_stream pending r1 f)"
      using sub b(3) less.prems(2) by (simp add: b(4))
    have "2 * unat (rem - part) + (if HeadIndex r1 = RxFifoWidth r1 then 1 else 0) <
        2 * unat rem + (if HeadIndex r = RxFifoWidth r then 1 else 0)"
      using sub b(2,3) by auto
    note IH = less.hyps [OF this b(1) len]
    show ?thesis
      by (rule read_compose [OF b(5) b(3) less.prems(2) _ _ IH [unfolded b(4)]]) (simp_all add: r1_def)
  next
    case words
    define n r1 f1 where "n = rem div width * width" and "r1 = r\<lparr>FrmByteCnt := FrmByteCnt r - n\<rparr>"
      and "f1 = snd (run_state (R (rem div width)) f)"
    note b = words_step [OF less.prems(1) words(2,3,4,1) n_def less.prems(2) r1_def f1_def]
    note w = u32_words [OF width(1) words(4) n_def]
    have len: "unat (rem - n) \<le> length (rx_stream pending r1 f1)"
      using w(4) less.prems(2) by (simp add: b(2))
    have "2 * unat (rem - n) + (if HeadIndex r1 = RxFifoWidth r1 then 1 else 0) <
        2 * unat rem + (if HeadIndex r = RxFifoWidth r then 1 else 0)"
      using w(2-4) words(2) r(2) by (simp add: r1_def)
    note IH = less.hyps [OF this b(1) len]
    show ?thesis
      by (rule read_compose [OF b(3) w(2) less.prems(2) _ _ IH [unfolded b(2)]]) (simp_all add: r1_def)
  next
    case fill
    define x r1 where "x = run_state (R 1) f"
      and "r1 = r\<lparr>RxBuffer := fill_buffer (RxBuffer r) (fst x), HeadIndex := 0\<rparr>"
    note b = fill_step [OF less.prems(1) fill(2,3,1) less.prems(2) x_def r1_def]
    have "\<exists>r' f'. XStrm_Read_loop r1 dest rem m (snd x) =
        Some (r', store_bytes dest (take (unat rem) (rx_stream pending r1 (snd x))) m, f') \<and>
      rx_ok width R r' \<and> FrmByteCnt r' = FrmByteCnt r1 - rem \<and> GetLenFn r' = GetLenFn r1 \<and>
      rx_stream pending r' f' = drop (unat rem) (rx_stream pending r1 (snd x))"
      using less.prems(2) fill(2) r width(1) b(2) by (intro less.hyps b(1)) (auto simp: r1_def)
    then show ?thesis
      unfolding b(2,3) by (simp add: r1_def)
  qed
qed

end

section \<open>Frames\<close>

context tx_fifo
begin

text \<open>
  Closing a frame hands over the last, partly filled word, so that the FIFO has all bytes
  of the stream, followed by less than a word of padding, when the length is set.
\<close>

lemma setlen_flushes:
  assumes "tx_ok width W t" and set: "\<And>f. sent (snd (run_state (SetLenFn t n) f)) = sent f"
  shows "\<exists>pad. sent (snd (run_state (XStrm_TxSetLen t n) f)) = tx_stream sent t f @ pad \<and>
    length pad < unat width"
    and "TailIndex (fst (run_state (XStrm_TxSetLen t n) f)) = 0"
proof -
  have t: "WriteFn t = W" "unat (TailIndex t) \<le> unat width" "length (TxBuffer t) = 16"
    using assms(1) by (simp_all add: tx_ok_def word_le_nat_alt)
  have split: "take (unat width) (TxBuffer t) =
      take (unat (TailIndex t)) (TxBuffer t) @ drop (unat (TailIndex t)) (take (unat width) (TxBuffer t))"
    using t(2) append_take_drop_id [of "unat (TailIndex t)" "take (unat width) (TxBuffer t)"]
    by (simp add: min_absorb1)
  show "TailIndex (fst (run_state (XStrm_TxSetLen t n) f)) = 0"
    by (simp add: XStrm_TxSetLen_def split_beta)
  show "\<exists>pad. sent (snd (run_state (XStrm_TxSetLen t n) f)) = tx_stream sent t f @ pad \<and>
    length pad < unat width"
  proof (cases "TailIndex t = 0")
    case True
    then show ?thesis
      using set width_nat by (intro exI [of _ "[]"]) (simp add: XStrm_TxSetLen_def split_beta tx_stream_def)
  next
    case False
    then have "0 < unat (TailIndex t)"
      by (simp add: unat_gt_0)
    then show ?thesis
      using False t width_nat split
      by (intro exI [of _ "drop (unat (TailIndex t)) (take (unat width) (TxBuffer t))"])
        (simp add: XStrm_TxSetLen_def split_beta tx_stream_def set write_sends map_nth_take)
  qed
qed

end

context rx_fifo
begin

lemma read_frame:
  assumes "rx_ok width R r" "unat n \<le> length (rx_stream pending r f)"
  shows "\<exists>r' f'. XStrm_Read r dest n m f =
      Some (r', store_bytes dest (take (unat n) (rx_stream pending r f)) m, f') \<and>
    rx_ok width R r' \<and> FrmByteCnt r' = FrmByteCnt r - n \<and>
    (FrmByteCnt r \<noteq> n \<longrightarrow> rx_stream pending r' f' = drop (unat n) (rx_stream pending r f))"
proof -
  obtain r' f' where "XStrm_Read_loop r dest n m f =
      Some (r', store_bytes dest (take (unat n) (rx_stream pending r f)) m, f')"
    "rx_ok width R r'" "FrmByteCnt r' = FrmByteCnt r - n"
    "rx_stream pending r' f' = drop (unat n) (rx_stream pending r f)"
    using read_refines [OF assms, of dest m] by blast
  then show ?thesis
    by (simp add: XStrm_Read_def rx_ok_def)
qed

end

end
