(* ===== verification/Devtree.thy ===== *)
theory Devtree
  imports Lime_Prelude
begin

text \<open>
  Device discovery, \<^verbatim>\<open>src/shared/linux/devtree.c\<close>: \<^verbatim>\<open>dev_search\<close> walks the device tree the
  kernel exposes as directories and files, \<^verbatim>\<open>dev_reverse\<close> turns the big-endian property it
  finds into a little-endian value, and \<^verbatim>\<open>dev_mmap\<close> maps the page of a device. The file
  system is a tree; opening \<^verbatim>\<open>/dev/mem\<close>, \<^verbatim>\<open>mmap\<close> and \<^verbatim>\<open>munmap\<close> are parameters.
\<close>

section \<open>Mapping devices\<close>

text \<open>The two file-scope variables, and the operating system calls.\<close>

record dev_state =
  mfd :: int
  page_size :: u64

record os =
  os_pagesize :: u64
  os_open :: int
  os_mmap :: "int \<Rightarrow> u64 \<Rightarrow> u64 \<Rightarrow> u64"
  os_munmap :: "u64 \<Rightarrow> u64 \<Rightarrow> int"

definition MAP_FAILED :: u64 where
  "MAP_FAILED = - 1"

definition dev_mmap :: "os \<Rightarrow> u64 \<Rightarrow> dev_state \<Rightarrow> u64 \<times> dev_state" where
  "dev_mmap S paddr d =
     (let d' = (if page_size d = 0 then d\<lparr>page_size := os_pagesize S, mfd := os_open S\<rparr> else d)
      in if page_size d = 0 \<and> mfd d' < 1 then (MAP_FAILED, d')
         else (os_mmap S (mfd d') (page_size d') (paddr AND NOT (page_size d' - 1)), d'))"

definition dev_munmap :: "os \<Rightarrow> u64 \<Rightarrow> dev_state \<Rightarrow> int" where
  "dev_munmap S vaddr d = os_munmap S vaddr (page_size d)"

section \<open>Byte reversal\<close>

fun dev_reverse_loop :: "nat \<Rightarrow> nat \<Rightarrow> 'a list \<Rightarrow> 'a list" where
  "dev_reverse_loop 0 i data = data"
| "dev_reverse_loop (Suc k) i data =
     (let tmp = data ! i;
          data = data[i := data ! (length data - i - 1)];
          data = data[length data - i - 1 := tmp]
      in dev_reverse_loop k (i + 1) data)"

text \<open>\<open>size\<close> is the length of the buffer: the loop runs \<^verbatim>\<open>size/2\<close> times.\<close>

definition dev_reverse :: "'a list \<Rightarrow> 'a list" where
  "dev_reverse data = dev_reverse_loop (length data div 2) 0 data"

section \<open>Searching the tree\<close>

text \<open>
  \<open>File c\<close> is a readable file with contents \<open>c\<close>, \<open>Dir es\<close> a directory whose entries
  \<^verbatim>\<open>readdir\<close> lists in the order \<open>es\<close>, \<open>NoStat\<close> an entry on which \<^verbatim>\<open>stat\<close> fails.
\<close>

datatype node = File "u8 list" | Dir "(string \<times> node) list" | NoStat

definition NAME_SZ :: nat where
  "NAME_SZ = 64"

definition c_str :: "u8 list \<Rightarrow> string" where
  "c_str c = map (\<lambda>b. char_of (unat b)) (takeWhile (\<lambda>b. b \<noteq> 0) c)"

text \<open>
  \<^verbatim>\<open>fread(data, 1, n, pfile)\<close> on a file with contents \<open>c\<close>: the count, and the buffer with its
  first bytes overwritten.
\<close>

definition fread_into :: "nat \<Rightarrow> u8 list \<Rightarrow> u8 list \<Rightarrow> nat \<times> u8 list" where
  "fread_into n c data = (min n (length c), take n c @ drop (length (take n c)) data)"

text \<open>The test of one directory: its \<^verbatim>\<open>name\<close> file, and then its property file.\<close>

definition dev_probe ::
  "string \<Rightarrow> string \<Rightarrow> nat \<Rightarrow> (string \<times> node) list \<Rightarrow> u8 list \<Rightarrow> bool \<times> u8 list" where
  "dev_probe name nm n es data =
     (case map_of es ''name'' of
        Some (File c) \<Rightarrow>
          (let elem = min NAME_SZ (length c)
           in if elem > 0 \<and> elem < NAME_SZ \<and> name = c_str c then
                (case map_of es nm of
                   Some (File p) \<Rightarrow>
                     (let r = fread_into n p data
                      in if fst r = n then (True, dev_reverse (snd r)) else (False, snd r))
                 | _ \<Rightarrow> (False, data))
              else (False, data))
      | _ \<Rightarrow> (False, data))"

fun dev_search :: "string \<Rightarrow> int \<Rightarrow> string \<Rightarrow> nat \<Rightarrow> node \<Rightarrow> u8 list \<Rightarrow> int \<times> u8 list"
  and dev_entries ::
    "string \<Rightarrow> int \<Rightarrow> string \<Rightarrow> nat \<Rightarrow> (string \<times> node) list \<Rightarrow> int \<Rightarrow> u8 list \<Rightarrow> int \<times> u8 list"
where
  "dev_search name inst nm n (Dir es) data =
     (if length nm > NAME_SZ then (0, data)
      else (let p = dev_probe name nm n es data
            in if fst p then (1, snd p) else dev_entries name inst nm n es 0 (snd p)))"
| "dev_search name inst nm n (File c) data = (0, data)"
| "dev_search name inst nm n NoStat data = (0, data)"
| "dev_entries name inst nm n [] ret data = (ret, data)"
| "dev_entries name inst nm n ((e, t) # es) ret data =
     (if \<not> ret < inst then (ret, data)
      else if e = ''.'' \<or> e = ''..'' \<or> e = ''name'' \<or> e = nm then
        dev_entries name inst nm n es ret data
      else if length e > NAME_SZ then (ret, data)
      else (case t of
          NoStat \<Rightarrow> (ret, data)
        | Dir _ \<Rightarrow>
            (let r = dev_search name inst nm n t data
             in dev_entries name inst nm n es (ret + fst r) (snd r))
        | File _ \<Rightarrow> dev_entries name inst nm n es ret data))"

section \<open>Reversal is \<open>rev\<close>\<close>

lemma dev_reverse_loop_mid:
  "length m div 2 = k \<Longrightarrow> length a = length c \<Longrightarrow>
   dev_reverse_loop k (length a) (a @ m @ c) = a @ rev m @ c"
proof (induction k arbitrary: a m c)
  case 0
  then show ?case
    by (cases m) (auto simp: div_eq_0_iff less_Suc_eq)
next
  case (Suc k)
  then obtain x m1 where "m = x # m1"
    by (cases m) auto
  moreover from this Suc.prems(1) have "m1 \<noteq> []"
    by auto
  ultimately obtain m2 y where m: "m = x # m2 @ [y]"
    by (metis rev_exhaust)
  have "length m2 div 2 = k"
    using Suc.prems(1) m by simp
  then have "dev_reverse_loop k (length (a @ [y])) ((a @ [y]) @ m2 @ (x # c)) = (a @ [y]) @ rev m2 @ (x # c)"
    using Suc.prems(2) by (intro Suc.IH) simp_all
  then show ?case
    using Suc.prems(2) by (simp add: m Let_def nth_append list_update_append)
qed

lemma dev_reverse_rev: "dev_reverse xs = rev xs"
  using dev_reverse_loop_mid [of xs _ "[]" "[]"] by (simp add: dev_reverse_def)

section \<open>What the search finds\<close>

text \<open>
  The directories that answer a query, in the order the search meets them, as the values it
  delivers: an answering directory is not searched further. The tree is regular if the
  walk meets no over-long name and no failing \<^verbatim>\<open>stat\<close>, and no answering directory has a
  property of the wrong size.
\<close>

definition skipped :: "string \<Rightarrow> string \<Rightarrow> bool" where
  "skipped nm e \<longleftrightarrow> e = ''.'' \<or> e = ''..'' \<or> e = ''name'' \<or> e = nm"

fun dev_matches :: "string \<Rightarrow> string \<Rightarrow> nat \<Rightarrow> node \<Rightarrow> u8 list list"
  and entry_matches :: "string \<Rightarrow> string \<Rightarrow> nat \<Rightarrow> (string \<times> node) list \<Rightarrow> u8 list list"
where
  "dev_matches name nm n (Dir es) =
     (if fst (dev_probe name nm n es (replicate n 0)) then [snd (dev_probe name nm n es (replicate n 0))]
      else entry_matches name nm n es)"
| "dev_matches name nm n (File c) = []"
| "dev_matches name nm n NoStat = []"
| "entry_matches name nm n [] = []"
| "entry_matches name nm n ((e, t) # es) =
     (if skipped nm e then entry_matches name nm n es
      else dev_matches name nm n t @ entry_matches name nm n es)"

fun regular :: "string \<Rightarrow> node \<Rightarrow> bool" and regular_entries :: "string \<Rightarrow> (string \<times> node) list \<Rightarrow> bool"
where
  "regular nm (Dir es) = regular_entries nm es"
| "regular nm (File c) = True"
| "regular nm NoStat = False"
| "regular_entries nm [] = True"
| "regular_entries nm ((e, t) # es) =
     ((skipped nm e \<or> length e \<le> NAME_SZ \<and> regular nm t) \<and> regular_entries nm es)"

lemma length_dev_probe:
  assumes "length data = n"
  shows "length (snd (dev_probe name nm n es data)) = n"
  using assms
  by (auto simp: dev_probe_def Let_def fread_into_def dev_reverse_rev split: option.splits node.splits)

lemma dev_probe_data:
  assumes "length data = n" "length data' = n"
  shows "fst (dev_probe name nm n es data) = fst (dev_probe name nm n es data')"
    and "fst (dev_probe name nm n es data) \<Longrightarrow>
      snd (dev_probe name nm n es data) = snd (dev_probe name nm n es data')"
  using assms
  by (auto simp: dev_probe_def Let_def fread_into_def min_def split: option.splits node.splits if_splits)

lemma length_dev_search [simp]:
  "length data = n \<Longrightarrow> length (snd (dev_search name inst nm n t data)) = n"
  "length data = n \<Longrightarrow> length (snd (dev_entries name inst nm n es ret data)) = n"
proof (induction name inst nm n t data and name inst nm n es ret data rule: dev_search_dev_entries.induct)
  case (5 name inst nm n e t es ret data)
  then show ?case
    by (auto simp: Let_def split: node.splits)
qed (auto simp: Let_def length_dev_probe)

lemma dev_entries_Cons:
  "dev_entries name inst nm n ((e, t) # es) ret data =
     (if \<not> ret < inst then (ret, data)
      else if skipped nm e then dev_entries name inst nm n es ret data
      else if length e > NAME_SZ \<or> t = NoStat then (ret, data)
      else dev_entries name inst nm n es (ret + fst (dev_search name inst nm n t data))
             (snd (dev_search name inst nm n t data)))"
  by (cases t) (simp_all add: skipped_def Let_def del: dev_search.simps(1))

declare dev_entries.simps(2) [simp del]

lemma dev_search_probe:
  assumes "length data = n" "length nm \<le> NAME_SZ"
  shows "dev_search name inst nm n (Dir es) data =
    (if fst (dev_probe name nm n es (replicate n 0)) then (1, snd (dev_probe name nm n es (replicate n 0)))
     else dev_entries name inst nm n es 0 (snd (dev_probe name nm n es data)))"
  using assms dev_probe_data [of data n "replicate n 0" name nm es] by (auto simp: Let_def)

declare dev_search.simps(1) [simp del]

lemma no_match_no_count:
  "length nm \<le> NAME_SZ \<Longrightarrow> length data = n \<Longrightarrow> dev_matches name nm n t = [] \<Longrightarrow>
   fst (dev_search name inst nm n t data) = 0"
  "length nm \<le> NAME_SZ \<Longrightarrow> length data = n \<Longrightarrow> entry_matches name nm n es = [] \<Longrightarrow>
   fst (dev_entries name inst nm n es ret data) = ret"
proof (induction name nm n t and name nm n es arbitrary: data and ret data rule: dev_matches_entry_matches.induct)
  case (1 name nm n es)
  then show ?case
    by (auto simp: Let_def dev_search_probe length_dev_probe split: if_splits)
next
  case (5 name nm n e t es)
  then show ?case
    by (cases "skipped nm e") (simp_all add: dev_entries_Cons)
qed simp_all

lemma entries_stop: "\<not> ret < inst \<Longrightarrow> dev_entries name inst nm n es ret d = (ret, d)"
  by (cases es) (auto simp: dev_entries_Cons)

lemma first_match:
  "length data = n \<Longrightarrow> length nm \<le> NAME_SZ \<Longrightarrow> regular nm t \<Longrightarrow>
   dev_matches name nm n t \<noteq> [] \<Longrightarrow>
   dev_search name 1 nm n t data = (1, hd (dev_matches name nm n t))"
  "length data = n \<Longrightarrow> length nm \<le> NAME_SZ \<Longrightarrow> regular_entries nm es \<Longrightarrow>
   entry_matches name nm n es \<noteq> [] \<Longrightarrow>
   dev_entries name 1 nm n es 0 data = (1, hd (entry_matches name nm n es))"
proof (induction name nm n t and name nm n es arbitrary: data and data rule: dev_matches_entry_matches.induct)
  case (1 name nm n es)
  then show ?case
    by (auto simp: Let_def dev_search_probe length_dev_probe)
next
  case (5 name nm n e t es)
  show ?case
  proof (cases "skipped nm e \<or> dev_matches name nm n t = []")
    case True
    then show ?thesis
      using 5 no_match_no_count(1) [of nm data n name t 1]
      by (auto simp: dev_entries_Cons)
  next
    case False
    then show ?thesis
      using 5 by (auto simp: dev_entries_Cons entries_stop)
  qed
qed simp_all

text \<open>
  With an instance number above one the search is exact when the devices are the direct
  children of the directory, or below a child that answers itself.
\<close>

definition direct :: "string \<Rightarrow> string \<Rightarrow> nat \<Rightarrow> node \<Rightarrow> bool" where
  "direct name nm n t \<longleftrightarrow> (case t of Dir es \<Rightarrow> fst (dev_probe name nm n es (replicate n 0)) | _ \<Rightarrow> False)
     \<or> dev_matches name nm n t = []"

lemma direct_search:
  assumes "direct name nm n t" "length data = n" "length nm \<le> NAME_SZ" "dev_matches name nm n t \<noteq> []"
  shows "dev_search name inst nm n t data = (1, hd (dev_matches name nm n t)) \<and>
    length (dev_matches name nm n t) = 1"
  using assms by (cases t) (auto simp: direct_def Let_def dev_search_probe)

lemma nth_match_entries:
  assumes "length nm \<le> NAME_SZ" "regular_entries nm es" "\<forall>(e, t)\<in>set es. direct name nm n t"
    and "length data = n" "0 \<le> ret" "ret < inst"
  shows "fst (dev_entries name inst nm n es ret data) =
      min inst (ret + int (length (entry_matches name nm n es))) \<and>
    (inst \<le> ret + int (length (entry_matches name nm n es)) \<longrightarrow>
      snd (dev_entries name inst nm n es ret data) = entry_matches name nm n es ! nat (inst - ret - 1))"
  using assms
proof (induction es arbitrary: ret data)
  case (Cons et es)
  obtain e t where et: "et = (e, t)"
    by force
  show ?case
  proof (cases "skipped nm e \<or> dev_matches name nm n t = []")
    case True
    then show ?thesis
      using Cons.prems Cons.IH no_match_no_count(1) [of nm data n name t inst]
      by (auto simp: et dev_entries_Cons)
  next
    case False
    define x where "x = hd (dev_matches name nm n t)"
    have t: "dev_search name inst nm n t data = (1, x)" "length (dev_matches name nm n t) = 1"
      "t \<noteq> NoStat" "length e \<le> NAME_SZ"
      using direct_search [of name nm n t data inst] Cons.prems False by (auto simp: et x_def)
    have x: "dev_matches name nm n t = [x]" "length x = n"
      using t(2) length_dev_search(1) [OF Cons.prems(4), of name inst nm t]
      by (auto simp: x_def t(1) length_Suc_conv)
    have here: "dev_entries name inst nm n (et # es) ret data = dev_entries name inst nm n es (ret + 1) x"
      using False t Cons.prems(6) by (auto simp: et dev_entries_Cons)
    show ?thesis
    proof (cases "ret + 1 < inst")
      case True
      then have "nat (inst - ret - 1) = Suc (nat (inst - (ret + 1) - 1))"
        by simp
      then show ?thesis
        using True False Cons.prems Cons.IH [of x "ret + 1"] x unfolding here by (auto simp: et)
    next
      case last: False
      then show ?thesis
        using Cons.prems(5,6) False x unfolding here by (auto simp: et entries_stop)
    qed
  qed
qed auto

lemma search_instance:
  assumes "length nm \<le> NAME_SZ" "regular nm (Dir es)" "\<forall>(e, t)\<in>set es. direct name nm n t"
    and "\<not> fst (dev_probe name nm n es (replicate n 0))" "length data = n" "0 < inst"
  shows "fst (dev_search name inst nm n (Dir es) data) =
      min inst (int (length (dev_matches name nm n (Dir es)))) \<and>
    (inst \<le> int (length (dev_matches name nm n (Dir es))) \<longrightarrow>
      snd (dev_search name inst nm n (Dir es) data) = dev_matches name nm n (Dir es) ! nat (inst - 1))"
proof -
  have "length (snd (dev_probe name nm n es data)) = n"
    using assms(5) by (rule length_dev_probe)
  then show ?thesis
    using nth_match_entries [of nm es name n "snd (dev_probe name nm n es data)" 0 inst] assms
    by (simp add: dev_search_probe)
qed

section \<open>Register properties\<close>

text \<open>
  A \<^verbatim>\<open>reg\<close> property holds the address and then the length, both big-endian; the callers read
  it into \<^verbatim>\<open>struct {uint64_t len, addr;}\<close>. Bytes of the little-endian structure:
\<close>

definition le64 :: "u8 list \<Rightarrow> u64" where
  "le64 bs = foldr (\<lambda>b acc. ucast b + 256 * acc) bs 0"

definition reg_len :: "u8 list \<Rightarrow> u64" where
  "reg_len data = le64 (take 8 data)"

definition reg_addr :: "u8 list \<Rightarrow> u64" where
  "reg_addr data = le64 (take 8 (drop 8 data))"

definition be64 :: "u8 list \<Rightarrow> u64" where
  "be64 bs = foldl (\<lambda>acc b. 256 * acc + ucast b) 0 bs"

lemma le64_rev: "le64 (rev bs) = be64 bs"
  by (simp add: le64_def be64_def foldr_conv_foldl add.commute)

lemma reg_reversed:
  assumes "length addr = 8" "length len = 8"
  shows "reg_addr (dev_reverse (addr @ len)) = be64 addr" "reg_len (dev_reverse (addr @ len)) = be64 len"
  using assms by (simp_all add: reg_addr_def reg_len_def dev_reverse_rev le64_rev)

section \<open>Properties\<close>

definition demo_dev :: "u8 \<Rightarrow> u8 list \<Rightarrow> node" where
  "demo_dev name reg = Dir [(''name'', File [name, 0]), (''r'', File reg)]"

definition demo_tree :: node where
  "demo_tree = Dir [(''a0'', demo_dev 102 [0, 0, 0, 1]), (''b0'', demo_dev 100 [0, 0, 0, 9]),
     (''a1'', demo_dev 102 [0, 0, 0, 2])]"



text \<open>On any regular tree, however deep, the search for the first instance succeeds exactly
  when some directory answers, and delivers the property of the first one in directory order.\<close>

theorem dev_search_finds_first:
  assumes "length nm \<le> NAME_SZ" "regular nm t" "length data = n"
  shows "fst (dev_search name 1 nm n t data) = (if dev_matches name nm n t = [] then 0 else 1) \<and>
    (dev_matches name nm n t \<noteq> [] \<longrightarrow>
      snd (dev_search name 1 nm n t data) = hd (dev_matches name nm n t))"
  using no_match_no_count(1) [OF assms(1,3), of name t] first_match(1) [OF assms(3,1,2), of name] by simp

theorem dev_search_finds_first_witness:
  "snd (dev_search ''d'' 1 ''r'' 4 demo_tree [0, 0, 0, 0]) = [9, 0, 0, 0]"
proof -
  have m: "dev_matches ''d'' ''r'' 4 demo_tree = [[9, 0, 0, 0]]"
    by code_simp
  have r: "regular ''r'' demo_tree" and len: "length ''r'' \<le> NAME_SZ"
    by (code_simp, code_simp)
  show ?thesis
    using dev_search_finds_first [OF len r, of "[0, 0, 0, 0]" 4 "''d''"] m by simp
qed

text \<open>
  The instance number is handed to the recursive call as it is, so in a tree with devices
  on two levels the count can pass it: with one device below the first bus and two below
  the second, the search for instance 2 returns 3 and delivers the third device.
\<close>

lemma dev_search_overshoots:
  "dev_search ''d'' 2 ''r'' 1
     (Dir [(''bus0'', Dir [(''d0'', demo_dev 100 [10])]),
           (''bus1'', Dir [(''d1'', demo_dev 100 [11]), (''d2'', demo_dev 100 [12])])]) [0]
   = (3, [12])"
  by code_simp

end
