(* ===== verification/Llfifo.thy ===== *)
theory Llfifo
  imports Streamer Devtree
begin

text \<open>
  The AXI FIFO driver, \<^verbatim>\<open>src/shared/linux/xllfifo/\<close>: register map (\<^verbatim>\<open>xllfifo_hw.h\<close>), instance
  and register macros (\<^verbatim>\<open>xllfifo.h\<close>), word transfers and initialisation (\<^verbatim>\<open>xllfifo.c\<close>) and the
  configuration lookup (\<^verbatim>\<open>xllfifo_sinit.c\<close>, \<^verbatim>\<open>xllfifo_g.c\<close>). The file is compiled with
  \<^verbatim>\<open>NDEBUG\<close>, so the assertions and debug prints are empty. The locale \<open>llf_dev\<close> is the
  contract of the hardware FIFO; in it the word transfers meet the interfaces \<open>tx_fifo\<close> and
  \<open>rx_fifo\<close> of the byte streamer.
\<close>

section \<open>Registers\<close>

definition XLLF_ISR_OFFSET :: u64 where "XLLF_ISR_OFFSET = 0x00"
definition XLLF_IER_OFFSET :: u64 where "XLLF_IER_OFFSET = 0x04"
definition XLLF_TDFR_OFFSET :: u64 where "XLLF_TDFR_OFFSET = 0x08"
definition XLLF_TDFV_OFFSET :: u64 where "XLLF_TDFV_OFFSET = 0x0c"
definition XLLF_TDFD_OFFSET :: u64 where "XLLF_TDFD_OFFSET = 0x10"
definition XLLF_AXI4_TDFD_OFFSET :: u64 where "XLLF_AXI4_TDFD_OFFSET = 0x0"
definition XLLF_TLF_OFFSET :: u64 where "XLLF_TLF_OFFSET = 0x14"
definition XLLF_RDFR_OFFSET :: u64 where "XLLF_RDFR_OFFSET = 0x18"
definition XLLF_RDFO_OFFSET :: u64 where "XLLF_RDFO_OFFSET = 0x1c"
definition XLLF_RDFD_OFFSET :: u64 where "XLLF_RDFD_OFFSET = 0x20"
definition XLLF_AXI4_RDFD_OFFSET :: u64 where "XLLF_AXI4_RDFD_OFFSET = 0x1000"
definition XLLF_RLF_OFFSET :: u64 where "XLLF_RLF_OFFSET = 0x24"
definition XLLF_LLR_OFFSET :: u64 where "XLLF_LLR_OFFSET = 0x28"
definition XLLF_TDR_OFFSET :: u64 where "XLLF_TDR_OFFSET = 0x2C"
definition XLLF_RDR_OFFSET :: u64 where "XLLF_RDR_OFFSET = 0x30"
definition XLLF_INT_TC_MASK :: u32 where "XLLF_INT_TC_MASK = 0x08000000"
definition XLLF_INT_RC_MASK :: u32 where "XLLF_INT_RC_MASK = 0x04000000"
definition XLLF_INT_ALL_MASK :: u32 where "XLLF_INT_ALL_MASK = 0xfff80000"
definition XLLF_RDFR_RESET_MASK :: u32 where "XLLF_RDFR_RESET_MASK = 0xa5"
definition XLLF_TDFR_RESET_MASK :: u32 where "XLLF_TDFR_RESET_MASK = 0xa5"
definition XLLF_LLR_RESET_MASK :: u32 where "XLLF_LLR_RESET_MASK = 0xa5"

lemmas llf_consts [reg_consts] =
  XLLF_ISR_OFFSET_def XLLF_IER_OFFSET_def XLLF_TDFR_OFFSET_def XLLF_TDFV_OFFSET_def
  XLLF_TDFD_OFFSET_def XLLF_AXI4_TDFD_OFFSET_def XLLF_TLF_OFFSET_def XLLF_RDFR_OFFSET_def
  XLLF_RDFO_OFFSET_def XLLF_RDFD_OFFSET_def XLLF_AXI4_RDFD_OFFSET_def XLLF_RLF_OFFSET_def
  XLLF_LLR_OFFSET_def XLLF_TDR_OFFSET_def XLLF_RDR_OFFSET_def XLLF_INT_TC_MASK_def
  XLLF_INT_RC_MASK_def XLLF_INT_ALL_MASK_def XLLF_RDFR_RESET_MASK_def XLLF_TDFR_RESET_MASK_def
  XLLF_LLR_RESET_MASK_def

section \<open>Instance\<close>

text \<open>The part of \<^verbatim>\<open>XLlFifo\<close> the word transfers read, and the two streamers that call them.\<close>

record llf_io =
  BaseAddress :: u64
  IsReady :: u32
  Axi4BaseAddress :: u64
  Datainterface :: u32

record 's XLlFifo = llf_io +
  RxStreamer :: "'s XStrm_RxFifoStreamer"
  TxStreamer :: "'s XStrm_TxFifoStreamer"

record XLlFifo_Config =
  cfg_DeviceId :: u32
  cfg_BaseAddress :: u64
  cfg_Axi4BaseAddress :: u64
  cfg_Datainterface :: u32

definition XLlFifo_ReadReg :: "'s mmio \<Rightarrow> u64 \<Rightarrow> u64 \<Rightarrow> ('s, u32) state" where
  "XLlFifo_ReadReg M base regoffset = load32 M (base + regoffset)"

definition XLlFifo_WriteReg :: "'s mmio \<Rightarrow> u64 \<Rightarrow> u64 \<Rightarrow> u32 \<Rightarrow> ('s, unit) state" where
  "XLlFifo_WriteReg M base regoffset val = store32 M (base + regoffset) val"

section \<open>Register macros\<close>

definition XLlFifo_Reset :: "'s mmio \<Rightarrow> 'z llf_io_scheme \<Rightarrow> ('s, unit) state" where
  "XLlFifo_Reset M I = XLlFifo_WriteReg M (BaseAddress I) XLLF_LLR_OFFSET XLLF_LLR_RESET_MASK"

definition XLlFifo_Status :: "'s mmio \<Rightarrow> 'z llf_io_scheme \<Rightarrow> ('s, u32) state" where
  "XLlFifo_Status M I = XLlFifo_ReadReg M (BaseAddress I) XLLF_ISR_OFFSET"

definition XLlFifo_IntEnable :: "'s mmio \<Rightarrow> 'z llf_io_scheme \<Rightarrow> u32 \<Rightarrow> ('s, unit) state" where
  "XLlFifo_IntEnable M I msk = do {
     v \<leftarrow> XLlFifo_ReadReg M (BaseAddress I) XLLF_IER_OFFSET;
     XLlFifo_WriteReg M (BaseAddress I) XLLF_IER_OFFSET (v OR (msk AND XLLF_INT_ALL_MASK))
   }"

definition XLlFifo_IntDisable :: "'s mmio \<Rightarrow> 'z llf_io_scheme \<Rightarrow> u32 \<Rightarrow> ('s, unit) state" where
  "XLlFifo_IntDisable M I msk = do {
     v \<leftarrow> XLlFifo_ReadReg M (BaseAddress I) XLLF_IER_OFFSET;
     XLlFifo_WriteReg M (BaseAddress I) XLLF_IER_OFFSET (v AND NOT (msk AND XLLF_INT_ALL_MASK))
   }"

definition XLlFifo_IntPending :: "'s mmio \<Rightarrow> 'z llf_io_scheme \<Rightarrow> ('s, u32) state" where
  "XLlFifo_IntPending M I = do {
     e \<leftarrow> XLlFifo_ReadReg M (BaseAddress I) XLLF_IER_OFFSET;
     v \<leftarrow> XLlFifo_ReadReg M (BaseAddress I) XLLF_ISR_OFFSET;
     State_Monad.return (e AND v)
   }"

definition XLlFifo_IntClear :: "'s mmio \<Rightarrow> 'z llf_io_scheme \<Rightarrow> u32 \<Rightarrow> ('s, unit) state" where
  "XLlFifo_IntClear M I msk =
     XLlFifo_WriteReg M (BaseAddress I) XLLF_ISR_OFFSET (msk AND XLLF_INT_ALL_MASK)"

definition XLlFifo_RxReset :: "'s mmio \<Rightarrow> 'z llf_io_scheme \<Rightarrow> ('s, unit) state" where
  "XLlFifo_RxReset M I = XLlFifo_WriteReg M (BaseAddress I) XLLF_RDFR_OFFSET XLLF_RDFR_RESET_MASK"

definition XLlFifo_TxReset :: "'s mmio \<Rightarrow> 'z llf_io_scheme \<Rightarrow> ('s, unit) state" where
  "XLlFifo_TxReset M I = XLlFifo_WriteReg M (BaseAddress I) XLLF_TDFR_OFFSET XLLF_TDFR_RESET_MASK"

definition XLlFifo_IsRxEmpty :: "'s mmio \<Rightarrow> 'z llf_io_scheme \<Rightarrow> ('s, bool) state" where
  "XLlFifo_IsRxEmpty M I = do {
     v \<leftarrow> XLlFifo_ReadReg M (BaseAddress I) XLLF_RDFO_OFFSET;
     State_Monad.return (v = 0)
   }"

definition XLlFifo_IsTxDone :: "'s mmio \<Rightarrow> 'z llf_io_scheme \<Rightarrow> ('s, bool) state" where
  "XLlFifo_IsTxDone M I = do {
     v \<leftarrow> XLlFifo_ReadReg M (BaseAddress I) XLLF_ISR_OFFSET;
     State_Monad.return (v AND XLLF_INT_TC_MASK \<noteq> 0)
   }"

definition XLlFifo_IsRxDone :: "'s mmio \<Rightarrow> 'z llf_io_scheme \<Rightarrow> ('s, bool) state" where
  "XLlFifo_IsRxDone M I = do {
     v \<leftarrow> XLlFifo_ReadReg M (BaseAddress I) XLLF_ISR_OFFSET;
     State_Monad.return (v AND XLLF_INT_RC_MASK \<noteq> 0)
   }"

definition XLlFifo_WriteTdr :: "'s mmio \<Rightarrow> 'z llf_io_scheme \<Rightarrow> u32 \<Rightarrow> ('s, unit) state" where
  "XLlFifo_WriteTdr M I tdest = XLlFifo_WriteReg M (BaseAddress I) XLLF_TDR_OFFSET (tdest AND 0xF)"

definition XLlFifo_ReadRdr :: "'s mmio \<Rightarrow> 'z llf_io_scheme \<Rightarrow> ('s, u32) state" where
  "XLlFifo_ReadRdr M I = XLlFifo_ReadReg M (BaseAddress I) XLLF_RDR_OFFSET"

section \<open>Word transfers\<close>

definition XLlFifo_iRxOccupancy :: "'s mmio \<Rightarrow> 'z llf_io_scheme \<Rightarrow> ('s, u32) state" where
  "XLlFifo_iRxOccupancy M I = XLlFifo_ReadReg M (BaseAddress I) XLLF_RDFO_OFFSET"

definition XLlFifo_iRxGetLen :: "'s mmio \<Rightarrow> 'z llf_io_scheme \<Rightarrow> ('s, u32) state" where
  "XLlFifo_iRxGetLen M I = XLlFifo_ReadReg M (BaseAddress I) XLLF_RLF_OFFSET"

definition XLlFifo_RxGetWord :: "'s mmio \<Rightarrow> 'z llf_io_scheme \<Rightarrow> ('s, u32) state" where
  "XLlFifo_RxGetWord M I =
     (if Datainterface I \<noteq> 0 then XLlFifo_ReadReg M (Axi4BaseAddress I) XLLF_AXI4_RDFD_OFFSET
      else XLlFifo_ReadReg M (Axi4BaseAddress I) XLLF_RDFD_OFFSET)"

definition XLlFifo_TxPutWord :: "'s mmio \<Rightarrow> 'z llf_io_scheme \<Rightarrow> u32 \<Rightarrow> ('s, unit) state" where
  "XLlFifo_TxPutWord M I w =
     (if Datainterface I \<noteq> 0 then XLlFifo_WriteReg M (Axi4BaseAddress I) XLLF_AXI4_TDFD_OFFSET w
      else XLlFifo_WriteReg M (Axi4BaseAddress I) XLLF_TDFD_OFFSET w)"

text \<open>
  The word loops. A read returns the words it stores through its pointer, in order; a write
  takes the words behind its pointer as a function of the index.
\<close>

fun read_words :: "'s mmio \<Rightarrow> 'z llf_io_scheme \<Rightarrow> nat \<Rightarrow> ('s, u32 list) state" where
  "read_words M I 0 = State_Monad.return []"
| "read_words M I (Suc n) = do {
     w \<leftarrow> XLlFifo_RxGetWord M I;
     ws \<leftarrow> read_words M I n;
     State_Monad.return (w # ws)
   }"

definition XLlFifo_iRead_Aligned :: "'s mmio \<Rightarrow> 'z llf_io_scheme \<Rightarrow> u32 \<Rightarrow> ('s, u32 list) state" where
  "XLlFifo_iRead_Aligned M I wordcount = read_words M I (unat wordcount)"

definition XLlFifo_iTxVacancy :: "'s mmio \<Rightarrow> 'z llf_io_scheme \<Rightarrow> ('s, u32) state" where
  "XLlFifo_iTxVacancy M I = XLlFifo_ReadReg M (BaseAddress I) XLLF_TDFV_OFFSET"

definition XLlFifo_iTxSetLen :: "'s mmio \<Rightarrow> 'z llf_io_scheme \<Rightarrow> u32 \<Rightarrow> ('s, unit) state" where
  "XLlFifo_iTxSetLen M I bytes = XLlFifo_WriteReg M (BaseAddress I) XLLF_TLF_OFFSET bytes"

fun write_words :: "'s mmio \<Rightarrow> 'z llf_io_scheme \<Rightarrow> (nat \<Rightarrow> u32) \<Rightarrow> nat \<Rightarrow> nat \<Rightarrow> ('s, unit) state" where
  "write_words M I buf i 0 = State_Monad.return ()"
| "write_words M I buf i (Suc n) = do {
     XLlFifo_TxPutWord M I (buf i);
     write_words M I buf (Suc i) n
   }"

definition XLlFifo_iWrite_Aligned ::
  "'s mmio \<Rightarrow> 'z llf_io_scheme \<Rightarrow> (nat \<Rightarrow> u32) \<Rightarrow> u32 \<Rightarrow> ('s, unit) state" where
  "XLlFifo_iWrite_Aligned M I buf wordcount = write_words M I buf 0 (unat wordcount)"

section \<open>Initialisation\<close>

definition FIFO_WIDTH_BYTES :: u32 where
  "FIFO_WIDTH_BYTES = 4"

definition XIL_COMPONENT_IS_READY :: u32 where
  "XIL_COMPONENT_IS_READY = 0x11111111"

text \<open>The streamers after \<^verbatim>\<open>memset\<close>; the null function pointers are set before any call.\<close>

definition zero_rx :: "'s XStrm_RxFifoStreamer" where
  "zero_rx = \<lparr>RxBuffer = replicate 16 0, HeadIndex = 0, RxFifoWidth = 0, FrmByteCnt = 0,
     ReadFn = (\<lambda>_. State_Monad.return []), GetLenFn = State_Monad.return 0,
     GetOccupancyFn = State_Monad.return 0\<rparr>"

definition zero_tx :: "'s XStrm_TxFifoStreamer" where
  "zero_tx = \<lparr>TxBuffer = replicate 16 0, TailIndex = 0, TxFifoWidth = 0,
     WriteFn = (\<lambda>_ _. State_Monad.return ()), SetLenFn = (\<lambda>_. State_Monad.return ()),
     GetVacancyFn = State_Monad.return 0\<rparr>"

text \<open>The word transfers as the byte functions the streamers are given.\<close>

definition llf_read_fn :: "'s mmio \<Rightarrow> llf_io \<Rightarrow> u32 \<Rightarrow> ('s, u8 list) state" where
  "llf_read_fn M I n = do {
     ws \<leftarrow> XLlFifo_iRead_Aligned M I n;
     State_Monad.return (concat (map le32_bytes ws))
   }"

definition llf_write_fn :: "'s mmio \<Rightarrow> llf_io \<Rightarrow> (nat \<Rightarrow> u8) \<Rightarrow> u32 \<Rightarrow> ('s, unit) state" where
  "llf_write_fn M I b n = XLlFifo_iWrite_Aligned M I (ptr_words b) n"

definition llf_instance :: "'s mmio \<Rightarrow> llf_io \<Rightarrow> 's XLlFifo" where
  "llf_instance M io = llf_io.extend io
     \<lparr>RxStreamer = XStrm_RxInitialize FIFO_WIDTH_BYTES (llf_read_fn M io) (XLlFifo_iRxGetLen M io)
        (XLlFifo_iRxOccupancy M io) zero_rx,
      TxStreamer = XStrm_TxInitialize FIFO_WIDTH_BYTES (llf_write_fn M io) (XLlFifo_iTxSetLen M io)
        (XLlFifo_iTxVacancy M io) zero_tx\<rparr>"

definition XLlFifo_CfgInitialize ::
  "'s mmio \<Rightarrow> os \<Rightarrow> XLlFifo_Config option \<Rightarrow> u64 \<Rightarrow> dev_state \<Rightarrow> 's \<Rightarrow>
   int \<times> 's XLlFifo option \<times> dev_state \<times> 's" where
  "XLlFifo_CfgInitialize M S config effective d s =
     (case config of
        None \<Rightarrow> (XST_INVALID_PARAM, None, d, s)
      | Some c \<Rightarrow>
          (let (vaddr, d') = dev_mmap S effective d
           in if vaddr = MAP_FAILED then (XST_FAILURE, None, d', s)
              else (let io = \<lparr>BaseAddress = vaddr, IsReady = XIL_COMPONENT_IS_READY,
                        Axi4BaseAddress = (if cfg_Datainterface c = 0 then vaddr else cfg_Axi4BaseAddress c),
                        Datainterface = cfg_Datainterface c\<rparr>;
                        s1 = snd (run_state (do {
                          XLlFifo_TxReset M io;
                          XLlFifo_RxReset M io;
                          XLlFifo_WriteReg M (BaseAddress io) XLLF_LLR_OFFSET XLLF_RDFR_RESET_MASK }) s)
                    in (XST_SUCCESS, Some (llf_instance M io), d', s1))))"

definition XLlFifo_Initialize ::
  "'s mmio \<Rightarrow> os \<Rightarrow> u64 \<Rightarrow> dev_state \<Rightarrow> 's \<Rightarrow> 's XLlFifo option \<times> dev_state \<times> 's" where
  "XLlFifo_Initialize M S base d s =
     (let (vaddr, d') = dev_mmap S base d
      in if vaddr = MAP_FAILED then (None, d', s)
         else (let io = \<lparr>BaseAddress = vaddr, IsReady = XIL_COMPONENT_IS_READY,
                   Axi4BaseAddress = vaddr, Datainterface = 0\<rparr>;
                   s1 = snd (run_state (do {
                     XLlFifo_TxReset M io;
                     XLlFifo_RxReset M io;
                     XLlFifo_WriteReg M (BaseAddress io) XLLF_LLR_OFFSET XLLF_RDFR_RESET_MASK }) s)
               in (Some (llf_instance M io), d', s1)))"

section \<open>Configuration lookup\<close>

definition XLLFIFO_NUM_INSTANCES :: u32 where
  "XLLFIFO_NUM_INSTANCES = 2"

definition XLlFifo_ConfigTable :: "XLlFifo_Config list" where
  "XLlFifo_ConfigTable = replicate 2
     \<lparr>cfg_DeviceId = 0, cfg_BaseAddress = 0, cfg_Axi4BaseAddress = 0, cfg_Datainterface = 0\<rparr>"

text \<open>
  \<open>T\<close> is the tree below \<^verbatim>\<open>/sys/firmware/devicetree/base/amba_pl@0\<close>, \<open>tab\<close> the static table; the
  pointer returned is the table entry.
\<close>

definition XLlFfio_LookupConfig ::
  "node \<Rightarrow> u32 \<Rightarrow> XLlFifo_Config list \<Rightarrow> XLlFifo_Config option \<times> XLlFifo_Config list" where
  "XLlFfio_LookupConfig T deviceid tab =
     (if deviceid \<ge> XLLFIFO_NUM_INSTANCES then (None, tab)
      else let i = unat deviceid in
        if cfg_BaseAddress (tab ! i) = 0 then
          (let (found, reg) = dev_search ''axi_fifo_mm_s'' (int i + 1) ''reg'' 16 T (replicate 16 0)
           in if found \<noteq> 1 then (None, tab)
              else (let (found, ditype) = dev_search ''axi_fifo_mm_s'' (int i + 1)
                          ''xlnx,data-interface-type'' 4 T (replicate 4 0)
                    in if found \<noteq> 1 then (None, tab)
                       else (let tab = tab[i := (tab ! i)\<lparr>cfg_DeviceId := deviceid,
                                 cfg_BaseAddress := reg_addr reg,
                                 cfg_Datainterface := ucast (le64 ditype)\<rparr>]
                             in (Some (tab ! i), tab))))
        else (Some (tab ! i), tab))"

section \<open>Byte transfers\<close>

definition XLlFifo_RxOccupancy :: "'s XLlFifo \<Rightarrow> ('s, u32) state" where
  "XLlFifo_RxOccupancy I = XStrm_RxOccupancy (RxStreamer I)"

definition XLlFifo_RxGetLen :: "'s XLlFifo \<Rightarrow> ('s, u32 \<times> 's XLlFifo) state" where
  "XLlFifo_RxGetLen I = do {
     (len, r) \<leftarrow> XStrm_RxGetLen (RxStreamer I);
     State_Monad.return (len, I\<lparr>RxStreamer := r\<rparr>)
   }"

definition XLlFifo_Read :: "'s XLlFifo \<Rightarrow> u64 \<Rightarrow> u32 \<Rightarrow> mem \<Rightarrow> 's \<Rightarrow> ('s XLlFifo \<times> mem \<times> 's) option" where
  "XLlFifo_Read I buf bytes m s =
     map_option (\<lambda>(r, m, s). (I\<lparr>RxStreamer := r\<rparr>, m, s)) (XStrm_Read (RxStreamer I) buf bytes m s)"

definition XLlFifo_TxVacancy :: "'s XLlFifo \<Rightarrow> ('s, u32) state" where
  "XLlFifo_TxVacancy I = XStrm_TxVacancy (TxStreamer I)"

definition XLlFifo_TxSetLen :: "'s XLlFifo \<Rightarrow> u32 \<Rightarrow> ('s, 's XLlFifo) state" where
  "XLlFifo_TxSetLen I bytes = do {
     t \<leftarrow> XStrm_TxSetLen (TxStreamer I) bytes;
     State_Monad.return (I\<lparr>TxStreamer := t\<rparr>)
   }"

definition XLlFifo_Write :: "'s XLlFifo \<Rightarrow> u64 \<Rightarrow> u32 \<Rightarrow> mem \<Rightarrow> 's \<Rightarrow> ('s XLlFifo \<times> 's) option" where
  "XLlFifo_Write I buf bytes m s =
     map_option (\<lambda>(t, s). (I\<lparr>TxStreamer := t\<rparr>, s)) (XStrm_Write (TxStreamer I) buf bytes m s)"

text \<open>A client that sends a frame from several buffers.\<close>

fun write_chunks :: "'s XLlFifo \<Rightarrow> (u64 \<times> u32) list \<Rightarrow> mem \<Rightarrow> 's \<Rightarrow> ('s XLlFifo \<times> 's) option" where
  "write_chunks I [] m s = Some (I, s)"
| "write_chunks I ((buf, n) # cs) m s =
     Option.bind (XLlFifo_Write I buf n m s) (\<lambda>(I', s'). write_chunks I' cs m s')"

definition chunk_bytes :: "(u64 \<times> u32) list \<Rightarrow> mem \<Rightarrow> u8 list" where
  "chunk_bytes cs m = concat (map (\<lambda>(buf, n). map (mem_ptr m buf) [0..<unat n]) cs)"

section \<open>The hardware FIFO\<close>

text \<open>
  What the driver relies on of an AXI4-Lite FIFO core: a store to the transmit data
  register appends a word, a load of the receive data register takes the first word of
  those received; the vacancy, occupancy and length registers and the transmit length
  register leave the data alone.
\<close>

locale llf_dev =
  fixes M :: "'s mmio" and I :: llf_io and txw :: "'s \<Rightarrow> u32 list" and rxw :: "'s \<Rightarrow> u32 list"
  assumes lite: "Datainterface I = 0" "Axi4BaseAddress I = BaseAddress I"
    and put_tx: "txw (mstore M (BaseAddress I + XLLF_TDFD_OFFSET) w s) = txw s @ [w]"
    and put_rx: "rxw (mstore M (BaseAddress I + XLLF_TDFD_OFFSET) w s) = rxw s"
    and get_rx: "rxw s \<noteq> [] \<Longrightarrow> fst (mload M (BaseAddress I + XLLF_RDFD_OFFSET) s) = hd (rxw s) \<and>
      rxw (snd (mload M (BaseAddress I + XLLF_RDFD_OFFSET) s)) = tl (rxw s)"
    and get_tx: "txw (snd (mload M (BaseAddress I + XLLF_RDFD_OFFSET) s)) = txw s"
    and regs: "off \<in> {XLLF_TDFV_OFFSET, XLLF_RDFO_OFFSET, XLLF_RLF_OFFSET} \<Longrightarrow>
      txw (snd (mload M (BaseAddress I + off) s)) = txw s \<and>
      rxw (snd (mload M (BaseAddress I + off) s)) = rxw s"
    and set_len: "txw (mstore M (BaseAddress I + XLLF_TLF_OFFSET) w s) = txw s \<and>
      rxw (mstore M (BaseAddress I + XLLF_TLF_OFFSET) w s) = rxw s"
begin

lemma tx_put_word:
  "txw (snd (run_state (XLlFifo_TxPutWord M I w) s)) = txw s @ [w]"
  "rxw (snd (run_state (XLlFifo_TxPutWord M I w) s)) = rxw s"
  by (simp_all add: XLlFifo_TxPutWord_def XLlFifo_WriteReg_def run_store32 lite put_tx put_rx)

lemma rx_get_word:
  assumes "rxw s \<noteq> []"
  shows "fst (run_state (XLlFifo_RxGetWord M I) s) = hd (rxw s)"
    and "rxw (snd (run_state (XLlFifo_RxGetWord M I) s)) = tl (rxw s)"
  using get_rx [OF assms] by (simp_all add: XLlFifo_RxGetWord_def XLlFifo_ReadReg_def run_load32 lite)

lemma rx_get_word_tx: "txw (snd (run_state (XLlFifo_RxGetWord M I) s)) = txw s"
  by (simp add: XLlFifo_RxGetWord_def XLlFifo_ReadReg_def run_load32 lite get_tx)

lemma write_words_tx:
  "txw (snd (run_state (write_words M I buf i n) s)) = txw s @ map buf [i..<i + n] \<and>
   rxw (snd (run_state (write_words M I buf i n) s)) = rxw s"
  by (induction n arbitrary: i s) (simp_all add: split_beta tx_put_word upt_conv_Cons del: upt_Suc)

lemma read_words_rx:
  "n \<le> length (rxw s) \<Longrightarrow> fst (run_state (read_words M I n) s) = take n (rxw s) \<and>
   rxw (snd (run_state (read_words M I n) s)) = drop n (rxw s)"
proof (induction n arbitrary: s)
  case (Suc n)
  then have "rxw s \<noteq> []"
    by auto
  then show ?case
    using Suc rx_get_word [of s] by (cases "rxw s") (simp_all add: split_beta)
qed simp

lemma read_words_tx: "txw (snd (run_state (read_words M I n) s)) = txw s"
  by (induction n arbitrary: s) (simp_all add: split_beta rx_get_word_tx)

lemma iWrite_Aligned_tx:
  "txw (snd (run_state (XLlFifo_iWrite_Aligned M I buf n) s)) = txw s @ map buf [0..<unat n]"
  "rxw (snd (run_state (XLlFifo_iWrite_Aligned M I buf n) s)) = rxw s"
  using write_words_tx [of buf 0 "unat n" s] by (simp_all add: XLlFifo_iWrite_Aligned_def)

lemma iRead_Aligned_rx:
  assumes "unat n \<le> length (rxw s)"
  shows "fst (run_state (XLlFifo_iRead_Aligned M I n) s) = take (unat n) (rxw s)"
    and "rxw (snd (run_state (XLlFifo_iRead_Aligned M I n) s)) = drop (unat n) (rxw s)"
  using read_words_rx [OF assms] by (simp_all add: XLlFifo_iRead_Aligned_def)

lemma bytes_take: "concat (map le32_bytes (take n ws)) = take (n * 4) (concat (map le32_bytes ws))"
proof (induction ws arbitrary: n)
  case (Cons w ws)
  then show ?case
    by (cases n) simp_all
qed simp

lemma bytes_drop: "concat (map le32_bytes (drop n ws)) = drop (n * 4) (concat (map le32_bytes ws))"
proof (induction ws arbitrary: n)
  case (Cons w ws)
  then show ?case
    by (cases n) simp_all
qed simp

lemma length_bytes: "length (concat (map le32_bytes ws)) = 4 * length ws"
  by (induction ws) simp_all

end

sublocale llf_dev \<subseteq> tx: tx_fifo "llf_write_fn M I" "\<lambda>s. concat (map le32_bytes (txw s))" FIFO_WIDTH_BYTES
proof
  show "0 < FIFO_WIDTH_BYTES" "FIFO_WIDTH_BYTES \<le> 16"
    by (simp_all add: FIFO_WIDTH_BYTES_def)
  show "concat (map le32_bytes (txw (snd (run_state (llf_write_fn M I b n) s)))) =
      concat (map le32_bytes (txw s)) @ map b [0..<unat n * unat FIFO_WIDTH_BYTES]" for b n s
    using ptr_words_bytes [of b "unat n"]
    by (simp add: llf_write_fn_def iWrite_Aligned_tx comp_def FIFO_WIDTH_BYTES_def mult.commute)
qed

sublocale llf_dev \<subseteq> rx: rx_fifo "llf_read_fn M I" "\<lambda>s. concat (map le32_bytes (rxw s))" FIFO_WIDTH_BYTES
proof
  show "0 < FIFO_WIDTH_BYTES" "FIFO_WIDTH_BYTES \<le> 16"
    by (simp_all add: FIFO_WIDTH_BYTES_def)
  show "unat FIFO_WIDTH_BYTES dvd length (concat (map le32_bytes (rxw s)))" for s
    by (simp add: length_bytes FIFO_WIDTH_BYTES_def)
  show "fst (run_state (llf_read_fn M I n) s) =
        take (unat n * unat FIFO_WIDTH_BYTES) (concat (map le32_bytes (rxw s))) \<and>
      concat (map le32_bytes (rxw (snd (run_state (llf_read_fn M I n) s)))) =
        drop (unat n * unat FIFO_WIDTH_BYTES) (concat (map le32_bytes (rxw s)))"
    if "unat n * unat FIFO_WIDTH_BYTES \<le> length (concat (map le32_bytes (rxw s)))" for n s
  proof -
    have "unat n \<le> length (rxw s)"
      using that by (simp add: length_bytes FIFO_WIDTH_BYTES_def)
    then show ?thesis
      using iRead_Aligned_rx [of n s]
      by (simp add: llf_read_fn_def split_beta bytes_take bytes_drop FIFO_WIDTH_BYTES_def)
  qed
qed

context llf_dev
begin

abbreviation sent_bytes :: "'s \<Rightarrow> u8 list" where
  "sent_bytes s \<equiv> concat (map le32_bytes (txw s))"

lemma write_chunks_stream:
  assumes "tx_ok FIFO_WIDTH_BYTES (llf_write_fn M I) (TxStreamer F)"
  shows "\<exists>F' s'. write_chunks F cs m s = Some (F', s') \<and>
    tx_ok FIFO_WIDTH_BYTES (llf_write_fn M I) (TxStreamer F') \<and>
    SetLenFn (TxStreamer F') = SetLenFn (TxStreamer F) \<and>
    tx_stream sent_bytes (TxStreamer F') s' = tx_stream sent_bytes (TxStreamer F) s @ chunk_bytes cs m"
  using assms
proof (induction cs arbitrary: F s)
  case (Cons c cs)
  obtain buf n where c: "c = (buf, n)"
    by force
  obtain t' s' where w: "XStrm_Write (TxStreamer F) buf n m s = Some (t', s')"
    "tx_ok FIFO_WIDTH_BYTES (llf_write_fn M I) t'" "SetLenFn t' = SetLenFn (TxStreamer F)"
    "tx_stream sent_bytes t' s' = tx_stream sent_bytes (TxStreamer F) s @ map (mem_ptr m buf) [0..<unat n]"
    using tx.write_refines [OF Cons.prems, of buf n m s] by (auto simp: XStrm_Write_def)
  then show ?case
    using Cons.IH [of "F\<lparr>TxStreamer := t'\<rparr>" s'] by (auto simp: c XLlFifo_Write_def chunk_bytes_def)
qed (simp add: chunk_bytes_def)

lemma frame_sent:
  "\<exists>F' s' pad. write_chunks (llf_instance M I) cs m s = Some (F', s') \<and>
    sent_bytes (snd (run_state (XLlFifo_TxSetLen F' n) s')) = sent_bytes s @ chunk_bytes cs m @ pad \<and>
    length pad < 4"
proof -
  have ok: "tx_ok FIFO_WIDTH_BYTES (llf_write_fn M I) (TxStreamer (llf_instance M I))"
    "SetLenFn (TxStreamer (llf_instance M I)) = XLlFifo_iTxSetLen M I"
    "tx_stream sent_bytes (TxStreamer (llf_instance M I)) s = sent_bytes s"
    by (simp_all add: tx_ok_def llf_instance_def llf_io.extend_def XStrm_TxInitialize_def zero_tx_def tx_stream_def)
  obtain F' s' where F: "write_chunks (llf_instance M I) cs m s = Some (F', s')"
    "tx_ok FIFO_WIDTH_BYTES (llf_write_fn M I) (TxStreamer F')"
    "SetLenFn (TxStreamer F') = XLlFifo_iTxSetLen M I"
    "tx_stream sent_bytes (TxStreamer F') s' = sent_bytes s @ chunk_bytes cs m"
    using write_chunks_stream [OF ok(1), of cs m s] ok(2,3) by auto
  have "sent_bytes (snd (run_state (SetLenFn (TxStreamer F') n) z)) = sent_bytes z" for z
    by (simp add: F(3) XLlFifo_iTxSetLen_def XLlFifo_WriteReg_def run_store32 set_len)
  then show ?thesis
    using tx.setlen_flushes(1) [OF F(2), of n s'] F(1,4)
    by (auto simp: XLlFifo_TxSetLen_def split_beta FIFO_WIDTH_BYTES_def)
qed

lemma read_stream:
  assumes "rx_ok FIFO_WIDTH_BYTES (llf_read_fn M I) (RxStreamer F)"
    and "unat n \<le> length (rx_stream (\<lambda>s. concat (map le32_bytes (rxw s))) (RxStreamer F) s)"
  shows "\<exists>F' s'. XLlFifo_Read F buf n m s =
      Some (F', \<lambda>a. if unat (a - buf) < unat n
        then rx_stream (\<lambda>s. concat (map le32_bytes (rxw s))) (RxStreamer F) s ! unat (a - buf) else m a, s') \<and>
    rx_ok FIFO_WIDTH_BYTES (llf_read_fn M I) (RxStreamer F') \<and>
    (FrmByteCnt (RxStreamer F) \<noteq> n \<longrightarrow>
      rx_stream (\<lambda>s. concat (map le32_bytes (rxw s))) (RxStreamer F') s' =
      drop (unat n) (rx_stream (\<lambda>s. concat (map le32_bytes (rxw s))) (RxStreamer F) s))"
proof -
  have "unat n < 2 ^ 32"
    using unsigned_less [of n] by simp
  then have "store_bytes buf (take (unat n) S) m =
      (\<lambda>a. if unat (a - buf) < unat n then S ! unat (a - buf) else m a)"
    if "unat n \<le> length S" for S
    using that by (auto simp: store_bytes_apply)
  then show ?thesis
    using rx.read_frame [OF assms, of buf m] assms(2) by (auto simp: XLlFifo_Read_def)
qed

end

section \<open>A FIFO core in memory\<close>

record fifo_core =
  core_tx :: "u32 list"
  core_rx :: "u32 list"
  core_len :: "u32 list"

definition core_mmio :: "u64 \<Rightarrow> fifo_core mmio" where
  "core_mmio b = \<lparr>
     mload = (\<lambda>a s. if a = b + XLLF_RDFD_OFFSET then
         (case core_rx s of [] \<Rightarrow> (0, s) | w # ws \<Rightarrow> (w, s\<lparr>core_rx := ws\<rparr>))
       else if a = b + XLLF_TDFV_OFFSET then (508, s)
       else if a = b + XLLF_RDFO_OFFSET then (of_nat (length (core_rx s)), s)
       else if a = b + XLLF_RLF_OFFSET then (4 * of_nat (length (core_rx s)), s)
       else (0, s)),
     mstore = (\<lambda>a w s. if a = b + XLLF_TDFD_OFFSET then s\<lparr>core_tx := core_tx s @ [w]\<rparr>
       else if a = b + XLLF_TLF_OFFSET then s\<lparr>core_len := core_len s @ [w]\<rparr> else s)\<rparr>"

definition core_io :: "u64 \<Rightarrow> llf_io" where
  "core_io b = \<lparr>BaseAddress = b, IsReady = XIL_COMPONENT_IS_READY, Axi4BaseAddress = b, Datainterface = 0\<rparr>"

lemma core_dev: "llf_dev (core_mmio b) (core_io b) core_tx core_rx"
  by unfold_locales
    (auto simp: core_mmio_def core_io_def reg_consts split: list.splits)

interpretation core: llf_dev "core_mmio b" "core_io b" core_tx core_rx for b
  by (rule core_dev)

section \<open>Properties\<close>

abbreviation fifo_bytes :: "('s \<Rightarrow> u32 list) \<Rightarrow> 's \<Rightarrow> u8 list" where
  "fifo_bytes ws s \<equiv> concat (map le32_bytes (ws s))"

text \<open>C4: A frame sent from any number of buffers of any sizes and alignments with
  \<^verbatim>\<open>XLlFifo_Write\<close> and closed with \<^verbatim>\<open>XLlFifo_TxSetLen\<close> is handed to the hardware FIFO as the bytes
  of the buffers in order, followed by less than one word of padding; the calls return.\<close>

theorem llfifo_frame_sent:
  assumes "llf_dev M I txw rxw"
  shows "\<exists>F' s' pad. write_chunks (llf_instance M I) cs m s = Some (F', s') \<and>
    fifo_bytes txw (snd (run_state (XLlFifo_TxSetLen F' n) s')) =
      fifo_bytes txw s @ chunk_bytes cs m @ pad \<and> length pad < 4"
  using assms by (rule llf_dev.frame_sent)

theorem llfifo_frame_sent_witness:
  "\<exists>F' s' pad. write_chunks (llf_instance (core_mmio 0) (core_io 0)) [(2, 3), (9, 4)] (\<lambda>a. ucast a)
      \<lparr>core_tx = [], core_rx = [], core_len = []\<rparr> = Some (F', s') \<and>
    fifo_bytes core_tx (snd (run_state (XLlFifo_TxSetLen F' 7) s')) =
      [2, 3, 4, 9, 10, 11, 12] @ pad \<and> length pad < 4"
  using llfifo_frame_sent [OF core_dev, of 0 "[(2, 3), (9, 4)]" "\<lambda>a. ucast a"
      "\<lparr>core_tx = [], core_rx = [], core_len = []\<rparr>" 7]
  by (simp add: chunk_bytes_def mem_ptr_def upt_conv_Cons)

text \<open>C5: \<^verbatim>\<open>XLlFifo_Read\<close> of \<open>n\<close> bytes, with at least that many on the stream, returns, stores
  exactly the next \<open>n\<close> bytes of the stream at the buffer and touches no other memory; until the
  frame is used up the next read goes on where it stopped.\<close>

theorem llfifo_read_stream:
  assumes "llf_dev M I txw rxw" "rx_ok FIFO_WIDTH_BYTES (llf_read_fn M I) (RxStreamer F)"
    and "unat n \<le> length (rx_stream (fifo_bytes rxw) (RxStreamer F) s)"
  shows "\<exists>F' s'. XLlFifo_Read F buf n m s =
      Some (F', \<lambda>a. if unat (a - buf) < unat n
        then rx_stream (fifo_bytes rxw) (RxStreamer F) s ! unat (a - buf) else m a, s') \<and>
    rx_ok FIFO_WIDTH_BYTES (llf_read_fn M I) (RxStreamer F') \<and>
    (FrmByteCnt (RxStreamer F) \<noteq> n \<longrightarrow>
      rx_stream (fifo_bytes rxw) (RxStreamer F') s' =
      drop (unat n) (rx_stream (fifo_bytes rxw) (RxStreamer F) s))"
  using assms by (rule llf_dev.read_stream)

theorem llfifo_read_stream_witness:
  "\<exists>F' m' s'. XLlFifo_Read (llf_instance (core_mmio 0) (core_io 0)) 5 3 (\<lambda>a. 0)
      \<lparr>core_tx = [], core_rx = [0x04030201, 0x08070605], core_len = []\<rparr> = Some (F', m', s') \<and>
    m' 4 = 0 \<and> m' 5 = 1 \<and> m' 6 = 2 \<and> m' 7 = 3 \<and> m' 8 = 0"
proof -
  let ?F = "llf_instance (core_mmio 0) (core_io 0)"
  let ?s = "\<lparr>core_tx = [], core_rx = [0x04030201, 0x08070605], core_len = []\<rparr>"
  have ok: "rx_ok FIFO_WIDTH_BYTES (llf_read_fn (core_mmio 0) (core_io 0)) (RxStreamer ?F)"
    by (simp add: rx_ok_def llf_instance_def llf_io.extend_def XStrm_RxInitialize_def zero_rx_def)
  have st: "rx_stream (fifo_bytes core_rx) (RxStreamer ?F) ?s = [1, 2, 3, 4, 5, 6, 7, 8]"
    by (simp add: rx_stream_def llf_instance_def llf_io.extend_def XStrm_RxInitialize_def zero_rx_def
        FIFO_WIDTH_BYTES_def) code_simp
  have "\<not> unat (- 1 :: u64) < 3"
    by (simp add: unsigned_minus_1_eq_mask mask_eq_exp_minus_1)
  then show ?thesis
    using llfifo_read_stream [OF core_dev ok, of 3 ?s 5 "\<lambda>a. 0"] by (auto simp: st)
qed

text \<open>
  The lookup asks \<^verbatim>\<open>dev_search\<close> for instance 2 of the second FIFO and accepts only the answer 1:
  with two FIFOs as children of the bus the second one is never found.
\<close>

lemma lookup_second_fifo_fails:
  assumes "regular ''reg'' (Dir es)" "\<forall>(e, t)\<in>set es. direct ''axi_fifo_mm_s'' ''reg'' 16 t"
    and "\<not> fst (dev_probe ''axi_fifo_mm_s'' ''reg'' 16 es (replicate 16 0))"
    and "2 \<le> length (dev_matches ''axi_fifo_mm_s'' ''reg'' 16 (Dir es))" "cfg_BaseAddress (tab ! 1) = 0"
  shows "XLlFfio_LookupConfig (Dir es) 1 tab = (None, tab)"
proof -
  have "fst (dev_search ''axi_fifo_mm_s'' 2 ''reg'' 16 (Dir es) (replicate 16 0)) = 2"
    using search_instance [OF _ assms(1-3), of "replicate 16 0" 2] assms(4)
    by (simp add: NAME_SZ_def)
  then show ?thesis
    using assms(5) by (simp add: XLlFfio_LookupConfig_def XLLFIFO_NUM_INSTANCES_def split_beta)
qed

end
