(* ===== verification/Stream_Port.thy ===== *)
theory Stream_Port
  imports Llfifo
begin

text \<open>
  The packet interface of the accelerator ports: \<^verbatim>\<open>src/shared/linux/stream.c\<close> and
  \<^verbatim>\<open>src/shared/standalone/stream.c\<close>, over the AXI FIFO driver or, on a MicroBlaze, over its
  stream link. The polling loops may wait for ever, so the operations are \<open>option\<close>-valued and
  \<open>None\<close> stands for a call that does not return.
\<close>

section \<open>State\<close>

definition F_BEGP :: u32 where "F_BEGP = 0x01"
definition F_ENDP :: u32 where "F_ENDP = 0x02"
definition F_NOWA :: u32 where "F_NOWA = 0x04"

record 's stream_t =
  Instance :: "'s XLlFifo"
  TransmitLength :: u32
  ReceiveLength :: u32

section \<open>Initialisation\<close>

definition stream_init ::
  "'s mmio \<Rightarrow> os \<Rightarrow> node \<Rightarrow> u32 \<Rightarrow> XLlFifo_Config list \<Rightarrow> dev_state \<Rightarrow> 's \<Rightarrow>
   int \<times> 's stream_t option \<times> XLlFifo_Config list \<times> dev_state \<times> 's" where
  "stream_init M S T devid tab d s =
     (case XLlFfio_LookupConfig T devid tab of
        (None, tab) \<Rightarrow> (XST_FAILURE, None, tab, d, s)
      | (Some config, tab) \<Rightarrow>
          (case XLlFifo_CfgInitialize M S (Some config) (cfg_BaseAddress config) d s of
             (status, None, d, s) \<Rightarrow> (status, None, tab, d, s)
           | (status, Some I, d, s) \<Rightarrow>
               (let (isr, s) = run_state (do {
                      XLlFifo_Status M I;
                      XLlFifo_IntClear M I 0xffffffff;
                      XLlFifo_IntDisable M I 0xffffffff;
                      XLlFifo_Status M I }) s
                in if isr \<noteq> 0 then (XST_FAILURE, None, tab, d, s)
                   else (XST_SUCCESS, Some \<lparr>Instance = I, TransmitLength = 0, ReceiveLength = 0\<rparr>, tab, d, s))))"

section \<open>Sending\<close>

text \<open>\<^verbatim>\<open>while (Words > XLlFifo_iTxVacancy(InstancePtr)) if (flags & F_NOWA) return XST_FAILURE;\<close>\<close>

partial_function (option) wait_vacancy ::
  "'s mmio \<Rightarrow> 'z llf_io_scheme \<Rightarrow> u32 \<Rightarrow> bool \<Rightarrow> 's \<Rightarrow> (bool \<times> 's) option" where
  "wait_vacancy M I words nowa s =
     (let x = run_state (XLlFifo_iTxVacancy M I) s
      in if words > fst x then
           (if nowa then Some (False, snd x) else wait_vacancy M I words nowa (snd x))
         else Some (True, snd x))"

definition stream_send ::
  "'s mmio \<Rightarrow> 's stream_t \<Rightarrow> (nat \<Rightarrow> u32) \<Rightarrow> u64 \<Rightarrow> u32 \<Rightarrow> 's \<Rightarrow> (int \<times> 's stream_t \<times> 's) option" where
  "stream_send M port buf sz flags s =
     (let I = Instance port;
          port = (if flags AND F_BEGP \<noteq> 0 then port\<lparr>TransmitLength := 0\<rparr> else port);
          words = (ucast (sz div 4) :: u32)
      in case wait_vacancy M I words (flags AND F_NOWA \<noteq> 0) s of
           None \<Rightarrow> None
         | Some (False, s) \<Rightarrow> Some (XST_FAILURE, port, s)
         | Some (True, s) \<Rightarrow>
             (let s = snd (run_state (XLlFifo_iWrite_Aligned M I buf words) s);
                  port = port\<lparr>TransmitLength := TransmitLength port + words * 4\<rparr>;
                  s = (if flags AND F_ENDP \<noteq> 0
                       then snd (run_state (XLlFifo_iTxSetLen M I (TransmitLength port)) s) else s)
              in Some (XST_SUCCESS, port, s)))"

text \<open>
  In the Linux file \<^verbatim>\<open>NDEBUG\<close> is defined after \<^verbatim>\<open>assert.h\<close> is included, so the assertion on the
  size is live: a size that is not a multiple of four aborts. In the standalone file it is
  defined before and the assertion is empty.
\<close>

definition linux_stream_send ::
  "'s mmio \<Rightarrow> 's stream_t \<Rightarrow> (nat \<Rightarrow> u32) \<Rightarrow> u64 \<Rightarrow> u32 \<Rightarrow> 's \<Rightarrow> (int \<times> 's stream_t \<times> 's) option" where
  "linux_stream_send M port buf sz flags s =
     (if sz AND 3 \<noteq> 0 then None else stream_send M port buf sz flags s)"

section \<open>Receiving\<close>

partial_function (option) wait_packet ::
  "'s mmio \<Rightarrow> 'z llf_io_scheme \<Rightarrow> bool \<Rightarrow> 's \<Rightarrow> (bool \<times> 's) option" where
  "wait_packet M I nowa s =
     (let x = run_state (XLlFifo_iRxOccupancy M I) s
      in if fst x = 0 \<or> fst x AND 0x80000000 \<noteq> 0 then
           (if nowa then Some (False, snd x) else wait_packet M I nowa (snd x))
         else Some (True, snd x))"

text \<open>The words left in the packet are unloaded.\<close>

function drain :: "'s mmio \<Rightarrow> 'z llf_io_scheme \<Rightarrow> u32 \<Rightarrow> 's \<Rightarrow> 's" where
  "drain M I len s =
     (if len = 0 then s
      else drain M I (len - min len 4) (snd (run_state (XLlFifo_RxGetWord M I) s)))"
  by pat_completeness auto

lemma unat_minus_min: "len \<noteq> 0 \<Longrightarrow> unat (len - min len 4) = unat len - min (unat len) 4" for len :: u32
  by (simp add: min_def unat_sub word_le_nat_alt)

termination drain
proof (relation "measure (\<lambda>(M, I, len, s). unat len)")
  show "((M, I, len - min len 4, snd (run_state (XLlFifo_RxGetWord M I) s)), M, I, len, s)
      \<in> measure (\<lambda>(M, I, len, s). unat len)"
    if "len \<noteq> 0" for M :: "'s mmio" and I :: "'z llf_io_scheme" and len :: u32 and s
    using that unat_minus_min [OF that] by (simp add: unat_gt_0 min_def)
qed simp

declare drain.simps [simp del]

text \<open>The words received are those stored at the buffer.\<close>

definition stream_recv ::
  "'s mmio \<Rightarrow> 's stream_t \<Rightarrow> u64 \<Rightarrow> u32 \<Rightarrow> 's \<Rightarrow> (int \<times> u32 list \<times> 's stream_t \<times> 's) option" where
  "stream_recv M port sz flags s =
     (let I = Instance port;
          begun = (if flags AND F_BEGP \<noteq> 0 then
              (case wait_packet M I (flags AND F_NOWA \<noteq> 0) s of
                 None \<Rightarrow> None
               | Some (False, s) \<Rightarrow> Some (False, port, s)
               | Some (True, s) \<Rightarrow>
                   (let (len, s) = run_state (XLlFifo_iRxGetLen M I) s
                    in Some (True, port\<lparr>ReceiveLength := len\<rparr>, s)))
            else Some (True, port, s))
      in case begun of
           None \<Rightarrow> None
         | Some (False, port, s) \<Rightarrow> Some (XST_FAILURE, [], port, s)
         | Some (True, port, s) \<Rightarrow>
             (let words = (ucast (sz div 4) :: u32);
                  (ws, s) = run_state (XLlFifo_iRead_Aligned M I words) s;
                  port = port\<lparr>ReceiveLength := ReceiveLength port - words * 4\<rparr>
              in if flags AND F_ENDP \<noteq> 0
                 then Some (XST_SUCCESS, ws, port\<lparr>ReceiveLength := 0\<rparr>, drain M I (ReceiveLength port) s)
                 else Some (XST_SUCCESS, ws, port, s)))"

definition linux_stream_recv ::
  "'s mmio \<Rightarrow> 's stream_t \<Rightarrow> u64 \<Rightarrow> u32 \<Rightarrow> 's \<Rightarrow> (int \<times> u32 list \<times> 's stream_t \<times> 's) option" where
  "linux_stream_recv M port sz flags s =
     (if sz AND 3 \<noteq> 0 then None else stream_recv M port sz flags s)"

section \<open>The MicroBlaze link\<close>

text \<open>
  The instructions behind \<^verbatim>\<open>putfslx\<close> and \<^verbatim>\<open>getfslx\<close> are parameters: the flag says whether the
  control bit (end of packet) goes with the word.
\<close>

record 's fsl =
  putfslx :: "bool \<Rightarrow> u32 \<Rightarrow> 's \<Rightarrow> 's"
  getfslx :: "bool \<Rightarrow> 's \<Rightarrow> u32 \<times> 's"

fun mb_put :: "'s fsl \<Rightarrow> (nat \<Rightarrow> u32) \<Rightarrow> nat \<Rightarrow> nat \<Rightarrow> 's \<Rightarrow> 's" where
  "mb_put L buf i 0 s = s"
| "mb_put L buf i (Suc n) s = mb_put L buf (Suc i) n (putfslx L False (buf i) s)"

definition mb_stream_init :: int where
  "mb_stream_init = XST_SUCCESS"

definition mb_stream_send :: "'s fsl \<Rightarrow> (nat \<Rightarrow> u32) \<Rightarrow> u64 \<Rightarrow> u32 \<Rightarrow> 's \<Rightarrow> int \<times> 's" where
  "mb_stream_send L buf sz flags s =
     (let words = unat (ucast (sz div 4) :: u32);
          s = mb_put L buf 0 (words - 1) s
      in (XST_SUCCESS, putfslx L (flags AND F_ENDP \<noteq> 0) (buf (words - 1)) s))"

fun mb_get :: "'s fsl \<Rightarrow> nat \<Rightarrow> 's \<Rightarrow> u32 list \<times> 's" where
  "mb_get L 0 s = ([], s)"
| "mb_get L (Suc n) s =
     (let (w, s) = getfslx L False s; (ws, s) = mb_get L n s in (w # ws, s))"

definition mb_stream_recv :: "'s fsl \<Rightarrow> u64 \<Rightarrow> u32 \<Rightarrow> 's \<Rightarrow> int \<times> u32 list \<times> 's" where
  "mb_stream_recv L sz flags s =
     (let words = unat (ucast (sz div 4) :: u32);
          (ws, s) = mb_get L (words - 1) s;
          (w, s) = getfslx L (flags AND F_ENDP \<noteq> 0) s
      in (XST_SUCCESS, ws @ [w], s))"

section \<open>The polling loops\<close>

lemma ceil4_step:
  fixes x :: nat
  assumes "0 < x"
  shows "(x + 3) div 4 = Suc ((x - min x 4 + 3) div 4)"
proof (cases "x \<le> 4")
  case True
  then have "x = 1 \<or> x = 2 \<or> x = 3 \<or> x = 4"
    using assms by auto
  then show ?thesis
    by auto
next
  case False
  then have "x + 3 = (x - min x 4 + 3) + 4"
    by (simp add: min_def)
  then show ?thesis
    by (metis add_Suc_right div_add_self2 numeral_eq_Suc Suc_eq_plus1 zero_neq_numeral)
qed

text \<open>The device after \<open>k\<close> polls of a register.\<close>

fun polled :: "('s, u32) state \<Rightarrow> nat \<Rightarrow> 's \<Rightarrow> 's" where
  "polled r 0 s = s"
| "polled r (Suc k) s = polled r k (snd (run_state r s))"

lemma wait_vacancy_returns:
  assumes "words \<le> fst (run_state (XLlFifo_iTxVacancy M I) (polled (XLlFifo_iTxVacancy M I) k s))"
  shows "\<exists>j\<le>k. wait_vacancy M I words False s = Some (True, polled (XLlFifo_iTxVacancy M I) (Suc j) s)"
  using assms
proof (induction k arbitrary: s)
  case 0
  then show ?case
    by (auto simp: wait_vacancy.simps [of M I words False s] Let_def)
next
  case (Suc k)
  show ?case
  proof (cases "words \<le> fst (run_state (XLlFifo_iTxVacancy M I) s)")
    case True
    then show ?thesis
      by (intro exI [of _ 0]) (auto simp: wait_vacancy.simps [of M I words False s] Let_def)
  next
    case False
    obtain j where "j \<le> k" "wait_vacancy M I words False (snd (run_state (XLlFifo_iTxVacancy M I) s)) =
        Some (True, polled (XLlFifo_iTxVacancy M I) (Suc j) (snd (run_state (XLlFifo_iTxVacancy M I) s)))"
      using Suc by auto
    then show ?thesis
      using False by (intro exI [of _ "Suc j"]) (auto simp: wait_vacancy.simps [of M I words False s] Let_def)
  qed
qed

lemma wait_vacancy_nowa:
  "wait_vacancy M I words True s =
     Some (words \<le> fst (run_state (XLlFifo_iTxVacancy M I) s), snd (run_state (XLlFifo_iTxVacancy M I) s))"
  by (auto simp: wait_vacancy.simps Let_def)

definition packet_ready :: "u32 \<Rightarrow> bool" where
  "packet_ready v \<longleftrightarrow> v \<noteq> 0 \<and> v AND 0x80000000 = 0"

lemma wait_packet_returns:
  assumes "packet_ready (fst (run_state (XLlFifo_iRxOccupancy M I) (polled (XLlFifo_iRxOccupancy M I) k s)))"
  shows "\<exists>j\<le>k. wait_packet M I False s = Some (True, polled (XLlFifo_iRxOccupancy M I) (Suc j) s)"
  using assms
proof (induction k arbitrary: s)
  case 0
  then show ?case
    by (simp add: wait_packet.simps [of M I False s] Let_def packet_ready_def)
next
  case (Suc k)
  show ?case
  proof (cases "packet_ready (fst (run_state (XLlFifo_iRxOccupancy M I) s))")
    case True
    then show ?thesis
      by (intro exI [of _ 0]) (simp add: wait_packet.simps [of M I False s] Let_def packet_ready_def)
  next
    case False
    obtain j where "j \<le> k" "wait_packet M I False (snd (run_state (XLlFifo_iRxOccupancy M I) s)) =
        Some (True, polled (XLlFifo_iRxOccupancy M I) (Suc j) (snd (run_state (XLlFifo_iRxOccupancy M I) s)))"
      using Suc by auto
    then show ?thesis
      using False
      by (intro exI [of _ "Suc j"]) (auto simp: wait_packet.simps [of M I False s] Let_def packet_ready_def)
  qed
qed

section \<open>Packets on a FIFO core\<close>

locale stream_dev = llf_dev M I txw rxw
  for M :: "'s mmio" and I :: llf_io and txw rxw +
  fixes P :: "'s stream_t"
  assumes inst: "BaseAddress (Instance P) = BaseAddress I"
    "Axi4BaseAddress (Instance P) = BaseAddress I" "Datainterface (Instance P) = 0"
begin

lemma same_io:
  "XLlFifo_iTxVacancy M (Instance P) = XLlFifo_iTxVacancy M I"
  "XLlFifo_iRxOccupancy M (Instance P) = XLlFifo_iRxOccupancy M I"
  "XLlFifo_iRxGetLen M (Instance P) = XLlFifo_iRxGetLen M I"
  "XLlFifo_iTxSetLen M (Instance P) = XLlFifo_iTxSetLen M I"
  "XLlFifo_RxGetWord M (Instance P) = XLlFifo_RxGetWord M I"
  "XLlFifo_TxPutWord M (Instance P) = XLlFifo_TxPutWord M I"
  using inst lite
  by (simp_all add: XLlFifo_iTxVacancy_def XLlFifo_iRxOccupancy_def XLlFifo_iRxGetLen_def
      XLlFifo_iTxSetLen_def XLlFifo_RxGetWord_def XLlFifo_TxPutWord_def fun_eq_iff)

lemma same_words:
  "write_words M (Instance P) buf i n = write_words M I buf i n"
  "read_words M (Instance P) n = read_words M I n"
  by (induction n arbitrary: i) (simp_all add: same_io)

lemma same_aligned:
  "XLlFifo_iWrite_Aligned M (Instance P) buf w = XLlFifo_iWrite_Aligned M I buf w"
  "XLlFifo_iRead_Aligned M (Instance P) w = XLlFifo_iRead_Aligned M I w"
  by (simp_all add: XLlFifo_iWrite_Aligned_def XLlFifo_iRead_Aligned_def same_words)

lemma poll_keeps:
  "txw (polled (XLlFifo_iTxVacancy M I) k s) = txw s" "rxw (polled (XLlFifo_iTxVacancy M I) k s) = rxw s"
  "txw (polled (XLlFifo_iRxOccupancy M I) k s) = txw s" "rxw (polled (XLlFifo_iRxOccupancy M I) k s) = rxw s"
  by (induction k arbitrary: s)
    (simp_all add: XLlFifo_iTxVacancy_def XLlFifo_iRxOccupancy_def XLlFifo_ReadReg_def run_load32 regs)

lemma setlen_keeps:
  "txw (snd (run_state (XLlFifo_iTxSetLen M I n) s)) = txw s"
  "rxw (snd (run_state (XLlFifo_iTxSetLen M I n) s)) = rxw s"
  by (simp_all add: XLlFifo_iTxSetLen_def XLlFifo_WriteReg_def run_store32 set_len)

lemma getlen_keeps:
  "rxw (snd (run_state (XLlFifo_iRxGetLen M I) s)) = rxw s"
  "txw (snd (run_state (XLlFifo_iRxGetLen M I) s)) = txw s"
  by (simp_all add: XLlFifo_iRxGetLen_def XLlFifo_ReadReg_def run_load32 regs)

lemma send_packet:
  assumes "ucast (sz div 4) \<le> fst (run_state (XLlFifo_iTxVacancy M I) (polled (XLlFifo_iTxVacancy M I) k s))"
    and "flags AND F_NOWA = 0"
  shows "\<exists>P' s'. stream_send M P buf sz flags s = Some (XST_SUCCESS, P', s') \<and>
    txw s' = txw s @ map buf [0..<unat (ucast (sz div 4) :: u32)] \<and> rxw s' = rxw s \<and>
    Instance P' = Instance P \<and>
    TransmitLength P' = (if flags AND F_BEGP \<noteq> 0 then 0 else TransmitLength P) + ucast (sz div 4) * 4"
proof -
  have "ucast (sz div 4) \<le> fst (run_state (XLlFifo_iTxVacancy M (Instance P))
      (polled (XLlFifo_iTxVacancy M (Instance P)) k s))"
    using assms(1) by (simp add: same_io)
  from wait_vacancy_returns [OF this] show ?thesis
    using assms(2)
    by (auto simp: stream_send_def same_io same_aligned Let_def iWrite_Aligned_tx setlen_keeps poll_keeps
        simp del: polled.simps)
qed

lemma send_nowait:
  assumes "flags AND F_NOWA \<noteq> 0"
  shows "\<exists>st P' s'. stream_send M P buf sz flags s = Some (st, P', s') \<and>
    (if ucast (sz div 4) \<le> fst (run_state (XLlFifo_iTxVacancy M I) s)
     then st = XST_SUCCESS \<and> txw s' = txw s @ map buf [0..<unat (ucast (sz div 4) :: u32)]
     else st = XST_FAILURE \<and> txw s' = txw s)"
  using poll_keeps(1) [of 1 s] assms
  by (cases "(ucast (sz div 4) :: u32) \<le> fst (run_state (XLlFifo_iTxVacancy M I) s)")
    (auto simp: stream_send_def same_io same_aligned Let_def wait_vacancy_nowa iWrite_Aligned_tx setlen_keeps)

lemma drain_rx:
  assumes "(unat len + 3) div 4 \<le> length (rxw s)"
  shows "rxw (drain M (Instance P) len s) = drop ((unat len + 3) div 4) (rxw s)"
  using assms
proof (induction "unat len" arbitrary: len s rule: less_induct)
  case less
  show ?case
  proof (cases "len = 0")
    case False
    have u: "unat (len - min len 4) = unat len - min (unat len) 4" "0 < unat len"
      using unat_minus_min [OF False] False by (simp_all add: unat_gt_0)
    define n where "n = (unat len - min (unat len) 4 + 3) div 4"
    have n: "(unat len + 3) div 4 = Suc n"
      using u(2) unfolding n_def by (rule ceil4_step)
    have "rxw s \<noteq> []"
      using less.prems n by auto
    then have g: "rxw (snd (run_state (XLlFifo_RxGetWord M I) s)) = tl (rxw s)"
      by (rule rx_get_word)
    have "unat len - min (unat len) 4 < unat len" "n \<le> length (tl (rxw s))"
      using u(2) less.prems n by simp_all
    then have "rxw (drain M (Instance P) (len - min len 4) (snd (run_state (XLlFifo_RxGetWord M I) s))) =
        drop n (tl (rxw s))"
      by (rule less.hyps [of "len - min len 4" "snd (run_state (XLlFifo_RxGetWord M I) s)",
            unfolded u(1) g, folded n_def])
    then show ?thesis
      using False \<open>rxw s \<noteq> []\<close> by (cases "rxw s") (simp_all add: drain.simps [of M _ len s] same_io n)
  qed (simp add: drain.simps)
qed

lemma drain_tx: "txw (drain M (Instance P) len s) = txw s"
proof (induction "unat len" arbitrary: len s rule: less_induct)
  case less
  show ?case
  proof (cases "len = 0")
    case False
    have "unat (len - min len 4) < unat len"
      using unat_minus_min [OF False] False by (simp add: unat_gt_0)
    then show ?thesis
      using less.hyps False by (simp add: drain.simps [of M _ len s] same_io rx_get_word_tx)
  qed (simp add: drain.simps)
qed

text \<open>A whole packet of \<open>L\<close> bytes, received with a buffer of at most \<open>L\<close> bytes.\<close>

lemma recv_packet:
  assumes ready: "packet_ready (fst (run_state (XLlFifo_iRxOccupancy M I) (polled (XLlFifo_iRxOccupancy M I) k s)))"
    and flags: "flags AND F_BEGP \<noteq> 0" "flags AND F_ENDP \<noteq> 0" "flags AND F_NOWA = 0"
    and len: "\<And>z. rxw z = rxw s \<Longrightarrow> fst (run_state (XLlFifo_iRxGetLen M I) z) = L"
    and words: "w = (ucast (sz div 4) :: u32)" "unat w * 4 \<le> unat L" "(unat L + 3) div 4 \<le> length (rxw s)"
  shows "\<exists>P' s'. stream_recv M P sz flags s = Some (XST_SUCCESS, take (unat w) (rxw s), P', s') \<and>
    rxw s' = drop ((unat L + 3) div 4) (rxw s) \<and> txw s' = txw s \<and> ReceiveLength P' = 0"
proof -
  have "packet_ready (fst (run_state (XLlFifo_iRxOccupancy M (Instance P))
      (polled (XLlFifo_iRxOccupancy M (Instance P)) k s)))"
    using ready by (simp add: same_io)
  from wait_packet_returns [OF this] obtain j where
    j: "wait_packet M (Instance P) False s = Some (True, polled (XLlFifo_iRxOccupancy M I) (Suc j) s)"
    by (auto simp: same_io simp del: polled.simps)
  define s1 where "s1 = snd (run_state (XLlFifo_iRxGetLen M I) (polled (XLlFifo_iRxOccupancy M I) (Suc j) s))"
  have g: "run_state (XLlFifo_iRxGetLen M I) (polled (XLlFifo_iRxOccupancy M I) (Suc j) s) = (L, s1)"
    using len [OF poll_keeps(4)] by (simp add: s1_def prod_eq_iff del: polled.simps)
  have s1: "rxw s1 = rxw s" "txw s1 = txw s"
    unfolding s1_def by (simp_all add: getlen_keeps poll_keeps del: polled.simps)
  have L: "unat L < 2 ^ 32"
    using unsigned_less [of L] by simp
  have mul: "unat (w * 4) = unat w * 4"
    using words(2) unat_mult_lem [of w 4] L by simp
  then have sub: "unat (L - w * 4) = unat L - unat w * 4"
    using words(2) by (simp add: unat_sub word_le_nat_alt)
  have up: "(unat L + 3) div 4 = unat w + (unat L - unat w * 4 + 3) div 4"
    using words(2) by simp
  obtain s2 where s2: "run_state (XLlFifo_iRead_Aligned M I w) s1 = (take (unat w) (rxw s), s2)"
    "rxw s2 = drop (unat w) (rxw s)" "txw s2 = txw s"
    using iRead_Aligned_rx [of w s1] read_words_tx [of "unat w" s1] up words(3) s1
    by (cases "run_state (XLlFifo_iRead_Aligned M I w) s1") (simp_all add: XLlFifo_iRead_Aligned_def)
  then have "rxw (drain M (Instance P) (L - w * 4) s2) = drop ((unat L + 3) div 4) (rxw s)"
    using words(3) up sub by (simp add: drain_rx add.commute)
  then show ?thesis
    using j g flags s2
    by (simp add: stream_recv_def same_io same_aligned Let_def words(1) [symmetric] drain_tx)
qed

end

definition core_port :: "u64 \<Rightarrow> fifo_core stream_t" where
  "core_port b = \<lparr>Instance = llf_instance (core_mmio b) (core_io b), TransmitLength = 0, ReceiveLength = 0\<rparr>"

lemma core_stream_dev: "stream_dev (core_mmio b) (core_io b) core_tx core_rx (core_port b)"
  using core_dev [of b]
  by (simp add: stream_dev_def stream_dev_axioms_def core_port_def llf_instance_def
      llf_io.extend_def core_io_def)

interpretation coreport: stream_dev "core_mmio b" "core_io b" core_tx core_rx "core_port b" for b
  by (rule core_stream_dev)

section \<open>Properties\<close>

text \<open>C25: Without the no-wait flag, if some later poll of the vacancy register finds room, \<^verbatim>\<open>stream_send\<close>
  returns success, the FIFO has been given exactly the words of the buffer, in order and after
  what it had, and the packet length counts them (from zero at the beginning of a packet).\<close>

theorem stream_send_sends:
  assumes "stream_dev M I txw rxw P"
    and "ucast (sz div 4) \<le> fst (run_state (XLlFifo_iTxVacancy M I) (polled (XLlFifo_iTxVacancy M I) k s))"
    and "flags AND F_NOWA = 0"
  shows "\<exists>P' s'. stream_send M P buf sz flags s = Some (XST_SUCCESS, P', s') \<and>
    txw s' = txw s @ map buf [0..<unat (ucast (sz div 4) :: u32)] \<and> rxw s' = rxw s \<and>
    Instance P' = Instance P \<and>
    TransmitLength P' = (if flags AND F_BEGP \<noteq> 0 then 0 else TransmitLength P) + ucast (sz div 4) * 4"
  using assms by (rule stream_dev.send_packet)

theorem stream_send_sends_witness:
  "\<exists>P' s'. stream_send (core_mmio 0) (core_port 0) (\<lambda>i. of_nat i + 7) 8 F_BEGP
      \<lparr>core_tx = [], core_rx = [], core_len = []\<rparr> = Some (XST_SUCCESS, P', s') \<and>
    core_tx s' = [7, 8] \<and> TransmitLength P' = 8"
proof -
  have "(ucast (8 div 4 :: u64) :: u32) \<le> fst (run_state (XLlFifo_iTxVacancy (core_mmio 0) (core_io 0))
      (polled (XLlFifo_iTxVacancy (core_mmio 0) (core_io 0)) 0 \<lparr>core_tx = [], core_rx = [], core_len = []\<rparr>))"
    by (simp add: XLlFifo_iTxVacancy_def XLlFifo_ReadReg_def run_load32 core_mmio_def core_io_def reg_consts)
  moreover have "F_BEGP AND F_NOWA = 0" "F_BEGP AND F_BEGP \<noteq> 0"
    by (simp_all add: F_BEGP_def F_NOWA_def)
  ultimately show ?thesis
    using stream_send_sends [OF core_stream_dev, of 8 0 0 "\<lparr>core_tx = [], core_rx = [], core_len = []\<rparr>" F_BEGP
        "\<lambda>i. of_nat i + 7"]
    by (auto simp: upt_conv_Cons)
qed

text \<open>With the no-wait flag \<^verbatim>\<open>stream_send\<close> always returns: success with the words handed over if
  the first look at the vacancy register shows room, else failure with no word handed over.\<close>

theorem stream_send_nowait_returns:
  assumes "stream_dev M I txw rxw P" "flags AND F_NOWA \<noteq> 0"
  shows "\<exists>st P' s'. stream_send M P buf sz flags s = Some (st, P', s') \<and>
    (if ucast (sz div 4) \<le> fst (run_state (XLlFifo_iTxVacancy M I) s)
     then st = XST_SUCCESS \<and> txw s' = txw s @ map buf [0..<unat (ucast (sz div 4) :: u32)]
     else st = XST_FAILURE \<and> txw s' = txw s)"
  using assms by (rule stream_dev.send_nowait)

theorem stream_send_nowait_returns_witness:
  "\<exists>st P' s'. stream_send (core_mmio 0) (core_port 0) (\<lambda>i. 0) 4096 F_NOWA
      \<lparr>core_tx = [5], core_rx = [], core_len = []\<rparr> = Some (st, P', s') \<and>
    st = XST_FAILURE \<and> core_tx s' = [5]"
proof -
  have "F_NOWA AND F_NOWA \<noteq> 0"
    by (simp add: F_NOWA_def)
  moreover have "fst (run_state (XLlFifo_iTxVacancy (core_mmio 0) (core_io 0)) s) = 508" for s
    by (simp add: XLlFifo_iTxVacancy_def XLlFifo_ReadReg_def run_load32 core_mmio_def core_io_def reg_consts)
  ultimately show ?thesis
    using stream_send_nowait_returns [OF core_stream_dev, of F_NOWA 0 "\<lambda>i. 0" 4096
        "\<lparr>core_tx = [5], core_rx = [], core_len = []\<rparr>"]
    by simp
qed

text \<open>C23: Receiving a whole packet of \<open>L\<close> bytes (begin and end flags) into a buffer of at most \<open>L\<close>
  bytes returns once a poll sees a complete packet, delivers the first words of the packet and
  removes the packet, padding included, from the FIFO: the next receive starts at the next packet.\<close>

theorem stream_recv_packet:
  assumes "stream_dev M I txw rxw P"
    and "packet_ready (fst (run_state (XLlFifo_iRxOccupancy M I) (polled (XLlFifo_iRxOccupancy M I) k s)))"
    and "flags AND F_BEGP \<noteq> 0" "flags AND F_ENDP \<noteq> 0" "flags AND F_NOWA = 0"
    and "\<And>z. rxw z = rxw s \<Longrightarrow> fst (run_state (XLlFifo_iRxGetLen M I) z) = L"
    and "w = (ucast (sz div 4) :: u32)" "unat w * 4 \<le> unat L" "(unat L + 3) div 4 \<le> length (rxw s)"
  shows "\<exists>P' s'. stream_recv M P sz flags s = Some (XST_SUCCESS, take (unat w) (rxw s), P', s') \<and>
    rxw s' = drop ((unat L + 3) div 4) (rxw s) \<and> txw s' = txw s \<and> ReceiveLength P' = 0"
  using assms by (rule stream_dev.recv_packet)

theorem stream_recv_packet_witness:
  "\<exists>P' s'. stream_recv (core_mmio 0) (core_port 0) 8 (F_BEGP OR F_ENDP)
      \<lparr>core_tx = [], core_rx = [4, 5, 6], core_len = []\<rparr> = Some (XST_SUCCESS, [4, 5], P', s') \<and>
    core_rx s' = [] \<and> ReceiveLength P' = 0"
proof -
  let ?s = "\<lparr>core_tx = [], core_rx = [4, 5, 6], core_len = []\<rparr> :: fifo_core"
  let ?M = "core_mmio 0" and ?I = "core_io 0"
  have "packet_ready (fst (run_state (XLlFifo_iRxOccupancy ?M ?I) (polled (XLlFifo_iRxOccupancy ?M ?I) 0 ?s)))"
    by (simp add: packet_ready_def XLlFifo_iRxOccupancy_def XLlFifo_ReadReg_def run_load32 core_mmio_def
        core_io_def reg_consts)
  moreover have "(F_BEGP OR F_ENDP) AND F_BEGP \<noteq> 0" "(F_BEGP OR F_ENDP) AND F_ENDP \<noteq> 0"
    "(F_BEGP OR F_ENDP) AND F_NOWA = 0"
    by (simp_all add: F_BEGP_def F_ENDP_def F_NOWA_def)
  moreover have "fst (run_state (XLlFifo_iRxGetLen ?M ?I) z) = 12" if "core_rx z = core_rx ?s" for z
    using that by (simp add: XLlFifo_iRxGetLen_def XLlFifo_ReadReg_def run_load32 core_mmio_def
        core_io_def reg_consts)
  ultimately show ?thesis
    using stream_recv_packet [OF core_stream_dev, of 0 0 ?s "F_BEGP OR F_ENDP" 12 2 8] by auto
qed

text \<open>On the MicroBlaze link a send puts every word of the buffer but the last without the control
  bit and the last with it exactly at the end of a packet; a size below four still puts one word.\<close>

theorem mb_stream_send_words:
  "snd (mb_stream_send \<lparr>putfslx = (\<lambda>c w s. s @ [(c, w)]), getfslx = (\<lambda>c s. (0, s))\<rparr> buf sz flags s) =
     (let n = unat (ucast (sz div 4) :: u32)
      in s @ map (\<lambda>i. (False, buf i)) [0..<n - 1] @ [(flags AND F_ENDP \<noteq> 0, buf (n - 1))])"
proof -
  let ?L = "\<lparr>putfslx = (\<lambda>c w s. s @ [(c, w)]), getfslx = (\<lambda>c s. (0, s))\<rparr>"
  have "mb_put ?L buf i n s = s @ map (\<lambda>i. (False, buf i)) [i..<i + n]" for i n s
    by (induction n arbitrary: i s) (simp_all add: upt_conv_Cons del: upt_Suc)
  from this [of 0] show ?thesis
    by (simp add: mb_stream_send_def Let_def)
qed

end
