(* ===== verification/Aport.thy ===== *)
theory Aport
  imports Stream_Port
begin

text \<open>
  Commands to the accelerator ports: register reads and writes (\<^verbatim>\<open>src/shared/aport.c\<close>,
  \<^verbatim>\<open>aport.h\<close>) and the load-store unit's copy commands (\<^verbatim>\<open>src/shared/lsu_cmd.c\<close>). Every command
  is one packet on the stream port: a header word and the register values.
\<close>

section \<open>Header and command words\<close>

definition getID :: "u32 \<Rightarrow> u32" where
  "getID pn = push_bit 1 pn"

definition AP_HEAD :: "u32 \<Rightarrow> u32 \<Rightarrow> u32 \<Rightarrow> u32 \<Rightarrow> u32 \<Rightarrow> u32 \<Rightarrow> u32" where
  "AP_HEAD go wr sel len tid tdest =
     push_bit 23 go OR push_bit 22 wr OR push_bit 19 sel OR push_bit 16 len OR push_bit 8 tid OR tdest"

definition HSU_CMD :: "u32 \<Rightarrow> u32 \<Rightarrow> u32 \<Rightarrow> u32 \<Rightarrow> u32 \<Rightarrow> u32 \<Rightarrow> u32 \<Rightarrow> u32" where
  "HSU_CMD seldi seldo seed tdest tid hlen klen =
     push_bit 29 seldi OR push_bit 28 seldo OR push_bit 24 seed OR push_bit 20 tdest OR
     push_bit 16 tid OR push_bit 8 hlen OR klen"

definition LSU_CMD :: "u32 \<Rightarrow> u32 \<Rightarrow> u32" where
  "LSU_CMD reqs cmd = push_bit 7 reqs OR cmd"

definition LSU_ACMD :: "u64 \<Rightarrow> u64 \<Rightarrow> u64 \<Rightarrow> u64" where
  "LSU_ACMD addr reqs cmd = (drop_bit 16 addr AND 0x70000) OR push_bit 7 reqs OR cmd"

definition READ_CH :: u32 where "READ_CH = 0"
definition WRITE_CH :: u32 where "WRITE_CH = 1"
definition LSU_move :: u64 where "LSU_move = 1"
definition LSU_smove :: u64 where "LSU_smove = 2"

section \<open>Register access\<close>

text \<open>The globals \<^verbatim>\<open>gport\<close>, \<^verbatim>\<open>gfwd_id\<close> and \<^verbatim>\<open>gret_id\<close>; the port is held by value.\<close>

record 's accel =
  gport :: "'s stream_t"
  gfwd_id :: u32
  gret_id :: u32

definition aport_set :: "'s stream_t \<Rightarrow> 's accel \<Rightarrow> 's accel" where
  "aport_set port g = g\<lparr>gport := port\<rparr>"

text \<open>Send a packet of the given words, receive a packet of \<open>n\<close> words; results are ignored by the callers.\<close>

definition send_words :: "'s mmio \<Rightarrow> u32 list \<Rightarrow> 's accel \<Rightarrow> 's \<Rightarrow> ('s accel \<times> 's) option" where
  "send_words M ws g s =
     map_option (\<lambda>(st, port, s). (g\<lparr>gport := port\<rparr>, s))
       (stream_send M (gport g) (\<lambda>i. ws ! i) (4 * of_nat (length ws)) (F_BEGP OR F_ENDP) s)"

definition recv_words :: "'s mmio \<Rightarrow> nat \<Rightarrow> 's accel \<Rightarrow> 's \<Rightarrow> (u32 list \<times> 's accel \<times> 's) option" where
  "recv_words M n g s =
     map_option (\<lambda>(st, ws, port, s). (ws, g\<lparr>gport := port\<rparr>, s))
       (stream_recv M (gport g) (4 * of_nat n) (F_BEGP OR F_ENDP) s)"

definition aport_read :: "'s mmio \<Rightarrow> u32 \<Rightarrow> u32 \<Rightarrow> u32 \<Rightarrow> 's accel \<Rightarrow> 's \<Rightarrow> (u32 \<times> 's accel \<times> 's) option" where
  "aport_read M fwd_id ret_id sel g s =
     (let command = [push_bit 19 sel OR push_bit 16 1 OR push_bit 8 ret_id OR fwd_id, 0]
      in Option.bind (send_words M command g s) (\<lambda>(g, s).
         map_option (\<lambda>(response, g, s). (response ! 1, g, s)) (recv_words M 2 g s)))"

definition aport_write ::
  "'s mmio \<Rightarrow> u32 \<Rightarrow> u32 \<Rightarrow> u32 \<Rightarrow> u32 \<Rightarrow> u32 \<Rightarrow> 's accel \<Rightarrow> 's \<Rightarrow> ('s accel \<times> 's) option" where
  "aport_write M fwd_id ret_id go sel val g s =
     send_words M [push_bit 23 go OR push_bit 22 1 OR push_bit 19 sel OR push_bit 16 1 OR
       push_bit 8 ret_id OR fwd_id, val] g s"

text \<open>The array \<open>val\<close> has a word for the header in front; its contents are part of the result.\<close>

definition aport_nread ::
  "'s mmio \<Rightarrow> u32 \<Rightarrow> u32 \<Rightarrow> u32 \<Rightarrow> u32 list \<Rightarrow> u32 \<Rightarrow> 's accel \<Rightarrow> 's \<Rightarrow> (u32 list \<times> 's accel \<times> 's) option" where
  "aport_nread M fwd_id ret_id sel val n g s =
     (let val = val[0 := push_bit 19 sel OR push_bit 16 n OR push_bit 8 ret_id OR fwd_id]
      in Option.bind (send_words M (take 2 val) g s) (\<lambda>(g, s).
         map_option (\<lambda>(ws, g, s). (ws @ drop (length ws) val, g, s)) (recv_words M (unat (n + 1)) g s)))"

definition aport_nwrite ::
  "'s mmio \<Rightarrow> u32 \<Rightarrow> u32 \<Rightarrow> u32 \<Rightarrow> u32 \<Rightarrow> u32 list \<Rightarrow> u32 \<Rightarrow> 's accel \<Rightarrow> 's \<Rightarrow>
   (u32 list \<times> 's accel \<times> 's) option" where
  "aport_nwrite M fwd_id ret_id go sel val n g s =
     (let val = val[0 := push_bit 23 go OR push_bit 22 1 OR push_bit 19 sel OR push_bit 16 n OR
            push_bit 8 ret_id OR fwd_id]
      in map_option (\<lambda>(g, s). (val, g, s)) (send_words M (take (unat (n + 1)) val) g s))"

section \<open>Load-store unit commands\<close>

text \<open>The command structures; the bit fields of the first word are laid out from bit 0.\<close>

record lsu_command =
  lsu_tdest :: u8
  lsu_tid :: u8
  lsu_tuser :: u16
  lsu_cmdw :: u32
  lsu_addr :: u32
  lsu_size :: u32
  lsu_inc :: u32
  lsu_rep :: u32

definition lsu_head :: "lsu_command \<Rightarrow> u32" where
  "lsu_head c = ucast (lsu_tdest c) OR push_bit 8 (ucast (lsu_tid c)) OR push_bit 16 (ucast (lsu_tuser c))"

definition lsu_move_words :: "lsu_command \<Rightarrow> u32 list" where
  "lsu_move_words c = [lsu_head c, lsu_cmdw c, lsu_addr c, lsu_size c]"

definition lsu_smove_words :: "lsu_command \<Rightarrow> u32 list" where
  "lsu_smove_words c = [lsu_head c, lsu_cmdw c, lsu_addr c, lsu_size c, lsu_inc c, lsu_rep c]"

definition lsu_setport :: "'s stream_t \<Rightarrow> u32 \<Rightarrow> u32 \<Rightarrow> 's accel \<Rightarrow> 's accel" where
  "lsu_setport port fwd_pn ret_pn g =
     g\<lparr>gport := port, gfwd_id := push_bit 1 fwd_pn, gret_id := push_bit 1 ret_pn\<rparr>"

text \<open>\<open>atran\<close> is \<^verbatim>\<open>ATRAN\<close>: the address translation of the platform.\<close>

definition lsu_memcpy ::
  "'s mmio \<Rightarrow> (u64 \<Rightarrow> u64) \<Rightarrow> u64 \<Rightarrow> u64 \<Rightarrow> u64 \<Rightarrow> 's accel \<Rightarrow> 's \<Rightarrow> (u64 \<times> 's accel \<times> 's) option" where
  "lsu_memcpy M atran dst src n g s =
     (let paddr = atran src;
          c = \<lparr>lsu_tdest = ucast (gfwd_id g + READ_CH), lsu_tid = ucast (gret_id g), lsu_tuser = 0xCB,
               lsu_cmdw = ucast (LSU_ACMD paddr 0 LSU_move), lsu_addr = ucast paddr, lsu_size = ucast n,
               lsu_inc = 0, lsu_rep = 0\<rparr>
      in Option.bind (send_words M (lsu_move_words c) g s) (\<lambda>(g, s).
         let paddr = atran dst;
             c = c\<lparr>lsu_cmdw := ucast (LSU_ACMD paddr 1 LSU_move), lsu_tdest := ucast (gfwd_id g + WRITE_CH),
                   lsu_addr := ucast paddr\<rparr>
         in Option.bind (send_words M (lsu_move_words c) g s) (\<lambda>(g, s).
            map_option (\<lambda>(status, g, s). (dst, g, s)) (recv_words M 2 g s))))"

definition lsu_smemcpy ::
  "'s mmio \<Rightarrow> (u64 \<Rightarrow> u64) \<Rightarrow> u64 \<Rightarrow> u64 \<Rightarrow> u64 \<Rightarrow> u64 \<Rightarrow> u64 \<Rightarrow> u64 \<Rightarrow> 's accel \<Rightarrow> 's \<Rightarrow>
   (u64 \<times> 's accel \<times> 's) option" where
  "lsu_smemcpy M atran dst src block_sz dst_inc src_inc n g s =
     (let paddr = atran src;
          c = \<lparr>lsu_tdest = ucast (gfwd_id g + READ_CH), lsu_tid = ucast (gret_id g), lsu_tuser = 0xCD,
               lsu_cmdw = ucast (LSU_ACMD paddr 0 LSU_smove), lsu_addr = ucast paddr, lsu_size = ucast block_sz,
               lsu_inc = ucast src_inc, lsu_rep = ucast n\<rparr>
      in Option.bind (send_words M (lsu_smove_words c) g s) (\<lambda>(g, s).
         let paddr = atran dst;
             c = c\<lparr>lsu_cmdw := ucast (LSU_ACMD paddr 1 LSU_smove), lsu_tdest := ucast (gfwd_id g + WRITE_CH),
                   lsu_addr := ucast paddr, lsu_inc := ucast dst_inc\<rparr>
         in Option.bind (send_words M (lsu_smove_words c) g s) (\<lambda>(g, s).
            map_option (\<lambda>(status, g, s). (dst, g, s)) (recv_words M 2 g s))))"

section \<open>Fields of the header\<close>

definition hdr_tdest :: "u32 \<Rightarrow> u32" where "hdr_tdest h = h AND 0xFF"
definition hdr_tid :: "u32 \<Rightarrow> u32" where "hdr_tid h = drop_bit 8 h AND 0xFF"
definition hdr_length :: "u32 \<Rightarrow> u32" where "hdr_length h = drop_bit 16 h AND 7"
definition hdr_select :: "u32 \<Rightarrow> u32" where "hdr_select h = drop_bit 19 h AND 7"
definition hdr_write :: "u32 \<Rightarrow> u32" where "hdr_write h = drop_bit 22 h AND 1"
definition hdr_go :: "u32 \<Rightarrow> u32" where "hdr_go h = drop_bit 23 h AND 1"

lemmas hdr_defs = hdr_tdest_def hdr_tid_def hdr_length_def hdr_select_def hdr_write_def hdr_go_def

lemma field_masks:
  "(0xFF :: u32) = mask 8" "(7 :: u32) = mask 3" "(1 :: u32) = mask 1"
  by (simp_all add: mask_eq_exp_minus_1)

lemma AP_HEAD_fields:
  assumes "go < 2" "wr < 2" "sel < 8" "len < 8" "tid < 256" "tdest < 256"
  shows "hdr_go (AP_HEAD go wr sel len tid tdest) = go \<and> hdr_write (AP_HEAD go wr sel len tid tdest) = wr \<and>
    hdr_select (AP_HEAD go wr sel len tid tdest) = sel \<and> hdr_length (AP_HEAD go wr sel len tid tdest) = len \<and>
    hdr_tid (AP_HEAD go wr sel len tid tdest) = tid \<and> hdr_tdest (AP_HEAD go wr sel len tid tdest) = tdest"
proof -
  have lim: "bit go n \<Longrightarrow> n < 1" "bit wr n \<Longrightarrow> n < 1" "bit sel n \<Longrightarrow> n < 3" "bit len n \<Longrightarrow> n < 3"
    "bit tid n \<Longrightarrow> n < 8" "bit tdest n \<Longrightarrow> n < 8" for n
    using assms bit_less_powerD [of go n 1] bit_less_powerD [of wr n 1] bit_less_powerD [of sel n 3]
      bit_less_powerD [of len n 3] bit_less_powerD [of tid n 8] bit_less_powerD [of tdest n 8]
    by simp_all
  show ?thesis
    unfolding hdr_defs field_masks AP_HEAD_def
    by (intro conjI bit_eqI) (auto simp: bit_simps dest: lim)
qed

section \<open>What the commands put on the port\<close>

text \<open>The packets a copy is made of: channel, physical address, status request, sizes.\<close>

definition move_packet :: "'s accel \<Rightarrow> u32 \<Rightarrow> u64 \<Rightarrow> u64 \<Rightarrow> u64 \<Rightarrow> u32 list" where
  "move_packet g ch paddr reqs n = lsu_move_words
     \<lparr>lsu_tdest = ucast (gfwd_id g + ch), lsu_tid = ucast (gret_id g), lsu_tuser = 0xCB,
      lsu_cmdw = ucast (LSU_ACMD paddr reqs LSU_move), lsu_addr = ucast paddr,
      lsu_size = ucast n, lsu_inc = 0, lsu_rep = 0\<rparr>"

definition smove_packet :: "'s accel \<Rightarrow> u32 \<Rightarrow> u64 \<Rightarrow> u64 \<Rightarrow> u64 \<Rightarrow> u64 \<Rightarrow> u64 \<Rightarrow> u32 list" where
  "smove_packet g ch paddr reqs block_sz step n = lsu_smove_words
     \<lparr>lsu_tdest = ucast (gfwd_id g + ch), lsu_tid = ucast (gret_id g), lsu_tuser = 0xCD,
      lsu_cmdw = ucast (LSU_ACMD paddr reqs LSU_smove), lsu_addr = ucast paddr,
      lsu_size = ucast block_sz, lsu_inc = ucast step, lsu_rep = ucast n\<rparr>"

lemma lsu_head_fields:
  "lsu_tuser c = 0xCB \<Longrightarrow> hdr_go (lsu_head c) = 1 \<and> hdr_write (lsu_head c) = 1 \<and>
     hdr_select (lsu_head c) = 1 \<and> hdr_length (lsu_head c) = 3"
  "lsu_tuser c = 0xCD \<Longrightarrow> hdr_go (lsu_head c) = 1 \<and> hdr_write (lsu_head c) = 1 \<and>
     hdr_select (lsu_head c) = 1 \<and> hdr_length (lsu_head c) = 5"
proof -
  have h: "drop_bit 16 (lsu_head c) = ucast (lsu_tuser c)"
    by (auto simp: lsu_head_def bit_eq_iff bit_simps dest: bit_imp_le_length)
  have d: "drop_bit 19 (lsu_head c) = drop_bit 3 (drop_bit 16 (lsu_head c))"
    "drop_bit 22 (lsu_head c) = drop_bit 6 (drop_bit 16 (lsu_head c))"
    "drop_bit 23 (lsu_head c) = drop_bit 7 (drop_bit 16 (lsu_head c))"
    by (simp_all only: drop_bit_drop_bit) simp_all
  show "lsu_tuser c = 0xCB \<Longrightarrow> hdr_go (lsu_head c) = 1 \<and> hdr_write (lsu_head c) = 1 \<and>
     hdr_select (lsu_head c) = 1 \<and> hdr_length (lsu_head c) = 3"
    unfolding hdr_defs d h by simp
  show "lsu_tuser c = 0xCD \<Longrightarrow> hdr_go (lsu_head c) = 1 \<and> hdr_write (lsu_head c) = 1 \<and>
     hdr_select (lsu_head c) = 1 \<and> hdr_length (lsu_head c) = 5"
    unfolding hdr_defs d h by simp
qed

text \<open>The physical address, its upper three bits in the command word.\<close>

definition lsu_paddr :: "u32 list \<Rightarrow> u64" where
  "lsu_paddr ws = push_bit 16 (ucast (ws ! 1 AND 0x70000)) OR ucast (ws ! 2)"

lemma lsu_paddr_ACMD:
  assumes "paddr < 2 ^ 35" "reqs < 2" "cmd < 8"
  shows "push_bit 16 (ucast ((ucast (LSU_ACMD paddr reqs cmd) :: u32) AND 0x70000)) OR
      ucast (ucast paddr :: u32) = paddr"
proof -
  have m: "(0x70000 :: u64) = push_bit 16 (mask 3)" "(0x70000 :: u32) = push_bit 16 (mask 3)"
    by (simp_all add: mask_eq_exp_minus_1)
  have lim: "bit paddr n \<Longrightarrow> n < 35" "bit reqs n \<Longrightarrow> n < 1" "bit cmd n \<Longrightarrow> n < 3" for n
    using assms bit_less_powerD [of paddr n 35] bit_less_powerD [of reqs n 1] bit_less_powerD [of cmd n 3]
    by simp_all
  show ?thesis
    unfolding LSU_ACMD_def m
    by (rule bit_eqI) (auto simp: bit_simps dest: lim)
qed

text \<open>A response of two words is waiting, or becomes visible while the port is polled.\<close>

definition response_ready :: "'s mmio \<Rightarrow> llf_io \<Rightarrow> ('s \<Rightarrow> u32 list) \<Rightarrow> 's \<Rightarrow> bool" where
  "response_ready M I rxw s \<longleftrightarrow> length (rxw s) \<ge> 2 \<and>
     (\<forall>z. rxw z = rxw s \<longrightarrow> fst (run_state (XLlFifo_iRxGetLen M I) z) = 8 \<and>
       (\<exists>k. packet_ready (fst (run_state (XLlFifo_iRxOccupancy M I) (polled (XLlFifo_iRxOccupancy M I) k z)))))"

text \<open>
  The port of an accelerator: a stream port whose transmit FIFO always drains, so that some
  poll finds room for a command.
\<close>

locale accel_dev = stream_dev M I txw rxw P
  for M :: "'s mmio" and I :: llf_io and txw rxw and P :: "'s stream_t" +
  assumes room: "\<exists>k. 8 \<le> fst (run_state (XLlFifo_iTxVacancy M I) (polled (XLlFifo_iTxVacancy M I) k z))"
begin

lemma flags: "(F_BEGP OR F_ENDP) AND F_NOWA = 0" "(F_BEGP OR F_ENDP) AND F_BEGP \<noteq> 0"
  "(F_BEGP OR F_ENDP) AND F_ENDP \<noteq> 0"
  by (simp_all add: F_BEGP_def F_ENDP_def F_NOWA_def)

lemma send_words_tx:
  assumes "gport g = P" "length ws \<le> 8"
  shows "\<exists>P' s'. send_words M ws g s = Some (g\<lparr>gport := P'\<rparr>, s') \<and> Instance P' = Instance P \<and>
    txw s' = txw s @ ws \<and> rxw s' = rxw s"
proof -
  have "length ws = 0 \<or> length ws = 1 \<or> length ws = 2 \<or> length ws = 3 \<or> length ws = 4 \<or>
      length ws = 5 \<or> length ws = 6 \<or> length ws = 7 \<or> length ws = 8"
    using assms(2) by linarith
  then have w: "(ucast ((4 * of_nat (length ws) :: u64) div 4) :: u32) \<le> 8 \<and>
      unat (ucast ((4 * of_nat (length ws) :: u64) div 4) :: u32) = length ws"
    by (elim disjE) simp_all
  obtain k where "8 \<le> fst (run_state (XLlFifo_iTxVacancy M I) (polled (XLlFifo_iTxVacancy M I) k s))"
    using room by blast
  with w [THEN conjunct1] have "ucast ((4 * of_nat (length ws) :: u64) div 4) \<le>
      fst (run_state (XLlFifo_iTxVacancy M I) (polled (XLlFifo_iTxVacancy M I) k s))"
    by (rule order_trans)
  from send_packet [OF this flags(1), of "\<lambda>i. ws ! i"] show ?thesis
    using assms(1) w by (auto simp: send_words_def map_nth)
qed

lemma same_port: "Instance P' = Instance P \<Longrightarrow> accel_dev M I txw rxw P'"
  using accel_dev_axioms by (simp add: accel_dev_def stream_dev_def stream_dev_axioms_def)

lemma recv_words_rx:
  assumes "gport g = P" "response_ready M I rxw s"
  shows "\<exists>P' s'. recv_words M 2 g s = Some (take 2 (rxw s), g\<lparr>gport := P'\<rparr>, s') \<and>
    rxw s' = drop 2 (rxw s) \<and> txw s' = txw s"
proof -
  obtain k where k: "packet_ready (fst (run_state (XLlFifo_iRxOccupancy M I) (polled (XLlFifo_iRxOccupancy M I) k s)))"
    using assms(2) by (auto simp: response_ready_def)
  have "fst (run_state (XLlFifo_iRxGetLen M I) z) = 8" if "rxw z = rxw s" for z
    using that assms(2) by (simp add: response_ready_def)
  from recv_packet [OF k flags(2,3,1) this, of 2 8] show ?thesis
    using assms by (auto simp: recv_words_def response_ready_def)
qed

lemma write_packet:
  assumes "gport g = P"
  shows "\<exists>g' s'. aport_write M fwd_id ret_id go sel val g s = Some (g', s') \<and>
    txw s' = txw s @ [AP_HEAD go 1 sel 1 ret_id fwd_id, val]"
  using send_words_tx [OF assms, of "[AP_HEAD go 1 sel 1 ret_id fwd_id, val]" s]
  by (auto simp: aport_write_def AP_HEAD_def)

lemma read_packet:
  assumes "gport g = P" "response_ready M I rxw s"
  shows "\<exists>g' s'. aport_read M fwd_id ret_id sel g s = Some (rxw s ! 1, g', s') \<and>
    rxw s' = drop 2 (rxw s)"
proof -
  define hdr where "hdr = (push_bit 19 sel OR push_bit 16 1 OR push_bit 8 ret_id OR fwd_id :: u32)"
  obtain P1 s1 where a: "send_words M [hdr, 0] g s = Some (g\<lparr>gport := P1\<rparr>, s1)"
    "Instance P1 = Instance P" "rxw s1 = rxw s"
    using send_words_tx [OF assms(1), of "[hdr, 0]" s] by auto
  have "response_ready M I rxw s1"
    using assms(2) a(3) by (simp add: response_ready_def)
  with accel_dev.recv_words_rx [OF same_port [OF a(2)], of "g\<lparr>gport := P1\<rparr>" s1] a(3) show ?thesis
    using assms(2) unfolding aport_read_def hdr_def [symmetric] Let_def
    by (auto simp: a(1) response_ready_def)
qed

lemma ready_cong: "rxw s1 = rxw s \<Longrightarrow> response_ready M I rxw s1 = response_ready M I rxw s"
  by (simp add: response_ready_def)

lemma two_commands:
  assumes "gport g = P" "response_ready M I rxw s" "length ws1 \<le> 8" "length ws2 \<le> 8"
  obtains P1 s1 P2 s2 P3 s3 where
    "send_words M ws1 g s = Some (g\<lparr>gport := P1\<rparr>, s1)"
    "send_words M ws2 (g\<lparr>gport := P1\<rparr>) s1 = Some (g\<lparr>gport := P2\<rparr>, s2)"
    "recv_words M 2 (g\<lparr>gport := P2\<rparr>) s2 = Some (take 2 (rxw s), g\<lparr>gport := P3\<rparr>, s3)"
    "txw s3 = txw s @ ws1 @ ws2" "rxw s3 = drop 2 (rxw s)"
proof -
  obtain P1 s1 where a: "send_words M ws1 g s = Some (g\<lparr>gport := P1\<rparr>, s1)"
    "Instance P1 = Instance P" "rxw s1 = rxw s" "txw s1 = txw s @ ws1"
    using send_words_tx [OF assms(1,3), of s] by auto
  obtain P2 s2 where b: "send_words M ws2 (g\<lparr>gport := P1\<rparr>) s1 = Some (g\<lparr>gport := P2\<rparr>, s2)"
    "Instance P2 = Instance P1" "rxw s2 = rxw s1" "txw s2 = txw s1 @ ws2"
    using accel_dev.send_words_tx [OF same_port [OF a(2)], of "g\<lparr>gport := P1\<rparr>" ws2 s1] assms(4) by auto
  have "Instance P2 = Instance P" "response_ready M I rxw s2"
    using a b assms(2) ready_cong [of s2 s] by simp_all
  then show thesis
    using that [OF a(1) b(1)] a b
      accel_dev.recv_words_rx [OF same_port, of P2 "g\<lparr>gport := P2\<rparr>" s2] by auto
qed

lemma memcpy_commands:
  assumes "gport g = P" "response_ready M I rxw s"
  shows "\<exists>g' s'. lsu_memcpy M atran dst src n g s = Some (dst, g', s') \<and>
    txw s' = txw s @ move_packet g READ_CH (atran src) 0 n @ move_packet g WRITE_CH (atran dst) 1 n \<and>
    rxw s' = drop 2 (rxw s)"
proof -
  let ?c = "move_packet g READ_CH (atran src) 0 n" and ?c' = "move_packet g WRITE_CH (atran dst) 1 n"
  obtain P1 s1 P2 s2 P3 s3 where
    "send_words M ?c g s = Some (g\<lparr>gport := P1\<rparr>, s1)"
    "send_words M ?c' (g\<lparr>gport := P1\<rparr>) s1 = Some (g\<lparr>gport := P2\<rparr>, s2)"
    "recv_words M 2 (g\<lparr>gport := P2\<rparr>) s2 = Some (take 2 (rxw s), g\<lparr>gport := P3\<rparr>, s3)"
    "txw s3 = txw s @ ?c @ ?c'" "rxw s3 = drop 2 (rxw s)"
    by (rule two_commands [OF assms, of ?c ?c']) (simp_all add: move_packet_def lsu_move_words_def)
  then show ?thesis
    unfolding lsu_memcpy_def move_packet_def by (simp add: Let_def)
qed

lemma smemcpy_commands:
  assumes "gport g = P" "response_ready M I rxw s"
  shows "\<exists>g' s'. lsu_smemcpy M atran dst src block_sz dst_inc src_inc n g s = Some (dst, g', s') \<and>
    txw s' = txw s @ smove_packet g READ_CH (atran src) 0 block_sz src_inc n @
      smove_packet g WRITE_CH (atran dst) 1 block_sz dst_inc n \<and>
    rxw s' = drop 2 (rxw s)"
proof -
  let ?c = "smove_packet g READ_CH (atran src) 0 block_sz src_inc n"
  let ?c' = "smove_packet g WRITE_CH (atran dst) 1 block_sz dst_inc n"
  obtain P1 s1 P2 s2 P3 s3 where
    "send_words M ?c g s = Some (g\<lparr>gport := P1\<rparr>, s1)"
    "send_words M ?c' (g\<lparr>gport := P1\<rparr>) s1 = Some (g\<lparr>gport := P2\<rparr>, s2)"
    "recv_words M 2 (g\<lparr>gport := P2\<rparr>) s2 = Some (take 2 (rxw s), g\<lparr>gport := P3\<rparr>, s3)"
    "txw s3 = txw s @ ?c @ ?c'" "rxw s3 = drop 2 (rxw s)"
    by (rule two_commands [OF assms, of ?c ?c']) (simp_all add: smove_packet_def lsu_smove_words_def)
  then show ?thesis
    unfolding lsu_smemcpy_def smove_packet_def by (simp add: Let_def)
qed

end

lemma core_accel_dev: "accel_dev (core_mmio b) (core_io b) core_tx core_rx (core_port b)"
  using core_stream_dev [of b]
  by (simp add: accel_dev_def accel_dev_axioms_def XLlFifo_iTxVacancy_def XLlFifo_ReadReg_def run_load32
      core_mmio_def core_io_def reg_consts)

interpretation coreaccel: accel_dev "core_mmio b" "core_io b" core_tx core_rx "core_port b" for b
  by (rule core_accel_dev)

section \<open>Properties\<close>

lemma core_response:
  "response_ready (core_mmio b) (core_io b) core_rx \<lparr>core_tx = t, core_rx = [x, y], core_len = l\<rparr>"
  by (auto simp: response_ready_def XLlFifo_iRxGetLen_def XLlFifo_iRxOccupancy_def XLlFifo_ReadReg_def run_load32
      core_mmio_def core_io_def reg_consts packet_ready_def intro!: exI [of _ 0])

definition core_accel :: "fifo_core accel" where
  "core_accel = \<lparr>gport = core_port 0, gfwd_id = 4, gret_id = 2\<rparr>"

text \<open>\<^verbatim>\<open>aport_write\<close> puts one packet on the port: a header whose go, write, select, length, tid and
  tdest fields are those asked for, and the value.\<close>

theorem aport_write_packet:
  assumes "accel_dev M I txw rxw (gport g)" "go < 2" "sel < 8" "ret_id < 256" "fwd_id < 256"
  shows "\<exists>g' s' h. aport_write M fwd_id ret_id go sel val g s = Some (g', s') \<and> txw s' = txw s @ [h, val] \<and>
    hdr_go h = go \<and> hdr_write h = 1 \<and> hdr_select h = sel \<and> hdr_length h = 1 \<and>
    hdr_tid h = ret_id \<and> hdr_tdest h = fwd_id"
  using accel_dev.write_packet [OF assms(1) refl, of fwd_id ret_id go sel val s]
    AP_HEAD_fields [of go 1 sel 1 ret_id fwd_id] assms(2-) by fastforce

theorem aport_write_packet_witness:
  "\<exists>g' s' h. aport_write (core_mmio 0) 4 2 1 3 99 core_accel \<lparr>core_tx = [], core_rx = [], core_len = []\<rparr>
      = Some (g', s') \<and> core_tx s' = [h, 99] \<and> hdr_tdest h = 4 \<and> hdr_select h = 3"
proof -
  have "accel_dev (core_mmio 0) (core_io 0) core_tx core_rx (gport core_accel)"
    using core_accel_dev [of 0] by (simp add: core_accel_def)
  from aport_write_packet [OF this, of 1 3 2 4 99 "\<lparr>core_tx = [], core_rx = [], core_len = []\<rparr>"]
  show ?thesis
    by fastforce
qed

text \<open>\<^verbatim>\<open>aport_read\<close> returns, with the second word of the response packet, and takes the response off
  the port.\<close>

theorem aport_read_response:
  assumes "accel_dev M I txw rxw (gport g)" "response_ready M I rxw s"
  shows "\<exists>g' s'. aport_read M fwd_id ret_id sel g s = Some (rxw s ! 1, g', s') \<and> rxw s' = drop 2 (rxw s)"
  using accel_dev.read_packet [OF assms(1) refl assms(2)] .

theorem aport_read_response_witness:
  "\<exists>g' s'. aport_read (core_mmio 0) 4 2 6 core_accel \<lparr>core_tx = [], core_rx = [7, 42], core_len = []\<rparr>
     = Some (42, g', s') \<and> core_rx s' = []"
proof -
  have "accel_dev (core_mmio 0) (core_io 0) core_tx core_rx (gport core_accel)"
    using core_accel_dev [of 0] by (simp add: core_accel_def)
  from aport_read_response [OF this core_response, of 4 2 6 "[]" 7 42 "[]"] show ?thesis
    by simp
qed

text \<open>C24: \<^verbatim>\<open>lsu_memcpy\<close> returns the destination after putting two packets on the port, a load from the
  translated source and then a store to the translated destination with a status request, each
  with a header that says go, write, registers 1 to 3, and with the whole 35-bit address in its
  words; it consumes the status packet.\<close>

theorem lsu_memcpy_packets:
  assumes "accel_dev M I txw rxw (gport g)" "response_ready M I rxw s"
    and "atran src < 2 ^ 35" "atran dst < 2 ^ 35"
  shows "\<exists>g' s' c c'. lsu_memcpy M atran dst src n g s = Some (dst, g', s') \<and>
    txw s' = txw s @ c @ c' \<and> rxw s' = drop 2 (rxw s) \<and>
    c = move_packet g READ_CH (atran src) 0 n \<and> c' = move_packet g WRITE_CH (atran dst) 1 n \<and>
    lsu_paddr c = atran src \<and> lsu_paddr c' = atran dst \<and>
    hdr_go (c ! 0) = 1 \<and> hdr_write (c ! 0) = 1 \<and> hdr_select (c ! 0) = 1 \<and> hdr_length (c ! 0) = 3 \<and>
    hdr_go (c' ! 0) = 1 \<and> hdr_write (c' ! 0) = 1 \<and> hdr_select (c' ! 0) = 1 \<and> hdr_length (c' ! 0) = 3"
proof -
  have "lsu_paddr (move_packet g READ_CH (atran src) 0 n) = atran src"
    "lsu_paddr (move_packet g WRITE_CH (atran dst) 1 n) = atran dst"
    using lsu_paddr_ACMD [OF assms(3), of 0 LSU_move] lsu_paddr_ACMD [OF assms(4), of 1 LSU_move]
    by (simp_all add: lsu_paddr_def move_packet_def lsu_move_words_def LSU_move_def)
  moreover have "hdr_go (move_packet g ch p r n ! 0) = 1 \<and> hdr_write (move_packet g ch p r n ! 0) = 1 \<and>
      hdr_select (move_packet g ch p r n ! 0) = 1 \<and> hdr_length (move_packet g ch p r n ! 0) = 3" for ch p r
    by (simp add: move_packet_def lsu_move_words_def lsu_head_fields)
  ultimately show ?thesis
    using accel_dev.memcpy_commands [OF assms(1) refl assms(2), of atran dst src n] by blast
qed

theorem lsu_memcpy_packets_witness:
  "\<exists>g' s'. lsu_memcpy (core_mmio 0) (\<lambda>a. a + 0x400000000) 0x2000 0x1000 64 core_accel
      \<lparr>core_tx = [], core_rx = [0, 0x80], core_len = []\<rparr> = Some (0x2000, g', s') \<and>
    length (core_tx s') = 8 \<and> core_rx s' = []"
proof -
  have "accel_dev (core_mmio 0) (core_io 0) core_tx core_rx (gport core_accel)"
    using core_accel_dev [of 0] by (simp add: core_accel_def)
  from lsu_memcpy_packets [OF this core_response [of 0 "[]" 0 "0x80" "[]"],
      where atran = "\<lambda>a. a + 0x400000000" and src = "0x1000" and dst = "0x2000" and n = 64]
  show ?thesis
    by (auto simp: move_packet_def lsu_move_words_def)
qed

end
