(* ===== verification/Alloc.thy ===== *)
theory Alloc
  imports Lime_Prelude
begin

text \<open>
  Memory for the accelerators and the standalone heap: the rounding macros and the checked
  allocation of \<^verbatim>\<open>src/shared/alloc.h\<close>, the scratchpad allocator of
  \<^verbatim>\<open>src/shared/standalone/accmem.c\<close>, the two break functions \<^verbatim>\<open>standalone/sbrk.c\<close> and
  \<^verbatim>\<open>standalone/heap.c\<close>, and the driver calls of \<^verbatim>\<open>src/shared/linux/accmem.c\<close>. Addresses are
  64-bit words, the linker symbols parameters.
\<close>

section \<open>Rounding\<close>

definition ALIGN_SZ :: u64 where
  "ALIGN_SZ = 128"

definition CEIL :: "u64 \<Rightarrow> u64 \<Rightarrow> u64" where
  "CEIL n s = ((n + (s - 1)) div s) * s"

definition FLOOR :: "u64 \<Rightarrow> u64 \<Rightarrow> u64" where
  "FLOOR n s = (n div s) * s"

lemma unat_CEIL:
  assumes "unat n + unat s \<le> 2 ^ 64" "0 < s"
  shows "unat (CEIL n s) = (unat n + unat s - 1) div unat s * unat s"
proof -
  have "s \<noteq> 0"
    using assms(2) by auto
  then have s: "unat (s - 1) = unat s - 1" "0 < unat s"
    by (simp_all add: unat_minus_one unat_gt_0)
  have "unat n + unat (s - 1) < 2 ^ 64"
    using assms(1) s by linarith
  then have "unat (n + (s - 1)) = unat n + unat (s - 1)"
    using unat_add_lem [of n "s - 1"] by simp
  then have a: "unat (n + (s - 1)) = unat n + unat s - 1"
    using s by linarith
  have "(unat n + unat s - 1) div unat s * unat s \<le> unat n + unat s - 1"
    by simp
  also have "\<dots> < 2 ^ 64"
    using assms(1) s(2) by linarith
  finally have "unat ((n + (s - 1)) div s) * unat s < 2 ^ 64"
    by (simp add: unat_div a)
  then show ?thesis
    using unat_mult_lem [of "(n + (s - 1)) div s" s] by (simp add: CEIL_def unat_div a)
qed

lemma CEIL_bounds:
  assumes "unat n + unat s \<le> 2 ^ 64" "0 < s"
  shows "unat n \<le> unat (CEIL n s)" "unat (CEIL n s) < unat n + unat s" "unat s dvd unat (CEIL n s)"
proof -
  define k where "k = (unat n + unat s - 1) div unat s"
  have s: "0 < unat s"
    using assms(2) by (simp add: word_less_nat_alt)
  have c: "unat (CEIL n s) = k * unat s"
    using unat_CEIL [OF assms] by (simp add: k_def)
  have "unat n + unat s - 1 = k * unat s + (unat n + unat s - 1) mod unat s"
    by (simp add: k_def)
  moreover have "(unat n + unat s - 1) mod unat s < unat s"
    using s by simp
  ultimately show "unat n \<le> unat (CEIL n s)" "unat (CEIL n s) < unat n + unat s"
    using s unfolding c by linarith+
  show "unat s dvd unat (CEIL n s)"
    unfolding c by simp
qed

lemma FLOOR_bounds:
  assumes "0 < s"
  shows "unat (FLOOR n s) \<le> unat n" "unat n < unat (FLOOR n s) + unat s" "unat s dvd unat (FLOOR n s)"
proof -
  have s: "0 < unat s"
    using assms by (simp add: word_less_nat_alt)
  have "unat (n div s) * unat s \<le> unat n"
    by (simp add: unat_div)
  also have "unat n < 2 ^ 64"
    using unsigned_less [of n] by simp
  finally have c: "unat (FLOOR n s) = unat n div unat s * unat s"
    using unat_mult_lem [of "n div s" s] by (simp add: FLOOR_def unat_div)
  show "unat (FLOOR n s) \<le> unat n" "unat s dvd unat (FLOOR n s)"
    unfolding c by simp_all
  have "unat n = unat n div unat s * unat s + unat n mod unat s" "unat n mod unat s < unat s"
    using s by simp_all
  then show "unat n < unat (FLOOR n s) + unat s"
    unfolding c by linarith
qed

section \<open>Scratchpad\<close>

definition SP_ADDR :: u64 where "SP_ADDR = 0x100000"
definition SP_SIZE :: u64 where "SP_SIZE = 0x100000"

definition SP_BEG :: "u64 \<Rightarrow> u64" where
  "SP_BEG heap_start = (heap_start AND NOT 0x3FFFFFFF) + SP_ADDR"

definition SP_END :: "u64 \<Rightarrow> u64" where
  "SP_END heap_start = (heap_start AND NOT 0x3FFFFFFF) + SP_ADDR + SP_SIZE"

text \<open>The static variable \<^verbatim>\<open>top\<close> is the state; a null pointer is 0.\<close>

definition sp_alloc :: "u64 \<Rightarrow> u64 \<Rightarrow> u64 \<Rightarrow> u64 \<times> u64" where
  "sp_alloc heap_start nbytes tp =
     (let tp = (if tp = 0 then SP_BEG heap_start else tp);
          ptr = tp
      in if ptr + nbytes > SP_END heap_start then (0, tp)
         else (ptr, tp + CEIL nbytes ALIGN_SZ))"

definition sp_free :: "u64 \<Rightarrow> u64 \<Rightarrow> u64" where
  "sp_free ptr tp = tp"

section \<open>The break functions\<close>

text \<open>Result, new break and whether \<^verbatim>\<open>errno\<close> becomes \<^verbatim>\<open>ENOMEM\<close>.\<close>

definition sys_sbrk :: "u64 \<Rightarrow> u64 \<Rightarrow> u64 \<Rightarrow> u64 \<Rightarrow> u64 \<times> u64 \<times> bool" where
  "sys_sbrk heap_start heap_end increment heap_ptr =
     (let heap_ptr = (if heap_ptr = 0 then heap_start else heap_ptr);
          base = heap_ptr;
          heap_ptr = heap_ptr + increment
      in if heap_ptr \<le> heap_end then (base, heap_ptr, False) else (- 1, heap_ptr, True))"

definition sbrk :: "u64 \<Rightarrow> u64 \<Rightarrow> u64 \<Rightarrow> u64 \<Rightarrow> u64 \<times> u64 \<times> bool" where
  "sbrk heap_start heap_end increment heap_ptr = sys_sbrk heap_start heap_end increment heap_ptr"

text \<open>The variant of \<^verbatim>\<open>heap.c\<close> takes a 32-bit signed size.\<close>

definition heap_sbrk :: "u64 \<Rightarrow> u64 \<Rightarrow> u32 \<Rightarrow> u64 \<Rightarrow> u64 \<times> u64 \<times> bool" where
  "heap_sbrk heap_beg heap_end nbytes heap_ptr =
     (let heap_ptr = (if heap_ptr = 0 then heap_beg else heap_ptr);
          base = heap_ptr;
          heap_ptr = heap_ptr + scast nbytes
      in if heap_ptr \<le> heap_end then (base, heap_ptr, False) else (- 1, heap_ptr, True))"

text \<open>\<^verbatim>\<open>chk_alloc\<close> ends the program on a null pointer, here \<open>None\<close>.\<close>

definition chk_alloc :: "u64 \<Rightarrow> unit option" where
  "chk_alloc aptr = (if aptr = 0 then None else Some ())"

section \<open>Driver calls on Linux\<close>

text \<open>
  The driver behind \<^verbatim>\<open>/dev/lmalloc\<close>: what \<^verbatim>\<open>open\<close> returns, the \<^verbatim>\<open>ioctl\<close> (result and the contents of
  the union it was given) and \<^verbatim>\<open>mmap\<close>. The union shares its one word between the virtual
  address that goes in and the physical address that comes out.
\<close>

datatype lma_cmd = cmd_tran | cmd_free

record 'k lma_drv =
  drv_open :: "'k \<Rightarrow> int \<times> 'k"
  drv_ioctl :: "int \<Rightarrow> lma_cmd \<Rightarrow> u64 \<Rightarrow> 'k \<Rightarrow> int \<times> u64 \<times> 'k"
  drv_mmap :: "int \<Rightarrow> u64 \<Rightarrow> 'k \<Rightarrow> u64 \<times> 'k"

definition lma_tran :: "'k lma_drv \<Rightarrow> int \<Rightarrow> u64 \<Rightarrow> 'k \<Rightarrow> int \<times> u64 \<times> 'k" where
  "lma_tran D fd addr k = drv_ioctl D fd cmd_tran addr k"

definition lma_alloc :: "'k lma_drv \<Rightarrow> int \<Rightarrow> u64 \<Rightarrow> 'k \<Rightarrow> int \<times> u64 \<times> 'k" where
  "lma_alloc D fd sz k =
     (let (addr, k) = drv_mmap D fd sz k in if addr = - 1 then (-1, addr, k) else (0, addr, k))"

definition lma_free :: "'k lma_drv \<Rightarrow> int \<Rightarrow> u64 \<Rightarrow> 'k \<Rightarrow> int \<times> 'k" where
  "lma_free D fd addr k = (let (ret, u, k) = drv_ioctl D fd cmd_free addr k in (ret, k))"

definition open_once :: "'k lma_drv \<Rightarrow> int \<Rightarrow> 'k \<Rightarrow> int \<times> 'k" where
  "open_once D fd k = (if fd = 0 then drv_open D k else (fd, k))"

definition addr_tran :: "'k lma_drv \<Rightarrow> u64 \<Rightarrow> int \<Rightarrow> 'k \<Rightarrow> u64 \<times> int \<times> 'k" where
  "addr_tran D addr fd k =
     (let (fd, k) = open_once D fd k;
          (ret, paddr, k) = lma_tran D fd addr k
      in (paddr, fd, k))"

definition cm_alloc :: "'k lma_drv \<Rightarrow> u64 \<Rightarrow> int \<Rightarrow> 'k \<Rightarrow> u64 \<times> int \<times> 'k" where
  "cm_alloc D nbytes fd k =
     (let (fd, k) = open_once D fd k;
          (ret, ptr, k) = lma_alloc D fd nbytes k
      in if ret < 0 then (0, fd, k) else (ptr, fd, k))"

definition cm_free :: "'k lma_drv \<Rightarrow> u64 \<Rightarrow> int \<Rightarrow> 'k \<Rightarrow> int \<times> 'k" where
  "cm_free D ptr fd k =
     (let (fd, k) = open_once D fd k;
          (ret, k) = lma_free D fd ptr k
      in (fd, k))"

definition linux_sp_alloc :: "u64 \<Rightarrow> u64" where
  "linux_sp_alloc nbytes = 0"

section \<open>Sequences of scratchpad requests\<close>

fun sp_run :: "u64 \<Rightarrow> u64 list \<Rightarrow> u64 \<Rightarrow> (u64 \<times> u64) list" where
  "sp_run hs [] tp = []"
| "sp_run hs (n # ns) tp = (let (p, tp) = sp_alloc hs n tp in (p, n) # sp_run hs ns tp)"

text \<open>The region does not wrap around: the base is a 1 GiB boundary below the last one.\<close>

definition sp_base :: "u64 \<Rightarrow> bool" where
  "sp_base hs \<longleftrightarrow> unat (hs AND NOT 0x3FFFFFFF) + 0x300000 < 2 ^ 64"

definition sp_top_ok :: "u64 \<Rightarrow> u64 \<Rightarrow> bool" where
  "sp_top_ok hs tp \<longleftrightarrow> unat (SP_BEG hs) \<le> unat tp \<and> unat tp \<le> unat (SP_END hs) \<and> 128 dvd unat tp"

lemma sp_region:
  assumes "sp_base hs"
  shows "unat (SP_END hs) = unat (SP_BEG hs) + 0x100000" "unat (SP_BEG hs) \<ge> 0x100000"
    "unat (SP_END hs) + 0x100000 < 2 ^ 64" "128 dvd unat (SP_BEG hs)" "128 dvd unat (SP_END hs)"
proof -
  define b where "b = hs AND NOT 0x3FFFFFFF"
  have b: "unat b + 0x300000 < 2 ^ 64"
    using assms by (simp add: sp_base_def b_def)
  have one: "unat (b + 0x100000) = unat b + 0x100000"
    using b unat_add_lem [of b "0x100000"] by simp
  have two: "unat (b + 0x100000 + 0x100000) = unat b + 0x200000"
    using b one unat_add_lem [of "b + 0x100000" "0x100000"] by simp
  have "NOT 0x3FFFFFFF = (NOT (mask 30) :: u64)"
    by (simp add: mask_eq_exp_minus_1)
  then have "b AND mask 7 = 0"
    by (auto simp: b_def bit_eq_iff bit_simps)
  then have "unat b mod 2 ^ 7 = 0"
    by (metis take_bit_eq_mask take_bit_eq_mod unsigned_take_bit_eq unsigned_0)
  then have d: "128 dvd unat b"
    by (simp add: dvd_eq_mod_eq_0)
  show "unat (SP_END hs) = unat (SP_BEG hs) + 0x100000" "unat (SP_BEG hs) \<ge> 0x100000"
    "unat (SP_END hs) + 0x100000 < 2 ^ 64" "128 dvd unat (SP_BEG hs)" "128 dvd unat (SP_END hs)"
    using one two b d unfolding SP_BEG_def SP_END_def SP_ADDR_def SP_SIZE_def b_def [symmetric]
    by (simp_all add: dvd_add)
qed

lemma sp_step:
  assumes "sp_base hs" "sp_top_ok hs tp" "n \<le> SP_SIZE"
  shows "sp_top_ok hs (snd (sp_alloc hs n tp))" "unat tp \<le> unat (snd (sp_alloc hs n tp))"
    and "fst (sp_alloc hs n tp) \<noteq> 0 \<Longrightarrow> fst (sp_alloc hs n tp) = tp \<and>
      unat tp + unat n \<le> unat (SP_END hs) \<and> unat tp + unat n \<le> unat (snd (sp_alloc hs n tp))"
proof -
  note r = sp_region [OF assms(1)]
  have t: "unat (SP_BEG hs) \<le> unat tp" "unat tp \<le> unat (SP_END hs)" "128 dvd unat tp"
    using assms(2) by (simp_all add: sp_top_ok_def)
  have n: "unat n \<le> 0x100000"
    using assms(3) by (simp add: SP_SIZE_def word_le_nat_alt)
  have nz: "tp \<noteq> 0"
    using t(1) r(2) by auto
  have add: "unat (tp + n) = unat tp + unat n"
    using t(2) n r(3) unat_add_lem [of tp n] by simp
  note c = CEIL_bounds [of n ALIGN_SZ]
  have c: "unat n \<le> unat (CEIL n ALIGN_SZ)" "128 dvd unat (CEIL n ALIGN_SZ)" "unat (CEIL n ALIGN_SZ) < unat n + 128"
    using c n by (simp_all add: ALIGN_SZ_def)
  show "sp_top_ok hs (snd (sp_alloc hs n tp))" "unat tp \<le> unat (snd (sp_alloc hs n tp))"
    "fst (sp_alloc hs n tp) \<noteq> 0 \<Longrightarrow> fst (sp_alloc hs n tp) = tp \<and>
      unat tp + unat n \<le> unat (SP_END hs) \<and> unat tp + unat n \<le> unat (snd (sp_alloc hs n tp))"
  proof (atomize(full), cases "tp + n \<le> SP_END hs")
    case True
    then have fits: "unat tp + unat n \<le> unat (SP_END hs)"
      using add by (simp add: word_le_nat_alt)
    have d: "128 dvd unat tp + unat (CEIL n ALIGN_SZ)"
      using t(3) c(2) by simp
    have "unat tp + unat (CEIL n ALIGN_SZ) < unat (SP_END hs) + 128"
      using fits c(3) by linarith
    with d r(5) have le: "unat tp + unat (CEIL n ALIGN_SZ) \<le> unat (SP_END hs)"
      by (elim dvdE) simp
    then have "unat (tp + CEIL n ALIGN_SZ) = unat tp + unat (CEIL n ALIGN_SZ)"
      using r(3) unat_add_lem [of tp "CEIL n ALIGN_SZ"] by simp
    then show "sp_top_ok hs (snd (sp_alloc hs n tp)) \<and> unat tp \<le> unat (snd (sp_alloc hs n tp)) \<and>
        (fst (sp_alloc hs n tp) \<noteq> 0 \<longrightarrow> fst (sp_alloc hs n tp) = tp \<and>
          unat tp + unat n \<le> unat (SP_END hs) \<and> unat tp + unat n \<le> unat (snd (sp_alloc hs n tp)))"
      using True nz d le t(1) fits c(1) by (auto simp: sp_alloc_def sp_top_ok_def Let_def)
  next
    case False
    then show "sp_top_ok hs (snd (sp_alloc hs n tp)) \<and> unat tp \<le> unat (snd (sp_alloc hs n tp)) \<and>
        (fst (sp_alloc hs n tp) \<noteq> 0 \<longrightarrow> fst (sp_alloc hs n tp) = tp \<and>
          unat tp + unat n \<le> unat (SP_END hs) \<and> unat tp + unat n \<le> unat (snd (sp_alloc hs n tp)))"
      using nz assms(2) by (auto simp: sp_alloc_def Let_def)
  qed
qed

lemma sp_run_above:
  assumes "sp_base hs" "sp_top_ok hs tp" "\<forall>n\<in>set ns. n \<le> SP_SIZE"
    and "(p, n) \<in> set (sp_run hs ns tp)" "p \<noteq> 0"
  shows "unat tp \<le> unat p \<and> unat p + unat n \<le> unat (SP_END hs) \<and> 128 dvd unat p"
  using assms
proof (induction ns arbitrary: tp)
  case (Cons x ns)
  have x: "x \<le> SP_SIZE"
    using Cons.prems(3) by simp
  note st = sp_step [OF Cons.prems(1,2) x]
  show ?case
  proof (cases "(p, n) = (fst (sp_alloc hs x tp), x)")
    case True
    then show ?thesis
      using st(3) Cons.prems(2,5) by (auto simp: sp_top_ok_def)
  next
    case False
    then have "(p, n) \<in> set (sp_run hs ns (snd (sp_alloc hs x tp)))"
      using Cons.prems(4) by (auto simp: Let_def split_beta)
    then show ?thesis
      using Cons.IH [OF Cons.prems(1) st(1)] Cons.prems(3,5) st(2) by auto
  qed
qed simp

definition block_before :: "u64 \<times> u64 \<Rightarrow> u64 \<times> u64 \<Rightarrow> bool" where
  "block_before x y \<longleftrightarrow> fst x = 0 \<or> fst y = 0 \<or> unat (fst x) + unat (snd x) \<le> unat (fst y)"

lemma sp_run_sorted:
  assumes "sp_base hs" "sp_top_ok hs tp" "\<forall>n\<in>set ns. n \<le> SP_SIZE"
  shows "sorted_wrt block_before (sp_run hs ns tp)"
  using assms
proof (induction ns arbitrary: tp)
  case (Cons x ns)
  have x: "x \<le> SP_SIZE"
    using Cons.prems(3) by simp
  note st = sp_step [OF Cons.prems(1,2) x]
  have "block_before (fst (sp_alloc hs x tp), x) (p, n)"
    if "(p, n) \<in> set (sp_run hs ns (snd (sp_alloc hs x tp)))" for p n
    using sp_run_above [OF Cons.prems(1) st(1) _ that] Cons.prems(3) st(3)
    by (cases "p = 0"; cases "fst (sp_alloc hs x tp) = 0") (auto simp: block_before_def)
  then show ?case
    using Cons.IH [OF Cons.prems(1) st(1)] Cons.prems(3) by (auto simp: Let_def split_beta)
qed simp

lemma sp_first: "sp_base hs \<Longrightarrow> sp_top_ok hs (SP_BEG hs)"
  using sp_region [of hs] by (simp add: sp_top_ok_def)

lemma sp_run_0: "sp_base hs \<Longrightarrow> sp_run hs ns 0 = sp_run hs ns (SP_BEG hs)"
  using sp_region(2) [of hs] by (cases ns) (auto simp: sp_alloc_def Let_def)

section \<open>Properties\<close>

text \<open>C26: The blocks the scratchpad allocator hands out for any sequence of requests (of at most the
  size of the scratchpad each) lie inside the scratchpad, are aligned to the cache line and do not
  overlap.\<close>

theorem sp_alloc_disjoint:
  assumes "sp_base hs" "\<forall>n\<in>set ns. n \<le> SP_SIZE"
  shows "sorted_wrt block_before (sp_run hs ns 0) \<and>
    (\<forall>(p, n)\<in>set (sp_run hs ns 0). p \<noteq> 0 \<longrightarrow>
      unat (SP_BEG hs) \<le> unat p \<and> unat p + unat n \<le> unat (SP_END hs) \<and> 128 dvd unat p)"
  using sp_run_sorted [OF assms(1) sp_first [OF assms(1)] assms(2)]
    sp_run_above [OF assms(1) sp_first [OF assms(1)] assms(2)] sp_run_0 [OF assms(1)]
  by auto

theorem sp_alloc_disjoint_witness:
  "sorted_wrt block_before (sp_run 0 [5, 0x80000, 0x80000, 300] 0)"
  using sp_alloc_disjoint [of 0 "[5, 0x80000, 0x80000, 300]"] by (simp add: sp_base_def SP_SIZE_def)

text \<open>\<^verbatim>\<open>CEIL\<close> gives the least multiple not below its argument and \<^verbatim>\<open>FLOOR\<close> the greatest not above it,
  as long as the sum in \<^verbatim>\<open>CEIL\<close> does not wrap.\<close>

theorem CEIL_FLOOR_bounds:
  assumes "unat n + unat s \<le> 2 ^ 64" "0 < s"
  shows "unat n \<le> unat (CEIL n s) \<and> unat (CEIL n s) < unat n + unat s \<and> unat s dvd unat (CEIL n s) \<and>
    unat (FLOOR n s) \<le> unat n \<and> unat n < unat (FLOOR n s) + unat s \<and> unat s dvd unat (FLOOR n s)"
  using CEIL_bounds [OF assms] FLOOR_bounds [OF assms(2)] by simp

theorem CEIL_FLOOR_bounds_witness:
  "unat (CEIL 1000 128) < 1128 \<and> 128 dvd unat (FLOOR 1000 128)"
  using CEIL_FLOOR_bounds [of 1000 128] by simp

text \<open>A failed \<^verbatim>\<open>sbrk\<close> has already moved the break: after a request that does not fit, every later
  request that does not lower the break (and does not wrap the address space) fails as well, even
  one that would have fitted before.\<close>

theorem sbrk_failure_sticks:
  assumes "snd (snd (sys_sbrk hs he inc hp))" "hp' = fst (snd (sys_sbrk hs he inc hp))"
    and "unat hp' + unat inc' < 2 ^ 64" "hp' \<noteq> 0"
  shows "fst (sys_sbrk hs he inc' hp') = - 1 \<and> snd (snd (sys_sbrk hs he inc' hp'))"
proof -
  have "\<not> hp' \<le> he"
    using assms(1,2) by (auto simp: sys_sbrk_def Let_def split: if_splits)
  moreover have "unat (hp' + inc') = unat hp' + unat inc'"
    using assms(3) unat_add_lem [of hp' inc'] by simp
  ultimately have "\<not> hp' + inc' \<le> he"
    by (simp add: word_le_nat_alt)
  then show ?thesis
    using assms(4) by (simp add: sys_sbrk_def Let_def)
qed

theorem sbrk_failure_sticks_witness:
  "fst (sys_sbrk 16 32 4 48) = - 1 \<and> snd (snd (sys_sbrk 16 32 4 48))"
proof -
  have "snd (snd (sys_sbrk 16 32 32 16))" "48 = fst (snd (sys_sbrk 16 32 32 16))"
    by (simp_all add: sys_sbrk_def Let_def)
  from sbrk_failure_sticks [OF this, of 4] show ?thesis
    by simp
qed

text \<open>
  When the driver call of \<^verbatim>\<open>addr_tran\<close> fails and leaves the union alone, the result is the
  virtual address itself, not the null physical address the function starts from.
\<close>

lemma addr_tran_failure:
  assumes "drv_ioctl D (fst (open_once D fd k)) cmd_tran addr (snd (open_once D fd k)) = (ret, addr, k')" "ret < 0"
  shows "addr_tran D addr fd k = (addr, fst (open_once D fd k), k')"
  using assms(1) by (simp add: addr_tran_def lma_tran_def split_beta Let_def)

text \<open>A size close to the end of the address space wraps around the check of \<^verbatim>\<open>sp_alloc\<close>.\<close>

lemma sp_alloc_wraps: "fst (sp_alloc 0 (- 64) 0) = SP_BEG 0"
  by (simp add: sp_alloc_def SP_BEG_def SP_END_def SP_ADDR_def SP_SIZE_def Let_def)

end
