(* ===== verification/Lmalloc.thy ===== *)
theory Lmalloc
  imports Alloc
begin

text \<open>
  The kernel driver for accelerator memory, \<^verbatim>\<open>src/linux/drivers/lmalloc.c\<close>: mapping the device
  allocates a DMA buffer, a free request or the release of the file gives it back, and a
  translation request follows the page table. The kernel functions are parameters through
  what they return: each operation takes the outcomes of the calls it makes. The properties
  are invariants of the executions of the processes that share one open file, whose mappings
  the kernel unmaps, divides and copies without asking the driver.
\<close>

section \<open>Driver and kernel state\<close>

record lma_alloc_inf =
  cpu_addr :: u64
  dma_addr :: u64
  lma_size :: u64
  dma_attrs :: u64

text \<open>A mapping of the process; \<open>None\<close> stands for the private data of some other driver.\<close>

record vma =
  vm_start :: u64
  vm_end :: u64
  vm_private_data :: "lma_alloc_inf option"

text \<open>
  \<open>live\<close> are the DMA buffers allocated and not freed, \<open>bad_free\<close> records a free of a buffer
  that is not live. The mappings are in ascending order.
\<close>

record lma_kern =
  alloc_list :: "lma_alloc_inf list"
  vmas :: "vma list"
  live :: "lma_alloc_inf list"
  bad_free :: bool

definition ENOMEM :: int where "ENOMEM = 12"
definition EACCES :: int where "EACCES = 13"
definition EINVAL :: int where "EINVAL = 22"
definition EINTR :: int where "EINTR = 4"

definition PAGE_MASK :: u64 where
  "PAGE_MASK = NOT 0xFFF"

definition PAGE_ALIGN :: "u64 \<Rightarrow> u64" where
  "PAGE_ALIGN n = (n + 0xFFF) AND PAGE_MASK"

definition LMA_ATTRS :: u64 where
  "LMA_ATTRS = push_bit 6 1 OR push_bit 4 1 OR push_bit 5 1"

definition dma_free_attrs :: "lma_alloc_inf \<Rightarrow> lma_kern \<Rightarrow> lma_kern" where
  "dma_free_attrs i k =
     (if i \<in> set (live k) then k\<lparr>live := remove1 i (live k)\<rparr> else k\<lparr>bad_free := True\<rparr>)"

definition find_vma :: "lma_kern \<Rightarrow> u64 \<Rightarrow> vma option" where
  "find_vma k a = find (\<lambda>v. a < vm_end v) (vmas k)"

section \<open>File operations\<close>

definition lma_open :: "bool \<Rightarrow> lma_kern \<Rightarrow> int \<times> lma_kern" where
  "lma_open kz_ok k = (if \<not> kz_ok then (- ENOMEM, k) else (0, k\<lparr>alloc_list := []\<rparr>))"

definition lma_mmap ::
  "bool \<Rightarrow> (u64 \<times> u64) option \<Rightarrow> int \<Rightarrow> vma \<Rightarrow> lma_kern \<Rightarrow> int \<times> lma_kern" where
  "lma_mmap kz_ok dma mmap_ret v k =
     (if \<not> kz_ok then (- ENOMEM, k)
      else case dma of
          None \<Rightarrow> (- ENOMEM, k)
        | Some (cpu, bus) \<Rightarrow>
            (let i = \<lparr>cpu_addr = cpu, dma_addr = bus, lma_size = PAGE_ALIGN (vm_end v - vm_start v),
                      dma_attrs = LMA_ATTRS\<rparr>;
                 k = k\<lparr>live := i # live k\<rparr>
             in if mmap_ret < 0 then (mmap_ret, dma_free_attrs i k)
                else (0, k\<lparr>vmas := insort_key vm_start (v\<lparr>vm_private_data := Some i\<rparr>) (vmas k),
                           alloc_list := i # alloc_list k\<rparr>)))"

text \<open>
  The translation case: \<open>follow\<close> is \<^verbatim>\<open>follow_pfn\<close>, the error code or the frame number. Result
  and the contents of the union afterwards.
\<close>

definition ioctl_tran :: "(vma \<Rightarrow> u64 \<Rightarrow> int + u64) \<Rightarrow> u64 \<Rightarrow> lma_kern \<Rightarrow> int \<times> u64" where
  "ioctl_tran follow a k =
     (let start = a AND PAGE_MASK;
          offset = a AND NOT PAGE_MASK
      in case find_vma k start of
           None \<Rightarrow> (- EACCES, a)
         | Some v \<Rightarrow>
             (case follow v start of
                Inl e \<Rightarrow> (e, a)
              | Inr pfn \<Rightarrow> (0, push_bit 12 pfn + offset)))"

text \<open>
  The free case. The result of \<^verbatim>\<open>find_vma\<close> is used without a check, and the private data of
  whatever mapping is found is taken for a buffer: both faults are \<open>None\<close>.
\<close>

definition ioctl_free :: "bool \<Rightarrow> int \<Rightarrow> u64 \<Rightarrow> lma_kern \<Rightarrow> (int \<times> lma_kern) option" where
  "ioctl_free killed munmap_ret a k =
     (let start = a AND PAGE_MASK
      in if killed then Some (- EINTR, k)
         else case find_vma k start of
             None \<Rightarrow> None
           | Some v \<Rightarrow>
               (if vm_start v \<le> start \<and> vm_end v > start then
                  (if munmap_ret < 0 then Some (munmap_ret, k)
                   else (let k = k\<lparr>vmas := remove1 v (vmas k)\<rparr>
                         in case vm_private_data v of
                              None \<Rightarrow> None
                            | Some i \<Rightarrow>
                                (let k = dma_free_attrs i k
                                 in Some (0, k\<lparr>alloc_list := remove1 i (alloc_list k)\<rparr>))))
                else Some (- EACCES, k)))"

text \<open>
  The dispatch on the command number, with the outcomes of copying the argument in and out:
  translation copies both ways, free only in.
\<close>

definition lma_ioctl ::
  "(vma \<Rightarrow> u64 \<Rightarrow> int + u64) \<Rightarrow> bool \<Rightarrow> bool \<Rightarrow> bool \<Rightarrow> int \<Rightarrow> lma_cmd option \<Rightarrow> u64 \<Rightarrow> lma_kern \<Rightarrow>
   (int \<times> u64 \<times> lma_kern) option" where
  "lma_ioctl follow in_ok out_ok killed munmap_ret c a k =
     (if \<not> in_ok then Some (- EACCES, a, k)
      else case c of
          None \<Rightarrow> Some (- EINVAL, a, k)
        | Some cmd_tran \<Rightarrow>
            (let (ret, p) = ioctl_tran follow a k
             in if ret \<noteq> 0 then Some (ret, a, k)
                else if \<not> out_ok then Some (- EACCES, a, k) else Some (0, p, k))
        | Some cmd_free \<Rightarrow>
            (case ioctl_free killed munmap_ret a k of
               None \<Rightarrow> None
             | Some (ret, k) \<Rightarrow> Some (ret, a, k)))"

fun release_list :: "lma_alloc_inf list \<Rightarrow> lma_kern \<Rightarrow> lma_kern" where
  "release_list [] k = k"
| "release_list (i # is) k =
     release_list is ((dma_free_attrs i k)\<lparr>alloc_list := remove1 i (alloc_list k)\<rparr>)"

definition lma_release :: "lma_kern \<Rightarrow> lma_kern" where
  "lma_release k = release_list (alloc_list k) k"

section \<open>Loading and unloading the module\<close>

text \<open>
  What the module has registered; the arguments are the outcomes of the registration calls.
  \<^verbatim>\<open>devno\<close> is unsigned, so the test \<^verbatim>\<open>devno < 0\<close> is never true.
\<close>

record lma_module =
  has_class :: bool
  has_chrdev :: bool
  has_device :: bool

definition lma_init :: "int option \<Rightarrow> u32 \<Rightarrow> int option \<Rightarrow> lma_module \<Rightarrow> int \<times> lma_module" where
  "lma_init class_err devno device_err m =
     (case class_err of
        Some e \<Rightarrow> (e, m)
      | None \<Rightarrow>
          (let m = m\<lparr>has_class := True\<rparr>
           in if devno < 0 then (sint devno, m\<lparr>has_class := False\<rparr>)
              else (let m = m\<lparr>has_chrdev := True\<rparr>
                    in case device_err of
                         Some e \<Rightarrow> (e, m\<lparr>has_chrdev := False, has_class := False\<rparr>)
                       | None \<Rightarrow> (0, m\<lparr>has_device := True\<rparr>))))"

definition lma_exit :: "lma_module \<Rightarrow> lma_module" where
  "lma_exit m = m\<lparr>has_device := False, has_chrdev := False, has_class := False\<rparr>"

section \<open>Sequences of operations\<close>

text \<open>
  The calls on one open file, one at a time: mappings whose buffer the DMA layer allocates
  afresh, frees and translations; and mappings that belong to others.
\<close>

inductive lma_step :: "lma_kern \<Rightarrow> lma_kern \<Rightarrow> bool" where
  mmap_step: "(\<And>c b. dma = Some (c, b) \<Longrightarrow> c \<notin> cpu_addr ` set (live k)) \<Longrightarrow>
     lma_step k (snd (lma_mmap kz_ok dma ret v k))"
| ioctl_step: "lma_ioctl follow in_ok out_ok killed ret c a k = Some (r, a', k') \<Longrightarrow> lma_step k k'"
| other_step: "vm_private_data v = None \<Longrightarrow> lma_step k (k\<lparr>vmas := insort_key vm_start v (vmas k)\<rparr>)"

text \<open>
  What the kernel does to the mappings without asking the driver, which installs no
  operations on them. Unmapping the range from \<open>a\<close> to \<open>b\<close> cuts it out of every mapping; the
  part before and the part after it stay, both with the private data. A call on a part of a
  mapping, such as \<^verbatim>\<open>mprotect\<close>, divides it at the boundary \<open>a\<close>, and \<^verbatim>\<open>fork\<close> copies all mappings.
\<close>

definition vma_cut :: "u64 \<Rightarrow> u64 \<Rightarrow> vma \<Rightarrow> vma list" where
  "vma_cut a b v =
     (if vm_end v \<le> a \<or> b \<le> vm_start v then [v]
      else (if vm_start v < a then [v\<lparr>vm_end := a\<rparr>] else []) @
           (if b < vm_end v then [v\<lparr>vm_start := b\<rparr>] else []))"

definition munmap_range :: "u64 \<Rightarrow> u64 \<Rightarrow> lma_kern \<Rightarrow> lma_kern" where
  "munmap_range a b k = k\<lparr>vmas := concat (map (vma_cut a b) (vmas k))\<rparr>"

text \<open>A mapping of the driver is divided when a part is left on both sides.\<close>

definition divides :: "u64 \<Rightarrow> u64 \<Rightarrow> lma_kern \<Rightarrow> bool" where
  "divides a b k \<longleftrightarrow> (\<exists>v\<in>set (vmas k). vm_private_data v \<noteq> None \<and> vm_start v < a \<and> b < vm_end v)"

definition lma_fresh :: "lma_kern \<Rightarrow> bool" where
  "lma_fresh k \<longleftrightarrow> alloc_list k = [] \<and> live k = [] \<and> \<not> bad_free k \<and> (\<forall>v\<in>set (vmas k). vm_private_data v = None)"

text \<open>
  The executions of the processes that share the open file. In \<open>lma_run w (k, ps)\<close> the calling
  process has the mappings of \<open>k\<close> and the other ones those in \<open>ps\<close>; \<open>w\<close> says that so far no
  mapping of the driver was divided and none was copied by a fork. Dividing at \<open>a\<close> is
  unmapping the empty range at \<open>a\<close>.
\<close>

inductive lma_run :: "bool \<Rightarrow> lma_kern \<times> vma list list \<Rightarrow> bool" where
  run_open: "lma_fresh k \<Longrightarrow> lma_run True (snd (lma_open True k), [])"
| run_call: "lma_run w (k, ps) \<Longrightarrow> lma_step k k' \<Longrightarrow> lma_run w (k', ps)"
| run_munmap: "lma_run w (k, ps) \<Longrightarrow> a \<le> b \<Longrightarrow> lma_run (w \<and> \<not> divides a b k) (munmap_range a b k, ps)"
| run_fork: "lma_run w (k, ps) \<Longrightarrow> 
     lma_run (w \<and> (\<forall>v\<in>set (vmas k). vm_private_data v = None)) (k, vmas k # ps)"
| run_switch: "lma_run w (k, ps) \<Longrightarrow> i < length ps \<Longrightarrow> lma_run w (k\<lparr>vmas := ps ! i\<rparr>, ps[i := vmas k])"

text \<open>The states of the executions that divide and copy no mapping of the driver.\<close>

definition lma_reach :: "lma_kern \<Rightarrow> bool" where
  "lma_reach k \<longleftrightarrow> (\<exists>ps. lma_run True (k, ps))"

text \<open>What holds in every execution, and what holds in addition while no buffer has two mappings.\<close>

definition lma_base :: "lma_kern \<Rightarrow> bool" where
  "lma_base k \<longleftrightarrow> live k = alloc_list k \<and> distinct (map cpu_addr (alloc_list k))"

text \<open>The number of mappings that refer to a buffer.\<close>

definition holders :: "lma_alloc_inf \<Rightarrow> vma list \<Rightarrow> nat" where
  "holders i vs = length (filter (\<lambda>v. vm_private_data v = Some i) vs)"

definition lma_inv :: "lma_kern \<Rightarrow> vma list list \<Rightarrow> bool" where
  "lma_inv k ps \<longleftrightarrow> \<not> bad_free k \<and>
     (\<forall>i. holders i (vmas k) + sum_list (map (holders i) ps) \<le> of_bool (i \<in> set (alloc_list k)))"

section \<open>The invariant\<close>

lemma holders_simps [simp]:
  "holders i [] = 0" "holders i (v # vs) = of_bool (vm_private_data v = Some i) + holders i vs"
  "holders i (vs @ ws) = holders i vs + holders i ws"
  by (simp_all add: holders_def)

lemma holders_insort [simp]: "holders i (insort_key f v vs) = holders i (v # vs)"
  by (induction vs) auto

lemma holders_remove1: "v \<in> set vs \<Longrightarrow> holders i vs = of_bool (vm_private_data v = Some i) + holders i (remove1 v vs)"
  by (induction vs) auto

lemma holders_pos: "v \<in> set vs \<Longrightarrow> vm_private_data v = Some i \<Longrightarrow> 0 < holders i vs"
  by (auto simp: holders_def filter_empty_conv)

lemma holders_none: "\<forall>v\<in>set vs. vm_private_data v = None \<Longrightarrow> holders i vs = 0"
  by (simp add: holders_def filter_empty_conv)

lemma holders_cut:
  assumes "\<forall>v\<in>set vs. vm_private_data v \<noteq> None \<longrightarrow> \<not> (vm_start v < a \<and> b < vm_end v)"
  shows "holders i (concat (map (vma_cut a b) vs)) \<le> holders i vs"
  using assms
proof (induction vs)
  case (Cons v vs)
  then have "holders i (vma_cut a b v) \<le> of_bool (vm_private_data v = Some i)"
    by (auto simp: vma_cut_def)
  with Cons show ?case
    by (simp add: add_mono)
qed simp

lemma find_vma_in: "find_vma k a = Some v \<Longrightarrow> v \<in> set (vmas k) \<and> a < vm_end v"
  by (auto simp: find_vma_def find_Some_iff)

lemma distinct_map_remove1: "distinct (map f xs) \<Longrightarrow> distinct (map f (remove1 x xs))"
  by (induction xs) (auto dest!: subsetD [OF set_remove1_subset])

lemma dma_free_attrs_list [simp]:
  "alloc_list (dma_free_attrs i k) = alloc_list k" "vmas (dma_free_attrs i k) = vmas k"
  by (simp_all add: dma_free_attrs_def)

text \<open>A free request leaves the state as it is or takes the buffer of one mapping out of it.\<close>

lemma ioctl_free_cases:
  assumes "ioctl_free killed ret a k = Some (r, k')"
  obtains "k' = k"
  | v i where "v \<in> set (vmas k)" "vm_private_data v = Some i"
      "k' = (dma_free_attrs i (k\<lparr>vmas := remove1 v (vmas k)\<rparr>))\<lparr>alloc_list := remove1 i (alloc_list k)\<rparr>"
proof (cases "k' = k")
  case False
  then obtain v i where v: "find_vma k (a AND PAGE_MASK) = Some v" "vm_private_data v = Some i"
    and "k' = (dma_free_attrs i (k\<lparr>vmas := remove1 v (vmas k)\<rparr>))\<lparr>alloc_list := remove1 i (alloc_list k)\<rparr>"
    using assms by (simp add: ioctl_free_def Let_def split: if_splits option.splits)
  with that(2) [of v i] find_vma_in [OF v(1)] show ?thesis
    by simp
qed (rule that(1))

lemma lma_ioctl_cases:
  assumes "lma_ioctl follow in_ok out_ok killed ret c a k = Some (r, a', k')"
  obtains "k' = k" | r' where "ioctl_free killed ret a k = Some (r', k')"
  using assms
  by (auto simp: lma_ioctl_def Let_def split: if_splits option.splits lma_cmd.splits prod.splits)

lemma base_free: "lma_base k \<Longrightarrow> ioctl_free killed ret a k = Some (r, k') \<Longrightarrow> lma_base k'"
  by (elim ioctl_free_cases) (auto simp: lma_base_def dma_free_attrs_def distinct_map_remove1 remove1_idem)

lemma base_step: "lma_step k k' \<Longrightarrow> lma_base k \<Longrightarrow> lma_base k'"
proof (induction rule: lma_step.induct)
  case (mmap_step dma k kz_ok ret v)
  then show ?case
    by (auto simp: lma_mmap_def lma_base_def dma_free_attrs_def Let_def split: option.splits)
next
  case (ioctl_step follow in_ok out_ok killed ret c a k r a' k')
  then show ?case
    by (elim lma_ioctl_cases) (auto intro: base_free)
qed (simp add: lma_base_def)

lemma base_run: "lma_run w (k, ps) \<Longrightarrow> lma_base k"
proof (induction w "(k, ps)" arbitrary: k ps rule: lma_run.induct)
  case (run_open k)
  then show ?case
    by (simp add: lma_fresh_def lma_open_def lma_base_def)
next
  case (run_munmap w k ps a b)
  then show ?case
    by (simp add: lma_base_def munmap_range_def)
next
  case (run_switch w k ps i)
  then show ?case
    by (simp add: lma_base_def)
qed (auto intro: base_step)

lemma inv_holds:
  assumes "lma_inv k ps" "v \<in> set (vmas k)" "vm_private_data v = Some i"
  shows "i \<in> set (alloc_list k)"
proof -
  have "holders i (vmas k) + sum_list (map (holders i) ps) \<le> of_bool (i \<in> set (alloc_list k))"
    using assms(1) by (simp add: lma_inv_def)
  then show ?thesis
    using holders_pos [OF assms(2,3)] by (cases "i \<in> set (alloc_list k)") simp_all
qed

lemma inv_free:
  assumes base: "lma_base k" and inv: "lma_inv k ps" and "ioctl_free killed ret a k = Some (r, k')"
  shows "lma_inv k' ps"
  using assms(3)
proof (cases rule: ioctl_free_cases)
  case (2 v i)
  have le: "holders j (vmas k) + sum_list (map (holders j) ps) \<le> of_bool (j \<in> set (alloc_list k))" for j
    using inv by (simp add: lma_inv_def)
  have i: "i \<in> set (alloc_list k)"
    using inv 2(1,2) by (rule inv_holds)
  moreover have "distinct (alloc_list k)"
    using base by (simp add: lma_base_def distinct_map)
  moreover have "holders j (remove1 v (vmas k)) + sum_list (map (holders j) ps) \<le> of_bool (j \<in> set (remove1 i (alloc_list k)))" for j
    using le [of j] holders_remove1 [OF 2(1), of j] 2(2) i \<open>distinct (alloc_list k)\<close> by (auto split: if_splits)
  ultimately show ?thesis
    using base inv by (simp add: 2(3) lma_inv_def lma_base_def dma_free_attrs_def)
qed (use inv in simp)

lemma inv_mmap:
  assumes base: "lma_base k" and inv: "lma_inv k ps"
    and fresh: "\<And>c b. dma = Some (c, b) \<Longrightarrow> c \<notin> cpu_addr ` set (live k)"
  shows "lma_inv (snd (lma_mmap kz_ok dma ret v k)) ps"
proof (cases "kz_ok \<and> dma \<noteq> None \<and> 0 \<le> ret")
  case True
  then obtain c b where d: "dma = Some (c, b)"
    by auto
  define i where "i = \<lparr>cpu_addr = c, dma_addr = b, lma_size = PAGE_ALIGN (vm_end v - vm_start v),
    dma_attrs = LMA_ATTRS\<rparr>"
  have le: "holders j (vmas k) + sum_list (map (holders j) ps) \<le> of_bool (j \<in> set (alloc_list k))" for j
    using inv by (simp add: lma_inv_def)
  have "i \<notin> set (alloc_list k)"
    using fresh [OF d] base by (force simp: i_def lma_base_def)
  then have "of_bool (i = j) + (holders j (vmas k) + sum_list (map (holders j) ps)) \<le> of_bool (j = i \<or> j \<in> set (alloc_list k))" for j
    using le [of j] by (auto split: if_splits)
  then show ?thesis
    using inv True d by (simp add: lma_mmap_def lma_inv_def Let_def i_def [symmetric] add.assoc)
next
  case False
  then have "snd (lma_mmap kz_ok dma ret v k) = k"
    by (auto simp: lma_mmap_def dma_free_attrs_def Let_def split: option.splits)
  with inv show ?thesis
    by simp
qed

lemma inv_step:
  "lma_step k k' \<Longrightarrow> lma_base k \<Longrightarrow> lma_inv k ps \<Longrightarrow> lma_inv k' ps"
proof (induction rule: lma_step.induct)
  case (ioctl_step follow in_ok out_ok killed ret c a k r a' k')
  then show ?case
    by (elim lma_ioctl_cases) (auto intro: inv_free)
next
  case (other_step v k)
  then show ?case
    by (simp add: lma_inv_def)
qed (rule inv_mmap)

lemma inv_munmap:
  assumes "lma_inv k ps" "\<not> divides a b k"
  shows "lma_inv (munmap_range a b k) ps"
proof -
  have "holders i (concat (map (vma_cut a b) (vmas k))) \<le> holders i (vmas k)" for i
    using assms(2) by (intro holders_cut) (auto simp: divides_def)
  then show ?thesis
    using assms(1) unfolding lma_inv_def munmap_range_def
    by (metis (no_types, lifting) add_le_mono1 lma_kern.select_convs order_trans lma_kern.surjective lma_kern.update_convs(2))
qed

lemma sum_list_exchange:
  fixes f :: "'a \<Rightarrow> nat"
  shows "i < length xs \<Longrightarrow> f (xs ! i) + sum_list (map f (xs[i := x])) = f x + sum_list (map f xs)"
  using elem_le_sum_list [of i "map f xs"] by (simp add: map_update sum_list_update)

lemma inv_run: "lma_run w (k, ps) \<Longrightarrow> w \<Longrightarrow> lma_inv k ps"
proof (induction w "(k, ps)" arbitrary: k ps rule: lma_run.induct)
  case (run_open k)
  then show ?case
    by (simp add: lma_fresh_def lma_open_def lma_inv_def holders_none)
next
  case (run_call w k ps k')
  then show ?case
    using base_run inv_step by blast
next
  case (run_switch w k ps i)
  then show ?case
    by (simp add: lma_inv_def sum_list_exchange)
next
  case (run_fork w k ps)
  then show ?case
    by (simp add: lma_inv_def holders_none)
qed (simp add: inv_munmap)

lemma release_list_frees:
  "live k = xs \<Longrightarrow> alloc_list k = xs \<Longrightarrow> \<not> bad_free k \<Longrightarrow>
   live (release_list xs k) = [] \<and> alloc_list (release_list xs k) = [] \<and> \<not> bad_free (release_list xs k)"
  by (induction xs arbitrary: k) (simp_all add: dma_free_attrs_def)

section \<open>Properties\<close>

definition demo_kern :: lma_kern where
  "demo_kern = \<lparr>alloc_list = [], vmas = [\<lparr>vm_start = 0x1000, vm_end = 0x3000, vm_private_data = None\<rparr>],
     live = [], bad_free = False\<rparr>"

definition demo_vma :: vma where
  "demo_vma = \<lparr>vm_start = 0x8000, vm_end = 0xA000, vm_private_data = None\<rparr>"

lemma demo_run: "lma_run True (snd (lma_mmap True (Some (7, 9)) 0 demo_vma (snd (lma_open True demo_kern))), [])"
  by (rule run_call [OF run_open [of demo_kern] mmap_step])
    (simp_all add: lma_fresh_def demo_kern_def lma_open_def)

lemma demo_reach: "lma_reach (snd (lma_mmap True (Some (7, 9)) 0 demo_vma (snd (lma_open True demo_kern))))"
  using demo_run by (auto simp: lma_reach_def)

text \<open>C10: In every execution of mappings, frees, translations, unmappings of any range and forks on an open
  file, as long as no mapping of the driver is divided (a part unmapped or changed so that two pieces are
  left) and none is copied by a fork, no buffer is freed twice. While no buffer has been freed twice, in
  these and all other executions, the buffers on the file's list are exactly the live DMA buffers, and
  releasing the file frees all of them, each once: nothing leaks. A division or a fork leaves two mappings
  with one buffer, and freeing both frees it twice: \<open>lma_double_free\<close> below.\<close>

theorem lma_no_leak:
  assumes "lma_run whole (k, ps)"
  shows "(whole \<longrightarrow> \<not> bad_free k) \<and>
    (\<not> bad_free k \<longrightarrow> live k = alloc_list k \<and> distinct (alloc_list k) \<and>
       live (lma_release k) = [] \<and> \<not> bad_free (lma_release k))"
proof -
  have "lma_base k"
    using assms by (rule base_run)
  moreover have "whole \<Longrightarrow> \<not> bad_free k"
    using inv_run [OF assms] by (simp add: lma_inv_def)
  ultimately show ?thesis
    using release_list_frees [of k "alloc_list k"] by (auto simp: lma_base_def lma_release_def distinct_map)
qed

theorem lma_no_leak_witness:
  "live (lma_release (snd (lma_mmap True (Some (7, 9)) 0 demo_vma (snd (lma_open True demo_kern))))) = []"
  using lma_no_leak [OF demo_run] by simp

text \<open>C27: In a reachable state, where no mapping of the driver was divided or copied, a free request for an
  address inside one of the driver's mappings removes that mapping and frees its buffer and no other one.\<close>

theorem lma_free_exact:
  assumes "lma_reach k" "find_vma k (a AND PAGE_MASK) = Some v" "vm_start v \<le> a AND PAGE_MASK"
    and "vm_private_data v = Some i" "0 \<le> ret"
  shows "ioctl_free False ret a k = Some (0, k\<lparr>vmas := remove1 v (vmas k), live := remove1 i (live k),
      alloc_list := remove1 i (alloc_list k)\<rparr>) \<and> i \<notin> set (remove1 i (live k))"
proof -
  obtain ps where run: "lma_run True (k, ps)"
    using assms(1) by (auto simp: lma_reach_def)
  have v: "v \<in> set (vmas k)" "a AND PAGE_MASK < vm_end v"
    using find_vma_in [OF assms(2)] by auto
  have "i \<in> set (alloc_list k)"
    using inv_run [OF run] v(1) assms(4) by (simp add: inv_holds)
  moreover have "live k = alloc_list k" "distinct (alloc_list k)"
    using base_run [OF run] by (simp_all add: lma_base_def distinct_map)
  ultimately show ?thesis
    using assms(2-5) v(2) by (simp add: ioctl_free_def Let_def dma_free_attrs_def)
qed

theorem lma_free_exact_witness:
  "\<exists>k'. ioctl_free False 0 0x8010 (snd (lma_mmap True (Some (7, 9)) 0 demo_vma (snd (lma_open True demo_kern))))
     = Some (0, k') \<and> live k' = []"
proof -
  let ?k = "snd (lma_mmap True (Some (7, 9)) 0 demo_vma (snd (lma_open True demo_kern)))"
  let ?i = "\<lparr>cpu_addr = 7, dma_addr = 9, lma_size = 0x2000, dma_attrs = LMA_ATTRS\<rparr>"
  have al: "PAGE_ALIGN 0x2000 = 0x2000" "(0x8010 :: u64) AND PAGE_MASK = 0x8000"
    by (simp_all add: PAGE_ALIGN_def PAGE_MASK_def)
  have f: "find_vma ?k (0x8010 AND PAGE_MASK) = Some (demo_vma\<lparr>vm_private_data := Some ?i\<rparr>)"
    by (simp add: find_vma_def lma_mmap_def lma_open_def demo_kern_def demo_vma_def Let_def al)
  show ?thesis
    using lma_free_exact [OF demo_reach f, of ?i 0]
    by (simp add: demo_vma_def al lma_mmap_def lma_open_def demo_kern_def Let_def)
qed

text \<open>A translation request for a mapped page returns the frame the page table gives, with the offset
  within the page unchanged.\<close>

theorem lma_tran_result:
  assumes "find_vma k (a AND PAGE_MASK) = Some v" "follow v (a AND PAGE_MASK) = Inr pfn" "pfn < 2 ^ 52"
  shows "\<exists>p. lma_ioctl follow True True killed ret (Some cmd_tran) a k = Some (0, p, k) \<and>
    p AND 0xFFF = a AND 0xFFF \<and> drop_bit 12 p = pfn"
proof -
  have m: "(0xFFF :: u64) = mask 12"
    by (simp add: mask_eq_exp_minus_1)
  have "push_bit 12 pfn AND (a AND mask 12) = 0"
    by (auto simp: bit_eq_iff bit_simps)
  then have p: "push_bit 12 pfn + (a AND 0xFFF) = push_bit 12 pfn OR (a AND 0xFFF)"
    unfolding m by (rule disjunctive_add_eq_or)
  have lim: "bit pfn n \<Longrightarrow> n < 52" for n
    using assms(3) by (rule bit_less_powerD [rotated])
  have "(push_bit 12 pfn OR (a AND 0xFFF)) AND 0xFFF = a AND 0xFFF"
    "drop_bit 12 (push_bit 12 pfn OR (a AND 0xFFF)) = pfn"
    unfolding m by (auto simp: bit_eq_iff bit_simps dest: lim)
  then show ?thesis
    using assms(1,2) p by (simp add: lma_ioctl_def ioctl_tran_def Let_def PAGE_MASK_def)
qed

theorem lma_tran_result_witness:
  "\<exists>p. lma_ioctl (\<lambda>v a. Inr 0x80010) True True False 0 (Some cmd_tran) 0x1234 demo_kern = Some (0, p, demo_kern) \<and>
    p AND 0xFFF = 0x234 \<and> drop_bit 12 p = 0x80010"
proof -
  have "find_vma demo_kern (0x1234 AND PAGE_MASK) = Some \<lparr>vm_start = 0x1000, vm_end = 0x3000, vm_private_data = None\<rparr>"
    by (simp add: find_vma_def demo_kern_def PAGE_MASK_def)
  from lma_tran_result [OF this, of "\<lambda>v a. Inr 0x80010" "0x80010" False 0] show ?thesis
    by simp
qed

text \<open>
  Two pieces of one mapping, or the mapping of a process and the copy of its child: the
  driver frees the buffer with each of them.
\<close>

lemma run_free:
  "lma_run w (k, ps) \<Longrightarrow> ioctl_free False 0 a k = Some (r, k') \<Longrightarrow> lma_run w (k', ps)"
  by (erule run_call) (rule ioctl_step [where c = "Some cmd_free" and in_ok = True and killed = False and ret = 0 and a = a],
      simp add: lma_ioctl_def)

definition demo_buf :: lma_alloc_inf where
  "demo_buf = \<lparr>cpu_addr = 7, dma_addr = 9, lma_size = 0x2000, dma_attrs = LMA_ATTRS\<rparr>"

definition demo_state :: "lma_alloc_inf list \<Rightarrow> bool \<Rightarrow> (u64 \<times> u64) list \<Rightarrow> lma_kern" where
  "demo_state bs bad vs = \<lparr>alloc_list = bs,
     vmas = \<lparr>vm_start = 0x1000, vm_end = 0x3000, vm_private_data = None\<rparr> #
       map (\<lambda>(a, b). \<lparr>vm_start = a, vm_end = b, vm_private_data = Some demo_buf\<rparr>) vs,
     live = bs, bad_free = bad\<rparr>"

lemma demo_state_run: "lma_run True (demo_state [demo_buf] False [(0x8000, 0xA000)], [])"
  using demo_run
  by (simp add: demo_state_def demo_buf_def lma_mmap_def lma_open_def demo_kern_def demo_vma_def Let_def
      PAGE_ALIGN_def PAGE_MASK_def)

lemma demo_state_free:
  "a AND PAGE_MASK = a \<Longrightarrow> 0x3000 \<le> a \<Longrightarrow> a < b \<Longrightarrow>
   ioctl_free False 0 a (demo_state bs bad ((a, b) # vs)) =
     Some (0, demo_state (remove1 demo_buf bs) (bad \<or> demo_buf \<notin> set bs) vs)"
  by (auto simp: ioctl_free_def Let_def find_vma_def demo_state_def dma_free_attrs_def remove1_idem)

lemma lma_double_free:
  "lma_run False (demo_state [] True [], [])"
  "\<exists>ps. ps \<noteq> [] \<and> lma_run False (demo_state [] True [], ps)"
proof -
  have m: "(0x8000 :: u64) AND PAGE_MASK = 0x8000" "(0x9000 :: u64) AND PAGE_MASK = 0x9000"
    by (simp_all add: PAGE_MASK_def)
  have "lma_run False (demo_state [demo_buf] False [(0x8000, 0x9000), (0x9000, 0xA000)], [])"
    using run_munmap [OF demo_state_run, of "0x9000" "0x9000"]
    by (simp add: divides_def munmap_range_def vma_cut_def demo_state_def)
  then have "lma_run False (demo_state [] False [(0x9000, 0xA000)], [])"
    by (rule run_free [where a = "0x8000"]) (simp add: demo_state_free m)
  then show "lma_run False (demo_state [] True [], [])"
    by (rule run_free [where a = "0x9000"]) (simp add: demo_state_free m)
next
  have m: "(0x8000 :: u64) AND PAGE_MASK = 0x8000"
    by (simp add: PAGE_MASK_def)
  let ?v = "vmas (demo_state [demo_buf] False [(0x8000, 0xA000)])"
  have "lma_run False (demo_state [demo_buf] False [(0x8000, 0xA000)], [?v])"
    using run_fork [OF demo_state_run] by (simp add: demo_state_def)
  then have "lma_run False (demo_state [] False [], [?v])"
    by (rule run_free [where a = "0x8000"]) (simp add: demo_state_free m)
  then obtain ps where ps: "ps \<noteq> []" "lma_run False (demo_state [] False [(0x8000, 0xA000)], ps)"
    using run_switch [of False "demo_state [] False []" "[?v]" 0] by (auto simp: demo_state_def)
  from ps(2) have "lma_run False (demo_state [] True [], ps)"
    by (rule run_free [where a = "0x8000"]) (simp add: demo_state_free m)
  with ps(1) show "\<exists>ps. ps \<noteq> [] \<and> lma_run False (demo_state [] True [], ps)"
    by blast
qed

text \<open>
  Two free requests that the driver does not survive: an address above every mapping, and
  an address in a mapping of another driver.
\<close>

lemma lma_free_faults:
  "ioctl_free False 0 0x7000 demo_kern = None" "ioctl_free False 0 0x1000 demo_kern = None"
  by (simp_all add: ioctl_free_def find_vma_def demo_kern_def PAGE_MASK_def Let_def)

end
