(* ===== verification/Hash.thy ===== *)
theory Hash
  imports Lime_Prelude
begin

text \<open>
  The hash function of the hash unit, \<^verbatim>\<open>src/ip/2018.2/llnl.gov_user_axis_hash_1.0.1/short.c\<close>. The
  file has it twice: a software version that reads the tail of the key byte by byte in a
  switch with fall-through, and a pipelined version with one array element per stage, the
  model of the hardware. The theory models both and shows that they agree on every key, that
  the mixing loses nothing of the key, and that the test vectors in the file are right.

  A key is what lies behind the pointer, a function from byte offsets; \<^verbatim>\<open>len\<close> and \<^verbatim>\<open>seed\<close> are
  signed. Words are read little-endian. In \<^verbatim>\<open>EMIX\<close> of the software version the read of \<^verbatim>\<open>x\<close> in
  the left operand and the assignment to \<^verbatim>\<open>x\<close> in the right one are not sequenced in C; the
  model takes them from left to right, as the pipelined version spells it out.
\<close>

section \<open>Common parts\<close>

definition Rot64 :: "u64 \<Rightarrow> nat \<Rightarrow> u64" where
  "Rot64 x k = push_bit k x OR drop_bit (64 - k) x"

definition INIT_VAL :: u64 where
  "INIT_VAL = 0xDEADBEEFDEADBEEF"

text \<open>Little-endian loads; a load through \<^verbatim>\<open>p32\<close> is widened by the addition it is used in.\<close>

fun le_bytes :: "(nat \<Rightarrow> u8) \<Rightarrow> nat \<Rightarrow> u64" where
  "le_bytes p 0 = 0"
| "le_bytes p (Suc n) = le_bytes p n + push_bit (8 * n) (ucast (p n))"

definition p64 :: "(nat \<Rightarrow> u8) \<Rightarrow> nat \<Rightarrow> u64" where
  "p64 p i = le_bytes (\<lambda>j. p (8 * i + j)) 8"

definition p32 :: "(nat \<Rightarrow> u8) \<Rightarrow> nat \<Rightarrow> u64" where
  "p32 p i = le_bytes (\<lambda>j. p (4 * i + j)) 4"

type_synonym hstate = "u64 \<times> u64 \<times> u64 \<times> u64"

section \<open>The software version\<close>

definition EMIX :: "u64 \<Rightarrow> u64 \<Rightarrow> nat \<Rightarrow> u64 \<times> u64" where
  "EMIX y x r = ((y XOR x) + Rot64 x r, Rot64 x r)"

text \<open>The switch: every label adds its part and falls through to the next, up to a break.\<close>

function soft_tail :: "(nat \<Rightarrow> u8) \<Rightarrow> int \<Rightarrow> u64 \<Rightarrow> u64 \<Rightarrow> u64 \<times> u64" where
  "soft_tail p len c d =
     (if len = 15 then soft_tail p 14 c (d + push_bit 48 (ucast (p 14)))
      else if len = 14 then soft_tail p 13 c (d + push_bit 40 (ucast (p 13)))
      else if len = 13 then soft_tail p 12 c (d + push_bit 32 (ucast (p 12)))
      else if len = 12 then (c + p64 p 0, d + p32 p 2)
      else if len = 11 then soft_tail p 10 c (d + push_bit 16 (ucast (p 10)))
      else if len = 10 then soft_tail p 9 c (d + push_bit 8 (ucast (p 9)))
      else if len = 9 then soft_tail p 8 c (d + ucast (p 8))
      else if len = 8 then (c + p64 p 0, d)
      else if len = 7 then soft_tail p 6 (c + push_bit 48 (ucast (p 6))) d
      else if len = 6 then soft_tail p 5 (c + push_bit 40 (ucast (p 5))) d
      else if len = 5 then soft_tail p 4 (c + push_bit 32 (ucast (p 4))) d
      else if len = 4 then (c + p32 p 0, d)
      else if len = 3 then soft_tail p 2 (c + push_bit 16 (ucast (p 2))) d
      else if len = 2 then soft_tail p 1 (c + push_bit 8 (ucast (p 1))) d
      else if len = 1 then (c + ucast (p 0), d)
      else (c, d))"
  by pat_completeness auto
termination
  by (relation "measure (\<lambda>(p, len, c, d). nat len)") auto

declare soft_tail.simps [simp del]

definition soft_mix :: "hstate \<Rightarrow> hstate" where
  "soft_mix s =
     (let (a, b, c, d) = s;
          (d, c) = EMIX d c 15;
          (a, d) = EMIX a d 52;
          (b, a) = EMIX b a 26;
          (c, b) = EMIX c b 51;
          (d, c) = EMIX d c 28;
          (a, d) = EMIX a d 9;
          (b, a) = EMIX b a 47;
          (c, b) = EMIX c b 54;
          (d, c) = EMIX d c 32;
          (a, d) = EMIX a d 25;
          (b, a) = EMIX b a 63
      in (a, b, c, d))"

function soft_loop :: "(nat \<Rightarrow> u8) \<Rightarrow> int \<Rightarrow> hstate \<Rightarrow> hstate" where
  "soft_loop p len (a, b, c, d) =
     (if len > 0 then
        let a = a XOR word_of_int len;
            b = b XOR NOT (word_of_int len)
        in if len < 16
           then let (c, d) = soft_tail p len c d in soft_loop p 0 (soft_mix (a, b, c, d))
           else soft_loop (\<lambda>i. p (i + 16)) (len - 16) (soft_mix (a, b, c + p64 p 0, d + p64 p 1))
      else (a, b, c, d))"
  by pat_completeness auto
termination
  by (relation "measure (\<lambda>(p, len, s). nat len)") auto

declare soft_loop.simps [simp del]

definition soft_short128_hash :: "(nat \<Rightarrow> u8) \<Rightarrow> int \<Rightarrow> int \<Rightarrow> u64 \<times> u64" where
  "soft_short128_hash key len seed =
     (let (a, b, c, d) = soft_loop key len (word_of_int seed, word_of_int seed, INIT_VAL, INIT_VAL)
      in (a, b))"

section \<open>The pipelined version\<close>

definition ST :: nat where
  "ST = 12"

text \<open>The arrays of the stages; the macro is given them in the order \<^verbatim>\<open>y\<close>, \<^verbatim>\<open>x\<close>, \<^verbatim>\<open>w\<close>, \<^verbatim>\<open>v\<close>.\<close>

type_synonym pipe = "u64 list \<times> u64 list \<times> u64 list \<times> u64 list"

definition PEMIX :: "u64 list \<Rightarrow> u64 list \<Rightarrow> u64 list \<Rightarrow> u64 list \<Rightarrow> nat \<Rightarrow> nat \<Rightarrow> pipe" where
  "PEMIX y x w v r s =
     (let v = v[s := v ! (s - 1)];
          w = w[s := w ! (s - 1)];
          x' = Rot64 (x ! (s - 1)) r
      in (y[s := (y ! (s - 1) XOR x ! (s - 1)) + x'], x[s := x'], w, v))"

definition pipe_mix :: "pipe \<Rightarrow> pipe" where
  "pipe_mix P =
     (let (a, b, c, d) = P;
          (d, c, b, a) = PEMIX d c b a 15 1;
          (a, d, c, b) = PEMIX a d c b 52 2;
          (b, a, d, c) = PEMIX b a d c 26 3;
          (c, b, a, d) = PEMIX c b a d 51 4;
          (d, c, b, a) = PEMIX d c b a 28 5;
          (a, d, c, b) = PEMIX a d c b 9 6;
          (b, a, d, c) = PEMIX b a d c 47 7;
          (c, b, a, d) = PEMIX c b a d 54 8;
          (d, c, b, a) = PEMIX d c b a 32 9;
          (a, d, c, b) = PEMIX a d c b 25 10;
          (b, a, d, c) = PEMIX b a d c 63 11
      in (a, b, c, d))"

text \<open>The buffer \<^verbatim>\<open>tmp\<close> after \<^verbatim>\<open>memcpy\<close> of the tail and \<^verbatim>\<open>memset\<close> of the rest.\<close>

definition pipe_tmp :: "(nat \<Rightarrow> u8) \<Rightarrow> int \<Rightarrow> nat \<Rightarrow> u8" where
  "pipe_tmp ptr len i = (if i < nat len then ptr i else 0)"

function pipe_loop :: "(nat \<Rightarrow> u8) \<Rightarrow> int \<Rightarrow> pipe \<Rightarrow> pipe" where
  "pipe_loop ptr len (a, b, c, d) =
     (if len > 0 then
        let a = a[0 := a ! (ST - 1) XOR word_of_int len];
            b = b[0 := b ! (ST - 1) XOR NOT (word_of_int len)]
        in if len < 16
           then let tmp = pipe_tmp ptr len;
                    c = c[0 := c ! (ST - 1) + p64 tmp 0];
                    d = d[0 := d ! (ST - 1) + p64 tmp 1]
                in pipe_loop ptr 0 (pipe_mix (a, b, c, d))
           else let c = c[0 := c ! (ST - 1) + p64 ptr 0];
                    d = d[0 := d ! (ST - 1) + p64 ptr 1]
                in pipe_loop (\<lambda>i. ptr (i + 16)) (len - 16) (pipe_mix (a, b, c, d))
      else (a, b, c, d))"
  by pat_completeness auto
termination
  by (relation "measure (\<lambda>(p, len, s). nat len)") auto

declare pipe_loop.simps [simp del]

text \<open>The arrays are not initialised: their first contents are an argument.\<close>

definition short128_hash :: "pipe \<Rightarrow> (nat \<Rightarrow> u8) \<Rightarrow> int \<Rightarrow> int \<Rightarrow> u64 \<times> u64" where
  "short128_hash stack key len seed =
     (let (a, b, c, d) = stack;
          (a, b, c, d) = pipe_loop key len
            (a[ST - 1 := word_of_int seed], b[ST - 1 := word_of_int seed],
             c[ST - 1 := INIT_VAL], d[ST - 1 := INIT_VAL])
      in (a ! (ST - 1), b ! (ST - 1)))"

section \<open>The shorter hashes\<close>

definition short64_hash :: "pipe \<Rightarrow> (nat \<Rightarrow> u8) \<Rightarrow> int \<Rightarrow> int \<Rightarrow> u64" where
  "short64_hash stack key len seed = fst (short128_hash stack key len seed)"

text \<open>The first of the four 32-bit halves of the result, in little-endian order.\<close>

definition short32_hash :: "pipe \<Rightarrow> (nat \<Rightarrow> u8) \<Rightarrow> int \<Rightarrow> int \<Rightarrow> u32" where
  "short32_hash stack key len seed = ucast (fst (short128_hash stack key len seed))"

section \<open>The tail of the key\<close>

lemma le_bytes_8:
  "le_bytes p 8 = ucast (p 0) + push_bit 8 (ucast (p 1)) + push_bit 16 (ucast (p 2)) + push_bit 24 (ucast (p 3)) +
     push_bit 32 (ucast (p 4)) + push_bit 40 (ucast (p 5)) + push_bit 48 (ucast (p 6)) + push_bit 56 (ucast (p 7))"
  by (simp add: numeral_eq_Suc)

lemma le_bytes_4:
  "le_bytes p 4 = ucast (p 0) + push_bit 8 (ucast (p 1)) + push_bit 16 (ucast (p 2)) + push_bit 24 (ucast (p 3))"
  by (simp add: numeral_eq_Suc)

lemma soft_tail_tmp:
  assumes "0 < len" "len < 16"
  shows "soft_tail p len c d = (c + p64 (pipe_tmp p len) 0, d + p64 (pipe_tmp p len) 1)"
proof -
  have "len = 1 \<or> len = 2 \<or> len = 3 \<or> len = 4 \<or> len = 5 \<or> len = 6 \<or> len = 7 \<or> len = 8 \<or> len = 9 \<or>
      len = 10 \<or> len = 11 \<or> len = 12 \<or> len = 13 \<or> len = 14 \<or> len = 15"
    using assms by presburger
  then show ?thesis
    by (elim disjE)
      (simp_all add: soft_tail.simps p64_def p32_def le_bytes_8 le_bytes_4 pipe_tmp_def add_ac)
qed

section \<open>The stages of the pipeline\<close>

definition stage :: "nat \<Rightarrow> pipe \<Rightarrow> hstate" where
  "stage s P = (case P of (a, b, c, d) \<Rightarrow> (a ! s, b ! s, c ! s, d ! s))"

definition pipe_ok :: "pipe \<Rightarrow> bool" where
  "pipe_ok P = (case P of (a, b, c, d) \<Rightarrow> length a = ST \<and> length b = ST \<and> length c = ST \<and> length d = ST)"

text \<open>
  The eleven rounds follow one pattern: the arguments of a round are those of the round
  before, rotated. One round with the rotation, on arrays and on words:
\<close>

definition pstep :: "nat \<Rightarrow> nat \<Rightarrow> pipe \<Rightarrow> pipe" where
  "pstep r s P = (case P of (y, x, w, v) \<Rightarrow> case PEMIX y x w v r s of (y, x, w, v) \<Rightarrow> (v, y, x, w))"

definition sstep :: "nat \<Rightarrow> hstate \<Rightarrow> hstate" where
  "sstep r q = (case q of (y, x, w, v) \<Rightarrow> case EMIX y x r of (y, x) \<Rightarrow> (v, y, x, w))"

lemma pipe_mix_steps:
  "pipe_mix (a, b, c, d) =
     (case pstep 63 11 (pstep 25 10 (pstep 32 9 (pstep 54 8 (pstep 47 7 (pstep 9 6 (pstep 28 5 (pstep 51 4 (pstep 26 3 (pstep 52 2 (pstep 15 1 (d, c, b, a)))))))))))
      of (c, b, a, d) \<Rightarrow> (a, b, c, d))"
  by (simp add: pipe_mix_def pstep_def split: prod.split)

lemma soft_mix_steps:
  "soft_mix (a, b, c, d) =
     (case sstep 63 (sstep 25 (sstep 32 (sstep 54 (sstep 47 (sstep 9 (sstep 28 (sstep 51 (sstep 26 (sstep 52 (sstep 15 (d, c, b, a)))))))))))
      of (c, b, a, d) \<Rightarrow> (a, b, c, d))"
  by (simp add: soft_mix_def sstep_def split: prod.split)

lemma pstep_ok: "pipe_ok P \<Longrightarrow> pipe_ok (pstep r s P)"
  by (auto simp: pipe_ok_def pstep_def PEMIX_def Let_def split: prod.splits)

lemma pstep_stage:
  "pipe_ok P \<Longrightarrow> 0 < s \<Longrightarrow> s < ST \<Longrightarrow> stage s (pstep r s P) = sstep r (stage (s - 1) P)"
  by (auto simp: pipe_ok_def stage_def pstep_def sstep_def PEMIX_def EMIX_def Let_def split: prod.splits)

lemma pipe_mix_stages:
  assumes "pipe_ok P"
  shows "pipe_ok (pipe_mix P)" "stage (ST - 1) (pipe_mix P) = soft_mix (stage 0 P)"
proof -
  obtain a b c d where P: "P = (a, b, c, d)"
    by (cases P) auto
  have rot: "pipe_ok (case Q of (c, b, a, d) \<Rightarrow> (a, b, c, d)) = pipe_ok Q"
    "stage k (case Q of (c, b, a, d) \<Rightarrow> (a, b, c, d)) = (case stage k Q of (c, b, a, d) \<Rightarrow> (a, b, c, d))" for k Q
    by (auto simp: pipe_ok_def stage_def split: prod.splits)
  have ok: "pipe_ok (d, c, b, a)"
    using assms by (simp add: P pipe_ok_def)
  show "pipe_ok (pipe_mix P)"
    by (simp add: P pipe_mix_steps rot pstep_ok ok)
  have "stage 0 (d, c, b, a) = (d ! 0, c ! 0, b ! 0, a ! 0)" "stage 0 (a, b, c, d) = (a ! 0, b ! 0, c ! 0, d ! 0)"
    by (simp_all add: stage_def)
  then show "stage (ST - 1) (pipe_mix P) = soft_mix (stage 0 P)"
    by (simp add: P pipe_mix_steps soft_mix_steps rot pstep_stage pstep_ok ok ST_def)
qed

lemma pipe_loop_soft:
  "pipe_ok P \<Longrightarrow> stage (ST - 1) (pipe_loop p len P) = soft_loop p len (stage (ST - 1) P)"
proof (induction p len P rule: pipe_loop.induct)
  case (1 p len a b c d)
  define a' where "a' = a[0 := a ! (ST - 1) XOR word_of_int len]"
  define b' where "b' = b[0 := b ! (ST - 1) XOR NOT (word_of_int len)]"
  have ok: "pipe_ok (a', b', c[0 := x], d[0 := y])" for x y
    using 1(3) by (simp add: pipe_ok_def a'_def b'_def)
  have start: "stage 0 (a', b', c[0 := x], d[0 := y]) =
      (a ! (ST - 1) XOR word_of_int len, b ! (ST - 1) XOR NOT (word_of_int len), x, y)" for x y
    using 1(3) by (simp add: stage_def a'_def b'_def pipe_ok_def ST_def)
  have st: "stage (ST - 1) (a, b, c, d) = (a ! (ST - 1), b ! (ST - 1), c ! (ST - 1), d ! (ST - 1))"
    by (simp add: stage_def)
  note IH = 1(1,2) [OF _ a'_def b'_def]
  consider "len \<le> 0" | "0 < len" "len < 16" | "16 \<le> len"
    by linarith
  then show ?case
  proof cases
    case 1
    then show ?thesis
      unfolding st by (simp add: pipe_loop.simps soft_loop.simps stage_def)
  next
    case 2
    then show ?thesis
      using IH(1) [OF 2 refl refl refl pipe_mix_stages(1) [OF ok]]
      by (simp add: pipe_loop.simps [of p len] soft_loop.simps [of p len] st Let_def pipe_mix_stages(2) [OF ok]
          start soft_tail_tmp del: One_nat_def bit.xor_compl_right flip: a'_def b'_def)
  next
    case 3
    then have "0 < len" "\<not> len < 16"
      by simp_all
    then show ?thesis
      using IH(2) [OF \<open>0 < len\<close> \<open>\<not> len < 16\<close> refl refl pipe_mix_stages(1) [OF ok]]
      by (simp add: pipe_loop.simps [of p len] soft_loop.simps [of p len] st Let_def pipe_mix_stages(2) [OF ok]
          start del: One_nat_def bit.xor_compl_right flip: a'_def b'_def)
  qed
qed

section \<open>Nothing of the key is lost\<close>

lemma bit_Rot64:
  assumes "k < 64" "n < 64"
  shows "bit (Rot64 x k) n = bit x (if n < k then 64 + n - k else n - k)"
  using assms by (auto simp: Rot64_def bit_simps dest: bit_imp_le_length)

lemma Rot64_inj:
  assumes "Rot64 x k = Rot64 y k" "k < 64"
  shows "x = y"
proof (rule bit_word_eqI)
  fix n assume "n < LENGTH(64)"
  define i where "i = (if n + k < 64 then n + k else n + k - 64)"
  have i: "i < 64" "(if i < k then 64 + i - k else i - k) = n"
    using \<open>n < LENGTH(64)\<close> assms(2) by (auto simp: i_def)
  have "bit (Rot64 x k) i = bit (Rot64 y k) i"
    using assms(1) by simp
  then show "bit x n = bit y n"
    by (simp only: bit_Rot64 [OF assms(2) i(1)] i(2))
qed

lemma EMIX_inj: "EMIX y x r = (u, v) \<Longrightarrow> EMIX y' x' r = (u, v) \<Longrightarrow> r < 64 \<Longrightarrow> y = y' \<and> x = x'"
proof -
  assume e: "EMIX y x r = (u, v)" "EMIX y' x' r = (u, v)" and r: "r < 64"
  have x: "x = x'"
    using e by (auto simp: EMIX_def intro: Rot64_inj [OF _ r])
  with e have "y XOR x = y' XOR x"
    by (auto simp: EMIX_def)
  then have "(y XOR x) XOR x = (y' XOR x) XOR x"
    by simp
  then show ?thesis
    using x by (simp add: xor.assoc)
qed

lemma sstep_inj: "r < 64 \<Longrightarrow> sstep r q = sstep r q' \<longleftrightarrow> q = q'"
  by (auto simp: sstep_def split: prod.splits dest: EMIX_inj)

lemma soft_mix_inj: "soft_mix s = soft_mix t \<longleftrightarrow> s = t"
proof -
  have rot: "(case Q of (c, b, a, d) \<Rightarrow> (a, b, c, d)) = (case Q' of (c, b, a, d) \<Rightarrow> (a, b, c, d)) \<longleftrightarrow> Q = Q'"
    for Q Q' :: hstate
    by (auto split: prod.splits)
  show ?thesis
    by (cases s, cases t) (auto simp: soft_mix_steps rot sstep_inj)
qed

lemma bit_le_bytes: "n \<le> 8 \<Longrightarrow> bit (le_bytes p n) k \<longleftrightarrow> k < 8 * n \<and> bit (p (k div 8)) (k mod 8)"
proof (induction n arbitrary: k)
  case (Suc n)
  have hi: "bit (push_bit (8 * n) (ucast (p n)) :: u64) k \<longleftrightarrow>
      8 * n \<le> k \<and> k < 8 * Suc n \<and> bit (p (k div 8)) (k mod 8)" for k
  proof -
    have "k div 8 = n \<and> k mod 8 = k - 8 * n" if "8 * n \<le> k" "k < 8 * Suc n"
      using that by (auto simp: div_nat_eqI modulo_nat_def)
    moreover have "bit (p n) j \<Longrightarrow> j < 8" for j
      using bit_imp_le_length [of "p n" j] by simp
    ultimately show ?thesis
      using Suc.prems by (fastforce simp: bit_simps)
  qed
  have lo: "bit (le_bytes p n) k \<longleftrightarrow> k < 8 * n \<and> bit (p (k div 8)) (k mod 8)" for k
    using Suc.IH Suc.prems by simp
  have "le_bytes p n AND push_bit (8 * n) (ucast (p n)) = 0"
    by (rule bit_eqI) (simp only: bit_and_iff lo hi bit_0_eq, simp)
  then have "le_bytes p (Suc n) = le_bytes p n OR push_bit (8 * n) (ucast (p n))"
    by (simp add: disjunctive_add_eq_or)
  then show ?case
    by (simp only: bit_or_iff lo hi) auto
qed simp

lemma p64_eq_iff: "p64 p i = p64 q i \<longleftrightarrow> (\<forall>j<8. p (8 * i + j) = q (8 * i + j))"
proof
  assume eq: "p64 p i = p64 q i"
  show "\<forall>j<8. p (8 * i + j) = q (8 * i + j)"
  proof (intro allI impI bit_word_eqI)
    fix j n :: nat assume "j < 8" "n < LENGTH(8)"
    moreover have "bit (p64 p i) (8 * j + n) = bit (p64 q i) (8 * j + n)"
      using eq by simp
    ultimately show "bit (p (8 * i + j)) n = bit (q (8 * i + j)) n"
      by (simp add: p64_def bit_le_bytes)
  qed
next
  assume "\<forall>j<8. p (8 * i + j) = q (8 * i + j)"
  then have "p64 p i = p64 q i \<longleftrightarrow> True"
    unfolding p64_def bit_eq_iff by (simp add: bit_le_bytes less_mult_imp_div_less)
  then show "p64 p i = p64 q i"
    by simp
qed

lemma block_eq_iff: "p64 p 0 = p64 q 0 \<and> p64 p 1 = p64 q 1 \<longleftrightarrow> (\<forall>i<16. p i = q i)"
proof -
  have "(\<forall>i<16. p i = q i) \<longleftrightarrow> (\<forall>j<8. p j = q j) \<and> (\<forall>j<8. p (8 + j) = q (8 + j))"
    (is "?l \<longleftrightarrow> ?r")
  proof
    assume r: ?r
    show ?l
    proof (intro allI impI)
      fix i :: nat assume "i < 16"
      then show "p i = q i"
        using r [THEN conjunct1, rule_format, of i] r [THEN conjunct2, rule_format, of "i - 8"]
        by (cases "i < 8") simp_all
    qed
  qed simp
  then show ?thesis
    by (simp add: p64_eq_iff)
qed

text \<open>One pass of the loop on the block \<open>B\<close>, sixteen bytes with zeros for what is past the end.\<close>

definition block_step :: "int \<Rightarrow> (nat \<Rightarrow> u8) \<Rightarrow> hstate \<Rightarrow> hstate" where
  "block_step len B s = (case s of (a, b, c, d) \<Rightarrow>
     soft_mix (a XOR word_of_int len, b XOR NOT (word_of_int len), c + p64 B 0, d + p64 B 1))"

lemma soft_loop_step:
  "soft_loop p len s =
     (if len > 0 then soft_loop (\<lambda>i. p (i + 16)) (len - 16) (block_step len (pipe_tmp p len) s) else s)"
proof -
  obtain a b c d where s: "s = (a, b, c, d)"
    by (cases s) auto
  have "soft_loop p' len' t = t" if "len' \<le> 0" for p' len' t
    using that by (cases t) (simp add: soft_loop.simps)
  moreover have "p64 (pipe_tmp p len) 0 = p64 p 0 \<and> p64 (pipe_tmp p len) 1 = p64 p 1" if "16 \<le> len"
    using that unfolding block_eq_iff by (auto simp: pipe_tmp_def)
  ultimately show ?thesis
    by (simp add: s soft_loop.simps [of p len] soft_tail_tmp block_step_def Let_def)
qed

lemma xor_right_cancel: "a XOR x = b XOR x \<longleftrightarrow> a = b" for a b x :: u64
proof
  assume "a XOR x = b XOR x"
  then have "(a XOR x) XOR x = (b XOR x) XOR x"
    by simp
  then show "a = b"
    by (simp add: xor.assoc)
qed simp

lemma block_step_inj_state: "block_step len B s = block_step len B t \<longleftrightarrow> s = t"
  by (auto simp: block_step_def soft_mix_inj xor_right_cancel split: prod.splits simp del: bit.xor_compl_right)

lemma block_step_inj_block: "block_step len B s = block_step len B' s \<longleftrightarrow> (\<forall>i<16. B i = B' i)"
  unfolding block_eq_iff [symmetric] by (auto simp: block_step_def soft_mix_inj split: prod.splits)

lemma soft_loop_inj_state:
  "(\<forall>i<nat len. p i = q i) \<Longrightarrow> soft_loop p len s = soft_loop q len t \<longleftrightarrow> s = t"
proof (induction "nat len" arbitrary: p q len s t rule: less_induct)
  case less
  show ?case
  proof (cases "0 < len")
    case True
    have "pipe_tmp p len = pipe_tmp q len"
      using less.prems by (auto simp: pipe_tmp_def)
    moreover have "\<forall>i<nat (len - 16). p (i + 16) = q (i + 16)"
      using less.prems by auto
    ultimately show ?thesis
      using True less.hyps [of "len - 16" "\<lambda>i. p (i + 16)" "\<lambda>i. q (i + 16)"]
      by (simp add: soft_loop_step [of p len] soft_loop_step [of q len] block_step_inj_state)
  qed (simp add: soft_loop_step)
qed

lemma soft_loop_one_block:
  assumes "\<forall>i<nat len. i div 16 \<noteq> k \<longrightarrow> p i = q i" "soft_loop p len s = soft_loop q len s"
  shows "\<forall>i<nat len. p i = q i"
  using assms
proof (induction k arbitrary: p q len s)
  case 0
  show ?case
  proof (cases "0 < len")
    case True
    have "(i + 16) div 16 \<noteq> 0" for i :: nat
      by simp
    then have "\<forall>i<nat (len - 16). p (i + 16) = q (i + 16)"
      using 0(1) by auto
    then have "block_step len (pipe_tmp p len) s = block_step len (pipe_tmp q len) s"
      using 0(2) True by (simp add: soft_loop_step [of p len] soft_loop_step [of q len] soft_loop_inj_state)
    then have "\<forall>i<16. pipe_tmp p len i = pipe_tmp q len i"
      by (simp add: block_step_inj_block)
    then show ?thesis
      using 0(1) by (fastforce simp: pipe_tmp_def split: if_splits)
  qed simp
next
  case (Suc k)
  show ?case
  proof (cases "0 < len")
    case True
    have lo: "\<forall>i<nat len. i < 16 \<longrightarrow> p i = q i"
      using Suc.prems(1) by simp
    then have B: "block_step len (pipe_tmp p len) s = block_step len (pipe_tmp q len) s"
      by (simp add: block_step_inj_block pipe_tmp_def)
    have "\<forall>i<nat (len - 16). i div 16 \<noteq> k \<longrightarrow> p (i + 16) = q (i + 16)"
      using Suc.prems(1) by simp
    then have hi: "\<forall>i<nat (len - 16). p (i + 16) = q (i + 16)"
      using Suc.prems(2) True
      by (intro Suc.IH) (simp_all add: soft_loop_step [of p len] soft_loop_step [of q len] B)
    have "p i = q i" if "i < nat len" for i
      using lo hi [rule_format, of "i - 16"] that by (cases "i < 16") simp_all
    then show ?thesis
      by simp
  qed simp
qed

section \<open>Evaluation\<close>

text \<open>The rounds on the integers the words stand for, which the simplifier evaluates.\<close>

lemma uint_Rot64:
  assumes "k < 64"
  shows "uint (Rot64 x k) = (uint x * 2 ^ k) mod 2 ^ 64 + uint x div 2 ^ (64 - k)"
proof -
  have b: "bit x m \<Longrightarrow> m < 64" for m
    using bit_imp_le_length [of x m] by simp
  have "bit (take_bit 64 (push_bit k (uint x)) AND drop_bit (64 - k) (uint x)) n = False" for n
    using assms b [of "64 - k + n"] by (simp add: bit_simps) linarith
  then have "take_bit 64 (push_bit k (uint x)) AND drop_bit (64 - k) (uint x) = 0"
    by (intro bit_eqI) simp
  moreover have "take_bit 64 (uint x) = uint x"
    using take_bit_length_eq [of x] by (simp add: take_bit_int_eq_self_iff uint_lt2p [of x, simplified])
  then have "uint (Rot64 x k) = take_bit 64 (push_bit k (uint x)) OR drop_bit (64 - k) (uint x)"
    by (simp add: Rot64_def unsigned_or_eq unsigned_push_bit_eq unsigned_drop_bit_eq)
  ultimately show ?thesis
    by (simp add: disjunctive_add_eq_or push_bit_eq_mult drop_bit_eq_div take_bit_eq_mod)
qed

fun int_add :: "int \<Rightarrow> int \<Rightarrow> int \<times> int \<Rightarrow> int \<times> int \<times> int \<times> int" where
  "int_add y x (w, v) = (v, (y + x) mod 2 ^ 64, x, w)"

fun mstep :: "nat \<Rightarrow> int \<times> int \<times> int \<times> int \<Rightarrow> int \<times> int \<times> int \<times> int" where
  "mstep r (y, x, w, v) = int_add (y XOR x) ((x * 2 ^ r) mod 2 ^ 64 + (x mod 2 ^ 64) div 2 ^ (64 - r)) (w, v)"

definition words :: "int \<times> int \<times> int \<times> int \<Rightarrow> hstate" where
  "words q = (case q of (y, x, w, v) \<Rightarrow> (word_of_int y, word_of_int x, word_of_int w, word_of_int v))"

lemma sstep_int:
  assumes "r < 64"
  shows "sstep r (words q) = words (mstep r q)"
proof -
  have x: "Rot64 (word_of_int x) r = word_of_int ((x * 2 ^ r) mod 2 ^ 64 + (x mod 2 ^ 64) div 2 ^ (64 - r))" for x
  proof -
    have "uint (Rot64 (word_of_int x) r) = (x * 2 ^ r) mod 2 ^ 64 + (x mod 2 ^ 64) div 2 ^ (64 - r)"
      using uint_Rot64 [OF assms, of "word_of_int x"] by (simp add: uint_word_of_int mod_mult_left_eq)
    then show ?thesis
      by (metis word_of_int_uint)
  qed
  have m: "word_of_int (n mod 18446744073709551616) = (word_of_int n :: u64)" for n
    by (simp add: word_uint_eq_iff uint_word_of_int)
  show ?thesis
    by (cases q) (simp add: sstep_def words_def EMIX_def x m of_int_xor_eq)
qed

fun rot_back :: "'a \<times> 'a \<times> 'a \<times> 'a \<Rightarrow> 'a \<times> 'a \<times> 'a \<times> 'a" where
  "rot_back (c, b, a, d) = (a, b, c, d)"

definition mix_int :: "int \<times> int \<times> int \<times> int \<Rightarrow> int \<times> int \<times> int \<times> int" where
  "mix_int s = (case s of (a, b, c, d) \<Rightarrow>
     rot_back (mstep 63 (mstep 25 (mstep 32 (mstep 54 (mstep 47 (mstep 9 (mstep 28 (mstep 51 (mstep 26 (mstep 52 (mstep 15 (d, c, b, a)))))))))))))"

lemma mix_int_simp:
  "mix_int (a, b, c, d) =
     rot_back (mstep 63 (mstep 25 (mstep 32 (mstep 54 (mstep 47 (mstep 9 (mstep 28 (mstep 51 (mstep 26 (mstep 52 (mstep 15 (d, c, b, a))))))))))))"
  by (simp only: mix_int_def split_conv)

fun hash_words :: "int \<times> int \<times> int \<times> int \<Rightarrow> u64 \<times> u64" where
  "hash_words (a, b, c, d) = (word_of_int a, word_of_int b)"

lemma soft_mix_int: "soft_mix (words q) = words (mix_int q)"
proof -
  obtain a b c d where q: "q = (a, b, c, d)"
    by (cases q) auto
  have w: "(word_of_int d, word_of_int c, word_of_int b, word_of_int a) = words (d, c, b, a)"
    "words (a, b, c, d) = (word_of_int a, word_of_int b, word_of_int c, word_of_int d)"
    by (simp_all add: words_def)
  have "(case words Q of (c, b, a, d) \<Rightarrow> (a, b, c, d)) = words (rot_back Q)" for Q
    by (cases Q) (simp add: words_def)
  note w = w this
  show ?thesis
    by (simp add: q w soft_mix_steps mix_int_simp sstep_int del: mstep.simps)
qed

lemma hash_one_block:
  assumes "0 < len" "len \<le> 16"
    and "p64 (pipe_tmp key len) 0 = word_of_int k0" "p64 (pipe_tmp key len) 1 = word_of_int k1"
  shows "soft_short128_hash key len seed =
     hash_words (mix_int
       (seed XOR len, 0xFFFFFFFFFFFFFFFF - (seed XOR len), 0xDEADBEEFDEADBEEF + k0, 0xDEADBEEFDEADBEEF + k1))"
proof -
  have word_minus_one: "0xFFFFFFFFFFFFFFFF - w = NOT w" for w :: u64
    by (simp add: not_eq_complement)
  have x: "word_of_int i XOR word_of_int j = (word_of_int (i XOR j) :: u64)"
    "word_of_int i XOR NOT (word_of_int j) = (word_of_int (0xFFFFFFFFFFFFFFFF - (i XOR j)) :: u64)"
    "INIT_VAL + word_of_int j = (word_of_int (0xDEADBEEFDEADBEEF + j) :: u64)" for i j
    by (simp_all add: INIT_VAL_def of_int_xor_eq word_minus_one)
  have mix: "soft_mix (word_of_int seed XOR word_of_int len, word_of_int seed XOR NOT (word_of_int len),
        INIT_VAL + word_of_int k0, INIT_VAL + word_of_int k1) =
      words (mix_int (seed XOR len, 0xFFFFFFFFFFFFFFFF - (seed XOR len), 0xDEADBEEFDEADBEEF + k0, 0xDEADBEEFDEADBEEF + k1))"
    by (simp only: x soft_mix_int [symmetric]) (simp add: words_def)
  have loop: "soft_loop key len s = block_step len (pipe_tmp key len) s" for s
    using assms(1,2) by (simp add: soft_loop_step [of key len] soft_loop_step [of _ "len - 16"])
  show ?thesis
    unfolding soft_short128_hash_def loop block_step_def split_conv assms mix
    by (cases "mix_int (seed XOR len, 0xFFFFFFFFFFFFFFFF - (seed XOR len), 0xDEADBEEFDEADBEEF + k0, 0xDEADBEEFDEADBEEF + k1)")
      (simp add: words_def)
qed




lemmas vector_simps = p64_def le_bytes_8 pipe_tmp_def mix_int_simp



section \<open>Properties\<close>

text \<open>C12: The pipelined hash, the model of the hardware, and the software hash give the same 128 bits for every
  key, length and seed, whatever the uninitialised arrays hold; both loops end.\<close>

theorem short128_hash_pipelined:
  assumes "pipe_ok stack"
  shows "short128_hash stack key len seed = soft_short128_hash key len seed"
proof -
  obtain a b c d where stack: "stack = (a, b, c, d)"
    by (cases stack) auto
  let ?P = "(a[ST - 1 := word_of_int seed], b[ST - 1 := word_of_int seed], c[ST - 1 := INIT_VAL], d[ST - 1 := INIT_VAL])"
  have "pipe_ok ?P"
    using assms by (simp add: stack pipe_ok_def)
  note eq = pipe_loop_soft [OF this, of key len]
  have "stage (ST - 1) ?P = (word_of_int seed, word_of_int seed, INIT_VAL, INIT_VAL)"
    using assms by (simp add: stack pipe_ok_def stage_def ST_def)
  then show ?thesis
    using eq by (auto simp: short128_hash_def soft_short128_hash_def stack stage_def split: prod.splits)
qed

theorem short128_hash_pipelined_witness:
  "short128_hash (replicate 12 5, replicate 12 6, replicate 12 7, replicate 12 8) (\<lambda>i. of_nat i) 37 (- 1) =
     soft_short128_hash (\<lambda>i. of_nat i) 37 (- 1)"
  by (rule short128_hash_pipelined) (simp add: pipe_ok_def ST_def)

text \<open>Two keys of the same length that differ only inside one aligned block of sixteen bytes (every pair of
  different keys of up to sixteen bytes does) never lead to the same state of the four words, from
  any start: up to the final truncation to two words nothing of such a difference is lost.\<close>

theorem short_hash_state_injective:
  assumes "\<forall>i<nat len. i div 16 \<noteq> k \<longrightarrow> p i = q i"
  shows "soft_loop p len s = soft_loop q len s \<longleftrightarrow> (\<forall>i<nat len. p i = q i)"
  using soft_loop_one_block [OF assms] soft_loop_inj_state [of len p q s s] by blast

theorem short_hash_state_injective_witness:
  "soft_loop (\<lambda>i. of_nat i) 20 (1, 2, 3, 4) \<noteq> soft_loop (\<lambda>i. if i = 17 then 0 else of_nat i) 20 (1, 2, 3, 4)"
proof -
  let ?p = "\<lambda>i. of_nat i :: u8" and ?q = "\<lambda>i. if i = 17 then 0 else of_nat i :: u8"
  have "\<forall>i<nat 20. i div 16 \<noteq> 1 \<longrightarrow> ?p i = ?q i"
    by simp
  moreover have "\<not> (\<forall>i<nat 20. ?p i = ?q i)"
    by (auto intro!: exI [of _ 17])
  ultimately show ?thesis
    using short_hash_state_injective [of 20 1 ?p ?q "(1, 2, 3, 4)"] by simp
qed

text \<open>The four test vectors listed at the end of the source file, for keys of 5, 8, 9 and 16 bytes.\<close>

theorem short128_hash_vectors:
  "soft_short128_hash (\<lambda>i. of_char (''5B_01'' ! i)) 5 0xD = (0x5DD32ABB56848514, 0xA3A2DED2F437EF9D) \<and>
   soft_short128_hash (\<lambda>i. of_char (''8B_01234'' ! i)) 8 0xD = (0x55930F295B2ABD7A, 0x21A75660C5242AE9) \<and>
   soft_short128_hash (\<lambda>i. of_char (''9B_012345'' ! i)) 9 0xD = (0x88BA973A5AD3BE4D, 0xFB7510EE55301299) \<and>
   soft_short128_hash (\<lambda>i. of_char (''16B_0123456789AB'' ! i)) 16 0xD = (0x596E4D10D9E28E37, 0xC2C1011E6FA514D1)"
proof (intro conjI)
  show "soft_short128_hash (\<lambda>i. of_char (''5B_01'' ! i)) 5 0xD = (0x5DD32ABB56848514, 0xA3A2DED2F437EF9D)"
    by (subst hash_one_block [where ?k0.0 = "0x31305F4235" and ?k1.0 = 0]) (simp_all add: vector_simps)
  show "soft_short128_hash (\<lambda>i. of_char (''8B_01234'' ! i)) 8 0xD = (0x55930F295B2ABD7A, 0x21A75660C5242AE9)"
    by (subst hash_one_block [where ?k0.0 = "0x34333231305F4238" and ?k1.0 = 0]) (simp_all add: vector_simps)
  show "soft_short128_hash (\<lambda>i. of_char (''9B_012345'' ! i)) 9 0xD = (0x88BA973A5AD3BE4D, 0xFB7510EE55301299)"
    by (subst hash_one_block [where ?k0.0 = "0x34333231305F4239" and ?k1.0 = "0x35"]) (simp_all add: vector_simps)
  show "soft_short128_hash (\<lambda>i. of_char (''16B_0123456789AB'' ! i)) 16 0xD = (0x596E4D10D9E28E37, 0xC2C1011E6FA514D1)"
    by (subst hash_one_block [where ?k0.0 = "0x333231305F423631" and ?k1.0 = "0x4241393837363534"]) (simp_all add: vector_simps)
qed

end
