(* ===== verification/Trace_Parser.thy ===== *)
theory Trace_Parser
  imports Lime_Prelude "HOL-Library.Monad_Syntax"
begin

text \<open>
  The trace converter \<^verbatim>\<open>src/trace/parser.c\<close>: it reads the binary trace that the monitor captured,
  one entry of \<^verbatim>\<open>TCD_ENTRY_BITS\<close> bits at a time, and prints the events as comma separated values.
  The configuration header (\<^verbatim>\<open>def_config.h\<close>, \<^verbatim>\<open>def_config.c\<close>) is an argument, so that every theorem
  is about both variants, without and with data.

  An entry is the array of its bits, a cursor into it is the list of the bits from there on, and
  \<open>None\<close> is an access outside the entry or outside a string buffer. The files are what is read
  from them and what was printed to them; the input and the output are different files.
\<close>

section \<open>Configuration\<close>

record sparam_t =
  EXT_EVENT :: nat
  FLAGS :: nat
  xxID :: nat
  AxLEN :: nat
  AxADDR :: nat
  xDATA :: nat

record trace_config =
  SHOW_AXI_DATA :: bool
  FIFO_AXIS_TDATA_WIDTH :: nat
  slot_param :: "sparam_t list"

definition LOGID :: nat where "LOGID = 1"
definition TIMESTAMP :: nat where "TIMESTAMP = 30"
definition LOOP :: nat where "LOOP = 1"
definition SW_PACKET :: nat where "SW_PACKET = 32"

definition def_config :: trace_config where
  "def_config = \<lparr>SHOW_AXI_DATA = False, FIFO_AXIS_TDATA_WIDTH = 328,
     slot_param =
       [\<lparr>EXT_EVENT = 3, FLAGS = 9, xxID = 16, AxLEN = 8, AxADDR = 40, xDATA = 128\<rparr>,
        \<lparr>EXT_EVENT = 3, FLAGS = 9, xxID = 3, AxLEN = 8, AxADDR = 40, xDATA = 64\<rparr>]\<rparr>"

text \<open>Round up to the next power of two; a wider entry is refused by the preprocessor.\<close>

definition TCD_ENTRY_BITS :: "trace_config \<Rightarrow> nat" where
  "TCD_ENTRY_BITS cfg =
     (if FIFO_AXIS_TDATA_WIDTH cfg \<le> 128 then 128
      else if FIFO_AXIS_TDATA_WIDTH cfg \<le> 256 then 256
      else if FIFO_AXIS_TDATA_WIDTH cfg \<le> 512 then 512
      else 1024)"

definition SW_ID :: u32 where "SW_ID = 1"
definition TRACE_ID :: u32 where "TRACE_ID = 0"

definition XAPM_FLAG_WRADDR_TP :: u32 where "XAPM_FLAG_WRADDR_TP = 0x001"
definition XAPM_FLAG_FIRSTWR_TP :: u32 where "XAPM_FLAG_FIRSTWR_TP = 0x002"
definition XAPM_FLAG_LASTWR_TP :: u32 where "XAPM_FLAG_LASTWR_TP = 0x004"
definition XAPM_FLAG_RESPONSE_TP :: u32 where "XAPM_FLAG_RESPONSE_TP = 0x008"
definition XAPM_FLAG_RDADDR_TP :: u32 where "XAPM_FLAG_RDADDR_TP = 0x010"
definition XAPM_FLAG_FIRSTRD_TP :: u32 where "XAPM_FLAG_FIRSTRD_TP = 0x020"
definition XAPM_FLAG_LASTRD_TP :: u32 where "XAPM_FLAG_LASTRD_TP = 0x040"
definition XAPM_FLAG_MIDWR_TP :: u32 where "XAPM_FLAG_MIDWR_TP = 0x080"
definition XAPM_FLAG_MIDRD_TP :: u32 where "XAPM_FLAG_MIDRD_TP = 0x100"

definition XAPM_FLAG_WRDATA_TP :: u32 where
  "XAPM_FLAG_WRDATA_TP = XAPM_FLAG_FIRSTWR_TP OR XAPM_FLAG_MIDWR_TP OR XAPM_FLAG_LASTWR_TP"

definition XAPM_FLAG_RDDATA_TP :: u32 where
  "XAPM_FLAG_RDDATA_TP = XAPM_FLAG_FIRSTRD_TP OR XAPM_FLAG_MIDRD_TP OR XAPM_FLAG_LASTRD_TP"

lemmas flag_defs = XAPM_FLAG_WRADDR_TP_def XAPM_FLAG_FIRSTWR_TP_def XAPM_FLAG_LASTWR_TP_def XAPM_FLAG_RESPONSE_TP_def
  XAPM_FLAG_RDADDR_TP_def XAPM_FLAG_FIRSTRD_TP_def XAPM_FLAG_LASTRD_TP_def XAPM_FLAG_MIDWR_TP_def XAPM_FLAG_MIDRD_TP_def
  XAPM_FLAG_WRDATA_TP_def XAPM_FLAG_RDDATA_TP_def

section \<open>Formatted output\<close>

text \<open>The conversions of the C library that the program uses: \<^verbatim>\<open>%u\<close> and \<^verbatim>\<open>%lu\<close>, \<^verbatim>\<open>%#X\<close>, and \<^verbatim>\<open>%.*s\<close>.\<close>

definition hex_digits :: string where
  "hex_digits = ''0123456789ABCDEF''"

fun digits :: "nat \<Rightarrow> nat \<Rightarrow> string" where
  "digits base n =
     (if n < base \<or> base < 2 then [hex_digits ! n] else digits base (n div base) @ [hex_digits ! (n mod base)])"

declare digits.simps [simp del]

definition fmt_u :: "nat \<Rightarrow> string" where
  "fmt_u n = digits 10 n"

definition fmt_altX :: "nat \<Rightarrow> string" where
  "fmt_altX n = (if n = 0 then ''0'' else ''0X'' @ digits 16 n)"

definition fmt_prec :: "nat \<Rightarrow> string \<Rightarrow> string" where
  "fmt_prec p s = take p s"

definition nl :: string where
  "nl = [CHR 0x0A]"

text \<open>A string buffer holds a terminated string.\<close>

definition cstr :: "string \<Rightarrow> string" where
  "cstr buf = takeWhile (\<lambda>c. c \<noteq> CHR 0x00) buf"

record tio =
  tout :: string
  terr :: string

definition outp :: "string \<Rightarrow> tio \<Rightarrow> tio" where
  "outp s t = t\<lparr>tout := tout t @ s\<rparr>"

definition errp :: "string \<Rightarrow> tio \<Rightarrow> tio" where
  "errp s t = t\<lparr>terr := terr t @ s\<rparr>"

section \<open>Bit fields\<close>

fun next_uint_loop :: "bool list \<Rightarrow> nat \<Rightarrow> u32 \<Rightarrow> u32 \<Rightarrow> (u32 \<times> bool list) option" where
  "next_uint_loop cur 0 num msk = Some (num, cur)"
| "next_uint_loop [] (Suc len) num msk = None"
| "next_uint_loop (b # cur) (Suc len) num msk =
     next_uint_loop cur len (num OR (if b then msk else 0)) (push_bit 1 msk)"

definition next_uint :: "bool list \<Rightarrow> nat \<Rightarrow> (u32 \<times> bool list) option" where
  "next_uint cur len = next_uint_loop cur len 0 1"

definition put_char :: "string \<Rightarrow> nat \<Rightarrow> char \<Rightarrow> string option" where
  "put_char buf i c = (if i < length buf then Some (buf[i := c]) else None)"

text \<open>The pointer moves down from the terminator; it is a position in the buffer.\<close>

fun next_hexstr_loop ::
  "string \<Rightarrow> nat \<Rightarrow> bool list \<Rightarrow> nat \<Rightarrow> (string \<times> nat \<times> bool list \<times> nat) option" where
  "next_hexstr_loop buf i cur len =
     (if len > 4 then do {
        (d, cur) \<leftarrow> next_uint cur 4;
        buf \<leftarrow> put_char buf i (hex_digits ! unat d);
        next_hexstr_loop buf (i - 1) cur (len - 4)
      } else Some (buf, i, cur, len))"

declare next_hexstr_loop.simps [simp del]

definition next_hexstr :: "string \<Rightarrow> bool list \<Rightarrow> nat \<Rightarrow> (string \<times> bool list) option" where
  "next_hexstr buf cur len = do {
     let i = (if len \<noteq> 0 then (len + 3) div 4 else 1) + 2;
     buf \<leftarrow> put_char buf i (CHR 0x00);
     (buf, i, cur, len) \<leftarrow> next_hexstr_loop buf (i - 1) cur len;
     (d, cur) \<leftarrow> next_uint cur len;
     buf \<leftarrow> put_char buf i (hex_digits ! unat d);
     buf \<leftarrow> put_char buf (i - 1) (CHR ''x'');
     buf \<leftarrow> put_char buf (i - 2) (CHR ''0'');
     Some (buf, cur)
   }"

text \<open>A local array \<^verbatim>\<open>char name[(width+3)/4+3]\<close>; its contents are not set, any will do.\<close>

definition str_buf :: "nat \<Rightarrow> string" where
  "str_buf width = replicate ((width + 3) div 4 + 3) (CHR ''?'')"

section \<open>Entries\<close>

definition wr_type :: "u32 \<Rightarrow> string option" where
  "wr_type f =
     (if f = XAPM_FLAG_FIRSTWR_TP OR XAPM_FLAG_LASTWR_TP then Some ''DW''
      else if f = XAPM_FLAG_FIRSTWR_TP then Some ''FW''
      else if f = XAPM_FLAG_MIDWR_TP then Some ''MW''
      else if f = XAPM_FLAG_LASTWR_TP then Some ''LW''
      else None)"

definition rd_type :: "u32 \<Rightarrow> string option" where
  "rd_type f =
     (if f = XAPM_FLAG_FIRSTRD_TP OR XAPM_FLAG_LASTRD_TP then Some ''DR''
      else if f = XAPM_FLAG_FIRSTRD_TP then Some ''FR''
      else if f = XAPM_FLAG_MIDRD_TP then Some ''MR''
      else if f = XAPM_FLAG_LASTRD_TP then Some ''LR''
      else None)"

definition inconsistent :: "u32 \<Rightarrow> nat \<Rightarrow> string" where
  "inconsistent flags slot = ''ERROR: INCONSISTENT FLAGS:'' @ fmt_altX (unat flags) @ '' SLOT:'' @ fmt_u slot @ nl"

text \<open>The two strings for data and the precision they are printed with.\<close>

definition data_field :: "trace_config \<Rightarrow> bool list \<Rightarrow> nat \<Rightarrow> (string \<times> bool list) option" where
  "data_field cfg cursor width =
     (if SHOW_AXI_DATA cfg then map_option (\<lambda>(buf, c). (cstr buf, c)) (next_hexstr (str_buf width) cursor width)
      else Some (''NA'', cursor))"

definition dlen :: "trace_config \<Rightarrow> sparam_t \<Rightarrow> nat" where
  "dlen cfg spar = (if SHOW_AXI_DATA cfg then (xDATA spar + 3) div 4 + 3 else 0)"

text \<open>The printing half of \<^verbatim>\<open>parse_slot\<close>, from the comment on the five events on.\<close>

definition print_slot ::
  "nat \<Rightarrow> nat \<Rightarrow> u64 \<Rightarrow> u32 \<Rightarrow> u32 \<Rightarrow> u32 \<Rightarrow> u32 \<Rightarrow> u32 \<Rightarrow> u32 \<Rightarrow> u32 \<Rightarrow>
     string \<Rightarrow> string \<Rightarrow> string \<Rightarrow> string \<Rightarrow> tio \<Rightarrow> tio" where
  "print_slot dl slot time flags arlen awlen rid arid bid awid araddr awaddr rdata wdata t =
     (let s = fmt_u slot; tm = fmt_u (unat time) @ nl; sep = fmt_prec dl '','';
          t = (if flags AND XAPM_FLAG_WRADDR_TP \<noteq> 0
               then outp (s @ '',W,'' @ awaddr @ '','' @ sep @ fmt_u (unat awlen) @ '','' @ fmt_u (unat awid) @ '','' @ tm) t
               else t)
      in case (if flags AND XAPM_FLAG_WRDATA_TP \<noteq> 0 then wr_type (flags AND XAPM_FLAG_WRDATA_TP) else Some []) of
           None \<Rightarrow> errp (inconsistent flags slot) t
         | Some wtype \<Rightarrow>
           (let t = (if flags AND XAPM_FLAG_WRDATA_TP \<noteq> 0
                     then outp (s @ '','' @ wtype @ '',,'' @ fmt_prec dl wdata @ sep @ '',,'' @ tm) t else t);
                t = (if flags AND XAPM_FLAG_RESPONSE_TP \<noteq> 0
                     then outp (s @ '',B,,'' @ sep @ '','' @ fmt_u (unat bid) @ '','' @ tm) t else t);
                t = (if flags AND XAPM_FLAG_RDADDR_TP \<noteq> 0
                     then outp (s @ '',R,'' @ araddr @ '','' @ sep @ fmt_u (unat arlen) @ '','' @ fmt_u (unat arid) @ '','' @ tm) t
                     else t)
            in if flags AND XAPM_FLAG_RDDATA_TP \<noteq> 0
               then (case rd_type (flags AND XAPM_FLAG_RDDATA_TP) of
                       None \<Rightarrow> errp (inconsistent flags slot) t
                     | Some rtype \<Rightarrow>
                         outp (s @ '','' @ rtype @ '',,'' @ fmt_prec dl rdata @ sep @ '','' @ fmt_u (unat rid) @ '','' @ tm) t)
               else t))"

definition burst_bytes :: "u32 \<Rightarrow> sparam_t \<Rightarrow> u32" where
  "burst_bytes n spar = (n + 1) * of_nat (xDATA spar) div 8"

definition parse_slot ::
  "trace_config \<Rightarrow> bool list \<Rightarrow> nat \<Rightarrow> sparam_t \<Rightarrow> u64 \<Rightarrow> tio \<Rightarrow> (u32 \<times> bool list \<times> tio) option" where
  "parse_slot cfg cursor slot spar time t = do {
     (_, cursor) \<leftarrow> next_uint cursor (EXT_EVENT spar);
     (flags, cursor) \<leftarrow> next_uint cursor (FLAGS spar);
     (arlen, cursor) \<leftarrow> next_uint cursor (AxLEN spar);
     (awlen, cursor) \<leftarrow> next_uint cursor (AxLEN spar);
     (rid, cursor) \<leftarrow> next_uint cursor (xxID spar);
     (arid, cursor) \<leftarrow> next_uint cursor (xxID spar);
     (bid, cursor) \<leftarrow> next_uint cursor (xxID spar);
     (awid, cursor) \<leftarrow> next_uint cursor (xxID spar);
     (araddr, cursor) \<leftarrow> next_hexstr (str_buf (AxADDR spar)) cursor (AxADDR spar);
     (awaddr, cursor) \<leftarrow> next_hexstr (str_buf (AxADDR spar)) cursor (AxADDR spar);
     (rdata, cursor) \<leftarrow> data_field cfg cursor (xDATA spar);
     (wdata, cursor) \<leftarrow> data_field cfg cursor (xDATA spar);
     Some (flags, cursor,
       print_slot (dlen cfg spar) slot time flags (burst_bytes arlen spar) (burst_bytes awlen spar)
         rid arid bid awid (cstr araddr) (cstr awaddr) rdata wdata t)
   }"

fun parse_slots ::
  "trace_config \<Rightarrow> bool list \<Rightarrow> nat \<Rightarrow> sparam_t list \<Rightarrow> u64 \<Rightarrow> u32 \<Rightarrow> tio \<Rightarrow> (u32 \<times> tio) option" where
  "parse_slots cfg cursor i [] time orflags t = Some (orflags, t)"
| "parse_slots cfg cursor i (spar # spars) time orflags t = do {
     (flags, cursor, t) \<leftarrow> parse_slot cfg cursor i spar time t;
     parse_slots cfg cursor (i + 1) spars time (orflags OR flags) t
   }"

definition parse_entry :: "trace_config \<Rightarrow> bool list \<Rightarrow> u64 \<Rightarrow> tio \<Rightarrow> (u64 \<times> tio) option" where
  "parse_entry cfg cursor time t = do {
     (logID, cursor) \<leftarrow> next_uint cursor LOGID;
     (delta, cursor) \<leftarrow> next_uint cursor TIMESTAMP;
     let time = time + ucast delta;
     (lp, cursor) \<leftarrow> next_uint cursor LOOP;
     let t = (if lp = 1 then errp (''WARNING: TIMING OVERFLOW'' @ nl) t else t);
     if logID = SW_ID then do {
       (SW, cursor) \<leftarrow> next_hexstr (str_buf SW_PACKET) cursor SW_PACKET;
       Some (time, outp (''S,,'' @ cstr SW @ '','' @ fmt_prec (if SHOW_AXI_DATA cfg then 1 else 0) '','' @ '',,'' @
               fmt_u (unat time) @ nl) t)
     } else if logID = TRACE_ID then do {
       (orflags, t) \<leftarrow> parse_slots cfg cursor 0 (slot_param cfg) time 0 t;
       Some (time, if orflags = 0 then errp (''ERROR: ENTRY WITH NO FLAGS'' @ nl) t else t)
     } else Some (time, t)
   }"

text \<open>
  One pass of the loop of \<^verbatim>\<open>read_entry\<close> per byte; \<open>n\<close> bytes are left to read, \<open>tmp\<close> collects the
  bits seen. The result is whether an entry was read, its bits and the rest of the file.
\<close>

definition byte_bits :: "u8 \<Rightarrow> bool list" where
  "byte_bits val = map (bit val) [0..<8]"

fun read_entry_loop ::
  "nat \<Rightarrow> u8 list \<Rightarrow> u8 \<Rightarrow> bool list \<Rightarrow> tio \<Rightarrow> bool \<times> bool list \<times> u8 list \<times> tio" where
  "read_entry_loop 0 rfp tmp entry t =
     (if tmp = 0 then (False, entry, rfp, errp (''TRACE END... ZEROES FOUND'' @ nl) t) else (True, entry, rfp, t))"
| "read_entry_loop (Suc n) [] tmp entry t = (False, entry, [], errp (''TRACE END... EOF FOUND'' @ nl) t)"
| "read_entry_loop (Suc n) (val # rfp) tmp entry t =
     read_entry_loop n rfp (tmp OR val) (entry @ byte_bits val) t"

definition read_entry :: "trace_config \<Rightarrow> u8 list \<Rightarrow> tio \<Rightarrow> bool \<times> bool list \<times> u8 list \<times> tio" where
  "read_entry cfg rfp t = read_entry_loop (TCD_ENTRY_BITS cfg div 8) rfp 0 [] t"

lemma read_entry_loop_length:
  "read_entry_loop n rfp tmp entry t = (True, e, rest, t') \<Longrightarrow>
     length rfp = n + length rest \<and> length e = length entry + 8 * n"
  by (induction n rfp tmp entry t rule: read_entry_loop.induct) (auto simp: byte_bits_def split: if_splits)

section \<open>The program\<close>

lemma TCD_ENTRY_BITS_pos: "0 < TCD_ENTRY_BITS cfg div 8"
  by (simp add: TCD_ENTRY_BITS_def)

function trace_loop :: "trace_config \<Rightarrow> u8 list \<Rightarrow> u64 \<Rightarrow> tio \<Rightarrow> tio option" where
  "trace_loop cfg fin time t =
     (case read_entry cfg fin t of
        (False, _, _, t) \<Rightarrow> Some t
      | (True, entry, fin, t) \<Rightarrow> do {
          (time, t) \<leftarrow> parse_entry cfg entry time t;
          trace_loop cfg fin time t
        })"
  by pat_completeness auto
termination
  using TCD_ENTRY_BITS_pos
  by (relation "measure (\<lambda>(cfg, fin, _). length fin)")
    (auto simp: read_entry_def dest!: read_entry_loop_length [OF sym])

declare trace_loop.simps [simp del]

definition VFLAG :: u32 where "VFLAG = 0x1000"

text \<open>The letters of one option argument; \<open>nok\<close> becomes true at an unknown one.\<close>

fun opt_chars :: "string \<Rightarrow> u32 \<Rightarrow> bool \<Rightarrow> tio \<Rightarrow> u32 \<times> bool \<times> tio" where
  "opt_chars [] flags nok t = (flags, nok, t)"
| "opt_chars (s # ss) flags nok t =
     (if s = CHR ''v'' then opt_chars ss (flags OR VFLAG) nok t
      else opt_chars ss flags True (errp ('' -- not an option: '' @ [s] @ nl) t))"

text \<open>The arguments after the program name; the rest starts at the first that is not an option.\<close>

fun opt_args :: "string list \<Rightarrow> u32 \<Rightarrow> bool \<Rightarrow> tio \<Rightarrow> string list \<times> u32 \<times> bool \<times> tio" where
  "opt_args [] flags nok t = ([], flags, nok, t)"
| "opt_args (arg # argv) flags nok t =
     (if take 1 arg = ''-''
      then (let (flags, nok, t) = opt_chars (drop 1 arg) flags nok t in opt_args argv flags nok t)
      else (arg # argv, flags, nok, t))"

datatype exit_status = EXIT_SUCCESS | EXIT_FAILURE

definition usage :: string where
  "usage = ''Usage: parser -v [<in_file>] [<out_file>]'' @ nl @ ''  -v  version'' @ nl"

text \<open>
  \<open>rd\<close> gives the contents of an input file that can be opened, \<open>wr\<close> says whether an output file
  can be created. What goes to \<^verbatim>\<open>stdout\<close> and to the output file are both \<open>tout\<close>.
\<close>

definition parser_main ::
  "trace_config \<Rightarrow> (string \<Rightarrow> u8 list option) \<Rightarrow> (string \<Rightarrow> bool) \<Rightarrow> u8 list \<Rightarrow> string list \<Rightarrow>
     (exit_status \<times> tio) option" where
  "parser_main cfg rd wr stdin argv =
     (let (argv, flags, nok, t) = opt_args argv 0 False \<lparr>tout = [], terr = []\<rparr>;
          t = (if flags AND VFLAG \<noteq> 0 then errp (''Version: 2.0'' @ nl) t else t)
      in if nok \<or> argv = [] \<or> take 1 (argv ! 0) = ''?'' then Some (EXIT_FAILURE, errp usage t)
         else case (if argv = [] then Some stdin else rd (argv ! 0)) of
           None \<Rightarrow> Some (EXIT_FAILURE, errp (''ERROR: CANNOT OPEN INPUT FILE: '' @ argv ! 0 @ nl) t)
         | Some fin \<Rightarrow>
             if 2 \<le> length argv \<and> \<not> wr (argv ! 1)
             then Some (EXIT_FAILURE, errp (''ERROR: CANNOT OPEN OUTPUT FILE: '' @ argv ! 1 @ nl) t)
             else do {
               t \<leftarrow> trace_loop cfg fin 0 (errp (''TRACE START...'' @ nl) t);
               Some (EXIT_SUCCESS, t)
             })"

section \<open>What the bit fields mean\<close>

definition bits_val :: "bool list \<Rightarrow> nat" where
  "bits_val bs = horner_sum of_bool 2 bs"

lemma bits_val_simps [simp]: "bits_val [] = 0" "bits_val (b # bs) = of_bool b + 2 * bits_val bs"
  by (simp_all add: bits_val_def)

lemma bits_val_less: "bits_val bs < 2 ^ length bs"
  by (induction bs) (auto simp: of_bool_def)

lemma bits_val_append: "bits_val (xs @ ys) = bits_val xs + 2 ^ length xs * bits_val ys"
  by (induction xs) (simp_all add: algebra_simps)

lemma next_uint_loop_bits:
  "next_uint_loop (bs @ rest) (length bs) num (push_bit k 1) =
     Some (num OR push_bit k (of_nat (bits_val bs)), rest)"
proof (induction bs arbitrary: num k)
  case (Cons b bs)
  have "(of_nat (bits_val (b # bs)) :: u32) = of_bool b OR push_bit 1 (of_nat (bits_val bs))"
  proof -
    have "of_bool b AND push_bit 1 w = (0 :: u32)" for w
      by (cases b) (auto intro!: bit_eqI simp: bit_and_iff bit_push_bit_iff bit_1_iff bit_0)
    then have "of_bool b + push_bit 1 w = (of_bool b OR push_bit 1 w :: u32)" for w
      by (rule disjunctive_add_eq_or)
    from this [of "of_nat (bits_val bs)"] show ?thesis
      by (simp add: push_bit_eq_mult mult.commute)
  qed
  then have "push_bit k (of_nat (bits_val (b # bs)) :: u32) =
      (if b then push_bit k 1 else 0) OR push_bit (Suc k) (of_nat (bits_val bs))"
    by (simp add: push_bit_or push_bit_push_bit)
  moreover have "push_bit 1 (push_bit k 1) = (push_bit (Suc k) 1 :: u32)"
    by (simp add: push_bit_push_bit)
  ultimately show ?case
    by (simp only: append_Cons length_Cons next_uint_loop.simps Cons.IH or.assoc)
qed simp

lemma next_uint_bits:
  assumes "length bs = len"
  shows "next_uint (bs @ rest) len = Some (of_nat (bits_val bs), rest)"
  using next_uint_loop_bits [of bs rest 0 0] assms by (simp add: next_uint_def)

lemma next_uint_take:
  "len \<le> length cur \<Longrightarrow> next_uint cur len = Some (of_nat (bits_val (take len cur)), drop len cur)"
  using next_uint_bits [of "take len cur" len "drop len cur"] by simp

section \<open>Hexadecimal strings\<close>

text \<open>The digits of a field, most significant first; the last group may be short.\<close>

fun hexbits :: "bool list \<Rightarrow> string" where
  "hexbits bs =
     (if length bs > 4 then hexbits (drop 4 bs) @ [hex_digits ! bits_val (take 4 bs)]
      else [hex_digits ! bits_val bs])"

declare hexbits.simps [simp del]

lemma bits_val_4: "length bs \<le> 4 \<Longrightarrow> bits_val bs < 16"
  using bits_val_less [of bs] power_increasing [of "length bs" 4 "2 :: nat"] by fastforce

lemma unat_bits_val_4: "length bs \<le> 4 \<Longrightarrow> unat (of_nat (bits_val bs) :: u32) = bits_val bs"
  using bits_val_4 [of bs] by (simp add: unsigned_of_nat take_bit_nat_eq_self)

lemma put_char_Some: "i < length buf \<Longrightarrow> put_char buf i c = Some (buf[i := c])"
  by (simp add: put_char_def)

text \<open>What \<^verbatim>\<open>next_hexstr\<close> does after it has written the terminator.\<close>

definition hex_finish :: "string \<Rightarrow> nat \<Rightarrow> bool list \<Rightarrow> nat \<Rightarrow> (string \<times> bool list) option" where
  "hex_finish buf i cur len = do {
     (buf, i, cur, len) \<leftarrow> next_hexstr_loop buf i cur len;
     (d, cur) \<leftarrow> next_uint cur len;
     buf \<leftarrow> put_char buf i (hex_digits ! unat d);
     buf \<leftarrow> put_char buf (i - 1) (CHR ''x'');
     buf \<leftarrow> put_char buf (i - 2) (CHR ''0'');
     Some (buf, cur)
   }"

lemma hex_finish_bits:
  assumes "length bs = len" "0 < len" "i = (len + 3) div 4 + 1" "i < length buf"
  shows "hex_finish buf i (bs @ rest) len = Some (''0x'' @ hexbits bs @ drop (Suc i) buf, rest)"
  using assms
proof (induction len arbitrary: bs i buf rule: less_induct)
  case (less len)
  show ?case
  proof (cases "len > 4")
    case True
    let ?b = "buf[i := hex_digits ! bits_val (take 4 bs)]"
    have i: "i - 1 = (len - 4 + 3) div 4 + 1" "i - 1 < length ?b" "0 < i"
      using True less.prems by (simp_all add: div_nat_eqI)
    have "next_uint (bs @ rest) 4 = Some (of_nat (bits_val (take 4 bs)), drop 4 bs @ rest)"
      using True less.prems by (simp add: next_uint_take)
    then have "next_hexstr_loop buf i (bs @ rest) len = next_hexstr_loop ?b (i - 1) (drop 4 bs @ rest) (len - 4)"
      using True less.prems(4) by (simp add: next_hexstr_loop.simps [of buf i] unat_bits_val_4 put_char_Some)
    then have "hex_finish buf i (bs @ rest) len = hex_finish ?b (i - 1) (drop 4 bs @ rest) (len - 4)"
      by (simp only: hex_finish_def)
    also have "\<dots> = Some (''0x'' @ hexbits (drop 4 bs) @ drop (Suc (i - 1)) ?b, rest)"
      using True less.prems by (intro less.IH i) simp_all
    also have "drop (Suc (i - 1)) ?b = [hex_digits ! bits_val (take 4 bs)] @ drop (Suc i) buf"
      using i less.prems by (simp add: Cons_nth_drop_Suc [symmetric])
    finally show ?thesis
      using True less.prems by (simp add: hexbits.simps [of bs])
  next
    case False
    then have i: "i = 2"
      using less.prems by (simp add: div_nat_eqI)
    have "buf[2 := d, 1 := CHR ''x'', 0 := CHR ''0''] = ''0x'' @ [d] @ drop 3 buf" for d
    proof -
      have "Suc (Suc (Suc 0)) \<le> length buf"
        using i less.prems by simp
      then obtain c0 c1 c2 r where "buf = c0 # c1 # c2 # r"
        by (auto simp: Suc_le_length_iff)
      then show ?thesis
        by (simp add: numeral_2_eq_2 numeral_3_eq_3)
    qed
    moreover have "next_hexstr_loop buf i (bs @ rest) len = Some (buf, i, bs @ rest, len)"
      using False by (simp add: next_hexstr_loop.simps)
    moreover have "0 < length buf"
      using less.prems(4) by auto
    ultimately show ?thesis
      using False less.prems(1,4)
      by (simp add: hex_finish_def next_uint_bits i unat_bits_val_4 put_char_Some hexbits.simps [of bs])
  qed
qed

lemma hex_digit: "n < 16 \<Longrightarrow> hex_digits ! n \<noteq> CHR 0x00 \<and> length (takeWhile (\<lambda>c. c \<noteq> hex_digits ! n) hex_digits) = n"
proof -
  assume "n < 16"
  then have "n \<in> set [0..<16]"
    by simp
  moreover have "\<forall>n\<in>set [0..<16]. hex_digits ! n \<noteq> CHR 0x00 \<and>
      length (takeWhile (\<lambda>c. c \<noteq> hex_digits ! n) hex_digits) = n"
    by code_simp
  ultimately show ?thesis
    by blast
qed

lemma hexbits_no_nul: "CHR 0x00 \<notin> set (hexbits bs)"
proof (induction bs rule: hexbits.induct)
  case (1 bs)
  have "hex_digits ! bits_val (take 4 bs) \<noteq> CHR 0x00" "length bs \<le> 4 \<Longrightarrow> hex_digits ! bits_val bs \<noteq> CHR 0x00"
    using hex_digit bits_val_4 by simp_all
  then show ?case
    using 1 by (auto simp: hexbits.simps [of bs])
qed

lemma next_hexstr_bits:
  assumes "length bs = len" "0 < len" "length buf = (len + 3) div 4 + 3"
  shows "\<exists>buf'. next_hexstr buf (bs @ rest) len = Some (buf', rest) \<and> cstr buf' = ''0x'' @ hexbits bs"
proof -
  let ?i = "(len + 3) div 4 + 2"
  let ?b = "buf[?i := CHR 0x00]"
  have "next_hexstr buf (bs @ rest) len = hex_finish ?b (?i - 1) (bs @ rest) len"
    using assms by (simp add: next_hexstr_def hex_finish_def put_char_Some)
  also have "\<dots> = Some (''0x'' @ hexbits bs @ drop (Suc (?i - 1)) ?b, rest)"
    using assms by (intro hex_finish_bits) simp_all
  also have "drop (Suc (?i - 1)) ?b = [CHR 0x00]"
    using assms by (subst Cons_nth_drop_Suc [symmetric]) simp_all
  finally have "next_hexstr buf (bs @ rest) len = Some (''0x'' @ hexbits bs @ [CHR 0x00], rest)" .
  moreover have "cstr (''0x'' @ hexbits bs @ [CHR 0x00]) = ''0x'' @ hexbits bs"
    using hexbits_no_nul [of bs] by (auto simp: cstr_def takeWhile_append)
  ultimately show ?thesis
    by blast
qed

text \<open>The value of a string of hexadecimal digits.\<close>

definition hex_value :: "string \<Rightarrow> nat" where
  "hex_value = foldl (\<lambda>n c. 16 * n + length (takeWhile (\<lambda>x. x \<noteq> c) hex_digits)) 0"

lemma hex_value_hexbits: "hex_value (hexbits bs) = bits_val bs"
proof (induction bs rule: hexbits.induct)
  case (1 bs)
  show ?case
  proof (cases "length bs > 4")
    case True
    have "hex_value (hexbits bs) = 16 * bits_val (drop 4 bs) + bits_val (take 4 bs)"
      using True 1 hex_digit [OF bits_val_4 [of "take 4 bs"]] by (simp add: hexbits.simps [of bs] hex_value_def)
    also have "\<dots> = bits_val (take 4 bs @ drop 4 bs)"
      using True by (subst bits_val_append) simp
    finally show ?thesis
      by simp
  next
    case False
    then show ?thesis
      using hex_digit [OF bits_val_4 [of bs]] by (simp add: hexbits.simps [of bs] hex_value_def)
  qed
qed

lemma length_hexbits: "0 < length bs \<Longrightarrow> length (hexbits bs) = (length bs + 3) div 4"
proof (induction bs rule: hexbits.induct)
  case (1 bs)
  show ?case
  proof (cases "length bs > 4")
    case True
    then have "(length bs + 3) div 4 = Suc ((length bs - 4 + 3) div 4)"
      by (simp add: div_nat_eqI)
    with True 1 show ?thesis
      by (simp add: hexbits.simps [of bs])
  next
    case False
    with 1 show ?thesis
      by (auto simp: hexbits.simps [of bs] div_nat_eqI Suc_le_eq intro!: div_nat_eqI [symmetric])
  qed
qed

section \<open>No access outside an entry or a buffer\<close>

definition slot_width :: "trace_config \<Rightarrow> sparam_t \<Rightarrow> nat" where
  "slot_width cfg spar = EXT_EVENT spar + FLAGS spar + 2 * AxLEN spar + 4 * xxID spar + 2 * AxADDR spar +
     (if SHOW_AXI_DATA cfg then 2 * xDATA spar else 0)"

definition cfg_ok :: "trace_config \<Rightarrow> bool" where
  "cfg_ok cfg \<longleftrightarrow> LOGID + TIMESTAMP + LOOP + sum_list (map (slot_width cfg) (slot_param cfg)) \<le> TCD_ENTRY_BITS cfg \<and>
     (\<forall>spar\<in>set (slot_param cfg). 0 < AxADDR spar \<and> 0 < xDATA spar)"

lemma data_field_bits:
  assumes "length bs = (if SHOW_AXI_DATA cfg then width else 0)" "0 < width"
  shows "data_field cfg (bs @ rest) width = Some (if SHOW_AXI_DATA cfg then ''0x'' @ hexbits bs else ''NA'', rest)"
  using next_hexstr_bits [of bs width "str_buf width" rest] assms
  by (auto simp: data_field_def str_buf_def split: if_splits)

text \<open>The fields of a slot in the order they are read.\<close>

definition slot_fields :: "trace_config \<Rightarrow> sparam_t \<Rightarrow> nat list" where
  "slot_fields cfg spar =
     (let d = (if SHOW_AXI_DATA cfg then xDATA spar else 0)
      in [EXT_EVENT spar, FLAGS spar, AxLEN spar, AxLEN spar, xxID spar, xxID spar, xxID spar, xxID spar,
          AxADDR spar, AxADDR spar, d, d])"

lemma sum_slot_fields: "sum_list (slot_fields cfg spar) = slot_width cfg spar"
  by (simp add: slot_fields_def slot_width_def Let_def)

definition data_str :: "trace_config \<Rightarrow> bool list \<Rightarrow> string" where
  "data_str cfg bs = (if SHOW_AXI_DATA cfg then ''0x'' @ hexbits bs else ''NA'')"

lemma parse_slot_fields:
  assumes "map length [ext, fl, arl, awl, ri, ari, bi, awi, ara, awa, rda, wda] = slot_fields cfg spar"
    and "0 < AxADDR spar" "0 < xDATA spar"
  shows "parse_slot cfg (concat [ext, fl, arl, awl, ri, ari, bi, awi, ara, awa, rda, wda] @ rest) slot spar time t =
    Some (of_nat (bits_val fl), rest,
      print_slot (dlen cfg spar) slot time (of_nat (bits_val fl))
        (burst_bytes (of_nat (bits_val arl)) spar) (burst_bytes (of_nat (bits_val awl)) spar)
        (of_nat (bits_val ri)) (of_nat (bits_val ari)) (of_nat (bits_val bi)) (of_nat (bits_val awi))
        (''0x'' @ hexbits ara) (''0x'' @ hexbits awa) (data_str cfg rda) (data_str cfg wda) t)"
proof -
  have l: "length ara = AxADDR spar" "length awa = AxADDR spar"
    using assms(1) by (simp_all add: slot_fields_def Let_def)
  obtain b1 where b1: "next_hexstr (str_buf (AxADDR spar)) (ara @ awa @ rda @ wda @ rest) (AxADDR spar) =
      Some (b1, awa @ rda @ wda @ rest)" "cstr b1 = ''0x'' @ hexbits ara"
    using next_hexstr_bits [OF l(1) assms(2), of "str_buf (AxADDR spar)"] by (auto simp: str_buf_def)
  obtain b2 where b2: "next_hexstr (str_buf (AxADDR spar)) (awa @ rda @ wda @ rest) (AxADDR spar) =
      Some (b2, rda @ wda @ rest)" "cstr b2 = ''0x'' @ hexbits awa"
    using next_hexstr_bits [OF l(2) assms(2), of "str_buf (AxADDR spar)"] by (auto simp: str_buf_def)
  show ?thesis
    using assms(1,3)
    by (simp add: parse_slot_def next_uint_bits b1 b2 data_field_bits data_str_def slot_fields_def Let_def)
qed

lemma split_fields: "sum_list ns \<le> length cur \<Longrightarrow> \<exists>xs rest. cur = concat xs @ rest \<and> map length xs = ns"
proof (induction ns arbitrary: cur)
  case (Cons n ns)
  then obtain xs rest where "drop n cur = concat xs @ rest" "map length xs = ns"
    by (metis add_le_imp_le_diff add.commute length_drop sum_list.Cons)
  then have "cur = concat (take n cur # xs) @ rest" "map length (take n cur # xs) = n # ns"
    using Cons.prems by (simp_all, metis append_take_drop_id)
  then show ?case
    by (intro exI [of _ "take n cur # xs"] exI [of _ rest] conjI)
qed simp

lemma parse_slot_total:
  assumes "slot_width cfg spar \<le> length cur" "0 < AxADDR spar" "0 < xDATA spar"
  shows "\<exists>fl t'. parse_slot cfg cur slot spar time t = Some (fl, drop (slot_width cfg spar) cur, t')"
proof -
  obtain xs rest where xs: "cur = concat xs @ rest" "map length xs = slot_fields cfg spar"
    using split_fields [of "slot_fields cfg spar" cur] assms(1) by (auto simp: sum_slot_fields)
  have "length xs = 12"
    using arg_cong [OF xs(2), of length] by (simp add: slot_fields_def Let_def)
  then obtain a b c d e f g h i j k l where "xs = [a, b, c, d, e, f, g, h, i, j, k, l]"
    by (auto simp: numeral_eq_Suc length_Suc_conv)
  moreover have "drop (slot_width cfg spar) cur = rest"
    using xs by (simp add: length_concat flip: sum_slot_fields)
  ultimately show ?thesis
    using parse_slot_fields [OF _ assms(2,3)] xs by metis
qed

lemma parse_slots_total:
  assumes "sum_list (map (slot_width cfg) spars) \<le> length cur" "\<forall>spar\<in>set spars. 0 < AxADDR spar \<and> 0 < xDATA spar"
  shows "\<exists>r. parse_slots cfg cur i spars time orf t = Some r"
  using assms
proof (induction spars arbitrary: cur i orf t)
  case (Cons spar spars)
  then obtain fl t' where "parse_slot cfg cur i spar time t = Some (fl, drop (slot_width cfg spar) cur, t')"
    using parse_slot_total [of cfg spar cur i time t] by auto
  then show ?case
    using Cons by simp
qed simp

lemma parse_entry_total:
  assumes "cfg_ok cfg" "length cur = TCD_ENTRY_BITS cfg"
  shows "\<exists>r. parse_entry cfg cur time t = Some r"
proof -
  have "128 \<le> length cur"
    using assms(2) by (simp add: TCD_ENTRY_BITS_def)
  then obtain a b c sw rest where "cur = concat [a, b, c, sw] @ rest" "map length [a, b, c, sw] = [1, 30, 1, 32]"
    using split_fields [of "[1, 30, 1, 32]" cur] by (auto simp: numeral_eq_Suc map_eq_Cons_conv)
  then have cur: "cur = a @ b @ c @ sw @ rest" "length a = 1" "length b = 30" "length c = 1" "length sw = 32"
    by simp_all
  have "sum_list (map (slot_width cfg) (slot_param cfg)) \<le> length (sw @ rest)"
    using assms cur by (simp add: cfg_ok_def LOGID_def TIMESTAMP_def LOOP_def)
  then have "\<exists>r. parse_slots cfg (sw @ rest) 0 (slot_param cfg) tm 0 t' = Some r" for tm t'
    using assms(1) by (intro parse_slots_total) (simp_all add: cfg_ok_def)
  moreover obtain buf where "next_hexstr (str_buf 32) (sw @ rest) 32 = Some (buf, rest)"
    using next_hexstr_bits [of sw 32 "str_buf 32" rest] cur by (auto simp: str_buf_def)
  ultimately show ?thesis
    by (simp add: parse_entry_def next_uint_bits LOGID_def TIMESTAMP_def LOOP_def SW_PACKET_def Let_def cur split_beta bind_eq_Some_conv)
qed

lemma read_entry_True:
  "read_entry cfg fin t = (True, entry, rest, t') \<Longrightarrow> length entry = TCD_ENTRY_BITS cfg"
  by (auto simp: read_entry_def TCD_ENTRY_BITS_def dest!: read_entry_loop_length split: if_splits)

lemma trace_loop_total:
  assumes "cfg_ok cfg"
  shows "\<exists>t'. trace_loop cfg fin time t = Some t'"
proof (induction "length fin" arbitrary: fin time t rule: less_induct)
  case less
  obtain ok entry rest t1 where r: "read_entry cfg fin t = (ok, entry, rest, t1)"
    by (metis prod_cases4)
  show ?case
  proof (cases ok)
    case True
    have "length rest < length fin"
      using r True TCD_ENTRY_BITS_pos [of cfg] by (auto simp: read_entry_def dest!: read_entry_loop_length)
    moreover obtain tm t2 where "parse_entry cfg entry time t1 = Some (tm, t2)"
      using parse_entry_total [OF assms, of entry time t1] read_entry_True r True by fastforce
    ultimately show ?thesis
      using r True less by (simp add: trace_loop.simps [of cfg fin])
  next
    case False
    with r show ?thesis
      by (simp add: trace_loop.simps [of cfg fin])
  qed
qed

section \<open>The meaning of a trace\<close>

text \<open>
  What the trace device writes: the fields of a slot, an entry for a software event or for
  the slots, padded with zeros, and the bytes of the entry, least significant bit first.
\<close>

definition nbits :: "nat \<Rightarrow> nat \<Rightarrow> bool list" where
  "nbits n v = map (bit v) [0..<n]"

lemma length_nbits [simp]: "length (nbits n v) = n"
  by (simp add: nbits_def)

lemma bits_val_nbits: "v < 2 ^ n \<Longrightarrow> bits_val (nbits n v) = v"
  by (simp add: bits_val_def nbits_def horner_sum_bit_eq_take_bit take_bit_nat_eq_self)

record slot_ev =
  ev_ext :: nat
  ev_flags :: nat
  ev_arlen :: nat
  ev_awlen :: nat
  ev_rid :: nat
  ev_arid :: nat
  ev_bid :: nat
  ev_awid :: nat
  ev_araddr :: nat
  ev_awaddr :: nat
  ev_rdata :: nat
  ev_wdata :: nat

definition ev_values :: "slot_ev \<Rightarrow> nat list" where
  "ev_values e = [ev_ext e, ev_flags e, ev_arlen e, ev_awlen e, ev_rid e, ev_arid e, ev_bid e, ev_awid e,
     ev_araddr e, ev_awaddr e, ev_rdata e, ev_wdata e]"

definition slot_fits :: "trace_config \<Rightarrow> sparam_t \<Rightarrow> slot_ev \<Rightarrow> bool" where
  "slot_fits cfg spar e = list_all2 (\<lambda>n v. v < 2 ^ n) (take 10 (slot_fields cfg spar)) (take 10 (ev_values e))"

definition enc_slot :: "trace_config \<Rightarrow> sparam_t \<Rightarrow> slot_ev \<Rightarrow> bool list" where
  "enc_slot cfg spar e = concat (map2 nbits (slot_fields cfg spar) (ev_values e))"

definition hexfield :: "nat \<Rightarrow> nat \<Rightarrow> string" where
  "hexfield w v = ''0x'' @ hexbits (nbits w v)"

lemma hexfield_value: "v < 2 ^ w \<Longrightarrow> 0 < w \<Longrightarrow>
    take 2 (hexfield w v) = ''0x'' \<and> length (hexfield w v) = (w + 3) div 4 + 2 \<and> hex_value (drop 2 (hexfield w v)) = v"
  by (simp add: hexfield_def hex_value_hexbits bits_val_nbits length_hexbits numeral_2_eq_2)

text \<open>
  The text for a trace is a table. A row has the columns slot, kind, address, data, length,
  identifier and time; a column that has no meaning for the kind is empty, and the column for
  the data is there only when data are shown.
\<close>

fun csv :: "string list \<Rightarrow> string" where
  "csv [] = []"
| "csv [x] = x"
| "csv (x # xs) = x @ '','' @ csv xs"

record trace_row =
  row_slot :: string
  row_kind :: string
  row_addr :: string
  row_data :: string
  row_len :: string
  row_id :: string

definition show_row :: "trace_config \<Rightarrow> u64 \<Rightarrow> trace_row \<Rightarrow> string" where
  "show_row cfg time r =
     csv ([row_slot r, row_kind r, row_addr r] @ (if SHOW_AXI_DATA cfg then [row_data r] else []) @
       [row_len r, row_id r, fmt_u (unat time)]) @ nl"

text \<open>
  What happens on the bus of a slot: addresses with the length of the burst and the identifier
  on the two address channels, data in a phase of the burst on the two data channels, and the
  response to a write. A slot whose flags name no such phase is not understood.
\<close>

datatype beat_phase = Only_beat | First_beat | Mid_beat | Last_beat

datatype bus_event =
    Write_addr nat nat nat
  | Write_data beat_phase nat
  | Write_resp nat
  | Read_addr nat nat nat
  | Read_data beat_phase nat nat
  | Bad_flags

text \<open>The phase of the data, from the bits for the first, a middle and the last beat.\<close>

fun data_phase :: "bool \<Rightarrow> bool \<Rightarrow> bool \<Rightarrow> beat_phase option" where
  "data_phase True False True = Some Only_beat"
| "data_phase True False False = Some First_beat"
| "data_phase False True False = Some Mid_beat"
| "data_phase False False True = Some Last_beat"
| "data_phase _ _ _ = None"

text \<open>
  The events of a slot in the order they are listed. The bits of the flags are, from the
  lowest: write address, first and last write beat, write response, read address, first and
  last read beat, middle write beat, middle read beat. Flags that are not understood end it.
\<close>

definition read_events :: "slot_ev \<Rightarrow> bus_event list" where
  "read_events e =
     (let f = bit (ev_flags e)
      in (if f 4 then [Read_addr (ev_araddr e) (ev_arlen e) (ev_arid e)] else []) @
         (if f 5 \<or> f 8 \<or> f 6
          then (case data_phase (f 5) (f 8) (f 6) of
                  None \<Rightarrow> [Bad_flags]
                | Some ph \<Rightarrow> [Read_data ph (ev_rdata e) (ev_rid e)])
          else []))"

definition slot_events :: "slot_ev \<Rightarrow> bus_event list" where
  "slot_events e =
     (let f = bit (ev_flags e);
          after = (if f 3 then [Write_resp (ev_bid e)] else []) @ read_events e
      in (if f 0 then [Write_addr (ev_awaddr e) (ev_awlen e) (ev_awid e)] else []) @
         (if f 1 \<or> f 7 \<or> f 2
          then (case data_phase (f 1) (f 7) (f 2) of
                  None \<Rightarrow> [Bad_flags]
                | Some ph \<Rightarrow> Write_data ph (ev_wdata e) # after)
          else after))"

definition phase_letter :: "beat_phase \<Rightarrow> string" where
  "phase_letter ph = (case ph of Only_beat \<Rightarrow> ''D'' | First_beat \<Rightarrow> ''F'' | Mid_beat \<Rightarrow> ''M'' | Last_beat \<Rightarrow> ''L'')"

text \<open>Lengths are in bytes; numbers have the 32 bits of an \<^verbatim>\<open>unsigned\<close>.\<close>

definition show_u32 :: "nat \<Rightarrow> string" where
  "show_u32 n = fmt_u (n mod 2 ^ 32)"

definition show_len :: "sparam_t \<Rightarrow> nat \<Rightarrow> string" where
  "show_len spar beats = fmt_u ((beats + 1) * xDATA spar mod 2 ^ 32 div 8)"

definition event_row :: "nat \<Rightarrow> sparam_t \<Rightarrow> bus_event \<Rightarrow> trace_row" where
  "event_row slot spar ev =
     (let r = \<lparr>row_slot = fmt_u slot, row_kind = [], row_addr = [], row_data = [], row_len = [], row_id = []\<rparr>
      in case ev of
           Write_addr a l i \<Rightarrow>
             r\<lparr>row_kind := ''W'', row_addr := hexfield (AxADDR spar) a, row_len := show_len spar l, row_id := show_u32 i\<rparr>
         | Write_data ph d \<Rightarrow> r\<lparr>row_kind := phase_letter ph @ ''W'', row_data := hexfield (xDATA spar) d\<rparr>
         | Write_resp i \<Rightarrow> r\<lparr>row_kind := ''B'', row_id := show_u32 i\<rparr>
         | Read_addr a l i \<Rightarrow>
             r\<lparr>row_kind := ''R'', row_addr := hexfield (AxADDR spar) a, row_len := show_len spar l, row_id := show_u32 i\<rparr>
         | Read_data ph d i \<Rightarrow>
             r\<lparr>row_kind := phase_letter ph @ ''R'', row_data := hexfield (xDATA spar) d, row_id := show_u32 i\<rparr>
         | Bad_flags \<Rightarrow> r)"

definition show_event :: "trace_config \<Rightarrow> nat \<Rightarrow> sparam_t \<Rightarrow> u64 \<Rightarrow> nat \<Rightarrow> bus_event \<Rightarrow> tio \<Rightarrow> tio" where
  "show_event cfg slot spar time flags ev =
     (if ev = Bad_flags
      then errp (''ERROR: INCONSISTENT FLAGS:'' @ fmt_altX (flags mod 2 ^ 32) @ '' SLOT:'' @ fmt_u slot @ nl)
      else outp (show_row cfg time (event_row slot spar ev)))"

text \<open>The text for the events of a slot.\<close>

definition show_slot :: "trace_config \<Rightarrow> nat \<Rightarrow> sparam_t \<Rightarrow> u64 \<Rightarrow> slot_ev \<Rightarrow> tio \<Rightarrow> tio" where
  "show_slot cfg slot spar time e = fold (show_event cfg slot spar time (ev_flags e)) (slot_events e)"

text \<open>What the program prints for the flags and fields of a slot is this text.\<close>

lemma flag_bit:
  "(of_nat n :: u32) AND XAPM_FLAG_WRADDR_TP \<noteq> 0 \<longleftrightarrow> bit n 0"
  "(of_nat n :: u32) AND XAPM_FLAG_RESPONSE_TP \<noteq> 0 \<longleftrightarrow> bit n 3"
  "(of_nat n :: u32) AND XAPM_FLAG_RDADDR_TP \<noteq> 0 \<longleftrightarrow> bit n 4"
  using and_exp_eq_0_iff_not_bit [of "of_nat n :: u32" 0] and_exp_eq_0_iff_not_bit [of "of_nat n :: u32" 3]
    and_exp_eq_0_iff_not_bit [of "of_nat n :: u32" 4]
  by (simp_all add: flag_defs bit_simps)

lemma and_bit: "(w :: u32) AND 2 ^ k = (if bit w k then 2 ^ k else 0)"
  by (rule bit_word_eqI) (auto simp: bit_simps)

lemma data_bits:
  "(of_nat n :: u32) AND XAPM_FLAG_WRDATA_TP = (if bit n 1 then 2 else 0) OR (if bit n 7 then 0x80 else 0) OR (if bit n 2 then 4 else 0)"
  "(of_nat n :: u32) AND XAPM_FLAG_RDDATA_TP = (if bit n 5 then 0x20 else 0) OR (if bit n 8 then 0x100 else 0) OR (if bit n 6 then 0x40 else 0)"
proof -
  have m: "XAPM_FLAG_WRDATA_TP = 2 ^ 1 OR 2 ^ 7 OR 2 ^ 2" "XAPM_FLAG_RDDATA_TP = 2 ^ 5 OR 2 ^ 8 OR 2 ^ 6"
    by (simp_all add: flag_defs)
  have "bit (of_nat n :: u32) k = bit n k" if "k < 32" for k
    using that by (simp add: bit_simps)
  then show "(of_nat n :: u32) AND XAPM_FLAG_WRDATA_TP = (if bit n 1 then 2 else 0) OR (if bit n 7 then 0x80 else 0) OR (if bit n 2 then 4 else 0)"
    "(of_nat n :: u32) AND XAPM_FLAG_RDDATA_TP = (if bit n 5 then 0x20 else 0) OR (if bit n 8 then 0x100 else 0) OR (if bit n 6 then 0x40 else 0)"
    unfolding m bit.conj_disj_distrib and_bit by simp_all
qed

lemma data_types:
  "(of_nat n :: u32) AND XAPM_FLAG_WRDATA_TP \<noteq> 0 \<longleftrightarrow> bit n 1 \<or> bit n 7 \<or> bit n 2"
  "wr_type (of_nat n AND XAPM_FLAG_WRDATA_TP) = map_option (\<lambda>ph. phase_letter ph @ ''W'') (data_phase (bit n 1) (bit n 7) (bit n 2))"
  "(of_nat n :: u32) AND XAPM_FLAG_RDDATA_TP \<noteq> 0 \<longleftrightarrow> bit n 5 \<or> bit n 8 \<or> bit n 6"
  "rd_type (of_nat n AND XAPM_FLAG_RDDATA_TP) = map_option (\<lambda>ph. phase_letter ph @ ''R'') (data_phase (bit n 5) (bit n 8) (bit n 6))"
  unfolding data_bits
  by (simp_all add: wr_type_def rd_type_def phase_letter_def flag_defs or_eq_0_iff)

lemma show_numbers:
  "fmt_u (unat (of_nat n :: u32)) = show_u32 n"
  "fmt_u (unat (burst_bytes (of_nat n) spar)) = show_len spar n"
proof -
  have "burst_bytes (of_nat n) spar = of_nat ((n + 1) * xDATA spar) div 8"
    by (simp add: burst_bytes_def algebra_simps)
  then show "fmt_u (unat (burst_bytes (of_nat n) spar)) = show_len spar n"
    by (simp only: show_len_def unat_div unat_of_nat) (simp add: unat_of_nat)
qed (simp add: show_u32_def unat_of_nat)

text \<open>The rows written out.\<close>

lemma event_text:
  fixes cfg time slot spar
  defines "sep \<equiv> (if SHOW_AXI_DATA cfg then '','' else [])" and "tm \<equiv> '','' @ fmt_u (unat time) @ nl"
    and "text \<equiv> (\<lambda>ev. show_row cfg time (event_row slot spar ev))"
  shows "text (Write_addr a l i) =
      fmt_u slot @ '',W,'' @ hexfield (AxADDR spar) a @ '','' @ sep @ show_len spar l @ '','' @ show_u32 i @ tm"
    "text (Read_addr a l i) =
      fmt_u slot @ '',R,'' @ hexfield (AxADDR spar) a @ '','' @ sep @ show_len spar l @ '','' @ show_u32 i @ tm"
    "text (Write_resp i) = fmt_u slot @ '',B,,'' @ sep @ '','' @ show_u32 i @ tm"
    "text (Write_data ph d) = fmt_u slot @ '','' @ phase_letter ph @ ''W,,'' @
      (if SHOW_AXI_DATA cfg then hexfield (xDATA spar) d else []) @ sep @ '','' @ tm"
    "text (Read_data ph d i) = fmt_u slot @ '','' @ phase_letter ph @ ''R,,'' @
      (if SHOW_AXI_DATA cfg then hexfield (xDATA spar) d else []) @ sep @ '','' @ show_u32 i @ tm"
  by (simp_all add: assms show_row_def event_row_def)

lemma fold_if: "fold f (if b then xs else ys) t = (if b then fold f xs t else fold f ys t)"
  by simp

lemma print_slot_shows:
  assumes "0 < xDATA spar"
  shows "print_slot (dlen cfg spar) slot time (of_nat (ev_flags e))
      (burst_bytes (of_nat (ev_arlen e)) spar) (burst_bytes (of_nat (ev_awlen e)) spar)
      (of_nat (ev_rid e)) (of_nat (ev_arid e)) (of_nat (ev_bid e)) (of_nat (ev_awid e))
      (hexfield (AxADDR spar) (ev_araddr e)) (hexfield (AxADDR spar) (ev_awaddr e))
      (data_str cfg (nbits (xDATA spar) (ev_rdata e))) (data_str cfg (nbits (xDATA spar) (ev_wdata e))) t =
    show_slot cfg slot spar time e t"
proof -
  have d: "fmt_prec (dlen cfg spar) (data_str cfg (nbits (xDATA spar) v)) =
      (if SHOW_AXI_DATA cfg then hexfield (xDATA spar) v else [])"
    "fmt_prec (dlen cfg spar) '','' = (if SHOW_AXI_DATA cfg then '','' else [])" for v
    using assms by (simp_all add: fmt_prec_def dlen_def data_str_def hexfield_def length_hexbits)
  note spec = show_u32_def show_slot_def slot_events_def read_events_def Let_def fold_if show_event_def event_text
  note code = print_slot_def flag_bit data_types show_numbers inconsistent_def unat_of_nat d
  show ?thesis
  proof (cases "bit (ev_flags e) 1 \<or> bit (ev_flags e) 7 \<or> bit (ev_flags e) 2")
    case True
    then show ?thesis
      by (cases "data_phase (bit (ev_flags e) 1) (bit (ev_flags e) 7) (bit (ev_flags e) 2)";
          cases "data_phase (bit (ev_flags e) 5) (bit (ev_flags e) 8) (bit (ev_flags e) 6)")
        (simp_all add: spec code cong: if_cong split del: if_split)
  next
    case False
    then show ?thesis
      by (cases "data_phase (bit (ev_flags e) 5) (bit (ev_flags e) 8) (bit (ev_flags e) 6)")
        (simp_all add: spec code cong: if_cong split del: if_split)
  qed
qed

lemma parse_slot_enc:
  assumes "slot_fits cfg spar e" "0 < AxADDR spar" "0 < xDATA spar"
  shows "parse_slot cfg (enc_slot cfg spar e @ rest) slot spar time t =
     Some (of_nat (ev_flags e), rest, show_slot cfg slot spar time e t)"
proof -
  let ?d = "if SHOW_AXI_DATA cfg then xDATA spar else 0"
  have "enc_slot cfg spar e = concat [nbits (EXT_EVENT spar) (ev_ext e), nbits (FLAGS spar) (ev_flags e),
      nbits (AxLEN spar) (ev_arlen e), nbits (AxLEN spar) (ev_awlen e), nbits (xxID spar) (ev_rid e),
      nbits (xxID spar) (ev_arid e), nbits (xxID spar) (ev_bid e), nbits (xxID spar) (ev_awid e),
      nbits (AxADDR spar) (ev_araddr e), nbits (AxADDR spar) (ev_awaddr e), nbits ?d (ev_rdata e), nbits ?d (ev_wdata e)]"
    by (simp add: enc_slot_def slot_fields_def ev_values_def Let_def)
  moreover have "map length [nbits (EXT_EVENT spar) (ev_ext e), nbits (FLAGS spar) (ev_flags e),
      nbits (AxLEN spar) (ev_arlen e), nbits (AxLEN spar) (ev_awlen e), nbits (xxID spar) (ev_rid e),
      nbits (xxID spar) (ev_arid e), nbits (xxID spar) (ev_bid e), nbits (xxID spar) (ev_awid e),
      nbits (AxADDR spar) (ev_araddr e), nbits (AxADDR spar) (ev_awaddr e), nbits ?d (ev_rdata e), nbits ?d (ev_wdata e)] =
      slot_fields cfg spar"
    by (simp add: slot_fields_def Let_def)
  note parse_slot_fields [OF this assms(2,3), of rest slot time t]
  ultimately show ?thesis
    using assms(1) print_slot_shows [OF assms(3), of cfg slot time e t]
    by (cases "SHOW_AXI_DATA cfg")
      (simp_all add: slot_fits_def slot_fields_def ev_values_def Let_def bits_val_nbits hexfield_def data_str_def)
qed

datatype trace_ev = SwEv nat bool nat | SlotEv nat bool "slot_ev list"

definition enc_entry :: "trace_config \<Rightarrow> trace_ev \<Rightarrow> bool list" where
  "enc_entry cfg ev = (case ev of
     SwEv delta lp pkt \<Rightarrow> [True] @ nbits TIMESTAMP delta @ [lp] @ nbits SW_PACKET pkt
   | SlotEv delta lp es \<Rightarrow> [False] @ nbits TIMESTAMP delta @ [lp] @ concat (map2 (enc_slot cfg) (slot_param cfg) es))"

definition pad_entry :: "trace_config \<Rightarrow> trace_ev \<Rightarrow> bool list" where
  "pad_entry cfg ev = enc_entry cfg ev @ replicate (TCD_ENTRY_BITS cfg - length (enc_entry cfg ev)) False"

text \<open>An entry has to fit, and one that is zero throughout would end the trace.\<close>

definition ev_ok :: "trace_config \<Rightarrow> trace_ev \<Rightarrow> bool" where
  "ev_ok cfg ev = (case ev of
     SwEv delta lp pkt \<Rightarrow> delta < 2 ^ TIMESTAMP \<and> pkt < 2 ^ SW_PACKET
   | SlotEv delta lp es \<Rightarrow> delta < 2 ^ TIMESTAMP \<and> list_all2 (slot_fits cfg) (slot_param cfg) es \<and>
       True \<in> set (enc_entry cfg ev))"

fun show_slots :: "trace_config \<Rightarrow> nat \<Rightarrow> sparam_t list \<Rightarrow> u64 \<Rightarrow> slot_ev list \<Rightarrow> tio \<Rightarrow> tio" where
  "show_slots cfg i (spar # spars) time (e # es) t =
     show_slots cfg (i + 1) spars time es (show_slot cfg i spar time e t)"
| "show_slots cfg i spars time es t = t"

fun show_ev :: "trace_config \<Rightarrow> trace_ev \<Rightarrow> u64 \<times> tio \<Rightarrow> u64 \<times> tio" where
  "show_ev cfg (SwEv delta lp pkt) (time, t) =
     (let time = time + of_nat delta;
          t = (if lp then errp (''WARNING: TIMING OVERFLOW'' @ nl) t else t)
      in (time, outp (show_row cfg time \<lparr>row_slot = ''S'', row_kind = [], row_addr = hexfield SW_PACKET pkt, row_data = [],
            row_len = [], row_id = []\<rparr>) t))"
| "show_ev cfg (SlotEv delta lp es) (time, t) =
     (let time = time + of_nat delta;
          t = (if lp then errp (''WARNING: TIMING OVERFLOW'' @ nl) t else t);
          t = show_slots cfg 0 (slot_param cfg) time es t
      in (time, if \<forall>e\<in>set es. ev_flags e mod 2 ^ 32 = 0
                then errp (''ERROR: ENTRY WITH NO FLAGS'' @ nl) t else t))"

lemma or_flags_0: "foldr (\<lambda>e f. of_nat (ev_flags e) OR f) es (0 :: u32) = 0 \<longleftrightarrow> (\<forall>e\<in>set es. ev_flags e mod 2 ^ 32 = 0)"
  by (induction es) (simp_all add: or_eq_0_iff word_of_nat_eq_0_iff mod_eq_0_iff_dvd)

lemma parse_slots_enc:
  assumes "list_all2 (slot_fits cfg) spars es" "\<forall>spar\<in>set spars. 0 < AxADDR spar \<and> 0 < xDATA spar"
  shows "parse_slots cfg (concat (map2 (enc_slot cfg) spars es) @ rest) i spars time orf t =
     Some (orf OR foldr (\<lambda>e f. of_nat (ev_flags e) OR f) es 0, show_slots cfg i spars time es t)"
  using assms
proof (induction arbitrary: i orf t rule: list_all2_induct)
  case (Cons spar spars e es)
  then show ?case
    by (simp add: parse_slot_enc or.assoc)
qed simp

lemma next_uint_1: "next_uint (b # rest) (Suc 0) = Some (if b then 1 else 0, rest)"
  by (simp add: next_uint_def)

lemma parse_entry_head:
  assumes "delta < 2 ^ TIMESTAMP"
  shows "parse_entry cfg ([l] @ nbits TIMESTAMP delta @ [lp] @ body) time t =
     (let time = time + of_nat delta; t = (if lp then errp (''WARNING: TIMING OVERFLOW'' @ nl) t else t)
      in if l then do {
           (SW, cursor) \<leftarrow> next_hexstr (str_buf SW_PACKET) body SW_PACKET;
           Some (time, outp (''S,,'' @ cstr SW @ '','' @ fmt_prec (if SHOW_AXI_DATA cfg then 1 else 0) '','' @ '',,'' @
             fmt_u (unat time) @ nl) t)
         } else do {
           (orflags, t) \<leftarrow> parse_slots cfg body 0 (slot_param cfg) time 0 t;
           Some (time, if orflags = 0 then errp (''ERROR: ENTRY WITH NO FLAGS'' @ nl) t else t)
         })"
proof -
  have "delta < 2 ^ 32"
    using assms by (simp add: TIMESTAMP_def)
  then have "ucast (of_nat delta :: u32) = (of_nat delta :: u64)"
    by (simp add: unsigned_of_nat take_bit_nat_eq_self)
  then show ?thesis
    using next_uint_bits [of "nbits TIMESTAMP delta" TIMESTAMP "lp # body"] assms
    by (simp add: parse_entry_def next_uint_1 LOGID_def LOOP_def SW_ID_def TRACE_ID_def Let_def bits_val_nbits)
qed

lemma parse_entry_enc:
  assumes "cfg_ok cfg" "ev_ok cfg ev"
  shows "parse_entry cfg (enc_entry cfg ev @ rest) time t = Some (show_ev cfg ev (time, t))"
proof (cases ev)
  case (SwEv delta lp pkt)
  obtain buf where "next_hexstr (str_buf SW_PACKET) (nbits SW_PACKET pkt @ rest) SW_PACKET = Some (buf, rest)"
    "cstr buf = hexfield SW_PACKET pkt"
    using next_hexstr_bits [of "nbits SW_PACKET pkt" SW_PACKET "str_buf SW_PACKET" rest]
    by (auto simp: str_buf_def SW_PACKET_def hexfield_def)
  then show ?thesis
    using assms(2) parse_entry_head [of delta cfg True lp "nbits SW_PACKET pkt @ rest"]
    by (simp add: SwEv enc_entry_def ev_ok_def Let_def fmt_prec_def show_row_def)
next
  case (SlotEv delta lp es)
  then have "list_all2 (slot_fits cfg) (slot_param cfg) es" "delta < 2 ^ TIMESTAMP"
    using assms(2) by (simp_all add: ev_ok_def)
  then show ?thesis
    using assms(1) parse_entry_head [of delta cfg False lp "concat (map2 (enc_slot cfg) (slot_param cfg) es) @ rest"]
    by (simp add: SlotEv enc_entry_def Let_def parse_slots_enc cfg_ok_def or_flags_0)
qed

section \<open>Reading entries\<close>

fun pack :: "bool list \<Rightarrow> u8 list" where
  "pack bs = (if length bs < 8 then [] else of_nat (bits_val (take 8 bs)) # pack (drop 8 bs))"

declare pack.simps [simp del]

lemma bit_bits_val: "bit (bits_val bs) n \<longleftrightarrow> n < length bs \<and> bs ! n"
  by (simp add: bits_val_def bit_horner_sum_bit_iff)

lemma bit_byte: "bit (of_nat v :: u8) n \<longleftrightarrow> n < 8 \<and> bit v n"
  by (simp add: bit_simps)

lemma byte_bits_val:
  assumes "length bs = 8"
  shows "byte_bits (of_nat (bits_val bs)) = bs" "(of_nat (bits_val bs) :: u8) = 0 \<longleftrightarrow> True \<notin> set bs"
proof -
  show "byte_bits (of_nat (bits_val bs)) = bs"
    using assms by (intro nth_equalityI) (simp_all add: byte_bits_def bit_byte bit_bits_val)
  have "(of_nat (bits_val bs) :: u8) = 0 \<longleftrightarrow> (\<forall>n<8. \<not> bs ! n)"
    unfolding bit_eq_iff [where ?'a = "8 word"] using assms by (auto simp: bit_byte bit_bits_val)
  also have "\<dots> \<longleftrightarrow> True \<notin> set bs"
    using assms by (auto simp: in_set_conv_nth)
  finally show "(of_nat (bits_val bs) :: u8) = 0 \<longleftrightarrow> True \<notin> set bs" .
qed

lemma read_entry_loop_pack:
  "length bs = 8 * n \<Longrightarrow>
     read_entry_loop n (pack bs @ rest) tmp entry t =
       (if tmp = 0 \<and> True \<notin> set bs
        then (False, entry @ bs, rest, errp (''TRACE END... ZEROES FOUND'' @ nl) t)
        else (True, entry @ bs, rest, t))"
proof (induction n arbitrary: bs tmp entry)
  case 0
  then show ?case
    by (simp add: pack.simps)
next
  case (Suc n)
  let ?b = "take 8 bs"
  have b: "byte_bits (of_nat (bits_val ?b)) = ?b" "(of_nat (bits_val ?b) :: u8) = 0 \<longleftrightarrow> True \<notin> set ?b"
    using Suc.prems byte_bits_val [of ?b] by simp_all
  have set: "True \<notin> set bs \<longleftrightarrow> True \<notin> set ?b \<and> True \<notin> set (drop 8 bs)"
    by (metis Un_iff append_take_drop_id set_append)
  have "read_entry_loop (Suc n) (pack bs @ rest) tmp entry t =
      read_entry_loop n (pack (drop 8 bs) @ rest) (tmp OR of_nat (bits_val ?b)) (entry @ ?b) t"
    using Suc.prems b(1) by (simp add: pack.simps [of bs])
  also have "\<dots> = (if tmp OR of_nat (bits_val ?b) = 0 \<and> True \<notin> set (drop 8 bs)
        then (False, (entry @ ?b) @ drop 8 bs, rest, errp (''TRACE END... ZEROES FOUND'' @ nl) t)
        else (True, (entry @ ?b) @ drop 8 bs, rest, t))"
    using Suc.prems by (intro Suc.IH) simp
  also have "(tmp OR of_nat (bits_val ?b) = 0) = (tmp = 0 \<and> True \<notin> set ?b)"
    using b(2) by (simp add: or_eq_0_iff)
  finally show ?case
    using set by auto
qed

definition entry_bytes :: "trace_config \<Rightarrow> trace_ev \<Rightarrow> u8 list" where
  "entry_bytes cfg ev = pack (pad_entry cfg ev)"

lemma length_enc_slot: "length (enc_slot cfg spar e) = slot_width cfg spar"
  by (simp add: enc_slot_def slot_fields_def ev_values_def slot_width_def Let_def)

lemma length_enc_entry:
  assumes "cfg_ok cfg" "ev_ok cfg ev"
  shows "length (enc_entry cfg ev) \<le> TCD_ENTRY_BITS cfg"
proof -
  have "length (concat (map2 (enc_slot cfg) spars es)) = sum_list (map (slot_width cfg) spars)"
    if "list_all2 (slot_fits cfg) spars es" for spars es
    using that by (induction rule: list_all2_induct) (simp_all add: length_enc_slot)
  moreover have "64 \<le> TCD_ENTRY_BITS cfg"
    by (simp add: TCD_ENTRY_BITS_def)
  ultimately show ?thesis
    using assms
    by (auto simp: enc_entry_def ev_ok_def cfg_ok_def LOGID_def TIMESTAMP_def LOOP_def SW_PACKET_def split: trace_ev.splits)
qed

lemma read_entry_bytes:
  assumes "cfg_ok cfg" "ev_ok cfg ev"
  shows "read_entry cfg (entry_bytes cfg ev @ rest) t = (True, pad_entry cfg ev, rest, t)"
proof -
  have "length (pad_entry cfg ev) = 8 * (TCD_ENTRY_BITS cfg div 8)"
    using length_enc_entry [OF assms] by (simp add: pad_entry_def TCD_ENTRY_BITS_def)
  moreover have "True \<in> set (pad_entry cfg ev)"
    using assms(2) by (auto simp: pad_entry_def ev_ok_def enc_entry_def split: trace_ev.splits)
  ultimately show ?thesis
    by (simp add: read_entry_def entry_bytes_def read_entry_loop_pack)
qed

text \<open>A trace ends with the file or with an entry of zeros.\<close>

definition trace_tail :: "trace_config \<Rightarrow> u8 list \<Rightarrow> bool" where
  "trace_tail cfg tail \<longleftrightarrow> length tail < TCD_ENTRY_BITS cfg div 8 \<or>
     (\<forall>b\<in>set (take (TCD_ENTRY_BITS cfg div 8) tail). b = 0)"

definition end_message :: "trace_config \<Rightarrow> u8 list \<Rightarrow> string" where
  "end_message cfg tail =
     (if length tail < TCD_ENTRY_BITS cfg div 8 then ''TRACE END... EOF FOUND'' else ''TRACE END... ZEROES FOUND'') @ nl"

lemma read_entry_loop_tail:
  assumes "length tail < n \<or> tmp = 0 \<and> (\<forall>b\<in>set (take n tail). b = 0)"
  shows "\<exists>e rest. read_entry_loop n tail tmp entry t =
     (False, e, rest, errp ((if length tail < n then ''TRACE END... EOF FOUND'' else ''TRACE END... ZEROES FOUND'') @ nl) t)"
  using assms by (induction n tail tmp entry t rule: read_entry_loop.induct) (auto simp: or_eq_0_iff)

lemma trace_loop_decodes:
  assumes "cfg_ok cfg" "trace_tail cfg tail" "\<forall>ev\<in>set evs. ev_ok cfg ev"
  shows "trace_loop cfg (concat (map (entry_bytes cfg) evs) @ tail) time t =
     Some (errp (end_message cfg tail) (snd (fold (show_ev cfg) evs (time, t))))"
  using assms(3)
proof (induction evs arbitrary: time t)
  case Nil
  obtain e rest where "read_entry cfg tail t = (False, e, rest, errp (end_message cfg tail) t)"
    using read_entry_loop_tail [of tail "TCD_ENTRY_BITS cfg div 8" 0 "[]" t] assms(2)
    by (auto simp: read_entry_def trace_tail_def end_message_def)
  then show ?case
    by (simp add: trace_loop.simps [of cfg tail])
next
  case (Cons ev evs)
  have "parse_entry cfg (pad_entry cfg ev) time t = Some (show_ev cfg ev (time, t))"
    using Cons.prems assms(1) by (simp add: pad_entry_def parse_entry_enc)
  then have "trace_loop cfg (entry_bytes cfg ev @ concat (map (entry_bytes cfg) evs) @ tail) time t =
      (case show_ev cfg ev (time, t) of (time, t) \<Rightarrow> trace_loop cfg (concat (map (entry_bytes cfg) evs) @ tail) time t)"
    using Cons.prems assms(1)
    by (subst trace_loop.simps) (simp add: read_entry_bytes)
  then show ?case
    using Cons by (cases "show_ev cfg ev (time, t)") simp
qed

section \<open>Properties\<close>

text \<open>C28: For a configuration whose fields fit the entry, the converter never reads outside an entry nor
  writes outside a string buffer and ends, for any arguments and any input file.\<close>

theorem parser_total:
  assumes "cfg_ok cfg"
  shows "\<exists>code t. parser_main cfg rd wr stdin argv = Some (code, t)"
proof -
  define f where "f fin time t = the (trace_loop cfg fin time t)" for fin time t
  have "trace_loop cfg fin time t = Some (f fin time t)" for fin time t
    using trace_loop_total [OF assms, of fin time t] by (auto simp: f_def)
  then show ?thesis
    by (simp add: parser_main_def Let_def split_beta split: option.split)
qed

definition data_config :: trace_config where
  "data_config = def_config\<lparr>SHOW_AXI_DATA := True, FIFO_AXIS_TDATA_WIDTH := 712\<rparr>"

lemma configs_ok: "cfg_ok def_config" "cfg_ok data_config"
  by (simp_all add: cfg_ok_def def_config_def data_config_def slot_width_def TCD_ENTRY_BITS_def
      LOGID_def TIMESTAMP_def LOOP_def)

theorem parser_total_witness:
  "\<exists>code t. parser_main data_config (\<lambda>f. Some (replicate 300 0x5A)) (\<lambda>f. True) [] [''-v'', ''in'', ''out''] = Some (code, t)"
  by (rule parser_total) (rule configs_ok)

text \<open>C6: Given a file with any sequence of entries as the trace device writes them, ended by the end of the
  file or an entry of zeros, the converter succeeds and its output is the table of the events of the
  entries, in order, each entry at the sum of the time differences up to it. An entry of the software is one
  row; an entry of the slots has for each slot, in order, a row for each event its flags name: a write
  address, write data, a write response, a read address, read data, with the address, length and identifier
  of its own channel in their columns. Flags that name no phase of a burst give an error message instead of
  the data and the events after them.\<close>

theorem parser_decodes_trace:
  assumes "cfg_ok cfg" "\<forall>ev\<in>set evs. ev_ok cfg ev" "trace_tail cfg tail"
    and "rd ifile = Some (concat (map (entry_bytes cfg) evs) @ tail)" "wr ofile"
    and "take 1 ifile \<noteq> ''-''" "take 1 ifile \<noteq> ''?''"
  shows "parser_main cfg rd wr stdin [ifile, ofile] =
     Some (EXIT_SUCCESS, errp (end_message cfg tail)
       (snd (fold (show_ev cfg) evs (0, \<lparr>tout = [], terr = ''TRACE START...'' @ nl\<rparr>))))"
proof -
  have "opt_args [ifile, ofile] 0 False t = ([ifile, ofile], 0, False, t)" for t
    using assms(6) by simp
  then show ?thesis
    using assms(4,5,7) trace_loop_decodes [OF assms(1,3,2), of 0 "\<lparr>tout = [], terr = ''TRACE START...'' @ nl\<rparr>"]
    by (simp add: parser_main_def errp_def)
qed

definition demo_slot :: slot_ev where
  "demo_slot = \<lparr>ev_ext = 0, ev_flags = 0x11, ev_arlen = 3, ev_awlen = 0, ev_rid = 1, ev_arid = 2, ev_bid = 3, ev_awid = 4,
     ev_araddr = 0x1234567890, ev_awaddr = 0xABC, ev_rdata = 0, ev_wdata = 0\<rparr>"

definition demo_evs :: "trace_ev list" where
  "demo_evs = [SwEv 5 False 0xCAFE, SlotEv 7 False [demo_slot, demo_slot]]"

definition demo_text :: string where
  "demo_text =
     ''S,,0x0000CAFE,,,5'' @ nl @
     ''0,W,0x0000000ABC,16,4,12'' @ nl @ ''0,R,0x1234567890,64,2,12'' @ nl @
     ''1,W,0x0000000ABC,8,4,12'' @ nl @ ''1,R,0x1234567890,32,2,12'' @ nl"

lemma demo_fields:
  "hexfield SW_PACKET 0xCAFE = ''0x0000CAFE''" "hexfield 40 0xABC = ''0x0000000ABC''" "hexfield 40 0x1234567890 = ''0x1234567890''"
  by (simp_all add: hexfield_def nbits_def SW_PACKET_def upt_rec hexbits.simps bits_val_def hex_digits_def bit_0)

lemma demo_digits: "map fmt_u [0, 1, 2, 4, 5, 8, 12, 16, 32, 64] = [''0'', ''1'', ''2'', ''4'', ''5'', ''8'', ''12'', ''16'', ''32'', ''64'']"
  by (simp add: fmt_u_def digits.simps hex_digits_def)

lemma demo_shown:
  "snd (fold (show_ev def_config) demo_evs (0, \<lparr>tout = [], terr = ''TRACE START...'' @ nl\<rparr>)) =
     \<lparr>tout = demo_text, terr = ''TRACE START...'' @ nl\<rparr>"
  using demo_digits
  by (simp add: demo_evs_def demo_text_def def_config_def demo_slot_def show_row_def outp_def demo_fields Let_def
      show_slot_def slot_events_def read_events_def show_event_def event_row_def show_len_def show_u32_def bit_0)

theorem parser_decodes_trace_witness:
  "parser_main def_config (\<lambda>f. Some (concat (map (entry_bytes def_config) demo_evs) @ [])) (\<lambda>f. True) [] [''in'', ''out''] =
     Some (EXIT_SUCCESS, \<lparr>tout = demo_text, terr = ''TRACE START...'' @ nl @ ''TRACE END... EOF FOUND'' @ nl\<rparr>)"
proof -
  have "True \<in> set (enc_entry def_config (SlotEv 7 False [demo_slot, demo_slot]))"
    by (auto simp: enc_entry_def nbits_def TIMESTAMP_def intro: bexI [of _ "0 :: nat"])
  then have "\<forall>ev\<in>set demo_evs. ev_ok def_config ev"
    by (simp add: demo_evs_def ev_ok_def TIMESTAMP_def SW_PACKET_def slot_fits_def slot_fields_def ev_values_def demo_slot_def
        def_config_def Let_def)
  moreover have "trace_tail def_config []" "end_message def_config [] = ''TRACE END... EOF FOUND'' @ nl"
    by (simp_all add: trace_tail_def end_message_def TCD_ENTRY_BITS_def def_config_def)
  ultimately show ?thesis
    using parser_decodes_trace [OF configs_ok(1), of demo_evs "[]" "\<lambda>f. Some (concat (map (entry_bytes def_config) demo_evs) @ [])"
        "''in''" "\<lambda>f. True" "''out''" "[]"]
    unfolding demo_shown by (simp add: errp_def)
qed

text \<open>The string \<^verbatim>\<open>next_hexstr\<close> leaves in a buffer of the declared size is \<^verbatim>\<open>0x\<close> and just enough hexadecimal
  digits for the width of the field, and reading it back gives the value of the field.\<close>

theorem next_hexstr_roundtrip:
  assumes "v < 2 ^ w" "0 < w" "length buf = (w + 3) div 4 + 3"
  shows "\<exists>buf'. next_hexstr buf (nbits w v @ rest) w = Some (buf', rest) \<and> take 2 (cstr buf') = ''0x'' \<and>
     length (cstr buf') = (w + 3) div 4 + 2 \<and> hex_value (drop 2 (cstr buf')) = v"
  using next_hexstr_bits [of "nbits w v" w buf rest] hexfield_value [OF assms(1,2)] assms
  by (auto simp: hexfield_def)

theorem next_hexstr_roundtrip_witness:
  "\<exists>buf'. next_hexstr (replicate 13 (CHR ''z'')) (nbits 37 0x12345678AB @ [True]) 37 = Some (buf', [True]) \<and>
     take 2 (cstr buf') = ''0x'' \<and> length (cstr buf') = 12 \<and> hex_value (drop 2 (cstr buf')) = 0x12345678AB"
  using next_hexstr_roundtrip [of "0x12345678AB" 37 "replicate 13 (CHR ''z'')" "[True]"] by simp

section \<open>Found by the model\<close>

text \<open>
  The usage line says that the input file is optional and the code has a branch that reads
  standard input, but without a file argument the guard before it always exits.
\<close>

lemma parser_needs_input:
  assumes "fst (opt_args argv 0 False \<lparr>tout = [], terr = []\<rparr>) = []"
  shows "\<exists>t. parser_main cfg rd wr stdin argv = Some (EXIT_FAILURE, t)"
  using assms by (simp add: parser_main_def Let_def split_beta)

text \<open>A field of width zero would write its terminator one past the end of its buffer.\<close>

lemma next_hexstr_width_0: "next_hexstr (str_buf 0) cur 0 = None"
  by (simp add: next_hexstr_def str_buf_def put_char_def)

end
