(* ===== verification/Fatfs.thy ===== *)
theory Fatfs
  imports Lime_Prelude
begin

text \<open>
  The POSIX file calls of the standalone build, \<^verbatim>\<open>src/shared/standalone/fatfs.c\<close>: descriptors 0 to 2
  are the console, the others index a table of FatFs file objects. FatFs itself (\<^verbatim>\<open>ff.h\<close>) is a
  parameter, a record of its functions over an arbitrary file object and volume; what the
  properties use of it is the locale below, and a small file system that keeps one
  file in memory is an instance. The diagnostics that the file prints with \<^verbatim>\<open>xil_printf\<close> on
  errors are left out. Widths are those of the 64-bit target: \<^verbatim>\<open>size_t\<close> and \<^verbatim>\<open>off_t\<close> have 64 bits,
  \<^verbatim>\<open>UINT\<close> and \<^verbatim>\<open>DWORD\<close> of FatFs 32, and an argument passed to FatFs is cut to them.
\<close>

section \<open>FatFs\<close>

datatype FRESULT =
    FR_OK | FR_DISK_ERR | FR_INT_ERR | FR_NOT_READY | FR_NO_FILE | FR_NO_PATH | FR_INVALID_NAME
  | FR_DENIED | FR_EXIST | FR_INVALID_OBJECT | FR_WRITE_PROTECTED | FR_INVALID_DRIVE | FR_NOT_ENABLED
  | FR_NO_FILESYSTEM | FR_MKFS_ABORTED | FR_TIMEOUT | FR_LOCKED | FR_NOT_ENOUGH_CORE
  | FR_TOO_MANY_OPEN_FILES | FR_INVALID_PARAMETER

datatype posix_err =
    ENONE | EIO | EFAULT | EBUSY | ENOENT | EINVAL | EACCES | EEXIST | EBADF | EROFS | ENODEV | ENOMEM
  | ENXIO | ECANCELED | ENFILE | EMFILE | ENOTTY | ESPIPE

record ('fil, 'v) fatfs =
  f_mount :: "'v \<Rightarrow> FRESULT \<times> 'v"
  f_open :: "string \<Rightarrow> u8 \<Rightarrow> 'fil \<Rightarrow> 'v \<Rightarrow> FRESULT \<times> 'fil \<times> 'v"
  f_chmod :: "string \<Rightarrow> u8 \<Rightarrow> u8 \<Rightarrow> 'v \<Rightarrow> FRESULT \<times> 'v"
  f_truncate :: "'fil \<Rightarrow> 'v \<Rightarrow> FRESULT \<times> 'fil \<times> 'v"
  f_lseek :: "u32 \<Rightarrow> 'fil \<Rightarrow> 'v \<Rightarrow> FRESULT \<times> 'fil \<times> 'v"
  f_read :: "u32 \<Rightarrow> 'fil \<Rightarrow> 'v \<Rightarrow> FRESULT \<times> u8 list \<times> 'fil \<times> 'v"
  f_write :: "u8 list \<Rightarrow> 'fil \<Rightarrow> 'v \<Rightarrow> FRESULT \<times> u32 \<times> 'fil \<times> 'v"
  f_close :: "'fil \<Rightarrow> 'v \<Rightarrow> FRESULT \<times> 'fil \<times> 'v"
  f_unlink :: "string \<Rightarrow> 'v \<Rightarrow> FRESULT \<times> 'v"
  f_tell :: "'fil \<Rightarrow> u32"
  file_size :: "'fil \<Rightarrow> u32"
  fs_null :: "'fil \<Rightarrow> bool"

definition FA_READ :: u8 where "FA_READ = 0x01"
definition FA_WRITE :: u8 where "FA_WRITE = 0x02"
definition FA_CREATE_NEW :: u8 where "FA_CREATE_NEW = 0x04"
definition FA_OPEN_ALWAYS :: u8 where "FA_OPEN_ALWAYS = 0x10"
definition AM_RDO :: u8 where "AM_RDO = 0x01"

text \<open>The flags of \<^verbatim>\<open>fcntl.h\<close> and the mode bit of \<^verbatim>\<open>sys/stat.h\<close>, as the C library of the target has them.\<close>

definition O_WRONLY :: u32 where "O_WRONLY = 0x0001"
definition O_RDWR :: u32 where "O_RDWR = 0x0002"
definition O_APPEND :: u32 where "O_APPEND = 0x0008"
definition O_CREAT :: u32 where "O_CREAT = 0x0200"
definition O_TRUNC :: u32 where "O_TRUNC = 0x0400"
definition O_EXCL :: u32 where "O_EXCL = 0x0800"
definition S_IWUSR :: u32 where "S_IWUSR = 0x80"

lemmas fcntl_defs = O_WRONLY_def O_RDWR_def O_APPEND_def O_CREAT_def O_TRUNC_def O_EXCL_def S_IWUSR_def
  FA_READ_def FA_WRITE_def FA_CREATE_NEW_def FA_OPEN_ALWAYS_def AM_RDO_def

section \<open>State\<close>

definition MAX_FD :: nat where "MAX_FD = 2"

record ('fil, 'v) fat_st =
  mounted :: bool
  fds :: "'fil list"
  ffsvol :: 'v
  errno :: posix_err
  conin :: "char list"
  conout :: "char list"

definition fail :: "posix_err \<Rightarrow> ('fil, 'v) fat_st \<Rightarrow> int \<times> ('fil, 'v) fat_st" where
  "fail e s = (- 1, s\<lparr>errno := e\<rparr>)"

section \<open>Operations\<close>

definition map_access :: "u32 \<Rightarrow> u8" where
  "map_access flags =
     (let access = (if flags AND O_RDWR \<noteq> 0 then FA_READ OR FA_WRITE
                    else if flags AND O_WRONLY \<noteq> 0 then FA_WRITE else FA_READ)
      in if flags AND O_CREAT \<noteq> 0 \<and> flags AND O_EXCL \<noteq> 0 then access OR FA_CREATE_NEW
         else if flags AND O_CREAT \<noteq> 0 then access OR FA_OPEN_ALWAYS else access)"

fun map_error :: "FRESULT \<Rightarrow> posix_err" where
  "map_error FR_DISK_ERR = EIO"
| "map_error FR_INT_ERR = EFAULT"
| "map_error FR_NOT_READY = EBUSY"
| "map_error FR_NO_FILE = ENOENT"
| "map_error FR_NO_PATH = ENOENT"
| "map_error FR_INVALID_NAME = EINVAL"
| "map_error FR_DENIED = EACCES"
| "map_error FR_EXIST = EEXIST"
| "map_error FR_INVALID_OBJECT = EBADF"
| "map_error FR_WRITE_PROTECTED = EROFS"
| "map_error FR_INVALID_DRIVE = ENODEV"
| "map_error FR_NOT_ENABLED = ENOMEM"
| "map_error FR_NO_FILESYSTEM = ENXIO"
| "map_error FR_MKFS_ABORTED = ECANCELED"
| "map_error FR_TIMEOUT = EBUSY"
| "map_error FR_LOCKED = EBUSY"
| "map_error FR_NOT_ENOUGH_CORE = ENOMEM"
| "map_error FR_TOO_MANY_OPEN_FILES = ENFILE"
| "map_error FR_INVALID_PARAMETER = EINVAL"
| "map_error FR_OK = ENONE"

definition isatty :: "int \<Rightarrow> ('fil, 'v) fat_st \<Rightarrow> int \<times> ('fil, 'v) fat_st" where
  "isatty fd s = (if fd < 3 then (1, s) else (0, s\<lparr>errno := ENOTTY\<rparr>))"

definition fcntl :: "int \<Rightarrow> int \<Rightarrow> ('fil, 'v) fat_st \<Rightarrow> int \<times> ('fil, 'v) fat_st" where
  "fcntl fd cmd s = (0, s)"

datatype st_mode = S_IFCHR | S_IFREG

definition fstat :: "int \<Rightarrow> st_mode" where
  "fstat fd = (if fd < 3 then S_IFCHR else S_IFREG)"

text \<open>
  The part of \<^verbatim>\<open>_open\<close> for the free table entry \<open>i\<close>: four calls of FatFs, the last three only under
  their flag; the first that fails ends the call with its error.
\<close>

definition open_file :: "('fil, 'v) fatfs \<Rightarrow> nat \<Rightarrow> string \<Rightarrow> u32 \<Rightarrow> ('fil, 'v) fat_st \<Rightarrow> FRESULT \<times> ('fil, 'v) fat_st" where
  "open_file F i pathname flags s =
     (let (fr, fil, v) = f_open F pathname (map_access flags) (fds s ! i) (ffsvol s)
      in (fr, s\<lparr>fds := (fds s)[i := fil], ffsvol := v\<rparr>))"

definition open_chmod :: "('fil, 'v) fatfs \<Rightarrow> string \<Rightarrow> u32 \<Rightarrow> ('fil, 'v) fat_st \<Rightarrow> FRESULT \<times> ('fil, 'v) fat_st" where
  "open_chmod F pathname flags s =
     (if flags AND O_CREAT \<noteq> 0 then
        let attrib = (if flags AND S_IWUSR \<noteq> 0 then 0 else AM_RDO);
            (fr, v) = f_chmod F pathname attrib AM_RDO (ffsvol s)
        in (fr, s\<lparr>ffsvol := v\<rparr>)
      else (FR_OK, s))"

definition open_trunc :: "('fil, 'v) fatfs \<Rightarrow> nat \<Rightarrow> u32 \<Rightarrow> ('fil, 'v) fat_st \<Rightarrow> FRESULT \<times> ('fil, 'v) fat_st" where
  "open_trunc F i flags s =
     (if flags AND O_TRUNC \<noteq> 0 then
        let (fr, fil, v) = f_truncate F (fds s ! i) (ffsvol s)
        in (fr, s\<lparr>fds := (fds s)[i := fil], ffsvol := v\<rparr>)
      else (FR_OK, s))"

definition open_append :: "('fil, 'v) fatfs \<Rightarrow> nat \<Rightarrow> u32 \<Rightarrow> ('fil, 'v) fat_st \<Rightarrow> FRESULT \<times> ('fil, 'v) fat_st" where
  "open_append F i flags s =
     (if flags AND O_APPEND \<noteq> 0 then
        let (fr, fil, v) = f_lseek F (file_size F (fds s ! i)) (fds s ! i) (ffsvol s)
        in (fr, s\<lparr>fds := (fds s)[i := fil], ffsvol := v\<rparr>)
      else (FR_OK, s))"

fun try_steps :: "(('fil, 'v) fat_st \<Rightarrow> FRESULT \<times> ('fil, 'v) fat_st) list \<Rightarrow> ('fil, 'v) fat_st \<Rightarrow> FRESULT \<times> ('fil, 'v) fat_st" where
  "try_steps [] s = (FR_OK, s)"
| "try_steps (f # fs) s = (let (fr, s) = f s in if fr \<noteq> FR_OK then (fr, s) else try_steps fs s)"

definition open_entry ::
  "('fil, 'v) fatfs \<Rightarrow> nat \<Rightarrow> string \<Rightarrow> u32 \<Rightarrow> ('fil, 'v) fat_st \<Rightarrow> int \<times> ('fil, 'v) fat_st" where
  "open_entry F i pathname flags s =
     (let (fr, s) = try_steps [open_file F i pathname flags, open_chmod F pathname flags, open_trunc F i flags,
                      open_append F i flags] s
      in if fr \<noteq> FR_OK then fail (map_error fr) s else (int i + 3, s))"

fun open_scan ::
  "('fil, 'v) fatfs \<Rightarrow> nat list \<Rightarrow> string \<Rightarrow> u32 \<Rightarrow> ('fil, 'v) fat_st \<Rightarrow> int \<times> ('fil, 'v) fat_st" where
  "open_scan F [] pathname flags s = fail ENFILE s"
| "open_scan F (i # is) pathname flags s =
     (if fs_null F (fds s ! i) then open_entry F i pathname flags s else open_scan F is pathname flags s)"

definition open_w :: "('fil, 'v) fatfs \<Rightarrow> string \<Rightarrow> u32 \<Rightarrow> u32 \<Rightarrow> ('fil, 'v) fat_st \<Rightarrow> int \<times> ('fil, 'v) fat_st" where
  "open_w F pathname flags mode s =
     (let (fr, v) = (if mounted s then (FR_OK, ffsvol s) else f_mount F (ffsvol s));
          s = s\<lparr>ffsvol := v\<rparr>
      in if fr \<noteq> FR_OK then fail ENXIO s
         else open_scan F [0..<MAX_FD] pathname flags (s\<lparr>mounted := True\<rparr>))"

datatype seek_whence = SEEK_SET | SEEK_CUR | SEEK_END | SEEK_OTHER

definition lseek :: "('fil, 'v) fatfs \<Rightarrow> int \<Rightarrow> int \<Rightarrow> seek_whence \<Rightarrow> ('fil, 'v) fat_st \<Rightarrow> int \<times> ('fil, 'v) fat_st" where
  "lseek F fd offset whence s =
     (if fd < 3 then fail ESPIPE s
      else if fd - 3 < int MAX_FD then
        let i = nat (fd - 3); fp = fds s ! i
        in case (case whence of
                   SEEK_SET \<Rightarrow> Some (word_of_int offset)
                 | SEEK_CUR \<Rightarrow> Some (f_tell F fp + word_of_int offset)
                 | SEEK_END \<Rightarrow> Some (file_size F fp + word_of_int offset)
                 | SEEK_OTHER \<Rightarrow> None) of
             None \<Rightarrow> fail EINVAL s
           | Some absoff \<Rightarrow>
             (let (fr, fil, v) = f_lseek F absoff fp (ffsvol s);
                  s = s\<lparr>fds := (fds s)[i := fil], ffsvol := v\<rparr>
              in if fr \<noteq> FR_OK then fail (map_error fr) s else (uint absoff, s))
      else fail EMFILE s)"

text \<open>
  Console input is what will be typed; \<open>None\<close> is waiting for a key for ever. A line end stops the
  read and is part of what was read.
\<close>

fun con_read :: "nat \<Rightarrow> char list \<Rightarrow> (char list \<times> char list) option" where
  "con_read 0 ks = Some ([], ks)"
| "con_read (Suc n) [] = None"
| "con_read (Suc n) (k # ks) =
     (if k = CHR 0x0A \<or> k = CHR 0x0D then Some ([k], ks)
      else map_option (\<lambda>(r, rest). (k # r, rest)) (con_read n ks))"

text \<open>The buffer pointer is null or not; what is stored there is the second result.\<close>

definition read_w ::
  "('fil, 'v) fatfs \<Rightarrow> int \<Rightarrow> bool \<Rightarrow> u64 \<Rightarrow> ('fil, 'v) fat_st \<Rightarrow> (int \<times> u8 list \<times> ('fil, 'v) fat_st) option" where
  "read_w F fd buf_null count s =
     (if buf_null then Some (- 1, [], s\<lparr>errno := EINVAL\<rparr>)
      else if fd < 3 then
        if fd \<noteq> 0 then Some (- 1, [], s\<lparr>errno := EINVAL\<rparr>)
        else map_option (\<lambda>(r, rest). (int (length r), map of_char r, s\<lparr>conin := rest\<rparr>)) (con_read (unat count) (conin s))
      else if fd - 3 < int MAX_FD then
        let i = nat (fd - 3);
            (fr, bs, fil, v) = f_read F (ucast count) (fds s ! i) (ffsvol s);
            s = s\<lparr>fds := (fds s)[i := fil], ffsvol := v\<rparr>
        in if fr \<noteq> FR_OK then Some (- 1, bs, s\<lparr>errno := map_error fr\<rparr>) else Some (int (length bs), bs, s)
      else Some (- 1, [], s\<lparr>errno := EMFILE\<rparr>))"

fun con_write :: "char list \<Rightarrow> char list" where
  "con_write [] = []"
| "con_write (c # cs) = (if c = CHR 0x0A then [CHR 0x0D, c] else [c]) @ con_write cs"

definition write_w ::
  "('fil, 'v) fatfs \<Rightarrow> int \<Rightarrow> u8 list option \<Rightarrow> ('fil, 'v) fat_st \<Rightarrow> int \<times> ('fil, 'v) fat_st" where
  "write_w F fd buf s =
     (case buf of
        None \<Rightarrow> fail EINVAL s
      | Some bs \<Rightarrow>
        if fd < 3 then
          if fd = 0 then fail EINVAL s
          else (int (length bs), s\<lparr>conout := conout s @ con_write (map (\<lambda>b. char_of (unat b)) bs)\<rparr>)
        else if fd - 3 < int MAX_FD then
          let i = nat (fd - 3);
              (fr, bw, fil, v) = f_write F (take (length bs mod 2 ^ 32) bs) (fds s ! i) (ffsvol s);
              s = s\<lparr>fds := (fds s)[i := fil], ffsvol := v\<rparr>
          in if fr \<noteq> FR_OK then fail (map_error fr) s else (uint bw, s)
        else fail EMFILE s)"

definition close_w :: "('fil, 'v) fatfs \<Rightarrow> int \<Rightarrow> ('fil, 'v) fat_st \<Rightarrow> int \<times> ('fil, 'v) fat_st" where
  "close_w F fd s =
     (if fd < 3 then (0, s)
      else if fd - 3 < int MAX_FD then
        let i = nat (fd - 3);
            (fr, fil, v) = f_close F (fds s ! i) (ffsvol s);
            s = s\<lparr>fds := (fds s)[i := fil], ffsvol := v\<rparr>
        in if fr \<noteq> FR_OK then fail (map_error fr) s else (0, s)
      else fail EMFILE s)"

definition unlink :: "('fil, 'v) fatfs \<Rightarrow> string \<Rightarrow> ('fil, 'v) fat_st \<Rightarrow> int \<times> ('fil, 'v) fat_st" where
  "unlink F pathname s =
     (let (fr, v) = f_unlink F pathname (ffsvol s); s = s\<lparr>ffsvol := v\<rparr>
      in if fr \<noteq> FR_OK then fail (map_error fr) s else (0, s))"

section \<open>Descriptors\<close>

text \<open>
  What the properties rely on of FatFs: a file object is in use after \<^verbatim>\<open>f_open\<close> succeeded and not
  after it failed, it is not in use after \<^verbatim>\<open>f_close\<close> succeeded, and the other functions leave that as
  it is.
\<close>

definition fat_laws :: "('fil, 'v) fatfs \<Rightarrow> bool" where
  "fat_laws F \<longleftrightarrow>
     (\<forall>p a fil v fr fil' v'. f_open F p a fil v = (fr, fil', v') \<longrightarrow> (fs_null F fil' \<longleftrightarrow> fr \<noteq> FR_OK)) \<and>
     (\<forall>fil v fr fil' v'. f_close F fil v = (fr, fil', v') \<longrightarrow> (fs_null F fil' \<longleftrightarrow> fr = FR_OK \<or> fs_null F fil)) \<and>
     (\<forall>fil v fr fil' v'. f_truncate F fil v = (fr, fil', v') \<longrightarrow> fs_null F fil' = fs_null F fil) \<and>
     (\<forall>n fil v fr fil' v'. f_lseek F n fil v = (fr, fil', v') \<longrightarrow> fs_null F fil' = fs_null F fil) \<and>
     (\<forall>n fil v fr bs fil' v'. f_read F n fil v = (fr, bs, fil', v') \<longrightarrow> fs_null F fil' = fs_null F fil) \<and>
     (\<forall>bs fil v fr bw fil' v'. f_write F bs fil v = (fr, bw, fil', v') \<longrightarrow> fs_null F fil' = fs_null F fil)"

lemma fat_lawsD:
  assumes "fat_laws F"
  shows "f_open F p a fil v = (fr, fil', v') \<Longrightarrow> fs_null F fil' \<longleftrightarrow> fr \<noteq> FR_OK"
    and "f_close F fil v = (fr, fil', v') \<Longrightarrow> fs_null F fil' \<longleftrightarrow> fr = FR_OK \<or> fs_null F fil"
    and "f_truncate F fil v = (fr, fil', v') \<Longrightarrow> fs_null F fil' = fs_null F fil"
    and "f_lseek F n fil v = (fr, fil', v') \<Longrightarrow> fs_null F fil' = fs_null F fil"
    and "f_read F n fil v = (fr, bs, fil', v') \<Longrightarrow> fs_null F fil' = fs_null F fil"
    and "f_write F bs fil v = (fr, bw, fil', v') \<Longrightarrow> fs_null F fil' = fs_null F fil"
  using assms unfolding fat_laws_def by metis+

definition free_fd :: "('fil, 'v) fatfs \<Rightarrow> ('fil, 'v) fat_st \<Rightarrow> nat \<Rightarrow> bool" where
  "free_fd F s i \<longleftrightarrow> i < length (fds s) \<and> fs_null F (fds s ! i)"

text \<open>A step that touches at most the table entry \<open>i\<close> and keeps whether it is in use.\<close>

definition keeps_entry :: "('fil, 'v) fatfs \<Rightarrow> nat \<Rightarrow> (('fil, 'v) fat_st \<Rightarrow> FRESULT \<times> ('fil, 'v) fat_st) \<Rightarrow> bool" where
  "keeps_entry F i f \<longleftrightarrow> (\<forall>s fr s'. i < length (fds s) \<longrightarrow> f s = (fr, s') \<longrightarrow>
     length (fds s') = length (fds s) \<and> (\<forall>j. j \<noteq> i \<longrightarrow> fds s' ! j = fds s ! j) \<and>
     fs_null F (fds s' ! i) = fs_null F (fds s ! i))"

lemma keeps_entryD:
  assumes "keeps_entry F i f" "f s = (fr, s')" "i < length (fds s)"
  shows "length (fds s') = length (fds s)" "j \<noteq> i \<Longrightarrow> fds s' ! j = fds s ! j"
    "fs_null F (fds s' ! i) = fs_null F (fds s ! i)"
  using assms unfolding keeps_entry_def by blast+

lemma open_steps_keep:
  assumes "fat_laws F"
  shows "keeps_entry F i (open_chmod F p fl)" "keeps_entry F i (open_trunc F i fl)" "keeps_entry F i (open_append F i fl)"
  using fat_lawsD(3,4) [OF assms]
  by (auto simp: keeps_entry_def open_chmod_def open_trunc_def open_append_def Let_def split: prod.splits)

lemma try_steps_keep: "\<forall>f\<in>set fs. keeps_entry F i f \<Longrightarrow> keeps_entry F i (try_steps fs)"
proof (induction fs)
  case (Cons f fs)
  have "keeps_entry F i f" "keeps_entry F i (try_steps fs)"
    using Cons by simp_all
  then show ?case
    unfolding keeps_entry_def [of F i "try_steps (f # fs)"]
    by (auto simp: Let_def keeps_entryD split: prod.splits if_splits)
qed (simp add: keeps_entry_def)

lemma map_error_none: "map_error fr = ENONE \<longleftrightarrow> fr = FR_OK"
  by (cases fr) simp_all

lemma open_entry_result:
  assumes "fat_laws F" "i < length (fds s)" "open_entry F i p fl s = (r, s')"
  shows "length (fds s') = length (fds s) \<and> (\<forall>j. j \<noteq> i \<longrightarrow> fds s' ! j = fds s ! j) \<and>
     (r = int i + 3 \<and> \<not> fs_null F (fds s' ! i) \<or> r = - 1 \<and> errno s' \<noteq> ENONE)"
proof -
  let ?steps = "[open_chmod F p fl, open_trunc F i fl, open_append F i fl]"
  obtain fr1 s1 where 1: "open_file F i p fl s = (fr1, s1)"
    by (metis surj_pair)
  obtain fr2 s2 where 2: "try_steps ?steps s1 = (fr2, s2)"
    by (metis surj_pair)
  have f: "length (fds s1) = length (fds s)" "\<forall>j. j \<noteq> i \<longrightarrow> fds s1 ! j = fds s ! j" "fs_null F (fds s1 ! i) \<longleftrightarrow> fr1 \<noteq> FR_OK"
    using 1 assms(2) fat_lawsD(1) [OF assms(1)] by (auto simp: open_file_def Let_def split: prod.splits)
  have keeps: "keeps_entry F i (try_steps ?steps)"
    by (rule try_steps_keep) (simp add: open_steps_keep [OF assms(1)])
  have "length (fds s2) = length (fds s1)" "\<forall>j. j \<noteq> i \<longrightarrow> fds s2 ! j = fds s1 ! j"
    "fs_null F (fds s2 ! i) = fs_null F (fds s1 ! i)"
    using keeps_entryD [OF keeps 2] f(1) assms(2) by simp_all
  moreover have "try_steps (open_file F i p fl # ?steps) s = (if fr1 \<noteq> FR_OK then (fr1, s1) else (fr2, s2))"
    using 1 2 by (subst try_steps.simps(2)) (simp del: try_steps.simps)
  ultimately show ?thesis
    using assms(3) f by (auto simp: open_entry_def fail_def map_error_none split: if_splits simp del: try_steps.simps)
qed

lemma open_scan_result:
  assumes "fat_laws F" "\<forall>i\<in>set is. i < length (fds s)" "open_scan F is p fl s = (r, s')"
  shows "length (fds s') = length (fds s) \<and>
     (r = - 1 \<and> errno s' \<noteq> ENONE \<and> (\<forall>i. i \<notin> set is \<or> \<not> free_fd F s i \<longrightarrow> fds s' ! i = fds s ! i) \<or>
      (\<exists>i\<in>set is. r = int i + 3 \<and> free_fd F s i \<and> \<not> fs_null F (fds s' ! i) \<and> (\<forall>j. j \<noteq> i \<longrightarrow> fds s' ! j = fds s ! j) \<and>
         (\<forall>j\<in>set (takeWhile (\<lambda>j. j \<noteq> i) is). \<not> free_fd F s j)))"
  using assms(2,3)
proof (induction "is")
  case (Cons i "is")
  show ?case
  proof (cases "fs_null F (fds s ! i)")
    case True
    then have "open_entry F i p fl s = (r, s')"
      using Cons.prems(2) by simp
    from open_entry_result [OF assms(1) _ this] Cons.prems(1) True show ?thesis
      by (auto simp: free_fd_def)
  next
    case False
    then have "open_scan F is p fl s = (r, s')"
      using Cons.prems(2) by simp
    with Cons False show ?thesis
      by (fastforce simp: free_fd_def)
  qed
qed (auto simp: fail_def)

text \<open>
  Sequences of calls: \<open>H\<close> are the descriptors that \<^verbatim>\<open>open\<close> returned and that were not closed since.
\<close>

inductive fat_step :: "('fil, 'v) fatfs \<Rightarrow> int set \<times> ('fil, 'v) fat_st \<Rightarrow> int set \<times> ('fil, 'v) fat_st \<Rightarrow> bool" for F where
  op_open: "open_w F p fl m s = (r, s') \<Longrightarrow> fat_step F (H, s) (if r = - 1 then H else insert r H, s')"
| op_close: "close_w F fd s = (r, s') \<Longrightarrow> fat_step F (H, s) (if r = 0 then H - {fd} else H, s')"
| op_lseek: "lseek F fd off wh s = (r, s') \<Longrightarrow> fat_step F (H, s) (H, s')"
| op_read: "read_w F fd nul n s = Some (r, bs, s') \<Longrightarrow> fat_step F (H, s) (H, s')"
| op_write: "write_w F fd buf s = (r, s') \<Longrightarrow> fat_step F (H, s) (H, s')"
| op_unlink: "unlink F p s = (r, s') \<Longrightarrow> fat_step F (H, s) (H, s')"

inductive fat_reach :: "('fil, 'v) fatfs \<Rightarrow> int set \<times> ('fil, 'v) fat_st \<Rightarrow> bool" for F where
  init: "length (fds s) = MAX_FD \<Longrightarrow> \<forall>i<MAX_FD. fs_null F (fds s ! i) \<Longrightarrow> fat_reach F ({}, s)"
| step: "fat_reach F c \<Longrightarrow> fat_step F c c' \<Longrightarrow> fat_reach F c'"

definition fat_inv :: "('fil, 'v) fatfs \<Rightarrow> int set \<times> ('fil, 'v) fat_st \<Rightarrow> bool" where
  "fat_inv F c \<longleftrightarrow> length (fds (snd c)) = MAX_FD \<and>
     (\<forall>fd\<in>fst c. 3 \<le> fd \<and> fd - 3 < int MAX_FD \<and> \<not> fs_null F (fds (snd c) ! nat (fd - 3)))"

lemma open_w_result:
  assumes "fat_laws F" "length (fds s) = MAX_FD" "open_w F p fl m s = (r, s')"
  shows "length (fds s') = MAX_FD \<and>
     (r = - 1 \<and> errno s' \<noteq> ENONE \<and> (\<forall>i. \<not> free_fd F s i \<longrightarrow> fds s' ! i = fds s ! i) \<or>
      (\<exists>i<MAX_FD. r = int i + 3 \<and> free_fd F s i \<and> \<not> fs_null F (fds s' ! i) \<and> (\<forall>j. j \<noteq> i \<longrightarrow> fds s' ! j = fds s ! j) \<and>
         (\<forall>j<i. \<not> free_fd F s j)))"
proof -
  obtain fr v where m: "(if mounted s then (FR_OK, ffsvol s) else f_mount F (ffsvol s)) = (fr, v)"
    by (metis surj_pair)
  show ?thesis
  proof (cases "fr = FR_OK")
    case False
    then show ?thesis
      using assms m by (auto simp: open_w_def fail_def Let_def split: if_splits)
  next
    case True
    let ?s = "s\<lparr>ffsvol := v, mounted := True\<rparr>"
    have "open_scan F [0..<MAX_FD] p fl ?s = (r, s')"
      using True m assms(3) by (simp add: open_w_def Let_def)
    note R = open_scan_result [OF assms(1) _ this]
    have "\<forall>i\<in>set [0..<MAX_FD]. i < length (fds ?s)" "free_fd F ?s = free_fd F s" "length (fds ?s) = length (fds s)" "fds ?s = fds s"
      using assms(2) by (auto simp: free_fd_def fun_eq_iff)
    note R = R [OF this(1), unfolded this(2-4)]
    have "j \<in> set (takeWhile (\<lambda>j. j \<noteq> i) [0..<MAX_FD])" if "j < i" "i < MAX_FD" for i j
      using that by (auto simp: MAX_FD_def less_Suc_eq numeral_2_eq_2)
    then show ?thesis
      using R assms(2) by (auto simp: free_fd_def)
  qed
qed

lemma fat_inv_step: "fat_step F c c' \<Longrightarrow> fat_laws F \<Longrightarrow> fat_inv F c \<Longrightarrow> fat_inv F c'"
proof (induction rule: fat_step.induct)
  case (op_open p fl m s r s' H)
  then have "length (fds s) = MAX_FD"
    by (simp add: fat_inv_def)
  from open_w_result [OF op_open(2) this op_open(1)] op_open(3) show ?case
    by (auto simp: fat_inv_def free_fd_def) metis
next
  case (op_close fd s r s' H)
  then show ?case
    by (auto simp: fat_inv_def close_w_def fail_def Let_def nth_list_update MAX_FD_def fat_lawsD(2)
        split: if_splits prod.splits)
next
  case (op_lseek fd off wh s r s' H)
  then show ?case
    by (auto simp: fat_inv_def lseek_def fail_def Let_def nth_list_update MAX_FD_def fat_lawsD(4)
        split: if_splits prod.splits option.splits)
next
  case (op_read fd nul n s r bs s' H)
  then show ?case
    by (auto simp: fat_inv_def read_w_def fail_def Let_def nth_list_update MAX_FD_def fat_lawsD(5)
        split: if_splits prod.splits)
next
  case (op_write fd buf s r s' H)
  then show ?case
    by (auto simp: fat_inv_def write_w_def fail_def Let_def nth_list_update MAX_FD_def fat_lawsD(6)
        split: if_splits prod.splits option.splits)
next
  case (op_unlink p s r s' H)
  then show ?case
    by (auto simp: fat_inv_def unlink_def fail_def Let_def split: if_splits prod.splits)
qed

lemma fat_inv_reach: "fat_reach F c \<Longrightarrow> fat_laws F \<Longrightarrow> fat_inv F c"
proof (induction rule: fat_reach.induct)
  case (init s)
  then show ?case
    by (simp add: fat_inv_def)
next
  case (step c c')
  then show ?case
    by (blast intro: fat_inv_step)
qed

section \<open>A file system in memory\<close>

text \<open>One file; a file object is whether it is open and the position in the file.\<close>

definition ram_fat :: "(bool \<times> nat, u8 list) fatfs" where
  "ram_fat = \<lparr>
     f_mount = (\<lambda>v. (FR_OK, v)),
     f_open = (\<lambda>p a fil v. (FR_OK, (True, 0), v)),
     f_chmod = (\<lambda>p a m v. (FR_OK, v)),
     f_truncate = (\<lambda>fil v. if fst fil then (FR_OK, fil, take (snd fil) v) else (FR_INVALID_OBJECT, fil, v)),
     f_lseek = (\<lambda>n fil v. if fst fil then (FR_OK, (True, unat n), v) else (FR_INVALID_OBJECT, fil, v)),
     f_read = (\<lambda>n fil v. if fst fil then (let bs = take (unat n) (drop (snd fil) v) in (FR_OK, bs, (True, snd fil + length bs), v))
                else (FR_INVALID_OBJECT, [], fil, v)),
     f_write = (\<lambda>bs fil v. if fst fil then (FR_OK, of_nat (length bs), (True, snd fil + length bs),
                  take (snd fil) v @ bs @ drop (snd fil + length bs) v) else (FR_INVALID_OBJECT, 0, fil, v)),
     f_close = (\<lambda>fil v. if fst fil then (FR_OK, (False, 0), v) else (FR_INVALID_OBJECT, fil, v)),
     f_unlink = (\<lambda>p v. (FR_OK, [])),
     f_tell = (\<lambda>fil. of_nat (snd fil)),
     file_size = (\<lambda>fil. 0),
     fs_null = (\<lambda>fil. \<not> fst fil)\<rparr>"

lemma ram_fat_laws: "fat_laws ram_fat"
  by (auto simp: fat_laws_def ram_fat_def Let_def split: if_splits)

definition ram_st :: "(bool \<times> nat, u8 list) fat_st" where
  "ram_st = \<lparr>mounted = False, fds = [(False, 0), (False, 0)], ffsvol = [], errno = ENONE, conin = [], conout = []\<rparr>"

lemma ram_init: "fat_reach ram_fat ({}, ram_st)"
  by (rule fat_reach.init) (auto simp: ram_st_def ram_fat_def MAX_FD_def less_Suc_eq numeral_2_eq_2)

section \<open>Properties\<close>

text \<open>C20: After any sequence of calls, a successful \<^verbatim>\<open>open\<close> returns a descriptor of the table that no one holds, the
  lowest one that is not in use, and every descriptor held before still is a file in use; with all
  entries in use it fails with \<^verbatim>\<open>ENFILE\<close>.\<close>

theorem open_returns_fresh:
  assumes "fat_laws F" "fat_reach F (H, s)" "open_w F p fl m s = (r, s')"
  shows "(r \<noteq> - 1 \<longrightarrow> r \<notin> H \<and> 3 \<le> r \<and> r < 3 + int MAX_FD \<and> (\<forall>i<nat (r - 3). \<not> fs_null F (fds s ! i))) \<and>
     (\<forall>fd\<in>H. 3 \<le> fd \<and> fd < 3 + int MAX_FD \<and> fds s' ! nat (fd - 3) = fds s ! nat (fd - 3) \<and> \<not> fs_null F (fds s' ! nat (fd - 3))) \<and>
     (mounted s \<and> (\<forall>i<MAX_FD. \<not> fs_null F (fds s ! i)) \<longrightarrow> r = - 1 \<and> s' = s\<lparr>errno := ENFILE\<rparr>)"
proof -
  have inv: "length (fds s) = MAX_FD" "\<forall>fd\<in>H. 3 \<le> fd \<and> fd - 3 < int MAX_FD \<and> \<not> fs_null F (fds s ! nat (fd - 3))"
    using fat_inv_reach [OF assms(2,1)] by (simp_all add: fat_inv_def)
  note R = open_w_result [OF assms(1) inv(1) assms(3)]
  have "r \<noteq> - 1 \<longrightarrow> r \<notin> H \<and> 3 \<le> r \<and> r < 3 + int MAX_FD \<and> (\<forall>i<nat (r - 3). \<not> fs_null F (fds s ! i))"
    using R inv by (auto simp: free_fd_def)
  moreover have "fds s' ! nat (fd - 3) = fds s ! nat (fd - 3)" if "fd \<in> H" for fd
  proof -
    have "\<not> free_fd F s (nat (fd - 3))"
      using inv(2) that by (auto simp: free_fd_def)
    then show ?thesis
      using R by metis
  qed
  moreover have "r = - 1 \<and> s' = s\<lparr>errno := ENFILE\<rparr>" if "mounted s" "\<forall>i<MAX_FD. \<not> fs_null F (fds s ! i)"
    using that assms(3) by (auto simp: open_w_def Let_def fail_def MAX_FD_def numeral_2_eq_2)
  ultimately show ?thesis
    using inv(2) by auto
qed

theorem open_returns_fresh_witness:
  "fst (open_w ram_fat ''a.txt'' O_RDWR 0 (snd (open_w ram_fat ''b.txt'' O_RDWR 0 ram_st))) = 4"
proof -
  let ?s = "snd (open_w ram_fat ''b.txt'' O_RDWR 0 ram_st)"
  have o: "open_w ram_fat ''b.txt'' O_RDWR 0 ram_st = (3, ?s)" "\<not> fs_null ram_fat (fds ?s ! 0)"
    "fst (open_w ram_fat ''a.txt'' O_RDWR 0 ?s) \<noteq> - 1"
    by (simp_all add: open_w_def open_entry_def open_file_def open_chmod_def open_trunc_def open_append_def ram_st_def
        ram_fat_def MAX_FD_def numeral_2_eq_2 fcntl_defs Let_def)
  have "fat_reach ram_fat ({3}, ?s)"
    using fat_reach.step [OF ram_init fat_step.op_open [OF o(1)]] by simp
  from open_returns_fresh [OF ram_fat_laws this, of "''a.txt''" O_RDWR 0 "fst (open_w ram_fat ''a.txt'' O_RDWR 0 ?s)"
      "snd (open_w ram_fat ''a.txt'' O_RDWR 0 ?s)"] o(3)
  show ?thesis
    by (simp add: MAX_FD_def)
qed

text \<open>C29: Every call that fails leaves an error number: a result of \<open>-1\<close> from \<^verbatim>\<open>open\<close>, \<^verbatim>\<open>lseek\<close>, \<^verbatim>\<open>read\<close>, \<^verbatim>\<open>write\<close>,
  \<^verbatim>\<open>close\<close> or \<^verbatim>\<open>unlink\<close> comes with \<^verbatim>\<open>errno\<close> set, and every FatFs error has an error number.\<close>

theorem failures_set_errno:
  assumes "fat_laws F" "length (fds s) = MAX_FD"
  shows "(\<forall>fr. map_error fr = ENONE \<longleftrightarrow> fr = FR_OK) \<and>
     (\<forall>s'. open_w F p fl m s = (- 1, s') \<longrightarrow> errno s' \<noteq> ENONE) \<and>
     (\<forall>s'. lseek F fd off wh s = (- 1, s') \<longrightarrow> errno s' \<noteq> ENONE) \<and>
     (\<forall>s' bs. read_w F fd nul n s = Some (- 1, bs, s') \<longrightarrow> errno s' \<noteq> ENONE) \<and>
     (\<forall>s'. write_w F fd buf s = (- 1, s') \<longrightarrow> errno s' \<noteq> ENONE) \<and>
     (\<forall>s'. close_w F fd s = (- 1, s') \<longrightarrow> errno s' \<noteq> ENONE) \<and>
     (\<forall>s'. unlink F p s = (- 1, s') \<longrightarrow> errno s' \<noteq> ENONE)"
proof -
  have u: "uint x \<noteq> - 1" for x :: u32
    using uint_ge_0 [of x] by linarith
  have "\<forall>s'. open_w F p fl m s = (- 1, s') \<longrightarrow> errno s' \<noteq> ENONE"
    using open_w_result [OF assms] by fastforce
  moreover have "\<forall>s'. lseek F fd off wh s = (- 1, s') \<longrightarrow> errno s' \<noteq> ENONE"
    by (auto simp: lseek_def fail_def Let_def map_error_none u split: if_splits prod.splits option.splits)
  moreover have "\<forall>s' bs. read_w F fd nul n s = Some (- 1, bs, s') \<longrightarrow> errno s' \<noteq> ENONE"
    by (auto simp: read_w_def Let_def map_error_none split: if_splits prod.splits)
  moreover have "\<forall>s'. write_w F fd buf s = (- 1, s') \<longrightarrow> errno s' \<noteq> ENONE"
    by (auto simp: write_w_def fail_def Let_def map_error_none u split: if_splits prod.splits option.splits)
  moreover have "\<forall>s'. close_w F fd s = (- 1, s') \<longrightarrow> errno s' \<noteq> ENONE"
    by (auto simp: close_w_def fail_def Let_def map_error_none split: if_splits prod.splits)
  moreover have "\<forall>s'. unlink F p s = (- 1, s') \<longrightarrow> errno s' \<noteq> ENONE"
    by (auto simp: unlink_def fail_def Let_def map_error_none split: if_splits prod.splits)
  ultimately show ?thesis
    by (simp add: map_error_none)
qed

theorem failures_set_errno_witness:
  "fst (close_w ram_fat 3 ram_st) = - 1 \<and> errno (snd (close_w ram_fat 3 ram_st)) \<noteq> ENONE"
proof -
  have "length (fds ram_st) = MAX_FD" and c: "fst (close_w ram_fat 3 ram_st) = - 1"
    by (simp_all add: ram_st_def MAX_FD_def close_w_def ram_fat_def fail_def)
  note failures_set_errno [OF ram_fat_laws this(1), of "[]" 0 0 3 0 SEEK_SET False 0 None]
  then have "\<forall>s'. close_w ram_fat 3 ram_st = (- 1, s') \<longrightarrow> errno s' \<noteq> ENONE"
    by blast
  with c show ?thesis
    by (metis prod.collapse)
qed

lemma con_write_concat: "con_write cs = concat (map (\<lambda>c. if c = CHR 0x0A then [CHR 0x0D, c] else [c]) cs)"
  by (induction cs) simp_all

lemma con_read_result:
  "con_read n ks = Some (r, rest) \<Longrightarrow> ks = r @ rest \<and> length r \<le> n \<and>
      (\<forall>c\<in>set (butlast r). c \<noteq> CHR 0x0A \<and> c \<noteq> CHR 0x0D) \<and>
      (length r < n \<longrightarrow> r \<noteq> [] \<and> (last r = CHR 0x0A \<or> last r = CHR 0x0D))"
proof (induction n ks arbitrary: r rule: con_read.induct)
  case (3 n k ks)
  show ?case
  proof (cases "k = CHR 0x0A \<or> k = CHR 0x0D")
    case True
    then show ?thesis
      using 3(2) by auto
  next
    case False
    then obtain r' where r': "con_read n ks = Some (r', rest)" "r = k # r'"
      using 3(2) by auto
    from 3(1) [OF False r'(1)] r'(2) False show ?thesis
      by (cases r') simp_all
  qed
qed simp_all

text \<open>The console: a write returns the number of bytes and prints them with a carriage return before each line
  feed and nothing else added; a read takes what was typed up to the first line end or the count,
  whichever comes first.\<close>

theorem console_read_write:
  shows "(fd = 1 \<or> fd = 2 \<longrightarrow> write_w F fd (Some bs) s =
      (int (length bs), s\<lparr>conout := conout s @ concat (map (\<lambda>c. if c = CHR 0x0A then [CHR 0x0D, c] else [c]) (map (\<lambda>b. char_of (unat b)) bs))\<rparr>)) \<and>
    (con_read n ks = Some (r, rest) \<longrightarrow> ks = r @ rest \<and> length r \<le> n \<and>
      (\<forall>c\<in>set (butlast r). c \<noteq> CHR 0x0A \<and> c \<noteq> CHR 0x0D) \<and>
      (length r < n \<longrightarrow> r \<noteq> [] \<and> (last r = CHR 0x0A \<or> last r = CHR 0x0D)))"
  using con_read_result [of n ks r rest] by (auto simp: write_w_def con_write_concat)

theorem console_read_write_witness:
  "con_read 5 ''ab'' = None \<and> con_read 5 (''ab'' @ [CHR 0x0D] @ ''cd'') = Some (''ab'' @ [CHR 0x0D], ''cd'') \<and>
   length (''ab'' @ [CHR 0x0D]) \<le> 5"
  using console_read_write [of 1 ram_fat "[]" ram_st 5 "''ab'' @ [CHR 0x0D] @ ''cd''" "''ab'' @ [CHR 0x0D]" "''cd''"]
  by (simp add: numeral_eq_Suc)

section \<open>Found by the model\<close>

text \<open>
  The attribute of a created file is taken from \<^verbatim>\<open>flags\<close> and not from \<^verbatim>\<open>mode\<close>: with the flags that exist
  for \<^verbatim>\<open>open\<close> a created file always becomes read-only, whatever mode was asked for.
\<close>

lemma created_read_only:
  assumes "fl AND O_CREAT \<noteq> 0" "fl AND S_IWUSR = 0"
  shows "open_chmod F p fl s = (let (fr, v) = f_chmod F p AM_RDO AM_RDO (ffsvol s) in (fr, s\<lparr>ffsvol := v\<rparr>))"
    and "open_w F p fl m s = open_w F p fl m' s"
  using assms by (simp_all add: open_chmod_def open_w_def)

text \<open>When a later step of \<^verbatim>\<open>open\<close> fails the file stays open: the descriptor is lost and its entry stays in use.\<close>

lemma open_leaks_entry:
  assumes "fat_laws F" "i < length (fds s)" "open_file F i p fl s = (FR_OK, s1)" "fl AND O_CREAT = 0" "fl AND O_TRUNC \<noteq> 0"
    and "f_truncate F (fds s1 ! i) (ffsvol s1) = (fr, fil, v)" "fr \<noteq> FR_OK"
  shows "fst (open_entry F i p fl s) = - 1 \<and> \<not> fs_null F (fds (snd (open_entry F i p fl s)) ! i)"
proof -
  have "\<not> fs_null F (fds s1 ! i)" "length (fds s1) = length (fds s)"
    using assms(2,3) fat_lawsD(1) [OF assms(1)] by (auto simp: open_file_def Let_def split: prod.splits)
  then show ?thesis
    using assms fat_lawsD(3) [OF assms(1,6)]
    by (auto simp: open_entry_def open_chmod_def open_trunc_def fail_def)
qed

end
