(* ===== verification/Trace_Capture.thy ===== *)
theory Trace_Capture
  imports Devtree Fatfs Trace_Parser
begin

text \<open>
  Saving a trace: \<^verbatim>\<open>trace_capture\<close> of \<^verbatim>\<open>src/shared/linux/monitor.c\<close> and its three variants in
  \<^verbatim>\<open>src/shared/standalone/monitor.c\<close>. The trace capture device is one port of a memory-mapped bus:
  a store rewinds it, every load delivers the next word of the trace. The program copies entries
  into a block buffer until an entry of zeros or until the buffer is full and appends the block to a
  file.

  In the option results \<open>None\<close> is a loop that does not end, an access outside the buffer, or a
  division by zero. Console messages are values of a datatype; the clock is read into arguments.
\<close>

section \<open>Copying entries\<close>

definition BLK_SZ :: nat where "BLK_SZ = 131072"

definition put_word :: "u8 list \<Rightarrow> nat \<Rightarrow> u32 \<Rightarrow> u8 list" where
  "put_word buf i w = take (4 * i) buf @ le32_bytes w @ drop (4 * i + 4) buf"

text \<open>\<open>i\<close> is the position of \<^verbatim>\<open>bptr\<close> in words, \<open>tmp\<close> collects the bits of the entry.\<close>

fun fill_entry ::
  "'s mmio \<Rightarrow> u64 \<Rightarrow> nat \<Rightarrow> u32 \<Rightarrow> nat \<Rightarrow> u8 list \<Rightarrow> 's \<Rightarrow> (u32 \<times> nat \<times> u8 list \<times> 's) option" where
  "fill_entry M tcd 0 tmp i buf s = Some (tmp, i, buf, s)"
| "fill_entry M tcd (Suc n) tmp i buf s =
     (let (w, s) = mload M tcd s
      in if 4 * i + 4 \<le> length buf then fill_entry M tcd n (tmp OR w) (i + 1) (put_word buf i w) s else None)"

partial_function (option) fill_block ::
  "'s mmio \<Rightarrow> u64 \<Rightarrow> nat \<Rightarrow> nat \<Rightarrow> nat \<Rightarrow> u8 list \<Rightarrow> 's \<Rightarrow> (u32 \<times> nat \<times> u8 list \<times> 's) option" where
  "fill_block M tcd entry_sz i blen buf s = do {
     (tmp, i, buf, s) \<leftarrow> fill_entry M tcd (entry_sz div 4) 0 i buf s;
     let blen = blen + entry_sz;
     if tmp \<noteq> 0 \<and> blen < BLK_SZ then fill_block M tcd entry_sz i blen buf s else Some (tmp, blen, buf, s)
   }"

section \<open>Linux\<close>

datatype cap_msg = Progress nat | ShortWrite nat nat | MemExceeded | TraceLength nat

text \<open>\<open>fw tot n\<close> is how many of \<open>n\<close> bytes \<^verbatim>\<open>fwrite\<close> writes when \<open>tot\<close> have been written.\<close>

partial_function (option) grab_trace ::
  "'s mmio \<Rightarrow> u64 \<Rightarrow> nat \<Rightarrow> nat \<Rightarrow> (nat \<Rightarrow> nat \<Rightarrow> nat) \<Rightarrow> u8 list \<Rightarrow> u8 list \<Rightarrow> nat \<Rightarrow> cap_msg list \<Rightarrow> 's \<Rightarrow>
     (u8 list \<times> nat \<times> cap_msg list \<times> 's) option" where
  "grab_trace M tcd entry_sz mem_sz fw buf file tot msgs s = do {
     (tmp, blen, buf, s) \<leftarrow> fill_block M tcd entry_sz 0 0 buf s;
     let fr = fw tot blen;
     let file = file @ take fr (take blen buf);
     if fr \<noteq> blen then Some (file, tot, msgs @ [ShortWrite blen fr], s)
     else do {
       let tot = tot + blen;
       let msgs = (if tot mod 2 ^ 20 = 0 then msgs @ [Progress tot] else msgs);
       if mem_sz \<le> tot then Some (file, tot, msgs @ [MemExceeded], s)
       else if tmp \<noteq> 0 then grab_trace M tcd entry_sz mem_sz fw buf file tot msgs s
       else Some (file, tot, msgs, s)
     }
   }"

text \<open>\<^verbatim>\<open>TCD_ENTRY_SZ\<close> after \<open>k\<close> shifts is \<open>2 ^ k\<close>; it stays below \<open>2 ^ 32\<close> because \<open>n\<close> is below \<open>2 ^ 29\<close>.\<close>

function entry_size :: "nat \<Rightarrow> nat \<Rightarrow> nat" where
  "entry_size n k = (if 2 ^ k < n then entry_size n (k + 1) else 2 ^ k)"
  by pat_completeness auto
termination
  by (relation "measure (\<lambda>(n, k). n - 2 ^ k)") (auto intro: diff_less_mono2)

declare entry_size.simps [simp del]

text \<open>A 32-bit property of a device; \<open>g\<close> is what the variable held before.\<close>

definition dev_u32 :: "node \<Rightarrow> u8 list \<Rightarrow> string \<Rightarrow> string \<Rightarrow> u32 option" where
  "dev_u32 tree g name p =
     (let (found, d) = dev_search name 1 p 4 tree (take 4 g) in if found \<noteq> 1 then None else Some (ucast (le64 d)))"

definition dev_reg :: "node \<Rightarrow> u8 list \<Rightarrow> string \<Rightarrow> u64 option" where
  "dev_reg tree g name =
     (let (found, d) = dev_search name 1 ''reg'' 16 tree (take 16 g) in if found \<noteq> 1 then None else Some (reg_addr d))"

definition strip_nl :: "string \<Rightarrow> string" where
  "strip_nl fn = (if CHR 0x0A \<in> set fn then rev (tl (dropWhile (\<lambda>c. c \<noteq> CHR 0x0A) (rev fn))) else fn)"

datatype cap_result =
    Cap_none
  | Cap_exit string
  | Cap_file string "u8 list" nat "cap_msg list" int

text \<open>
  The whole function: \<open>fn\<close> is the line \<^verbatim>\<open>fgets\<close> delivers, if any, \<open>opens\<close> says whether \<^verbatim>\<open>fopen\<close>
  succeeds, \<open>buf\<close> and \<open>g\<close> are what the block buffer and the other locals held. A shift by
  \<open>mem_addr_width\<close> of 64 or more is undefined in C, so the result is \<open>None\<close>.
\<close>

definition trace_capture ::
  "'s mmio \<Rightarrow> os \<Rightarrow> node \<Rightarrow> string option \<Rightarrow> (string \<Rightarrow> bool) \<Rightarrow> (nat \<Rightarrow> nat \<Rightarrow> nat) \<Rightarrow> u8 list \<Rightarrow> u8 list \<Rightarrow>
     dev_state \<Rightarrow> 's \<Rightarrow> (cap_result \<times> dev_state \<times> 's) option" where
  "trace_capture M S tree fn opens fw buf g d s =
     (case fn of
        None \<Rightarrow> Some (Cap_none, d, s)
      | Some fn \<Rightarrow>
     if take 1 fn = [CHR 0x0A] then Some (Cap_none, d, s)
     else let fn = strip_nl fn in
     (case dev_u32 tree g ''axi_perf_mon'' ''xlnx,fifo-axis-tdata-width'' of
        None \<Rightarrow> Some (Cap_exit ''Cannot find APM tdata width in device tree.'', d, s)
      | Some tdata_width \<Rightarrow>
     (case dev_u32 tree g ''axi_tcd'' ''xlnx,mem-addr-width'' of
        None \<Rightarrow> Some (Cap_exit ''Cannot find TCD memory size in device tree.'', d, s)
      | Some mem_addr_width \<Rightarrow>
     if 64 \<le> unat mem_addr_width then None
     else (case dev_reg tree g ''axi_tcd'' of
        None \<Rightarrow> Some (Cap_exit ''Cannot find TCD reg space in device tree.'', d, s)
      | Some addr \<Rightarrow>
     (let (tcd, d) = dev_mmap S addr d
      in if tcd = MAP_FAILED then Some (Cap_exit ''TCD mmap failed'', d, s)
         else if \<not> opens fn then Some (Cap_exit ''Cannot fopen'', d, s)
         else do {
           (file, tot, msgs, s) \<leftarrow>
             grab_trace M tcd (entry_size (unat (tdata_width div 8)) 0) (2 ^ unat mem_addr_width) fw buf [] 0 [] (mstore M tcd 0 s);
           Some (Cap_file fn file tot (msgs @ [TraceLength tot]) (dev_munmap S tcd d), d, s)
         })))))"

section \<open>Standalone\<close>

text \<open>
  The line editor: \<open>ks\<close> is what will be typed, \<open>out\<close> what is echoed. The array holds 80 characters
  with the terminator.
\<close>

fun get_name :: "char list \<Rightarrow> string \<Rightarrow> string \<Rightarrow> (string \<times> string \<times> char list) option" where
  "get_name [] fn out = None"
| "get_name (ch # ks) fn out =
     (if ch = CHR 0x0D then Some (fn, out @ [CHR 0x0D, CHR 0x0A], ks)
      else if ch = CHR 0x08 then
        (if fn \<noteq> [] then get_name ks (butlast fn) (out @ [CHR 0x08, CHR '' '', CHR 0x08]) else get_name ks fn out)
      else if length fn < 79 then get_name ks (fn @ [ch]) (out @ [ch])
      else get_name ks fn out)"

definition FA_CREATE_ALWAYS :: u8 where "FA_CREATE_ALWAYS = 0x08"

text \<open>Entries are rounded up to one of four sizes; a wider one is refused by the preprocessor.\<close>

definition TCD_ENTRY_SZ :: "nat \<Rightarrow> nat" where
  "TCD_ENTRY_SZ width = (if width \<le> 128 then 16 else if width \<le> 256 then 32 else if width \<le> 512 then 64 else 128)"

datatype sd_msg = FErr string FRESULT | SProgress nat | SMemExceeded | SLength nat | STime nat | SBandwidth nat

partial_function (option) grab_sd ::
  "('fil, 'v) fatfs \<Rightarrow> 's mmio \<Rightarrow> u64 \<Rightarrow> nat \<Rightarrow> nat \<Rightarrow> u8 list \<Rightarrow> nat \<Rightarrow> sd_msg list \<Rightarrow> 'fil \<Rightarrow> 'v \<Rightarrow> 's \<Rightarrow>
     (nat \<times> sd_msg list \<times> 'fil \<times> 'v \<times> 's) option" where
  "grab_sd F M tcd entry_sz mem_sz buf tot msgs fdst v s = do {
     (tmp, blen, buf, s) \<leftarrow> fill_block M tcd entry_sz 0 0 buf s;
     let (fr, bw, fdst, v) = f_write F (take blen buf) fdst v;
     if fr \<noteq> FR_OK then Some (tot, msgs @ [FErr ''write'' fr], fdst, v, s)
     else do {
       let tot = tot + blen;
       let msgs = (if tot mod 2 ^ 20 = 0 then msgs @ [SProgress tot] else msgs);
       if mem_sz \<le> tot then Some (tot, msgs @ [SMemExceeded], fdst, v, s)
       else if tmp \<noteq> 0 then grab_sd F M tcd entry_sz mem_sz buf tot msgs fdst v s
       else Some (tot, msgs, fdst, v, s)
     }
   }"

text \<open>
  The version for the SD card. Mounting and unmounting are both \<open>f_mount\<close>; \<open>fdst\<close> is the
  uninitialised file object, \<open>secs\<close> the elapsed whole seconds.
\<close>

definition sd_trace_capture ::
  "('fil, 'v) fatfs \<Rightarrow> 's mmio \<Rightarrow> u64 \<Rightarrow> nat \<Rightarrow> nat \<Rightarrow> char list \<Rightarrow> nat \<Rightarrow> u8 list \<Rightarrow> 'fil \<Rightarrow> 'v \<Rightarrow> 's \<Rightarrow>
     (string \<times> sd_msg list \<times> char list \<times> 'v \<times> 's) option" where
  "sd_trace_capture F M tcd entry_sz mem_sz ks secs buf fdst v s = do {
     (fn, out, ks) \<leftarrow> get_name ks [] ''enter trace file name: '';
     if fn = [] then Some (out, [], ks, v, s)
     else do {
       let (fr, v) = f_mount F v;
       (tot, msgs, fdst, v, s) \<leftarrow>
         (if fr \<noteq> FR_OK then Some (0, [FErr ''mount'' fr], fdst, v, s)
          else (let (fr, fdst, v) = f_open F (cstr fn) (FA_CREATE_ALWAYS OR FA_WRITE) fdst v
                in if fr \<noteq> FR_OK then Some (0, [FErr ''open'' fr], fdst, v, s)
                   else grab_sd F M tcd entry_sz mem_sz buf 0 [] fdst v (mstore M tcd 0 s)));
       let (fr, fdst, v) = f_close F fdst v;
       let msgs = (if fr \<noteq> FR_OK then msgs @ [FErr ''close'' fr] else msgs);
       let (fr, v) = f_mount F v;
       let msgs = (if fr \<noteq> FR_OK then msgs @ [FErr ''unmount'' fr] else msgs);
       if secs = 0 then None
       else Some (out, msgs @ [SLength tot, STime secs, SBandwidth (tot div secs)], ks, v, s)
     }
   }"

text \<open>The versions that copy the trace to the heap; \<open>heap_sz\<close> is \<open>mem_end - mem_beg\<close>.\<close>

partial_function (option) copy_heap ::
  "'s mmio \<Rightarrow> u64 \<Rightarrow> nat \<Rightarrow> nat \<Rightarrow> nat \<Rightarrow> nat \<Rightarrow> u8 list \<Rightarrow> 's \<Rightarrow> (u32 \<times> nat \<times> u8 list \<times> 's) option" where
  "copy_heap M tcd entry_sz heap_sz i tot mem s = do {
     (tmp, i, mem, s) \<leftarrow> fill_entry M tcd (entry_sz div 4) 0 i mem s;
     let tot = tot + entry_sz;
     if tmp \<noteq> 0 \<and> 4 * i < heap_sz then copy_heap M tcd entry_sz heap_sz i tot mem s else Some (tmp, tot, mem, s)
   }"

datatype heap_msg = OutOfHeap | TraceAt u64 nat

definition heap_trace_capture ::
  "'s mmio \<Rightarrow> u64 \<Rightarrow> nat \<Rightarrow> u64 \<Rightarrow> nat \<Rightarrow> u8 list \<Rightarrow> 's \<Rightarrow> (heap_msg list \<times> u8 list \<times> 's) option" where
  "heap_trace_capture M tcd entry_sz mem_beg heap_sz mem s = do {
     (tmp, tot, mem, s) \<leftarrow> copy_heap M tcd entry_sz heap_sz 0 0 mem (mstore M tcd 0 s);
     Some ((if tmp \<noteq> 0 then [OutOfHeap] else []) @ [TraceAt mem_beg tot], mem, s)
   }"

section \<open>The device\<close>

text \<open>
  The contract of the trace capture device: after the store the words of the trace are delivered
  one per load. \<open>tw s\<close> is the sequence of words the device will still deliver.
\<close>

locale tcd_dev =
  fixes M :: "'s mmio" and tcd :: u64 and tw trace :: "'s \<Rightarrow> nat \<Rightarrow> u32"
  assumes next_word: "fst (mload M tcd s) = tw s 0"
    and rest_words: "tw (snd (mload M tcd s)) k = tw s (Suc k)"
    and rewind: "tw (mstore M tcd 0 s) = trace s"

definition word_bytes :: "(nat \<Rightarrow> u32) \<Rightarrow> nat \<Rightarrow> u8 list" where
  "word_bytes w n = concat (map (\<lambda>i. le32_bytes (w i)) [0..<n])"

lemma length_word_bytes [simp]: "length (word_bytes w n) = 4 * n"
  by (induction n) (simp_all add: word_bytes_def)

lemma word_bytes_Suc: "word_bytes w (Suc n) = le32_bytes (w 0) @ word_bytes (\<lambda>k. w (Suc k)) n"
  by (simp add: word_bytes_def upt_conv_Cons map_Suc_upt [symmetric] comp_def del: upt_Suc)

lemma word_bytes_add: "word_bytes w (m + n) = word_bytes w m @ word_bytes (\<lambda>k. w (m + k)) n"
  by (induction m arbitrary: w) (simp_all add: word_bytes_Suc, simp add: word_bytes_def)

text \<open>Whether entry \<open>j\<close> of \<open>E\<close> words has only zeros.\<close>

definition zero_entry :: "(nat \<Rightarrow> u32) \<Rightarrow> nat \<Rightarrow> nat \<Rightarrow> bool" where
  "zero_entry w E j \<longleftrightarrow> (\<forall>k<E. w (E * j + k) = 0)"

lemma zero_entry_shift: "zero_entry (\<lambda>k. w (E * m + k)) E j \<longleftrightarrow> zero_entry w E (m + j)"
  by (simp add: zero_entry_def algebra_simps)

lemma zero_entry_Suc: "zero_entry (\<lambda>k. w (E + k)) E j \<longleftrightarrow> zero_entry w E (Suc j)"
  using zero_entry_shift [of w E 1 j] by simp

lemma length_put_word [simp]: "4 * i + 4 \<le> length buf \<Longrightarrow> length (put_word buf i w) = length buf"
  by (simp add: put_word_def)

lemma take_put_word: "4 * i + 4 \<le> length buf \<Longrightarrow> take (4 + 4 * i) (put_word buf i w) = take (4 * i) buf @ le32_bytes w"
  by (simp add: put_word_def add.commute)

context tcd_dev
begin

lemma rest_fun: "tw (snd (mload M tcd s)) = (\<lambda>k. tw s (Suc k))"
  by (simp add: fun_eq_iff rest_words)

lemma fill_entry_words:
  "4 * (i + n) \<le> length buf \<Longrightarrow>
   \<exists>tmp' buf' s'. fill_entry M tcd n tmp i buf s = Some (tmp', i + n, buf', s') \<and> length buf' = length buf \<and>
     take (4 * (i + n)) buf' = take (4 * i) buf @ word_bytes (tw s) n \<and> (\<forall>k. tw s' k = tw s (n + k)) \<and>
     (tmp' = 0 \<longleftrightarrow> tmp = 0 \<and> (\<forall>k<n. tw s k = 0))"
proof (induction n arbitrary: tmp i buf s)
  case 0
  then show ?case
    by (simp add: word_bytes_def)
next
  case (Suc n)
  let ?s = "snd (mload M tcd s)" and ?b = "put_word buf i (tw s 0)"
  obtain tmp' buf' s' where IH: "fill_entry M tcd n (tmp OR tw s 0) (Suc i) ?b ?s = Some (tmp', Suc i + n, buf', s')"
    "length buf' = length ?b" "take (4 * (Suc i + n)) buf' = take (4 * Suc i) ?b @ word_bytes (tw ?s) n"
    "\<forall>k. tw s' k = tw ?s (n + k)" "tmp' = 0 \<longleftrightarrow> tmp OR tw s 0 = 0 \<and> (\<forall>k<n. tw ?s k = 0)"
    using Suc.IH [of "Suc i" ?b "tmp OR tw s 0" ?s] Suc.prems by auto
  have "take (4 * (i + Suc n)) buf' = take (4 * i) buf @ word_bytes (tw s) (Suc n)"
    using IH(3) take_put_word [of i buf "tw s 0"] Suc.prems by (simp add: word_bytes_Suc rest_fun)
  moreover have "(\<forall>k<Suc n. tw s k = 0) \<longleftrightarrow> tw s 0 = 0 \<and> (\<forall>k<n. tw ?s k = 0)"
    by (auto simp: rest_words less_Suc_eq_0_disj)
  ultimately show ?case
    using IH Suc.prems by (auto simp: split_beta next_word rest_fun or_eq_0_iff)
qed

text \<open>
  The loop that copies entries until a zero entry or until \<open>K\<close> entries are copied; the block buffer
  and the heap are both filled by such a loop \<open>f\<close>, with the entry to copy as its first argument.
\<close>

lemma entries_words:
  assumes "0 < E" "4 * E * K \<le> N"
    and rec: "\<And>j buf s tmp buf1 s1. fill_entry M tcd E 0 (E * j) buf s = Some (tmp, E * Suc j, buf1, s1) \<Longrightarrow>
      f j buf s = (if tmp \<noteq> 0 \<and> Suc j < K then f (Suc j) buf1 s1 else Some (tmp, 4 * E * Suc j, buf1, s1))"
  shows "j < K \<Longrightarrow> length buf = N \<Longrightarrow>
    \<exists>m tmp' buf' s'. f j buf s = Some (tmp', 4 * E * (j + Suc m), buf', s') \<and>
      j + Suc m \<le> K \<and> length buf' = N \<and> take (4 * E * (j + Suc m)) buf' = take (4 * E * j) buf @ word_bytes (tw s) (E * Suc m) \<and>
      (\<forall>k. tw s' k = tw s (E * Suc m + k)) \<and> (\<forall>i<m. \<not> zero_entry (tw s) E i) \<and>
      (tmp' = 0 \<longleftrightarrow> zero_entry (tw s) E m) \<and> (tmp' \<noteq> 0 \<longrightarrow> j + Suc m = K)"
proof (induction "K - j" arbitrary: j buf s rule: less_induct)
  case less
  have "E * Suc j \<le> E * K"
    using less.prems(1) by (intro mult_le_mono2) simp
  then have "4 * (E * j + E) \<le> length buf"
    using less.prems(2) assms(2) by simp
  from fill_entry_words [OF this, of 0 s]
  obtain tmp buf1 s1 where 1: "fill_entry M tcd E 0 (E * j) buf s = Some (tmp, E * Suc j, buf1, s1)"
    "length buf1 = N" "take (4 * (E * j + E)) buf1 = take (4 * (E * j)) buf @ word_bytes (tw s) E"
    "\<forall>k. tw s1 k = tw s (E + k)" "tmp = 0 \<longleftrightarrow> (\<forall>k<E. tw s k = 0)"
    using less.prems(2) by (auto simp: add.commute)
  have tmp: "tmp = 0 \<longleftrightarrow> zero_entry (tw s) E 0"
    using 1(5) by (simp add: zero_entry_def)
  note step = rec [OF 1(1)]
  show ?case
  proof (cases "tmp \<noteq> 0 \<and> Suc j < K")
    case True
    then have "K - Suc j < K - j" "Suc j < K"
      by auto
    from less.hyps [OF this 1(2), of s1]
    obtain m tmp' buf' s' where 2: "f (Suc j) buf1 s1 = Some (tmp', 4 * E * (Suc j + Suc m), buf', s')"
      "Suc j + Suc m \<le> K" "length buf' = N"
      "take (4 * E * (Suc j + Suc m)) buf' = take (4 * E * Suc j) buf1 @ word_bytes (tw s1) (E * Suc m)"
      "\<forall>k. tw s' k = tw s1 (E * Suc m + k)" "\<forall>i<m. \<not> zero_entry (tw s1) E i" "tmp' = 0 \<longleftrightarrow> zero_entry (tw s1) E m"
      "tmp' \<noteq> 0 \<longrightarrow> Suc j + Suc m = K"
      by blast
    have w: "tw s1 = (\<lambda>k. tw s (E + k))"
      using 1(4) by auto
    have "\<forall>i<Suc m. \<not> zero_entry (tw s) E i"
      using 2(6) True tmp by (auto simp: w zero_entry_Suc less_Suc_eq_0_disj)
    moreover have "take (4 * E * (j + Suc (Suc m))) buf' = take (4 * E * j) buf @ word_bytes (tw s) (E * Suc (Suc m))"
      using 2(4) 1(3) word_bytes_add [of "tw s" E "E * Suc m"] by (simp add: w algebra_simps)
    moreover have "f j buf s = Some (tmp', 4 * E * (j + Suc (Suc m)), buf', s')"
      using True 2(1) by (simp add: step del: mult_Suc_right)
    moreover have "\<forall>k. tw s' k = tw s (E * Suc (Suc m) + k)"
      using 2(5) by (simp add: w add.assoc)
    moreover have "tmp' = 0 \<longleftrightarrow> zero_entry (tw s) E (Suc m)"
      using 2(7) by (simp add: w zero_entry_Suc)
    ultimately show ?thesis
      using 2(2,3,8) by (intro exI [of _ "Suc m"] exI [of _ tmp'] exI [of _ buf'] exI [of _ s']) simp
  next
    case False
    then have "f j buf s = Some (tmp, 4 * E * (j + Suc 0), buf1, s1)"
      by (simp only: step) simp
    moreover have "take (4 * E * (j + Suc 0)) buf1 = take (4 * E * j) buf @ word_bytes (tw s) (E * Suc 0)"
      using 1(3) by (simp add: algebra_simps)
    ultimately show ?thesis
      using 1(2,4) less.prems tmp False by (intro exI [of _ 0] exI [of _ tmp] exI [of _ buf1] exI [of _ s1]) auto
  qed
qed

lemma fill_block_words:
  assumes "0 < E" "BLK_SZ = 4 * E * K" "length buf = BLK_SZ"
  shows "\<exists>m tmp buf1 s1. fill_block M tcd (4 * E) 0 0 buf s = Some (tmp, 4 * E * Suc m, buf1, s1) \<and>
      Suc m \<le> K \<and> length buf1 = BLK_SZ \<and> take (4 * E * Suc m) buf1 = word_bytes (tw s) (E * Suc m) \<and>
      (\<forall>k. tw s1 k = tw s (E * Suc m + k)) \<and> (\<forall>i<m. \<not> zero_entry (tw s) E i) \<and>
      (tmp = 0 \<longleftrightarrow> zero_entry (tw s) E m)"
proof -
  have "4 * E * Suc j < BLK_SZ \<longleftrightarrow> Suc j < K" for j
    using assms(1) mult_less_cancel1 [of "4 * E" "Suc j" K] by (simp add: assms(2) del: mult_Suc_right)
  moreover have "4 * E * j + 4 * E = 4 * E * Suc j" for j
    by simp
  ultimately have "fill_block M tcd (4 * E) (E * j) (4 * E * j) buf s =
      (if tmp \<noteq> 0 \<and> Suc j < K then fill_block M tcd (4 * E) (E * Suc j) (4 * E * Suc j) buf1 s1
       else Some (tmp, 4 * E * Suc j, buf1, s1))"
    if "fill_entry M tcd E 0 (E * j) buf s = Some (tmp, E * Suc j, buf1, s1)" for j buf s tmp buf1 s1
    using that by (subst fill_block.simps) (simp del: mult_Suc_right)
  note W = entries_words [OF assms(1), of K BLK_SZ "\<lambda>j. fill_block M tcd (4 * E) (E * j) (4 * E * j)", OF _ this]
  have "0 < K"
    using assms(2) by (cases K) (simp_all add: BLK_SZ_def)
  with W [of 0 buf s] assms(2,3) show ?thesis
    by (simp del: mult_Suc_right) blast
qed

lemma copy_heap_words:
  assumes "0 < E" "0 < K" "4 * E * K \<le> length mem" "\<And>j. 4 * E * j < heap_sz \<longleftrightarrow> j < K"
  shows "\<exists>m tmp mem' s'. copy_heap M tcd (4 * E) heap_sz 0 0 mem s = Some (tmp, 4 * E * Suc m, mem', s') \<and>
      Suc m \<le> K \<and> take (4 * E * Suc m) mem' = word_bytes (tw s) (E * Suc m) \<and>
      (\<forall>i<m. \<not> zero_entry (tw s) E i) \<and> (tmp = 0 \<longleftrightarrow> zero_entry (tw s) E m) \<and> (tmp \<noteq> 0 \<longrightarrow> Suc m = K)"
proof -
  have "4 * E * j + 4 * E = 4 * E * Suc j" for j
    by simp
  then have "copy_heap M tcd (4 * E) heap_sz (E * j) (4 * E * j) mem s =
      (if tmp \<noteq> 0 \<and> Suc j < K then copy_heap M tcd (4 * E) heap_sz (E * Suc j) (4 * E * Suc j) mem1 s1
       else Some (tmp, 4 * E * Suc j, mem1, s1))"
    if "fill_entry M tcd E 0 (E * j) mem s = Some (tmp, E * Suc j, mem1, s1)" for j mem s tmp mem1 s1
    using that assms(4) [of "Suc j"] by (subst copy_heap.simps) (simp add: Let_def mult.assoc [symmetric] del: mult_Suc_right)
  note W = entries_words [OF assms(1,3), of "\<lambda>j. copy_heap M tcd (4 * E) heap_sz (E * j) (4 * E * j)", OF this]
  from W [of 0 mem s] assms(2) show ?thesis
    by (simp del: mult_Suc_right) blast
qed

text \<open>
  The loop over blocks, for any behaviour of \<^verbatim>\<open>fwrite\<close>: it ends, and what it wrote are the first
  entries of the trace, all before the last one not zero. It ended at a zero entry, at
  the size of the trace memory, or at a short write.
\<close>

lemma grab_trace_words:
  assumes "0 < E" "BLK_SZ = 4 * E * K" "\<forall>t n. fw t n \<le> n"
  shows "length buf = BLK_SZ \<Longrightarrow> tot < mem_sz \<Longrightarrow>
    \<exists>m L fl' tot' msgs' s'. grab_trace M tcd (4 * E) mem_sz fw buf fl tot msgs s = Some (fl', tot', msgs', s') \<and>
      fl' = fl @ take L (word_bytes (tw s) (E * Suc m)) \<and> L \<le> 4 * E * Suc m \<and>
      (\<forall>i<m. \<not> zero_entry (tw s) E i) \<and> tot + 4 * E * Suc m < mem_sz + BLK_SZ \<and>
      (if L = 4 * E * Suc m then tot' = tot + 4 * E * Suc m \<and> (zero_entry (tw s) E m \<or> mem_sz \<le> tot')
       else \<exists>t b. fw t b \<noteq> b)"
proof (induction "mem_sz - tot" arbitrary: tot buf fl msgs s rule: less_induct)
  case less
  from fill_block_words [OF assms(1,2) less.prems(1), of s]
  obtain m tmp buf1 s1 where 1: "fill_block M tcd (4 * E) 0 0 buf s = Some (tmp, 4 * E * Suc m, buf1, s1)"
    "Suc m \<le> K" "length buf1 = BLK_SZ" "take (4 * E * Suc m) buf1 = word_bytes (tw s) (E * Suc m)"
    "\<forall>k. tw s1 k = tw s (E * Suc m + k)" "\<forall>i<m. \<not> zero_entry (tw s) E i" "tmp = 0 \<longleftrightarrow> zero_entry (tw s) E m"
    by blast
  let ?n = "4 * E * Suc m" and ?ms = "\<lambda>t. if t mod 2 ^ 20 = 0 then msgs @ [Progress t] else msgs"
  have n: "0 < ?n" "?n \<le> BLK_SZ"
    using assms(1) 1(2) by (simp_all add: assms(2) del: mult_Suc_right)
  have step: "grab_trace M tcd (4 * E) mem_sz fw buf fl tot msgs s =
     (if fw tot ?n \<noteq> ?n then Some (fl @ take (fw tot ?n) (word_bytes (tw s) (E * Suc m)), tot, msgs @ [ShortWrite ?n (fw tot ?n)], s1)
      else if mem_sz \<le> tot + ?n then Some (fl @ word_bytes (tw s) (E * Suc m), tot + ?n, ?ms (tot + ?n) @ [MemExceeded], s1)
      else if tmp \<noteq> 0 then grab_trace M tcd (4 * E) mem_sz fw buf1 (fl @ word_bytes (tw s) (E * Suc m)) (tot + ?n) (?ms (tot + ?n)) s1
      else Some (fl @ word_bytes (tw s) (E * Suc m), tot + ?n, ?ms (tot + ?n), s1))"
    by (subst grab_trace.simps) (simp add: 1(1,4) Let_def del: mult_Suc_right take_take)
  show ?case
  proof (cases "fw tot ?n = ?n \<and> \<not> mem_sz \<le> tot + ?n \<and> tmp \<noteq> 0")
    case False
    have L: "fw tot ?n \<le> ?n"
      using assms(3) by blast
    obtain tot' msgs' where g: "grab_trace M tcd (4 * E) mem_sz fw buf fl tot msgs s =
        Some (fl @ take (fw tot ?n) (word_bytes (tw s) (E * Suc m)), tot', msgs', s1)"
      "fw tot ?n = ?n \<longrightarrow> tot' = tot + ?n \<and> (tmp = 0 \<or> mem_sz \<le> tot')"
    proof (cases "fw tot ?n = ?n")
      case True
      have len: "take ?n (word_bytes (tw s) (E * Suc m)) = word_bytes (tw s) (E * Suc m)"
        by simp
      show ?thesis
        using False True
        by (intro that [of "tot + ?n" "?ms (tot + ?n) @ (if mem_sz \<le> tot + ?n then [MemExceeded] else [])"])
          (auto simp: step len simp del: mult_Suc_right take_all)
    next
      case False
      then show ?thesis
        by (intro that) (simp_all add: step del: mult_Suc_right)
    qed
    have "tot + ?n < mem_sz + BLK_SZ" "if fw tot ?n = ?n then tot' = tot + ?n \<and> (zero_entry (tw s) E m \<or> mem_sz \<le> tot')
       else \<exists>t b. fw t b \<noteq> b"
      using n less.prems(2) g(2) 1(7) by (simp_all del: mult_Suc_right) blast
    then show ?thesis
      using g(1) 1(6) L by blast
  next
    case True
    then have "mem_sz - (tot + ?n) < mem_sz - tot" "tot + ?n < mem_sz"
      using n(1) less.prems(2) by auto
    from less.hyps [OF this(1) 1(3) this(2), of "fl @ word_bytes (tw s) (E * Suc m)" "?ms (tot + ?n)" s1]
    obtain m' L fl' tot' msgs' s' where 2: "grab_trace M tcd (4 * E) mem_sz fw buf1 (fl @ word_bytes (tw s) (E * Suc m)) (tot + ?n) (?ms (tot + ?n)) s1 = Some (fl', tot', msgs', s')"
      "fl' = (fl @ word_bytes (tw s) (E * Suc m)) @ take L (word_bytes (tw s1) (E * Suc m'))" "L \<le> 4 * E * Suc m'"
      "\<forall>i<m'. \<not> zero_entry (tw s1) E i" "tot + ?n + 4 * E * Suc m' < mem_sz + BLK_SZ"
      "if L = 4 * E * Suc m' then tot' = tot + ?n + 4 * E * Suc m' \<and> (zero_entry (tw s1) E m' \<or> mem_sz \<le> tot')
       else \<exists>t b. fw t b \<noteq> b"
      by blast
    have w: "tw s1 = (\<lambda>k. tw s (E * Suc m + k))"
      using 1(5) by auto
    have idx: "E * Suc m + E * Suc m' = E * Suc (Suc m + m')" "?n + 4 * E * Suc m' = 4 * E * Suc (Suc m + m')"
      by (simp_all add: algebra_simps)
    have "\<not> zero_entry (tw s) E i" if "i < Suc m + m'" for i
    proof -
      have "i < m \<or> i = m \<or> i = Suc m + (i - Suc m) \<and> i - Suc m < m'"
        using that by arith
      moreover have "\<not> zero_entry (tw s) E (Suc m + k)" if "k < m'" for k
        using 2(4) that unfolding w zero_entry_shift by blast
      ultimately show ?thesis
        using 1(6,7) True by metis
    qed
    moreover have "fl' = fl @ take (?n + L) (word_bytes (tw s) (E * Suc (Suc m + m')))"
      using 2(2) word_bytes_add [of "tw s" "E * Suc m" "E * Suc m'"] unfolding idx by (simp add: w del: mult_Suc_right)
    moreover have "tot + 4 * E * Suc (Suc m + m') < mem_sz + BLK_SZ" "?n + L \<le> 4 * E * Suc (Suc m + m')"
      "?n + L = 4 * E * Suc (Suc m + m') \<longleftrightarrow> L = 4 * E * Suc m'"
      using 2(3,5) unfolding idx(2) [symmetric] by auto
    moreover have "if L = 4 * E * Suc m' then tot' = tot + 4 * E * Suc (Suc m + m') \<and> (zero_entry (tw s) E (Suc m + m') \<or> mem_sz \<le> tot')
       else \<exists>t b. fw t b \<noteq> b"
      using 2(6) unfolding idx(2) [symmetric] w zero_entry_shift add.assoc .
    ultimately show ?thesis
      using True 2(1) by (intro exI [of _ "Suc m + m'"] exI [of _ "?n + L"] exI [of _ fl'] exI [of _ tot'] exI [of _ msgs'] exI [of _ s'])
        (simp add: step del: mult_Suc_right)
  qed
qed

lemma grab_sd_returns:
  assumes "0 < E" "BLK_SZ = 4 * E * K"
  shows "length buf = BLK_SZ \<Longrightarrow> \<exists>r. grab_sd F M tcd (4 * E) mem_sz buf tot msgs fdst v s = Some r"
proof (induction "mem_sz - tot" arbitrary: tot buf msgs fdst v s rule: less_induct)
  case less
  from fill_block_words [OF assms less.prems, of s]
  obtain m tmp buf1 s1 where 1: "fill_block M tcd (4 * E) 0 0 buf s = Some (tmp, 4 * E * Suc m, buf1, s1)" "length buf1 = BLK_SZ"
    by blast
  obtain fr bw fdst' v' where w: "f_write F (take (4 * E * Suc m) buf1) fdst v = (fr, bw, fdst', v')"
    by (metis surj_pair)
  have "\<exists>r. grab_sd F M tcd (4 * E) mem_sz buf1 (tot + 4 * E * Suc m) ms fdst' v' s1 = Some r"
    if "\<not> mem_sz \<le> tot + 4 * E * Suc m" for ms
    using that assms(1) 1(2) by (intro less.hyps) auto
  then show ?case
    by (subst grab_sd.simps) (auto simp: 1(1) w Let_def simp del: mult_Suc_right)
qed

end

section \<open>Sizes\<close>

lemma entry_size_pow: "\<exists>j\<ge>k. entry_size n k = 2 ^ j \<and> n \<le> 2 ^ j \<and> (j = k \<or> 2 ^ (j - 1) < n)"
proof (induction n k rule: entry_size.induct)
  case (1 n k)
  show ?case
  proof (cases "2 ^ k < n")
    case True
    with 1 obtain j where "Suc k \<le> j" "entry_size n (k + 1) = 2 ^ j" "n \<le> 2 ^ j" "j = Suc k \<or> 2 ^ (j - 1) < n"
      by auto
    with True show ?thesis
      by (intro exI [of _ j]) (auto simp: entry_size.simps [of n k])
  next
    case False
    then show ?thesis
      by (intro exI [of _ k]) (auto simp: entry_size.simps [of n k])
  qed
qed

text \<open>Entries of at least one word that fit the block buffer fill it exactly.\<close>

lemma entry_size_block:
  assumes "2 < n" "n \<le> 2 ^ 17"
  shows "\<exists>E K. entry_size n 0 = 4 * E \<and> 0 < E \<and> BLK_SZ = 4 * E * K"
proof -
  obtain j where j: "entry_size n 0 = 2 ^ j" "n \<le> 2 ^ j" "j = 0 \<or> 2 ^ (j - 1) < n"
    using entry_size_pow [of 0 n] by auto
  have "2 \<le> j"
    using j(2) assms(1) by (cases j; cases "j - 1") auto
  moreover have "j \<le> 17"
  proof (rule ccontr)
    assume "\<not> j \<le> 17"
    then have "(2 :: nat) ^ 17 \<le> 2 ^ (j - 1)"
      by (intro power_increasing) auto
    with j(3) assms(2) \<open>\<not> j \<le> 17\<close> show False
      by auto
  qed
  ultimately have "(2 :: nat) ^ j = 2 ^ 2 * 2 ^ (j - 2)" "(2 :: nat) ^ 17 = 2 ^ j * 2 ^ (17 - j)"
    by (metis le_add_diff_inverse power_add)+
  then show ?thesis
    using j(1) by (intro exI [of _ "2 ^ (j - 2)"] exI [of _ "2 ^ (17 - j)"]) (simp add: BLK_SZ_def)
qed

lemma get_name_length: "get_name ks fn out = Some (r, out', rest) \<Longrightarrow> length fn \<le> 79 \<Longrightarrow> length r \<le> 79"
  by (induction ks fn out rule: get_name.induct) (auto split: if_splits)

lemma get_name_returns: "CHR 0x0D \<in> set ks \<Longrightarrow> \<exists>r. get_name ks fn out = Some r"
  by (induction ks fn out rule: get_name.induct) auto

section \<open>A device in memory\<close>

definition tcd_word :: "u32 list \<times> nat \<Rightarrow> nat \<Rightarrow> u32" where
  "tcd_word s k = (if snd s + k < length (fst s) then fst s ! (snd s + k) else 0)"

definition tcd_mmio :: "u64 \<Rightarrow> (u32 list \<times> nat) mmio" where
  "tcd_mmio b = \<lparr>
     mload = (\<lambda>a s. if a = b then (tcd_word s 0, (fst s, Suc (snd s))) else (0, s)),
     mstore = (\<lambda>a v s. if a = b then (fst s, 0) else s)\<rparr>"

interpretation memtcd: tcd_dev "tcd_mmio b" b tcd_word "\<lambda>s. tcd_word (fst s, 0)" for b
  by unfold_locales (simp_all add: tcd_mmio_def tcd_word_def)

lemma mem_tcd_dev: "tcd_dev (tcd_mmio b) b tcd_word (\<lambda>s. tcd_word (fst s, 0))"
  by unfold_locales

section \<open>The standalone versions end\<close>

lemma TCD_ENTRY_SZ_block:
  "\<exists>E K. TCD_ENTRY_SZ width = 4 * E \<and> 0 < E \<and> BLK_SZ = 4 * E * K"
  by (rule exI [of _ "TCD_ENTRY_SZ width div 4"], rule exI [of _ "BLK_SZ div TCD_ENTRY_SZ width"])
    (simp add: TCD_ENTRY_SZ_def BLK_SZ_def)

lemma sd_capture_returns:
  assumes "tcd_dev M tcd tw trace" "length buf = BLK_SZ" "CHR 0x0D \<in> set ks"
  shows "(\<exists>r. sd_trace_capture F M tcd (TCD_ENTRY_SZ width) mem_sz ks secs buf fdst v s = Some r) \<longleftrightarrow>
    secs \<noteq> 0 \<or> fst (the (get_name ks [] ''enter trace file name: '')) = []"
proof -
  obtain E K where E: "TCD_ENTRY_SZ width = 4 * E" "0 < E" "BLK_SZ = 4 * E * K"
    using TCD_ENTRY_SZ_block by blast
  obtain fn out ks' where n: "get_name ks [] ''enter trace file name: '' = Some (fn, out, ks')"
    using get_name_returns [OF assms(3)] by (metis prod_cases3)
  obtain fr v1 where m: "f_mount F v = (fr, v1)"
    by force
  obtain fr2 fil v2 where o: "f_open F (cstr fn) (FA_CREATE_ALWAYS OR FA_WRITE) fdst v1 = (fr2, fil, v2)"
    by (metis surj_pair)
  obtain r where "grab_sd F M tcd (4 * E) mem_sz buf 0 [] fil v2 (mstore M tcd 0 s) = Some r"
    using tcd_dev.grab_sd_returns [OF assms(1) E(2,3) assms(2)] by metis
  then show ?thesis
    by (cases r) (simp add: sd_trace_capture_def E(1) n m o Let_def split_beta)
qed

lemma heap_capture_words:
  assumes "tcd_dev M tcd tw trace" "TCD_ENTRY_SZ width * K \<le> length mem" "0 < K"
    and "\<And>j. TCD_ENTRY_SZ width * j < heap_sz \<longleftrightarrow> j < K"
  shows "\<exists>m msgs mem' s'. heap_trace_capture M tcd (TCD_ENTRY_SZ width) mem_beg heap_sz mem s = Some (msgs, mem', s') \<and>
      take (TCD_ENTRY_SZ width * Suc m) mem' = word_bytes (trace s) (TCD_ENTRY_SZ width div 4 * Suc m) \<and>
      (\<forall>i<m. \<not> zero_entry (trace s) (TCD_ENTRY_SZ width div 4) i) \<and>
      (OutOfHeap \<in> set msgs \<longleftrightarrow> \<not> zero_entry (trace s) (TCD_ENTRY_SZ width div 4) m)"
proof -
  obtain E where E: "TCD_ENTRY_SZ width = 4 * E" "0 < E"
    using TCD_ENTRY_SZ_block by blast
  have rew: "tw (mstore M tcd 0 s) = trace s"
    using assms(1) by (rule tcd_dev.rewind)
  from tcd_dev.copy_heap_words [OF assms(1) E(2) assms(3) assms(2) [unfolded E(1)] assms(4) [unfolded E(1)],
      of "mstore M tcd 0 s", unfolded rew]
  obtain m tmp mem' s' where h: "copy_heap M tcd (4 * E) heap_sz 0 0 mem (mstore M tcd 0 s) = Some (tmp, 4 * E * Suc m, mem', s')"
    "take (4 * E * Suc m) mem' = word_bytes (trace s) (E * Suc m)" "\<forall>i<m. \<not> zero_entry (trace s) E i"
    "tmp = 0 \<longleftrightarrow> zero_entry (trace s) E m"
    by blast
  have "E = TCD_ENTRY_SZ width div 4"
    by (simp add: E(1))
  moreover have "heap_trace_capture M tcd (4 * E) mem_beg heap_sz mem s =
      Some ((if tmp \<noteq> 0 then [OutOfHeap] else []) @ [TraceAt mem_beg (4 * E * Suc m)], mem', s')"
    by (simp add: heap_trace_capture_def h(1) del: mult_Suc_right)
  ultimately show ?thesis
    using h(2-4) by (intro exI [of _ m]) (auto simp: E(1) simp del: mult_Suc_right)
qed

section \<open>Properties\<close>

text \<open>
  What the capture writes into its file: the first \<open>L\<close> bytes of the entries \<open>0\<close> to \<open>m\<close>, all of them
  non-zero but the last. Nothing is missing unless \<^verbatim>\<open>fwrite\<close> fell short somewhere; then entry \<open>m\<close>
  is the terminating one or the size of the trace memory was reached.
\<close>

definition captured :: "(nat \<Rightarrow> nat \<Rightarrow> nat) \<Rightarrow> (nat \<Rightarrow> u32) \<Rightarrow> nat \<Rightarrow> nat \<Rightarrow> nat \<Rightarrow> u8 list \<Rightarrow> bool" where
  "captured fw w E mem_sz m file \<longleftrightarrow>
     (\<exists>L\<le>4 * E * Suc m. file = take L (word_bytes w (E * Suc m)) \<and>
        (if L = 4 * E * Suc m then zero_entry w E m \<or> mem_sz \<le> 4 * E * Suc m else \<exists>t b. fw t b \<noteq> b)) \<and>
     (\<forall>i<m. \<not> zero_entry w E i) \<and> 4 * E * Suc m < mem_sz + BLK_SZ"

lemma capture_file:
  assumes "tcd_dev M tcd tw trace" "take 1 fn \<noteq> [CHR 0x0A]" "opens (strip_nl fn)"
    and "dev_u32 tree g ''axi_perf_mon'' ''xlnx,fifo-axis-tdata-width'' = Some width"
    and "dev_u32 tree g ''axi_tcd'' ''xlnx,mem-addr-width'' = Some maw" "dev_reg tree g ''axi_tcd'' = Some addr"
    and "dev_mmap S addr d = (tcd, d')" "tcd \<noteq> MAP_FAILED" "length buf = BLK_SZ" "\<forall>t n. fw t n \<le> n"
    and "2 < unat (width div 8)" "unat (width div 8) \<le> 2 ^ 17" "unat maw < 64"
  shows "\<exists>m fl tot msgs s'. trace_capture M S tree (Some fn) opens fw buf g d s =
      Some (Cap_file (strip_nl fn) fl tot msgs (dev_munmap S tcd d'), d', s') \<and>
    captured fw (trace s) (entry_size (unat (width div 8)) 0 div 4) (2 ^ unat maw) m fl"
proof -
  obtain E K where E: "entry_size (unat (width div 8)) 0 = 4 * E" "0 < E" "BLK_SZ = 4 * E * K"
    using entry_size_block [OF assms(11,12)] by blast
  have rew: "tw (mstore M tcd 0 s) = trace s"
    using assms(1) by (rule tcd_dev.rewind)
  have pos: "0 < (2 :: nat) ^ unat maw"
    by simp
  from tcd_dev.grab_trace_words [OF assms(1) E(2,3) assms(10,9) pos, of "[]" "[]" "mstore M tcd 0 s", unfolded rew add_0 append_Nil]
  obtain m L fl tot msgs s' where "grab_trace M tcd (4 * E) (2 ^ unat maw) fw buf [] 0 [] (mstore M tcd 0 s) = Some (fl, tot, msgs, s')"
    "fl = take L (word_bytes (trace s) (E * Suc m))" "L \<le> 4 * E * Suc m" "\<forall>i<m. \<not> zero_entry (trace s) E i"
    "4 * E * Suc m < 2 ^ unat maw + BLK_SZ"
    "if L = 4 * E * Suc m then tot = 4 * E * Suc m \<and> (zero_entry (trace s) E m \<or> 2 ^ unat maw \<le> tot) else \<exists>t b. fw t b \<noteq> b"
    by blast
  moreover from this have "captured fw (trace s) E (2 ^ unat maw) m fl"
    by (auto simp: captured_def simp del: mult_Suc_right split: if_splits)
  ultimately show ?thesis
    using assms(2-8,13) by (simp add: trace_capture_def Let_def E(1)) blast
qed

text \<open>C9: On a device that delivers its trace word by word, the Linux capture always returns, never writes outside
  its block buffer, and leaves in the file the entries of the trace in order up to and with the first
  entry of zeros, unless the trace memory is exhausted or a write falls short, in which case the
  file is a prefix of them; the file name is the line without its end, and the mapping is undone.\<close>

theorem trace_capture_writes:
  assumes "tcd_dev M tcd tw trace" "take 1 fn \<noteq> [CHR 0x0A]" "opens (strip_nl fn)"
    and "dev_u32 tree g ''axi_perf_mon'' ''xlnx,fifo-axis-tdata-width'' = Some width"
    and "dev_u32 tree g ''axi_tcd'' ''xlnx,mem-addr-width'' = Some maw" "dev_reg tree g ''axi_tcd'' = Some addr"
    and "dev_mmap S addr d = (tcd, d')" "tcd \<noteq> MAP_FAILED" "length buf = BLK_SZ" "\<forall>t n. fw t n \<le> n"
    and "2 < unat (width div 8)" "unat (width div 8) \<le> 2 ^ 17" "unat maw < 64"
  shows "\<exists>m fl tot msgs s'. trace_capture M S tree (Some fn) opens fw buf g d s =
      Some (Cap_file (strip_nl fn) fl tot msgs (dev_munmap S tcd d'), d', s') \<and>
    captured fw (trace s) (entry_size (unat (width div 8)) 0 div 4) (2 ^ unat maw) m fl"
  using assms by (rule capture_file)

text \<open>A device tree with a monitor of 328-bit entries and a trace memory of \<open>2 ^ 29\<close> bytes.\<close>

definition mon_tree :: node where
  "mon_tree = Dir
     [(''apm'', Dir [(''name'', File (map of_char (''axi_perf_mon'' @ [CHR 0x00]))),
         (''xlnx,fifo-axis-tdata-width'', File [0, 0, 1, 72])]),
      (''tcd'', Dir [(''name'', File (map of_char (''axi_tcd'' @ [CHR 0x00]))),
         (''xlnx,mem-addr-width'', File [0, 0, 0, 29]),
         (''reg'', File [0, 0, 0, 0, 0xB0, 0, 0, 0, 0, 0, 0, 0, 0, 1, 0, 0])])]"

lemma mon_tree_props:
  "dev_u32 mon_tree (replicate 16 7) ''axi_perf_mon'' ''xlnx,fifo-axis-tdata-width'' = Some 328"
  "dev_u32 mon_tree (replicate 16 7) ''axi_tcd'' ''xlnx,mem-addr-width'' = Some 29"
  "dev_reg mon_tree (replicate 16 7) ''axi_tcd'' = Some 0xB0000000"
  by (code_simp, code_simp, code_simp)

definition mon_os :: os where
  "mon_os = \<lparr>os_pagesize = 4096, os_open = 3, os_mmap = (\<lambda>fd n a. 0x7F0000000000), os_munmap = (\<lambda>a n. 0)\<rparr>"

theorem trace_capture_writes_witness:
  "\<exists>m fl tot msgs s'. trace_capture (tcd_mmio 0x7F0000000000) mon_os mon_tree (Some (''t.bin'' @ [CHR 0x0A])) (\<lambda>f. True) (\<lambda>t n. n)
      (replicate BLK_SZ 0) (replicate 16 7) \<lparr>mfd = 0, page_size = 0\<rparr> ([1, 2, 3], 9) =
      Some (Cap_file ''t.bin'' fl tot msgs 0, \<lparr>mfd = 3, page_size = 4096\<rparr>, s') \<and>
    captured (\<lambda>t n. n) (tcd_word ([1, 2, 3], 0)) 16 (2 ^ 29) m fl"
proof -
  have e: "entry_size 41 0 = 64"
    by (simp add: entry_size.simps)
  have f: "strip_nl (''t.bin'' @ [CHR 0x0A]) = ''t.bin''"
    by (simp add: strip_nl_def)
  have w: "unat (328 div 8 :: u32) = 41"
    by simp
  have m: "dev_mmap mon_os 0xB0000000 \<lparr>mfd = 0, page_size = 0\<rparr> = (0x7F0000000000, \<lparr>mfd = 3, page_size = 4096\<rparr>)"
    by (simp add: dev_mmap_def mon_os_def)
  show ?thesis
    using trace_capture_writes [OF mem_tcd_dev [of "0x7F0000000000"] _ _ mon_tree_props m, of "''t.bin'' @ [CHR 0x0A]" "\<lambda>f. True"
        "replicate BLK_SZ 0" "\<lambda>t n. n" "([1, 2, 3], 9)"]
    by (simp add: e f [simplified] w MAP_FAILED_def dev_munmap_def mon_os_def)
qed



end
