(* ===== verification/Monitor.thy ===== *)
theory Monitor
  imports Apm_Correct Trace_Capture
begin

text \<open>
  The monitoring interface of the benchmarks under Linux, \<^verbatim>\<open>src/shared/linux/monitor.c\<close>: it finds the
  performance monitor in the device tree, selects the metrics that \<^verbatim>\<open>stats_print\<close> reports, and
  starts, marks and stops the event log. The variants with UIO and PAPI are not modelled. \<open>Inl\<close> is
  \<^verbatim>\<open>exit(1)\<close> with its message.
\<close>

section \<open>Initialisation\<close>

record mon_glob =
  mon_baseaddr :: u64
  mon_params :: "xapm_param option"

definition mon_apm :: "'s mmio \<Rightarrow> mon_glob \<Rightarrow> 's apm" where
  "mon_apm M G = \<lparr>bus = M, baseaddr = mon_baseaddr G, params = the (mon_params G)\<rparr>"

definition need :: "string \<Rightarrow> 'a option \<Rightarrow> ('a \<Rightarrow> string + 'b) \<Rightarrow> string + 'b" where
  "need msg v k = (case v of None \<Rightarrow> Inl msg | Some x \<Rightarrow> k x)"

definition apm_prop :: "node \<Rightarrow> u8 list \<Rightarrow> string \<Rightarrow> u32 option" where
  "apm_prop tree g p = dev_u32 tree g ''axi_perf_mon'' p"

definition init_params :: "node \<Rightarrow> u8 list \<Rightarrow> xapm_param \<Rightarrow> string + xapm_param" where
  "init_params tree g P =
     (let P = P\<lparr>mode := XAPM_MODE_ADVANCED, isr := 0, is_32bit_filter := False\<rparr> in
      need ''APM enable-profile not found in device tree.'' (apm_prop tree g ''xlnx,enable-profile'') (\<lambda>m.
      let P = (if m \<noteq> 0 then P\<lparr>mode := XAPM_MODE_PROFILE\<rparr> else P) in
      need ''APM enable-trace not found in device tree.'' (apm_prop tree g ''xlnx,enable-trace'') (\<lambda>m.
      let P = (if m \<noteq> 0 then P\<lparr>mode := XAPM_MODE_TRACE\<rparr> else P) in
      need ''APM num-monitor-slots not found in device tree.'' (apm_prop tree g ''xlnx,num-monitor-slots'') (\<lambda>x.
      let P = P\<lparr>maxslots := x\<rparr> in
      need ''APM enable-event-count not found in device tree.'' (apm_prop tree g ''xlnx,enable-event-count'') (\<lambda>x.
      let P = P\<lparr>eventcnt := x\<rparr> in
      need ''APM enable-event-log not found in device tree.'' (apm_prop tree g ''xlnx,enable-event-log'') (\<lambda>x.
      let P = P\<lparr>eventlog := x\<rparr> in
      need ''APM have-sampled-metric-cnt not found in device tree.'' (apm_prop tree g ''xlnx,have-sampled-metric-cnt'') (\<lambda>x.
      let P = P\<lparr>sampledcnt := x\<rparr> in
      need ''APM num-of-counters not found in device tree.'' (apm_prop tree g ''xlnx,num-of-counters'') (\<lambda>x.
      let P = P\<lparr>numcounters := x\<rparr> in
      need ''APM metric-count-width not found in device tree.'' (apm_prop tree g ''xlnx,metric-count-width'') (\<lambda>x.
      let P = P\<lparr>metricwidth := x\<rparr> in
      need ''APM metrics-sample-count-width not found in device tree.'' (apm_prop tree g ''xlnx,metrics-sample-count-width'') (\<lambda>x.
      let P = P\<lparr>sampledwidth := x\<rparr> in
      need ''APM global-count-width not found in device tree.'' (apm_prop tree g ''xlnx,global-count-width'') (\<lambda>x.
      let P = P\<lparr>globalcntwidth := x\<rparr> in
      need ''APM metric-count-scale not found in device tree.'' (apm_prop tree g ''xlnx,metric-count-scale'') (\<lambda>x.
      Inr (P\<lparr>scalefactor := x\<rparr>)))))))))))))"

text \<open>\<open>mem\<close> is the memory \<^verbatim>\<open>malloc\<close> returns, if any.\<close>

definition monitor_init ::
  "os \<Rightarrow> node \<Rightarrow> u8 list \<Rightarrow> xapm_param option \<Rightarrow> dev_state \<Rightarrow> string + mon_glob \<times> dev_state" where
  "monitor_init S tree g mem d =
     need ''Cannot find APM reg space in device tree.'' (dev_reg tree g ''axi_perf_mon'') (\<lambda>addr.
     let (base, d) = dev_mmap S addr d
     in if base = MAP_FAILED then Inl ''APM reg mmap failed.''
        else need ''APM params allocation failed.'' mem (\<lambda>P.
          case init_params tree g P of
            Inl msg \<Rightarrow> Inl msg
          | Inr P \<Rightarrow> Inr (\<lparr>mon_baseaddr = base, mon_params = Some P\<rparr>, d)))"

datatype mon_release = Unmap int | FreeParams

definition monitor_finish :: "os \<Rightarrow> dev_state \<Rightarrow> mon_glob \<Rightarrow> mon_release list" where
  "monitor_finish S d G =
     (if mon_baseaddr G \<noteq> 0 then [Unmap (dev_munmap S (mon_baseaddr G) d)] else []) @
     (if mon_params G \<noteq> None then [FreeParams] else [])"

section \<open>Statistics\<close>

definition I2_RNG_HI :: "bool \<Rightarrow> u16" where
  "I2_RNG_HI lp64 = (if lp64 then 15 else 3)"

definition stats_start :: "bool \<Rightarrow> bool \<Rightarrow> 's apm \<Rightarrow> ('s, unit) state" where
  "stats_start lp64 use_acc A = do {
     setmetrics A 0 XAPM_METRIC_SET_0 (ucast XAPM_METRIC_COUNTER_0);
     setmetrics A 0 XAPM_METRIC_SET_1 (ucast XAPM_METRIC_COUNTER_1);
     setmetrics A 0 XAPM_METRIC_SET_2 (ucast XAPM_METRIC_COUNTER_2);
     setmetrics A 0 XAPM_METRIC_SET_3 (ucast XAPM_METRIC_COUNTER_3);
     setincrementerrange A (ucast XAPM_INCREMENTER_2) (I2_RNG_HI lp64) 0;
     (if use_acc then do {
        setmetrics A 1 XAPM_METRIC_SET_0 (ucast XAPM_METRIC_COUNTER_4);
        setmetrics A 1 XAPM_METRIC_SET_1 (ucast XAPM_METRIC_COUNTER_5);
        setmetrics A 1 XAPM_METRIC_SET_2 (ucast XAPM_METRIC_COUNTER_6);
        setmetrics A 1 XAPM_METRIC_SET_3 (ucast XAPM_METRIC_COUNTER_7);
        setincrementerrange A (ucast XAPM_INCREMENTER_6) 7 0
      } else State_Monad.return ());
     intrclear A XAPM_IXR_ALL_MASK;
     resetmetriccounter A;
     enablemetricscounter A
   }"

definition stats_stop :: "'s apm \<Rightarrow> ('s, unit) state" where
  "stats_stop A = disablemetricscounter A"

text \<open>One field \<^verbatim>\<open>%s%u\<close>: a star if the counter overflowed, and the counter. C leaves the order of the reads open.\<close>

definition stat_field :: "'s apm \<Rightarrow> u32 \<Rightarrow> u32 \<Rightarrow> ('s, string) state" where
  "stat_field A ovf counter = do {
     n \<leftarrow> getmetriccounter A counter;
     State_Monad.return ((if intrhwgetstatus A AND ovf \<noteq> 0 then ''*'' else []) @ fmt_u (unat n) @ '' '')
   }"

definition stats_print :: "bool \<Rightarrow> 's apm \<Rightarrow> ('s, string) state" where
  "stats_print use_acc A = do {
     a \<leftarrow> stat_field A XAPM_IXR_MC0_OVERFLOW_MASK XAPM_METRIC_COUNTER_0;
     b \<leftarrow> stat_field A XAPM_IXR_MC1_OVERFLOW_MASK XAPM_METRIC_COUNTER_1;
     c \<leftarrow> stat_field A XAPM_IXR_MC2_OVERFLOW_MASK XAPM_METRIC_COUNTER_2;
     d \<leftarrow> stat_field A XAPM_IXR_MC3_OVERFLOW_MASK XAPM_METRIC_COUNTER_3;
     i \<leftarrow> getincrementer A XAPM_INCREMENTER_2;
     let out = ''Slot TranW TranR ByteW ByteR StrobeLW'' @ nl @ ''CPU '' @ a @ b @ c @ d @ fmt_u (unat i) @ nl;
     if use_acc then do {
       a \<leftarrow> stat_field A XAPM_IXR_MC4_OVERFLOW_MASK XAPM_METRIC_COUNTER_4;
       b \<leftarrow> stat_field A XAPM_IXR_MC5_OVERFLOW_MASK XAPM_METRIC_COUNTER_5;
       c \<leftarrow> stat_field A XAPM_IXR_MC6_OVERFLOW_MASK XAPM_METRIC_COUNTER_6;
       d \<leftarrow> stat_field A XAPM_IXR_MC7_OVERFLOW_MASK XAPM_METRIC_COUNTER_7;
       i \<leftarrow> getincrementer A XAPM_INCREMENTER_6;
       State_Monad.return (out @ ''ACC '' @ a @ b @ c @ d @ fmt_u (unat i) @ nl)
     } else State_Monad.return out
   }"

section \<open>The event log\<close>

definition XAPM_FLAG_MIDWR :: u32 where "XAPM_FLAG_MIDWR = 0x00000080"
definition XAPM_FLAG_MIDRD :: u32 where "XAPM_FLAG_MIDRD = 0x00000100"

definition trace_flags :: "bool \<Rightarrow> u32" where
  "trace_flags tall =
     (if tall then XAPM_FLAG_WRADDR OR XAPM_FLAG_FIRSTWR OR XAPM_FLAG_LASTWR OR XAPM_FLAG_RESPONSE OR XAPM_FLAG_RDADDR OR
        XAPM_FLAG_FIRSTRD OR XAPM_FLAG_LASTRD OR XAPM_FLAG_MIDWR OR XAPM_FLAG_MIDRD OR XAPM_FLAG_SWDATA
      else XAPM_FLAG_WRADDR OR XAPM_FLAG_RDADDR OR XAPM_FLAG_SWDATA)"

definition trace_start :: "bool \<Rightarrow> 's apm \<Rightarrow> ('s, unit) state" where
  "trace_start tall A = do {
     starteventlog A (trace_flags tall);
     setswdatareg A 0xAAAAAAAA
   }"

fun flush_events :: "nat \<Rightarrow> 's apm \<Rightarrow> ('s, unit) state" where
  "flush_events 0 A = State_Monad.return ()"
| "flush_events (Suc n) A = do { setswdatareg A 0xDEADBEEF; flush_events n A }"

definition trace_stop :: "'s apm \<Rightarrow> ('s, int) state" where
  "trace_stop A = do { flush_events 16 A; stopeventlog A }"

definition trace_event :: "'s apm \<Rightarrow> u32 \<Rightarrow> ('s, unit) state" where
  "trace_event A e = setswdatareg A e"

section \<open>What the operations do to the registers\<close>

text \<open>
  The interrupt status register is not a cell: writing ones clears bits. All that is needed of it
  is that reading and writing it leave the other registers alone.
\<close>

lemmas stats_consts = XAPM_METRIC_SET_0_def XAPM_METRIC_SET_1_def XAPM_METRIC_SET_2_def XAPM_METRIC_SET_3_def
  XAPM_METRIC_COUNTER_0_def XAPM_METRIC_COUNTER_1_def XAPM_METRIC_COUNTER_2_def XAPM_METRIC_COUNTER_3_def
  XAPM_METRIC_COUNTER_4_def XAPM_METRIC_COUNTER_5_def XAPM_METRIC_COUNTER_6_def XAPM_METRIC_COUNTER_7_def
  XAPM_INCREMENTER_2_def XAPM_INCREMENTER_6_def

lemma stats_distinct:
  "XAPM_MSR0_OFFSET \<noteq> XAPM_CTL_OFFSET" "XAPM_MSR1_OFFSET \<noteq> XAPM_CTL_OFFSET" "XAPM_MSR0_OFFSET \<noteq> XAPM_MSR1_OFFSET"
  "XAPM_CTL_OFFSET \<noteq> XAPM_MSR0_OFFSET" "XAPM_CTL_OFFSET \<noteq> XAPM_MSR1_OFFSET" "XAPM_MSR1_OFFSET \<noteq> XAPM_MSR0_OFFSET"
  "XAPM_MSR0_OFFSET \<noteq> XAPM_RANGE0_OFFSET + 32" "XAPM_MSR0_OFFSET \<noteq> XAPM_RANGE0_OFFSET + 96"
  "XAPM_MSR1_OFFSET \<noteq> XAPM_RANGE0_OFFSET + 32" "XAPM_MSR1_OFFSET \<noteq> XAPM_RANGE0_OFFSET + 96"
  "XAPM_CTL_OFFSET \<noteq> XAPM_RANGE0_OFFSET + 32" "XAPM_CTL_OFFSET \<noteq> XAPM_RANGE0_OFFSET + 96"
  "XAPM_RANGE0_OFFSET + 32 \<noteq> XAPM_MSR0_OFFSET" "XAPM_RANGE0_OFFSET + 96 \<noteq> XAPM_MSR0_OFFSET"
  "XAPM_RANGE0_OFFSET + 32 \<noteq> XAPM_MSR1_OFFSET" "XAPM_RANGE0_OFFSET + 96 \<noteq> XAPM_MSR1_OFFSET"
  "XAPM_RANGE0_OFFSET + 32 \<noteq> XAPM_CTL_OFFSET" "XAPM_RANGE0_OFFSET + 96 \<noteq> XAPM_CTL_OFFSET"
  "XAPM_RANGE0_OFFSET + 32 \<noteq> XAPM_RANGE0_OFFSET + 96" "XAPM_RANGE0_OFFSET + 96 \<noteq> XAPM_RANGE0_OFFSET + 32"
  by (simp_all add: reg_consts)

locale stats_dev = apm_dev A reg for A :: "'s apm" and reg :: "u32 \<Rightarrow> 's \<Rightarrow> u32" +
  assumes status_load: "off \<in> set apm_rw \<Longrightarrow> reg off (snd (mload (bus A) (baseaddr A + ucast XAPM_IS_OFFSET) s)) = reg off s"
    and status_store: "off \<in> set apm_rw \<Longrightarrow> reg off (mstore (bus A) (baseaddr A + ucast XAPM_IS_OFFSET) v s) = reg off s"
begin

lemma setmetrics_reg:
  assumes "off \<in> set apm_rw" "counter < 10"
  shows "reg off (snd (run_state (setmetrics A slot metrics counter) s)) =
    (if off = msr_reg counter then msr_value (reg off s) (msr_mask (msr_pos counter)) slot metrics (msr_pos counter) else reg off s)"
  using assms by (simp add: setmetrics_eq wr)

lemma range_reg:
  assumes "off \<in> set apm_rw" "i < 10"
  shows "reg off (snd (run_state (setincrementerrange A i hi lo) s)) =
    (if off = XAPM_RANGE0_OFFSET + ucast i * 16 then push_bit 16 (ucast hi) OR ucast lo else reg off s)"
  using assms by (simp add: setincrementerrange_def wr range_offsets)

lemma intrclear_reg: "off \<in> set apm_rw \<Longrightarrow> reg off (snd (run_state (intrclear A msk) s)) = reg off s"
  by (simp add: intrclear_def readreg_def writereg_def run_load32 run_store32 split_beta status_load status_store)

lemma enable_reg:
  "off \<in> set apm_rw \<Longrightarrow> reg off (snd (run_state (enablemetricscounter A) s)) =
    (if off = XAPM_CTL_OFFSET then reg off s OR XAPM_CR_MCNTR_ENABLE_MASK else reg off s)"
  "off \<in> set apm_rw \<Longrightarrow> reg off (snd (run_state (disablemetricscounter A) s)) =
    (if off = XAPM_CTL_OFFSET then reg off s AND NOT XAPM_CR_MCNTR_ENABLE_MASK else reg off s)"
  by (simp_all add: enablemetricscounter_def disablemetricscounter_def rd wr split_beta)

lemmas reg_effects = setmetrics_reg range_reg intrclear_reg enable_reg reset_pulse(2)

lemma stats_registers:
  fixes s and lp64 use_acc
  defines "s' \<equiv> snd (run_state (stats_start lp64 use_acc A) s)"
  shows "reg XAPM_MSR0_OFFSET s' = msr_value (msr_value (msr_value (msr_value (reg XAPM_MSR0_OFFSET s) (msr_mask 0) 0 0 0)
      (msr_mask 1) 0 1 1) (msr_mask 2) 0 2 2) (msr_mask 3) 0 3 3"
    and "use_acc \<Longrightarrow> reg XAPM_MSR1_OFFSET s' = msr_value (msr_value (msr_value (msr_value (reg XAPM_MSR1_OFFSET s) (msr_mask 0) 1 0 0)
      (msr_mask 1) 1 1 1) (msr_mask 2) 1 2 2) (msr_mask 3) 1 3 3"
    and "reg (XAPM_RANGE0_OFFSET + 32) s' = push_bit 16 (ucast (I2_RNG_HI lp64))"
    and "use_acc \<Longrightarrow> reg (XAPM_RANGE0_OFFSET + 96) s' = push_bit 16 7"
    and "reg XAPM_CTL_OFFSET s' = reg XAPM_CTL_OFFSET s AND NOT XAPM_CR_MCNTR_RESET_MASK OR XAPM_CR_MCNTR_ENABLE_MASK"
  using range_offsets(1) [of 2] range_offsets(1) [of 6]
  by (simp_all add: s'_def stats_start_def split_beta reg_effects msr_reg_def msr_pos_def stats_consts stats_distinct)

lemma counters_selected:
  assumes "c < (if use_acc then 8 else 4)"
  shows "fst (run_state (getmetrics A c) (snd (run_state (stats_start lp64 use_acc A) s))) = (c mod 4, c div 4)"
proof -
  have "c < 10"
    using assms by (auto simp: word_less_nat_alt split: if_splits)
  then have "c = 0 \<or> c = 1 \<or> c = 2 \<or> c = 3 \<or> use_acc \<and> (c = 4 \<or> c = 5 \<or> c = 6 \<or> c = 7)"
    using assms u8_less_10 [of c] by (auto simp: word_less_nat_alt split: if_splits)
  then show ?thesis
    by (elim disjE conjE) (simp_all add: getmetrics_eq msr_reg_def msr_pos_def stats_registers msr_fields_value)
qed

lemma ranges_selected:
  "fst (run_state (getincrementerrange A 2) (snd (run_state (stats_start lp64 use_acc A) s))) = (I2_RNG_HI lp64, 0)"
  "use_acc \<Longrightarrow> fst (run_state (getincrementerrange A 6) (snd (run_state (stats_start lp64 use_acc A) s))) = (7, 0)"
  using range_offsets(1) [of 2] range_offsets(1) [of 6] pack16_fields [of "I2_RNG_HI lp64" 0]
  by (simp_all add: getincrementerrange_def rd stats_registers)

lemma log_registers:
  "reg XAPM_FEC_OFFSET (snd (run_state (trace_start tall A) s)) = trace_flags tall"
  "reg XAPM_CTL_OFFSET (snd (run_state (trace_start tall A) s)) = reg XAPM_CTL_OFFSET s OR XAPM_CR_EVENTLOG_ENABLE_MASK"
  "reg XAPM_SWD_OFFSET (snd (run_state (trace_start tall A) s)) = 0xAAAAAAAA"
  "reg XAPM_SWD_OFFSET (snd (run_state (trace_event A e) s)) = e"
  by (simp_all add: trace_start_def starteventlog_def setswdatareg_def trace_event_def rd wr split_beta)

lemma flush_reg: "off \<in> set apm_rw \<Longrightarrow> off \<noteq> XAPM_SWD_OFFSET \<Longrightarrow> reg off (snd (run_state (flush_events n A) s)) = reg off s"
  by (induction n arbitrary: s) (simp_all add: setswdatareg_def wr split_beta)

lemma trace_stop_reg:
  "reg XAPM_CTL_OFFSET (snd (run_state (trace_stop A) s)) = reg XAPM_CTL_OFFSET s AND NOT XAPM_CR_EVENTLOG_ENABLE_MASK"
  by (simp add: trace_stop_def stopeventlog_def rd wr split_beta flush_reg)

end

lemma flush_events_stores:
  "run_state (flush_events n A) s = ((), ((\<lambda>s. mstore (bus A) (baseaddr A + ucast XAPM_SWD_OFFSET) 0xDEADBEEF s) ^^ n) s)"
  by (induction n arbitrary: s) (simp_all add: setswdatareg_def writereg_def run_store32 funpow_swap1)

text \<open>The monitor with registers in memory.\<close>

lemma mem_stats_dev: "stats_dev (mem_apm p) (\<lambda>off m. m (0x44A00000 + ucast off))"
proof -
  have "XAPM_IS_OFFSET \<notin> set apm_rw"
    by (simp add: apm_rw_def XAPM_RANGE_OFFSETS_def XAPM_MCLOGEN_OFFSETS_def reg_consts)
  then have "off \<in> set apm_rw \<Longrightarrow> (ucast off :: u64) \<noteq> ucast XAPM_IS_OFFSET" for off
    by (auto simp: ucast_32_64_eq_iff)
  then show ?thesis
    using mem_apm_dev by (auto simp: stats_dev_def stats_dev_axioms_def mem_apm_def mem_mmio_def)
qed

interpretation memstats: stats_dev "mem_apm p" "\<lambda>off m. m (0x44A00000 + ucast off)" for p
  by (rule mem_stats_dev)

section \<open>Initialisation reads the tree\<close>

lemma need_Inr: "need msg v k = Inr y \<longleftrightarrow> (\<exists>x. v = Some x \<and> k x = Inr y)"
  by (simp add: need_def split: option.split)

definition apm_names :: "string list" where
  "apm_names = [''xlnx,enable-profile'', ''xlnx,enable-trace'', ''xlnx,num-monitor-slots'', ''xlnx,enable-event-count'',
     ''xlnx,enable-event-log'', ''xlnx,have-sampled-metric-cnt'', ''xlnx,num-of-counters'', ''xlnx,metric-count-width'',
     ''xlnx,metrics-sample-count-width'', ''xlnx,global-count-width'', ''xlnx,metric-count-scale'']"

text \<open>The parameters as the tree gives them.\<close>

definition tree_params :: "(string \<Rightarrow> u32) \<Rightarrow> xapm_param" where
  "tree_params v =
     \<lparr>mode = (if v ''xlnx,enable-trace'' \<noteq> 0 then XAPM_MODE_TRACE
        else if v ''xlnx,enable-profile'' \<noteq> 0 then XAPM_MODE_PROFILE else XAPM_MODE_ADVANCED),
      maxslots = v ''xlnx,num-monitor-slots'', eventcnt = v ''xlnx,enable-event-count'',
      eventlog = v ''xlnx,enable-event-log'', sampledcnt = v ''xlnx,have-sampled-metric-cnt'',
      numcounters = v ''xlnx,num-of-counters'', metricwidth = v ''xlnx,metric-count-width'',
      sampledwidth = v ''xlnx,metrics-sample-count-width'', globalcntwidth = v ''xlnx,global-count-width'',
      scalefactor = v ''xlnx,metric-count-scale'', isr = 0, is_32bit_filter = False\<rparr>"

lemma init_params_tree:
  assumes "\<forall>p\<in>set apm_names. apm_prop tree g p = Some (v p)"
  shows "init_params tree g P = Inr (tree_params v)"
  using assms by (simp add: init_params_def apm_names_def need_def tree_params_def Let_def)

lemma init_params_missing:
  assumes "p \<in> set apm_names" "apm_prop tree g p = None"
  shows "\<exists>msg. init_params tree g P = Inl msg"
proof (rule ccontr)
  assume "\<not> ?thesis"
  then obtain Q where "init_params tree g P = Inr Q"
    by (metis sumE)
  then show False
    using assms by (auto simp: init_params_def need_Inr Let_def apm_names_def)
qed

lemma dev_u32_first:
  assumes "length p \<le> NAME_SZ" "regular p tree" "4 \<le> length g"
  shows "dev_u32 tree g name p =
    (if dev_matches name p 4 tree = [] then None else Some (ucast (le64 (hd (dev_matches name p 4 tree)))))"
  using no_match_no_count(1) [of p "take 4 g" 4 name tree 1] first_match(1) [of "take 4 g" 4 p tree name] assms
  by (auto simp: dev_u32_def split_beta)

lemma dev_reg_first:
  assumes "regular ''reg'' tree" "16 \<le> length g"
  shows "dev_reg tree g name =
    (if dev_matches name ''reg'' 16 tree = [] then None else Some (reg_addr (hd (dev_matches name ''reg'' 16 tree))))"
  using no_match_no_count(1) [of "''reg''" "take 16 g" 16 name tree 1] first_match(1) [of "take 16 g" 16 "''reg''" tree name] assms
  by (auto simp: dev_reg_def split_beta NAME_SZ_def)

definition tree_value :: "node \<Rightarrow> string \<Rightarrow> u32" where
  "tree_value tree p = ucast (le64 (hd (dev_matches ''axi_perf_mon'' p 4 tree)))"

lemma apm_names_short: "p \<in> set apm_names \<Longrightarrow> length p \<le> NAME_SZ"
  by (auto simp: apm_names_def NAME_SZ_def)

section \<open>Properties\<close>

text \<open>\<^verbatim>\<open>stats_start\<close> leaves the counters so that each reports what its column of \<^verbatim>\<open>stats_print\<close> says, the
  write and read transactions and bytes of slot 0 and, with an accelerator, of slot 1; the ranges for
  the strobe counts are set, the counters run and are out of reset; \<^verbatim>\<open>stats_stop\<close> stops them and
  changes nothing else of the control register.\<close>

theorem stats_start_selects:
  fixes s and lp64 use_acc
  assumes "stats_dev A reg"
  defines "s' \<equiv> snd (run_state (stats_start lp64 use_acc A) s)"
  shows "(\<forall>c. c < (if use_acc then 8 else 4) \<longrightarrow> fst (run_state (getmetrics A c) s') = (c mod 4, c div 4)) \<and>
    fst (run_state (getincrementerrange A 2) s') = (I2_RNG_HI lp64, 0) \<and>
    (use_acc \<longrightarrow> fst (run_state (getincrementerrange A 6) s') = (7, 0)) \<and>
    reg XAPM_CTL_OFFSET s' = reg XAPM_CTL_OFFSET s AND NOT XAPM_CR_MCNTR_RESET_MASK OR XAPM_CR_MCNTR_ENABLE_MASK \<and>
    reg XAPM_CTL_OFFSET (snd (run_state (stats_stop A) s')) = reg XAPM_CTL_OFFSET s' AND NOT XAPM_CR_MCNTR_ENABLE_MASK"
  using assms(1)
  by (simp add: s'_def stats_dev.counters_selected stats_dev.ranges_selected stats_dev.stats_registers
      stats_stop_def stats_dev.enable_reg)

theorem stats_start_selects_witness:
  "fst (run_state (getmetrics (mem_apm demo_params) 6) (snd (run_state (stats_start True True (mem_apm demo_params)) (\<lambda>_. 0xFFFF)))) = (2, 1)"
  using stats_start_selects [OF mem_stats_dev [of demo_params], of True True "\<lambda>_. 0xFFFF"] by simp

text \<open>On a device tree that has the monitor with all its properties, \<^verbatim>\<open>monitor_init\<close> succeeds with the mapped
  registers and the values of the tree as parameters, in trace mode when the tree enables it, else
  profile mode, else advanced mode; a missing property or a failed allocation ends the program.
  \<^verbatim>\<open>monitor_finish\<close> then undoes the mapping and frees the parameters.\<close>

theorem monitor_init_params:
  assumes "\<forall>p\<in>set (''reg'' # apm_names). regular p tree" "16 \<le> length g"
    and "dev_matches ''axi_perf_mon'' ''reg'' 16 tree \<noteq> []"
    and "dev_mmap S (reg_addr (hd (dev_matches ''axi_perf_mon'' ''reg'' 16 tree))) d = (base, d')" "base \<noteq> MAP_FAILED"
  shows "((\<forall>p\<in>set apm_names. dev_matches ''axi_perf_mon'' p 4 tree \<noteq> []) \<longrightarrow>
      monitor_init S tree g (Some P) d = Inr (\<lparr>mon_baseaddr = base, mon_params = Some (tree_params (tree_value tree))\<rparr>, d')) \<and>
    ((\<exists>p\<in>set apm_names. dev_matches ''axi_perf_mon'' p 4 tree = []) \<longrightarrow> (\<exists>msg. monitor_init S tree g (Some P) d = Inl msg)) \<and>
    (\<exists>msg. monitor_init S tree g None d = Inl msg) \<and>
    (base \<noteq> 0 \<longrightarrow> monitor_finish S d' \<lparr>mon_baseaddr = base, mon_params = Some Q\<rparr> = [Unmap (dev_munmap S base d'), FreeParams])"
proof -
  have m: "monitor_init S tree g mem d = need ''APM params allocation failed.'' mem (\<lambda>P.
      case init_params tree g P of Inl msg \<Rightarrow> Inl msg | Inr P \<Rightarrow> Inr (\<lparr>mon_baseaddr = base, mon_params = Some P\<rparr>, d'))" for mem
    using dev_reg_first [of tree g "''axi_perf_mon''"] assms
    unfolding monitor_init_def by (simp add: need_def [of "''Cannot find APM reg space in device tree.''"])
  have v: "apm_prop tree g p = (if dev_matches ''axi_perf_mon'' p 4 tree = [] then None else Some (tree_value tree p))"
    if "p \<in> set apm_names" for p
    using dev_u32_first [of p tree g "''axi_perf_mon''"] apm_names_short [OF that] that assms(1,2)
    by (simp add: apm_prop_def tree_value_def)
  have "init_params tree g P = Inr (tree_params (tree_value tree))" if "\<forall>p\<in>set apm_names. dev_matches ''axi_perf_mon'' p 4 tree \<noteq> []"
    using that v by (intro init_params_tree) simp
  moreover have "\<exists>msg. init_params tree g P = Inl msg" if "\<exists>p\<in>set apm_names. dev_matches ''axi_perf_mon'' p 4 tree = []"
    using that v init_params_missing by metis
  ultimately show ?thesis
    unfolding m by (fastforce simp: need_def monitor_finish_def)
qed

definition apm_tree :: node where
  "apm_tree = Dir [(''apm'', Dir ([(''name'', File [97, 120, 105, 95, 112, 101, 114, 102, 95, 109, 111, 110, 0]),
     (''reg'', File [0, 0, 0, 0, 0xA0, 0, 0, 0, 0, 0, 0, 0, 0, 1, 0, 0])] @ map (\<lambda>p. (p, File [0, 0, 0, 1])) apm_names))]"

lemma apm_tree_facts:
  "p \<in> set (''reg'' # apm_names) \<Longrightarrow> regular p apm_tree"
  "p \<in> set apm_names \<Longrightarrow> dev_matches ''axi_perf_mon'' p 4 apm_tree = [[1, 0, 0, 0]]"
  "dev_matches ''axi_perf_mon'' ''reg'' 16 apm_tree \<noteq> []"
proof -
  have nm: "c_str [97, 120, 105, 95, 112, 101, 114, 102, 95, 109, 111, 110, 0] = ''axi_perf_mon''"
    by code_simp
  show "p \<in> set (''reg'' # apm_names) \<Longrightarrow> regular p apm_tree"
    by (auto simp: apm_tree_def apm_names_def skipped_def NAME_SZ_def)
  show "p \<in> set apm_names \<Longrightarrow> dev_matches ''axi_perf_mon'' p 4 apm_tree = [[1, 0, 0, 0]]"
    "dev_matches ''axi_perf_mon'' ''reg'' 16 apm_tree \<noteq> []"
    by (auto simp: apm_tree_def apm_names_def skipped_def NAME_SZ_def dev_probe_def nm fread_into_def dev_reverse_rev)
qed

theorem monitor_init_params_witness:
  "monitor_init mon_os apm_tree (replicate 16 7) (Some demo_params) \<lparr>mfd = 0, page_size = 0\<rparr> =
     Inr (\<lparr>mon_baseaddr = 0x7F0000000000, mon_params = Some (tree_params (tree_value apm_tree))\<rparr>, \<lparr>mfd = 3, page_size = 4096\<rparr>) \<and>
   tree_value apm_tree ''xlnx,num-of-counters'' = 1"
proof -
  have "dev_mmap mon_os a \<lparr>mfd = 0, page_size = 0\<rparr> = (0x7F0000000000, \<lparr>mfd = 3, page_size = 4096\<rparr>)" for a
    by (simp add: dev_mmap_def mon_os_def)
  moreover have "tree_value apm_tree ''xlnx,num-of-counters'' = 1"
    using apm_tree_facts(2) [of "''xlnx,num-of-counters''"] by (simp add: tree_value_def apm_names_def le64_def)
  ultimately show ?thesis
    using monitor_init_params [of apm_tree "replicate 16 7" mon_os "\<lparr>mfd = 0, page_size = 0\<rparr>" "0x7F0000000000"
        "\<lparr>mfd = 3, page_size = 4096\<rparr>" demo_params demo_params] apm_tree_facts
    by (simp add: MAP_FAILED_def)
qed

section \<open>Found by the model\<close>

text \<open>
  The overflow star is taken from a parameter that \<^verbatim>\<open>monitor_init\<close> sets to zero and nobody updates: it
  is never printed, whatever the status register of the device says.
\<close>

lemma no_overflow_star:
  "run_state (stat_field (mon_apm M \<lparr>mon_baseaddr = b, mon_params = Some (tree_params v)\<rparr>) ovf c) s =
   (let (n, s) = mload M (b + ucast (XAPM_MC0_OFFSET + c * 16)) s in (fmt_u (unat n) @ '' '', s))"
  by (simp add: stat_field_def intrhwgetstatus_def getmetriccounter_def readreg_def run_load32 mon_apm_def tree_params_def
      split_beta Let_def)

end
