(* ===== verification/Clocks.thy ===== *)
theory Clocks
  imports Devtree "HOL-Library.Multiset"
begin

text \<open>
  Clock scaling and memory delays, \<^verbatim>\<open>src/shared/standalone/clocks.c\<close> for both processors and
  \<^verbatim>\<open>src/shared/linux/clocks.c\<close>: \<^verbatim>\<open>clocks_emulate\<close> slows the clocks down and programs the delay units so
  that memory looks as slow as the emulated one, \<^verbatim>\<open>clocks_normal\<close> undoes it. Registers are reached
  over a memory-mapped bus; what is printed is a list of messages. Under Linux the registers are
  mapped first: the mappings a process holds are a multiset, and the file that sets the speed of the
  processor is a parameter, the effect of writing it on the hardware. The reads for one \<^verbatim>\<open>printf\<close> are
  done in the order of its arguments.
\<close>

section \<open>Latencies\<close>

text \<open>The three values that can be set when compiling; the others are fixed or derived.\<close>

record timing =
  T_W :: int
  T_R :: int
  T_TRANS :: int

definition default_timing :: timing where
  "default_timing = \<lparr>T_W = 106, T_R = 85, T_TRANS = 24\<rparr>"

definition T_SRAM_W :: int where "T_SRAM_W = 12"
definition T_SRAM_R :: int where "T_SRAM_R = 12"
definition T_DRAM_W :: int where "T_DRAM_W = 45"
definition T_DRAM_R :: int where "T_DRAM_R = 45"
definition T_QUEUE_W :: "timing \<Rightarrow> int" where "T_QUEUE_W T = T_W T - T_DRAM_W - T_TRANS T"
definition T_QUEUE_R :: "timing \<Rightarrow> int" where "T_QUEUE_R T = T_R T - T_DRAM_R - T_TRANS T"

lemmas t_defs = T_SRAM_W_def T_SRAM_R_def T_DRAM_W_def T_DRAM_R_def T_QUEUE_W_def T_QUEUE_R_def

text \<open>Write and read delay of the two units of a slot, as stored: the C expression is an \<^verbatim>\<open>int\<close>, the register unsigned.\<close>

type_synonym delays = "u32 \<times> u32 \<times> u32 \<times> u32"

definition z7_slot0 :: "timing \<Rightarrow> delays" where
  "z7_slot0 T = (word_of_int (4 * (T_SRAM_W + T_TRANS T) - 44), word_of_int (4 * (T_SRAM_R + T_TRANS T) - 39),
     word_of_int (4 * (T_DRAM_W + T_QUEUE_W T + T_TRANS T) - 45), word_of_int (4 * (T_DRAM_R + T_QUEUE_R T + T_TRANS T) - 44))"

definition z7_slot1 :: "timing \<Rightarrow> delays" where
  "z7_slot1 T = (word_of_int (4 * T_SRAM_W - 21), word_of_int (4 * T_SRAM_R - 36),
     word_of_int (4 * (T_DRAM_W + T_QUEUE_W T) - 21), word_of_int (4 * (T_DRAM_R + T_QUEUE_R T) - 37))"

definition zu_slot0 :: "timing \<Rightarrow> delays" where
  "zu_slot0 T = (word_of_int (6 * (T_SRAM_W + T_TRANS T) - 52), word_of_int (6 * (T_SRAM_R + T_TRANS T) - 69),
     word_of_int (6 * (T_DRAM_W + T_QUEUE_W T + T_TRANS T) - 52), word_of_int (6 * (T_DRAM_R + T_QUEUE_R T + T_TRANS T) - 69))"

definition zu_slot1 :: "timing \<Rightarrow> delays" where
  "zu_slot1 T = (word_of_int (6 * T_SRAM_W - 48), word_of_int (6 * T_SRAM_R - 66),
     word_of_int (6 * (T_DRAM_W + T_QUEUE_W T) - 48), word_of_int (6 * (T_DRAM_R + T_QUEUE_R T) - 66))"

section \<open>State\<close>

datatype clk_msg =
    Latencies "int list"
  | PllCtrl "u32 list"
  | ClkCtrl u32 u32
  | FpgaCtrl u32 u32
  | SlotDelays nat u32 u32 u32 u32
  | Incompatible
  | NotSet

record 's ck =
  ck_dev :: 's
  ck_msgs :: "clk_msg list"
  ck_maps :: "u64 multiset"
  ck_mem :: dev_state

definition ck_load :: "'s mmio \<Rightarrow> u64 \<Rightarrow> ('s ck, u32) state" where
  "ck_load M a = State (\<lambda>c. let (v, s) = mload M a (ck_dev c) in (v, c\<lparr>ck_dev := s\<rparr>))"

definition ck_store :: "'s mmio \<Rightarrow> u64 \<Rightarrow> u32 \<Rightarrow> ('s ck, unit) state" where
  "ck_store M a v = State (\<lambda>c. ((), c\<lparr>ck_dev := mstore M a v (ck_dev c)\<rparr>))"

definition ck_say :: "clk_msg \<Rightarrow> ('s ck, unit) state" where
  "ck_say m = State (\<lambda>c. ((), c\<lparr>ck_msgs := ck_msgs c @ [m]\<rparr>))"

definition say_latencies :: "timing \<Rightarrow> ('s ck, unit) state" where
  "say_latencies T = ck_say (Latencies [T_SRAM_W, T_SRAM_R, T_DRAM_W, T_DRAM_R, T_QUEUE_W T, T_QUEUE_R T, T_TRANS T,
     T_DRAM_W + T_QUEUE_W T + T_TRANS T, T_DRAM_R + T_QUEUE_R T + T_TRANS T])"

text \<open>Register \<open>k\<close> of a delay unit is the word at \<open>4 * k\<close>; 2 is the write, 4 the read response channel.\<close>

definition store_delays :: "'s mmio \<Rightarrow> u64 \<times> u64 \<Rightarrow> delays \<Rightarrow> ('s ck, unit) state" where
  "store_delays M p v =
     (case p of (d0, d1) \<Rightarrow> (case v of (a, b, c, d) \<Rightarrow> do {
        ck_store M (d0 + 8) a; ck_store M (d0 + 16) b; ck_store M (d1 + 8) c; ck_store M (d1 + 16) d
      }))"

definition say_delays :: "'s mmio \<Rightarrow> nat \<Rightarrow> u64 \<times> u64 \<Rightarrow> ('s ck, unit) state" where
  "say_delays M slot p =
     (case p of (d0, d1) \<Rightarrow> do {
        a \<leftarrow> ck_load M (d0 + 8); b \<leftarrow> ck_load M (d0 + 16); c \<leftarrow> ck_load M (d1 + 8); d \<leftarrow> ck_load M (d1 + 16);
        ck_say (SlotDelays slot a b c d)
      })"

definition set_slot :: "'s mmio \<Rightarrow> nat \<Rightarrow> (u64 \<times> u64) option \<Rightarrow> delays \<Rightarrow> ('s ck, unit) state" where
  "set_slot M slot p v =
     (case p of None \<Rightarrow> State_Monad.return () | Some p \<Rightarrow> do { store_delays M p v; say_delays M slot p })"

definition clear_slot :: "'s mmio \<Rightarrow> (u64 \<times> u64) option \<Rightarrow> ('s ck, unit) state" where
  "clear_slot M p = (case p of None \<Rightarrow> State_Monad.return () | Some p \<Rightarrow> store_delays M p (0, 0, 0, 0))"

text \<open>Whether a list of registers holds the expected values; like \<open>||\<close> it stops at the first that does not.\<close>

fun regs_hold :: "'s mmio \<Rightarrow> (u64 \<times> u32) list \<Rightarrow> ('s ck, bool) state" where
  "regs_hold M [] = State_Monad.return True"
| "regs_hold M ((a, v) # rs) = do { x \<leftarrow> ck_load M a; if x \<noteq> v then State_Monad.return False else regs_hold M rs }"

section \<open>Zynq-7000, standalone\<close>

definition SLCR :: u64 where "SLCR = 0xF8000000"
definition SLCR_UNLOCK :: u64 where "SLCR_UNLOCK = 0x008"
definition SLCR_UNLOCK_KEY :: u32 where "SLCR_UNLOCK_KEY = 0xDF0D"
definition ARM_PLL_CTRL :: u64 where "ARM_PLL_CTRL = 0x100"
definition Z7_APLL_CHK :: u32 where "Z7_APLL_CHK = 0x00036008"
definition DDR_PLL_CTRL :: u64 where "DDR_PLL_CTRL = 0x104"
definition IO_PLL_CTRL :: u64 where "IO_PLL_CTRL = 0x108"
definition Z7_IOPLL_CHK :: u32 where "Z7_IOPLL_CHK = 0x0001E008"
definition ARM_CLK_CTRL :: u64 where "ARM_CLK_CTRL = 0x120"
definition Z7_ACPU_EMUL :: u32 where "Z7_ACPU_EMUL = 0x1F000E00"
definition Z7_ACPU_NORM :: u32 where "Z7_ACPU_NORM = 0x1F000300"
definition DDR_CLK_CTRL :: u64 where "DDR_CLK_CTRL = 0x124"
definition FPGA0_CLK_CTRL :: u64 where "FPGA0_CLK_CTRL = 0x170"
definition Z7_PL0_EMUL :: u32 where "Z7_PL0_EMUL = 0x00101000"
definition Z7_PL0_NORM :: u32 where "Z7_PL0_NORM = 0x00100600"
definition FPGA1_CLK_CTRL :: u64 where "FPGA1_CLK_CTRL = 0x180"
definition CLK_621_TRUE :: u64 where "CLK_621_TRUE = 0x1C4"
definition CLK_621_CHK :: u32 where "CLK_621_CHK = 0"

lemmas z7_consts = SLCR_def SLCR_UNLOCK_def SLCR_UNLOCK_KEY_def ARM_PLL_CTRL_def Z7_APLL_CHK_def DDR_PLL_CTRL_def
  IO_PLL_CTRL_def Z7_IOPLL_CHK_def ARM_CLK_CTRL_def Z7_ACPU_EMUL_def Z7_ACPU_NORM_def DDR_CLK_CTRL_def FPGA0_CLK_CTRL_def
  Z7_PL0_EMUL_def Z7_PL0_NORM_def FPGA1_CLK_CTRL_def CLK_621_TRUE_def CLK_621_CHK_def

text \<open>The addresses of the delay units of a slot are defined or not in the generated parameters.\<close>

definition z7_clocks_emulate ::
  "'s mmio \<Rightarrow> timing \<Rightarrow> (u64 \<times> u64) option \<Rightarrow> (u64 \<times> u64) option \<Rightarrow> ('s ck, unit) state" where
  "z7_clocks_emulate M T slot0 slot1 = do {
     say_latencies T;
     a \<leftarrow> ck_load M (SLCR + ARM_PLL_CTRL);
     d \<leftarrow> ck_load M (SLCR + DDR_PLL_CTRL);
     i \<leftarrow> ck_load M (SLCR + IO_PLL_CTRL);
     c \<leftarrow> ck_load M (SLCR + CLK_621_TRUE);
     ck_say (PllCtrl [a, d, i, c]);
     ok \<leftarrow> regs_hold M [(SLCR + ARM_PLL_CTRL, Z7_APLL_CHK), (SLCR + IO_PLL_CTRL, Z7_IOPLL_CHK), (SLCR + CLK_621_TRUE, CLK_621_CHK)];
     if \<not> ok then ck_say Incompatible
     else do {
       ck_store M (SLCR + SLCR_UNLOCK) SLCR_UNLOCK_KEY;
       ck_store M (SLCR + ARM_CLK_CTRL) Z7_ACPU_EMUL;
       ck_store M (SLCR + FPGA0_CLK_CTRL) Z7_PL0_EMUL;
       a \<leftarrow> ck_load M (SLCR + ARM_CLK_CTRL);
       d \<leftarrow> ck_load M (SLCR + DDR_CLK_CTRL);
       ck_say (ClkCtrl a d);
       f0 \<leftarrow> ck_load M (SLCR + FPGA0_CLK_CTRL);
       f1 \<leftarrow> ck_load M (SLCR + FPGA1_CLK_CTRL);
       ck_say (FpgaCtrl f0 f1);
       ok \<leftarrow> regs_hold M [(SLCR + ARM_CLK_CTRL, Z7_ACPU_EMUL), (SLCR + FPGA0_CLK_CTRL, Z7_PL0_EMUL)];
       if \<not> ok then ck_say NotSet
       else do {
         set_slot M 0 slot0 (z7_slot0 T);
         set_slot M 1 slot1 (z7_slot1 T)
       }
     }
   }"

definition z7_clocks_normal :: "'s mmio \<Rightarrow> (u64 \<times> u64) option \<Rightarrow> (u64 \<times> u64) option \<Rightarrow> ('s ck, unit) state" where
  "z7_clocks_normal M slot0 slot1 = do {
     ck_store M (SLCR + SLCR_UNLOCK) SLCR_UNLOCK_KEY;
     ck_store M (SLCR + ARM_CLK_CTRL) Z7_ACPU_NORM;
     ck_store M (SLCR + FPGA0_CLK_CTRL) Z7_PL0_NORM;
     ok \<leftarrow> regs_hold M [(SLCR + ARM_CLK_CTRL, Z7_ACPU_NORM), (SLCR + FPGA0_CLK_CTRL, Z7_PL0_NORM)];
     if \<not> ok then ck_say NotSet
     else do { clear_slot M slot0; clear_slot M slot1 }
   }"

section \<open>Zynq UltraScale+, standalone\<close>

definition FPD_SLCR :: u64 where "FPD_SLCR = 0xFD610000"
definition wprot0 :: u64 where "wprot0 = 0x000"
definition wprot0_off :: u32 where "wprot0_off = 0x00000000"
definition CRF_APB :: u64 where "CRF_APB = 0xFD1A0000"
definition APLL_CTRL :: u64 where "APLL_CTRL = 0x020"
definition APLL_CHK :: u32 where "APLL_CHK = 0x00014200"
definition DPLL_CTRL :: u64 where "DPLL_CTRL = 0x02C"
definition ACPU_CTRL :: u64 where "ACPU_CTRL = 0x060"
definition ACPU_EMUL :: u32 where "ACPU_EMUL = 0x03000800"
definition ACPU_NORM :: u32 where "ACPU_NORM = 0x03000100"
definition DDR_CTRL :: u64 where "DDR_CTRL = 0x080"
definition CRL_APB :: u64 where "CRL_APB = 0xFF5E0000"
definition IOPLL_CTRL :: u64 where "IOPLL_CTRL = 0x020"
definition IOPLL_CHK :: u32 where "IOPLL_CHK = 0x00015A00"
definition PL0_REF_CTRL :: u64 where "PL0_REF_CTRL = 0x0C0"
definition PL0_EMUL :: u32 where "PL0_EMUL = 0x01011800"
definition PL0_NORM :: u32 where "PL0_NORM = 0x01010600"
definition PL1_REF_CTRL :: u64 where "PL1_REF_CTRL = 0x0C4"

lemmas zu_consts = FPD_SLCR_def wprot0_def wprot0_off_def CRF_APB_def APLL_CTRL_def APLL_CHK_def DPLL_CTRL_def ACPU_CTRL_def
  ACPU_EMUL_def ACPU_NORM_def DDR_CTRL_def CRL_APB_def IOPLL_CTRL_def IOPLL_CHK_def PL0_REF_CTRL_def PL0_EMUL_def PL0_NORM_def
  PL1_REF_CTRL_def

definition zu_clocks_emulate ::
  "'s mmio \<Rightarrow> timing \<Rightarrow> (u64 \<times> u64) option \<Rightarrow> (u64 \<times> u64) option \<Rightarrow> ('s ck, unit) state" where
  "zu_clocks_emulate M T slot0 slot1 = do {
     say_latencies T;
     a \<leftarrow> ck_load M (CRF_APB + APLL_CTRL);
     d \<leftarrow> ck_load M (CRF_APB + DPLL_CTRL);
     i \<leftarrow> ck_load M (CRL_APB + IOPLL_CTRL);
     ck_say (PllCtrl [a, d, i]);
     ok \<leftarrow> regs_hold M [(CRF_APB + APLL_CTRL, APLL_CHK), (CRL_APB + IOPLL_CTRL, IOPLL_CHK)];
     if \<not> ok then ck_say Incompatible
     else do {
       ck_store M (FPD_SLCR + wprot0) wprot0_off;
       ck_store M (CRF_APB + ACPU_CTRL) ACPU_EMUL;
       ck_store M (CRL_APB + PL0_REF_CTRL) PL0_EMUL;
       a \<leftarrow> ck_load M (CRF_APB + ACPU_CTRL);
       d \<leftarrow> ck_load M (CRF_APB + DDR_CTRL);
       ck_say (ClkCtrl a d);
       f0 \<leftarrow> ck_load M (CRL_APB + PL0_REF_CTRL);
       f1 \<leftarrow> ck_load M (CRL_APB + PL1_REF_CTRL);
       ck_say (FpgaCtrl f0 f1);
       ok \<leftarrow> regs_hold M [(CRF_APB + ACPU_CTRL, ACPU_EMUL), (CRL_APB + PL0_REF_CTRL, PL0_EMUL)];
       if \<not> ok then ck_say NotSet
       else do {
         set_slot M 0 slot0 (zu_slot0 T);
         set_slot M 1 slot1 (zu_slot1 T)
       }
     }
   }"

definition zu_clocks_normal :: "'s mmio \<Rightarrow> (u64 \<times> u64) option \<Rightarrow> (u64 \<times> u64) option \<Rightarrow> ('s ck, unit) state" where
  "zu_clocks_normal M slot0 slot1 = do {
     ck_store M (FPD_SLCR + wprot0) wprot0_off;
     ck_store M (CRF_APB + ACPU_CTRL) ACPU_NORM;
     ck_store M (CRL_APB + PL0_REF_CTRL) PL0_NORM;
     ok \<leftarrow> regs_hold M [(CRF_APB + ACPU_CTRL, ACPU_NORM), (CRL_APB + PL0_REF_CTRL, PL0_NORM)];
     if \<not> ok then ck_say NotSet
     else do { clear_slot M slot0; clear_slot M slot1 }
   }"

section \<open>Zynq UltraScale+, Linux\<close>

definition ck_mmap :: "os \<Rightarrow> u64 \<Rightarrow> ('s ck, u64) state" where
  "ck_mmap S paddr = State (\<lambda>c. let (v, d) = dev_mmap S paddr (ck_mem c)
     in (v, c\<lparr>ck_mem := d, ck_maps := (if v = MAP_FAILED then ck_maps c else add_mset v (ck_maps c))\<rparr>))"

definition ck_munmap :: "u64 \<Rightarrow> ('s ck, unit) state" where
  "ck_munmap v = State (\<lambda>c. ((), c\<lparr>ck_maps := ck_maps c - {#v#}\<rparr>))"

definition unmap_if :: "u64 \<Rightarrow> ('s ck, unit) state" where
  "unmap_if v = (if v \<noteq> MAP_FAILED then ck_munmap v else State_Monad.return ())"

definition dev_smmap :: "os \<Rightarrow> node \<Rightarrow> u8 list \<Rightarrow> string \<Rightarrow> int \<Rightarrow> ('s ck, u64) state" where
  "dev_smmap S tree g name inst =
     (let (found, reg) = dev_search name inst ''reg'' 16 tree g
      in if found = inst then ck_mmap S (reg_addr reg) else State_Monad.return MAP_FAILED)"

text \<open>
  The eight bytes written to the speed file: \<^verbatim>\<open>sizeof\<close> of the pointer, so for the shorter string one
  byte past its end, \<open>past\<close>, is among them. \<open>setspeed\<close> is what the kernel then does to the hardware;
  \<open>fopen_ok\<close> says whether the file can be opened.
\<close>

definition speed_bytes :: "string \<Rightarrow> char \<Rightarrow> string" where
  "speed_bytes str past = take 8 (str @ [CHR 0x00, past])"

definition write_speed :: "(string \<Rightarrow> 's \<Rightarrow> 's) \<Rightarrow> bool \<Rightarrow> string \<Rightarrow> ('s ck, unit) state" where
  "write_speed setspeed fopen_ok bytes =
     State (\<lambda>c. ((), if fopen_ok then c\<lparr>ck_dev := setspeed bytes (ck_dev c)\<rparr> else c))"

definition linux_slot ::
  "'s mmio \<Rightarrow> os \<Rightarrow> node \<Rightarrow> u8 list \<Rightarrow> int \<Rightarrow> (u64 \<times> u64 \<Rightarrow> ('s ck, unit) state) \<Rightarrow> ('s ck, unit) state" where
  "linux_slot M S tree g inst act = do {
     d0 \<leftarrow> dev_smmap S tree g ''axi_delay'' inst;
     d1 \<leftarrow> dev_smmap S tree g ''axi_delay'' (inst + 1);
     (if d0 \<noteq> MAP_FAILED \<and> d1 \<noteq> MAP_FAILED then act (d0, d1) else State_Monad.return ());
     unmap_if d0;
     unmap_if d1
   }"

definition linux_emulate_body ::
  "'s mmio \<Rightarrow> os \<Rightarrow> node \<Rightarrow> u8 list \<Rightarrow> (string \<Rightarrow> 's \<Rightarrow> 's) \<Rightarrow> bool \<Rightarrow> char \<Rightarrow> timing \<Rightarrow> u64 \<Rightarrow> u64 \<Rightarrow> u64 \<Rightarrow> ('s ck, unit) state" where
  "linux_emulate_body M S tree g setspeed fopen_ok past T fpd_slcr crf_apb crl_apb = do {
     say_latencies T;
     a \<leftarrow> ck_load M (crf_apb + APLL_CTRL);
     d \<leftarrow> ck_load M (crf_apb + DPLL_CTRL);
     i \<leftarrow> ck_load M (crl_apb + IOPLL_CTRL);
     ck_say (PllCtrl [a, d, i]);
     ok \<leftarrow> regs_hold M [(crf_apb + APLL_CTRL, APLL_CHK), (crl_apb + IOPLL_CTRL, IOPLL_CHK)];
     if \<not> ok then ck_say Incompatible
     else do {
       ck_store M (fpd_slcr + wprot0) wprot0_off;
       ck_store M (crl_apb + PL0_REF_CTRL) PL0_EMUL;
       write_speed setspeed fopen_ok (speed_bytes ''137500'' past);
       a \<leftarrow> ck_load M (crf_apb + ACPU_CTRL);
       d \<leftarrow> ck_load M (crf_apb + DDR_CTRL);
       ck_say (ClkCtrl a d);
       f0 \<leftarrow> ck_load M (crl_apb + PL0_REF_CTRL);
       f1 \<leftarrow> ck_load M (crl_apb + PL1_REF_CTRL);
       ck_say (FpgaCtrl f0 f1);
       ok \<leftarrow> regs_hold M [(crf_apb + ACPU_CTRL, ACPU_EMUL), (crl_apb + PL0_REF_CTRL, PL0_EMUL)];
       if \<not> ok then ck_say NotSet
       else do {
         linux_slot M S tree g 1 (\<lambda>p. do { store_delays M p (zu_slot0 T); say_delays M 0 p });
         linux_slot M S tree g 3 (\<lambda>p. do { store_delays M p (zu_slot1 T); say_delays M 1 p })
       }
     }
   }"

definition linux_normal_body ::
  "'s mmio \<Rightarrow> os \<Rightarrow> node \<Rightarrow> u8 list \<Rightarrow> (string \<Rightarrow> 's \<Rightarrow> 's) \<Rightarrow> bool \<Rightarrow> char \<Rightarrow> u64 \<Rightarrow> u64 \<Rightarrow> u64 \<Rightarrow> ('s ck, unit) state" where
  "linux_normal_body M S tree g setspeed fopen_ok past fpd_slcr crf_apb crl_apb = do {
     ck_store M (fpd_slcr + wprot0) wprot0_off;
     ck_store M (crl_apb + PL0_REF_CTRL) PL0_NORM;
     write_speed setspeed fopen_ok (speed_bytes ''1100000'' past);
     ok \<leftarrow> regs_hold M [(crf_apb + ACPU_CTRL, ACPU_NORM), (crl_apb + PL0_REF_CTRL, PL0_NORM)];
     if \<not> ok then ck_say NotSet
     else do {
       linux_slot M S tree g 1 (\<lambda>p. store_delays M p (0, 0, 0, 0));
       linux_slot M S tree g 3 (\<lambda>p. store_delays M p (0, 0, 0, 0))
     }
   }"

text \<open>Both functions map the three register pages, run if that worked, and unmap them.\<close>

definition with_pages :: "os \<Rightarrow> (u64 \<Rightarrow> u64 \<Rightarrow> u64 \<Rightarrow> ('s ck, unit) state) \<Rightarrow> ('s ck, unit) state" where
  "with_pages S body = do {
     fpd_slcr \<leftarrow> ck_mmap S FPD_SLCR;
     crf_apb \<leftarrow> ck_mmap S CRF_APB;
     crl_apb \<leftarrow> ck_mmap S CRL_APB;
     (if fpd_slcr = MAP_FAILED \<or> crf_apb = MAP_FAILED \<or> crl_apb = MAP_FAILED then State_Monad.return ()
      else body fpd_slcr crf_apb crl_apb);
     unmap_if fpd_slcr;
     unmap_if crf_apb;
     unmap_if crl_apb
   }"

definition linux_clocks_emulate ::
  "'s mmio \<Rightarrow> os \<Rightarrow> node \<Rightarrow> u8 list \<Rightarrow> (string \<Rightarrow> 's \<Rightarrow> 's) \<Rightarrow> bool \<Rightarrow> char \<Rightarrow> timing \<Rightarrow> ('s ck, unit) state" where
  "linux_clocks_emulate M S tree g setspeed fopen_ok past T =
     with_pages S (linux_emulate_body M S tree g setspeed fopen_ok past T)"

definition linux_clocks_normal ::
  "'s mmio \<Rightarrow> os \<Rightarrow> node \<Rightarrow> u8 list \<Rightarrow> (string \<Rightarrow> 's \<Rightarrow> 's) \<Rightarrow> bool \<Rightarrow> char \<Rightarrow> ('s ck, unit) state" where
  "linux_clocks_normal M S tree g setspeed fopen_ok past =
     with_pages S (linux_normal_body M S tree g setspeed fopen_ok past)"

section \<open>Mappings are released\<close>

lemma run_ck [run_simps]:
  "run_state (ck_load M a) c = (fst (mload M a (ck_dev c)), c\<lparr>ck_dev := snd (mload M a (ck_dev c))\<rparr>)"
  "run_state (ck_store M a v) c = ((), c\<lparr>ck_dev := mstore M a v (ck_dev c)\<rparr>)"
  "run_state (ck_say m) c = ((), c\<lparr>ck_msgs := ck_msgs c @ [m]\<rparr>)"
  by (simp_all add: ck_load_def ck_store_def ck_say_def split_beta Let_def)

definition keeps :: "('s ck, 'a) state \<Rightarrow> bool" where
  "keeps p \<longleftrightarrow> (\<forall>c. ck_maps (snd (run_state p c)) = ck_maps c)"

lemma keeps_bind: "keeps p \<Longrightarrow> (\<And>x. keeps (f x)) \<Longrightarrow> keeps (State_Monad.bind p f)"
  by (simp add: keeps_def split_beta)

lemma keeps_basic:
  "keeps (State_Monad.return x)" "keeps (ck_load M a)" "keeps (ck_store M a v)" "keeps (ck_say m)" "keeps (say_latencies T)"
  "keeps (write_speed setspeed fopen_ok bs)"
  by (simp_all add: keeps_def run_simps say_latencies_def write_speed_def)

lemma keeps_if: "keeps p \<Longrightarrow> keeps q \<Longrightarrow> keeps (if b then p else q)"
  by simp

lemma keeps_regs_hold: "keeps (regs_hold M rs)"
  by (induction M rs rule: regs_hold.induct) (auto intro: keeps_bind keeps_basic keeps_if)

lemma keeps_delays: "keeps (store_delays M p v)" "keeps (say_delays M k p)"
  unfolding store_delays_def say_delays_def split_beta by (intro keeps_bind keeps_basic)+

lemma run_mmap:
  "run_state (ck_mmap S a) c = (v, c') \<Longrightarrow> ck_maps c' = (if v = MAP_FAILED then ck_maps c else add_mset v (ck_maps c))"
  by (auto simp: ck_mmap_def Let_def split: prod.splits)

lemma run_smmap:
  "run_state (dev_smmap S tree g name inst) c = (v, c') \<Longrightarrow>
     ck_maps c' = (if v = MAP_FAILED then ck_maps c else add_mset v (ck_maps c))"
  by (auto simp: dev_smmap_def Let_def run_mmap split: prod.splits if_splits)

lemma maps_unmap_if: "ck_maps (snd (run_state (unmap_if v) c)) = (if v = MAP_FAILED then ck_maps c else ck_maps c - {#v#})"
  by (simp add: unmap_if_def ck_munmap_def)

lemma keeps_linux_slot:
  assumes "\<And>p. keeps (act p)"
  shows "keeps (linux_slot M S tree g inst act)"
  unfolding keeps_def
proof
  fix c :: "'a ck"
  obtain d0 c0 where 0: "run_state (dev_smmap S tree g ''axi_delay'' inst) c = (d0, c0)"
    by force
  obtain d1 c1 where 1: "run_state (dev_smmap S tree g ''axi_delay'' (inst + 1)) c0 = (d1, c1)"
    by force
  show "ck_maps (snd (run_state (linux_slot M S tree g inst act) c)) = ck_maps c"
    using assms run_smmap [OF 0] run_smmap [OF 1]
    by (simp add: linux_slot_def 0 1 split_beta maps_unmap_if keeps_def)
qed

lemma keeps_with_pages:
  assumes "\<And>a b c. keeps (body a b c)"
  shows "keeps (with_pages S body)"
  unfolding keeps_def
proof
  fix c :: "'a ck"
  obtain x c1 where 1: "run_state (ck_mmap S FPD_SLCR) c = (x, c1)"
    by force
  obtain y c2 where 2: "run_state (ck_mmap S CRF_APB) c1 = (y, c2)"
    by force
  obtain z c3 where 3: "run_state (ck_mmap S CRL_APB) c2 = (z, c3)"
    by force
  show "ck_maps (snd (run_state (with_pages S body) c)) = ck_maps c"
    using assms run_mmap [OF 1] run_mmap [OF 2] run_mmap [OF 3]
    by (simp add: with_pages_def 1 2 3 split_beta maps_unmap_if keeps_def)
qed

lemma keeps_bodies:
  "keeps (linux_emulate_body M S tree g setspeed fopen_ok past T a b c)"
  "keeps (linux_normal_body M S tree g setspeed fopen_ok past a b c)"
  unfolding linux_emulate_body_def linux_normal_body_def
  by (intro keeps_bind keeps_basic keeps_if keeps_regs_hold keeps_linux_slot keeps_delays)+

lemma keeps_clocks:
  "keeps (linux_clocks_emulate M S tree g setspeed fopen_ok past T)"
  "keeps (linux_clocks_normal M S tree g setspeed fopen_ok past)"
  unfolding linux_clocks_emulate_def linux_clocks_normal_def by (intro keeps_with_pages keeps_bodies)+

section \<open>Registers\<close>

text \<open>The control registers and the delay registers of two slots.\<close>

definition delay_regs :: "u64 \<times> u64 \<Rightarrow> u64 list" where
  "delay_regs p = [fst p + 8, fst p + 16, snd p + 8, snd p + 16]"

definition delay_vals :: "delays \<Rightarrow> u32 list" where
  "delay_vals v = (case v of (a, b, c, d) \<Rightarrow> [a, b, c, d])"

definition zu_regs :: "u64 \<times> u64 \<Rightarrow> u64 \<times> u64 \<Rightarrow> u64 list" where
  "zu_regs p q = [CRF_APB + APLL_CTRL, CRL_APB + IOPLL_CTRL, FPD_SLCR + wprot0, CRF_APB + ACPU_CTRL, CRL_APB + PL0_REF_CTRL] @
     delay_regs p @ delay_regs q"

definition z7_regs :: "u64 \<times> u64 \<Rightarrow> u64 \<times> u64 \<Rightarrow> u64 list" where
  "z7_regs p q = [SLCR + ARM_PLL_CTRL, SLCR + IO_PLL_CTRL, SLCR + CLK_621_TRUE, SLCR + SLCR_UNLOCK, SLCR + ARM_CLK_CTRL,
     SLCR + FPGA0_CLK_CTRL] @ delay_regs p @ delay_regs q"

lemma mem_load_store [simp]: "mload mem_mmio a m = (m a, m)" "mstore mem_mmio a v m = m(a := v)"
  by (simp_all add: mem_mmio_def)

lemma mem_regs_hold: "run_state (regs_hold mem_mmio rs) c = (\<forall>(a, v)\<in>set rs. ck_dev c a = v, c)"
  by (induction rs) (auto simp: run_simps)

lemma mem_delays:
  "ck_dev (snd (run_state (store_delays mem_mmio p v) c)) = fold (\<lambda>(a, x) m. m(a := x)) (zip (delay_regs p) (delay_vals v)) (ck_dev c)"
  "ck_dev (snd (run_state (say_delays mem_mmio k p) c)) = ck_dev c"
  by (simp_all add: store_delays_def say_delays_def delay_regs_def delay_vals_def run_simps split_beta)

definition upds :: "u64 list \<Rightarrow> u32 list \<Rightarrow> (u64 \<Rightarrow> u32) \<Rightarrow> u64 \<Rightarrow> u32" where
  "upds as vs m = fold (\<lambda>(a, x) m. m(a := x)) (zip as vs) m"

lemma upds_other: "b \<notin> set as \<Longrightarrow> upds as vs m b = m b"
proof (induction as arbitrary: vs m)
  case (Cons a as)
  then show ?case
    by (cases vs) (simp_all add: upds_def)
qed (simp add: upds_def)

lemma upds_same: "distinct as \<Longrightarrow> length as = length vs \<Longrightarrow> map (upds as vs m) as = vs"
proof (induction as arbitrary: vs m)
  case (Cons a as)
  then obtain v vs' where vs: "vs = v # vs'"
    by (cases vs) auto
  have "upds (a # as) vs m = upds as vs' (m(a := v))"
    by (simp add: upds_def vs)
  moreover have "upds as vs' (m(a := v)) a = v"
    using Cons.prems(1) by (simp add: upds_other)
  ultimately show ?case
    using Cons by (simp add: vs)
qed simp

lemma length_delay_vals [simp]: "length (delay_vals v) = 4" "length (delay_regs p) = 4"
  by (simp_all add: delay_vals_def delay_regs_def split: prod.split)

lemmas mem_upds = mem_delays(1) [folded upds_def]

lemma zu_emulate_dev:
  fixes c :: "(u64 \<Rightarrow> u32) ck"
  assumes "ck_dev c (CRF_APB + APLL_CTRL) = APLL_CHK" "ck_dev c (CRL_APB + IOPLL_CTRL) = IOPLL_CHK"
  shows "ck_dev (snd (run_state (zu_clocks_emulate mem_mmio T (Some p) (Some q)) c)) =
    upds (delay_regs q) (delay_vals (zu_slot1 T)) (upds (delay_regs p) (delay_vals (zu_slot0 T))
      ((ck_dev c)(FPD_SLCR + wprot0 := wprot0_off, CRF_APB + ACPU_CTRL := ACPU_EMUL, CRL_APB + PL0_REF_CTRL := PL0_EMUL)))"
proof -
  have "CRF_APB + ACPU_CTRL \<noteq> CRL_APB + PL0_REF_CTRL"
    by (simp add: zu_consts)
  then show ?thesis
    using assms by (simp add: zu_clocks_emulate_def say_latencies_def run_simps mem_regs_hold split_beta set_slot_def mem_upds mem_delays(2)
        del: regs_hold.simps)
qed

lemma zu_normal_dev:
  fixes c :: "(u64 \<Rightarrow> u32) ck"
  shows "ck_dev (snd (run_state (zu_clocks_normal mem_mmio (Some p) (Some q)) c)) =
    upds (delay_regs q) [0, 0, 0, 0] (upds (delay_regs p) [0, 0, 0, 0]
      ((ck_dev c)(FPD_SLCR + wprot0 := wprot0_off, CRF_APB + ACPU_CTRL := ACPU_NORM, CRL_APB + PL0_REF_CTRL := PL0_NORM)))"
proof -
  have "CRF_APB + ACPU_CTRL \<noteq> CRL_APB + PL0_REF_CTRL"
    by (simp add: zu_consts)
  then show ?thesis
    by (simp add: zu_clocks_normal_def run_simps mem_regs_hold split_beta clear_slot_def mem_upds delay_vals_def
        del: regs_hold.simps)
qed

section \<open>Properties\<close>

text \<open>C32: Under Linux \<^verbatim>\<open>clocks_emulate\<close> and \<^verbatim>\<open>clocks_normal\<close> release every page they map, on every path: a failed
  mapping, an incompatible clock configuration, clocks that could not be set, delay units that are
  missing from the device tree. This holds for every device, tree and behaviour of the system calls.\<close>

theorem clocks_release_mappings:
  "ck_maps (snd (run_state (linux_clocks_emulate M S tree g setspeed fopen_ok past T) c)) = ck_maps c \<and>
   ck_maps (snd (run_state (linux_clocks_normal M S tree g setspeed fopen_ok past) c)) = ck_maps c"
  using keeps_clocks(1) [of M S tree g setspeed fopen_ok past T] keeps_clocks(2) [of M S tree g setspeed fopen_ok past]
  by (simp add: keeps_def)

text \<open>C31: On UltraScale+ with registers that keep what is written, \<^verbatim>\<open>clocks_emulate\<close> writes nothing when the
  phase-locked loops are not set as expected. Otherwise both clocks run at their emulation
  frequencies and the delay registers of both slots hold the computed delays; \<^verbatim>\<open>clocks_normal\<close>
  afterwards restores the clocks, clears all delays, and apart from these registers and the lock
  nothing was changed by the two.\<close>

theorem clocks_emulate_normal:
  fixes c :: "(u64 \<Rightarrow> u32) ck" and T p q
  defines "c1 \<equiv> snd (run_state (zu_clocks_emulate mem_mmio T (Some p) (Some q)) c)"
  defines "c2 \<equiv> snd (run_state (zu_clocks_normal mem_mmio (Some p) (Some q)) c1)"
  shows "(ck_dev c (CRF_APB + APLL_CTRL) \<noteq> APLL_CHK \<or> ck_dev c (CRL_APB + IOPLL_CTRL) \<noteq> IOPLL_CHK \<longrightarrow>
      ck_dev c1 = ck_dev c \<and> last (ck_msgs c1) = Incompatible) \<and>
    (ck_dev c (CRF_APB + APLL_CTRL) = APLL_CHK \<and> ck_dev c (CRL_APB + IOPLL_CTRL) = IOPLL_CHK \<and> distinct (zu_regs p q) \<longrightarrow>
      ck_dev c1 (CRF_APB + ACPU_CTRL) = ACPU_EMUL \<and> ck_dev c1 (CRL_APB + PL0_REF_CTRL) = PL0_EMUL \<and>
      map (ck_dev c1) (delay_regs p) = delay_vals (zu_slot0 T) \<and> map (ck_dev c1) (delay_regs q) = delay_vals (zu_slot1 T) \<and>
      ck_dev c2 (CRF_APB + ACPU_CTRL) = ACPU_NORM \<and> ck_dev c2 (CRL_APB + PL0_REF_CTRL) = PL0_NORM \<and>
      map (ck_dev c2) (delay_regs p @ delay_regs q) = replicate 8 0 \<and>
      (\<forall>a. a \<notin> set (drop 2 (zu_regs p q)) \<longrightarrow> ck_dev c2 a = ck_dev c a))"
proof (intro conjI impI)
  assume "ck_dev c (CRF_APB + APLL_CTRL) \<noteq> APLL_CHK \<or> ck_dev c (CRL_APB + IOPLL_CTRL) \<noteq> IOPLL_CHK"
  then show "ck_dev c1 = ck_dev c" "last (ck_msgs c1) = Incompatible"
    by (simp_all add: c1_def zu_clocks_emulate_def say_latencies_def run_simps mem_regs_hold split_beta del: regs_hold.simps)
next
  assume a: "ck_dev c (CRF_APB + APLL_CTRL) = APLL_CHK \<and> ck_dev c (CRL_APB + IOPLL_CTRL) = IOPLL_CHK \<and> distinct (zu_regs p q)"
  note d1 = zu_emulate_dev [of c T p q, folded c1_def, OF conjunct1 [OF a] conjunct1 [OF conjunct2 [OF a]]]
  note d2 = zu_normal_dev [of p q c1, folded c2_def]
  have d: "distinct (delay_regs p)" "distinct (delay_regs q)" "set (delay_regs p) \<inter> set (delay_regs q) = {}"
    "CRF_APB + ACPU_CTRL \<notin> set (delay_regs p) \<union> set (delay_regs q)" "CRL_APB + PL0_REF_CTRL \<notin> set (delay_regs p) \<union> set (delay_regs q)"
    "CRF_APB + ACPU_CTRL \<noteq> CRL_APB + PL0_REF_CTRL"
    using a by (auto simp: zu_regs_def)
  have keep: "map (upds (delay_regs q) vs m) (delay_regs p) = map m (delay_regs p)" for vs m
    using d(3) by (auto intro!: upds_other)
  show "ck_dev c1 (CRF_APB + ACPU_CTRL) = ACPU_EMUL" "ck_dev c1 (CRL_APB + PL0_REF_CTRL) = PL0_EMUL"
    "ck_dev c2 (CRF_APB + ACPU_CTRL) = ACPU_NORM" "ck_dev c2 (CRL_APB + PL0_REF_CTRL) = PL0_NORM"
    using d(4-6) by (simp_all add: d1 d2 upds_other)
  show "map (ck_dev c1) (delay_regs p) = delay_vals (zu_slot0 T)" "map (ck_dev c1) (delay_regs q) = delay_vals (zu_slot1 T)"
    using d(1,2) by (simp_all only: d1 keep upds_same length_delay_vals)
  have "map (ck_dev c2) (delay_regs p) = [0, 0, 0, 0]" "map (ck_dev c2) (delay_regs q) = [0, 0, 0, 0]"
    using d(1,2) by (simp_all only: d2 keep upds_same length_delay_vals) (simp_all add: upds_same)
  then show "map (ck_dev c2) (delay_regs p @ delay_regs q) = replicate 8 0"
    by (simp add: numeral_eq_Suc)
  show "\<forall>a. a \<notin> set (drop 2 (zu_regs p q)) \<longrightarrow> ck_dev c2 a = ck_dev c a"
    by (auto simp: zu_regs_def d1 d2 upds_other)
qed

theorem clocks_emulate_normal_witness:
  "let m = (\<lambda>_. 5)(CRF_APB + APLL_CTRL := APLL_CHK, CRL_APB + IOPLL_CTRL := IOPLL_CHK);
       c1 = snd (run_state (zu_clocks_emulate mem_mmio default_timing (Some (0x1000, 0x2000)) (Some (0x3000, 0x4000)))
         \<lparr>ck_dev = m, ck_msgs = [], ck_maps = {#}, ck_mem = \<lparr>mfd = 0, page_size = 0\<rparr>\<rparr>)
   in map (ck_dev c1) (delay_regs (0x1000, 0x2000)) = [164, 147, 584, 441] \<and>
      map (ck_dev c1) (delay_regs (0x3000, 0x4000)) = [24, 6, 444, 300]"
proof -
  let ?m = "(\<lambda>_. 5)(CRF_APB + APLL_CTRL := APLL_CHK, CRL_APB + IOPLL_CTRL := IOPLL_CHK)"
  let ?c = "\<lparr>ck_dev = ?m, ck_msgs = [], ck_maps = {#}, ck_mem = \<lparr>mfd = 0, page_size = 0\<rparr>\<rparr>"
  have "distinct (zu_regs (0x1000, 0x2000) (0x3000, 0x4000))" "CRF_APB + APLL_CTRL \<noteq> CRL_APB + IOPLL_CTRL"
    by (simp_all add: zu_regs_def delay_regs_def zu_consts)
  moreover have "delay_vals (zu_slot0 default_timing) = [164, 147, 584, 441]" "delay_vals (zu_slot1 default_timing) = [24, 6, 444, 300]"
    by (simp_all add: zu_slot0_def zu_slot1_def delay_vals_def default_timing_def t_defs)
  ultimately show ?thesis
    using clocks_emulate_normal [of ?c default_timing "(0x1000, 0x2000)" "(0x3000, 0x4000)"] by simp
qed

section \<open>Further facts\<close>

text \<open>
  The delays are the computed integers, without wrap-around, for every setting in which the total
  latencies and the latencies inside the memory are not below the overhead that is subtracted.
\<close>

lemma uint_exact: "0 \<le> x \<Longrightarrow> x < 2 ^ 32 \<Longrightarrow> uint (word_of_int x :: u32) = x"
  by (simp add: unsigned_of_int take_bit_int_eq_self)

lemma zu_delays_exact:
  assumes "0 \<le> T_TRANS T" "8 \<le> T_W T - T_TRANS T" "11 \<le> T_R T - T_TRANS T" "12 \<le> T_R T" "9 \<le> T_W T"
    and "T_W T < 2 ^ 28" "T_R T < 2 ^ 28"
  shows "map uint (delay_vals (zu_slot0 T)) = [6 * T_TRANS T + 20, 6 * T_TRANS T + 3, 6 * T_W T - 52, 6 * T_R T - 69]"
    and "map uint (delay_vals (zu_slot1 T)) = [24, 6, 6 * (T_W T - T_TRANS T) - 48, 6 * (T_R T - T_TRANS T) - 66]"
  using assms by (simp_all add: zu_slot0_def zu_slot1_def delay_vals_def t_defs uint_exact
      del: of_int_add of_int_diff of_int_mult)

text \<open>On the Zynq-7000 a wrong configuration leaves the registers alone as well, and a matching one sets the clocks.\<close>

lemma z7_emulate_clocks:
  fixes c :: "(u64 \<Rightarrow> u32) ck" and T p q
  defines "c1 \<equiv> snd (run_state (z7_clocks_emulate mem_mmio T (Some p) (Some q)) c)"
  shows "ck_dev c (SLCR + ARM_PLL_CTRL) \<noteq> Z7_APLL_CHK \<or> ck_dev c (SLCR + IO_PLL_CTRL) \<noteq> Z7_IOPLL_CHK \<or>
      ck_dev c (SLCR + CLK_621_TRUE) \<noteq> CLK_621_CHK \<Longrightarrow> ck_dev c1 = ck_dev c"
    and "ck_dev c (SLCR + ARM_PLL_CTRL) = Z7_APLL_CHK \<Longrightarrow> ck_dev c (SLCR + IO_PLL_CTRL) = Z7_IOPLL_CHK \<Longrightarrow>
      ck_dev c (SLCR + CLK_621_TRUE) = CLK_621_CHK \<Longrightarrow> ck_dev c1 =
    upds (delay_regs q) (delay_vals (z7_slot1 T)) (upds (delay_regs p) (delay_vals (z7_slot0 T))
      ((ck_dev c)(SLCR + SLCR_UNLOCK := SLCR_UNLOCK_KEY, SLCR + ARM_CLK_CTRL := Z7_ACPU_EMUL, SLCR + FPGA0_CLK_CTRL := Z7_PL0_EMUL)))"
proof -
  have "SLCR + ARM_CLK_CTRL \<noteq> SLCR + FPGA0_CLK_CTRL"
    by (simp add: z7_consts)
  then show "ck_dev c (SLCR + ARM_PLL_CTRL) \<noteq> Z7_APLL_CHK \<or> ck_dev c (SLCR + IO_PLL_CTRL) \<noteq> Z7_IOPLL_CHK \<or>
      ck_dev c (SLCR + CLK_621_TRUE) \<noteq> CLK_621_CHK \<Longrightarrow> ck_dev c1 = ck_dev c"
    and "ck_dev c (SLCR + ARM_PLL_CTRL) = Z7_APLL_CHK \<Longrightarrow> ck_dev c (SLCR + IO_PLL_CTRL) = Z7_IOPLL_CHK \<Longrightarrow>
      ck_dev c (SLCR + CLK_621_TRUE) = CLK_621_CHK \<Longrightarrow> ck_dev c1 =
    upds (delay_regs q) (delay_vals (z7_slot1 T)) (upds (delay_regs p) (delay_vals (z7_slot0 T))
      ((ck_dev c)(SLCR + SLCR_UNLOCK := SLCR_UNLOCK_KEY, SLCR + ARM_CLK_CTRL := Z7_ACPU_EMUL, SLCR + FPGA0_CLK_CTRL := Z7_PL0_EMUL)))"
    by (simp_all add: c1_def z7_clocks_emulate_def say_latencies_def run_simps mem_regs_hold split_beta set_slot_def mem_upds mem_delays(2)
        del: regs_hold.simps)
qed

text \<open>The speed string for the emulation has seven bytes with its end, but eight are written.\<close>

lemma speed_overread: "speed_bytes ''137500'' past = ''137500'' @ [CHR 0x00, past]"
  by (simp add: speed_bytes_def)

end
