(* ===== verification/Dmac.thy ===== *)
theory Dmac
  imports Lime_Prelude
begin

text \<open>
  Copies with the DMA controller of the processor, \<^verbatim>\<open>src/shared/standalone/dmac_cmd.c\<close>. The driver
  library (\<^verbatim>\<open>xdmaps.h\<close>) is a parameter, a record of its functions over an arbitrary state of driver and
  controller; the instruction emitters of that library append one instruction each, so a program is
  a list of instructions and a label a position in it. \<open>None\<close> is waiting for the controller for ever.
  The diagnostics of \<^verbatim>\<open>dmac_info\<close> are left out.
\<close>

section \<open>Driver library\<close>

record chan_ctrl =
  SrcBurstSize :: u32
  SrcBurstLen :: u32
  SrcInc :: u32
  DstBurstSize :: u32
  DstBurstLen :: u32
  DstInc :: u32

definition zero_ctrl :: chan_ctrl where
  "zero_ctrl = \<lparr>SrcBurstSize = 0, SrcBurstLen = 0, SrcInc = 0, DstBurstSize = 0, DstBurstLen = 0, DstInc = 0\<rparr>"

definition XDMAPS_ADD_SAR :: nat where "XDMAPS_ADD_SAR = 0"
definition XDMAPS_MOV_SAR :: nat where "XDMAPS_MOV_SAR = 0"
definition XDMAPS_MOV_CCR :: nat where "XDMAPS_MOV_CCR = 1"
definition XDMAPS_MOV_DAR :: nat where "XDMAPS_MOV_DAR = 2"

datatype dma_instr =
    DMAMOV nat u32
  | DMALP nat u32
  | DMALD
  | DMAST
  | DMAADDH nat u32
  | DMALPEND nat nat
  | DMAEND

text \<open>A program is generated by the library from a descriptor, or emitted here.\<close>

datatype dma_prog = Generated chan_ctrl u32 u32 u32 | Emitted "dma_instr list"

record 's dma_lib =
  lookup_config :: "u32 \<Rightarrow> u32 option"
  cfg_initialize :: "u32 \<Rightarrow> 's \<Rightarrow> int \<times> 's"
  gen_prog :: "u32 \<Rightarrow> chan_ctrl \<Rightarrow> u32 \<Rightarrow> u32 \<Rightarrow> u32 \<Rightarrow> 's \<Rightarrow> int \<times> 's"
  buf_allocate :: "u32 \<Rightarrow> 's \<Rightarrow> bool \<times> 's"
  to_ccr :: "chan_ctrl \<Rightarrow> u32"
  exec_dmago :: "u32 \<Rightarrow> dma_prog \<Rightarrow> 's \<Rightarrow> int \<times> 's"
  read_csn :: "u32 \<Rightarrow> 's \<Rightarrow> u32 \<times> 's"
  free_prog :: "u32 \<Rightarrow> dma_prog \<Rightarrow> 's \<Rightarrow> int \<times> 's"

text \<open>The globals: the driver instance, the channel, and the command the channel points to.\<close>

record 's dma =
  dma_inst :: 's
  gdma_chan :: u32
  cmd_to_hw :: "chan_ctrl option"

section \<open>Operations\<close>

definition dmac_init :: "'s dma_lib \<Rightarrow> u32 \<Rightarrow> 's dma \<Rightarrow> int \<times> 's dma" where
  "dmac_init L device g =
     (case lookup_config L device of
        None \<Rightarrow> (XST_FAILURE, g)
      | Some cfg \<Rightarrow>
        (let (st, s) = cfg_initialize L cfg (dma_inst g); g = g\<lparr>dma_inst := s\<rparr>
         in if st \<noteq> XST_SUCCESS then (XST_FAILURE, g) else (XST_SUCCESS, g)))"

definition dmac_setunit :: "u32 \<Rightarrow> 's dma \<Rightarrow> 's dma" where
  "dmac_setunit unit_no g = g\<lparr>gdma_chan := unit_no\<rparr>"

definition burst_sz :: "u32 \<Rightarrow> u32" where
  "burst_sz n = (if n < 8 then if n < 4 then if n < 2 then 1 else 2 else 4 else 8)"

definition burst_len :: "u32 \<Rightarrow> u32" where
  "burst_len n = (let l = n div burst_sz n in if l > 16 then 16 else l)"

datatype dma_result = Ptr u32 | Null | Exit1

text \<open>Waiting for the channel to stop; \<open>False\<close> is a fault.\<close>

partial_function (option) dma_wait :: "'s dma_lib \<Rightarrow> u32 \<Rightarrow> 's \<Rightarrow> (bool \<times> 's) option" where
  "dma_wait L ch s =
     (case read_csn L ch s of (tmp, s) \<Rightarrow>
        if tmp AND 0xF \<noteq> 0 then
          if tmp AND 0xC = 0xC then Some (False, s) else dma_wait L ch s
        else Some (True, s))"

text \<open>The end that both copies have: start the program, wait, free it.\<close>

definition dma_go :: "'s dma_lib \<Rightarrow> u32 \<Rightarrow> dma_prog \<Rightarrow> 's dma \<Rightarrow> (dma_result \<times> 's dma) option" where
  "dma_go L dst p g =
     (let (st, s) = exec_dmago L (gdma_chan g) p (dma_inst g); g = g\<lparr>dma_inst := s\<rparr>
      in if st \<noteq> XST_SUCCESS then Some (Null, g)
         else (case dma_wait L (gdma_chan g) s of
             None \<Rightarrow> None
           | Some (ok, s) \<Rightarrow>
             if \<not> ok then Some (Exit1, g\<lparr>dma_inst := s\<rparr>)
             else (let (st, s) = free_prog L (gdma_chan g) p s; g = g\<lparr>dma_inst := s, cmd_to_hw := None\<rparr>
                   in Some (if st \<noteq> XST_SUCCESS then Null else Ptr dst, g))))"

definition dmac_memcpy :: "'s dma_lib \<Rightarrow> u32 \<Rightarrow> u32 \<Rightarrow> u32 \<Rightarrow> 's dma \<Rightarrow> (dma_result \<times> 's dma) option" where
  "dmac_memcpy L dst src n g =
     (let ctrl = \<lparr>SrcBurstSize = burst_sz n, SrcBurstLen = burst_len n, SrcInc = 1,
                  DstBurstSize = burst_sz n, DstBurstLen = burst_len n, DstInc = 1\<rparr>;
          (st, s) = gen_prog L (gdma_chan g) ctrl src dst n (dma_inst g); g = g\<lparr>dma_inst := s\<rparr>
      in if st \<noteq> XST_SUCCESS then Some (Null, g)
         else dma_go L dst (Generated ctrl src dst n) (g\<lparr>cmd_to_hw := Some ctrl\<rparr>))"

text \<open>Thirty-two loads and one store; the source text has this group four times.\<close>

definition emit_group :: "u32 \<Rightarrow> dma_instr list \<Rightarrow> dma_instr list" where
  "emit_group src_inc p =
     (let p = p @ [DMALP 0 32]; Label0 = length p
      in p @ [DMALD, DMAADDH XDMAPS_ADD_SAR src_inc, DMALPEND Label0 0, DMAST])"

definition emit_loop1 :: "u32 \<Rightarrow> u32 \<Rightarrow> u32 \<Rightarrow> dma_instr list \<Rightarrow> dma_instr list" where
  "emit_loop1 ccr loop1 src_inc p =
     (let p = p @ [DMAMOV XDMAPS_MOV_CCR ccr, DMALP 1 loop1]; Label1 = length p;
          p = emit_group src_inc (emit_group src_inc (emit_group src_inc (emit_group src_inc p)))
      in p @ [DMALPEND Label1 1])"

definition emit_loop0 :: "u32 \<Rightarrow> u32 \<Rightarrow> u32 \<Rightarrow> dma_instr list \<Rightarrow> dma_instr list" where
  "emit_loop0 ccr loop0 src_inc p =
     (let p = p @ [DMAMOV XDMAPS_MOV_CCR ccr, DMALP 0 loop0]; Label0 = length p
      in p @ [DMALD, DMAST, DMAADDH XDMAPS_ADD_SAR src_inc, DMALPEND Label0 0])"

definition smemcpy_prog :: "(chan_ctrl \<Rightarrow> u32) \<Rightarrow> chan_ctrl \<Rightarrow> u32 \<Rightarrow> u32 \<Rightarrow> u32 \<Rightarrow> u32 \<Rightarrow> dma_instr list" where
  "smemcpy_prog ccr ctrl dst src src_inc n =
     (let p = [DMAMOV XDMAPS_MOV_SAR src, DMAMOV XDMAPS_MOV_DAR dst];
          loop1 = drop_bit 7 n; loop0 = n AND 0x7F;
          p = (if loop1 \<noteq> 0 then emit_loop1 (ccr (ctrl\<lparr>DstBurstSize := 8, DstBurstLen := 16\<rparr>)) loop1 src_inc p else p);
          p = (if loop0 \<noteq> 0 then emit_loop0 (ccr ctrl) loop0 src_inc p else p)
      in p @ [DMAEND])"

text \<open>The descriptor as the generation leaves it.\<close>

definition smemcpy_ctrl :: "chan_ctrl \<Rightarrow> u32 \<Rightarrow> chan_ctrl" where
  "smemcpy_ctrl ctrl n =
     (if drop_bit 7 n \<noteq> 0 \<and> n AND 0x7F = 0 then ctrl\<lparr>DstBurstSize := 8, DstBurstLen := 16\<rparr> else ctrl)"

definition dmac_smemcpy ::
  "'s dma_lib \<Rightarrow> u32 \<Rightarrow> u32 \<Rightarrow> u32 \<Rightarrow> u32 \<Rightarrow> u32 \<Rightarrow> u32 \<Rightarrow> 's dma \<Rightarrow> (dma_result \<times> 's dma) option" where
  "dmac_smemcpy L dst src block_sz dst_inc src_inc n g =
     (let ctrl = zero_ctrl\<lparr>SrcBurstSize := burst_sz block_sz, SrcBurstLen := burst_len block_sz,
                  DstBurstSize := burst_sz block_sz, DstBurstLen := burst_len block_sz, DstInc := 1\<rparr>;
          g = g\<lparr>cmd_to_hw := Some ctrl\<rparr>;
          (ok, s) = buf_allocate L (gdma_chan g) (dma_inst g); g = g\<lparr>dma_inst := s\<rparr>
      in if \<not> ok then Some (Null, g)
         else dma_go L dst (Emitted (smemcpy_prog (to_ccr L) ctrl dst src src_inc n))
                (g\<lparr>cmd_to_hw := Some (smemcpy_ctrl ctrl n)\<rparr>))"

section \<open>What a program does\<close>

text \<open>
  The documented behaviour of the controller's instructions: a loop instruction starts a counter, its
  end jumps back to the label until the body was executed that many times. A loop count is at most
  256 and an address increment has 16 bits; an instruction with another operand has no step. A
  configuration is the position, the two counters, the source address and what happened so far.
\<close>

datatype dma_ev = Ld u32 | St | Ccr u32 | Dar u32

record dma_conf =
  dma_pc :: nat
  lc0 :: nat
  lc1 :: nat
  sar :: u32
  dma_evs :: "dma_ev list"

definition dma_step :: "dma_instr list \<Rightarrow> dma_conf \<Rightarrow> dma_conf option" where
  "dma_step p c =
     (if dma_pc c < length p then
        (let c' = c\<lparr>dma_pc := dma_pc c + 1\<rparr> in case p ! dma_pc c of
           DMAMOV r v \<Rightarrow> Some (if r = XDMAPS_MOV_SAR then c'\<lparr>sar := v\<rparr>
             else if r = XDMAPS_MOV_CCR then c'\<lparr>dma_evs := dma_evs c @ [Ccr v]\<rparr> else c'\<lparr>dma_evs := dma_evs c @ [Dar v]\<rparr>)
         | DMALP l k \<Rightarrow> if k = 0 \<or> k > 256 then None
             else Some (if l = 0 then c'\<lparr>lc0 := unat k\<rparr> else c'\<lparr>lc1 := unat k\<rparr>)
         | DMALD \<Rightarrow> Some (c'\<lparr>dma_evs := dma_evs c @ [Ld (sar c)]\<rparr>)
         | DMAST \<Rightarrow> Some (c'\<lparr>dma_evs := dma_evs c @ [St]\<rparr>)
         | DMAADDH r v \<Rightarrow> if v \<ge> 0x10000 then None else Some (if r = XDMAPS_ADD_SAR then c'\<lparr>sar := sar c + v\<rparr> else c')
         | DMALPEND start l \<Rightarrow>
             Some (if l = 0 then if 1 < lc0 c then c\<lparr>dma_pc := start, lc0 := lc0 c - 1\<rparr> else c'
                   else if 1 < lc1 c then c\<lparr>dma_pc := start, lc1 := lc1 c - 1\<rparr> else c')
         | DMAEND \<Rightarrow> None)
      else None)"

inductive dma_steps :: "dma_instr list \<Rightarrow> dma_conf \<Rightarrow> dma_conf \<Rightarrow> bool" for p where
  refl: "dma_steps p c c"
| step: "dma_step p c = Some c' \<Longrightarrow> dma_steps p c' c'' \<Longrightarrow> dma_steps p c c''"

lemma dma_steps_trans: "dma_steps p a b \<Longrightarrow> dma_steps p b c \<Longrightarrow> dma_steps p a c"
  by (induction rule: dma_steps.induct) (auto intro: dma_steps.step)

lemma dma_step_instr:
  "p ! dma_pc c = DMAMOV r v \<Longrightarrow> dma_pc c < length p \<Longrightarrow> dma_step p c =
     Some (if r = XDMAPS_MOV_SAR then c\<lparr>dma_pc := dma_pc c + 1, sar := v\<rparr>
       else if r = XDMAPS_MOV_CCR then c\<lparr>dma_pc := dma_pc c + 1, dma_evs := dma_evs c @ [Ccr v]\<rparr> else c\<lparr>dma_pc := dma_pc c + 1, dma_evs := dma_evs c @ [Dar v]\<rparr>)"
  "p ! dma_pc c = DMALP l k \<Longrightarrow> dma_pc c < length p \<Longrightarrow> k \<noteq> 0 \<Longrightarrow> k \<le> 256 \<Longrightarrow> dma_step p c =
     Some (if l = 0 then c\<lparr>dma_pc := dma_pc c + 1, lc0 := unat k\<rparr> else c\<lparr>dma_pc := dma_pc c + 1, lc1 := unat k\<rparr>)"
  "p ! dma_pc c = DMALD \<Longrightarrow> dma_pc c < length p \<Longrightarrow> dma_step p c = Some (c\<lparr>dma_pc := dma_pc c + 1, dma_evs := dma_evs c @ [Ld (sar c)]\<rparr>)"
  "p ! dma_pc c = DMAST \<Longrightarrow> dma_pc c < length p \<Longrightarrow> dma_step p c = Some (c\<lparr>dma_pc := dma_pc c + 1, dma_evs := dma_evs c @ [St]\<rparr>)"
  "p ! dma_pc c = DMAADDH r v \<Longrightarrow> dma_pc c < length p \<Longrightarrow> v < 0x10000 \<Longrightarrow> dma_step p c =
     Some (if r = XDMAPS_ADD_SAR then c\<lparr>dma_pc := dma_pc c + 1, sar := sar c + v\<rparr> else c\<lparr>dma_pc := dma_pc c + 1\<rparr>)"
  "p ! dma_pc c = DMALPEND start l \<Longrightarrow> dma_pc c < length p \<Longrightarrow> dma_step p c =
     Some (if l = 0 then if 1 < lc0 c then c\<lparr>dma_pc := start, lc0 := lc0 c - 1\<rparr> else c\<lparr>dma_pc := dma_pc c + 1\<rparr>
           else if 1 < lc1 c then c\<lparr>dma_pc := start, lc1 := lc1 c - 1\<rparr> else c\<lparr>dma_pc := dma_pc c + 1\<rparr>)"
  "p ! dma_pc c = DMAEND \<Longrightarrow> dma_step p c = None"
  by (simp_all add: dma_step_def not_less [symmetric])

text \<open>The program has the instructions \<open>is\<close> from position \<open>k\<close> on.\<close>

fun has :: "dma_instr list \<Rightarrow> nat \<Rightarrow> dma_instr list \<Rightarrow> bool" where
  "has p k [] \<longleftrightarrow> True"
| "has p k (i # is) \<longleftrightarrow> k < length p \<and> p ! k = i \<and> has p (Suc k) is"

lemma has_append: "has (pre @ is @ post) (length pre) is"
proof (induction "is" arbitrary: pre)
  case (Cons i "is")
  from Cons [of "pre @ [i]"] show ?case
    by (simp add: nth_append)
qed simp

lemma has_weaken: "has p k is \<Longrightarrow> has (p @ q) k is"
  by (induction p k "is" rule: has.induct) (auto simp: nth_append)

text \<open>The loads from \<open>k\<close> addresses that start at \<open>a\<close> and are \<open>inc\<close> apart.\<close>

definition lds :: "u32 \<Rightarrow> u32 \<Rightarrow> nat \<Rightarrow> dma_ev list" where
  "lds a inc k = map (\<lambda>i. Ld (a + of_nat i * inc)) [0..<k]"

lemma lds_Suc: "lds a inc (Suc k) = Ld a # lds (a + inc) inc k"
  by (simp add: lds_def upt_conv_Cons map_Suc_upt [symmetric] algebra_simps del: upt_Suc)

lemma lds_add: "lds a inc (j + k) = lds a inc j @ lds (a + of_nat j * inc) inc k"
  by (induction j arbitrary: a) (simp_all add: lds_Suc algebra_simps, simp add: lds_def)

lemma steps2: "dma_step p a = Some b \<Longrightarrow> dma_step p b = Some c \<Longrightarrow> dma_steps p a c"
  by (blast intro: dma_steps.intros)

lemma steps1: "dma_step p a = Some b \<Longrightarrow> dma_steps p a b"
  by (blast intro: dma_steps.intros)

text \<open>A loop whose body has the effect \<open>F\<close> on source address and events.\<close>

definition upd :: "nat \<Rightarrow> (u32 \<times> dma_ev list) \<Rightarrow> dma_conf \<Rightarrow> dma_conf" where
  "upd k x c = c\<lparr>dma_pc := k, sar := fst x, dma_evs := snd x\<rparr>"

lemma loop0:
  assumes "has p e [DMALPEND l 0]"
    and body: "\<And>c. dma_pc c = l \<Longrightarrow> dma_steps p c (upd e (F (sar c, dma_evs c)) c)"
  shows "dma_pc c = l \<Longrightarrow> lc0 c = Suc k \<Longrightarrow>
    dma_steps p c (upd (Suc e) ((F ^^ Suc k) (sar c, dma_evs c)) (c\<lparr>lc0 := 1\<rparr>))"
proof (induction k arbitrary: c)
  case 0
  have "dma_step p (upd e (F (sar c, dma_evs c)) c) = Some (upd (Suc e) (F (sar c, dma_evs c)) (c\<lparr>lc0 := 1\<rparr>))"
    using assms(1) 0 by (simp add: dma_step_instr upd_def)
  from dma_steps_trans [OF body [OF 0(1)] steps1 [OF this]] show ?case
    by simp
next
  case (Suc k)
  let ?c = "upd l (F (sar c, dma_evs c)) (c\<lparr>lc0 := Suc k\<rparr>)"
  have "dma_step p (upd e (F (sar c, dma_evs c)) c) = Some ?c"
    using assms(1) Suc.prems by (simp add: dma_step_instr upd_def)
  note dma_steps_trans [OF body [OF Suc.prems(1)] steps1 [OF this]]
  moreover have "dma_steps p ?c (upd (Suc e) ((F ^^ Suc k) (sar ?c, dma_evs ?c)) (?c\<lparr>lc0 := 1\<rparr>))"
    by (rule Suc.IH) (simp_all add: upd_def)
  ultimately have "dma_steps p c (upd (Suc e) ((F ^^ Suc k) (sar ?c, dma_evs ?c)) (?c\<lparr>lc0 := 1\<rparr>))"
    by (rule dma_steps_trans)
  then show ?case
    by (simp add: upd_def funpow_swap1)
qed

lemma loop1:
  assumes "has p e [DMALPEND l 1]"
    and body: "\<And>c. dma_pc c = l \<Longrightarrow> dma_steps p c (upd e (F (sar c, dma_evs c)) (c\<lparr>lc0 := 1\<rparr>))"
  shows "dma_pc c = l \<Longrightarrow> lc1 c = Suc k \<Longrightarrow>
    dma_steps p c (upd (Suc e) ((F ^^ Suc k) (sar c, dma_evs c)) (c\<lparr>lc0 := 1, lc1 := 1\<rparr>))"
proof (induction k arbitrary: c)
  case 0
  have "dma_step p (upd e (F (sar c, dma_evs c)) (c\<lparr>lc0 := 1\<rparr>)) = Some (upd (Suc e) (F (sar c, dma_evs c)) (c\<lparr>lc0 := 1, lc1 := 1\<rparr>))"
    using assms(1) 0 by (simp add: dma_step_instr upd_def)
  from dma_steps_trans [OF body [OF 0(1)] steps1 [OF this]] show ?case
    by simp
next
  case (Suc k)
  let ?c = "upd l (F (sar c, dma_evs c)) (c\<lparr>lc0 := 1, lc1 := Suc k\<rparr>)"
  have "dma_step p (upd e (F (sar c, dma_evs c)) (c\<lparr>lc0 := 1\<rparr>)) = Some ?c"
    using assms(1) Suc.prems by (simp add: dma_step_instr upd_def)
  note dma_steps_trans [OF body [OF Suc.prems(1)] steps1 [OF this]]
  moreover have "dma_steps p ?c (upd (Suc e) ((F ^^ Suc k) (sar ?c, dma_evs ?c)) (?c\<lparr>lc0 := 1, lc1 := 1\<rparr>))"
    by (rule Suc.IH) (simp_all add: upd_def)
  ultimately have "dma_steps p c (upd (Suc e) ((F ^^ Suc k) (sar ?c, dma_evs ?c)) (?c\<lparr>lc0 := 1, lc1 := 1\<rparr>))"
    by (rule dma_steps_trans)
  then show ?case
    by (simp add: upd_def funpow_swap1)
qed

section \<open>The strided copy\<close>

definition ldF :: "u32 \<Rightarrow> u32 \<times> dma_ev list \<Rightarrow> u32 \<times> dma_ev list" where
  "ldF inc x = (fst x + inc, snd x @ [Ld (fst x)])"

definition ldstF :: "u32 \<Rightarrow> u32 \<times> dma_ev list \<Rightarrow> u32 \<times> dma_ev list" where
  "ldstF inc x = (fst x + inc, snd x @ [Ld (fst x), St])"

definition grpF :: "u32 \<Rightarrow> u32 \<times> dma_ev list \<Rightarrow> u32 \<times> dma_ev list" where
  "grpF inc x = (fst x + 32 * inc, snd x @ lds (fst x) inc 32 @ [St])"

lemma ldF_pow: "(ldF inc ^^ k) x = (fst x + of_nat k * inc, snd x @ lds (fst x) inc k)"
proof (induction k arbitrary: x)
  case (Suc k)
  then show ?case
    by (simp add: ldF_def lds_def algebra_simps)
qed (simp add: lds_def)

definition group_is :: "u32 \<Rightarrow> nat \<Rightarrow> dma_instr list" where
  "group_is inc g = [DMALP 0 32, DMALD, DMAADDH XDMAPS_ADD_SAR inc, DMALPEND (Suc g) 0, DMAST]"

lemma run_group:
  assumes "has p g (group_is inc g)" "dma_pc c = g" and inc: "inc < 0x10000"
  shows "dma_steps p c (upd (g + 5) (grpF inc (sar c, dma_evs c)) (c\<lparr>lc0 := 1\<rparr>))"
proof -
  let ?c = "c\<lparr>dma_pc := Suc g, lc0 := 32\<rparr>"
  have start: "dma_steps p c ?c"
    using assms by (intro steps1) (simp add: dma_step_instr group_is_def)
  have "dma_steps p d (upd (Suc (Suc (Suc g))) (ldF inc (sar d, dma_evs d)) d)" if "dma_pc d = Suc g" for d
    using assms(1) inc that by (intro steps2 [of p d "d\<lparr>dma_pc := Suc (Suc g), dma_evs := dma_evs d @ [Ld (sar d)]\<rparr>"])
      (simp_all add: dma_step_instr group_is_def upd_def ldF_def)
  from loop0 [of p "Suc (Suc (Suc g))" "Suc g" "ldF inc", OF _ this, of ?c 31] assms(1)
  have loop: "dma_steps p ?c (upd (Suc (Suc (Suc (Suc g)))) ((ldF inc ^^ 32) (sar c, dma_evs c)) (c\<lparr>lc0 := 1\<rparr>))"
    by (simp add: group_is_def upd_def del: funpow.simps)
  have store: "dma_steps p (upd (Suc (Suc (Suc (Suc g)))) ((ldF inc ^^ 32) (sar c, dma_evs c)) (c\<lparr>lc0 := 1\<rparr>))
      (upd (Suc (Suc (Suc (Suc (Suc g))))) (grpF inc (sar c, dma_evs c)) (c\<lparr>lc0 := 1\<rparr>))"
    using assms(1) by (intro steps1) (simp add: dma_step_instr group_is_def upd_def ldF_pow grpF_def)
  have "g + 5 = Suc (Suc (Suc (Suc (Suc g))))"
    by simp
  then show ?thesis
    using dma_steps_trans [OF dma_steps_trans [OF start loop] store] by (simp only:)
qed

lemma emit_group_is: "emit_group inc p = p @ group_is inc (length p)"
  by (simp add: emit_group_def group_is_def)

definition loop1_is :: "u32 \<Rightarrow> u32 \<Rightarrow> u32 \<Rightarrow> nat \<Rightarrow> dma_instr list" where
  "loop1_is ccr k inc q = [DMAMOV XDMAPS_MOV_CCR ccr, DMALP 1 k] @ group_is inc (q + 2) @ group_is inc (q + 7) @
     group_is inc (q + 12) @ group_is inc (q + 17) @ [DMALPEND (q + 2) 1]"

definition loop0_is :: "u32 \<Rightarrow> u32 \<Rightarrow> u32 \<Rightarrow> nat \<Rightarrow> dma_instr list" where
  "loop0_is ccr k inc q = [DMAMOV XDMAPS_MOV_CCR ccr, DMALP 0 k, DMALD, DMAST, DMAADDH XDMAPS_ADD_SAR inc, DMALPEND (q + 2) 0]"

lemma emit_loops_is: "emit_loop1 ccr k inc p = p @ loop1_is ccr k inc (length p)" "emit_loop0 ccr k inc p = p @ loop0_is ccr k inc (length p)"
  by (simp_all add: emit_loop1_def emit_loop0_def emit_group_is loop1_is_def loop0_is_def group_is_def Let_def)

lemma has_app: "has p k (xs @ ys) \<longleftrightarrow> has p k xs \<and> has p (k + length xs) ys"
  by (induction p k xs rule: has.induct) auto

lemma run_loop1:
  assumes "has p q (loop1_is ccr k inc q)" "dma_pc c = q" "k \<noteq> 0" and k: "k \<le> 256" and inc: "inc < 0x10000"
  shows "dma_steps p c (upd (q + 23) ((grpF inc ^^ (4 * unat k)) (sar c, dma_evs c @ [Ccr ccr])) (c\<lparr>lc0 := 1, lc1 := 1\<rparr>))"
proof -
  let ?c = "c\<lparr>dma_pc := q + 2, lc1 := unat k, dma_evs := dma_evs c @ [Ccr ccr]\<rparr>"
  have h: "has p q [DMAMOV XDMAPS_MOV_CCR ccr, DMALP 1 k]" "has p (q + 2) (group_is inc (q + 2))" "has p (q + 7) (group_is inc (q + 7))"
    "has p (q + 12) (group_is inc (q + 12))" "has p (q + 17) (group_is inc (q + 17))" "has p (q + 22) [DMALPEND (q + 2) 1]"
    using assms(1) by (simp_all add: loop1_is_def has_app group_is_def add.assoc eval_nat_numeral)
  have start: "dma_steps p c ?c"
    using h(1) k assms(2,3) by (intro steps2 [of p c "c\<lparr>dma_pc := Suc q, dma_evs := dma_evs c @ [Ccr ccr]\<rparr>"])
      (simp_all add: dma_step_instr XDMAPS_MOV_CCR_def XDMAPS_MOV_SAR_def)
  have body: "dma_steps p d (upd (q + 22) ((grpF inc ^^ 4) (sar d, dma_evs d)) (d\<lparr>lc0 := 1\<rparr>))" if d: "dma_pc d = q + 2" for d
  proof -
    have "dma_steps p (upd g x (d\<lparr>lc0 := 1\<rparr>)) (upd (g + 5) (grpF inc x) (d\<lparr>lc0 := 1\<rparr>))" if "has p g (group_is inc g)" for g x
      using run_group [OF that _ inc, of "upd g x (d\<lparr>lc0 := 1\<rparr>)"] by (simp add: upd_def)
    note G = this [OF h(3), of "grpF inc (sar d, dma_evs d)"] this [OF h(4), of "(grpF inc ^^ 2) (sar d, dma_evs d)"]
      this [OF h(5), of "(grpF inc ^^ 3) (sar d, dma_evs d)"]
    have "dma_steps p d (upd (q + 7) (grpF inc (sar d, dma_evs d)) (d\<lparr>lc0 := 1\<rparr>))"
      using run_group [OF h(2) d inc] by (simp add: add.commute)
    with G show ?thesis
      by (simp add: eval_nat_numeral) (blast intro: dma_steps_trans)
  qed
  obtain j where j: "unat k = Suc j"
    using assms(3) by (metis not0_implies_Suc unat_eq_zero)
  from loop1 [OF h(6) body, of ?c j] j
  have "dma_steps p ?c (upd (q + 23) (((grpF inc ^^ 4) ^^ unat k) (sar c, dma_evs c @ [Ccr ccr])) (c\<lparr>lc0 := 1, lc1 := 1\<rparr>))"
    by (simp add: upd_def add.commute del: funpow.simps)
  from dma_steps_trans [OF start this] show ?thesis
    by (simp only: funpow_mult)
qed

lemma run_loop0:
  assumes "has p q (loop0_is ccr k inc q)" "dma_pc c = q" "k \<noteq> 0" and k: "k \<le> 256" and inc: "inc < 0x10000"
  shows "dma_steps p c (upd (q + 6) ((ldstF inc ^^ unat k) (sar c, dma_evs c @ [Ccr ccr])) (c\<lparr>lc0 := 1\<rparr>))"
proof -
  let ?c = "c\<lparr>dma_pc := Suc (Suc q), lc0 := unat k, dma_evs := dma_evs c @ [Ccr ccr]\<rparr>"
  have start: "dma_steps p c ?c"
    using assms(1-3) k by (intro steps2 [of p c "c\<lparr>dma_pc := Suc q, dma_evs := dma_evs c @ [Ccr ccr]\<rparr>"])
      (simp_all add: dma_step_instr loop0_is_def XDMAPS_MOV_CCR_def XDMAPS_MOV_SAR_def)
  have body: "dma_steps p d (upd (Suc (Suc (Suc (Suc (Suc q))))) (ldstF inc (sar d, dma_evs d)) d)" if "dma_pc d = Suc (Suc q)" for d
  proof -
    let ?d = "d\<lparr>dma_pc := Suc (Suc (Suc (Suc q))), dma_evs := dma_evs d @ [Ld (sar d), St]\<rparr>"
    have "dma_steps p d ?d"
      using assms(1) that by (intro steps2 [of p d "d\<lparr>dma_pc := Suc (Suc (Suc q)), dma_evs := dma_evs d @ [Ld (sar d)]\<rparr>"])
        (simp_all add: dma_step_instr loop0_is_def)
    moreover have "dma_steps p ?d (upd (Suc (Suc (Suc (Suc (Suc q))))) (ldstF inc (sar d, dma_evs d)) d)"
      using assms(1) inc by (intro steps1) (simp add: dma_step_instr loop0_is_def upd_def ldstF_def)
    ultimately show ?thesis
      by (rule dma_steps_trans)
  qed
  obtain j where j: "unat k = Suc j"
    using assms(3) by (metis not0_implies_Suc unat_eq_zero)
  have "has p (Suc (Suc (Suc (Suc (Suc q))))) [DMALPEND (Suc (Suc q)) 0]"
    using assms(1) by (simp add: loop0_is_def)
  from loop0 [OF this body, of ?c j] j
  have "dma_steps p ?c (upd (Suc (Suc (Suc (Suc (Suc (Suc q)))))) ((ldstF inc ^^ unat k) (sar c, dma_evs c @ [Ccr ccr])) (c\<lparr>lc0 := 1\<rparr>))"
    by (simp add: upd_def del: funpow.simps)
  moreover have "q + 6 = Suc (Suc (Suc (Suc (Suc (Suc q)))))"
    by simp
  ultimately show ?thesis
    using start by (simp only: dma_steps_trans)
qed

definition loads :: "dma_ev list \<Rightarrow> dma_ev list" where
  "loads es = filter (\<lambda>e. case e of Ld _ \<Rightarrow> True | _ \<Rightarrow> False) es"

definition stores :: "dma_ev list \<Rightarrow> nat" where
  "stores es = length (filter (\<lambda>e. e = St) es)"

lemma loads_simps [simp]: "loads (xs @ ys) = loads xs @ loads ys" "loads [] = []" "loads [St] = []" "loads [Ccr v] = []" "loads [Dar v] = []"
  "loads (Ld a # xs) = Ld a # loads xs" "loads (lds a inc k) = lds a inc k" "loads (St # xs) = loads xs"
  by (simp_all add: loads_def lds_def filter_map comp_def)

lemma stores_simps [simp]: "stores (xs @ ys) = stores xs + stores ys" "stores [] = 0" "stores [Ccr v] = 0" "stores [Dar v] = 0"
  "stores (St # xs) = Suc (stores xs)" "stores (Ld a # xs) = stores xs" "stores (lds a inc k) = 0"
  by (simp_all add: stores_def lds_def filter_empty_conv)

lemma grpF_pow:
  "fst ((grpF inc ^^ k) x) = fst x + of_nat (32 * k) * inc" "loads (snd ((grpF inc ^^ k) x)) = loads (snd x) @ lds (fst x) inc (32 * k)"
  "stores (snd ((grpF inc ^^ k) x)) = stores (snd x) + k"
proof (induction k)
  case (Suc k)
  { case 1 from Suc show ?case by (simp add: grpF_def algebra_simps) }
  { case 2
    have "32 * Suc k = 32 * k + 32" by simp
    then show ?case using Suc by (simp only: lds_add) (simp add: grpF_def) }
  { case 3 from Suc show ?case by (simp add: grpF_def) }
qed (simp_all add: lds_def)

lemma ldstF_pow:
  "fst ((ldstF inc ^^ k) x) = fst x + of_nat k * inc" "loads (snd ((ldstF inc ^^ k) x)) = loads (snd x) @ lds (fst x) inc k"
  "stores (snd ((ldstF inc ^^ k) x)) = stores (snd x) + k"
  by (induction k) (simp_all add: ldstF_def algebra_simps lds_def)

lemma split_n: "unat (n :: u32) = 128 * unat (drop_bit 7 n) + unat (n AND 0x7F)"
proof -
  have "(0x7F :: u32) = mask 7"
    by (simp add: mask_eq_exp_minus_1)
  then have "n AND 0x7F = take_bit 7 n"
    by (simp only: take_bit_eq_mask)
  then have "unat (n AND 0x7F) = unat n mod 2 ^ 7"
    by (simp only: unsigned_take_bit_eq) (simp only: take_bit_eq_mod)
  moreover have "unat (drop_bit 7 n) = unat n div 2 ^ 7"
    by (simp only: unat_drop_bit_eq) (simp only: drop_bit_eq_div)
  ultimately show ?thesis
    by simp
qed

text \<open>A program in three parts, the loops present or not.\<close>

lemma smemcpy_prog_parts:
  "smemcpy_prog ccr ctrl dst src inc n =
     [DMAMOV XDMAPS_MOV_SAR src, DMAMOV XDMAPS_MOV_DAR dst] @
     (if drop_bit 7 n \<noteq> 0 then loop1_is (ccr (ctrl\<lparr>DstBurstSize := 8, DstBurstLen := 16\<rparr>)) (drop_bit 7 n) inc 2 else []) @
     (if n AND 0x7F \<noteq> 0 then loop0_is (ccr ctrl) (n AND 0x7F) inc (if drop_bit 7 n \<noteq> 0 then 25 else 2) else []) @ [DMAEND]"
  by (simp add: smemcpy_prog_def emit_loops_is Let_def) (simp add: loop1_is_def group_is_def eval_nat_numeral)

definition dma_start :: dma_conf where
  "dma_start = \<lparr>dma_pc = 0, lc0 = 0, lc1 = 0, sar = 0, dma_evs = []\<rparr>"

lemma opt_loop1:
  assumes "has p q (if k \<noteq> 0 then loop1_is ccr k inc q else [])" "dma_pc c = q" "k \<le> 256" "inc < 0x10000"
  obtains c' where "dma_steps p c c'" "dma_pc c' = (if k \<noteq> 0 then q + 23 else q)" "sar c' = sar c + of_nat (128 * unat k) * inc"
    "loads (dma_evs c') = loads (dma_evs c) @ lds (sar c) inc (128 * unat k)" "stores (dma_evs c') = stores (dma_evs c) + 4 * unat k"
proof (cases "k = 0")
  case True
  then show ?thesis
    using assms(2) by (intro that [OF dma_steps.refl]) (simp_all add: lds_def)
next
  case False
  with assms have h: "has p q (loop1_is ccr k inc q)"
    by simp
  show ?thesis
    using False by (intro that [OF run_loop1 [OF h assms(2) False assms(3,4)]]) (simp_all add: upd_def grpF_pow)
qed

lemma opt_loop0:
  assumes "has p q (if k \<noteq> 0 then loop0_is ccr k inc q else [])" "dma_pc c = q" "k \<le> 256" "inc < 0x10000"
  obtains c' where "dma_steps p c c'" "dma_pc c' = (if k \<noteq> 0 then q + 6 else q)"
    "loads (dma_evs c') = loads (dma_evs c) @ lds (sar c) inc (unat k)" "stores (dma_evs c') = stores (dma_evs c) + unat k"
proof (cases "k = 0")
  case True
  then show ?thesis
    using assms(2) by (intro that [OF dma_steps.refl]) (simp_all add: lds_def)
next
  case False
  with assms have h: "has p q (loop0_is ccr k inc q)"
    by simp
  show ?thesis
    using False by (intro that [OF run_loop0 [OF h assms(2) False assms(3,4)]]) (simp_all add: upd_def ldstF_pow)
qed

lemma low_bits_bound: "(n :: u32) AND 0x7F \<le> 256"
proof -
  have "n AND 0x7F \<le> 0x7F"
    by (rule word_and_le1)
  then show ?thesis
    by (rule order_trans) simp
qed

lemma low_bits_lt: "unat ((n :: u32) AND 0x7F) < 128"
proof -
  have "n AND 0x7F \<le> 0x7F"
    by (rule word_and_le1)
  then show ?thesis
    by (simp add: word_le_nat_alt)
qed

lemma high_bits_bound: "unat (n :: u32) < 128 * 257 \<Longrightarrow> drop_bit 7 n \<le> 256"
  using split_n [of n] by (simp only: word_le_nat_alt) simp

text \<open>C33: The program generated for a strided copy of \<open>n\<close> elements runs to its end instruction, loads
  once from each of the \<open>n\<close> addresses that start at the source and are the increment apart, in that
  order, and stores once for every 32 loads of the unrolled part and once for every load of the
  rest. The counts and the increment have to be representable in the controller's instructions.
\<close>

theorem smemcpy_addresses:
  assumes "unat n < 128 * 257" "src_inc < 0x10000"
  shows "\<exists>c. dma_steps (smemcpy_prog ccr ctrl dst src src_inc n) dma_start c \<and>
    smemcpy_prog ccr ctrl dst src src_inc n ! dma_pc c = DMAEND \<and>
    loads (dma_evs c) = map (\<lambda>i. Ld (src + of_nat i * src_inc)) [0..<unat n] \<and>
    stores (dma_evs c) = 4 * (unat n div 128) + unat n mod 128"
proof -
  define p where "p = smemcpy_prog ccr ctrl dst src src_inc n"
  let ?q = "if drop_bit 7 n \<noteq> 0 then 25 else 2 :: nat"
  let ?L1 = "if drop_bit 7 n \<noteq> 0 then loop1_is (ccr (ctrl\<lparr>DstBurstSize := 8, DstBurstLen := 16\<rparr>)) (drop_bit 7 n) src_inc 2 else []"
  let ?L0 = "if n AND 0x7F \<noteq> 0 then loop0_is (ccr ctrl) (n AND 0x7F) src_inc ?q else []"
  have "p = [] @ ([DMAMOV XDMAPS_MOV_SAR src, DMAMOV XDMAPS_MOV_DAR dst] @ ?L1 @ ?L0 @ [DMAEND]) @ []"
    unfolding p_def smemcpy_prog_parts by simp
  then have "has p 0 ([DMAMOV XDMAPS_MOV_SAR src, DMAMOV XDMAPS_MOV_DAR dst] @ ?L1 @ ?L0 @ [DMAEND])"
    by (metis has_append list.size(3))
  then have h: "has p 0 [DMAMOV XDMAPS_MOV_SAR src, DMAMOV XDMAPS_MOV_DAR dst]" "has p 2 ?L1" "has p ?q ?L0"
      "has p (if n AND 0x7F \<noteq> 0 then ?q + 6 else ?q) [DMAEND]"
    unfolding has_app by (auto simp: loop1_is_def loop0_is_def group_is_def eval_nat_numeral)
  let ?a = "dma_start\<lparr>dma_pc := 2, sar := src, dma_evs := [Dar dst]\<rparr>"
  have a: "dma_steps p dma_start ?a"
    using h(1) by (intro steps2 [of p dma_start "dma_start\<lparr>dma_pc := 1, sar := src\<rparr>"])
      (simp_all add: dma_step_instr dma_start_def XDMAPS_MOV_SAR_def XDMAPS_MOV_CCR_def XDMAPS_MOV_DAR_def)
  obtain b where b: "dma_steps p ?a b" "dma_pc b = ?q" "sar b = src + of_nat (128 * unat (drop_bit 7 n)) * src_inc"
    "loads (dma_evs b) = lds src src_inc (128 * unat (drop_bit 7 n))" "stores (dma_evs b) = 4 * unat (drop_bit 7 n)"
    by (rule opt_loop1 [OF h(2), of ?a]) (use assms in \<open>simp_all add: high_bits_bound split: if_splits\<close>)
  obtain c where c: "dma_steps p b c" "dma_pc c = (if n AND 0x7F \<noteq> 0 then ?q + 6 else ?q)"
    "loads (dma_evs c) = loads (dma_evs b) @ lds (sar b) src_inc (unat (n AND 0x7F))" "stores (dma_evs c) = stores (dma_evs b) + unat (n AND 0x7F)"
    by (rule opt_loop0 [OF h(3) b(2) low_bits_bound assms(2)])
  have "loads (dma_evs c) = lds src src_inc (unat n)"
    unfolding c(3) b(3,4) by (simp only: lds_add [symmetric] split_n [of n, symmetric])
  moreover have "stores (dma_evs c) = 4 * (unat n div 128) + unat n mod 128"
    using b(5) c(4) split_n [of n] low_bits_lt [of n] by simp
  ultimately show ?thesis
    using dma_steps_trans [OF dma_steps_trans [OF a b(1)] c(1)] h(4) c(2) unfolding p_def [symmetric] lds_def by auto
qed

theorem smemcpy_addresses_witness:
  "\<exists>c. dma_steps (smemcpy_prog (\<lambda>_. 0) zero_ctrl 0x2000 0x1000 64 130) dma_start c \<and>
    smemcpy_prog (\<lambda>_. 0) zero_ctrl 0x2000 0x1000 64 130 ! dma_pc c = DMAEND \<and>
    loads (dma_evs c) = map (\<lambda>i. Ld (0x1000 + of_nat i * 64)) [0..<130] \<and> stores (dma_evs c) = 6"
  using smemcpy_addresses [of 130 64 "\<lambda>_. 0" zero_ctrl "0x2000" "0x1000"] by simp

section \<open>Bursts\<close>

lemma unat_burst_sz: "unat (burst_sz n) = (if unat n < 8 then if unat n < 4 then if unat n < 2 then 1 else 2 else 4 else 8)"
  by (simp add: burst_sz_def word_less_nat_alt)

lemma unat_burst_len: "unat (burst_len n) = min 16 (unat n div unat (burst_sz n))"
  by (simp add: burst_len_def Let_def word_less_nat_alt unat_div min_def)

lemma burst_cases: "burst_sz n \<in> {1, 2, 4, 8}" "burst_len n \<le> 16"
  by (simp add: burst_sz_def) (simp add: word_le_nat_alt unat_burst_len)

text \<open>A burst never exceeds the block, and it is the whole block for the sizes the controller can do at once.\<close>

lemma burst_within: "unat (burst_sz n) * unat (burst_len n) \<le> unat n"
proof -
  have "unat (burst_sz n) * min 16 (unat n div unat (burst_sz n)) \<le> unat (burst_sz n) * (unat n div unat (burst_sz n))"
    by simp
  also have "\<dots> \<le> unat n"
    by simp
  finally show ?thesis
    by (simp add: unat_burst_len)
qed

lemma burst_covers: "unat (burst_sz n) * unat (burst_len n) = unat n \<longleftrightarrow> unat n \<in> {0, 1, 2, 4} \<or> 8 dvd unat n \<and> unat n \<le> 128"
proof (cases "unat n < 8")
  case True
  then have "unat n \<in> {0, 1, 2, 3, 4, 5, 6, 7}"
    by auto
  then show ?thesis
    unfolding unat_burst_len unat_burst_sz by auto
next
  case False
  then show ?thesis
    unfolding unat_burst_len unat_burst_sz by (auto simp: min_def dvd_mult_div_cancel elim: dvd_mult_div_cancel intro: dvdI [OF sym])
qed

text \<open>The unrolled part stores what it loaded only for blocks whose burst is four bytes.\<close>

lemma group_balanced: "32 * (unat (burst_sz n) * unat (burst_len n)) = 8 * 16 \<longleftrightarrow> unat n \<in> {4..7}"
proof (cases "unat n < 8")
  case True
  then have "unat n \<in> {0, 1, 2, 3, 4, 5, 6, 7}"
    by auto
  then show ?thesis
    unfolding unat_burst_len unat_burst_sz by auto
next
  case False
  then show ?thesis
    unfolding unat_burst_len unat_burst_sz by (auto simp: min_def)
qed

section \<open>Results\<close>

lemma dma_wait_stops: "read_csn L ch s = (t, s') \<Longrightarrow> t AND 0xF = 0 \<Longrightarrow> dma_wait L ch s = Some (True, s')"
  "read_csn L ch s = (t, s') \<Longrightarrow> t AND 0xC = 0xC \<Longrightarrow> dma_wait L ch s = Some (False, s')"
proof -
  assume *: "read_csn L ch s = (t, s')" "t AND 0xC = 0xC"
  have "t AND 0xF \<noteq> 0"
  proof
    assume "t AND 0xF = 0"
    then have "(t AND 0xF) AND 0xC = 0"
      by simp
    then show False
      using *(2) by (simp add: and.assoc)
  qed
  with * show "dma_wait L ch s = Some (False, s')"
    by (subst dma_wait.simps) simp
qed (subst dma_wait.simps, simp)

text \<open>A copy whose program was started and ended is reported with the destination, and its descriptor is unlinked.\<close>

lemma dma_go_ok:
  assumes "exec_dmago L (gdma_chan g) p (dma_inst g) = (XST_SUCCESS, s)" "dma_wait L (gdma_chan g) s = Some (True, s')"
    "free_prog L (gdma_chan g) p s' = (XST_SUCCESS, s'')"
  shows "dma_go L dst p g = Some (Ptr dst, g\<lparr>dma_inst := s'', cmd_to_hw := None\<rparr>)"
  using assms by (simp add: dma_go_def)

text \<open>When the start fails, the channel keeps the address of a descriptor that no longer exists.\<close>

lemma dmac_memcpy_dangling:
  assumes "gen_prog L (gdma_chan g) \<lparr>SrcBurstSize = burst_sz n, SrcBurstLen = burst_len n, SrcInc = 1,
      DstBurstSize = burst_sz n, DstBurstLen = burst_len n, DstInc = 1\<rparr> src dst n (dma_inst g) = (XST_SUCCESS, s)"
    and "\<And>p. fst (exec_dmago L (gdma_chan g) p s) \<noteq> XST_SUCCESS"
  shows "\<exists>g'. dmac_memcpy L dst src n g = Some (Null, g') \<and> cmd_to_hw g' \<noteq> None"
proof -
  let ?C = "\<lparr>SrcBurstSize = burst_sz n, SrcBurstLen = burst_len n, SrcInc = 1,
      DstBurstSize = burst_sz n, DstBurstLen = burst_len n, DstInc = 1\<rparr>"
  obtain st t where "exec_dmago L (gdma_chan g) (Generated ?C src dst n) s = (st, t)" "st \<noteq> XST_SUCCESS"
    using assms(2) by (metis prod.collapse)
  with assms(1) show ?thesis
    by (simp add: dmac_memcpy_def dma_go_def Let_def)
qed

end
