(* ===== verification/A53_Cache.thy ===== *)
theory A53_Cache
  imports Lime_Prelude
begin

text \<open>
  Cache maintenance of the kernel driver, \<^verbatim>\<open>src/linux/drivers/arm64/xil_cache.c\<close>: whole caches by set
  and way, lines and address ranges by address, in the default and in the alternative
  (\<^verbatim>\<open>XIL_ALT\<close>) form. The processor is its control registers and the sequence of maintenance
  instructions and barriers executed so far; reading the size register depends on the selected cache.
  The options are loops over an address range that do not end.
\<close>

section \<open>Processor\<close>

datatype dc_op = CISW | ISW | CIVAC | IVAC

datatype cache_op =
    DC dc_op u64
  | IC_IVAU u64
  | IC_IALLU
  | TLBI_ALLE3
  | DSB
  | ISB

record cpu =
  DAIF :: u32
  CSSELR_EL1 :: u32
  CCSIDR_EL1 :: "u32 \<Rightarrow> u64"
  SCTLR_EL3 :: u64
  CPUACTLR :: u64
  cache_ops :: "cache_op list"

definition emit :: "cache_op \<Rightarrow> cpu \<Rightarrow> cpu" where
  "emit x s = s\<lparr>cache_ops := cache_ops s @ [x]\<rparr>"

definition mtcpsr :: "u32 \<Rightarrow> cpu \<Rightarrow> cpu" where
  "mtcpsr v s = s\<lparr>DAIF := v\<rparr>"

definition select_cache :: "u32 \<Rightarrow> cpu \<Rightarrow> cpu" where
  "select_cache v s = s\<lparr>CSSELR_EL1 := v\<rparr>"

text \<open>The instruction counts in a 64-bit register.\<close>

definition clz :: "u32 \<Rightarrow> u8" where
  "clz w = of_nat (length (takeWhile (\<lambda>i. \<not> bit (ucast w :: u64) i) (rev [0..<64])))"

definition IRQ_FIQ_MASK :: u32 where "IRQ_FIQ_MASK = 0xC0"
definition XREG_CONTROL_DCACHE_BIT :: u32 where "XREG_CONTROL_DCACHE_BIT = push_bit 2 1"
definition XREG_CONTROL_ICACHE_BIT :: u32 where "XREG_CONTROL_ICACHE_BIT = push_bit 12 1"

section \<open>Whole caches\<close>

fun set_loop :: "dc_op \<Rightarrow> u32 \<Rightarrow> u32 \<Rightarrow> u32 \<Rightarrow> nat \<Rightarrow> u32 \<Rightarrow> cpu \<Rightarrow> cpu" where
  "set_loop k LineSize CacheLevel Way 0 Set s = s"
| "set_loop k LineSize CacheLevel Way (Suc n) Set s =
     (let C7Reg = Way OR Set OR CacheLevel
      in set_loop k LineSize CacheLevel Way n (Set + push_bit (unat LineSize) 1) (emit (DC k (ucast C7Reg)) s))"

fun way_loop :: "dc_op \<Rightarrow> u32 \<Rightarrow> u32 \<Rightarrow> u32 \<Rightarrow> u32 \<Rightarrow> nat \<Rightarrow> u32 \<Rightarrow> cpu \<Rightarrow> cpu" where
  "way_loop k LineSize CacheLevel NumSet WayAdjust 0 Way s = s"
| "way_loop k LineSize CacheLevel NumSet WayAdjust (Suc n) Way s =
     way_loop k LineSize CacheLevel NumSet WayAdjust n (Way + push_bit (unat WayAdjust) 1)
       (set_loop k LineSize CacheLevel Way (unat NumSet) 0 s)"

definition LineSize :: "u32 \<Rightarrow> u32" where
  "LineSize CsidReg = (CsidReg AND 7) + 4"

definition NumWays :: "u32 \<Rightarrow> u32" where
  "NumWays CsidReg = drop_bit 3 (CsidReg AND 0x1FFF) + 1"

definition NumSet :: "u32 \<Rightarrow> u32" where
  "NumSet CsidReg = (drop_bit 13 CsidReg AND 0x7FFF) + 1"

definition WayAdjust :: "u32 \<Rightarrow> u32" where
  "WayAdjust CsidReg = ucast (clz (NumWays CsidReg)) - 0x1F"

text \<open>One level; the same text is there for both levels of the three operations that use it.\<close>

definition maintain_level :: "dc_op \<Rightarrow> u32 \<Rightarrow> cpu \<Rightarrow> cpu" where
  "maintain_level k CacheLevel s =
     (let s = emit ISB (select_cache CacheLevel s);
          CsidReg = ucast (CCSIDR_EL1 s (CSSELR_EL1 s))
      in emit DSB (way_loop k (LineSize CsidReg) CacheLevel (NumSet CsidReg) (WayAdjust CsidReg) (unat (NumWays CsidReg)) 0 s))"

definition maintain_all :: "dc_op \<Rightarrow> cpu \<Rightarrow> cpu" where
  "maintain_all k s = maintain_level k 2 (maintain_level k 0 s)"

definition Xil_DCacheInvalidate :: "cpu \<Rightarrow> cpu" where
  "Xil_DCacheInvalidate s =
     (let currmask = DAIF s; s = mtcpsr (currmask OR IRQ_FIQ_MASK) s in mtcpsr currmask (maintain_all ISW s))"

definition Xil_DCacheFlush :: "cpu \<Rightarrow> cpu" where
  "Xil_DCacheFlush s =
     (let currmask = DAIF s; s = mtcpsr (currmask OR IRQ_FIQ_MASK) s in mtcpsr currmask (maintain_all CISW s))"

definition Xil_DCacheEnable :: "cpu \<Rightarrow> cpu" where
  "Xil_DCacheEnable s =
     (let CtrlReg = ucast (SCTLR_EL3 s) :: u32
      in if CtrlReg AND XREG_CONTROL_DCACHE_BIT = 0
         then (Xil_DCacheInvalidate s)\<lparr>SCTLR_EL3 := ucast (CtrlReg OR XREG_CONTROL_DCACHE_BIT)\<rparr> else s)"

text \<open>The \<^verbatim>\<open>and\<close> on the 32-bit half clears the upper half of the register that is written back.\<close>

definition Xil_DCacheDisable :: "cpu \<Rightarrow> cpu" where
  "Xil_DCacheDisable s =
     (let s = emit DSB s;
          s = emit DSB (s\<lparr>SCTLR_EL3 := ucast ((ucast (SCTLR_EL3 s) :: u32) AND 0xFFFFFFFB)\<rparr>);
          s = maintain_all CISW s
      in emit ISB (emit DSB (emit TLBI_ALLE3 s)))"

section \<open>Lines and ranges\<close>

definition cacheline :: u64 where "cacheline = 64"

definition line_of :: "u64 \<Rightarrow> u64" where
  "line_of adr = adr AND NOT 0x3F"

text \<open>Two levels for one line, with the two operations given.\<close>

definition two_levels :: "dc_op \<Rightarrow> dc_op \<Rightarrow> u64 \<Rightarrow> cpu \<Rightarrow> cpu" where
  "two_levels k0 k1 adr s =
     (let s = emit DSB (emit (DC k0 (line_of adr)) (select_cache 0 s))
      in emit DSB (emit (DC k1 (line_of adr)) (select_cache 2 s)))"

definition Xil_DCacheInvalidateLine :: "u64 \<Rightarrow> cpu \<Rightarrow> cpu" where
  "Xil_DCacheInvalidateLine adr s =
     (let currmask = DAIF s; s = mtcpsr (currmask OR IRQ_FIQ_MASK) s in mtcpsr currmask (two_levels CIVAC IVAC adr s))"

definition Xil_DCacheFlushLine :: "u64 \<Rightarrow> cpu \<Rightarrow> cpu" where
  "Xil_DCacheFlushLine adr s =
     (let currmask = DAIF s; s = mtcpsr (currmask OR IRQ_FIQ_MASK) s in mtcpsr currmask (two_levels CIVAC CIVAC adr s))"

text \<open>\<open>act\<close> is the body of the loop at one address.\<close>

partial_function (option) range_loop :: "(u64 \<Rightarrow> cpu \<Rightarrow> cpu) \<Rightarrow> u64 \<Rightarrow> u64 \<Rightarrow> cpu \<Rightarrow> cpu option" where
  "range_loop act adr end s = (if adr < end then range_loop act (adr + cacheline) end (act adr s) else Some s)"

definition Xil_DCacheInvalidateRange :: "u64 \<Rightarrow> u64 \<Rightarrow> cpu \<Rightarrow> cpu option" where
  "Xil_DCacheInvalidateRange adr len s =
     (let end = adr + len; adr = line_of adr; currmask = DAIF s; s = mtcpsr (currmask OR IRQ_FIQ_MASK) s
      in case (if len \<noteq> 0 then range_loop (\<lambda>a. emit (DC CIVAC a)) adr end s else Some s) of
           None \<Rightarrow> None
         | Some s \<Rightarrow> Some (mtcpsr currmask (emit DSB s)))"

definition Xil_DCacheFlushRange :: "u64 \<Rightarrow> u64 \<Rightarrow> cpu \<Rightarrow> cpu option" where
  "Xil_DCacheFlushRange adr len s = Xil_DCacheInvalidateRange adr len s"

text \<open>The alternative form flushes the partial lines at both ends first; \<open>k\<close> is the operation on the rest.\<close>

definition alt_range :: "dc_op \<Rightarrow> u64 \<Rightarrow> u64 \<Rightarrow> cpu \<Rightarrow> cpu option" where
  "alt_range k adr len s =
     (let currmask = DAIF s; s = mtcpsr (currmask OR IRQ_FIQ_MASK) s
      in if len \<noteq> 0 then
           (let tempadr = adr; tempend = tempadr + len;
                (tempadr, s) = (if tempadr AND (cacheline - 1) \<noteq> 0
                   then (let tempadr = tempadr AND NOT (cacheline - 1) in (tempadr + cacheline, Xil_DCacheFlushLine tempadr s))
                   else (tempadr, s));
                (tempend, s) = (if tempend AND (cacheline - 1) \<noteq> 0
                   then (let tempend = tempend AND NOT (cacheline - 1) in (tempend, Xil_DCacheFlushLine tempend s))
                   else (tempend, s))
            in case range_loop (two_levels k k) tempadr tempend s of None \<Rightarrow> None | Some s \<Rightarrow> Some (mtcpsr currmask s))
         else Some (mtcpsr currmask s))"

definition alt_DCacheInvalidateRange :: "u64 \<Rightarrow> u64 \<Rightarrow> cpu \<Rightarrow> cpu option" where
  "alt_DCacheInvalidateRange = alt_range IVAC"

definition alt_DCacheFlushRange :: "u64 \<Rightarrow> u64 \<Rightarrow> cpu \<Rightarrow> cpu option" where
  "alt_DCacheFlushRange = alt_range CIVAC"

section \<open>Instruction cache and prefetch\<close>

definition Xil_ICacheInvalidate :: "cpu \<Rightarrow> cpu" where
  "Xil_ICacheInvalidate s =
     (let currmask = DAIF s; s = mtcpsr (currmask OR IRQ_FIQ_MASK) s
      in mtcpsr currmask (emit DSB (emit IC_IALLU (emit DSB (select_cache 1 s)))))"

definition Xil_ICacheEnable :: "cpu \<Rightarrow> cpu" where
  "Xil_ICacheEnable s =
     (let CtrlReg = ucast (SCTLR_EL3 s) :: u32
      in if CtrlReg AND XREG_CONTROL_ICACHE_BIT = 0
         then (Xil_ICacheInvalidate s)\<lparr>SCTLR_EL3 := ucast (CtrlReg OR XREG_CONTROL_ICACHE_BIT)\<rparr> else s)"

definition Xil_ICacheDisable :: "cpu \<Rightarrow> cpu" where
  "Xil_ICacheDisable s =
     (let CtrlReg = ucast (SCTLR_EL3 s) :: u32
      in (Xil_ICacheInvalidate s)\<lparr>SCTLR_EL3 := ucast (CtrlReg AND NOT XREG_CONTROL_ICACHE_BIT)\<rparr>)"

definition Xil_ICacheInvalidateLine :: "u64 \<Rightarrow> cpu \<Rightarrow> cpu" where
  "Xil_ICacheInvalidateLine adr s =
     (let currmask = DAIF s; s = mtcpsr (currmask OR IRQ_FIQ_MASK) s
      in mtcpsr currmask (emit DSB (emit (IC_IVAU (line_of adr)) (select_cache 1 s))))"

text \<open>The body of this loop uses the start of the range and not the loop variable.\<close>

definition Xil_ICacheInvalidateRange :: "u64 \<Rightarrow> u64 \<Rightarrow> cpu \<Rightarrow> cpu option" where
  "Xil_ICacheInvalidateRange adr len s =
     (let currmask = DAIF s; s = mtcpsr (currmask OR IRQ_FIQ_MASK) s
      in case (if len \<noteq> 0 then
                 range_loop (\<lambda>_. emit (IC_IVAU (line_of adr))) (adr AND NOT (cacheline - 1)) (adr + len) (select_cache 1 s)
               else Some s) of
           None \<Rightarrow> None
         | Some s \<Rightarrow> Some (mtcpsr currmask (emit DSB s)))"

definition L1_DATA_PREFETCH_CONTROL_MASK :: u64 where "L1_DATA_PREFETCH_CONTROL_MASK = 0xE000"
definition L1_DATA_PREFETCH_CONTROL_SHIFT :: nat where "L1_DATA_PREFETCH_CONTROL_SHIFT = 13"

definition Xil_ConfigureL1Prefetch :: "u8 \<Rightarrow> cpu \<Rightarrow> cpu" where
  "Xil_ConfigureL1Prefetch num s =
     s\<lparr>CPUACTLR := (CPUACTLR s AND NOT L1_DATA_PREFETCH_CONTROL_MASK) OR push_bit L1_DATA_PREFETCH_CONTROL_SHIFT (ucast num)\<rparr>"

section \<open>Set and way\<close>

lemma emit_simps [simp]:
  "cache_ops (emit x s) = cache_ops s @ [x]" "DAIF (emit x s) = DAIF s" "CSSELR_EL1 (emit x s) = CSSELR_EL1 s"
  "CCSIDR_EL1 (emit x s) = CCSIDR_EL1 s"
  by (simp_all add: emit_def)

lemma cpu_reg_simps [simp]:
  "DAIF (mtcpsr v s) = v" "cache_ops (mtcpsr v s) = cache_ops s" "CSSELR_EL1 (mtcpsr v s) = CSSELR_EL1 s"
  "CCSIDR_EL1 (mtcpsr v s) = CCSIDR_EL1 s" "DAIF (select_cache v s) = DAIF s" "cache_ops (select_cache v s) = cache_ops s"
  "CSSELR_EL1 (select_cache v s) = v" "CCSIDR_EL1 (select_cache v s) = CCSIDR_EL1 s"
  by (simp_all add: mtcpsr_def select_cache_def)

lemma set_loop_ops:
  "set_loop k L lvl Way n Set s = s\<lparr>cache_ops := cache_ops s @
     map (\<lambda>i. DC k (ucast (Way OR (Set + of_nat i * 2 ^ unat L) OR lvl))) [0..<n]\<rparr>"
proof (induction n arbitrary: Set s)
  case (Suc n)
  have "[0..<Suc n] = 0 # map Suc [0..<n]"
    by (simp add: map_Suc_upt upt_conv_Cons del: upt_Suc)
  with Suc show ?case
    by (simp add: emit_def algebra_simps comp_def push_bit_eq_mult del: upt_Suc)
qed simp

lemma way_loop_ops:
  "way_loop k L lvl NSet A n Way s = s\<lparr>cache_ops := cache_ops s @
     concat (map (\<lambda>w. map (\<lambda>i. DC k (ucast ((Way + of_nat w * 2 ^ unat A) OR of_nat i * 2 ^ unat L OR lvl))) [0..<unat NSet]) [0..<n])\<rparr>"
proof (induction n arbitrary: Way s)
  case (Suc n)
  have "[0..<Suc n] = 0 # map Suc [0..<n]"
    by (simp add: map_Suc_upt upt_conv_Cons del: upt_Suc)
  with Suc show ?case
    by (simp add: set_loop_ops algebra_simps comp_def push_bit_eq_mult del: upt_Suc)
qed simp

text \<open>The operands of the architecture: way in the upper bits, set above the line offset, level at bit 1.\<close>

definition setway :: "nat \<Rightarrow> nat \<Rightarrow> nat \<Rightarrow> nat \<times> nat \<Rightarrow> nat" where
  "setway a L lvl = (\<lambda>(w, i). w * 2 ^ (32 - a) + i * 2 ^ L + 2 * lvl)"

definition setway_ops :: "dc_op \<Rightarrow> nat \<Rightarrow> nat \<Rightarrow> nat \<Rightarrow> nat \<Rightarrow> cache_op list" where
  "setway_ops k a L n lvl = map (\<lambda>x. DC k (of_nat (setway a L lvl x))) (List.product [0..<2 ^ a] [0..<n])"

lemma clz_power:
  assumes "a < 32"
  shows "clz (2 ^ a) = of_nat (63 - a)"
proof -
  have b: "bit (ucast (2 ^ a :: u32) :: u64) i \<longleftrightarrow> i = a" for i
    using assms by (auto simp: bit_simps)
  have "[0..<64] = [0..<a] @ a # [Suc a..<64]"
    using assms upt_add_eq_append [of 0 a "64 - a"] by (simp add: upt_conv_Cons)
  then have "rev [0..<64] = rev [Suc a..<64] @ a # rev [0..<a]"
    by simp
  moreover have "takeWhile (\<lambda>i. i \<noteq> a) (rev [Suc a..<64] @ a # rev [0..<a]) = rev [Suc a..<64]"
    by (subst takeWhile_append2) auto
  ultimately show ?thesis
    by (simp add: clz_def b)
qed

lemma disjoint_low: "y < 2 ^ m \<Longrightarrow> push_bit m x AND (of_nat y :: u32) = 0"
proof (rule bit_eqI)
  fix n
  assume "y < 2 ^ m"
  then have "bit y n \<Longrightarrow> n < m"
    by (metis bit_take_bit_iff take_bit_nat_eq_self)
  then show "bit (push_bit m x AND of_nat y :: u32) n \<longleftrightarrow> bit (0 :: u32) n"
    by (auto simp: bit_simps)
qed

lemma setway_word:
  assumes "i * 2 ^ L + 2 * lvl < 2 ^ (32 - a)" "2 * lvl < 2 ^ L"
  shows "of_nat w * 2 ^ (32 - a) OR of_nat i * 2 ^ L OR of_nat (2 * lvl) = (of_nat (setway a L lvl (w, i)) :: u32)"
proof -
  have "of_nat i * 2 ^ L OR of_nat (2 * lvl) = (of_nat (i * 2 ^ L + 2 * lvl) :: u32)"
    using disjunctive_add_eq_or [OF disjoint_low [OF assms(2), of "of_nat i"]] by (simp add: push_bit_eq_mult)
  then show ?thesis
    using disjunctive_add_eq_or [OF disjoint_low [OF assms(1), of "of_nat w"]]
    by (simp add: setway_def push_bit_eq_mult or.assoc add.assoc)
qed

lemma low_bound:
  fixes n :: nat
  assumes "i < n" "n * 2 ^ L \<le> 2 ^ m" "y < 2 ^ L"
  shows "i * 2 ^ L + y < 2 ^ m"
proof -
  have "i * 2 ^ L + y < Suc i * 2 ^ L"
    using assms(3) by simp
  also have "\<dots> \<le> n * 2 ^ L"
    using assms(1) by (intro mult_le_mono1) simp
  finally show ?thesis
    using assms(2) by simp
qed

lemma setway_bound:
  assumes "w < 2 ^ a" "a \<le> 32" "i * 2 ^ L + 2 * lvl < 2 ^ (32 - a)"
  shows "setway a L lvl (w, i) < 2 ^ 32"
proof -
  have "w * 2 ^ (32 - a) + (i * 2 ^ L + 2 * lvl) < 2 ^ a * 2 ^ (32 - a)"
    using low_bound [of w "2 ^ a" "32 - a" 32 "i * 2 ^ L + 2 * lvl"] assms by (simp add: power_add [symmetric])
  then show ?thesis
    using assms(2) by (simp add: setway_def add.assoc power_add [symmetric])
qed

lemma LineSize_ge: "4 \<le> unat (LineSize c)"
proof -
  have "c AND 7 \<le> 7"
    by (rule word_and_le1)
  then have "unat (c AND 7) \<le> 7"
    by (simp add: word_le_nat_alt)
  then show ?thesis
    by (simp add: LineSize_def unat_word_ariths)
qed

lemma WayAdjust_ways:
  assumes "unat (NumWays c) = 2 ^ a"
  shows "a < 32" "unat (WayAdjust c) = 32 - a"
proof -
  have "2 ^ a < (2 :: nat) ^ 32"
    using assms unsigned_less [where ?'a = nat, of "NumWays c"] by simp
  then show a: "a < 32"
    by (simp only: power_strict_increasing_iff)
  have "NumWays c = of_nat (unat (NumWays c))"
    by simp
  then have n: "NumWays c = 2 ^ a"
    unfolding assms by simp
  have "take_bit 8 (63 - a) = 63 - a"
    by (rule take_bit_nat_eq_self) simp
  then have "ucast (of_nat (63 - a) :: u8) = (of_nat (63 - a) :: u32)"
    by (simp add: unsigned_of_nat)
  moreover have "63 - a = 32 - a + 31"
    using a by simp
  ultimately have "ucast (of_nat (63 - a) :: u8) = (of_nat (32 - a) + 31 :: u32)"
    by (metis of_nat_add of_nat_numeral)
  then have "WayAdjust c = of_nat (32 - a)"
    unfolding WayAdjust_def n clz_power [OF a] by simp
  then show "unat (WayAdjust c) = 32 - a"
    by (simp add: unsigned_of_nat take_bit_nat_eq_self)
qed

lemma maintain_level_ops:
  assumes "c = ucast (CCSIDR_EL1 s (of_nat (2 * lvl)))" "unat (NumWays c) = 2 ^ a"
    and fits: "unat (NumSet c) * 2 ^ unat (LineSize c) \<le> 2 ^ (32 - a)" and lvl: "lvl \<le> 1"
  shows "maintain_level k (of_nat (2 * lvl)) s = s\<lparr>CSSELR_EL1 := of_nat (2 * lvl),
    cache_ops := cache_ops s @ ISB # setway_ops k a (unat (LineSize c)) (unat (NumSet c)) lvl @ [DSB]\<rparr>"
proof -
  let ?L = "unat (LineSize c)"
  have "(2 :: nat) ^ 4 \<le> 2 ^ ?L"
    using LineSize_ge [of c] by (intro power_increasing) simp_all
  then have l: "2 * lvl < 2 ^ ?L"
    using lvl by simp
  have op: "ucast (of_nat w * 2 ^ (32 - a) OR of_nat i * 2 ^ ?L OR of_nat (2 * lvl) :: u32) = (of_nat (setway a ?L lvl (w, i)) :: u64)"
    if "w < 2 ^ a" "i < unat (NumSet c)" for w i
  proof -
    have b: "i * 2 ^ ?L + 2 * lvl < 2 ^ (32 - a)"
      by (rule low_bound [OF that(2) fits l])
    show ?thesis
      unfolding setway_word [OF b l] using setway_bound [OF that(1) _ b] WayAdjust_ways(1) [OF assms(2)]
      by (simp add: unsigned_of_nat take_bit_nat_eq_self)
  qed
  have "concat (map (\<lambda>w. map (\<lambda>i. DC k (ucast (of_nat w * 2 ^ (32 - a) OR of_nat i * 2 ^ ?L OR of_nat (2 * lvl) :: u32))) [0..<unat (NumSet c)]) [0..<2 ^ a]) =
      setway_ops k a ?L (unat (NumSet c)) lvl"
    unfolding setway_ops_def product_concat_map map_concat map_map by (auto simp: op simp del: of_nat_mult intro!: arg_cong [of _ _ concat])
  then show ?thesis
    using assms(1,2) WayAdjust_ways(2) [OF assms(2)]
    by (simp add: maintain_level_def Let_def way_loop_ops emit_def select_cache_def)
qed

lemma setway_ops_distinct:
  assumes "n * 2 ^ L \<le> 2 ^ (32 - a)" "2 * lvl < 2 ^ L" "a \<le> 32"
  shows "distinct (setway_ops k a L n lvl)"
proof -
  have "inj_on (\<lambda>x. DC k (of_nat (setway a L lvl x))) (set (List.product [0..<2 ^ a] [0..<n]))"
  proof (rule inj_onI, clarsimp)
    fix w i v j
    assume w: "w < 2 ^ a" "i < n" "v < 2 ^ a" "j < n" and eq: "(of_nat (setway a L lvl (w, i)) :: u64) = of_nat (setway a L lvl (v, j))"
    have b: "i * 2 ^ L + 2 * lvl < 2 ^ (32 - a)" "j * 2 ^ L + 2 * lvl < 2 ^ (32 - a)"
      using low_bound [OF _ assms(1,2)] w by auto
    have "setway a L lvl (w, i) = setway a L lvl (v, j)"
      using arg_cong [OF eq, of unat] setway_bound [OF w(1) assms(3) b(1)] setway_bound [OF w(3) assms(3) b(2)]
      by (simp add: unsigned_of_nat take_bit_nat_eq_self)
    then have e: "w * 2 ^ (32 - a) + (i * 2 ^ L + 2 * lvl) = v * 2 ^ (32 - a) + (j * 2 ^ L + 2 * lvl)"
      by (simp add: setway_def)
    have "w = (w * 2 ^ (32 - a) + (i * 2 ^ L + 2 * lvl)) div 2 ^ (32 - a)"
      using b(1) by simp
    also have "\<dots> = v"
      unfolding e using b(2) by simp
    finally have "w = v" .
    with e show "w = v \<and> i = j"
      by simp
  qed
  then show ?thesis
    by (simp add: setway_ops_def distinct_map distinct_product)
qed

lemma maintain_all_ops:
  assumes "c0 = ucast (CCSIDR_EL1 s 0)" "unat (NumWays c0) = 2 ^ a" "unat (NumSet c0) * 2 ^ unat (LineSize c0) \<le> 2 ^ (32 - a)"
    and "c1 = ucast (CCSIDR_EL1 s 2)" "unat (NumWays c1) = 2 ^ b" "unat (NumSet c1) * 2 ^ unat (LineSize c1) \<le> 2 ^ (32 - b)"
  shows "maintain_all k s = s\<lparr>CSSELR_EL1 := 2, cache_ops := cache_ops s @
    ISB # setway_ops k a (unat (LineSize c0)) (unat (NumSet c0)) 0 @ DSB #
    ISB # setway_ops k b (unat (LineSize c1)) (unat (NumSet c1)) 1 @ [DSB]\<rparr>"
  using maintain_level_ops [of c0 s 0 a k] assms maintain_level_ops [of c1 "maintain_level k 0 s" 1 b k]
  by (simp add: maintain_all_def)

text \<open>Flushing the data cache cleans and invalidates, at both levels, every line of every way exactly once
  with the operand the architecture prescribes, for caches with a power of two of ways that fit the
  operand, waits for each level, and restores the interrupt mask.\<close>

theorem flush_all_lines:
  assumes "c0 = ucast (CCSIDR_EL1 s 0)" "unat (NumWays c0) = 2 ^ a" "unat (NumSet c0) * 2 ^ unat (LineSize c0) \<le> 2 ^ (32 - a)"
    and "c1 = ucast (CCSIDR_EL1 s 2)" "unat (NumWays c1) = 2 ^ b" "unat (NumSet c1) * 2 ^ unat (LineSize c1) \<le> 2 ^ (32 - b)"
  shows "Xil_DCacheFlush s = s\<lparr>CSSELR_EL1 := 2, cache_ops := cache_ops s @
      ISB # setway_ops CISW a (unat (LineSize c0)) (unat (NumSet c0)) 0 @ DSB #
      ISB # setway_ops CISW b (unat (LineSize c1)) (unat (NumSet c1)) 1 @ [DSB]\<rparr> \<and>
    distinct (setway_ops CISW a (unat (LineSize c0)) (unat (NumSet c0)) 0) \<and>
    distinct (setway_ops CISW b (unat (LineSize c1)) (unat (NumSet c1)) 1)"
proof -
  let ?s = "mtcpsr (DAIF s OR IRQ_FIQ_MASK) s"
  have "2 * lvl < (2 :: nat) ^ unat (LineSize c)" if "lvl \<le> 1" for lvl c
  proof -
    have "(2 :: nat) ^ 4 \<le> 2 ^ unat (LineSize c)"
      using LineSize_ge [of c] by (intro power_increasing) simp_all
    then show ?thesis
      using that by simp
  qed
  from this [of 0] this [of 1] show ?thesis
    using maintain_all_ops [of c0 ?s a c1 b CISW] assms WayAdjust_ways(1) [OF assms(2)] WayAdjust_ways(1) [OF assms(5)]
    by (simp add: Xil_DCacheFlush_def setway_ops_distinct) (simp add: mtcpsr_def)
qed

definition demo_cpu :: cpu where
  "demo_cpu = \<lparr>DAIF = 0, CSSELR_EL1 = 0, CCSIDR_EL1 = (\<lambda>c. if c = 0 then 0x700FE01A else 0x707FE07A),
     SCTLR_EL3 = 0, CPUACTLR = 0, cache_ops = []\<rparr>"

lemma demo_geometry:
  "NumWays 0x700FE01A = 4" "NumSet 0x700FE01A = 128" "LineSize 0x700FE01A = 6"
  "NumWays 0x707FE07A = 16" "NumSet 0x707FE07A = 1024" "LineSize 0x707FE07A = 6"
  by (simp_all add: NumWays_def NumSet_def LineSize_def)

theorem flush_all_lines_witness:
  "Xil_DCacheFlush demo_cpu = demo_cpu\<lparr>CSSELR_EL1 := 2, cache_ops :=
      ISB # setway_ops CISW 2 6 128 0 @ DSB # ISB # setway_ops CISW 4 6 1024 1 @ [DSB]\<rparr> \<and>
    distinct (setway_ops CISW 2 6 128 0) \<and> distinct (setway_ops CISW 4 6 1024 1)"
  using flush_all_lines [of "0x700FE01A" demo_cpu 2 "0x707FE07A" 4] demo_geometry by (simp add: demo_cpu_def)

section \<open>Ranges\<close>

lemma line_of_nat: "line_of b = of_nat (64 * (unat b div 64))"
proof -
  have "(0x3F :: u64) = mask 6"
    by (simp add: mask_eq_exp_minus_1)
  then have "line_of b = b AND NOT (mask 6)"
    by (simp add: line_of_def)
  also have "\<dots> = push_bit 6 (drop_bit 6 b)"
    by (rule bit_eqI) (auto simp: bit_simps)
  also have "\<dots> = of_nat (64 * (unat b div 64))"
  proof -
    have "drop_bit 6 b = of_nat (unat (drop_bit 6 b))"
      by simp
    also have "unat (drop_bit 6 b) = unat b div 2 ^ 6"
      by (simp only: unat_drop_bit_eq) (simp only: drop_bit_eq_div)
    finally show ?thesis
      by (simp add: push_bit_eq_mult)
  qed
  finally show ?thesis .
qed

lemma range_loop_lines:
  assumes "unat end \<le> 2 ^ 64 - 64"
  shows "64 * i < 2 ^ 64 \<Longrightarrow>
    range_loop act (of_nat (64 * i)) end s = Some (fold (\<lambda>j. act (of_nat (64 * j))) [i..<(unat end + 63) div 64] s)"
proof (induction "(unat end + 63) div 64 - i" arbitrary: i s)
  case 0
  then have "unat end \<le> 64 * i" "64 * i < 2 ^ 64" "[i..<(unat end + 63) div 64] = []"
    using assms by auto
  then show ?case
    by (subst range_loop.simps) (simp add: word_less_nat_alt unsigned_of_nat take_bit_nat_eq_self del: of_nat_mult)
next
  case (Suc n)
  then have "64 * i < unat end" "64 * i < 2 ^ 64"
    using assms by auto
  then have lt: "(of_nat (64 * i) :: u64) < end"
    by (simp add: word_less_nat_alt unsigned_of_nat take_bit_nat_eq_self del: of_nat_mult)
  have next_lt: "64 * Suc i < 2 ^ 64" "n = (unat end + 63) div 64 - Suc i"
    using \<open>64 * i < unat end\<close> assms Suc.hyps(2) by simp_all
  have step: "of_nat (64 * i) + cacheline = (of_nat (64 * Suc i) :: u64)"
    by (simp add: cacheline_def)
  have "[i..<(unat end + 63) div 64] = i # [Suc i..<(unat end + 63) div 64]"
    using Suc.hyps(2) by (intro upt_conv_Cons) linarith
  then show ?case
    using Suc.hyps(1) [of "Suc i" "act (of_nat (64 * i)) s"] Suc.hyps(2) lt next_lt
    by (subst range_loop.simps) (simp add: step del: of_nat_mult upt.simps)
qed

text \<open>The lines that meet a range.\<close>

lemma lines_of_range:
  assumes "len \<noteq> 0" "unat adr + unat len \<le> 2 ^ 64 - 64"
  shows "(\<lambda>j. of_nat (64 * j) :: u64) ` {unat adr div 64..<(unat (adr + len) + 63) div 64} = line_of ` {adr..<adr + len}"
proof -
  have e: "unat (adr + len) = unat adr + unat len"
    using assms(2) by (intro unat_add_lem [THEN iffD1]) simp
  show ?thesis
  proof (intro equalityI subsetI)
    fix l
    assume "l \<in> (\<lambda>j. of_nat (64 * j) :: u64) ` {unat adr div 64..<(unat (adr + len) + 63) div 64}"
    then obtain j where j: "l = of_nat (64 * j)" "unat adr div 64 \<le> j" "64 * j < unat (adr + len)"
      by auto
    let ?b = "of_nat (max (unat adr) (64 * j)) :: u64"
    have "max (unat adr) (64 * j) < 2 ^ 64"
      using j(3) e assms(2) by simp
    then have b: "unat ?b = max (unat adr) (64 * j)"
      by (simp add: unsigned_of_nat take_bit_nat_eq_self)
    have "max (unat adr) (64 * j) div 64 = j"
      using j(2) by (auto simp: max_def)
    then have "l = line_of ?b"
      unfolding line_of_nat b j(1) by simp
    moreover have "?b \<in> {adr..<adr + len}"
      using j(3) assms(1) e unat_gt_0 [of len] unfolding atLeastLessThan_iff word_le_nat_alt word_less_nat_alt b by simp
    ultimately show "l \<in> line_of ` {adr..<adr + len}"
      by blast
  next
    fix l
    assume "l \<in> line_of ` {adr..<adr + len}"
    then obtain b where b: "l = line_of b" "unat adr \<le> unat b" "unat b < unat (adr + len)"
      by (auto simp: word_le_nat_alt word_less_nat_alt)
    then have "unat b div 64 \<in> {unat adr div 64..<(unat (adr + len) + 63) div 64}"
      by (auto intro: div_le_mono)
    with b(1) show "l \<in> (\<lambda>j. of_nat (64 * j) :: u64) ` {unat adr div 64..<(unat (adr + len) + 63) div 64}"
      unfolding line_of_nat by blast
  qed
qed

text \<open>
  \<open>did s X s'\<close>: from \<open>s\<close> to \<open>s'\<close> exactly the data cache operations in \<open>X\<close> were executed, and the interrupt
  mask is the same.
\<close>

definition did :: "cpu \<Rightarrow> (dc_op \<times> u64) set \<Rightarrow> cpu \<Rightarrow> bool" where
  "did s X s' \<longleftrightarrow> DAIF s' = DAIF s \<and> (\<exists>os. cache_ops s' = cache_ops s @ os \<and> {(k, l). DC k l \<in> set os} = X)"

lemma did_refl: "did s {} s"
  by (simp add: did_def)

lemma did_trans: "did s X s' \<Longrightarrow> did s' Y s'' \<Longrightarrow> did s (X \<union> Y) s''"
  unfolding did_def by (auto simp: Un_def)

lemma did_emit: "did s {(k, l)} (emit (DC k l) s)" "did s {} (emit DSB s)" "did s {} (select_cache v s)"
  by (auto simp: did_def)

lemma did_masked: "did (mtcpsr v s) X s' \<Longrightarrow> did s X (mtcpsr (DAIF s) s')"
  by (simp add: did_def)

lemma did_two_levels: "did s {(k0, line_of a), (k1, line_of a)} (two_levels k0 k1 a s)"
  by (auto simp: did_def two_levels_def)

lemma did_fold:
  assumes "\<And>j s. j \<in> set js \<Longrightarrow> did s (F j) (act j s)"
  shows "did s (\<Union>j\<in>set js. F j) (fold act js s)"
  using assms
proof (induction js arbitrary: s)
  case (Cons j js)
  from did_trans [OF Cons.prems [of j] Cons.IH [of "act j s"]] Cons.prems show ?case
    by simp
qed (simp add: did_refl)

lemma did_FlushLine: "did s {(CIVAC, line_of a)} (Xil_DCacheFlushLine a s)"
  using did_masked [OF did_two_levels, of s CIVAC a CIVAC "DAIF s OR IRQ_FIQ_MASK"] by (simp add: Xil_DCacheFlushLine_def Let_def)

lemma line_of_line: "64 * i < 2 ^ 64 \<Longrightarrow> line_of (of_nat (64 * i)) = of_nat (64 * i)"
  by (simp add: line_of_nat unsigned_of_nat take_bit_nat_eq_self del: of_nat_mult)

lemma InvalidateRange_did:
  assumes "unat adr + unat len \<le> 2 ^ 64 - 64"
  shows "\<exists>s'. Xil_DCacheInvalidateRange adr len s = Some s' \<and> did s ({CIVAC} \<times> line_of ` {adr..<adr + len}) s' \<and> last (cache_ops s') = DSB"
proof (cases "len = 0")
  case True
  then show ?thesis
    using did_masked [OF did_emit(2)] by (simp add: Xil_DCacheInvalidateRange_def Let_def)
next
  case False
  let ?s = "mtcpsr (DAIF s OR IRQ_FIQ_MASK) s"
  let ?js = "[unat adr div 64..<(unat (adr + len) + 63) div 64]"
  let ?t = "fold (\<lambda>j. emit (DC CIVAC (of_nat (64 * j)))) ?js ?s"
  have "unat (adr + len) \<le> 2 ^ 64 - 64"
    using assms by (simp add: unat_plus_if')
  moreover have "64 * (unat adr div 64) < 2 ^ 64"
    using assms by simp
  ultimately have r: "range_loop (\<lambda>a. emit (DC CIVAC a)) (line_of adr) (adr + len) ?s = Some ?t"
    using range_loop_lines [of "adr + len" "unat adr div 64" "\<lambda>a. emit (DC CIVAC a)" ?s] by (simp only: line_of_nat)
  have "did ?s (\<Union>j\<in>set ?js. {(CIVAC, of_nat (64 * j))}) ?t"
    by (rule did_fold) (rule did_emit)
  moreover have "(\<Union>j\<in>set ?js. {(CIVAC, of_nat (64 * j))}) = {CIVAC} \<times> line_of ` {adr..<adr + len}"
    unfolding lines_of_range [OF False assms, symmetric] by (auto simp del: of_nat_mult)
  ultimately have "did ?s ({CIVAC} \<times> line_of ` {adr..<adr + len}) (emit DSB ?t)"
    using did_trans [OF _ did_emit(2)] by fastforce
  from did_masked [OF this] show ?thesis
    using False r by (simp add: Xil_DCacheInvalidateRange_def Let_def)
qed

lemma low_bits: "adr AND (cacheline - 1) \<noteq> 0 \<longleftrightarrow> unat adr mod 64 \<noteq> 0"
proof -
  have "cacheline - 1 = mask 6"
    by (simp add: cacheline_def mask_eq_exp_minus_1)
  then have "adr AND (cacheline - 1) = take_bit 6 adr"
    by (simp only: take_bit_eq_mask)
  moreover have "unat (take_bit 6 adr) = unat adr mod 2 ^ 6"
    by (simp only: unsigned_take_bit_eq) (simp only: take_bit_eq_mod)
  ultimately show ?thesis
    by (simp add: unat_eq_0 [symmetric] del: unat_eq_0)
qed

lemma line_up: "(x + 63) div 64 = (if x mod 64 \<noteq> 0 then Suc (x div 64) else x div 64)" for x :: nat
proof -
  have "(64 * q + r + 63) div 64 = (if r \<noteq> 0 then Suc q else q)" if "r < 64" for q r :: nat
    using that by (cases "r = 0") (auto intro: div_nat_eqI)
  from this [of "x mod 64" "x div 64"] show ?thesis
    by simp
qed

lemma line_index_split:
  fixes a e :: nat
  assumes "a < e"
  shows "{a div 64..<(e + 63) div 64} = (if a mod 64 \<noteq> 0 then {a div 64} else {}) \<union>
    (if e mod 64 \<noteq> 0 then {e div 64} else {}) \<union> {(a + 63) div 64..<e div 64}"
proof -
  have "a div 64 \<le> e div 64"
    using assms by (intro div_le_mono) simp
  moreover have "a div 64 < e div 64" if "e mod 64 = 0"
  proof -
    have "a < e div 64 * 64"
      using that assms by (simp add: mod_0_imp_dvd)
    then show ?thesis
      by (rule less_mult_imp_div_less)
  qed
  ultimately show ?thesis
    unfolding line_up by auto
qed

definition nth_line :: "nat \<Rightarrow> u64" where
  "nth_line j = of_nat (64 * j)"

lemma line_masks: "adr AND NOT (cacheline - 1) = nth_line (unat adr div 64)" "nth_line j + cacheline = nth_line (Suc j)"
  "unat adr mod 64 = 0 \<Longrightarrow> adr = nth_line (unat adr div 64)"
proof -
  show "adr AND NOT (cacheline - 1) = nth_line (unat adr div 64)"
    using line_of_nat [of adr] by (simp add: line_of_def cacheline_def nth_line_def)
  show "nth_line j + cacheline = nth_line (Suc j)"
    by (simp add: nth_line_def cacheline_def)
  assume "unat adr mod 64 = 0"
  then have "64 * (unat adr div 64) = unat adr"
    by (simp add: mod_0_imp_dvd)
  then show "adr = nth_line (unat adr div 64)"
    by (simp only: nth_line_def) simp
qed

lemma line_of_nth: "64 * j < 2 ^ 64 \<Longrightarrow> line_of (nth_line j) = nth_line j"
  by (simp only: nth_line_def line_of_line)

text \<open>The partial lines at the two ends.\<close>

lemma alt_ends:
  "\<exists>s'. (if adr AND (cacheline - 1) \<noteq> 0
      then (let tempadr = adr AND NOT (cacheline - 1) in (tempadr + cacheline, Xil_DCacheFlushLine tempadr s)) else (adr, s)) =
      (nth_line ((unat adr + 63) div 64), s') \<and>
    did s ({CIVAC} \<times> nth_line ` (if unat adr mod 64 \<noteq> 0 then {unat adr div 64} else {})) s'"
  "\<exists>s'. (if adr AND (cacheline - 1) \<noteq> 0
      then (let tempend = adr AND NOT (cacheline - 1) in (tempend, Xil_DCacheFlushLine tempend s)) else (adr, s)) =
      (nth_line (unat adr div 64), s') \<and>
    did s ({CIVAC} \<times> nth_line ` (if unat adr mod 64 \<noteq> 0 then {unat adr div 64} else {})) s'"
proof -
  have "unat adr < 2 ^ 64"
    using unsigned_less [where ?'a = nat, of adr] by simp
  then have l: "line_of (nth_line (unat adr div 64)) = nth_line (unat adr div 64)"
    by (intro line_of_nth) simp
  show "\<exists>s'. (if adr AND (cacheline - 1) \<noteq> 0
      then (let tempadr = adr AND NOT (cacheline - 1) in (tempadr + cacheline, Xil_DCacheFlushLine tempadr s)) else (adr, s)) =
      (nth_line ((unat adr + 63) div 64), s') \<and>
    did s ({CIVAC} \<times> nth_line ` (if unat adr mod 64 \<noteq> 0 then {unat adr div 64} else {})) s'"
    unfolding low_bits line_up using did_FlushLine [of s "nth_line (unat adr div 64)"] line_masks(3) [of adr]
    by (simp add: Let_def line_masks(1,2) l did_refl)
  show "\<exists>s'. (if adr AND (cacheline - 1) \<noteq> 0
      then (let tempend = adr AND NOT (cacheline - 1) in (tempend, Xil_DCacheFlushLine tempend s)) else (adr, s)) =
      (nth_line (unat adr div 64), s') \<and>
    did s ({CIVAC} \<times> nth_line ` (if unat adr mod 64 \<noteq> 0 then {unat adr div 64} else {})) s'"
    unfolding low_bits using did_FlushLine [of s "nth_line (unat adr div 64)"] line_masks(3) [of adr]
    by (simp add: Let_def line_masks(1,2) l did_refl)
qed

lemma alt_loop:
  assumes "64 * m \<le> 2 ^ 64 - 64" "64 * i < 2 ^ 64"
  shows "\<exists>s'. range_loop (two_levels k k) (nth_line i) (nth_line m) s = Some s' \<and> did s ({k} \<times> nth_line ` {i..<m}) s'"
proof -
  have u: "unat (nth_line m) = 64 * m"
    using assms(1) by (simp add: nth_line_def unsigned_of_nat take_bit_nat_eq_self del: of_nat_mult)
  have "(64 * m + 63) div 64 = m"
    by (rule div_nat_eqI) simp_all
  then have r: "range_loop (two_levels k k) (nth_line i) (nth_line m) s = Some (fold (\<lambda>j. two_levels k k (nth_line j)) [i..<m] s)"
    using range_loop_lines [of "nth_line m" i "two_levels k k" s] assms u by (simp add: nth_line_def [symmetric] del: of_nat_mult)
  have "did s (\<Union>j\<in>set [i..<m]. {(k, nth_line j)}) (fold (\<lambda>j. two_levels k k (nth_line j)) [i..<m] s)"
  proof (rule did_fold)
    fix j t
    assume "j \<in> set [i..<m]"
    with assms(1) have "64 * j < 2 ^ 64"
      by simp
    then show "did t {(k, nth_line j)} (two_levels k k (nth_line j) t)"
      using did_two_levels [of t k "nth_line j" k] by (simp add: line_of_nth)
  qed
  moreover have "(\<Union>j\<in>set [i..<m]. {(k, nth_line j)}) = {k} \<times> nth_line ` {i..<m}"
    by auto
  ultimately show ?thesis
    using r by simp
qed

lemma alt_range_did:
  assumes "len \<noteq> 0" "unat adr + unat len \<le> 2 ^ 64 - 64"
  shows "\<exists>s'. alt_range k adr len s = Some s' \<and>
    did s ({CIVAC} \<times> nth_line ` ((if unat adr mod 64 \<noteq> 0 then {unat adr div 64} else {}) \<union>
        (if unat (adr + len) mod 64 \<noteq> 0 then {unat (adr + len) div 64} else {})) \<union>
      {k} \<times> nth_line ` {(unat adr + 63) div 64..<unat (adr + len) div 64}) s'"
proof -
  have e: "unat (adr + len) = unat adr + unat len"
    using assms(2) by (intro unat_add_lem [THEN iffD1]) simp
  obtain s1 where h: "(if adr AND (cacheline - 1) \<noteq> 0
      then (let tempadr = adr AND NOT (cacheline - 1) in (tempadr + cacheline, Xil_DCacheFlushLine tempadr (mtcpsr (DAIF s OR IRQ_FIQ_MASK) s)))
      else (adr, mtcpsr (DAIF s OR IRQ_FIQ_MASK) s)) = (nth_line ((unat adr + 63) div 64), s1)"
    "did (mtcpsr (DAIF s OR IRQ_FIQ_MASK) s) ({CIVAC} \<times> nth_line ` (if unat adr mod 64 \<noteq> 0 then {unat adr div 64} else {})) s1"
    using alt_ends(1) by blast
  obtain s2 where t: "(if (adr + len) AND (cacheline - 1) \<noteq> 0
      then (let tempend = (adr + len) AND NOT (cacheline - 1) in (tempend, Xil_DCacheFlushLine tempend s1)) else (adr + len, s1)) =
      (nth_line (unat (adr + len) div 64), s2)"
    "did s1 ({CIVAC} \<times> nth_line ` (if unat (adr + len) mod 64 \<noteq> 0 then {unat (adr + len) div 64} else {})) s2"
    using alt_ends(2) by blast
  have "64 * (unat (adr + len) div 64) \<le> 2 ^ 64 - 64" "64 * ((unat adr + 63) div 64) < 2 ^ 64"
    using assms(2) unfolding e by (simp_all add: div_le_mono)
  then obtain s3 where l: "range_loop (two_levels k k) (nth_line ((unat adr + 63) div 64)) (nth_line (unat (adr + len) div 64)) s2 = Some s3"
    "did s2 ({k} \<times> nth_line ` {(unat adr + 63) div 64..<unat (adr + len) div 64}) s3"
    using alt_loop by blast
  have "alt_range k adr len s = Some (mtcpsr (DAIF s) s3)"
    using assms(1) h(1) t(1) l(1) by (simp only: alt_range_def Let_def if_True if_False not_False_eq_True simp_thms prod.case option.case)
  moreover note did_masked [OF did_trans [OF did_trans [OF h(2) t(2)] l(2)]]
  ultimately show ?thesis
    by (simp only: image_Un Sigma_Un_distrib2 Sigma_Un_distrib1) (auto simp: Un_assoc)
qed

lemma alt_flush_did:
  assumes "unat adr + unat len \<le> 2 ^ 64 - 64"
  shows "\<exists>s'. alt_DCacheFlushRange adr len s = Some s' \<and> did s ({CIVAC} \<times> line_of ` {adr..<adr + len}) s'"
proof (cases "len = 0")
  case True
  then show ?thesis
    using did_masked [OF did_refl] by (simp add: alt_DCacheFlushRange_def alt_range_def Let_def)
next
  case False
  have "unat adr < unat (adr + len)"
    using assms False unat_gt_0 [of len] by (simp add: unat_plus_if')
  from line_index_split [OF this] lines_of_range [OF False assms] alt_range_did [OF False assms, of CIVAC s] show ?thesis
    by (simp only: alt_DCacheFlushRange_def nth_line_def [symmetric] image_Un [symmetric] Sigma_Un_distrib2 [symmetric])
qed

text \<open>C22: Flushing an address range that ends at least a line below the top of the address space returns and cleans
  and invalidates exactly the cache lines that hold a byte of the range, and restores the interrupt mask. The alternative form, which treats the partial lines at
  both ends apart, does the same to the same lines.\<close>

theorem flush_range_lines:
  assumes "unat adr + unat len \<le> 2 ^ 64 - 64"
  shows "\<exists>s1 s2. Xil_DCacheFlushRange adr len s = Some s1 \<and> alt_DCacheFlushRange adr len s = Some s2 \<and>
    did s ({CIVAC} \<times> line_of ` {adr..<adr + len}) s1 \<and> did s ({CIVAC} \<times> line_of ` {adr..<adr + len}) s2"
  using InvalidateRange_did [OF assms, of s] alt_flush_did [OF assms, of s] by (auto simp: Xil_DCacheFlushRange_def)

theorem flush_range_lines_witness:
  "\<exists>s1 s2. Xil_DCacheFlushRange 0x1010 200 demo_cpu = Some s1 \<and> alt_DCacheFlushRange 0x1010 200 demo_cpu = Some s2 \<and>
    did demo_cpu ({CIVAC} \<times> line_of ` {0x1010..<0x10D8}) s1 \<and> did demo_cpu ({CIVAC} \<times> line_of ` {0x1010..<0x10D8}) s2"
  using flush_range_lines [of "0x1010" 200 demo_cpu] by simp

section \<open>Where the ranges go wrong\<close>

text \<open>Close to the end of the address space the address wraps around before it reaches the end.\<close>

definition unending :: "u64 \<Rightarrow> u64 \<Rightarrow> bool" where
  "unending adr e \<longleftrightarrow> 2 ^ 64 - 64 < unat e \<and> (\<exists>i. adr = nth_line i)"

lemma unending_step: "unending adr e \<Longrightarrow> adr < e \<and> unending (adr + cacheline) e"
proof
  assume u: "unending adr e"
  then obtain i where e: "2 ^ 64 - 64 < unat e" and i: "adr = nth_line i"
    by (auto simp: unending_def)
  have "unat adr = 64 * (i mod 2 ^ 58)"
    unfolding i nth_line_def unsigned_of_nat by (simp add: take_bit_eq_mod mult_mod_right)
  moreover have "i mod 2 ^ 58 < 2 ^ 58"
    by simp
  ultimately show "adr < e"
    using e by (simp add: word_less_nat_alt)
  show "unending (adr + cacheline) e"
    using e by (auto simp: unending_def i line_masks(2))
qed

lemma range_loop_returns: "range_loop act adr e s = Some r \<Longrightarrow> \<not> unending adr e"
proof (rule range_loop.raw_induct [where P = "\<lambda>act adr e s r. \<not> unending adr e"], goal_cases)
  case (1 loop act adr e s r)
  then show ?case
    using unending_step [of adr e] by (auto split: if_splits)
qed

lemma range_loop_diverges: "2 ^ 64 - 64 < unat e \<Longrightarrow> range_loop act (nth_line i) e s = None"
  using range_loop_returns [of act "nth_line i" e s] unfolding unending_def by (cases "range_loop act (nth_line i) e s") auto

text \<open>The instruction cache version invalidates its first line again and again and no other.\<close>

lemma icache_range_first_line:
  assumes "len \<noteq> 0" "unat adr + unat len \<le> 2 ^ 64 - 64"
  shows "\<exists>s'. Xil_ICacheInvalidateRange adr len s = Some s' \<and> cache_ops s' =
    cache_ops s @ replicate ((unat (adr + len) + 63) div 64 - unat adr div 64) (IC_IVAU (line_of adr)) @ [DSB]"
proof -
  have f: "fold (\<lambda>j. emit x) js t = t\<lparr>cache_ops := cache_ops t @ replicate (length js) x\<rparr>" for x js t
    by (induction js arbitrary: t) (simp_all add: emit_def)
  have "unat (adr + len) \<le> 2 ^ 64 - 64" "64 * (unat adr div 64) < 2 ^ 64"
    using assms by (simp_all add: unat_plus_if')
  from range_loop_lines [OF this, of "\<lambda>_. emit (IC_IVAU (line_of adr))"] assms(1) show ?thesis
    by (simp add: Xil_ICacheInvalidateRange_def Let_def line_masks(1) nth_line_def f del: of_nat_mult)
qed

text \<open>The line operation that should clean and invalidate only invalidates at the second level.\<close>

lemma invalidate_line_level2: "did s {(CIVAC, line_of adr), (IVAC, line_of adr)} (Xil_DCacheInvalidateLine adr s)"
  using did_masked [OF did_two_levels, of s CIVAC adr IVAC "DAIF s OR IRQ_FIQ_MASK"] by (simp add: Xil_DCacheInvalidateLine_def Let_def)

section \<open>Control register\<close>

text \<open>Enabling and disabling set and clear the control bit and keep the other bits of the lower half.\<close>

lemma maintain_level_ctrl: "SCTLR_EL3 (maintain_level k lvl s) = SCTLR_EL3 s"
  by (simp add: maintain_level_def Let_def way_loop_ops emit_def select_cache_def)

lemma bit_controls: "bit XREG_CONTROL_DCACHE_BIT n \<longleftrightarrow> n = 2" "bit (0xFFFFFFFB :: u32) n \<longleftrightarrow> n < 32 \<and> n \<noteq> 2"
proof -
  show "bit XREG_CONTROL_DCACHE_BIT n \<longleftrightarrow> n = 2"
    unfolding XREG_CONTROL_DCACHE_BIT_def bit_push_bit_iff by (auto simp: bit_1_iff)
  have "(0xFFFFFFFB :: u32) = NOT (push_bit 2 1)"
    by simp
  then show "bit (0xFFFFFFFB :: u32) n \<longleftrightarrow> n < 32 \<and> n \<noteq> 2"
    by (simp only: bit_not_iff bit_push_bit_iff) (auto simp: bit_1_iff)
qed

lemma dcache_control:
  "SCTLR_EL3 (Xil_DCacheEnable s) = (if bit (SCTLR_EL3 s) 2 then SCTLR_EL3 s else set_bit 2 (take_bit 32 (SCTLR_EL3 s)))"
  "SCTLR_EL3 (Xil_DCacheDisable s) = unset_bit 2 (take_bit 32 (SCTLR_EL3 s))"
proof -
  have b: "(ucast w :: u32) AND XREG_CONTROL_DCACHE_BIT = 0 \<longleftrightarrow> \<not> bit w 2" for w :: u64
    unfolding bit_eq_iff [of "ucast w AND XREG_CONTROL_DCACHE_BIT" "0 :: u32"] by (auto simp: bit_controls bit_simps dest: spec [of _ 2])
  show "SCTLR_EL3 (Xil_DCacheEnable s) = (if bit (SCTLR_EL3 s) 2 then SCTLR_EL3 s else set_bit 2 (take_bit 32 (SCTLR_EL3 s)))"
    by (auto simp: Xil_DCacheEnable_def Let_def b intro!: bit_word_eqI) (auto simp: bit_controls bit_simps)
  have c: "w AND 0xFFFFFFFB = unset_bit 2 w" for w :: u32
    by (rule bit_word_eqI) (auto simp: bit_controls bit_and_iff bit_unset_bit_iff simp del: bit_numeral_word_iff)
  have "ucast (unset_bit 2 (ucast w :: u32)) = unset_bit 2 (take_bit 32 w)" for w :: u64
    by (rule bit_word_eqI) (auto simp: bit_simps)
  then show "SCTLR_EL3 (Xil_DCacheDisable s) = unset_bit 2 (take_bit 32 (SCTLR_EL3 s))"
    unfolding Xil_DCacheDisable_def Let_def c by (simp add: maintain_all_def maintain_level_ctrl emit_def)
qed

text \<open>A prefetch count below eight is stored in its three bits and changes no other.\<close>

lemma prefetch_config:
  assumes "num < 8"
  shows "bit (CPUACTLR (Xil_ConfigureL1Prefetch num s)) n \<longleftrightarrow> (if n \<in> {13..15} then bit num (n - 13) else bit (CPUACTLR s) n)"
proof -
  have "take_bit 3 num = num"
    using assms by (simp add: word_unat_eq_iff unsigned_take_bit_eq word_less_nat_alt take_bit_nat_eq_self)
  then have num: "bit num i \<Longrightarrow> i < 3" for i
    by (metis bit_take_bit_iff)
  have "L1_DATA_PREFETCH_CONTROL_MASK = push_bit 13 (mask 3)"
    by (simp add: L1_DATA_PREFETCH_CONTROL_MASK_def mask_eq_exp_minus_1)
  then have "bit L1_DATA_PREFETCH_CONTROL_MASK n \<longleftrightarrow> bit (push_bit 13 (mask 3) :: u64) n"
    by simp
  then have "bit L1_DATA_PREFETCH_CONTROL_MASK n \<longleftrightarrow> n \<in> {13..15}"
    unfolding bit_push_bit_iff bit_mask_iff by auto
  then show ?thesis
    using num [of "n - 13"] bit_imp_le_length [of "CPUACTLR s" n]
    by (auto simp: Xil_ConfigureL1Prefetch_def L1_DATA_PREFETCH_CONTROL_SHIFT_def bit_simps)
qed

end
