(* ===== verification/Lmcache.thy ===== *)
theory Lmcache
  imports A53_Cache Lmalloc
begin

text \<open>
  The cache driver and its clients: the kernel module \<^verbatim>\<open>src/linux/drivers/lmcache_ops.c\<close>, the requests of
  \<^verbatim>\<open>src/linux/drivers/lmcache.h\<close> and the cache functions of user programs in
  \<^verbatim>\<open>src/shared/linux/xil_cache.c\<close>, which reach the module through \<^verbatim>\<open>ioctl\<close>. An \<open>option\<close> result \<open>None\<close> is a
  range whose loop does not end.
\<close>

section \<open>Requests\<close>

text \<open>The encoding of requests in Linux: direction, argument size, type and number.\<close>

definition IOC_IN :: u32 where "IOC_IN = 0x40000000"
definition IOC_SIZE :: "u32 \<Rightarrow> u32" where "IOC_SIZE cmd = drop_bit 16 cmd AND 0x3FFF"
definition IOC_NR :: "u32 \<Rightarrow> u32" where "IOC_NR cmd = cmd AND 0xFF"
definition IO :: "u32 \<Rightarrow> u32 \<Rightarrow> u32" where "IO t nr = push_bit 8 t OR nr"
definition IOW :: "u32 \<Rightarrow> u32 \<Rightarrow> u32 \<Rightarrow> u32" where "IOW t nr sz = IOC_IN OR push_bit 16 sz OR push_bit 8 t OR nr"

lemmas ioc_defs = IOC_IN_def IOC_SIZE_def IOC_NR_def IO_def IOW_def

definition LMC_MAGIC :: u32 where "LMC_MAGIC = 255"

definition cmd_d_flush :: u32 where "cmd_d_flush = 0"
definition cmd_d_flush_rng :: u32 where "cmd_d_flush_rng = 1"
definition cmd_d_flush_invalidate :: u32 where "cmd_d_flush_invalidate = 2"
definition cmd_d_flush_invalidate_rng :: u32 where "cmd_d_flush_invalidate_rng = 3"
definition cmd_d_invalidate :: u32 where "cmd_d_invalidate = 4"
definition cmd_d_invalidate_rng :: u32 where "cmd_d_invalidate_rng = 5"

lemmas lmc_cmds = LMC_MAGIC_def cmd_d_flush_def cmd_d_flush_rng_def cmd_d_flush_invalidate_def cmd_d_flush_invalidate_rng_def
  cmd_d_invalidate_def cmd_d_invalidate_rng_def

text \<open>A range is two 64-bit values in memory.\<close>

definition sizeof_rng :: nat where "sizeof_rng = 16"

definition LMC_D_FLUSH :: u32 where "LMC_D_FLUSH = IO LMC_MAGIC cmd_d_flush"
definition LMC_D_FLUSH_RNG :: u32 where "LMC_D_FLUSH_RNG = IOW LMC_MAGIC cmd_d_flush_rng (of_nat sizeof_rng)"
definition LMC_D_FLUSH_INVALIDATE :: u32 where "LMC_D_FLUSH_INVALIDATE = IO LMC_MAGIC cmd_d_flush_invalidate"
definition LMC_D_FLUSH_INVALIDATE_RNG :: u32 where
  "LMC_D_FLUSH_INVALIDATE_RNG = IOW LMC_MAGIC cmd_d_flush_invalidate_rng (of_nat sizeof_rng)"
definition LMC_D_INVALIDATE :: u32 where "LMC_D_INVALIDATE = IO LMC_MAGIC cmd_d_invalidate"
definition LMC_D_INVALIDATE_RNG :: u32 where "LMC_D_INVALIDATE_RNG = IOW LMC_MAGIC cmd_d_invalidate_rng (of_nat sizeof_rng)"

lemmas lmc_requests = LMC_D_FLUSH_def LMC_D_FLUSH_RNG_def LMC_D_FLUSH_INVALIDATE_def LMC_D_FLUSH_INVALIDATE_RNG_def
  LMC_D_INVALIDATE_def LMC_D_INVALIDATE_RNG_def

definition le64_bytes :: "u64 \<Rightarrow> u8 list" where
  "le64_bytes w = le32_bytes (ucast w) @ le32_bytes (ucast (drop_bit 32 w))"

definition le64_word :: "u8 list \<Rightarrow> u64" where
  "le64_word bs = ucast (ptr_words (nth bs) 0) OR push_bit 32 (ucast (ptr_words (nth bs) 1))"

definition rng_bytes :: "u64 \<Rightarrow> u64 \<Rightarrow> u8 list" where
  "rng_bytes addr n = le64_bytes addr @ le64_bytes n"

definition rng_addr :: "u8 list \<Rightarrow> u64" where
  "rng_addr rng = le64_word (take 8 rng)"

definition rng_size :: "u8 list \<Rightarrow> u64" where
  "rng_size rng = le64_word (take 8 (drop 8 rng))"

section \<open>Kernel module\<close>

text \<open>
  \<open>copy arg n\<close> is \<^verbatim>\<open>copy_from_user\<close>: the bytes of the caller, or a fault. \<open>rng0\<close> is what the local
  variable held before. The result is the return value and the processor afterwards.
\<close>

definition lmc_ioctl :: "('a \<Rightarrow> nat \<Rightarrow> u8 list option) \<Rightarrow> u8 list \<Rightarrow> u32 \<Rightarrow> 'a \<Rightarrow> cpu \<Rightarrow> (int \<times> cpu) option" where
  "lmc_ioctl copy rng0 cmd arg s =
     (let sz = unat (IOC_SIZE cmd);
          rng = (if cmd AND IOC_IN \<noteq> 0 then
                   if sz > sizeof_rng then Inl (- EINVAL)
                   else case copy arg sz of None \<Rightarrow> Inl (- EACCES) | Some bs \<Rightarrow> Inr (bs @ drop sz rng0)
                 else Inr rng0)
      in case rng of
           Inl e \<Rightarrow> Some (e, s)
         | Inr rng \<Rightarrow>
             if IOC_NR cmd = cmd_d_flush then Some (0, Xil_DCacheFlush s)
             else if IOC_NR cmd = cmd_d_flush_rng then map_option (Pair 0) (Xil_DCacheFlushRange (rng_addr rng) (rng_size rng) s)
             else if IOC_NR cmd = cmd_d_invalidate then Some (0, Xil_DCacheInvalidate s)
             else if IOC_NR cmd = cmd_d_invalidate_rng then map_option (Pair 0) (Xil_DCacheInvalidateRange (rng_addr rng) (rng_size rng) s)
             else Some (- EINVAL, s))"

definition lmc_init :: "int option \<Rightarrow> u32 \<Rightarrow> int option \<Rightarrow> lma_module \<Rightarrow> int \<times> lma_module" where
  "lmc_init class_err devno device_err m =
     (case class_err of
        Some e \<Rightarrow> (e, m)
      | None \<Rightarrow>
          (let m = m\<lparr>has_class := True\<rparr>
           in if devno < 0 then (sint devno, m\<lparr>has_class := False\<rparr>)
              else (let m = m\<lparr>has_chrdev := True\<rparr>
                    in case device_err of
                         Some e \<Rightarrow> (e, m\<lparr>has_chrdev := False, has_class := False\<rparr>)
                       | None \<Rightarrow> (0, m\<lparr>has_device := True\<rparr>))))"

definition lmc_exit :: "lma_module \<Rightarrow> lma_module" where
  "lmc_exit m = m\<lparr>has_device := False, has_chrdev := False, has_class := False\<rparr>"

section \<open>User programs\<close>

text \<open>
  The system as the programs see it: opening the device, and requests with the bytes of their argument.
\<close>

record 's cache_os =
  cos_open :: int
  cos_ioctl :: "int \<Rightarrow> u32 \<Rightarrow> u8 list \<Rightarrow> 's \<Rightarrow> (int \<times> 's) option"

definition lmc_d_flush :: "'s cache_os \<Rightarrow> int \<Rightarrow> 's \<Rightarrow> (int \<times> 's) option" where
  "lmc_d_flush K fd = cos_ioctl K fd LMC_D_FLUSH []"

definition lmc_d_flush_rng :: "'s cache_os \<Rightarrow> int \<Rightarrow> u64 \<Rightarrow> u64 \<Rightarrow> 's \<Rightarrow> (int \<times> 's) option" where
  "lmc_d_flush_rng K fd addr n = cos_ioctl K fd LMC_D_FLUSH_RNG (rng_bytes addr n)"

definition lmc_d_flush_invalidate :: "'s cache_os \<Rightarrow> int \<Rightarrow> 's \<Rightarrow> (int \<times> 's) option" where
  "lmc_d_flush_invalidate K fd = cos_ioctl K fd LMC_D_FLUSH_INVALIDATE []"

definition lmc_d_flush_invalidate_rng :: "'s cache_os \<Rightarrow> int \<Rightarrow> u64 \<Rightarrow> u64 \<Rightarrow> 's \<Rightarrow> (int \<times> 's) option" where
  "lmc_d_flush_invalidate_rng K fd addr n = cos_ioctl K fd LMC_D_FLUSH_INVALIDATE_RNG (rng_bytes addr n)"

definition lmc_d_invalidate :: "'s cache_os \<Rightarrow> int \<Rightarrow> 's \<Rightarrow> (int \<times> 's) option" where
  "lmc_d_invalidate K fd = cos_ioctl K fd LMC_D_INVALIDATE []"

definition lmc_d_invalidate_rng :: "'s cache_os \<Rightarrow> int \<Rightarrow> u64 \<Rightarrow> u64 \<Rightarrow> 's \<Rightarrow> (int \<times> 's) option" where
  "lmc_d_invalidate_rng K fd addr n = cos_ioctl K fd LMC_D_INVALIDATE_RNG (rng_bytes addr n)"

text \<open>The static descriptor of the library, the system below, and the messages on standard error.\<close>

record 's cache_user =
  lmc_fd :: int
  lmc_sys :: 's
  lmc_err :: "string list"

text \<open>Every call opens the device when it has no descriptor yet, makes its request and reports a failure.\<close>

definition with_driver ::
  "'s cache_os \<Rightarrow> string \<Rightarrow> (int \<Rightarrow> 's \<Rightarrow> (int \<times> 's) option) \<Rightarrow> 's cache_user \<Rightarrow> 's cache_user option" where
  "with_driver K name call c =
     (let c = (if lmc_fd c = 0 then c\<lparr>lmc_fd := cos_open K\<rparr> else c)
      in case call (lmc_fd c) (lmc_sys c) of
           None \<Rightarrow> None
         | Some (ret, s) \<Rightarrow>
             (let c = c\<lparr>lmc_sys := s\<rparr>
              in Some (if ret < 0 then c\<lparr>lmc_err := lmc_err c @ [name @ ''() failed to access lmcache driver'']\<rparr> else c)))"

definition not_implemented :: "string \<Rightarrow> 's cache_user \<Rightarrow> 's cache_user" where
  "not_implemented name c = c\<lparr>lmc_err := lmc_err c @ [name @ ''() not implemented'']\<rparr>"

definition u_DCacheInvalidate :: "'s cache_os \<Rightarrow> 's cache_user \<Rightarrow> 's cache_user option" where
  "u_DCacheInvalidate K = with_driver K ''Xil_DCacheInvalidate'' (lmc_d_invalidate K)"

definition u_DCacheInvalidateRange :: "'s cache_os \<Rightarrow> u64 \<Rightarrow> u64 \<Rightarrow> 's cache_user \<Rightarrow> 's cache_user option" where
  "u_DCacheInvalidateRange K adr len = with_driver K ''Xil_DCacheInvalidateRange'' (\<lambda>fd. lmc_d_invalidate_rng K fd adr len)"

definition u_DCacheFlush :: "'s cache_os \<Rightarrow> 's cache_user \<Rightarrow> 's cache_user option" where
  "u_DCacheFlush K = with_driver K ''Xil_DCacheFlush'' (lmc_d_flush K)"

definition u_DCacheFlushRange :: "'s cache_os \<Rightarrow> u64 \<Rightarrow> u64 \<Rightarrow> 's cache_user \<Rightarrow> 's cache_user option" where
  "u_DCacheFlushRange K adr len = with_driver K ''Xil_DCacheFlushRange'' (\<lambda>fd. lmc_d_flush_rng K fd adr len)"

section \<open>The argument\<close>

lemma le64_round: "le64_word (le64_bytes w) = w"
proof -
  have "ptr_words (nth (le64_bytes w)) 0 = ucast w" "ptr_words (nth (le64_bytes w)) 1 = ucast (drop_bit 32 w)"
    by (simp_all add: ptr_words_def le64_bytes_def le32_bytes_def le32_word_bytes)
  then show ?thesis
    unfolding le64_word_def by (intro bit_word_eqI) (auto simp: bit_simps)
qed

lemma rng_round: "rng_addr (rng_bytes a n @ xs) = a" "rng_size (rng_bytes a n @ xs) = n" "length (rng_bytes a n) = sizeof_rng"
proof -
  have "length (le64_bytes w) = 8" for w
    by (simp add: le64_bytes_def)
  then show "rng_addr (rng_bytes a n @ xs) = a" "rng_size (rng_bytes a n @ xs) = n" "length (rng_bytes a n) = sizeof_rng"
    by (simp_all add: rng_addr_def rng_size_def rng_bytes_def le64_round sizeof_rng_def)
qed

section \<open>The driver answers its requests\<close>

text \<open>The module below a descriptor: other descriptors fail, and errors become \<open>- 1\<close> in the C library.\<close>

definition lmc_os :: "int \<Rightarrow> u8 list \<Rightarrow> cpu cache_os" where
  "lmc_os devfd rng0 = \<lparr>cos_open = devfd, cos_ioctl = (\<lambda>fd cmd bs s.
     if fd \<noteq> devfd then Some (- 1, s)
     else map_option (\<lambda>(r, s). (if r < 0 then - 1 else r, s)) (lmc_ioctl (\<lambda>bs n. Some (take n bs)) rng0 cmd bs s))\<rparr>"

lemma request_fields:
  "IOC_NR LMC_D_FLUSH = 0" "IOC_NR LMC_D_FLUSH_RNG = 1" "IOC_NR LMC_D_FLUSH_INVALIDATE = 2" "IOC_NR LMC_D_FLUSH_INVALIDATE_RNG = 3"
  "IOC_NR LMC_D_INVALIDATE = 4" "IOC_NR LMC_D_INVALIDATE_RNG = 5"
  "LMC_D_FLUSH AND IOC_IN = 0" "LMC_D_INVALIDATE AND IOC_IN = 0" "LMC_D_FLUSH_INVALIDATE AND IOC_IN = 0"
  "LMC_D_FLUSH_RNG AND IOC_IN \<noteq> 0" "LMC_D_INVALIDATE_RNG AND IOC_IN \<noteq> 0" "LMC_D_FLUSH_INVALIDATE_RNG AND IOC_IN \<noteq> 0"
  "IOC_SIZE LMC_D_FLUSH_RNG = 16" "IOC_SIZE LMC_D_INVALIDATE_RNG = 16" "IOC_SIZE LMC_D_FLUSH_INVALIDATE_RNG = 16"
  by (simp_all add: lmc_requests lmc_cmds ioc_defs sizeof_rng_def)

lemma lmc_ioctl_rng:
  assumes "copy arg 16 = Some (rng_bytes a n)"
  shows "lmc_ioctl copy rng0 LMC_D_FLUSH_RNG arg s = map_option (Pair 0) (Xil_DCacheFlushRange a n s)"
    "lmc_ioctl copy rng0 LMC_D_INVALIDATE_RNG arg s = map_option (Pair 0) (Xil_DCacheInvalidateRange a n s)"
    "lmc_ioctl copy rng0 LMC_D_FLUSH_INVALIDATE_RNG arg s = Some (- EINVAL, s)"
  using assms by (simp_all add: lmc_ioctl_def request_fields rng_round lmc_cmds sizeof_rng_def)

lemma lmc_ioctl_all:
  "lmc_ioctl copy rng0 LMC_D_FLUSH arg s = Some (0, Xil_DCacheFlush s)"
  "lmc_ioctl copy rng0 LMC_D_INVALIDATE arg s = Some (0, Xil_DCacheInvalidate s)"
  "lmc_ioctl copy rng0 LMC_D_FLUSH_INVALIDATE arg s = Some (- EINVAL, s)"
  by (simp_all add: lmc_ioctl_def request_fields lmc_cmds)

text \<open>A range request whose argument cannot be read changes nothing; one that claims no argument uses what the
  variable happened to hold.\<close>

lemma lmc_ioctl_fault: "copy arg 16 = None \<Longrightarrow> lmc_ioctl copy rng0 LMC_D_FLUSH_RNG arg s = Some (- EACCES, s)"
  by (simp add: lmc_ioctl_def request_fields sizeof_rng_def)

lemma lmc_ioctl_uninitialised:
  "lmc_ioctl copy rng0 (IO LMC_MAGIC cmd_d_flush_rng) arg s = map_option (Pair 0) (Xil_DCacheFlushRange (rng_addr rng0) (rng_size rng0) s)"
  by (simp add: lmc_ioctl_def ioc_defs lmc_cmds)

section \<open>From a program to the cache\<close>

text \<open>
  What the library needs of the device: range requests that pass \<open>ok\<close> are carried out on the lines
  of the range and report no error. \<open>did_lines s X s'\<close> says that exactly the lines \<open>X\<close> were treated.
\<close>

locale cache_dev =
  fixes K :: "'s cache_os" and dev :: int and ok :: "u64 \<Rightarrow> u64 \<Rightarrow> bool" and did_lines :: "'s \<Rightarrow> u64 set \<Rightarrow> 's \<Rightarrow> bool"
  assumes dev_open: "cos_open K = dev"
    and dev_pos: "0 < dev"
    and flush_rng: "ok a n \<Longrightarrow> \<exists>s'. cos_ioctl K dev LMC_D_FLUSH_RNG (rng_bytes a n) s = Some (0, s') \<and> did_lines s (line_of ` {a..<a + n}) s'"
    and inval_rng: "ok a n \<Longrightarrow> \<exists>s'. cos_ioctl K dev LMC_D_INVALIDATE_RNG (rng_bytes a n) s = Some (0, s') \<and> did_lines s (line_of ` {a..<a + n}) s'"
begin

definition ready :: "'s cache_user \<Rightarrow> bool" where
  "ready c \<longleftrightarrow> lmc_fd c = 0 \<or> lmc_fd c = dev"

lemma with_driver_ok:
  assumes "ready c" "\<exists>s'. call dev (lmc_sys c) = Some (0, s') \<and> did_lines (lmc_sys c) X s'"
  shows "\<exists>c'. with_driver K name call c = Some c' \<and> ready c' \<and> lmc_fd c' = dev \<and> did_lines (lmc_sys c) X (lmc_sys c') \<and> lmc_err c' = lmc_err c"
  using assms dev_open dev_pos by (auto simp: with_driver_def ready_def Let_def)

lemma user_flush_range:
  "ready c \<Longrightarrow> ok a n \<Longrightarrow> \<exists>c'. u_DCacheFlushRange K a n c = Some c' \<and> ready c' \<and> lmc_fd c' = dev \<and>
     did_lines (lmc_sys c) (line_of ` {a..<a + n}) (lmc_sys c') \<and> lmc_err c' = lmc_err c"
  unfolding u_DCacheFlushRange_def lmc_d_flush_rng_def by (rule with_driver_ok) (simp_all add: flush_rng)

lemma user_invalidate_range:
  "ready c \<Longrightarrow> ok a n \<Longrightarrow> \<exists>c'. u_DCacheInvalidateRange K a n c = Some c' \<and> ready c' \<and> lmc_fd c' = dev \<and>
     did_lines (lmc_sys c) (line_of ` {a..<a + n}) (lmc_sys c') \<and> lmc_err c' = lmc_err c"
  unfolding u_DCacheInvalidateRange_def lmc_d_invalidate_rng_def by (rule with_driver_ok) (simp_all add: inval_rng)

end

definition rng_fits :: "u64 \<Rightarrow> u64 \<Rightarrow> bool" where
  "rng_fits a n \<longleftrightarrow> unat a + unat n \<le> 2 ^ 64 - 64"

lemma lmc_os_range:
  assumes "rng_fits a n" "k = LMC_D_FLUSH_RNG \<or> k = LMC_D_INVALIDATE_RNG"
  shows "\<exists>s'. cos_ioctl (lmc_os d rng0) d k (rng_bytes a n) s = Some (0, s') \<and> did s ({CIVAC} \<times> line_of ` {a..<a + n}) s'"
proof -
  have "take 16 (rng_bytes a n) = rng_bytes a n"
    using rng_round(3) [of a n] by (simp add: sizeof_rng_def)
  note io = lmc_ioctl_rng(1,2) [of "\<lambda>bs n. Some (take n bs)" "rng_bytes a n" a n rng0 s, unfolded option.inject, OF this]
  obtain s' where "Xil_DCacheInvalidateRange a n s = Some s'" "did s ({CIVAC} \<times> line_of ` {a..<a + n}) s'"
    using InvalidateRange_did [of a n s] assms(1) by (auto simp: rng_fits_def)
  with assms(2) io show ?thesis
    by (intro exI [of _ s']) (auto simp: lmc_os_def Xil_DCacheFlushRange_def)
qed

interpretation lmc: cache_dev "lmc_os (1 + int d) rng0" "1 + int d" rng_fits "\<lambda>s X s'. did s ({CIVAC} \<times> X) s'" for d rng0
  by unfold_locales (use lmc_os_range in \<open>auto simp: lmc_os_def\<close>)

text \<open>C21: A program that flushes or invalidates a range through the library, with the driver loaded, gets exactly
  the lines of its range cleaned and invalidated by the processor, no error, and a descriptor it keeps for
  the next call, whatever the kernel stack held.\<close>

theorem user_range_reaches_cache:
  assumes "0 < devfd" "lmc_fd c \<in> {0, devfd}" "unat adr + unat len \<le> 2 ^ 64 - 64"
  shows "\<exists>c1 c2. u_DCacheFlushRange (lmc_os devfd rng0) adr len c = Some c1 \<and>
    u_DCacheInvalidateRange (lmc_os devfd rng0) adr len c = Some c2 \<and>
    (\<forall>c'\<in>{c1, c2}. did (lmc_sys c) ({CIVAC} \<times> line_of ` {adr..<adr + len}) (lmc_sys c') \<and> lmc_err c' = lmc_err c \<and> lmc_fd c' = devfd)"
proof -
  obtain d where d: "devfd = 1 + int d"
    using assms(1) by (metis zless_iff_Suc_zadd add_0 of_nat_Suc)
  have "lmc.ready d c" "rng_fits adr len"
    using assms by (auto simp: lmc.ready_def rng_fits_def d)
  from lmc.user_flush_range [OF this, of rng0] lmc.user_invalidate_range [OF this, of rng0] show ?thesis
    unfolding d by auto
qed

theorem user_range_reaches_cache_witness:
  "\<exists>c1 c2. u_DCacheFlushRange (lmc_os 3 []) 0x1010 200 \<lparr>lmc_fd = 0, lmc_sys = demo_cpu, lmc_err = []\<rparr> = Some c1 \<and>
    u_DCacheInvalidateRange (lmc_os 3 []) 0x1010 200 \<lparr>lmc_fd = 0, lmc_sys = demo_cpu, lmc_err = []\<rparr> = Some c2 \<and>
    (\<forall>c'\<in>{c1, c2}. did demo_cpu ({CIVAC} \<times> line_of ` {0x1010..<0x10D8}) (lmc_sys c') \<and> lmc_err c' = [] \<and> lmc_fd c' = 3)"
  using user_range_reaches_cache [of 3 "\<lparr>lmc_fd = 0, lmc_sys = demo_cpu, lmc_err = []\<rparr>" "0x1010" 200 "[]"] by simp

text \<open>A missing driver: every call fails with a message, and the failed descriptor is kept, so the device is never
  opened again.\<close>

lemma no_driver:
  assumes "\<And>cmd bs s. cos_ioctl K (- 1) cmd bs s = Some (- 1, s)" "cos_open K = - 1" "lmc_fd c \<in> {0, - 1}"
  shows "u_DCacheFlush K c = Some (c\<lparr>lmc_fd := - 1, lmc_err := lmc_err c @ [''Xil_DCacheFlush() failed to access lmcache driver'']\<rparr>)"
  using assms by (auto simp: u_DCacheFlush_def with_driver_def lmc_d_flush_def Let_def)

end
