(* ===== verification/Memtest.thy ===== *)
theory Memtest
  imports Lime_Prelude
begin

text \<open>
  The memory tests of \<^verbatim>\<open>src/test/mem/src/xil_testmem.c\<close>: five subtests for words of 32, 16 and 8 bits. The
  three functions have the same text up to the width, the default pattern and the report of the
  32-bit version, so the subtests are written once over the word type. Memory is a record of a load
  and a store function over an arbitrary state, so it may be faulty. Progress characters are left
  out. \<open>None\<close> is a failed assertion.
\<close>

section \<open>Memory\<close>

record ('s, 'a) wmem =
  wload :: "u64 \<Rightarrow> 's \<Rightarrow> 'a \<times> 's"
  wstore :: "u64 \<Rightarrow> 'a \<Rightarrow> 's \<Rightarrow> 's"

definition word_at :: "nat \<Rightarrow> u64 \<Rightarrow> nat \<Rightarrow> u64" where
  "word_at W Addr I = Addr + of_nat (W div 8 * I)"

section \<open>Patterns\<close>

definition RotateLeft :: "u32 \<Rightarrow> u8 \<Rightarrow> u32" where
  "RotateLeft Input Width =
     (let MsbMask = push_bit (unat (Width - 1)) 1;
          WidthMask = push_bit 1 MsbMask - 1;
          LocalInput = Input AND WidthMask;
          Msb = LocalInput AND MsbMask;
          ReturnVal = push_bit 1 LocalInput;
          ReturnVal = (if Msb \<noteq> 0 then ReturnVal OR 1 else ReturnVal)
      in ReturnVal AND WidthMask)"

definition XIL_TESTMEM_INIT_VALUE :: "'a::len word" where "XIL_TESTMEM_INIT_VALUE = 1"
definition XIL_TESTMEM_ALLMEMTESTS :: u8 where "XIL_TESTMEM_ALLMEMTESTS = 0"
definition XIL_TESTMEM_INCREMENT :: u8 where "XIL_TESTMEM_INCREMENT = 1"
definition XIL_TESTMEM_WALKONES :: u8 where "XIL_TESTMEM_WALKONES = 2"
definition XIL_TESTMEM_WALKZEROS :: u8 where "XIL_TESTMEM_WALKZEROS = 3"
definition XIL_TESTMEM_INVERSEADDR :: u8 where "XIL_TESTMEM_INVERSEADDR = 4"
definition XIL_TESTMEM_FIXEDPATTERN :: u8 where "XIL_TESTMEM_FIXEDPATTERN = 5"
definition XIL_TESTMEM_MAXTEST :: u8 where "XIL_TESTMEM_MAXTEST = XIL_TESTMEM_FIXEDPATTERN"

section \<open>Loops\<close>

text \<open>
  The \<open>n\<close> words from index \<open>I\<close> on. \<open>gen I Val\<close> is the value of a word and \<open>nxt Val\<close> the reference for the next
  one. The check ends at the first difference, with its index.
\<close>

fun fill :: "('s, 'a) wmem \<Rightarrow> (nat \<Rightarrow> u64) \<Rightarrow> (nat \<Rightarrow> 'a \<Rightarrow> 'a) \<Rightarrow> ('a \<Rightarrow> 'a) \<Rightarrow> nat \<Rightarrow> nat \<Rightarrow> 'a \<Rightarrow> 's \<Rightarrow> 's" where
  "fill M at gen nxt 0 I Val s = s"
| "fill M at gen nxt (Suc n) I Val s =
     (let Val = gen I Val in fill M at gen nxt n (Suc I) (nxt Val) (wstore M (at I) Val s))"

fun check :: "('s, 'a) wmem \<Rightarrow> (nat \<Rightarrow> u64) \<Rightarrow> (nat \<Rightarrow> 'a \<Rightarrow> 'a) \<Rightarrow> ('a \<Rightarrow> 'a) \<Rightarrow> nat \<Rightarrow> nat \<Rightarrow> 'a \<Rightarrow> 's \<Rightarrow> nat option \<times> 's" where
  "check M at gen nxt 0 I Val s = (None, s)"
| "check M at gen nxt (Suc n) I Val s =
     (let (WordMem, s) = wload M (at I) s; Val = gen I Val
      in if WordMem \<noteq> Val then (Some I, s) else check M at gen nxt n (Suc I) (nxt Val) s)"

definition fill_check :: "('s, 'a) wmem \<Rightarrow> (nat \<Rightarrow> u64) \<Rightarrow> (nat \<Rightarrow> 'a \<Rightarrow> 'a) \<Rightarrow> ('a \<Rightarrow> 'a) \<Rightarrow> nat \<Rightarrow> 'a \<Rightarrow> 's \<Rightarrow> nat option \<times> 's" where
  "fill_check M at gen nxt n Val s = check M at gen nxt n 0 Val (fill M at gen nxt n 0 Val s)"

text \<open>Tests one after the other, up to the first failure.\<close>

fun tests :: "('s \<Rightarrow> nat option \<times> 's) list \<Rightarrow> 's \<Rightarrow> nat option \<times> 's" where
  "tests [] s = (None, s)"
| "tests (t # ts) s = (let (r, s) = t s in if r \<noteq> None then (r, s) else tests ts s)"

section \<open>Subtests\<close>

definition test_increment :: "('s, 'a::len word) wmem \<Rightarrow> (nat \<Rightarrow> u64) \<Rightarrow> nat \<Rightarrow> 's \<Rightarrow> nat option \<times> 's" where
  "test_increment M at Words = fill_check M at (\<lambda>I Val. Val) (\<lambda>Val. Val + 1) Words XIL_TESTMEM_INIT_VALUE"

definition rotl :: "'a::len word \<Rightarrow> 'a word" where
  "rotl Val = ucast (RotateLeft (ucast Val) (of_nat LENGTH('a)))"

definition rotl_inv :: "'a::len word \<Rightarrow> 'a word" where
  "rotl_inv Val = NOT (ucast (RotateLeft (NOT (ucast Val)) (of_nat LENGTH('a))))"

definition test_walkones :: "('s, 'a::len word) wmem \<Rightarrow> (nat \<Rightarrow> u64) \<Rightarrow> 's \<Rightarrow> nat option \<times> 's" where
  "test_walkones M at =
     tests (map (\<lambda>j. fill_check M at (\<lambda>I Val. Val) rotl LENGTH('a) (ucast (push_bit j (1 :: u32)))) [0..<LENGTH('a)])"

definition test_walkzeros :: "('s, 'a::len word) wmem \<Rightarrow> (nat \<Rightarrow> u64) \<Rightarrow> 's \<Rightarrow> nat option \<times> 's" where
  "test_walkzeros M at =
     tests (map (\<lambda>j. fill_check M at (\<lambda>I Val. Val) rotl_inv LENGTH('a) (ucast (NOT (push_bit j (1 :: u32))))) [0..<LENGTH('a)])"

definition test_inverseaddr :: "('s, 'a::len word) wmem \<Rightarrow> (nat \<Rightarrow> u64) \<Rightarrow> nat \<Rightarrow> 's \<Rightarrow> nat option \<times> 's" where
  "test_inverseaddr M at Words = fill_check M at (\<lambda>I Val. ucast (NOT (at I))) (\<lambda>Val. Val) Words 0"

definition test_fixedpattern ::
  "('s, 'a::len word) wmem \<Rightarrow> (nat \<Rightarrow> u64) \<Rightarrow> nat \<Rightarrow> 'a word \<Rightarrow> 'a word \<Rightarrow> 's \<Rightarrow> nat option \<times> 's" where
  "test_fixedpattern M at Words deflt Pattern =
     fill_check M at (\<lambda>I Val. Val) (\<lambda>Val. Val) Words (if Pattern = 0 then deflt else Pattern)"

text \<open>The selected subtests in their order.\<close>

definition subtests ::
  "('s, 'a::len word) wmem \<Rightarrow> (nat \<Rightarrow> u64) \<Rightarrow> nat \<Rightarrow> 'a word \<Rightarrow> 'a word \<Rightarrow> u8 \<Rightarrow> 's \<Rightarrow> nat option \<times> 's" where
  "subtests M at Words deflt Pattern Subtest =
     tests (map snd (filter (\<lambda>(k, t). Subtest = XIL_TESTMEM_ALLMEMTESTS \<or> Subtest = k)
       [(XIL_TESTMEM_INCREMENT, test_increment M at Words),
        (XIL_TESTMEM_WALKONES, test_walkones M at),
        (XIL_TESTMEM_WALKZEROS, test_walkzeros M at),
        (XIL_TESTMEM_INVERSEADDR, test_inverseaddr M at Words),
        (XIL_TESTMEM_FIXEDPATTERN, test_fixedpattern M at Words deflt Pattern)]))"

definition Xil_TestMem16l :: "('s, u16) wmem \<Rightarrow> u64 \<Rightarrow> nat \<Rightarrow> u16 \<Rightarrow> u8 \<Rightarrow> 's \<Rightarrow> (int \<times> 's) option" where
  "Xil_TestMem16l M Addr Words Pattern Subtest s =
     (if \<not> Subtest \<le> XIL_TESTMEM_MAXTEST then None
      else (let (r, s) = subtests M (word_at 16 Addr) Words 0xDEAD Pattern Subtest s in Some (if r = None then 0 else - 1, s)))"

definition Xil_TestMem8l :: "('s, u8) wmem \<Rightarrow> u64 \<Rightarrow> nat \<Rightarrow> u8 \<Rightarrow> u8 \<Rightarrow> 's \<Rightarrow> (int \<times> 's) option" where
  "Xil_TestMem8l M Addr Words Pattern Subtest s =
     (if \<not> Subtest \<le> XIL_TESTMEM_MAXTEST then None
      else (let (r, s) = subtests M (word_at 8 Addr) Words 0xA5 Pattern Subtest s in Some (if r = None then 0 else - 1, s)))"

text \<open>
  The report of the 32-bit version: expected value, value found now, and address of the eight words around
  the failure. The expected value is always the inverse address.
\<close>

fun report :: "('s, u32) wmem \<Rightarrow> u64 \<Rightarrow> nat \<Rightarrow> int list \<Rightarrow> 's \<Rightarrow> (u32 \<times> u32 \<times> u64) list \<times> 's" where
  "report M Addr I [] s = ([], s)"
| "report M Addr I (k # ks) s =
     (let a = Addr + of_int (4 * (int I + k)); (fnd, s) = wload M a s; (rest, s) = report M Addr I ks s
      in ((ucast (NOT a), fnd, a) # rest, s))"

definition Xil_TestMem32l ::
  "('s, u32) wmem \<Rightarrow> u64 \<Rightarrow> nat \<Rightarrow> u32 \<Rightarrow> u8 \<Rightarrow> 's \<Rightarrow> (int \<times> (u32 \<times> u32 \<times> u64) list \<times> 's) option" where
  "Xil_TestMem32l M Addr Words Pattern Subtest s =
     (if \<not> Subtest \<le> XIL_TESTMEM_MAXTEST then None
      else (let (r, s) = subtests M (word_at 32 Addr) Words 0xDEADBEEF Pattern Subtest s
            in case r of
                 None \<Rightarrow> Some (0, [], s)
               | Some I \<Rightarrow> (let (rep, s) = report M Addr I [-4..3] s in Some (- 1, rep, s))))"

section \<open>Rotation\<close>

lemma RotateLeft_bit:
  assumes "1 \<le> W" "W \<le> 32" "n < W"
  shows "bit (RotateLeft x (of_nat W)) n \<longleftrightarrow> (if n = 0 then bit x (W - 1) else bit x (n - 1))"
proof -
  have u: "unat (of_nat W - 1 :: u8) = W - 1"
  proof -
    have "(of_nat W - 1 :: u8) = of_nat (W - 1)"
      using assms(1) by (simp add: of_nat_diff)
    then show ?thesis
      using assms(2) by (simp add: unsigned_of_nat take_bit_nat_eq_self)
  qed
  have m: "push_bit 1 (push_bit (W - 1) 1) - 1 = (mask W :: u32)"
    using assms(1) by (simp add: push_bit_eq_mult mask_eq_exp_minus_1 power_eq_if)
  have t: "(x AND mask W) AND push_bit (W - 1) 1 \<noteq> 0 \<longleftrightarrow> bit x (W - 1)"
  proof -
    have "(x AND mask W) AND push_bit (W - 1) 1 = (if bit x (W - 1) then push_bit (W - 1) 1 else 0)"
      using assms by (intro bit_word_eqI) (auto simp: bit_simps)
    moreover have "push_bit (W - 1) 1 \<noteq> (0 :: u32)"
      using assms(1,2) by (simp add: push_bit_eq_mult)
    ultimately show ?thesis
      by simp
  qed
  have "RotateLeft x (of_nat W) =
      (if bit x (W - 1) then push_bit 1 (x AND mask W) OR 1 else push_bit 1 (x AND mask W)) AND mask W"
    unfolding RotateLeft_def Let_def u m t by (rule refl)
  moreover have "bit (push_bit 1 (x AND mask W)) n \<longleftrightarrow> n \<noteq> 0 \<and> bit x (n - 1)"
    unfolding bit_push_bit_iff bit_and_iff bit_mask_iff using assms by auto
  ultimately show ?thesis
    using assms by (auto simp only: bit_and_iff bit_or_iff bit_1_iff bit_mask_iff split: if_splits) auto
qed

lemma rotl_bit:
  fixes v :: "'a::len word"
  assumes "LENGTH('a) \<le> 32" "n < LENGTH('a)"
  shows "bit (rotl v) n \<longleftrightarrow> (if n = 0 then bit v (LENGTH('a) - 1) else bit v (n - 1))"
  using RotateLeft_bit [of "LENGTH('a)" n "ucast v"] assms unfolding rotl_def by (auto simp: bit_simps)

lemma rotl_one:
  assumes "LENGTH('a) \<le> 32" "k < LENGTH('a)"
  shows "rotl (push_bit k 1 :: 'a::len word) = push_bit (Suc k mod LENGTH('a)) 1"
proof (rule bit_word_eqI)
  fix n
  assume n: "n < LENGTH('a)"
  have one: "bit (push_bit i 1 :: 'a word) m \<longleftrightarrow> m < LENGTH('a) \<and> m = i" for i m
    by (auto simp: bit_simps)
  have "Suc k mod LENGTH('a) = (if Suc k = LENGTH('a) then 0 else Suc k)"
    using assms(2) by simp
  then show "bit (rotl (push_bit k 1 :: 'a word)) n \<longleftrightarrow> bit (push_bit (Suc k mod LENGTH('a)) 1 :: 'a word) n"
    unfolding rotl_bit [OF assms(1) n] one using n assms(2) by auto
qed

lemma walk_ones:
  assumes "LENGTH('a) \<le> 32" "j < LENGTH('a)"
  shows "(rotl ^^ I) (push_bit j 1 :: 'a::len word) = push_bit ((j + I) mod LENGTH('a)) 1"
proof (induction I)
  case (Suc I)
  have "(j + I) mod LENGTH('a) < LENGTH('a)"
    by simp
  from rotl_one [OF assms(1) this] Suc show ?case
    by (simp add: mod_Suc_eq)
qed (use assms in simp)

lemma rotl_inv_not: "LENGTH('a) \<le> 32 \<Longrightarrow> rotl_inv (NOT v) = NOT (rotl (v :: 'a::len word))"
proof (rule bit_word_eqI)
  fix n
  assume a: "LENGTH('a) \<le> 32" "n < LENGTH('a)"
  show "bit (rotl_inv (NOT v)) n \<longleftrightarrow> bit (NOT (rotl v)) n"
    using a RotateLeft_bit [of "LENGTH('a)" n "NOT (ucast (NOT v))"] RotateLeft_bit [of "LENGTH('a)" n "ucast v"]
    unfolding rotl_inv_def rotl_def by (auto simp: bit_simps)
qed

lemma walk_zeros: "LENGTH('a) \<le> 32 \<Longrightarrow> (rotl_inv ^^ I) (NOT v) = NOT ((rotl ^^ I) (v :: 'a::len word))"
  by (induction I) (simp_all add: rotl_inv_not)

section \<open>Loops and tests\<close>

text \<open>The values a loop writes and expects.\<close>

fun vals :: "(nat \<Rightarrow> 'a \<Rightarrow> 'a) \<Rightarrow> ('a \<Rightarrow> 'a) \<Rightarrow> nat \<Rightarrow> nat \<Rightarrow> 'a \<Rightarrow> 'a list" where
  "vals gen nxt 0 I Val = []"
| "vals gen nxt (Suc n) I Val = gen I Val # vals gen nxt n (Suc I) (nxt (gen I Val))"

lemma vals_nth:
  "k < n \<Longrightarrow> vals (\<lambda>I v. v) nxt n I Val ! k = (nxt ^^ k) Val"
  "k < n \<Longrightarrow> vals (\<lambda>I v. f I) nxt n I Val ! k = f (I + k)"
proof -
  show "k < n \<Longrightarrow> vals (\<lambda>I v. v) nxt n I Val ! k = (nxt ^^ k) Val"
    by (induction n arbitrary: I Val k) (auto simp: nth_Cons' funpow_swap1 dest: gr0_implies_Suc)
  show "k < n \<Longrightarrow> vals (\<lambda>I v. f I) nxt n I Val ! k = f (I + k)"
    by (induction n arbitrary: I Val k) (auto simp: nth_Cons' dest: gr0_implies_Suc)
qed

lemma loop_steps:
  "fill M at gen nxt (Suc n) I Val s = fill M at gen nxt n (Suc I) (nxt (gen I Val)) (wstore M (at I) (gen I Val) s)"
  "check M at gen nxt (Suc n) I Val s =
     (if fst (wload M (at I) s) \<noteq> gen I Val then (Some I, snd (wload M (at I) s))
      else check M at gen nxt n (Suc I) (nxt (gen I Val)) (snd (wload M (at I) s)))"
  "tests (t # ts) s = (if fst (t s) \<noteq> None then t s else tests ts (snd (t s)))"
  by (auto simp: Let_def split_beta)

declare fill.simps(2) [simp del] check.simps(2) [simp del] tests.simps(2) [simp del]

lemma check_mismatch:
  "k < n \<Longrightarrow> \<forall>s. fst (wload M (at (I + k)) s) \<noteq> vals gen nxt n I Val ! k \<Longrightarrow> fst (check M at gen nxt n I Val s) \<noteq> None"
proof (induction n arbitrary: I Val k s)
  case (Suc n)
  show ?case
  proof (cases k)
    case 0
    with Suc.prems(2) show ?thesis
      by (simp add: loop_steps(2))
  next
    case (Suc m)
    with Suc.prems Suc.IH [of m "Suc I" "nxt (gen I Val)"] show ?thesis
      by (auto simp: loop_steps(2))
  qed
qed simp

lemma check_pure:
  assumes "\<And>a s. snd (wload M a s) = s"
  shows "fst (check M at gen nxt n I Val s) = None \<longleftrightarrow> (\<forall>k<n. fst (wload M (at (I + k)) s) = vals gen nxt n I Val ! k)"
proof (induction n arbitrary: I Val)
  case (Suc n)
  show ?case
    using Suc [of "Suc I" "nxt (gen I Val)"] by (auto simp: loop_steps(2) assms less_Suc_eq_0_disj)
qed simp

lemma tests_fail: "t \<in> set ts \<Longrightarrow> (\<And>s. fst (t s) \<noteq> None) \<Longrightarrow> fst (tests ts s) \<noteq> None"
  by (induction ts arbitrary: s) (auto simp: loop_steps(3) simp del: not_None_eq)

lemma tests_pass: "(\<And>t s. t \<in> set ts \<Longrightarrow> fst (t s) = None) \<Longrightarrow> fst (tests ts s) = None"
  by (induction ts arbitrary: s) (auto simp: loop_steps(3))

section \<open>A memory that works\<close>

text \<open>The first \<open>N\<close> words from the start address keep what is stored, and a store changes no other word.\<close>

locale good_mem =
  fixes M :: "('s, 'a::len word) wmem" and at :: "nat \<Rightarrow> u64" and cell :: "nat \<Rightarrow> 's \<Rightarrow> 'a word" and N :: nat
  assumes load_cell: "i < N \<Longrightarrow> fst (wload M (at i) s) = cell i s"
    and load_keeps: "i < N \<Longrightarrow> j < N \<Longrightarrow> cell j (snd (wload M (at i) s)) = cell j s"
    and store_cell: "i < N \<Longrightarrow> j < N \<Longrightarrow> cell j (wstore M (at i) v s) = (if j = i then v else cell j s)"
begin

lemma fill_cells:
  "I + n \<le> N \<Longrightarrow> (\<forall>k<n. cell (I + k) (fill M at gen nxt n I Val s) = vals gen nxt n I Val ! k) \<and>
     (\<forall>j<I. cell j (fill M at gen nxt n I Val s) = cell j s)"
proof (induction n arbitrary: I Val s)
  case (Suc n)
  let ?v = "gen I Val"
  from Suc.IH [of "Suc I" "nxt ?v" "wstore M (at I) ?v s"] Suc.prems
  have IH: "\<forall>k<n. cell (Suc I + k) (fill M at gen nxt (Suc n) I Val s) = vals gen nxt n (Suc I) (nxt ?v) ! k"
    "\<forall>j<Suc I. cell j (fill M at gen nxt (Suc n) I Val s) = cell j (wstore M (at I) ?v s)"
    by (simp_all add: loop_steps(1))
  have "cell I (fill M at gen nxt (Suc n) I Val s) = ?v" "\<forall>j<I. cell j (fill M at gen nxt (Suc n) I Val s) = cell j s"
    using IH(2) Suc.prems by (simp_all add: store_cell)
  with IH(1) show ?case
    by (auto simp: less_Suc_eq_0_disj)
qed simp

lemma check_cells:
  "I + n \<le> N \<Longrightarrow> \<forall>k<n. cell (I + k) s = vals gen nxt n I Val ! k \<Longrightarrow> fst (check M at gen nxt n I Val s) = None"
proof (induction n arbitrary: I Val s)
  case (Suc n)
  let ?s = "snd (wload M (at I) s)"
  have l: "fst (wload M (at I) s) = gen I Val"
    using load_cell [of I s] Suc.prems by force
  have "\<forall>k<n. cell (Suc I + k) ?s = vals gen nxt n (Suc I) (nxt (gen I Val)) ! k"
  proof (intro allI impI)
    fix k
    assume "k < n"
    then have "cell (I + Suc k) s = vals gen nxt (Suc n) I Val ! Suc k"
      using Suc.prems(2) by blast
    with \<open>k < n\<close> show "cell (Suc I + k) ?s = vals gen nxt n (Suc I) (nxt (gen I Val)) ! k"
      using load_keeps [of I "Suc I + k" s] Suc.prems(1) by simp
  qed
  with Suc.IH [of "Suc I" ?s "nxt (gen I Val)"] Suc.prems(1) l show ?case
    by (simp add: loop_steps(2))
qed simp

lemma fill_check_passes: "n \<le> N \<Longrightarrow> fst (fill_check M at gen nxt n Val s) = None"
  using fill_cells [of 0 n] unfolding fill_check_def by (intro check_cells) simp_all

lemma subtests_pass:
  assumes "Words \<le> N" "LENGTH('a) \<le> N"
  shows "fst (subtests M at Words deflt Pattern Subtest s) = None"
proof -
  have w: "fst (test_walkones M at s) = None" "fst (test_walkzeros M at s) = None" for s
    unfolding test_walkones_def test_walkzeros_def using assms(2) by (intro tests_pass; auto simp: fill_check_passes)+
  show ?thesis
    unfolding subtests_def using assms(1) w
    by (intro tests_pass) (auto simp: test_increment_def test_inverseaddr_def test_fixedpattern_def fill_check_passes split: if_splits)
qed

end

text \<open>Plain memory of words; the addresses of \<open>2 ^ 62\<close> words of 32 bits are different.\<close>

definition plain_mem :: "(u64 \<Rightarrow> 'a word, 'a::len word) wmem" where
  "plain_mem = \<lparr>wload = (\<lambda>a m. (m a, m)), wstore = (\<lambda>a v m. m(a := v))\<rparr>"

lemma word_at_inj: "i < 2 ^ 62 \<Longrightarrow> j < 2 ^ 62 \<Longrightarrow> word_at 32 Addr i = word_at 32 Addr j \<longleftrightarrow> i = j"
proof
  assume b: "i < 2 ^ 62" "j < 2 ^ 62" and "word_at 32 Addr i = word_at 32 Addr j"
  then have "unat (of_nat (4 * i) :: u64) = unat (of_nat (4 * j) :: u64)"
    by (simp add: word_at_def)
  with b show "i = j"
    by (simp add: unsigned_of_nat take_bit_nat_eq_self del: of_nat_mult)
qed simp

lemma plain_mem_good: "good_mem plain_mem (word_at 32 Addr) (\<lambda>i m. m (word_at 32 Addr i)) (2 ^ 62)"
  by unfold_locales (simp_all add: plain_mem_def word_at_inj)

interpretation plain: good_mem "plain_mem :: (u64 \<Rightarrow> u32, u32) wmem" "word_at 32 Addr" "\<lambda>i m. m (word_at 32 Addr i)" "2 ^ 62" for Addr
  by (rule plain_mem_good)

text \<open>A memory whose words keep what is stored and are independent passes every subtest and the whole test,
  for every size, pattern and start address, although the walking tests use 32 words whatever the size is.\<close>

theorem good_memory_passes:
  assumes "good_mem M (word_at 32 Addr) cell N" "Words \<le> N" "32 \<le> N" "Subtest \<le> XIL_TESTMEM_MAXTEST"
  shows "\<exists>s'. Xil_TestMem32l M Addr Words Pattern Subtest s = Some (0, [], s')"
proof -
  have "fst (subtests M (word_at 32 Addr) Words 0xDEADBEEF Pattern Subtest s) = None"
    using good_mem.subtests_pass [OF assms(1,2)] assms(3) by simp
  then show ?thesis
    using assms(4) by (auto simp: Xil_TestMem32l_def split: prod.splits)
qed

theorem good_memory_passes_witness:
  "\<exists>s'. Xil_TestMem32l plain_mem 0x40000000 1000 0xAAAA5555 XIL_TESTMEM_ALLMEMTESTS (\<lambda>_. 7) = Some (0, [], s')"
  using good_memory_passes [OF plain_mem_good, of 1000 XIL_TESTMEM_ALLMEMTESTS "0x40000000" "0xAAAA5555" "\<lambda>_. 7"]
  by (simp add: XIL_TESTMEM_ALLMEMTESTS_def)

section \<open>Faults that are found\<close>

lemma ucast_down_add: "(ucast (a + b :: u64) :: u32) = ucast a + ucast b"
proof -
  have "take_bit 32 (take_bit 64 x + take_bit 64 y) = take_bit 32 (x + y)" for x y :: int
    using take_bit_add [of 32 "take_bit 64 x" "take_bit 64 y"] take_bit_add [of 32 x y] by simp
  then show ?thesis
    by transfer simp
qed

lemma test32_fails: "fst (subtests M (word_at 32 Addr) Words 0xDEADBEEF Pattern Subtest s) \<noteq> None \<Longrightarrow> Subtest \<le> XIL_TESTMEM_MAXTEST \<Longrightarrow>
    \<exists>rep s'. Xil_TestMem32l M Addr Words Pattern Subtest s = Some (- 1, rep, s')"
  by (auto simp: Xil_TestMem32l_def split: prod.splits)

lemma test32_nonzero: "fst (subtests M (word_at 32 Addr) Words 0xDEADBEEF Pattern Subtest s) \<noteq> None \<Longrightarrow> Subtest \<le> XIL_TESTMEM_MAXTEST \<Longrightarrow>
    \<exists>ret rep s'. Xil_TestMem32l M Addr Words Pattern Subtest s = Some (ret, rep, s') \<and> ret \<noteq> 0"
  using test32_fails by fastforce

lemma subtest_fails:
  assumes "\<And>s. fst (t s) \<noteq> None" "Subtest = XIL_TESTMEM_ALLMEMTESTS \<or> Subtest = k"
    and "(k, t) \<in> set [(XIL_TESTMEM_INCREMENT, test_increment M at Words), (XIL_TESTMEM_WALKONES, test_walkones M at),
      (XIL_TESTMEM_WALKZEROS, test_walkzeros M at), (XIL_TESTMEM_INVERSEADDR, test_inverseaddr M at Words),
      (XIL_TESTMEM_FIXEDPATTERN, test_fixedpattern M at Words deflt Pattern)]"
  shows "fst (subtests M at Words deflt Pattern Subtest s) \<noteq> None"
proof -
  let ?L = "[(XIL_TESTMEM_INCREMENT, test_increment M at Words), (XIL_TESTMEM_WALKONES, test_walkones M at),
      (XIL_TESTMEM_WALKZEROS, test_walkzeros M at), (XIL_TESTMEM_INVERSEADDR, test_inverseaddr M at Words),
      (XIL_TESTMEM_FIXEDPATTERN, test_fixedpattern M at Words deflt Pattern)]"
  have "(k, t) \<in> set (filter (\<lambda>(k, t). Subtest = XIL_TESTMEM_ALLMEMTESTS \<or> Subtest = k) ?L)"
    unfolding set_filter using assms(2,3) by blast
  then have "snd (k, t) \<in> set (map snd (filter (\<lambda>(k, t). Subtest = XIL_TESTMEM_ALLMEMTESTS \<or> Subtest = k) ?L))"
    unfolding set_map by (rule imageI)
  then show ?thesis
    unfolding subtests_def snd_conv by (rule tests_fail) (rule assms(1))
qed

lemma fill_check_mismatch:
  assumes "k < n" "\<forall>s. fst (wload M (at k) s) \<noteq> vals gen nxt n 0 Val ! k"
  shows "fst (fill_check M at gen nxt n Val s) \<noteq> None"
  unfolding fill_check_def using assms by (intro check_mismatch) simp_all

lemma turn_fails:
  assumes "j < n" "\<And>s. fst (fill_check M at gen nxt n (f j) s) \<noteq> None"
  shows "fst (tests (map (\<lambda>j. fill_check M at gen nxt n (f j)) [0..<n]) s) \<noteq> None"
  by (rule tests_fail [OF _ assms(2)]) (use assms(1) in auto)

text \<open>Every bit of every word gets both values in some turn of the walking tests.\<close>

lemma walk_finds_stuck:
  fixes M :: "('s, 'a::len word) wmem"
  assumes "\<forall>s. bit (fst (wload M (at I) s)) b \<longleftrightarrow> v" "I < LENGTH('a)" "b < LENGTH('a)" "LENGTH('a) \<le> 32"
  shows "fst (if v then test_walkzeros M at s else test_walkones M at s) \<noteq> None"
proof -
  define j where "j = (b + LENGTH('a) - I) mod LENGTH('a)"
  have j: "j < LENGTH('a)" "(j + I) mod LENGTH('a) = b"
    using assms(2,3) by (simp_all add: j_def mod_add_left_eq)
  have u: "ucast (push_bit j (1 :: u32)) = (push_bit j 1 :: 'a word)" "ucast (NOT (push_bit j (1 :: u32))) = (NOT (push_bit j 1) :: 'a word)"
    using j(1) assms(4) by (auto intro!: bit_word_eqI simp: bit_simps)
  have ones: "bit (vals (\<lambda>I Val. Val) rotl LENGTH('a) 0 (push_bit j 1 :: 'a word) ! I) b"
    unfolding vals_nth(1) [OF assms(2)] walk_ones [OF assms(4) j(1)] j(2) using assms(3) by (simp add: bit_simps)
  have zeros: "\<not> bit (vals (\<lambda>I Val. Val) rotl_inv LENGTH('a) 0 (NOT (push_bit j 1) :: 'a word) ! I) b"
    unfolding vals_nth(1) [OF assms(2)] walk_zeros [OF assms(4)] walk_ones [OF assms(4) j(1)] j(2) using assms(3) by (simp add: bit_simps)
  show ?thesis
  proof (cases v)
    case True
    have "\<forall>s. fst (wload M (at I) s) \<noteq> vals (\<lambda>I Val. Val) rotl_inv LENGTH('a) 0 (NOT (push_bit j 1) :: 'a word) ! I"
      using zeros assms(1) True by metis
    then have "fst (fill_check M at (\<lambda>I Val. Val) rotl_inv LENGTH('a) (ucast (NOT (push_bit j (1 :: u32)))) s) \<noteq> None" for s
      unfolding u(2) by (rule fill_check_mismatch [OF assms(2)])
    with True show ?thesis
      by (simp only: test_walkzeros_def if_True) (rule turn_fails [OF j(1)])
  next
    case False
    have "\<forall>s. fst (wload M (at I) s) \<noteq> vals (\<lambda>I Val. Val) rotl LENGTH('a) 0 (push_bit j 1 :: 'a word) ! I"
      using ones assms(1) False by metis
    then have "fst (fill_check M at (\<lambda>I Val. Val) rotl LENGTH('a) (ucast (push_bit j (1 :: u32))) s) \<noteq> None" for s
      unfolding u(1) by (rule fill_check_mismatch [OF assms(2)])
    with False show ?thesis
      by (simp only: test_walkones_def if_False) (rule turn_fails [OF j(1)])
  qed
qed

text \<open>C34: A memory in which one bit of one of the first 32 words of the region always reads the same fails the
  whole test and the walking test of the other value, whatever else the memory does: the test returns, and
  not with zero, the value for a pass.\<close>

theorem stuck_bit_found:
  assumes "\<forall>s. bit (fst (wload M (word_at 32 Addr I) s)) b \<longleftrightarrow> v" "I < 32" "I < Words" "b < 32"
    and "Subtest \<in> {XIL_TESTMEM_ALLMEMTESTS, if v then XIL_TESTMEM_WALKZEROS else XIL_TESTMEM_WALKONES}"
  shows "\<exists>ret rep s'. Xil_TestMem32l M Addr Words Pattern Subtest s = Some (ret, rep, s') \<and> ret \<noteq> 0"
proof (rule test32_nonzero)
  let ?t = "if v then test_walkzeros M (word_at 32 Addr) else test_walkones M (word_at 32 Addr)"
  have "fst (?t s) \<noteq> None" for s
    using walk_finds_stuck [of M "word_at 32 Addr" I b v s] assms(1,2,4) by (simp split: if_splits)
  then show "fst (subtests M (word_at 32 Addr) Words 0xDEADBEEF Pattern Subtest s) \<noteq> None"
    by (rule subtest_fails [where k = "if v then XIL_TESTMEM_WALKZEROS else XIL_TESTMEM_WALKONES"]) (use assms(5) in auto)
  show "Subtest \<le> XIL_TESTMEM_MAXTEST"
    using assms(5) by (auto simp: XIL_TESTMEM_ALLMEMTESTS_def XIL_TESTMEM_WALKZEROS_def XIL_TESTMEM_WALKONES_def
      XIL_TESTMEM_MAXTEST_def XIL_TESTMEM_FIXEDPATTERN_def split: if_splits)
qed

definition stuck_mem :: "(u64 \<Rightarrow> u32, u32) wmem" where
  "stuck_mem = \<lparr>wload = (\<lambda>a m. (if a = 0x4000000C then unset_bit 5 (m a) else m a, m)), wstore = (\<lambda>a v m. m(a := v))\<rparr>"

theorem stuck_bit_found_witness:
  "\<exists>ret rep s'. Xil_TestMem32l stuck_mem 0x40000000 1000 0 XIL_TESTMEM_ALLMEMTESTS (\<lambda>_. 0) = Some (ret, rep, s') \<and> ret \<noteq> 0"
  using stuck_bit_found [of stuck_mem "0x40000000" 3 5 False 1000 XIL_TESTMEM_ALLMEMTESTS 0 "\<lambda>_. 0"]
  by (simp add: stuck_mem_def word_at_def bit_unset_bit_iff)

text \<open>C35: A memory in which two words of the region are one (an address line is missing or shorted) fails the
  whole test and the inverse address test, as long as the region is at most \<open>2 ^ 32\<close> bytes and reading does not
  change the memory: the test returns, and not with zero, the value for a pass.\<close>

theorem alias_found:
  assumes "\<And>a s. snd (wload M a s) = s" "\<And>s. fst (wload M (word_at 32 Addr i) s) = fst (wload M (word_at 32 Addr j) s)"
    and "i < j" "j < Words" "Words \<le> 2 ^ 30" "Subtest \<in> {XIL_TESTMEM_ALLMEMTESTS, XIL_TESTMEM_INVERSEADDR}"
  shows "\<exists>ret rep s'. Xil_TestMem32l M Addr Words Pattern Subtest s = Some (ret, rep, s') \<and> ret \<noteq> 0"
proof (rule test32_nonzero)
  let ?at = "word_at 32 Addr"
  have d: "ucast (NOT (?at i)) \<noteq> (ucast (NOT (?at j)) :: u32)"
  proof
    assume "ucast (NOT (?at i)) = (ucast (NOT (?at j)) :: u32)"
    then have "ucast (?at i) = (ucast (?at j) :: u32)"
      by (simp add: bit_eq_iff bit_simps)
    then have "(ucast Addr :: u32) + of_nat (4 * i) = ucast Addr + of_nat (4 * j)"
      using assms(3-5) by (simp add: word_at_def ucast_down_add unsigned_of_nat take_bit_nat_eq_self del: of_nat_mult)
    then have "unat (of_nat (4 * i) :: u32) = unat (of_nat (4 * j) :: u32)"
      by simp
    with assms(3-5) show False
      by (simp add: unsigned_of_nat take_bit_nat_eq_self del: of_nat_mult)
  qed
  have "fst (test_inverseaddr M ?at Words s) \<noteq> None" for s
  proof
    assume "fst (test_inverseaddr M ?at Words s) = None"
    then have "\<forall>k<Words. fst (wload M (?at k) (fill M ?at (\<lambda>I Val. ucast (NOT (?at I))) (\<lambda>Val. Val) Words 0 0 s)) = ucast (NOT (?at k))"
      unfolding test_inverseaddr_def fill_check_def check_pure [OF assms(1)] by (simp add: vals_nth(2))
    from this [rule_format, of i] this [rule_format, of j] assms(2-4) d show False
      by simp
  qed
  then show "fst (subtests M ?at Words 0xDEADBEEF Pattern Subtest s) \<noteq> None"
    by (rule subtest_fails [where k = XIL_TESTMEM_INVERSEADDR]) (use assms(6) in auto)
  show "Subtest \<le> XIL_TESTMEM_MAXTEST"
    using assms(6) by (auto simp: XIL_TESTMEM_ALLMEMTESTS_def XIL_TESTMEM_INVERSEADDR_def XIL_TESTMEM_MAXTEST_def XIL_TESTMEM_FIXEDPATTERN_def)
qed

text \<open>A memory without the address line of bit 12.\<close>

definition alias_mem :: "(u64 \<Rightarrow> u32, u32) wmem" where
  "alias_mem = \<lparr>wload = (\<lambda>a m. (m (unset_bit 12 a), m)), wstore = (\<lambda>a v m. m(unset_bit 12 a := v))\<rparr>"

theorem alias_found_witness:
  "\<exists>ret rep s'. Xil_TestMem32l alias_mem 0x40000000 4096 0 XIL_TESTMEM_INVERSEADDR (\<lambda>_. 0) = Some (ret, rep, s') \<and> ret \<noteq> 0"
proof (rule alias_found [where i = 1 and j = 1025])
  have "unset_bit 12 (word_at 32 0x40000000 1) = unset_bit 12 (word_at 32 0x40000000 1025)"
    by code_simp
  then show "fst (wload alias_mem (word_at 32 0x40000000 1) s) = fst (wload alias_mem (word_at 32 0x40000000 1025) s)" for s
    by (simp add: alias_mem_def)
qed (simp_all add: alias_mem_def)

end
