(* ===== verification/Sysc_Fifo.thy ===== *)
theory Sysc_Fifo
  imports Lime_Prelude "HOL-Library.Sublist"
begin

text \<open>
  Stream channels of the simulated accelerator, cycle by cycle: the stream FIFO (\<^verbatim>\<open>src/ip/sysc/sfifo_cc.h\<close>), the
  plain FIFO and its stream wrapper (\<^verbatim>\<open>fifo_cc.h\<close>, \<^verbatim>\<open>rvfifo_cc.h\<close>), the register slices (\<^verbatim>\<open>sreg.h\<close>), the blocking
  calls of threads (\<^verbatim>\<open>sc_stream.h\<close>) and the reset pulse (\<^verbatim>\<open>pulse.h\<close>).

  A module is a state with output functions, which are its combinational methods, and a clock function, which is
  its sequential method. Signals written at a clock edge are seen after it, so a clock function reads the old state
  only. A value passes a stream at a clock edge at which \<^verbatim>\<open>valid\<close> and \<^verbatim>\<open>ready\<close> are both set.
\<close>

section \<open>Stream units\<close>

text \<open>
  What a unit between two streams promises. \<open>stored\<close> are the values it will deliver; \<open>f\<close> is what it does to a value.
  An input of a cycle is \<^verbatim>\<open>valid\<close> and \<^verbatim>\<open>data\<close> of the slave port and \<^verbatim>\<open>ready\<close> of the master port.
\<close>

type_synonym 'a cycle = "bool \<times> 'a \<times> bool"

definition taken :: "('s \<Rightarrow> bool \<Rightarrow> bool) \<Rightarrow> 's \<Rightarrow> 'a cycle \<Rightarrow> 'a list" where
  "taken s_ready s i = (case i of (v, d, r) \<Rightarrow> if v \<and> s_ready s r then [d] else [])"

definition given :: "('s \<Rightarrow> bool \<Rightarrow> bool) \<Rightarrow> ('s \<Rightarrow> 'a \<Rightarrow> 'b) \<Rightarrow> 's \<Rightarrow> 'a cycle \<Rightarrow> 'b list" where
  "given m_valid m_data s i = (case i of (v, d, r) \<Rightarrow> if m_valid s v \<and> r then [m_data s d] else [])"

fun cycles :: "('s \<Rightarrow> 'a cycle \<Rightarrow> 's) \<Rightarrow> 's \<Rightarrow> 'a cycle list \<Rightarrow> 's" where
  "cycles clock s [] = s"
| "cycles clock s (i # is) = cycles clock (clock s i) is"

fun trace_of :: "('s \<Rightarrow> 'a cycle \<Rightarrow> 's) \<Rightarrow> ('s \<Rightarrow> 'a cycle \<Rightarrow> 'b list) \<Rightarrow> 's \<Rightarrow> 'a cycle list \<Rightarrow> 'b list" where
  "trace_of clock out s [] = []"
| "trace_of clock out s (i # is) = out s i @ trace_of clock out (clock s i) is"

locale stream_unit =
  fixes s_ready :: "'s \<Rightarrow> bool \<Rightarrow> bool"
    and m_valid :: "'s \<Rightarrow> bool \<Rightarrow> bool"
    and m_data :: "'s \<Rightarrow> 'a \<Rightarrow> 'b"
    and clock :: "'s \<Rightarrow> 'a cycle \<Rightarrow> 's"
    and f :: "'a \<Rightarrow> 'b"
    and stored :: "'s \<Rightarrow> 'b list"
    and inv :: "'s \<Rightarrow> bool"
    and cap :: nat
  assumes conserved: "inv s \<Longrightarrow> given m_valid m_data s i @ stored (clock s i) = stored s @ map f (taken s_ready s i)"
    and bounded: "inv s \<Longrightarrow> length (stored s) \<le> cap"
    and kept: "inv s \<Longrightarrow> inv (clock s i)"
begin

lemma cycles_inv: "inv s \<Longrightarrow> inv (cycles clock s is)"
  by (induction "is" arbitrary: s) (simp_all add: kept)

lemma in_order:
  assumes "inv s"
  shows "trace_of clock (given m_valid m_data) s is @ stored (cycles clock s is) =
    stored s @ map f (trace_of clock (taken s_ready) s is)"
  using assms
proof (induction "is" arbitrary: s)
  case (Cons i "is")
  have "trace_of clock (given m_valid m_data) s (i # is) @ stored (cycles clock s (i # is)) =
      (given m_valid m_data s i @ stored (clock s i)) @ map f (trace_of clock (taken s_ready) (clock s i) is)"
    using Cons.IH [OF kept [OF Cons.prems]] by simp
  also have "\<dots> = stored s @ map f (trace_of clock (taken s_ready) s (i # is))"
    unfolding conserved [OF Cons.prems] by simp
  finally show ?case .
qed simp

lemma never_full: "inv s \<Longrightarrow> length (stored (cycles clock s is)) \<le> cap"
  by (rule bounded [OF cycles_inv])

end

text \<open>Two units in series: the second takes what the first gives.\<close>

definition chain_ready :: "('s \<Rightarrow> bool \<Rightarrow> bool) \<Rightarrow> ('t \<Rightarrow> bool \<Rightarrow> bool) \<Rightarrow> 's \<times> 't \<Rightarrow> bool \<Rightarrow> bool" where
  "chain_ready sr1 sr2 st r = sr1 (fst st) (sr2 (snd st) r)"

definition chain_valid :: "('s \<Rightarrow> bool \<Rightarrow> bool) \<Rightarrow> ('t \<Rightarrow> bool \<Rightarrow> bool) \<Rightarrow> 's \<times> 't \<Rightarrow> bool \<Rightarrow> bool" where
  "chain_valid mv1 mv2 st v = mv2 (snd st) (mv1 (fst st) v)"

definition chain_data :: "('s \<Rightarrow> 'a \<Rightarrow> 'b) \<Rightarrow> ('t \<Rightarrow> 'b \<Rightarrow> 'c) \<Rightarrow> 's \<times> 't \<Rightarrow> 'a \<Rightarrow> 'c" where
  "chain_data md1 md2 st d = md2 (snd st) (md1 (fst st) d)"

definition chain_clock ::
  "('s \<Rightarrow> bool \<Rightarrow> bool) \<Rightarrow> ('s \<Rightarrow> 'a \<Rightarrow> 'b) \<Rightarrow> ('s \<Rightarrow> 'a cycle \<Rightarrow> 's) \<Rightarrow> ('t \<Rightarrow> bool \<Rightarrow> bool) \<Rightarrow> ('t \<Rightarrow> 'b cycle \<Rightarrow> 't) \<Rightarrow>
   's \<times> 't \<Rightarrow> 'a cycle \<Rightarrow> 's \<times> 't" where
  "chain_clock mv1 md1 ck1 sr2 ck2 st i =
     (case i of (v, d, r) \<Rightarrow> (ck1 (fst st) (v, d, sr2 (snd st) r), ck2 (snd st) (mv1 (fst st) v, md1 (fst st) d, r)))"

lemma chain_stream_unit:
  assumes "stream_unit sr1 mv1 md1 ck1 f1 st1 inv1 cap1" "stream_unit sr2 mv2 md2 ck2 f2 st2 inv2 cap2"
  shows "stream_unit (chain_ready sr1 sr2) (chain_valid mv1 mv2) (chain_data md1 md2) (chain_clock mv1 md1 ck1 sr2 ck2)
    (f2 \<circ> f1) (\<lambda>(s, t). st2 t @ map f2 (st1 s)) (\<lambda>(s, t). inv1 s \<and> inv2 t) (cap1 + cap2)"
proof
  fix st :: "'a \<times> 'd" and i :: "'b cycle"
  assume inv: "case st of (s, t) \<Rightarrow> inv1 s \<and> inv2 t"
  obtain s t where st: "st = (s, t)"
    by fastforce
  obtain v d r where i: "i = (v, d, r)"
    by (cases i)
  have 1: "inv1 s" and 2: "inv2 t"
    using inv by (simp_all add: st)
  let ?i1 = "(v, d, sr2 t r)" and ?i2 = "(mv1 s v, md1 s d, r)"
  have "taken sr2 t ?i2 = given mv1 md1 s ?i1"
    by (simp add: taken_def given_def)
  then have "given mv2 md2 t ?i2 @ st2 (ck2 t ?i2) @ map f2 (st1 (ck1 s ?i1)) =
      (st2 t @ map f2 (st1 s)) @ map (f2 \<circ> f1) (taken sr1 s ?i1)"
    using stream_unit.conserved [OF assms(1) 1, of ?i1] stream_unit.conserved [OF assms(2) 2, of ?i2]
    by (metis append_assoc map_append map_map)
  moreover have "given (chain_valid mv1 mv2) (chain_data md1 md2) st i = given mv2 md2 t ?i2"
    "taken (chain_ready sr1 sr2) st i = taken sr1 s ?i1"
    by (simp_all add: given_def taken_def chain_valid_def chain_data_def chain_ready_def st i)
  ultimately show "given (chain_valid mv1 mv2) (chain_data md1 md2) st i @
      (case chain_clock mv1 md1 ck1 sr2 ck2 st i of (s, t) \<Rightarrow> st2 t @ map f2 (st1 s)) =
      (case st of (s, t) \<Rightarrow> st2 t @ map f2 (st1 s)) @ map (f2 \<circ> f1) (taken (chain_ready sr1 sr2) st i)"
    by (simp add: chain_clock_def st i)
  show "length (case st of (s, t) \<Rightarrow> st2 t @ map f2 (st1 s)) \<le> cap1 + cap2"
    using stream_unit.bounded [OF assms(1) 1] stream_unit.bounded [OF assms(2) 2] by (simp add: st)
  show "case chain_clock mv1 md1 ck1 sr2 ck2 st i of (s, t) \<Rightarrow> inv1 s \<and> inv2 t"
    using stream_unit.kept [OF assms(1) 1] stream_unit.kept [OF assms(2) 2] by (simp add: chain_clock_def st i)
qed

section \<open>The stream FIFO\<close>

text \<open>
  \<open>IW\<close> is the width of the indices in bits, so the array has \<open>2 ^ IW\<close> elements; \<open>T0\<close> is the default value of the data
  type. \<open>rst\<close> says that the reset signal is at its active level.
\<close>

record 'a sfifo =
  fdata :: "'a list"
  rd_idx :: nat
  wr_idx :: nat
  full_i :: bool
  empty_i :: bool

definition wr_en :: "'a sfifo \<Rightarrow> bool \<Rightarrow> bool" where
  "wr_en q valid \<longleftrightarrow> valid \<and> \<not> full_i q"

definition rd_en :: "'a sfifo \<Rightarrow> bool \<Rightarrow> bool" where
  "rd_en q ready \<longleftrightarrow> ready \<and> \<not> empty_i q"

text \<open>\<^verbatim>\<open>mc_proc\<close>: the outputs.\<close>

definition fifo_ready :: "'a sfifo \<Rightarrow> bool \<Rightarrow> bool" where
  "fifo_ready q r \<longleftrightarrow> \<not> full_i q"

definition fifo_valid :: "'a sfifo \<Rightarrow> bool \<Rightarrow> bool" where
  "fifo_valid q v \<longleftrightarrow> \<not> empty_i q"

definition fifo_data :: "'a sfifo \<Rightarrow> 'a \<Rightarrow> 'a" where
  "fifo_data q d = fdata q ! rd_idx q"

definition ms_proc :: "nat \<Rightarrow> nat \<Rightarrow> 'a \<Rightarrow> bool \<Rightarrow> 'a sfifo \<Rightarrow> 'a cycle \<Rightarrow> 'a sfifo" where
  "ms_proc IW depth T0 rst q i =
     (case i of (valid, d, ready) \<Rightarrow>
      let wr_inc = (wr_idx q + 1) mod depth mod 2 ^ IW; rd_inc = (rd_idx q + 1) mod depth mod 2 ^ IW;
          wr = wr_en q valid; rd = rd_en q ready
      in if rst then
           \<lparr>fdata = replicate depth T0 @ drop depth (fdata q), rd_idx = 0, wr_idx = 0, full_i = False, empty_i = True\<rparr>
         else
           let q1 = (if wr then
                 (let q1 = q\<lparr>fdata := (fdata q)[wr_idx q := d], wr_idx := wr_inc\<rparr>
                  in if rd then q1
                     else q1\<lparr>full_i := (if wr_inc = rd_idx q then True else full_i q), empty_i := False\<rparr>)
               else q)
           in if rd then
                (let q2 = q1\<lparr>rd_idx := rd_inc\<rparr>
                 in if wr then q2
                    else q2\<lparr>full_i := False, empty_i := (if rd_inc = wr_idx q then True else empty_i q)\<rparr>)
              else q1)"

text \<open>The values in the array, the oldest first, and the invariant.\<close>

definition fifo_count :: "nat \<Rightarrow> 'a sfifo \<Rightarrow> nat" where
  "fifo_count depth q = (if full_i q then depth else (wr_idx q + depth - rd_idx q) mod depth)"

definition fifo_stored :: "nat \<Rightarrow> 'a sfifo \<Rightarrow> 'a list" where
  "fifo_stored depth q = map (\<lambda>k. fdata q ! ((rd_idx q + k) mod depth)) [0..<fifo_count depth q]"

definition fifo_inv :: "nat \<Rightarrow> nat \<Rightarrow> 'a sfifo \<Rightarrow> bool" where
  "fifo_inv IW depth q \<longleftrightarrow> 0 < depth \<and> depth \<le> 2 ^ IW \<and> length (fdata q) = 2 ^ IW \<and> rd_idx q < depth \<and>
     wr_idx q < depth \<and> (full_i q \<or> empty_i q \<longleftrightarrow> wr_idx q = rd_idx q) \<and> \<not> (full_i q \<and> empty_i q)"

lemma fifo_count_props:
  assumes "fifo_inv IW depth q"
  shows "wr_idx q = (rd_idx q + fifo_count depth q) mod depth" "fifo_count depth q \<le> depth"
    "full_i q \<longleftrightarrow> fifo_count depth q = depth" "empty_i q \<longleftrightarrow> fifo_count depth q = 0"
proof -
  have a: "0 < depth" "rd_idx q < depth" "wr_idx q < depth"
    using assms by (simp_all add: fifo_inv_def)
  have c: "(wr_idx q + depth - rd_idx q) mod depth =
      (if rd_idx q \<le> wr_idx q then wr_idx q - rd_idx q else wr_idx q + depth - rd_idx q)"
    using a by (auto simp: mod_if)
  show "wr_idx q = (rd_idx q + fifo_count depth q) mod depth"
    using assms a by (auto simp: fifo_inv_def fifo_count_def c)
  show "fifo_count depth q \<le> depth" "full_i q \<longleftrightarrow> fifo_count depth q = depth" "empty_i q \<longleftrightarrow> fifo_count depth q = 0"
    using assms a by (auto simp: fifo_inv_def fifo_count_def c split: if_splits)
qed

text \<open>A state with \<open>n\<close> values in it is determined by its indices; the count is recovered.\<close>

lemma fifo_countI:
  assumes "0 < depth" "rd_idx q < depth" "n \<le> depth" "wr_idx q = (rd_idx q + n) mod depth" "full_i q \<longleftrightarrow> n = depth"
  shows "fifo_count depth q = n"
  using assms by (auto simp: fifo_count_def mod_if)

lemma mod_add_cancel_lt:
  fixes j k d :: nat
  assumes "j < d" "k < d" "(r + j) mod d = (r + k) mod d"
  shows "j = k"
proof -
  have "int (r + j) mod int d = int (r + k) mod int d"
    using assms(3) by (simp only: flip: zmod_int)
  then have "int d dvd int j - int k"
    by (simp add: mod_eq_dvd_iff)
  moreover have "\<bar>int j - int k\<bar> < int d"
    using assms(1,2) by linarith
  ultimately have "int j - int k = 0"
    by (metis abs_0_eq abs_dvd_iff dvd_abs_iff linorder_not_less zdvd_imp_le zero_less_abs_iff)
  then show ?thesis
    by simp
qed

lemma fifo_reset:
  assumes "0 < depth" "depth \<le> 2 ^ IW" "length (fdata q) = 2 ^ IW"
  shows "fifo_inv IW depth (ms_proc IW depth T0 True q i)" "fifo_stored depth (ms_proc IW depth T0 True q i) = []"
  using assms by (auto simp: fifo_inv_def ms_proc_def fifo_stored_def fifo_count_def split: prod.splits)

definition ring :: "nat \<Rightarrow> 'a list \<Rightarrow> nat \<Rightarrow> nat \<Rightarrow> 'a list" where
  "ring depth xs r n = map (\<lambda>k. xs ! ((r + k) mod depth)) [0..<n]"

lemma ring_0 [simp]: "ring depth xs r 0 = []"
  by (simp add: ring_def)

lemma length_ring [simp]: "length (ring depth xs r n) = n"
  by (simp add: ring_def)

lemma ring_push:
  assumes "n < depth" "depth \<le> length xs"
  shows "ring depth (xs[(r + n) mod depth := x]) r (Suc n) = ring depth xs r n @ [x]"
proof -
  have "(r + n) mod depth \<noteq> (r + k) mod depth" if "k < n" for k
    using mod_add_cancel_lt [of n depth k r] assms(1) that by auto
  moreover have "(r + n) mod depth < length xs"
    using assms by (metis less_le_trans less_nat_zero_code mod_less_divisor neq0_conv)
  ultimately show ?thesis
    by (simp add: ring_def)
qed

lemma ring_pop:
  assumes "r < depth"
  shows "ring depth xs r (Suc n) = xs ! r # ring depth xs ((r + 1) mod depth) n"
proof -
  have "[0..<Suc n] = 0 # map Suc [0..<n]"
    by (simp add: map_Suc_upt upt_conv_Cons del: upt_Suc)
  then have "ring depth xs r (Suc n) = map (\<lambda>k. xs ! ((r + k) mod depth)) (0 # map Suc [0..<n])"
    by (simp only: ring_def)
  then show ?thesis
    using assms by (simp add: ring_def mod_simps add.commute)
qed

lemma fifo_stored_ring: "fifo_stored depth q = ring depth (fdata q) (rd_idx q) (fifo_count depth q)"
  by (simp add: fifo_stored_def ring_def)

lemma length_fifo_stored: "length (fifo_stored depth q) = fifo_count depth q"
  by (simp add: fifo_stored_ring)

text \<open>A state from its parts.\<close>

lemma fifo_invI:
  assumes "0 < depth" "depth \<le> 2 ^ IW" "length (fdata q) = 2 ^ IW" "rd_idx q < depth" "n \<le> depth"
    and "wr_idx q = (rd_idx q + n) mod depth" "full_i q \<longleftrightarrow> n = depth" "empty_i q \<longleftrightarrow> n = 0"
  shows "fifo_inv IW depth q \<and> fifo_stored depth q = ring depth (fdata q) (rd_idx q) n"
proof -
  have "(rd_idx q + n) mod depth = rd_idx q \<longleftrightarrow> n = 0 \<or> n = depth"
    using assms(1,4,5) mod_add_cancel_lt [of n depth 0 "rd_idx q"] by (cases "n = depth") auto
  then show ?thesis
    using assms fifo_countI [of depth q n] by (auto simp: fifo_inv_def fifo_stored_ring)
qed

text \<open>The indices after a write and after a read.\<close>

lemma fifo_wr_inc:
  assumes "fifo_inv IW depth q"
  shows "Suc (wr_idx q) mod depth = (rd_idx q + Suc (fifo_count depth q)) mod depth"
    and "fifo_count depth q < depth \<Longrightarrow> Suc (wr_idx q) mod depth = rd_idx q \<longleftrightarrow> Suc (fifo_count depth q) = depth"
proof -
  let ?n = "fifo_count depth q"
  show wr: "Suc (wr_idx q) mod depth = (rd_idx q + Suc ?n) mod depth"
    by (subst fifo_count_props(1) [OF assms]) (simp add: mod_simps)
  show "Suc (wr_idx q) mod depth = rd_idx q \<longleftrightarrow> Suc ?n = depth" if "?n < depth"
    unfolding wr using that assms mod_add_cancel_lt [of "Suc ?n" depth 0 "rd_idx q"]
    by (cases "Suc ?n = depth") (auto simp: fifo_inv_def)
qed

lemma fifo_rd_inc:
  assumes "fifo_inv IW depth q" "fifo_count depth q = Suc m"
  shows "wr_idx q = (Suc (rd_idx q) mod depth + m) mod depth" "Suc (rd_idx q) mod depth = wr_idx q \<longleftrightarrow> m = 0"
proof -
  show rd: "wr_idx q = (Suc (rd_idx q) mod depth + m) mod depth"
    by (subst fifo_count_props(1) [OF assms(1)]) (simp add: mod_simps assms(2))
  show "Suc (rd_idx q) mod depth = wr_idx q \<longleftrightarrow> m = 0"
    unfolding rd using assms fifo_count_props(2) [OF assms(1)] mod_add_cancel_lt [of 0 depth m "Suc (rd_idx q)"]
    by (auto simp: mod_simps fifo_inv_def)
qed

lemma ring_fifo_pop:
  assumes "fifo_inv IW depth q"
  shows "ring depth xs (rd_idx q) (Suc m) = xs ! rd_idx q # ring depth xs (Suc (rd_idx q) mod depth) m"
  using ring_pop [of "rd_idx q" depth xs m] assms by (simp add: fifo_inv_def)

lemma ring_fifo_push:
  assumes "fifo_inv IW depth q" "fifo_count depth q < depth"
  shows "ring depth ((fdata q)[wr_idx q := d]) (rd_idx q) (Suc (fifo_count depth q)) = fifo_stored depth q @ [d]"
  using ring_push [of "fifo_count depth q" depth "fdata q" "rd_idx q" d] assms fifo_count_props(1) [OF assms(1)]
  by (simp add: fifo_inv_def fifo_stored_ring)

lemma fifo_push:
  fixes d :: 'a
  assumes "fifo_inv IW depth q" "\<not> full_i q"
  defines "q' \<equiv> q\<lparr>fdata := (fdata q)[wr_idx q := d], wr_idx := Suc (wr_idx q) mod depth,
      full_i := Suc (wr_idx q) mod depth = rd_idx q, empty_i := False\<rparr>"
  shows "fifo_inv IW depth q' \<and> fifo_stored depth q' = fifo_stored depth q @ [d]"
proof -
  have n: "fifo_count depth q < depth"
    using assms(2) fifo_count_props [OF assms(1)] by auto
  show ?thesis
    using fifo_invI [of depth IW q' "Suc (fifo_count depth q)"] fifo_wr_inc [OF assms(1)] n
      ring_fifo_push [OF assms(1) n, of d] assms(1)
    by (simp add: q'_def fifo_inv_def)
qed

lemma fifo_pop:
  assumes "fifo_inv IW depth q" "\<not> empty_i q"
  defines "q' \<equiv> q\<lparr>rd_idx := Suc (rd_idx q) mod depth, full_i := False, empty_i := Suc (rd_idx q) mod depth = wr_idx q\<rparr>"
  shows "fifo_inv IW depth q' \<and> fdata q ! rd_idx q # fifo_stored depth q' = fifo_stored depth q"
proof -
  obtain m where m: "fifo_count depth q = Suc m"
    using assms(2) fifo_count_props(4) [OF assms(1)] by (cases "fifo_count depth q") auto
  have d: "0 < depth" "m < depth"
    using m fifo_count_props(2) [OF assms(1)] by simp_all
  show ?thesis
    using fifo_invI [of depth IW q' m] fifo_rd_inc [OF assms(1) m] ring_fifo_pop [OF assms(1), of "fdata q" m] d assms(1)
    by (auto simp add: q'_def fifo_inv_def fifo_stored_ring m)
qed

lemma fifo_push_pop:
  fixes d :: 'a
  assumes "fifo_inv IW depth q" "\<not> full_i q" "\<not> empty_i q"
  defines "q' \<equiv> q\<lparr>fdata := (fdata q)[wr_idx q := d], wr_idx := Suc (wr_idx q) mod depth, rd_idx := Suc (rd_idx q) mod depth\<rparr>"
  shows "fifo_inv IW depth q' \<and> fdata q ! rd_idx q # fifo_stored depth q' = fifo_stored depth q @ [d]"
proof -
  let ?n = "fifo_count depth q"
  have n: "?n < depth" "?n \<noteq> 0"
    using assms(2,3) fifo_count_props [OF assms(1)] by auto
  have "wr_idx q \<noteq> rd_idx q"
    using assms(1-3) by (simp add: fifo_inv_def)
  moreover have "Suc (wr_idx q) mod depth = (Suc (rd_idx q) mod depth + ?n) mod depth"
    unfolding fifo_wr_inc(1) [OF assms(1)] by (simp add: mod_simps)
  ultimately show ?thesis
    using fifo_invI [of depth IW q' ?n] ring_fifo_push [OF assms(1) n(1), of d]
      ring_fifo_pop [OF assms(1), of "(fdata q)[wr_idx q := d]" ?n] n assms(1-3)
    by (simp add: q'_def fifo_inv_def)
qed

lemma fifo_clock:
  assumes "fifo_inv IW depth q"
  shows "fifo_inv IW depth (ms_proc IW depth T0 False q i) \<and>
    given fifo_valid fifo_data q i @ fifo_stored depth (ms_proc IW depth T0 False q i) = fifo_stored depth q @ taken fifo_ready q i"
proof -
  obtain v d r where i: "i = (v, d, r)"
    by (cases i)
  have inc: "k mod depth mod 2 ^ IW = k mod depth" for k
    using mod_less_divisor [of depth k] assms unfolding fifo_inv_def by (metis less_le_trans mod_less)
  note defs = i given_def taken_def fifo_valid_def fifo_data_def fifo_ready_def ms_proc_def Let_def inc wr_en_def rd_en_def
  show ?thesis
    using assms fifo_push [OF assms, of d] fifo_pop [OF assms] fifo_push_pop [OF assms, of d]
    by (cases "v \<and> \<not> full_i q"; cases "r \<and> \<not> empty_i q") (auto simp: defs)
qed

interpretation sfifo: stream_unit fifo_ready fifo_valid fifo_data "ms_proc IW depth T0 False" id "fifo_stored depth"
  "fifo_inv IW depth" depth for IW depth T0
  by unfold_locales (simp_all add: fifo_clock length_fifo_stored fifo_count_props)

lemma fifo_flags:
  assumes "fifo_inv IW depth q"
  shows "fifo_valid q v \<longleftrightarrow> fifo_stored depth q \<noteq> []" "fifo_ready q r \<longleftrightarrow> length (fifo_stored depth q) < depth"
    "fifo_valid q v \<Longrightarrow> fifo_data q d = hd (fifo_stored depth q)"
proof -
  show "fifo_valid q v \<longleftrightarrow> fifo_stored depth q \<noteq> []" "fifo_ready q r \<longleftrightarrow> length (fifo_stored depth q) < depth"
    using fifo_count_props [OF assms] by (auto simp: fifo_valid_def fifo_ready_def fifo_stored_def)
  show "fifo_data q d = hd (fifo_stored depth q)" if "fifo_valid q v"
    using fifo_pop [OF assms] that by (auto simp: fifo_data_def fifo_valid_def dest: sym)
qed

section \<open>The plain FIFO and its stream wrapper\<close>

text \<open>\<open>dout\<close> is the output register, which is only used without first word fall through.\<close>

record 'a fifo_cc =
  core :: "'a sfifo"
  dout :: 'a

definition fifo_cc_dout :: "bool \<Rightarrow> 'a fifo_cc \<Rightarrow> 'a" where
  "fifo_cc_dout FWFT c = (if FWFT then fdata (core c) ! rd_idx (core c) else dout c)"

definition fifo_cc_full :: "bool \<Rightarrow> 'a fifo_cc \<Rightarrow> bool" where
  "fifo_cc_full FLEV c \<longleftrightarrow> full_i (core c) = FLEV"

definition fifo_cc_empty :: "bool \<Rightarrow> 'a fifo_cc \<Rightarrow> bool" where
  "fifo_cc_empty FLEV c \<longleftrightarrow> empty_i (core c) = FLEV"

definition fifo_cc_clock :: "bool \<Rightarrow> nat \<Rightarrow> nat \<Rightarrow> 'a \<Rightarrow> bool \<Rightarrow> 'a fifo_cc \<Rightarrow> 'a cycle \<Rightarrow> 'a fifo_cc" where
  "fifo_cc_clock FWFT IW depth T0 rst c i =
     (case i of (wr, din, rd) \<Rightarrow>
       \<lparr>core = ms_proc IW depth T0 rst (core c) (wr, din, rd),
        dout = (if FWFT then dout c else if rst then T0
                else if rd_en (core c) rd then fdata (core c) ! rd_idx (core c) else dout c)\<rparr>)"

text \<open>\<^verbatim>\<open>rvfifo_cc\<close>: first word fall through, flags active low, so that they are \<^verbatim>\<open>ready\<close> and \<^verbatim>\<open>valid\<close>.\<close>

definition rvfifo_ready :: "'a fifo_cc \<Rightarrow> bool \<Rightarrow> bool" where
  "rvfifo_ready c r = fifo_cc_full False c"

definition rvfifo_valid :: "'a fifo_cc \<Rightarrow> bool \<Rightarrow> bool" where
  "rvfifo_valid c v = fifo_cc_empty False c"

definition rvfifo_data :: "'a fifo_cc \<Rightarrow> 'a \<Rightarrow> 'a" where
  "rvfifo_data c d = fifo_cc_dout True c"

definition rvfifo_clock :: "nat \<Rightarrow> nat \<Rightarrow> 'a \<Rightarrow> bool \<Rightarrow> 'a fifo_cc \<Rightarrow> 'a cycle \<Rightarrow> 'a fifo_cc" where
  "rvfifo_clock IW depth T0 rst = fifo_cc_clock True IW depth T0 rst"

lemma rvfifo_core:
  "core (rvfifo_clock IW depth T0 rst c i) = ms_proc IW depth T0 rst (core c) i"
  "rvfifo_ready c = fifo_ready (core c)" "rvfifo_valid c = fifo_valid (core c)" "rvfifo_data c = fifo_data (core c)"
  by (auto simp: rvfifo_clock_def fifo_cc_clock_def rvfifo_ready_def fifo_cc_full_def fifo_ready_def rvfifo_valid_def
      fifo_cc_empty_def fifo_valid_def rvfifo_data_def fifo_cc_dout_def fifo_data_def split: prod.splits)

interpretation rvfifo: stream_unit rvfifo_ready rvfifo_valid rvfifo_data "rvfifo_clock IW depth T0 False" id
  "\<lambda>c. fifo_stored depth (core c)" "\<lambda>c. fifo_inv IW depth (core c)" depth for IW depth T0
proof
  fix c :: "'a fifo_cc" and i
  assume "fifo_inv IW depth (core c)"
  note this [THEN fifo_clock, of T0 i] this [THEN sfifo.bounded]
  then show "given rvfifo_valid rvfifo_data c i @ fifo_stored depth (core (rvfifo_clock IW depth T0 False c i)) =
      fifo_stored depth (core c) @ map id (taken rvfifo_ready c i)"
    "fifo_inv IW depth (core (rvfifo_clock IW depth T0 False c i))" "length (fifo_stored depth (core c)) \<le> depth"
    unfolding rvfifo_core given_def taken_def by simp_all
qed

text \<open>Without fall through a value read appears in the output register after the edge.\<close>

lemma fifo_cc_registered:
  assumes "fifo_inv IW depth (core c)" "rd_en (core c) rd"
  shows "fifo_cc_dout False (fifo_cc_clock False IW depth T0 False c (wr, din, rd)) = hd (fifo_stored depth (core c))"
  using fifo_flags [OF assms(1)] assms(2)
  by (auto simp: fifo_cc_dout_def fifo_cc_clock_def rd_en_def fifo_valid_def fifo_data_def)

section \<open>Register slices\<close>

definition bypass_ready :: "unit \<Rightarrow> bool \<Rightarrow> bool" where
  "bypass_ready s r = r"

definition bypass_valid :: "unit \<Rightarrow> bool \<Rightarrow> bool" where
  "bypass_valid s v = v"

definition bypass_data :: "unit \<Rightarrow> 'a \<Rightarrow> 'a" where
  "bypass_data s d = d"

interpretation bypass: stream_unit bypass_ready bypass_valid bypass_data "\<lambda>s i. s" id "\<lambda>s. []" "\<lambda>s. True" 0
  by unfold_locales (auto simp: given_def taken_def bypass_ready_def bypass_valid_def bypass_data_def split: prod.splits)

text \<open>Forward slice: a register for \<^verbatim>\<open>valid\<close> and \<^verbatim>\<open>data\<close>.\<close>

record 'a sreg_fwd =
  c_valid :: bool
  c_data :: 'a

definition fwd_ready :: "'a sreg_fwd \<Rightarrow> bool \<Rightarrow> bool" where
  "fwd_ready s r \<longleftrightarrow> r \<or> \<not> c_valid s"

definition fwd_valid :: "'a sreg_fwd \<Rightarrow> bool \<Rightarrow> bool" where
  "fwd_valid s v = c_valid s"

definition fwd_data :: "'a sreg_fwd \<Rightarrow> 'a \<Rightarrow> 'a" where
  "fwd_data s d = c_data s"

definition fwd_clock :: "'a \<Rightarrow> bool \<Rightarrow> 'a sreg_fwd \<Rightarrow> 'a cycle \<Rightarrow> 'a sreg_fwd" where
  "fwd_clock T0 rst s i =
     (case i of (valid, d, ready) \<Rightarrow>
       if rst then \<lparr>c_valid = False, c_data = T0\<rparr>
       else if ready \<or> \<not> c_valid s then \<lparr>c_valid = valid, c_data = d\<rparr> else s)"

definition fwd_stored :: "'a sreg_fwd \<Rightarrow> 'a list" where
  "fwd_stored s = (if c_valid s then [c_data s] else [])"

interpretation fwd: stream_unit fwd_ready fwd_valid fwd_data "fwd_clock T0 False" id fwd_stored "\<lambda>s. True" 1 for T0
  by unfold_locales (auto simp: given_def taken_def fwd_ready_def fwd_valid_def fwd_data_def fwd_clock_def fwd_stored_def
      split: prod.splits)

text \<open>Forward and reverse slice: two registers used as a FIFO, with the methods of the FIFO.\<close>

definition fwd_rev_clock :: "'a \<Rightarrow> bool \<Rightarrow> 'a sfifo \<Rightarrow> 'a cycle \<Rightarrow> 'a sfifo" where
  "fwd_rev_clock = ms_proc 1 2"

interpretation fwd_rev: stream_unit fifo_ready fifo_valid fifo_data "fwd_rev_clock T0 False" id "fifo_stored 2" "fifo_inv 1 2" 2 for T0
  unfolding fwd_rev_clock_def by (rule sfifo.stream_unit_axioms)

section \<open>Threads on both ends\<close>

text \<open>
  \<^verbatim>\<open>write\<close> offers its value until an edge finds \<^verbatim>\<open>ready\<close>; \<^verbatim>\<open>read\<close> is ready until an edge finds \<^verbatim>\<open>valid\<close>. A thread
  that calls again at once never lowers its signal: of two writes to a signal in one cycle the last counts.
\<close>

definition write_edge :: "bool \<Rightarrow> 'a option \<Rightarrow> 'a option" where
  "write_edge ready offer = (if ready then None else offer)"

definition read_edge :: "bool \<Rightarrow> 'a \<Rightarrow> bool \<Rightarrow> bool \<times> 'a list" where
  "read_edge valid d reading = (if reading \<and> valid then (False, [d]) else (reading, []))"

text \<open>A thread that writes the values \<open>todo\<close>, a FIFO, and a thread that reads; \<open>pgo\<close> and \<open>cgo\<close> say when they call.\<close>

record 'a link =
  todo :: "'a list"
  offer :: "'a option"
  lq :: "'a sfifo"
  reading :: bool
  got :: "'a list"

definition link_clock :: "nat \<Rightarrow> nat \<Rightarrow> 'a \<Rightarrow> 'a link \<Rightarrow> bool \<times> bool \<Rightarrow> 'a link" where
  "link_clock IW depth T0 s go =
     (case go of (pgo, cgo) \<Rightarrow>
      let w = write_edge (fifo_ready (lq s) True) (offer s);
          (rd, ds) = read_edge (fifo_valid (lq s) True) (fifo_data (lq s) T0) (reading s);
          q = ms_proc IW depth T0 False (lq s) (offer s \<noteq> None, the (offer s), reading s);
          call = (w = None \<and> pgo \<and> todo s \<noteq> [])
      in \<lparr>todo = (if call then tl (todo s) else todo s), offer = (if call then Some (hd (todo s)) else w), lq = q,
          reading = rd \<or> cgo, got = got s @ ds\<rparr>)"

definition link_all :: "nat \<Rightarrow> 'a link \<Rightarrow> 'a list" where
  "link_all depth s = got s @ fifo_stored depth (lq s) @ (case offer s of None \<Rightarrow> [] | Some d \<Rightarrow> [d]) @ todo s"

lemma link_clock_conserves:
  assumes "fifo_inv IW depth (lq s)"
  shows "fifo_inv IW depth (lq (link_clock IW depth T0 s go))" "link_all depth (link_clock IW depth T0 s go) = link_all depth s"
proof -
  obtain pgo cgo where go: "go = (pgo, cgo)"
    by (cases go)
  let ?i = "(offer s \<noteq> None, the (offer s), reading s)"
  show "fifo_inv IW depth (lq (link_clock IW depth T0 s go))"
    using fifo_clock [OF assms, of T0 ?i] by (simp add: link_clock_def go Let_def split: prod.splits)
  have "(if fifo_valid (lq s) True \<and> reading s then [fifo_data (lq s) T0] else []) @ fifo_stored depth (ms_proc IW depth T0 False (lq s) ?i) =
      fifo_stored depth (lq s) @ (if offer s \<noteq> None \<and> fifo_ready (lq s) True then [the (offer s)] else [])"
    using fifo_clock [OF assms, of T0 ?i] unfolding given_def taken_def fifo_valid_def fifo_ready_def fifo_data_def prod.case
    by blast
  then show "link_all depth (link_clock IW depth T0 s go) = link_all depth s"
    unfolding link_all_def link_clock_def go write_edge_def read_edge_def Let_def
    by (auto split: option.splits if_splits)
qed

fun link_run :: "nat \<Rightarrow> nat \<Rightarrow> 'a \<Rightarrow> 'a link \<Rightarrow> (bool \<times> bool) list \<Rightarrow> 'a link" where
  "link_run IW depth T0 s [] = s"
| "link_run IW depth T0 s (g # gs) = link_run IW depth T0 (link_clock IW depth T0 s g) gs"

lemma link_run_conserves:
  "fifo_inv IW depth (lq s) \<Longrightarrow> fifo_inv IW depth (lq (link_run IW depth T0 s gs)) \<and>
    link_all depth (link_run IW depth T0 s gs) = link_all depth s"
  by (induction gs arbitrary: s) (simp_all add: link_clock_conserves)

text \<open>When both threads call whenever they can, every edge moves a value.\<close>

definition link_work :: "nat \<Rightarrow> 'a link \<Rightarrow> nat" where
  "link_work depth s = 3 * length (todo s) + (if offer s = None then 0 else 2) + length (fifo_stored depth (lq s))"

lemma link_clock_works:
  assumes "fifo_inv IW depth (lq s)" "reading s"
  shows "link_work depth (link_clock IW depth T0 s (True, True)) \<le> link_work depth s - 1"
    and "reading (link_clock IW depth T0 s (True, True))"
proof -
  let ?q = "lq s" and ?i = "(offer s \<noteq> None, the (offer s), reading s)"
  have n: "length (given fifo_valid fifo_data ?q ?i) + length (fifo_stored depth (ms_proc IW depth T0 False ?q ?i)) =
      length (fifo_stored depth ?q) + length (taken fifo_ready ?q ?i)"
    using fifo_clock [OF assms(1), of T0 ?i] by (metis length_append)
  have d: "0 < depth"
    using assms(1) by (simp add: fifo_inv_def)
  have v: "fifo_valid ?q b \<longleftrightarrow> fifo_stored depth ?q \<noteq> []" "fifo_ready ?q b \<longleftrightarrow> length (fifo_stored depth ?q) < depth" for b
    using fifo_flags [OF assms(1)] by blast+
  show "link_work depth (link_clock IW depth T0 s (True, True)) \<le> link_work depth s - 1"
    using n assms(2) d unfolding link_work_def link_clock_def write_edge_def read_edge_def given_def taken_def Let_def v
    by (cases "offer s"; cases "fifo_stored depth ?q"; cases "todo s") auto
  show "reading (link_clock IW depth T0 s (True, True))"
    by (simp add: link_clock_def Let_def split: prod.splits)
qed

lemma link_run_done:
  assumes "fifo_inv IW depth (lq s)" "reading s" "link_work depth s \<le> n"
  shows "link_work depth (link_run IW depth T0 s (replicate n (True, True))) = 0"
  using assms
proof (induction n arbitrary: s)
  case (Suc n)
  let ?s = "link_clock IW depth T0 s (True, True)"
  have "link_work depth ?s \<le> n" "reading ?s"
    using link_clock_works [OF Suc.prems(1,2), of T0] Suc.prems(3) by simp_all
  then show ?case
    using Suc.IH [of ?s] link_clock_conserves(1) [OF Suc.prems(1)] by simp
qed simp

text \<open>C18: Whatever the two threads do, no value is lost, doubled or overtaken between a thread that writes to a stream FIFO
  and one that reads from it; at most \<open>depth\<close> values are under way in the FIFO; and when both threads call
  whenever they can, every value has arrived after three edges per value.\<close>

theorem stream_delivers:
  assumes "fifo_inv IW depth q" "fifo_stored depth q = []" "s = \<lparr>todo = ds, offer = None, lq = q, reading = True, got = []\<rparr>"
  shows "prefix (got (link_run IW depth T0 s gs)) ds \<and>
    length (fifo_stored depth (lq (link_run IW depth T0 s gs))) \<le> depth \<and>
    got (link_run IW depth T0 s (replicate (3 * length ds + k) (True, True))) = ds"
proof -
  have i: "fifo_inv IW depth (lq s)" and a: "link_all depth s = ds"
    using assms by (simp_all add: link_all_def)
  note c = link_run_conserves [OF i, of T0, unfolded a]
  have "prefix (got (link_run IW depth T0 s gs)) ds"
    using c [of gs] by (auto simp: link_all_def prefix_def)
  moreover have "length (fifo_stored depth (lq (link_run IW depth T0 s gs))) \<le> depth"
    using c [of gs] sfifo.bounded by blast
  moreover have "got (link_run IW depth T0 s (replicate (3 * length ds + k) (True, True))) = ds"
    using c [of "replicate (3 * length ds + k) (True, True)"] link_run_done [OF i, of "3 * length ds + k" T0] assms
    by (auto simp: link_all_def link_work_def split: if_splits)
  ultimately show ?thesis
    by blast
qed

text \<open>The FIFO of one element in front of the load-store unit's registers, after a reset.\<close>

theorem stream_delivers_witness:
  "got (link_run 1 1 0 \<lparr>todo = [3, 5, 8 :: u8], offer = None,
      lq = ms_proc 1 1 0 True \<lparr>fdata = [0, 0], rd_idx = 0, wr_idx = 1, full_i = False, empty_i = False\<rparr> (False, 0, False),
      reading = True, got = []\<rparr> (replicate 9 (True, True))) = [3, 5, 8]"
proof -
  let ?q = "ms_proc 1 1 0 True \<lparr>fdata = [0, 0 :: u8], rd_idx = 0, wr_idx = 1, full_i = False, empty_i = False\<rparr> (False, 0, False)"
  have "fifo_inv 1 1 ?q" "fifo_stored 1 ?q = []"
    by (rule fifo_reset; simp)+
  from stream_delivers [OF this refl, of 0 "[3, 5, 8]" "[]" 0] show ?thesis
    by simp
qed

text \<open>The FIFO built from the plain FIFO (used for synthesis) and the stream FIFO (used for simulation) take and give the
  same values in the same cycles, for every input, so that the two choices of the stream library are interchangeable.\<close>

theorem rvfifo_same_stream:
  "trace_of (rvfifo_clock IW depth T0 rst) (given rvfifo_valid rvfifo_data) c is =
     trace_of (ms_proc IW depth T0 rst) (given fifo_valid fifo_data) (core c) is \<and>
   trace_of (rvfifo_clock IW depth T0 rst) (taken rvfifo_ready) c is =
     trace_of (ms_proc IW depth T0 rst) (taken fifo_ready) (core c) is"
proof (induction "is" arbitrary: c)
  case (Cons i "is")
  then show ?case
    by (simp add: rvfifo_core) (simp only: given_def taken_def rvfifo_core)
qed simp

section \<open>Reset pulse\<close>

datatype pulse_state = INIT_S | PRE_S | PULSE_S | POST_S

record pulse =
  pst :: pulse_state
  pcount :: u8
  sig :: bool

definition ms_pulse :: "nat \<Rightarrow> nat \<Rightarrow> bool \<Rightarrow> pulse \<Rightarrow> pulse" where
  "ms_pulse DELAY CYCLES PLEV p =
     (case pst p of
        INIT_S \<Rightarrow>
          if DELAY \<noteq> 0 \<and> CYCLES \<noteq> 0 then p\<lparr>pst := PRE_S, pcount := of_nat (DELAY - 1), sig := \<not> PLEV\<rparr>
          else if CYCLES \<noteq> 0 then p\<lparr>pst := PULSE_S, pcount := of_nat (CYCLES - 1), sig := PLEV\<rparr>
          else p\<lparr>pst := POST_S, sig := \<not> PLEV\<rparr>
      | PRE_S \<Rightarrow>
          if pcount p = 0 then p\<lparr>pst := PULSE_S, pcount := of_nat (CYCLES - 1), sig := PLEV\<rparr>
          else p\<lparr>pcount := pcount p - 1\<rparr>
      | PULSE_S \<Rightarrow>
          if pcount p = 0 then p\<lparr>pst := POST_S, sig := \<not> PLEV\<rparr>
          else p\<lparr>pcount := pcount p - 1\<rparr>
      | POST_S \<Rightarrow> p)"

text \<open>What holds after \<open>n\<close> edges, for \<open>n\<close> at least one.\<close>

definition pulse_at :: "nat \<Rightarrow> nat \<Rightarrow> bool \<Rightarrow> nat \<Rightarrow> pulse \<Rightarrow> bool" where
  "pulse_at DELAY CYCLES PLEV n p \<longleftrightarrow>
     (if n \<le> DELAY then pst p = PRE_S \<and> pcount p = of_nat (DELAY - n) \<and> sig p = (\<not> PLEV)
      else if n \<le> DELAY + CYCLES then pst p = PULSE_S \<and> pcount p = of_nat (DELAY + CYCLES - n) \<and> sig p = PLEV
      else pst p = POST_S \<and> sig p = (\<not> PLEV))"

lemma of_nat_u8_eq_0: "m < 256 \<Longrightarrow> (of_nat m :: u8) = 0 \<longleftrightarrow> m = 0"
  by (simp add: word_unat_eq_iff unsigned_of_nat take_bit_nat_eq_self)

lemma ms_pulse_step:
  assumes "pulse_at DELAY CYCLES PLEV n p" "0 < n" "0 < CYCLES" "DELAY \<le> 256" "CYCLES \<le> 256"
  shows "pulse_at DELAY CYCLES PLEV (Suc n) (ms_pulse DELAY CYCLES PLEV p)"
proof -
  have d: "of_nat (Suc m) - 1 = (of_nat m :: u8)" for m
    by simp
  consider "n < DELAY" | "n = DELAY" | "DELAY < n" "n < DELAY + CYCLES" | "n = DELAY + CYCLES" | "DELAY + CYCLES < n"
    by linarith
  then show ?thesis
  proof cases
    case 1
    then obtain m where "DELAY - n = Suc m" "DELAY - Suc n = m" "Suc m < 256"
      using assms(2,4) by (metis Suc_diff_Suc diff_less leD less_le_trans linorder_not_less nat_less_le zero_less_diff)
    then show ?thesis
      using 1 assms(1) of_nat_u8_eq_0 [of "Suc m"] by (simp add: pulse_at_def ms_pulse_def d del: of_nat_Suc)
  next
    case 3
    then obtain m where "DELAY + CYCLES - n = Suc m" "DELAY + CYCLES - Suc n = m" "Suc m < 256"
      using assms(5) by (intro that [of "DELAY + CYCLES - Suc n"]) auto
    then show ?thesis
      using 3 assms(1) of_nat_u8_eq_0 [of "Suc m"] by (simp add: pulse_at_def ms_pulse_def d del: of_nat_Suc)
  qed (use assms in \<open>auto simp: pulse_at_def ms_pulse_def\<close>)
qed

text \<open>The reset signal is active exactly after the edges \<open>DELAY + 1\<close> to \<open>DELAY + CYCLES\<close>.\<close>

lemma pulse_window:
  assumes "pst p = INIT_S" "0 < CYCLES" "DELAY \<le> 256" "CYCLES \<le> 256" "0 < n"
  shows "sig ((ms_pulse DELAY CYCLES PLEV ^^ n) p) = PLEV \<longleftrightarrow> DELAY < n \<and> n \<le> DELAY + CYCLES"
proof -
  have "pulse_at DELAY CYCLES PLEV (Suc k) ((ms_pulse DELAY CYCLES PLEV ^^ Suc k) p)" for k
  proof (induction k)
    case 0
    then show ?case
      using assms by (cases DELAY) (auto simp: pulse_at_def ms_pulse_def)
  next
    case (Suc k)
    from ms_pulse_step [OF Suc.IH _ assms(2-4)] show ?case
      by simp
  qed
  from this [of "n - 1"] show ?thesis
    using assms(5) by (cases PLEV) (auto simp: pulse_at_def split: if_splits)
qed

end
