(* ===== verification/Sysc_Port.thy ===== *)
theory Sysc_Port
  imports Aport
begin

text \<open>
  The words on the streams of the simulated accelerator (\<^verbatim>\<open>src/ip/sysc/port_axis.h\<close>, \<^verbatim>\<open>port_dma.h\<close>, \<^verbatim>\<open>ctlreg.h\<close>) with
  their packing into bit vectors, and the stream port of the simulated processor (\<^verbatim>\<open>src/shared/sysc/stream.cpp\<close>).
  A field of one bit is a truth value. The concatenation macros name the fields from the most significant on.
\<close>

section \<open>Register access commands\<close>

record RACC =
  ra_len :: "3 word"
  ra_sel :: "3 word"
  ra_wr :: bool
  ra_go :: bool

definition RACC_ui :: "RACC \<Rightarrow> u8" where
  "RACC_ui c = push_bit 7 (of_bool (ra_go c)) OR push_bit 6 (of_bool (ra_wr c)) OR push_bit 3 (ucast (ra_sel c)) OR ucast (ra_len c)"

definition RACC_of :: "u8 \<Rightarrow> RACC" where
  "RACC_of w = \<lparr>ra_len = ucast w, ra_sel = ucast (drop_bit 3 w), ra_wr = bit w 6, ra_go = bit w 7\<rparr>"

record ACMD =
  ac_sid :: "4 word"
  ac_did :: "4 word"
  ac_srac :: RACC
  ac_drac :: RACC

definition ACMD_ui :: "ACMD \<Rightarrow> 24 word" where
  "ACMD_ui c = push_bit 16 (ucast (RACC_ui (ac_drac c))) OR push_bit 8 (ucast (RACC_ui (ac_srac c))) OR
     push_bit 4 (ucast (ac_did c)) OR ucast (ac_sid c)"

definition ACMD_of :: "24 word \<Rightarrow> ACMD" where
  "ACMD_of w = \<lparr>ac_sid = ucast w, ac_did = ucast (drop_bit 4 w), ac_srac = RACC_of (ucast (drop_bit 8 w)),
     ac_drac = RACC_of (ucast (drop_bit 16 w))\<rparr>"

section \<open>Transfers\<close>

record TAG =
  tg_did :: "4 word"
  tg_req :: bool

definition TAG_ui :: "TAG \<Rightarrow> 5 word" where
  "TAG_ui t = push_bit 4 (of_bool (tg_req t)) OR ucast (tg_did t)"

definition TAG_of :: "5 word \<Rightarrow> TAG" where
  "TAG_of w = \<lparr>tg_did = ucast w, tg_req = bit w 4\<rparr>"

record DMAC =
  dm_size :: "24 word"
  dm_last :: bool
  dm_addr :: u32
  dm_tag :: TAG

definition DMAC_ui :: "DMAC \<Rightarrow> 62 word" where
  "DMAC_ui c = push_bit 57 (ucast (TAG_ui (dm_tag c))) OR push_bit 25 (ucast (dm_addr c)) OR
     push_bit 24 (of_bool (dm_last c)) OR ucast (dm_size c)"

definition DMAC_of :: "62 word \<Rightarrow> DMAC" where
  "DMAC_of w = \<lparr>dm_size = ucast w, dm_last = bit w 24, dm_addr = ucast (drop_bit 25 w), dm_tag = TAG_of (ucast (drop_bit 57 w))\<rparr>"

record DMAS =
  ds_tag :: TAG
  ds_interr :: bool
  ds_decerr :: bool
  ds_slverr :: bool
  ds_okay :: bool

definition DMAS_ui :: "DMAS \<Rightarrow> 9 word" where
  "DMAS_ui s = push_bit 8 (of_bool (ds_okay s)) OR push_bit 7 (of_bool (ds_slverr s)) OR push_bit 6 (of_bool (ds_decerr s)) OR
     push_bit 5 (of_bool (ds_interr s)) OR ucast (TAG_ui (ds_tag s))"

definition DMAS_of :: "9 word \<Rightarrow> DMAS" where
  "DMAS_of w = \<lparr>ds_tag = TAG_of (ucast w), ds_interr = bit w 5, ds_decerr = bit w 6, ds_slverr = bit w 7, ds_okay = bit w 8\<rparr>"

section \<open>Flits\<close>

record AXI_TC =
  tc_data :: u32
  tc_id :: "4 word"
  tc_dest :: "4 word"
  tc_user :: RACC
  tc_last :: bool

record AXI_TD =
  td_data :: u64
  td_id :: "4 word"
  td_dest :: "4 word"
  td_keep :: u8
  td_user :: bool
  td_last :: bool

section \<open>Packing loses nothing\<close>

lemma word_bit_limits:
  "bit (a :: 3 word) n \<Longrightarrow> n < 3" "bit (b :: 4 word) n \<Longrightarrow> n < 4" "bit (c :: 24 word) n \<Longrightarrow> n < 24"
  "bit (d :: u32) n \<Longrightarrow> n < 32" "bit (e :: u8) n \<Longrightarrow> n < 8" "bit (f :: 5 word) n \<Longrightarrow> n < 5"
  "bit (g :: 9 word) n \<Longrightarrow> n < 9" "bit (h :: 62 word) n \<Longrightarrow> n < 62"
  by (drule bit_imp_le_length; simp)+

lemma bit_flag: "bit (push_bit k (of_bool b) :: 'a::len word) n \<longleftrightarrow> b \<and> n = k \<and> k < LENGTH('a)"
  unfolding bit_push_bit_iff bit_of_bool_iff by auto

lemma bit_field: "bit (push_bit k (ucast x) :: 'a::len word) n \<longleftrightarrow> k \<le> n \<and> n < LENGTH('a) \<and> bit x (n - k)"
  unfolding bit_push_bit_iff bit_ucast_iff by auto

lemmas bit_parts = bit_or_iff bit_flag bit_field bit_ucast_iff

lemma bit_RACC_ui:
  "bit (RACC_ui c) n \<longleftrightarrow> (if n < 3 then bit (ra_len c) n else if n < 6 then bit (ra_sel c) (n - 3)
     else if n = 6 then ra_wr c else n = 7 \<and> ra_go c)"
  unfolding RACC_ui_def bit_parts by (auto dest: word_bit_limits)

lemma bit_TAG_ui: "bit (TAG_ui t) n \<longleftrightarrow> (if n < 4 then bit (tg_did t) n else n = 4 \<and> tg_req t)"
  unfolding TAG_ui_def bit_parts by (auto dest: word_bit_limits)

lemma RACC_of_ui [simp]: "RACC_of (RACC_ui c) = c"
  unfolding RACC_of_def by (rule RACC.equality) (auto simp: bit_RACC_ui bit_simps intro!: bit_word_eqI dest: word_bit_limits)

lemma RACC_ui_of [simp]: "RACC_ui (RACC_of w) = w"
  by (rule bit_word_eqI) (auto simp: bit_RACC_ui RACC_of_def bit_simps less_Suc_eq_le numeral_eq_Suc le_Suc_eq)

lemma TAG_of_ui [simp]: "TAG_of (TAG_ui c) = c"
  unfolding TAG_of_def by (rule TAG.equality) (auto simp: bit_TAG_ui bit_simps intro!: bit_word_eqI dest: word_bit_limits)

lemma TAG_ui_of [simp]: "TAG_ui (TAG_of w) = w"
  by (rule bit_word_eqI) (auto simp: bit_TAG_ui TAG_of_def bit_simps numeral_eq_Suc less_Suc_eq)

lemma ACMD_of_ui: "ACMD_of (ACMD_ui c) = c"
proof -
  have "ucast (ACMD_ui c) = ac_sid c" "ucast (drop_bit 4 (ACMD_ui c)) = ac_did c"
    "ucast (drop_bit 8 (ACMD_ui c)) = RACC_ui (ac_srac c)" "ucast (drop_bit 16 (ACMD_ui c)) = RACC_ui (ac_drac c)"
    by (rule bit_word_eqI, unfold bit_ucast_iff bit_drop_bit_eq o_def ACMD_ui_def bit_parts, auto dest: word_bit_limits)+
  then show ?thesis
    by (simp add: ACMD_of_def)
qed

lemma DMAC_of_ui: "DMAC_of (DMAC_ui c) = c"
proof -
  have "ucast (DMAC_ui c) = dm_size c" "ucast (drop_bit 25 (DMAC_ui c)) = dm_addr c"
    "ucast (drop_bit 57 (DMAC_ui c)) = TAG_ui (dm_tag c)"
    by (rule bit_word_eqI, unfold bit_ucast_iff bit_drop_bit_eq o_def DMAC_ui_def bit_parts, auto dest: word_bit_limits)+
  moreover have "bit (DMAC_ui c) 24 = dm_last c"
    unfolding DMAC_ui_def bit_parts by (auto dest: word_bit_limits)
  ultimately show ?thesis
    by (simp add: DMAC_of_def)
qed

lemma bit_DMAS_ui:
  "bit (DMAS_ui s) n \<longleftrightarrow> (if n < 5 then bit (TAG_ui (ds_tag s)) n else if n = 5 then ds_interr s else if n = 6 then ds_decerr s
     else if n = 7 then ds_slverr s else n = 8 \<and> ds_okay s)"
  unfolding DMAS_ui_def bit_parts by (auto dest: word_bit_limits)

lemma DMAS_of_ui: "DMAS_of (DMAS_ui c) = c"
proof -
  have "ucast (DMAS_ui c) = TAG_ui (ds_tag c)"
    by (rule bit_word_eqI) (auto simp: bit_DMAS_ui bit_ucast_iff)
  then show ?thesis
    by (simp add: DMAS_of_def bit_DMAS_ui)
qed

section \<open>The stream port of the simulated processor\<close>

definition MAX_PORTS :: u32 where "MAX_PORTS = 2"

text \<open>The headers are words with the bit fields from bit 0 on: \<^verbatim>\<open>tdest\<close>, \<^verbatim>\<open>tid\<close> and \<^verbatim>\<open>tuser\<close>.\<close>

record sysc_port =
  sp_id :: u32
  s_hdr :: u32
  m_hdr :: u32

definition sysc_stream_init :: "sysc_port \<Rightarrow> u32 \<Rightarrow> int \<times> sysc_port" where
  "sysc_stream_init port k = (if MAX_PORTS \<le> k then (XST_FAILURE, port) else (XST_SUCCESS, port\<lparr>sp_id := k\<rparr>))"

definition hdr_flit :: "u32 \<Rightarrow> u32 \<Rightarrow> bool \<Rightarrow> AXI_TC" where
  "hdr_flit h d l = \<lparr>tc_data = d, tc_id = ucast (drop_bit 8 h), tc_dest = ucast h, tc_user = RACC_of (ucast (drop_bit 16 h)), tc_last = l\<rparr>"

definition flit_hdr :: "AXI_TC \<Rightarrow> u32" where
  "flit_hdr x = push_bit 16 (ucast (RACC_ui (tc_user x))) OR push_bit 8 (ucast (tc_id x)) OR ucast (tc_dest x)"

text \<open>The result has the flits written to the port; a write returns when the flit is taken.\<close>

definition sysc_stream_send :: "sysc_port \<Rightarrow> (nat \<Rightarrow> u32) \<Rightarrow> u64 \<Rightarrow> u32 \<Rightarrow> int \<times> sysc_port \<times> AXI_TC list" where
  "sysc_stream_send port buf sz flags =
     (let words = unat (ucast (sz div 4) :: u32);
          (port, wptr, words) = (if flags AND F_BEGP \<noteq> 0 \<and> words \<noteq> 0 then (port\<lparr>m_hdr := buf 0\<rparr>, 1, words - 1) else (port, 0, words));
          out = map (\<lambda>i. hdr_flit (m_hdr port) (buf (wptr + i)) False) [0..<words - 1];
          out = (if words \<noteq> 0 then out @ [hdr_flit (m_hdr port) (buf (wptr + (words - 1))) (flags AND F_ENDP \<noteq> 0)] else out)
      in (XST_SUCCESS, port, out))"

text \<open>\<open>xs\<close> are the flits that arrive; without enough of them the call does not return.\<close>

fun recv_loop :: "nat \<Rightarrow> AXI_TC list \<Rightarrow> (u32 list \<times> nat \<times> AXI_TC list) option" where
  "recv_loop words xs =
     (if words > 1 then
        (case xs of [] \<Rightarrow> None | x # xs \<Rightarrow> map_option (\<lambda>(ws, words, xs). (tc_data x # ws, words, xs)) (recv_loop (words - 1) xs))
      else Some ([], words, xs))"

declare recv_loop.simps [simp del]

definition recv_rest :: "nat \<Rightarrow> u32 \<Rightarrow> AXI_TC list \<Rightarrow> (int \<times> u32 list \<times> AXI_TC list) option" where
  "recv_rest words flags xs =
     Option.bind (recv_loop words xs) (\<lambda>(ws, words, xs).
       if words \<noteq> 0 then
         (case xs of
            [] \<Rightarrow> None
          | x # xs \<Rightarrow> Some (if (flags AND F_ENDP \<noteq> 0) \<noteq> tc_last x then XST_FAILURE else XST_SUCCESS, ws @ [tc_data x], xs))
       else Some (XST_SUCCESS, ws, xs))"

definition sysc_stream_recv :: "sysc_port \<Rightarrow> u64 \<Rightarrow> u32 \<Rightarrow> AXI_TC list \<Rightarrow> (int \<times> u32 list \<times> sysc_port \<times> AXI_TC list) option" where
  "sysc_stream_recv port sz flags xs =
     (let words = unat (ucast (sz div 4) :: u32)
      in if flags AND F_BEGP \<noteq> 0 \<and> words \<noteq> 0 then
           (case xs of
              [] \<Rightarrow> None
            | x # xs \<Rightarrow>
                (let port = port\<lparr>s_hdr := flit_hdr x\<rparr>; words = words - 1;
                     (ws, words) = (if words \<noteq> 0 then ([s_hdr port, tc_data x], words - 1) else ([s_hdr port], words))
                 in map_option (\<lambda>(st, ws', xs). (st, ws @ ws', port, xs)) (recv_rest words flags xs)))
         else map_option (\<lambda>(st, ws, xs). (st, ws, port, xs)) (recv_rest words flags xs))"

lemma flit_hdr_flit:
  assumes "hdr_tdest h < 16" "hdr_tid h < 16" "h < 2 ^ 24"
  shows "flit_hdr (hdr_flit h d l) = h"
proof -
  have t: "\<not> bit h n" if "4 \<le> n" "n < 8" for n
    using not_bit_if_less_power [of "hdr_tdest h" 4 n] assms(1) that
    by (simp add: hdr_defs field_masks bit_and_iff bit_mask_iff)
  have i: "\<not> bit h n" if "12 \<le> n" "n < 16" for n
  proof -
    have "4 \<le> n - 8" "n - 8 < 8" "8 + (n - 8) = n"
      using that by simp_all
    then show ?thesis
      using not_bit_if_less_power [of "hdr_tid h" 4 "n - 8"] assms(2)
      by (simp add: hdr_defs field_masks bit_and_iff bit_mask_iff bit_drop_bit_eq)
  qed
  have u: "\<not> bit h n" if "24 \<le> n" for n
    using not_bit_if_less_power [OF assms(3) that] .
  show ?thesis
  proof (rule bit_word_eqI)
    fix n
    assume "n < LENGTH(32)"
    then show "bit (flit_hdr (hdr_flit h d l)) n \<longleftrightarrow> bit h n"
      unfolding flit_hdr_def hdr_flit_def AXI_TC.simps RACC_ui_of bit_parts bit_drop_bit_eq o_def
      using t [of n] i [of n] u [of n] by (cases "n < 4 \<or> 8 \<le> n \<and> n < 12 \<or> 16 \<le> n \<and> n < 24") (auto simp: not_le)
  qed
qed

lemma recv_loop_0: "recv_loop 0 xs = Some ([], 0, xs)"
  by (simp add: recv_loop.simps)

lemma recv_loop_data: "n \<le> length xs \<Longrightarrow> recv_loop (Suc n) xs = Some (map tc_data (take n xs), 1, drop n xs)"
proof (induction n arbitrary: xs)
  case 0
  then show ?case
    by (simp add: recv_loop.simps)
next
  case (Suc n)
  then show ?case
    by (cases xs) (simp_all add: recv_loop.simps [of "Suc (Suc n)"])
qed

lemma recv_rest_data:
  assumes "length xs = n" "0 < n \<Longrightarrow> tc_last (last xs) = (flags AND F_ENDP \<noteq> 0)"
  shows "recv_rest n flags (xs @ ys) = Some (XST_SUCCESS, map tc_data xs, ys)"
proof (cases "n = 0")
  case True
  then show ?thesis
    using assms(1) by (simp add: recv_rest_def recv_loop_0)
next
  case False
  then obtain zs x where "xs = zs @ [x]"
    using assms(1) by (cases xs rule: rev_cases) auto
  then show ?thesis
    using False assms recv_loop_data [of "length zs" "xs @ ys"] by (auto simp: recv_rest_def)
qed

text \<open>The flits of a packet.\<close>

definition packet_flits :: "u32 list \<Rightarrow> AXI_TC list" where
  "packet_flits ws = map (\<lambda>i. hdr_flit (ws ! 0) (ws ! i) (i = length ws - 1)) [1..<length ws]"

lemma words_of_size:
  assumes "n < 2 ^ 30"
  shows "unat (ucast ((4 * of_nat n :: u64) div 4) :: u32) = n"
proof -
  have "(4 * of_nat n :: u64) = of_nat (4 * n)"
    by simp
  moreover have "unat (of_nat (4 * n) :: u64) = 4 * n"
    using assms by (simp add: unsigned_of_nat take_bit_nat_eq_self del: of_nat_mult)
  ultimately have "unat ((4 * of_nat n :: u64) div 4) = n"
    by (simp add: unat_div)
  then show ?thesis
    using assms by (simp add: unsigned_ucast_eq take_bit_nat_eq_self)
qed

lemma packet_flags: "(F_BEGP OR F_ENDP) AND F_BEGP \<noteq> 0" "(F_BEGP OR F_ENDP) AND F_ENDP \<noteq> 0"
  by (simp_all add: F_BEGP_def F_ENDP_def)

lemma packet_flits_Suc:
  "length ws = Suc (Suc n) \<Longrightarrow> packet_flits ws =
     map (\<lambda>i. hdr_flit (ws ! 0) (ws ! Suc i) False) [0..<n] @ [hdr_flit (ws ! 0) (ws ! Suc n) True]"
  unfolding packet_flits_def by (simp add: map_Suc_upt [symmetric] del: upt_Suc) simp

lemma sysc_send_packet:
  assumes "length ws < 2 ^ 30" "2 \<le> length ws"
  shows "sysc_stream_send port (\<lambda>i. ws ! i) (4 * of_nat (length ws)) (F_BEGP OR F_ENDP) =
    (XST_SUCCESS, port\<lparr>m_hdr := ws ! 0\<rparr>, packet_flits ws)"
proof -
  obtain n where n: "length ws = Suc (Suc n)"
    using assms(2) by (intro that [of "length ws - 2"]) simp
  show ?thesis
    unfolding sysc_stream_send_def words_of_size [OF assms(1)]
    using packet_flags by (simp add: n packet_flits_Suc [OF n])
qed

text \<open>C36: What the simulated processor sends as one packet is what it receives when the flits come back: the same
  words, header included, without an error, for every packet of two words or more whose route identifiers fit the flit.\<close>

theorem sysc_send_recv:
  assumes "length ws < 2 ^ 30" "2 \<le> length ws" "hdr_tdest (ws ! 0) < 16" "hdr_tid (ws ! 0) < 16" "ws ! 0 < 2 ^ 24"
    and "sysc_stream_send p1 (\<lambda>i. ws ! i) (4 * of_nat (length ws)) (F_BEGP OR F_ENDP) = (st, p1', xs)"
  shows "st = XST_SUCCESS \<and> length xs = length ws - 1 \<and> sysc_stream_recv p2 (4 * of_nat (length ws)) (F_BEGP OR F_ENDP) (xs @ ys) =
    Some (XST_SUCCESS, ws, p2\<lparr>s_hdr := ws ! 0\<rparr>, ys)"
proof -
  obtain n where n: "length ws = Suc (Suc n)"
    using assms(2) by (intro that [of "length ws - 2"]) simp
  have xs: "st = XST_SUCCESS" "xs = packet_flits ws"
    using assms(6) sysc_send_packet [OF assms(1,2)] by simp_all
  let ?f = "\<lambda>i. hdr_flit (ws ! 0) (ws ! i) (i = Suc n)"
  have p: "packet_flits ws = ?f 1 # map ?f [2..<Suc (Suc n)]"
    unfolding packet_flits_def n by (simp add: upt_conv_Cons numeral_2_eq_2 del: upt_Suc)
  have "recv_rest n (F_BEGP OR F_ENDP) (map ?f [2..<Suc (Suc n)] @ ys) =
      Some (XST_SUCCESS, map tc_data (map ?f [2..<Suc (Suc n)]), ys)"
    by (rule recv_rest_data) (use packet_flags in \<open>auto simp: last_map hdr_flit_def\<close>)
  moreover have "map tc_data (map ?f [2..<Suc (Suc n)]) = drop 2 ws"
    by (rule nth_equalityI) (auto simp: n hdr_flit_def simp del: upt_Suc)
  moreover have "ws ! 0 # ws ! 1 # drop 2 ws = ws"
    using n by (cases ws; cases "tl ws") auto
  ultimately show ?thesis
    unfolding sysc_stream_recv_def words_of_size [OF assms(1)] xs
    using packet_flags flit_hdr_flit [OF assms(3-5)] by (simp add: n p hdr_flit_def del: upt_Suc)
qed

theorem sysc_send_recv_witness:
  "sysc_stream_recv \<lparr>sp_id = 0, s_hdr = 0, m_hdr = 0\<rparr> 16 (F_BEGP OR F_ENDP)
     (snd (snd (sysc_stream_send \<lparr>sp_id = 0, s_hdr = 0, m_hdr = 0\<rparr> (\<lambda>i. [0xCB0004, 0x81, 0x1000, 64] ! i) 16 (F_BEGP OR F_ENDP)))) =
   Some (XST_SUCCESS, [0xCB0004, 0x81, 0x1000, 64], \<lparr>sp_id = 0, s_hdr = 0xCB0004, m_hdr = 0\<rparr>, [])"
proof -
  let ?ws = "[0xCB0004, 0x81, 0x1000, 64] :: u32 list" and ?p = "\<lparr>sp_id = 0, s_hdr = 0, m_hdr = 0\<rparr>"
  obtain st p xs where s: "sysc_stream_send ?p (\<lambda>i. ?ws ! i) (4 * of_nat (length ?ws)) (F_BEGP OR F_ENDP) = (st, p, xs)"
    by (metis prod_cases3)
  from sysc_send_recv [OF _ _ _ _ _ s, of ?p "[]"] s show ?thesis
    by (simp add: hdr_defs)
qed

end
