(* ===== verification/Hash_Unit.thy ===== *)
theory Hash_Unit
  imports Hash Sysc_Fifo Sysc_Port
begin

text \<open>
  The hash unit of the simulated accelerator: the pipeline \<^verbatim>\<open>src/ip/sysc/shash.h\<close>, one round per clock edge, and the
  unit around it, \<^verbatim>\<open>src/ip/sysc/hsu.h\<close>, which takes keys from a register or a data stream and gives table indices to a
  register or a data stream.
\<close>

section \<open>The pipeline\<close>

definition STAGES :: nat where
  "STAGES = 12"

text \<open>The registers of the stages and the valid bits, stage 0 first.\<close>

record short_hash =
  h_a :: "u64 list"
  h_b :: "u64 list"
  h_c :: "u64 list"
  h_d :: "u64 list"
  h_v :: "bool list"

text \<open>A word of the key stream is the length and the key from its high word on; a tap is the state from \<^verbatim>\<open>d\<close> on.\<close>

type_synonym key_word = "u8 \<times> u64 \<times> u64"
type_synonym tap = "u64 \<times> u64 \<times> u64 \<times> u64"

text \<open>What \<^verbatim>\<open>emix\<close> writes to the next stage of its arguments.\<close>

definition emix :: "u64 \<Rightarrow> u64 \<Rightarrow> u64 \<Rightarrow> u64 \<Rightarrow> nat \<Rightarrow> u64 \<times> u64 \<times> u64 \<times> u64" where
  "emix y x u t ro = (let xr = Rot64 x ro in ((y XOR x) + xr, xr, u, t))"

definition mix_out :: "short_hash \<Rightarrow> tap" where
  "mix_out s = (h_d s ! 11, h_c s ! 11, h_b s ! 11, h_a s ! 11)"

definition mix_valid :: "short_hash \<Rightarrow> bool \<Rightarrow> bool" where
  "mix_valid s v = h_v s ! 11"

definition mix_dat_ready :: "bool \<Rightarrow> bool \<Rightarrow> bool" where
  "mix_dat_ready m_ready tap_valid \<longleftrightarrow> m_ready \<and> tap_valid"

definition mix_tap_ready :: "bool \<Rightarrow> bool \<Rightarrow> bool" where
  "mix_tap_ready m_ready dat_valid \<longleftrightarrow> m_ready \<and> dat_valid"

definition ms_mix :: "bool \<Rightarrow> short_hash \<Rightarrow> bool \<Rightarrow> key_word \<Rightarrow> bool \<Rightarrow> tap \<Rightarrow> bool \<Rightarrow> short_hash" where
  "ms_mix rst s dat_valid dat tap_valid tp m_ready =
     (if rst then
        \<lparr>h_a = replicate STAGES 0, h_b = replicate STAGES 0, h_c = replicate STAGES 0, h_d = replicate STAGES 0,
         h_v = replicate STAGES False\<rparr>
      else if m_ready then
        (let (klen, data1, data0) = dat; len = ucast klen;
             (tapi3, tapi2, tapi1, tapi0) = tp;
             a = h_a s; b = h_b s; c = h_c s; d = h_d s;
             a0 = tapi0 XOR len; b0 = tapi1 XOR NOT len; c0 = tapi2 + data0; d0 = tapi3 + data1;
             (d1, c1, b1, a1) = emix (d ! 0) (c ! 0) (b ! 0) (a ! 0) 15;
             (a2, d2, c2, b2) = emix (a ! 1) (d ! 1) (c ! 1) (b ! 1) 52;
             (b3, a3, d3, c3) = emix (b ! 2) (a ! 2) (d ! 2) (c ! 2) 26;
             (c4, b4, a4, d4) = emix (c ! 3) (b ! 3) (a ! 3) (d ! 3) 51;
             (d5, c5, b5, a5) = emix (d ! 4) (c ! 4) (b ! 4) (a ! 4) 28;
             (a6, d6, c6, b6) = emix (a ! 5) (d ! 5) (c ! 5) (b ! 5) 9;
             (b7, a7, d7, c7) = emix (b ! 6) (a ! 6) (d ! 6) (c ! 6) 47;
             (c8, b8, a8, d8) = emix (c ! 7) (b ! 7) (a ! 7) (d ! 7) 54;
             (d9, c9, b9, a9) = emix (d ! 8) (c ! 8) (b ! 8) (a ! 8) 32;
             (a10, d10, c10, b10) = emix (a ! 9) (d ! 9) (c ! 9) (b ! 9) 25;
             (b11, a11, d11, c11) = emix (b ! 10) (a ! 10) (d ! 10) (c ! 10) 63
         in \<lparr>h_a = [a0, a1, a2, a3, a4, a5, a6, a7, a8, a9, a10, a11],
             h_b = [b0, b1, b2, b3, b4, b5, b6, b7, b8, b9, b10, b11],
             h_c = [c0, c1, c2, c3, c4, c5, c6, c7, c8, c9, c10, c11],
             h_d = [d0, d1, d2, d3, d4, d5, d6, d7, d8, d9, d10, d11],
             h_v = (dat_valid \<and> tap_valid) # take 11 (h_v s)\<rparr>)
      else s)"

section \<open>The pipeline as a stream of hashes\<close>

text \<open>The round that leads to stage \<open>n\<close>, and the rounds from stage \<open>k\<close> to the end.\<close>

definition mix_round :: "nat \<Rightarrow> hstate \<Rightarrow> hstate" where
  "mix_round n q =
     (case q of (a, b, c, d) \<Rightarrow>
      let r = [0, 15, 52, 26, 51, 28, 9, 47, 54, 32, 25, 63] ! n
      in if n mod 4 = 1 then let (d, c, b, a) = emix d c b a r in (a, b, c, d)
         else if n mod 4 = 2 then let (a, d, c, b) = emix a d c b r in (a, b, c, d)
         else if n mod 4 = 3 then let (b, a, d, c) = emix b a d c r in (a, b, c, d)
         else let (c, b, a, d) = emix c b a d r in (a, b, c, d))"

definition mix_rest :: "nat \<Rightarrow> hstate \<Rightarrow> hstate" where
  "mix_rest k q = fold mix_round [k + 1..<12] q"

definition mix_stage :: "nat \<Rightarrow> short_hash \<Rightarrow> hstate" where
  "mix_stage k s = (h_a s ! k, h_b s ! k, h_c s ! k, h_d s ! k)"

lemma mix_rest_all: "mix_rest 0 q = soft_mix q"
  by (cases q) (simp add: mix_rest_def mix_round_def soft_mix_def emix_def EMIX_def Let_def upt_rec)

lemma mix_rest_step: "0 < k \<Longrightarrow> k < 12 \<Longrightarrow> mix_rest k (mix_round k q) = mix_rest (k - 1) q"
  by (cases k) (simp_all add: mix_rest_def upt_conv_Cons)

definition mix_start :: "key_word \<Rightarrow> tap \<Rightarrow> hstate" where
  "mix_start dat tp = (case dat of (klen, data1, data0) \<Rightarrow> case tp of (t3, t2, t1, t0) \<Rightarrow>
     (t0 XOR ucast klen, t1 XOR NOT (ucast klen), t2 + data0, t3 + data1))"

lemma less_12_cases:
  "0 < k \<Longrightarrow> k < 12 \<Longrightarrow> k = 1 \<or> k = 2 \<or> k = 3 \<or> k = 4 \<or> k = 5 \<or> k = 6 \<or> k = 7 \<or> k = 8 \<or> k = 9 \<or> k = 10 \<or> k = (11 :: nat)"
  by presburger

lemma mix_stage_clock:
  assumes "0 < k" "k < 12"
  shows "mix_stage k (ms_mix False s dv dat tv tp True) = mix_round k (mix_stage (k - 1) s)"
proof -
  obtain klen data1 data0 t3 t2 t1 t0 where d: "dat = (klen, data1, data0)" "tp = (t3, t2, t1, t0)"
    by (cases dat; cases tp) auto
  show ?thesis
    using less_12_cases [OF assms] unfolding mix_stage_def ms_mix_def d emix_def Let_def if_True if_False split_conv short_hash.simps
    by (elim disjE) (simp_all add: mix_round_def emix_def Let_def)
qed

lemma mix_stage_clock_0: "mix_stage 0 (ms_mix False s dv dat tv tp True) = mix_start dat tp"
  by (cases dat; cases tp) (simp add: mix_stage_def ms_mix_def mix_start_def emix_def Let_def)

lemma mix_v_clock: "h_v (ms_mix False s dv dat tv tp True) = (dv \<and> tv) # take 11 (h_v s)"
  by (cases dat; cases tp) (simp add: ms_mix_def emix_def Let_def)

text \<open>A stream unit for the pair of key and tap; the tap stream is always valid in the unit that uses the pipeline.\<close>

definition mix_ready :: "short_hash \<Rightarrow> bool \<Rightarrow> bool" where
  "mix_ready s r = mix_dat_ready r True"

definition mix_data :: "short_hash \<Rightarrow> key_word \<times> tap \<Rightarrow> tap" where
  "mix_data s d = mix_out s"

definition mix_clock :: "short_hash \<Rightarrow> (key_word \<times> tap) cycle \<Rightarrow> short_hash" where
  "mix_clock s i = (case i of (v, (dat, tp), r) \<Rightarrow> ms_mix False s v dat True tp r)"

definition hash_tap :: "key_word \<times> tap \<Rightarrow> tap" where
  "hash_tap i = (case soft_mix (mix_start (fst i) (snd i)) of (a, b, c, d) \<Rightarrow> (d, c, b, a))"

definition mix_pending :: "short_hash \<Rightarrow> nat \<Rightarrow> tap list" where
  "mix_pending s k = (if h_v s ! k then [case mix_rest k (mix_stage k s) of (a, b, c, d) \<Rightarrow> (d, c, b, a)] else [])"

definition mix_stored :: "short_hash \<Rightarrow> tap list" where
  "mix_stored s = concat (map (mix_pending s) (rev [0..<12]))"

definition mix_inv :: "short_hash \<Rightarrow> bool" where
  "mix_inv s \<longleftrightarrow> length (h_v s) = STAGES"

lemma length_concat_le: "(\<And>x. length (f x) \<le> 1) \<Longrightarrow> length (concat (map f xs)) \<le> length xs"
proof (induction xs)
  case (Cons x xs)
  from Cons.prems [of x] Cons.IH [OF Cons.prems] show ?case
    by simp
qed simp

lemma mix_pending_clock:
  assumes "mix_inv s" "Suc k < 12"
  shows "mix_pending (ms_mix False s dv dat tv tp True) (Suc k) = mix_pending s k"
  using assms mix_stage_clock [of "Suc k" s dv dat tv tp] mix_rest_step [of "Suc k"]
  by (simp add: mix_pending_def mix_v_clock mix_inv_def STAGES_def)

lemma upt_12: "rev [0..<12] = map Suc (rev [0..<11]) @ [0]" "rev [0..<12] = 11 # rev [0..<11]"
  by (simp_all add: upt_rec)

interpretation mix: stream_unit mix_ready mix_valid mix_data mix_clock hash_tap mix_stored mix_inv 12
proof
  fix s :: short_hash and i :: "(key_word \<times> tap) cycle"
  assume inv: "mix_inv s"
  obtain v dat tp r where i: "i = (v, (dat, tp), r)"
    by (metis prod.collapse)
  let ?s = "ms_mix False s v dat True tp True"
  have "mix_pending ?s 0 = (if v then [hash_tap (dat, tp)] else [])"
    by (simp add: mix_pending_def mix_v_clock mix_stage_clock_0 mix_rest_all hash_tap_def)
  moreover have "map (mix_pending ?s) (map Suc (rev [0..<11])) = map (mix_pending s) (rev [0..<11])"
    unfolding map_map by (rule map_cong) (use mix_pending_clock [OF inv] in auto)
  ultimately have "mix_stored ?s = concat (map (mix_pending s) (rev [0..<11])) @ (if v then [hash_tap (dat, tp)] else [])"
    unfolding mix_stored_def upt_12(1) map_append concat_append by (simp only: list.map concat.simps append_Nil2)
  moreover have "mix_stored s = mix_pending s 11 @ concat (map (mix_pending s) (rev [0..<11]))"
    unfolding mix_stored_def upt_12(2) by simp
  moreover have "mix_pending s 11 = (if h_v s ! 11 then [mix_out s] else [])"
    by (simp add: mix_pending_def mix_rest_def mix_stage_def mix_out_def)
  moreover have "ms_mix False s v dat True tp False = s"
    by (simp add: ms_mix_def)
  ultimately show "given mix_valid mix_data s i @ mix_stored (mix_clock s i) = mix_stored s @ map hash_tap (taken mix_ready s i)"
    by (cases r) (simp_all add: i given_def taken_def mix_valid_def mix_data_def mix_ready_def mix_dat_ready_def mix_clock_def)
  show "length (mix_stored s) \<le> 12"
    using length_concat_le [of "mix_pending s" "rev [0..<12]"] by (simp add: mix_stored_def mix_pending_def)
  show "mix_inv (mix_clock s i)"
    using inv by (cases r) (simp_all add: i mix_clock_def mix_inv_def mix_v_clock STAGES_def \<open>ms_mix False s v dat True tp False = s\<close>)
qed

section \<open>The unit\<close>

text \<open>Fields of the eight registers.\<close>

type_synonym regs = "u32 list"

definition C_INIT :: u64 where
  "C_INIT = 0xDEADBEEFDEADBEEF"

definition hs_tlen :: "regs \<Rightarrow> u64" where
  "hs_tlen reg = push_bit 32 (ucast (reg ! 2)) OR ucast (reg ! 1)"

definition hs_keylen :: "regs \<Rightarrow> u8" where
  "hs_keylen reg = ucast (reg ! 3)"

definition hs_hashlen :: "regs \<Rightarrow> u8" where
  "hs_hashlen reg = ucast (drop_bit 8 (reg ! 3))"

definition hs_tid :: "regs \<Rightarrow> 4 word" where
  "hs_tid reg = ucast (drop_bit 16 (reg ! 3))"

definition hs_tdest :: "regs \<Rightarrow> 4 word" where
  "hs_tdest reg = ucast (drop_bit 20 (reg ! 3))"

definition hs_seed :: "regs \<Rightarrow> 4 word" where
  "hs_seed reg = ucast (drop_bit 24 (reg ! 3))"

definition hs_seldo :: "regs \<Rightarrow> bool" where
  "hs_seldo reg = bit (reg ! 3) 28"

definition hs_seldi :: "regs \<Rightarrow> bool" where
  "hs_seldi reg = bit (reg ! 3) 29"

definition hs_data :: "regs \<Rightarrow> u64" where
  "hs_data reg = push_bit 32 (ucast (reg ! 5)) OR ucast (reg ! 4)"

definition hreg :: nat where
  "hreg = 6"

record key_in =
  ki_valid :: bool
  ki_data :: key_word
  ki_tap :: tap
  ki_dat1_ready :: bool
  ki_acmd_ready :: bool

definition mc_key_tap_in :: "regs \<Rightarrow> bool \<Rightarrow> u64 \<Rightarrow> bool \<Rightarrow> bool \<Rightarrow> key_in" where
  "mc_key_tap_in vcmd dat1_valid dat1 acmd_valid key_ready =
     (let (key, v) = (if hs_seldi vcmd then (dat1, dat1_valid) else (hs_data vcmd, acmd_valid));
          seed = ucast (hs_seed vcmd)
      in \<lparr>ki_valid = v, ki_data = (hs_keylen vcmd, 0, key), ki_tap = (C_INIT, C_INIT, seed, seed),
          ki_dat1_ready = (key_ready \<and> hs_seldi vcmd), ki_acmd_ready = (key_ready \<and> \<not> hs_seldi vcmd)\<rparr>)"

record hash_out =
  ho_dat1 :: AXI_TD
  ho_dat1_valid :: bool
  ho_arsp :: ACMD
  ho_arsp_valid :: bool
  ho_vrsp :: regs
  ho_vwe :: "bool list"
  ho_tapo_ready :: bool

definition mc_hash_out :: "regs \<Rightarrow> bool \<Rightarrow> tap \<Rightarrow> bool \<Rightarrow> bool \<Rightarrow> hash_out" where
  "mc_hash_out vcmd tapo_valid tapo dat1_ready arsp_ready =
     (let (d, c, b, a) = tapo;
          index = a AND hs_tlen vcmd;
          dat1 = \<lparr>td_data = index, td_id = hs_tid vcmd, td_dest = hs_tdest vcmd, td_keep = - 1, td_user = False, td_last = True\<rparr>;
          len = ucast (drop_bit 2 (ucast (hs_hashlen vcmd) + 3 :: u32));
          srac = \<lparr>ra_len = len, ra_sel = of_nat hreg, ra_wr = False, ra_go = False\<rparr>;
          drac = \<lparr>ra_len = len, ra_sel = 4, ra_wr = True, ra_go = True\<rparr>;
          vrsp = (replicate 8 0)[hreg := ucast index, hreg + 1 := ucast (drop_bit 32 index)];
          we = (\<not> hs_seldo vcmd \<and> tapo_valid \<and> arsp_ready)
      in \<lparr>ho_dat1 = dat1, ho_dat1_valid = (hs_seldo vcmd \<and> tapo_valid),
          ho_arsp = \<lparr>ac_sid = hs_tid vcmd, ac_did = hs_tdest vcmd, ac_srac = srac, ac_drac = drac\<rparr>,
          ho_arsp_valid = (\<not> hs_seldo vcmd \<and> tapo_valid),
          ho_vrsp = vrsp, ho_vwe = (replicate 8 False)[hreg := we, hreg + 1 := we],
          ho_tapo_ready = (if hs_seldo vcmd then dat1_ready else arsp_ready)\<rparr>)"

text \<open>
  The unit with its registers set: keys from the selected source, indices to the selected destination, whose
  \<^verbatim>\<open>ready\<close> is that of the cycle. \<^verbatim>\<open>valid\<close> and \<^verbatim>\<open>data\<close> of the cycle are those of the data stream or of the command.
\<close>

definition hsu_key :: "regs \<Rightarrow> bool \<Rightarrow> u64 \<Rightarrow> bool \<Rightarrow> key_in" where
  "hsu_key vcmd v d key_ready = mc_key_tap_in vcmd v d v key_ready"

definition hsu_out :: "regs \<Rightarrow> short_hash \<Rightarrow> bool \<Rightarrow> hash_out" where
  "hsu_out vcmd s r = mc_hash_out vcmd (mix_valid s True) (mix_out s) r r"

definition hsu_ready :: "regs \<Rightarrow> short_hash \<Rightarrow> bool \<Rightarrow> bool" where
  "hsu_ready vcmd s r =
     (let k = hsu_key vcmd True 0 (mix_ready s (ho_tapo_ready (hsu_out vcmd s r)))
      in if hs_seldi vcmd then ki_dat1_ready k else ki_acmd_ready k)"

definition hsu_valid :: "regs \<Rightarrow> short_hash \<Rightarrow> bool \<Rightarrow> bool" where
  "hsu_valid vcmd s v = (let out = hsu_out vcmd s True in if hs_seldo vcmd then ho_dat1_valid out else ho_arsp_valid out)"

definition hsu_index :: "regs \<Rightarrow> short_hash \<Rightarrow> u64 \<Rightarrow> u64" where
  "hsu_index vcmd s d = td_data (ho_dat1 (hsu_out vcmd s True))"

definition hsu_clock :: "regs \<Rightarrow> short_hash \<Rightarrow> u64 cycle \<Rightarrow> short_hash" where
  "hsu_clock vcmd s i =
     (case i of (v, d, r) \<Rightarrow>
      let r = ho_tapo_ready (hsu_out vcmd s r); k = hsu_key vcmd v d (mix_ready s r)
      in ms_mix False s (ki_valid k) (ki_data k) True (ki_tap k) r)"

text \<open>The key a value of the source stands for.\<close>

definition hsu_word :: "regs \<Rightarrow> u64 \<Rightarrow> key_word \<times> tap" where
  "hsu_word vcmd d = ((hs_keylen vcmd, 0, if hs_seldi vcmd then d else hs_data vcmd),
     (C_INIT, C_INIT, ucast (hs_seed vcmd), ucast (hs_seed vcmd)))"

definition tap_index :: "regs \<Rightarrow> tap \<Rightarrow> u64" where
  "tap_index vcmd t = (case t of (d, c, b, a) \<Rightarrow> a AND hs_tlen vcmd)"

lemma hsu_simps:
  "hsu_ready vcmd s r = mix_ready s r" "hsu_valid vcmd s v = mix_valid s v" "hsu_index vcmd s d = tap_index vcmd (mix_out s)"
  "hsu_clock vcmd s (v, d, r) = mix_clock s (v, hsu_word vcmd d, r)"
  by (auto simp: hsu_ready_def hsu_valid_def hsu_index_def hsu_clock_def hsu_key_def hsu_out_def mc_key_tap_in_def mc_hash_out_def
      mix_clock_def hsu_word_def tap_index_def mix_ready_def mix_dat_ready_def mix_valid_def mix_out_def Let_def)

interpretation hsu: stream_unit "hsu_ready vcmd" "hsu_valid vcmd" "hsu_index vcmd" "hsu_clock vcmd"
  "\<lambda>d. tap_index vcmd (hash_tap (hsu_word vcmd d))" "\<lambda>s. map (tap_index vcmd) (mix_stored s)" mix_inv 12 for vcmd
proof
  fix s :: short_hash and i :: "u64 cycle"
  assume inv: "mix_inv s"
  obtain v d r where i: "i = (v, d, r)"
    by (cases i)
  let ?i = "(v, hsu_word vcmd d, r)"
  have "given (hsu_valid vcmd) (hsu_index vcmd) s i = map (tap_index vcmd) (given mix_valid mix_data s ?i)"
    "taken (hsu_ready vcmd) s i = (if v \<and> mix_ready s r then [d] else [])"
    "taken mix_ready s ?i = (if v \<and> mix_ready s r then [hsu_word vcmd d] else [])"
    by (simp_all add: given_def taken_def hsu_simps i mix_data_def)
  then show "given (hsu_valid vcmd) (hsu_index vcmd) s i @ map (tap_index vcmd) (mix_stored (hsu_clock vcmd s i)) =
      map (tap_index vcmd) (mix_stored s) @ map (\<lambda>d. tap_index vcmd (hash_tap (hsu_word vcmd d))) (taken (hsu_ready vcmd) s i)"
    using arg_cong [OF mix.conserved [OF inv, of ?i], of "map (tap_index vcmd)"] by (simp add: hsu_simps i split: if_splits)
  show "length (map (tap_index vcmd) (mix_stored s)) \<le> 12"
    using mix.bounded [OF inv] by simp
  show "mix_inv (hsu_clock vcmd s i)"
    using mix.kept [OF inv, of ?i] by (simp add: hsu_simps i)
qed

section \<open>The indices are software hashes\<close>

text \<open>A key of up to eight bytes as the software sees it in memory.\<close>

definition key_bytes :: "u64 \<Rightarrow> nat \<Rightarrow> u8" where
  "key_bytes k i = (if i < 8 then ucast (drop_bit (8 * i) k) else 0)"

definition soft_index :: "regs \<Rightarrow> u64 \<Rightarrow> u64" where
  "soft_index vcmd k =
     fst (soft_short128_hash (key_bytes k) (uint (hs_keylen vcmd)) (uint (hs_seed vcmd))) AND hs_tlen vcmd"

lemma hash_tap_soft:
  assumes "0 < len" "len \<le> 16"
  shows "hash_tap ((word_of_int len, p64 (pipe_tmp key len) 1, p64 (pipe_tmp key len) 0),
      (INIT_VAL, INIT_VAL, word_of_int seed, word_of_int seed)) =
    (case soft_loop key len (word_of_int seed, word_of_int seed, INIT_VAL, INIT_VAL) of (a, b, c, d) \<Rightarrow> (d, c, b, a))"
proof -
  have "soft_loop key len s = block_step len (pipe_tmp key len) s" for s
    using assms by (simp add: soft_loop_step [of key len] soft_loop_step [of _ "len - 16"])
  moreover have "ucast (word_of_int len :: u8) = (word_of_int len :: u64)"
    using assms by (simp add: ucast_eq uint_word_of_int_eq take_bit_int_eq_self)
  ultimately show ?thesis
    by (simp add: hash_tap_def mix_start_def block_step_def)
qed

lemma p64_key_bytes:
  assumes "unat k < 2 ^ (8 * nat len)" "0 < len" "len \<le> 8"
  shows "p64 (pipe_tmp (key_bytes k) len) 0 = k" "p64 (pipe_tmp (key_bytes k) len) 1 = 0"
proof -
  have z: "\<not> bit k n" if "8 * nat len \<le> n" for n
  proof -
    have "unat k < 2 ^ n"
      using assms(1) power_increasing [OF that, of "2 :: nat"] by linarith
    then have "\<not> bit (unat k) n"
      by (simp add: bit_iff_odd)
    then show ?thesis
      by (simp add: bit_unsigned_iff)
  qed
  show "p64 (pipe_tmp (key_bytes k) len) 0 = k"
  proof (rule bit_word_eqI)
    fix n :: nat
    assume "n < LENGTH(64)"
    then have n: "n div 8 < 8" "8 * (n div 8) + n mod 8 = n" "n mod 8 < 8"
      by auto
    have "\<not> n div 8 < nat len \<Longrightarrow> 8 * nat len \<le> n"
      using assms(3) by simp
    then show "bit (p64 (pipe_tmp (key_bytes k) len) 0) n \<longleftrightarrow> bit k n"
      using n \<open>n < LENGTH(64)\<close> z [of n] unfolding p64_def
      by (auto simp add: bit_le_bytes pipe_tmp_def key_bytes_def bit_ucast_iff bit_drop_bit_eq)
  qed
  show "p64 (pipe_tmp (key_bytes k) len) 1 = 0"
    by (rule bit_word_eqI) (simp add: p64_def bit_le_bytes pipe_tmp_def key_bytes_def)
qed

lemma hash_tap_index:
  assumes "hs_seldi vcmd" "0 < hs_keylen vcmd" "hs_keylen vcmd \<le> 8" "unat k < 2 ^ (8 * unat (hs_keylen vcmd))"
  shows "tap_index vcmd (hash_tap (hsu_word vcmd k)) = soft_index vcmd k"
proof -
  let ?len = "uint (hs_keylen vcmd)"
  have len: "0 < ?len" "?len \<le> 8"
    using assms(2,3) by (simp_all add: word_less_def word_le_def)
  have "unat k < 2 ^ (8 * nat ?len)"
    using assms(4) by simp
  note key = p64_key_bytes [OF this len]
  have "hash_tap (hsu_word vcmd k) = (case soft_loop (key_bytes k) ?len (word_of_int (uint (hs_seed vcmd)),
      word_of_int (uint (hs_seed vcmd)), INIT_VAL, INIT_VAL) of (a, b, c, d) \<Rightarrow> (d, c, b, a))"
    using hash_tap_soft [of ?len "key_bytes k" "uint (hs_seed vcmd)"] len
    by (simp only: hsu_word_def C_INIT_def flip: INIT_VAL_def) (simp only: key assms(1) if_True ucast_eq word_of_int_uint)
  then show ?thesis
    by (auto simp: tap_index_def soft_index_def soft_short128_hash_def split: prod.splits)
qed

text \<open>C13: The hash unit, set to take keys of one to eight bytes from its data stream, gives for the keys it takes exactly
  the table indices the software hash would give, in order, whatever the neighbours do to \<^verbatim>\<open>valid\<close> and \<^verbatim>\<open>ready\<close>; at most
  twelve keys are in the pipeline.\<close>

theorem hsu_indices:
  assumes "mix_inv s" "mix_stored s = []" "hs_seldi vcmd" "0 < hs_keylen vcmd" "hs_keylen vcmd \<le> 8"
    and "\<forall>k\<in>set (trace_of (hsu_clock vcmd) (taken (hsu_ready vcmd)) s is). unat k < 2 ^ (8 * unat (hs_keylen vcmd))"
  shows "\<exists>rest. trace_of (hsu_clock vcmd) (given (hsu_valid vcmd) (hsu_index vcmd)) s is @ rest =
      map (soft_index vcmd) (trace_of (hsu_clock vcmd) (taken (hsu_ready vcmd)) s is) \<and> length rest \<le> 12"
proof -
  let ?rest = "map (tap_index vcmd) (mix_stored (cycles (hsu_clock vcmd) s is))"
  have "trace_of (hsu_clock vcmd) (given (hsu_valid vcmd) (hsu_index vcmd)) s is @ ?rest =
      map (\<lambda>d. tap_index vcmd (hash_tap (hsu_word vcmd d))) (trace_of (hsu_clock vcmd) (taken (hsu_ready vcmd)) s is)"
    using hsu.in_order [OF assms(1), of vcmd "is"] assms(2) by simp
  also have "\<dots> = map (soft_index vcmd) (trace_of (hsu_clock vcmd) (taken (hsu_ready vcmd)) s is)"
    using assms(6) by (auto intro!: hash_tap_index [OF assms(3-5)])
  finally show ?thesis
    using hsu.never_full [OF assms(1), of vcmd "is"] by blast
qed

text \<open>One key of eight bytes, given after twelve more edges: the test vector of the software hash.\<close>

definition key_cycles :: "u64 cycle list" where
  "key_cycles = (True, 0x34333231305F4238, True) # replicate 12 (False, 0, True)"

definition key_regs :: regs where
  "key_regs = [0, 0xFFFFFFFF, 0xFFFFFFFF, 0x2D000808, 0, 0, 0, 0]"

definition empty_pipe :: short_hash where
  "empty_pipe = \<lparr>h_a = replicate 12 0, h_b = replicate 12 0, h_c = replicate 12 0, h_d = replicate 12 0, h_v = replicate 12 False\<rparr>"

theorem hsu_indices_witness:
  "\<exists>rest. trace_of (hsu_clock key_regs) (given (hsu_valid key_regs) (hsu_index key_regs)) empty_pipe key_cycles @ rest =
     [soft_index key_regs 0x34333231305F4238]"
proof -
  have r: "hs_seldi key_regs" "hs_keylen key_regs = 8"
    by (simp_all add: key_regs_def hs_seldi_def hs_keylen_def)
  have e: "mix_inv empty_pipe" "mix_stored empty_pipe = []"
    by (simp_all add: empty_pipe_def mix_inv_def STAGES_def mix_stored_def mix_pending_def upt_rec)
  have t: "trace_of (hsu_clock key_regs) (taken (hsu_ready key_regs)) empty_pipe key_cycles = [0x34333231305F4238]"
    by (simp add: key_cycles_def numeral_eq_Suc taken_def hsu_simps mix_ready_def mix_dat_ready_def)
  show ?thesis
    using hsu_indices [OF e r(1), of key_cycles] r(2) by (auto simp: t)
qed

end
