(* ===== verification/Lsu.thy ===== *)
theory Lsu
  imports Sysc_Port
begin

text \<open>
  The load-store unit of the simulated accelerator (\<^verbatim>\<open>src/ip/sysc/lsu.h\<close>) with its control registers (\<^verbatim>\<open>ctlreg.h\<close>) and
  the control switch in front of it (\<^verbatim>\<open>ctree\<close> of \<^verbatim>\<open>cswitch.h\<close>).

  Every thread of the modules is a set of step functions on the state of the unit; a blocking read or write that
  cannot proceed is \<open>None\<close>. A step is the part of the thread from one blocking call to the next, and a value that a thread
  has read and not yet passed on is in a list of its own. FIFOs between threads are lists with the depth of the
  source, which is what the FIFOs refine (theory Sysc_Fifo); a stream without a FIFO passes a value from
  one thread to the other in one step. Which thread is next is left open, and so are all delays: the waits that only
  simulate time, the time stamps and the trace output are left out. The memory answers requests in any order.
\<close>

section \<open>Constants\<close>

definition MAX_BLOCK_SIZE :: u64 where "MAX_BLOCK_SIZE = 128"
definition DMAC_DEPTH :: nat where "DMAC_DEPTH = 4"
definition DMAS_DEPTH :: nat where "DMAS_DEPTH = 2"
definition OUTSTANDING_READ :: nat where "OUTSTANDING_READ = 16"
definition OUTSTANDING_WRITE :: nat where "OUTSTANDING_WRITE = 16"
definition QDEPTH :: nat where "QDEPTH = 11"

section \<open>Control registers\<close>

text \<open>
  One control channel: the registers (\<^verbatim>\<open>ctlreg\<close>) and the command interpreter (\<^verbatim>\<open>lsuctl\<close>). The thread \<^verbatim>\<open>ctlreg::ct_command\<close>
  has read the flit \<open>c_in\<close> and is going to write the command \<open>c_go\<close>; \<open>c_pkt\<close> is set inside a write packet: its first
  flit, the flits left and the next register. \<open>c_pend\<close> are the transfers of the current command that
  \<^verbatim>\<open>lsuctl::ct_command\<close> has still to write, \<open>c_stat\<close> is the status that \<^verbatim>\<open>lsuctl::ct_response\<close> has read; \<open>c_send\<close> is the response that
  \<^verbatim>\<open>ctlreg::ct_response\<close> is sending and \<open>c_out\<close> the flit it is writing. \<open>c_we0\<close> and \<open>c_rsp0\<close> are the signals that overwrite register 0.
\<close>

record lsuctl =
  c_in :: "AXI_TC list"
  c_pkt :: "(AXI_TC \<times> 3 word \<times> 3 word) option"
  c_reg :: "u32 list"
  c_we0 :: bool
  c_rsp0 :: u32
  c_go :: "ACMD list"
  c_acmd :: "ACMD list"
  c_loop :: "ACMD list"
  c_arsp :: "ACMD list"
  c_tid :: "4 word"
  c_pend :: "DMAC list"
  c_dmac :: "DMAC list"
  c_dmas :: "DMAS list"
  c_stat :: "DMAS list"
  c_send :: "ACMD option"
  c_out :: "AXI_TC list"

text \<open>\<^verbatim>\<open>ms_reg_write\<close>: the interpreter's write to register 0 wins over the packet's.\<close>

definition reg_write :: "lsuctl \<Rightarrow> 3 word \<Rightarrow> u32 \<Rightarrow> u32 list" where
  "reg_write c sel ain = (c_reg c)[unat sel := if sel = 0 \<and> c_we0 c then c_rsp0 c else ain]"

definition RACC_0 :: RACC where
  "RACC_0 = RACC_of 0"

text \<open>The command for the interpreter, when the packet says so.\<close>

definition go_acmd :: "AXI_TC \<Rightarrow> ACMD list" where
  "go_acmd x = (if ra_go (tc_user x)
     then [\<lparr>ac_sid = tc_id x, ac_did = tc_dest x, ac_srac = RACC_0, ac_drac = tc_user x\<rparr>] else [])"

definition ctlreg_command :: "lsuctl \<Rightarrow> lsuctl option" where
  "ctlreg_command c =
     (case (c_go c, c_in c) of
        (a # as, _) \<Rightarrow> if c_acmd c = [] then Some (c\<lparr>c_go := as, c_acmd := [a]\<rparr>) else None
      | ([], []) \<Rightarrow> None
      | ([], x # xs) \<Rightarrow>
          (case c_pkt c of
             None \<Rightarrow>
               if ra_wr (tc_user x) then
                 (if c_acmd c \<noteq> [] then None
                  else let len = ra_len (tc_user x) - 1; c = c\<lparr>c_in := xs, c_reg := reg_write c (ra_sel (tc_user x)) (tc_data x)\<rparr>
                       in Some (if len \<noteq> 0 then c\<lparr>c_pkt := Some (x, len, ra_sel (tc_user x) + 1)\<rparr>
                                else c\<lparr>c_go := go_acmd x\<rparr>))
               else if length (c_loop c) < 2 then
                 Some (c\<lparr>c_in := xs,
                   c_loop := c_loop c @ [\<lparr>ac_sid = tc_dest x, ac_did = tc_id x, ac_srac = tc_user x, ac_drac = tc_user x\<rparr>],
                   c_go := go_acmd x\<rparr>)
               else None
           | Some (y, len, sel) \<Rightarrow>
               if c_acmd c \<noteq> [] then None
               else let len = len - 1; c = c\<lparr>c_in := xs, c_reg := reg_write c sel (tc_data x)\<rparr>
                    in Some (if len \<noteq> 0 then c\<lparr>c_pkt := Some (y, len, sel + 1)\<rparr>
                             else c\<lparr>c_pkt := None, c_go := go_acmd y\<rparr>)))"

definition ctlreg_response :: "lsuctl \<Rightarrow> lsuctl option" where
  "ctlreg_response c =
     (case c_send c of
        None \<Rightarrow>
          (if c_loop c \<noteq> [] then Some (c\<lparr>c_loop := tl (c_loop c), c_send := Some (hd (c_loop c))\<rparr>)
           else if c_arsp c \<noteq> [] then Some (c\<lparr>c_arsp := tl (c_arsp c), c_send := Some (hd (c_arsp c))\<rparr>)
           else None)
      | Some a \<Rightarrow>
          (let rac = ac_srac a
           in if ra_len rac = 0 then Some (c\<lparr>c_send := None\<rparr>)
              else if c_out c \<noteq> [] then None
              else let len = ra_len rac - 1
                   in Some (c\<lparr>c_out := [\<lparr>tc_data = c_reg c ! unat (ra_sel rac), tc_id = ac_sid a, tc_dest = ac_did a,
                                tc_user = ac_drac a, tc_last = (len = 0)\<rparr>],
                              c_send := Some (a\<lparr>ac_srac := rac\<lparr>ra_len := len, ra_sel := ra_sel rac + 1\<rparr>\<rparr>)\<rparr>)))"

section \<open>Command interpreter\<close>

definition lr_command :: "u32 list \<Rightarrow> 3 word" where "lr_command reg = ucast (reg ! 1)"
definition lr_reqstat :: "u32 list \<Rightarrow> bool" where "lr_reqstat reg = bit (reg ! 1) 7"
definition lr_address :: "u32 list \<Rightarrow> u32" where "lr_address reg = reg ! 2"
definition lr_size :: "u32 list \<Rightarrow> 30 word" where "lr_size reg = ucast (reg ! 3)"
definition lr_inc :: "u32 list \<Rightarrow> 30 word" where "lr_inc reg = ucast (reg ! 4)"
definition lr_rep :: "u32 list \<Rightarrow> 30 word" where "lr_rep reg = ucast (reg ! 5)"
definition lr_index :: "u32 list \<Rightarrow> 30 word" where "lr_index reg = ucast (reg ! 4)"
definition lr_trans :: "u32 list \<Rightarrow> 30 word" where "lr_trans reg = ucast (reg ! 5)"

text \<open>The loop of a strided move.\<close>

fun smove_dmacs :: "u32 \<Rightarrow> 24 word \<Rightarrow> u32 \<Rightarrow> 4 word \<Rightarrow> bool \<Rightarrow> nat \<Rightarrow> DMAC list" where
  "smove_dmacs address sz inc did req 0 = []"
| "smove_dmacs address sz inc did req (Suc rep) =
     \<lparr>dm_size = sz, dm_last = (rep = 0), dm_addr = address, dm_tag = \<lparr>tg_did = did, tg_req = (req \<and> rep = 0)\<rparr>\<rparr> #
     smove_dmacs (address + inc) sz inc did req rep"

text \<open>The transfers of a command, in the order they are written.\<close>

definition lsu_dmacs :: "u32 list \<Rightarrow> ACMD \<Rightarrow> DMAC list" where
  "lsu_dmacs vcmd a =
     (let tag = \<lparr>tg_did = ac_sid a, tg_req = lr_reqstat vcmd\<rparr>
      in if lr_command vcmd = 1 then
           [\<lparr>dm_size = ucast (lr_size vcmd), dm_last = True, dm_addr = lr_address vcmd, dm_tag = tag\<rparr>]
         else if lr_command vcmd = 2 then
           smove_dmacs (lr_address vcmd) (ucast (lr_size vcmd)) (ucast (lr_inc vcmd)) (ac_sid a) (lr_reqstat vcmd) (unat (lr_rep vcmd))
         else if lr_command vcmd = 3 \<or> lr_command vcmd = 4 then
           [\<lparr>dm_size = (if lr_command vcmd = 3 then ucast (lr_size vcmd) else ucast (lr_trans vcmd)), dm_last = True,
             dm_addr = ucast (lr_index vcmd) * ucast (lr_size vcmd) + lr_address vcmd, dm_tag = tag\<rparr>]
         else [])"

definition lsuctl_command :: "lsuctl \<Rightarrow> lsuctl option" where
  "lsuctl_command c =
     (case c_pend c of
        [] \<Rightarrow>
          (case c_acmd c of
             [] \<Rightarrow> None
           | a # as \<Rightarrow> Some (c\<lparr>c_acmd := as, c_tid := ac_did a, c_pend := lsu_dmacs (c_reg c) a\<rparr>))
      | d # ds \<Rightarrow>
          (if length (c_dmac c) < DMAC_DEPTH then Some (c\<lparr>c_pend := ds, c_dmac := c_dmac c @ [d]\<rparr>) else None))"

definition rsp_rac :: RACC where
  "rsp_rac = \<lparr>ra_len = 1, ra_sel = 0, ra_wr = False, ra_go = True\<rparr>"

definition lsuctl_response :: "lsuctl \<Rightarrow> lsuctl option" where
  "lsuctl_response c =
     (case (c_stat c, c_dmas c) of
        ([], []) \<Rightarrow> None
      | ([], d # ds) \<Rightarrow> Some (c\<lparr>c_dmas := ds, c_stat := [d]\<rparr>)
      | (d # ds, _) \<Rightarrow>
          (if c_arsp c \<noteq> [] then None
           else let rsp = c_reg c ! 0 OR ucast (DMAS_ui d)
                in Some (c\<lparr>c_stat := ds, c_rsp0 := rsp, c_we0 := True, c_reg := (c_reg c)[0 := rsp],
                     c_arsp := (if tg_req (ds_tag d)
                       then [\<lparr>ac_sid = c_tid c, ac_did = tg_did (ds_tag d), ac_srac = rsp_rac, ac_drac = rsp_rac\<rparr>] else [])\<rparr>)))"

section \<open>Memory movers\<close>

text \<open>Payload pool: a free list, the last one freed on top.\<close>

definition tmanage :: "nat \<Rightarrow> nat list" where
  "tmanage count = rev [0..<count]"

definition allocate :: "nat list \<Rightarrow> (nat \<times> nat list) option" where
  "allocate pool = (case pool of [] \<Rightarrow> None | p # ps \<Rightarrow> Some (p, ps))"

definition free_payload :: "nat \<Rightarrow> nat list \<Rightarrow> nat list" where
  "free_payload p pool = p # pool"

text \<open>
  The state of \<^verbatim>\<open>mm2s\<close> and of \<^verbatim>\<open>s2mm\<close>: transactions of the current transfer that are still to be requested, the pool,
  requests the memory has not answered, answers in the event queue. A transaction that has been requested is
  in \<open>d_sent\<close> until it is written to the FIFO \<open>d_trans\<close>, in \<open>d_got\<close> when the response thread has read it, and in \<open>d_done\<close> when a write
  is answered. \<open>d_cur\<close> is the transaction whose data is being moved, with the address and the flits (\<^verbatim>\<open>mm2s\<close>) or bytes
  (\<^verbatim>\<open>s2mm\<close>) left. A transaction to be requested carries the address in full width, which \<^verbatim>\<open>s2mm\<close> writes to.
\<close>

record mover =
  d_pend :: "(u64 \<times> DMAC) list"
  d_pool :: "nat list"
  d_flight :: "nat list"
  d_peq :: "nat list"
  d_sent :: "DMAC list"
  d_trans :: "DMAC list"
  d_got :: "DMAC list"
  d_done :: "DMAC list"
  d_cur :: "(u64 \<times> u32 \<times> DMAC) option"

lemma block_size: "unat (ucast (MAX_BLOCK_SIZE - addr mod MAX_BLOCK_SIZE) :: u32) = 128 - unat addr mod 128"
proof -
  have m: "unat (addr mod MAX_BLOCK_SIZE) = unat addr mod 128"
    by (simp add: MAX_BLOCK_SIZE_def unat_mod)
  have "addr mod MAX_BLOCK_SIZE \<le> MAX_BLOCK_SIZE"
    unfolding word_le_nat_alt m by (simp add: MAX_BLOCK_SIZE_def less_imp_le)
  then have "unat (MAX_BLOCK_SIZE - addr mod MAX_BLOCK_SIZE) = unat MAX_BLOCK_SIZE - unat addr mod 128"
    by (subst unat_sub) (simp_all only: m)
  then have "unat (MAX_BLOCK_SIZE - addr mod MAX_BLOCK_SIZE) = 128 - unat addr mod 128"
    unfolding MAX_BLOCK_SIZE_def by simp
  then show ?thesis
    by (simp add: unsigned_ucast_eq take_bit_nat_eq_self)
qed

text \<open>The loop over the blocks of a transfer.\<close>

function split_trans :: "u64 \<Rightarrow> u32 \<Rightarrow> DMAC \<Rightarrow> (u64 \<times> DMAC) list" where
  "split_trans addr sz dmac =
     (if sz = 0 then []
      else let bsize = ucast (MAX_BLOCK_SIZE - addr mod MAX_BLOCK_SIZE);
               tsize = (if sz < bsize then sz else bsize)
           in (addr, \<lparr>dm_size = ucast tsize, dm_last = (sz = tsize \<and> dm_last dmac), dm_addr = ucast addr, dm_tag = dm_tag dmac\<rparr>) #
              split_trans (addr + ucast tsize) (sz - tsize) dmac)"
  by pat_completeness auto
termination
proof (relation "measure (\<lambda>(addr, sz, dmac). unat sz)")
  fix addr :: u64 and sz bsize tsize :: u32 and dmac :: DMAC
  assume a: "sz \<noteq> 0" "bsize = ucast (MAX_BLOCK_SIZE - addr mod MAX_BLOCK_SIZE)" "tsize = (if sz < bsize then sz else bsize)"
  have "0 < unat bsize" "tsize \<le> sz" "0 < unat sz"
    using a block_size [of addr] by (auto simp: not_less unat_gt_0)
  then have "unat (sz - tsize) < unat sz"
    using a(3) by (auto simp: unat_sub)
  then show "((addr + ucast tsize, sz - tsize, dmac), addr, sz, dmac) \<in> measure (\<lambda>(addr, sz, dmac). unat sz)"
    by simp
qed simp

declare split_trans.simps [simp del]

definition dmac_trans :: "DMAC \<Rightarrow> (u64 \<times> DMAC) list" where
  "dmac_trans c = split_trans (ucast (dm_addr c)) (ucast (dm_size c)) c"

text \<open>The unit. \<open>l_root_in\<close> are the flits the processor writes, \<open>l_root_out\<close> those it has read. \<open>l_mux\<close> is the flit the
  multiplexer holds, \<open>l_dout\<close> the one \<^verbatim>\<open>mm2s\<close> is writing and \<open>l_din\<close> the one \<^verbatim>\<open>s2mm\<close> has read. A channel is chosen by the lowest bit of the destination: \<open>False\<close> reads memory, \<open>True\<close> writes it.\<close>

record lsu =
  l_root_in :: "AXI_TC list"
  l_mux :: "AXI_TC list"
  l_queue :: "AXI_TC list"
  l_root_out :: "AXI_TC list"
  l_ch :: "bool \<Rightarrow> lsuctl"
  l_mm2s :: mover
  l_s2mm :: mover
  l_dout :: "AXI_TD list"
  l_din :: "AXI_TD list"
  l_mem :: mem

definition on_ch :: "bool \<Rightarrow> (lsuctl \<Rightarrow> lsuctl option) \<Rightarrow> lsu \<Rightarrow> lsu option" where
  "on_ch b f s = map_option (\<lambda>c. s\<lparr>l_ch := (l_ch s)(b := c)\<rparr>) (f (l_ch s b))"

definition csw_demux :: "lsu \<Rightarrow> lsu option" where
  "csw_demux s =
     (case l_root_in s of
        [] \<Rightarrow> None
      | x # xs \<Rightarrow> on_ch (bit (tc_dest x) 0) (\<lambda>c. if c_in c = [] then Some (c\<lparr>c_in := [x]\<rparr>) else None) (s\<lparr>l_root_in := xs\<rparr>))"

definition csw_mux :: "lsu \<Rightarrow> lsu option" where
  "csw_mux s =
     (case l_mux s of
        [] \<Rightarrow>
          (let b = (c_out (l_ch s False) = [])
           in case c_out (l_ch s b) of
                [] \<Rightarrow> None
              | x # xs \<Rightarrow> Some (s\<lparr>l_mux := [x], l_ch := (l_ch s)(b := (l_ch s b)\<lparr>c_out := xs\<rparr>)\<rparr>))
      | x # xs \<Rightarrow> if length (l_queue s) < QDEPTH then Some (s\<lparr>l_mux := xs, l_queue := l_queue s @ [x]\<rparr>) else None)"

text \<open>Reading memory: \<^verbatim>\<open>mm2s::ct_command\<close>, \<^verbatim>\<open>mm2s::ct_response\<close>. \<open>take_dmac\<close>, \<open>request\<close>, \<open>put_trans\<close>, \<open>get_trans\<close>, \<open>get_answer\<close> and
  \<open>put_status\<close> are what both movers do.\<close>

definition take_dmac :: "mover \<Rightarrow> lsuctl \<Rightarrow> (mover \<times> lsuctl) option" where
  "take_dmac d c =
     (case c_dmac c of
        [] \<Rightarrow> None
      | x # xs \<Rightarrow> if d_pend d = [] \<and> d_sent d = [] then Some (d\<lparr>d_pend := dmac_trans x\<rparr>, c\<lparr>c_dmac := xs\<rparr>) else None)"

definition request :: "DMAC \<Rightarrow> mover \<Rightarrow> mover option" where
  "request t d =
     map_option (\<lambda>(p, ps). d\<lparr>d_pool := ps, d_flight := d_flight d @ [p], d_sent := d_sent d @ [t]\<rparr>) (allocate (d_pool d))"

definition put_trans :: "nat \<Rightarrow> mover \<Rightarrow> mover option" where
  "put_trans depth d =
     (case d_sent d of
        [] \<Rightarrow> None
      | t # ts \<Rightarrow> if length (d_trans d) < depth then Some (d\<lparr>d_sent := ts, d_trans := d_trans d @ [t]\<rparr>) else None)"

definition get_trans :: "mover \<Rightarrow> mover option" where
  "get_trans d = (case d_trans d of [] \<Rightarrow> None | t # ts \<Rightarrow> if d_got d = [] then Some (d\<lparr>d_trans := ts, d_got := [t]\<rparr>) else None)"

definition get_answer :: "mover \<Rightarrow> (DMAC \<times> mover) option" where
  "get_answer d =
     (case (d_got d, d_peq d) of
        (t # ts, p # ps) \<Rightarrow> Some (t, d\<lparr>d_got := ts, d_peq := ps, d_pool := free_payload p (d_pool d)\<rparr>)
      | _ \<Rightarrow> None)"

definition put_status :: "DMAC \<Rightarrow> lsuctl \<Rightarrow> lsuctl option" where
  "put_status t c =
     (if dm_last t then
        (if length (c_dmas c) < DMAS_DEPTH
         then Some (c\<lparr>c_dmas := c_dmas c @ [\<lparr>ds_tag = dm_tag t, ds_interr = False, ds_decerr = False, ds_slverr = False, ds_okay = True\<rparr>]\<rparr>)
         else None)
      else Some c)"

definition rd32 :: "mem \<Rightarrow> u64 \<Rightarrow> u32" where
  "rd32 m a = le32_word (m a) (m (a + 1)) (m (a + 2)) (m (a + 3))"

definition rd_flit :: "mem \<Rightarrow> u64 \<Rightarrow> bool \<Rightarrow> AXI_TD" where
  "rd_flit m a l = \<lparr>td_data = push_bit 32 (ucast (rd32 m (a + 4))) OR ucast (rd32 m a), td_id = 0, td_dest = 0, td_keep = 0xFF,
     td_user = False, td_last = l\<rparr>"

definition on_mm2s :: "(mover \<Rightarrow> mover option) \<Rightarrow> lsu \<Rightarrow> lsu option" where
  "on_mm2s f s = map_option (\<lambda>d. s\<lparr>l_mm2s := d\<rparr>) (f (l_mm2s s))"

definition on_s2mm :: "(mover \<Rightarrow> mover option) \<Rightarrow> lsu \<Rightarrow> lsu option" where
  "on_s2mm f s = map_option (\<lambda>d. s\<lparr>l_s2mm := d\<rparr>) (f (l_s2mm s))"

definition mm2s_take :: "lsu \<Rightarrow> lsu option" where
  "mm2s_take s = map_option (\<lambda>(d, c). s\<lparr>l_mm2s := d, l_ch := (l_ch s)(False := c)\<rparr>) (take_dmac (l_mm2s s) (l_ch s False))"

definition mm2s_request :: "mover \<Rightarrow> mover option" where
  "mm2s_request d =
     (case d_pend d of
        [] \<Rightarrow> None
      | (a, t) # ts \<Rightarrow> if d_sent d = [] then request t (d\<lparr>d_pend := ts\<rparr>) else None)"

definition mm2s_get :: "mover \<Rightarrow> mover option" where
  "mm2s_get d = (if d_cur d = None then get_trans d else None)"

definition mm2s_answer :: "mover \<Rightarrow> mover option" where
  "mm2s_answer d =
     (if d_cur d = None
      then map_option (\<lambda>(t, d). d\<lparr>d_cur := Some (ucast (dm_addr t), (ucast (dm_size t) + 7) div 8, t)\<rparr>) (get_answer d) else None)"

definition mm2s_data :: "lsu \<Rightarrow> lsu option" where
  "mm2s_data s =
     (case d_cur (l_mm2s s) of
        None \<Rightarrow> None
      | Some (a, len, t) \<Rightarrow>
          if len \<noteq> 0 then
            (if l_dout s = [] then
               Some (s\<lparr>l_dout := [rd_flit (l_mem s) a (len - 1 = 0 \<and> dm_last t)],
                 l_mm2s := (l_mm2s s)\<lparr>d_cur := Some (a + 8, len - 1, t)\<rparr>\<rparr>)
             else None)
          else map_option (\<lambda>c. s\<lparr>l_ch := (l_ch s)(False := c), l_mm2s := (l_mm2s s)\<lparr>d_cur := None\<rparr>\<rparr>)
                 (put_status t (l_ch s False)))"

text \<open>Writing memory: \<^verbatim>\<open>s2mm::ct_command\<close>, \<^verbatim>\<open>s2mm::ct_response\<close>. A word is written when all its bytes are kept.\<close>

definition put_lane :: "bool \<Rightarrow> u32 \<Rightarrow> u64 \<times> u32 \<times> mem \<Rightarrow> u64 \<times> u32 \<times> mem" where
  "put_lane kept w st =
     (case st of (a, len, m) \<Rightarrow> if kept then (a + 4, len - 4, store_bytes a (le32_bytes w) m) else (a, len, m))"

definition put_flit :: "AXI_TD \<Rightarrow> u64 \<times> u32 \<times> mem \<Rightarrow> u64 \<times> u32 \<times> mem" where
  "put_flit x st =
     put_lane (drop_bit 4 (td_keep x) AND 0xF = 0xF) (ucast (drop_bit 32 (td_data x)))
       (put_lane (td_keep x AND 0xF = 0xF) (ucast (td_data x)) st)"

definition s2mm_take :: "lsu \<Rightarrow> lsu option" where
  "s2mm_take s =
     (if d_cur (l_s2mm s) \<noteq> None then None
      else map_option (\<lambda>(d, c). s\<lparr>l_s2mm := d, l_ch := (l_ch s)(True := c)\<rparr>) (take_dmac (l_s2mm s) (l_ch s True)))"

definition s2mm_begin :: "mover \<Rightarrow> mover option" where
  "s2mm_begin d =
     (case (d_pend d, d_cur d) of
        ((a, t) # ts, None) \<Rightarrow> if d_sent d = [] then Some (d\<lparr>d_pend := ts, d_cur := Some (a, ucast (dm_size t), t)\<rparr>) else None
      | _ \<Rightarrow> None)"

definition s2mm_data :: "lsu \<Rightarrow> lsu option" where
  "s2mm_data s =
     (case d_cur (l_s2mm s) of
        None \<Rightarrow> None
      | Some (a, len, t) \<Rightarrow>
          if len \<noteq> 0 then
            (case l_din s of
               [] \<Rightarrow> None
             | x # xs \<Rightarrow>
                 (let (a, len, m) = put_flit x (a, len, l_mem s)
                  in Some (s\<lparr>l_din := xs, l_mem := m, l_s2mm := (l_s2mm s)\<lparr>d_cur := Some (a, len, t)\<rparr>\<rparr>)))
          else on_s2mm (\<lambda>d. request t (d\<lparr>d_cur := None\<rparr>)) s)"

definition s2mm_get :: "mover \<Rightarrow> mover option" where
  "s2mm_get d = (if d_done d = [] then get_trans d else None)"

definition s2mm_answer :: "mover \<Rightarrow> mover option" where
  "s2mm_answer d = (if d_done d = [] then map_option (\<lambda>(t, d). d\<lparr>d_done := [t]\<rparr>) (get_answer d) else None)"

definition s2mm_status :: "lsu \<Rightarrow> lsu option" where
  "s2mm_status s =
     (case d_done (l_s2mm s) of
        [] \<Rightarrow> None
      | t # ts \<Rightarrow> map_option (\<lambda>c. s\<lparr>l_s2mm := (l_s2mm s)\<lparr>d_done := ts\<rparr>, l_ch := (l_ch s)(True := c)\<rparr>) (put_status t (l_ch s True)))"

text \<open>The environment: the memory answers a request, the data stream out is connected to the data stream in, and the
  processor reads a flit.\<close>

definition mem_answer :: "nat \<Rightarrow> mover \<Rightarrow> mover option" where
  "mem_answer i d =
     (if i < length (d_flight d)
      then Some (d\<lparr>d_flight := take i (d_flight d) @ drop (Suc i) (d_flight d), d_peq := d_peq d @ [d_flight d ! i]\<rparr>) else None)"

definition dat_wire :: "lsu \<Rightarrow> lsu option" where
  "dat_wire s = (case l_dout s of [] \<Rightarrow> None | x # xs \<Rightarrow> if l_din s = [] then Some (s\<lparr>l_dout := xs, l_din := [x]\<rparr>) else None)"

definition root_read :: "lsu \<Rightarrow> lsu option" where
  "root_read s = (case l_queue s of [] \<Rightarrow> None | x # xs \<Rightarrow> Some (s\<lparr>l_queue := xs, l_root_out := l_root_out s @ [x]\<rparr>))"

datatype lsu_thread =
    Demux | Mux | RegCommand bool | RegResponse bool | Command bool | Response bool
  | ReadTake | ReadRequest | ReadPut | ReadGet | ReadAnswer | ReadData
  | WriteTake | WriteBegin | WriteData | WritePut | WriteGet | WriteAnswer | WriteStatus
  | MemRead nat | MemWrite nat | Wire | Root

fun lsu_exec :: "lsu_thread \<Rightarrow> lsu \<Rightarrow> lsu option" where
  "lsu_exec Demux s = csw_demux s"
| "lsu_exec Mux s = csw_mux s"
| "lsu_exec (RegCommand b) s = on_ch b ctlreg_command s"
| "lsu_exec (RegResponse b) s = on_ch b ctlreg_response s"
| "lsu_exec (Command b) s = on_ch b lsuctl_command s"
| "lsu_exec (Response b) s = on_ch b lsuctl_response s"
| "lsu_exec ReadTake s = mm2s_take s"
| "lsu_exec ReadRequest s = on_mm2s mm2s_request s"
| "lsu_exec ReadPut s = on_mm2s (put_trans OUTSTANDING_READ) s"
| "lsu_exec ReadGet s = on_mm2s mm2s_get s"
| "lsu_exec ReadAnswer s = on_mm2s mm2s_answer s"
| "lsu_exec ReadData s = mm2s_data s"
| "lsu_exec WriteTake s = s2mm_take s"
| "lsu_exec WriteBegin s = on_s2mm s2mm_begin s"
| "lsu_exec WriteData s = s2mm_data s"
| "lsu_exec WritePut s = on_s2mm (put_trans OUTSTANDING_WRITE) s"
| "lsu_exec WriteGet s = on_s2mm s2mm_get s"
| "lsu_exec WriteAnswer s = on_s2mm s2mm_answer s"
| "lsu_exec WriteStatus s = s2mm_status s"
| "lsu_exec (MemRead i) s = on_mm2s (mem_answer i) s"
| "lsu_exec (MemWrite i) s = on_s2mm (mem_answer i) s"
| "lsu_exec Wire s = dat_wire s"
| "lsu_exec Root s = root_read s"

inductive lsu_step :: "lsu \<Rightarrow> lsu \<Rightarrow> bool" where
  thread: "lsu_exec t s = Some s' \<Longrightarrow> lsu_step s s'"

section \<open>Reset\<close>

definition lsuctl_reset :: lsuctl where
  "lsuctl_reset = \<lparr>c_in = [], c_pkt = None, c_reg = replicate 8 0, c_we0 = False, c_rsp0 = 0, c_go = [], c_acmd = [], c_loop = [], c_arsp = [],
     c_tid = 0, c_pend = [], c_dmac = [], c_dmas = [], c_stat = [], c_send = None, c_out = []\<rparr>"

definition mover_reset :: "nat \<Rightarrow> mover" where
  "mover_reset n = \<lparr>d_pend = [], d_pool = tmanage (n + 1), d_flight = [], d_peq = [], d_sent = [], d_trans = [], d_got = [], d_done = [], d_cur = None\<rparr>"

definition lsu_reset :: "AXI_TC list \<Rightarrow> mem \<Rightarrow> lsu" where
  "lsu_reset xs m = \<lparr>l_root_in = xs, l_mux = [], l_queue = [], l_root_out = [], l_ch = (\<lambda>b. lsuctl_reset), l_mm2s = mover_reset OUTSTANDING_READ,
     l_s2mm = mover_reset OUTSTANDING_WRITE, l_dout = [], l_din = [], l_mem = m\<rparr>"

end
