(* ===== verification/Lsu_Types.thy ===== *)
theory Lsu_Types
  imports Lsu "HOL-Library.Multiset"
begin

text \<open>
  Well-formed states of the load-store unit: no FIFO holds more than its depth, every thread holds at most one value, the register file
  has its eight registers, so that every three-bit selector is in range, and every payload of a mover is in the pool, with the memory or in
  the event queue, exactly once.
\<close>

definition ctl_wf :: "lsuctl \<Rightarrow> bool" where
  "ctl_wf c \<longleftrightarrow> length (c_reg c) = 8 \<and> length (c_in c) \<le> 1 \<and> length (c_go c) \<le> 1 \<and> length (c_acmd c) \<le> 1 \<and> length (c_loop c) \<le> 2 \<and>
     length (c_arsp c) \<le> 1 \<and> length (c_dmac c) \<le> DMAC_DEPTH \<and> length (c_dmas c) \<le> DMAS_DEPTH \<and> length (c_stat c) \<le> 1 \<and> length (c_out c) \<le> 1"

definition payloads :: "nat \<Rightarrow> mover \<Rightarrow> bool" where
  "payloads n d \<longleftrightarrow> mset (d_pool d) + mset (d_flight d) + mset (d_peq d) = mset [0..<n + 1]"

definition mover_wf :: "nat \<Rightarrow> mover \<Rightarrow> bool" where
  "mover_wf n d \<longleftrightarrow> payloads n d \<and> length (d_sent d) \<le> 1 \<and> length (d_trans d) \<le> n \<and> length (d_got d) \<le> 1 \<and> length (d_done d) \<le> 1"

definition lsu_wf :: "lsu \<Rightarrow> bool" where
  "lsu_wf s \<longleftrightarrow> (\<forall>b. ctl_wf (l_ch s b)) \<and> mover_wf OUTSTANDING_READ (l_mm2s s) \<and> mover_wf OUTSTANDING_WRITE (l_s2mm s) \<and>
     (d_cur (l_s2mm s) \<noteq> None \<longrightarrow> d_sent (l_s2mm s) = []) \<and> length (l_mux s) \<le> 1 \<and> length (l_queue s) \<le> QDEPTH \<and>
     length (l_dout s) \<le> 1 \<and> length (l_din s) \<le> 1"

lemma ctlreg_command_wf: "ctlreg_command c = Some c' \<Longrightarrow> ctl_wf c \<Longrightarrow> ctl_wf c'"
  unfolding ctlreg_command_def ctl_wf_def reg_write_def
  by (auto simp: Let_def go_acmd_def split: list.splits option.splits if_splits)

lemma ctlreg_response_wf: "ctlreg_response c = Some c' \<Longrightarrow> ctl_wf c \<Longrightarrow> ctl_wf c'"
  unfolding ctlreg_response_def ctl_wf_def by (auto simp: Let_def split: option.splits if_splits)

lemma lsuctl_command_wf: "lsuctl_command c = Some c' \<Longrightarrow> ctl_wf c \<Longrightarrow> ctl_wf c'"
  unfolding lsuctl_command_def ctl_wf_def by (auto split: list.splits if_splits)

lemma lsuctl_response_wf: "lsuctl_response c = Some c' \<Longrightarrow> ctl_wf c \<Longrightarrow> ctl_wf c'"
  unfolding lsuctl_response_def ctl_wf_def by (auto simp: Let_def split: list.splits if_splits)

lemma put_status_wf: "put_status t c = Some c' \<Longrightarrow> ctl_wf c \<Longrightarrow> ctl_wf c'"
  unfolding put_status_def ctl_wf_def by (auto split: if_splits)

lemma take_dmac_wf: "take_dmac d c = Some (d', c') \<Longrightarrow> ctl_wf c \<and> mover_wf n d \<Longrightarrow> ctl_wf c' \<and> mover_wf n d' \<and> d_cur d' = d_cur d \<and> d_sent d' = d_sent d"
  unfolding take_dmac_def ctl_wf_def mover_wf_def payloads_def by (auto split: list.splits if_splits)

lemma put_trans_wf: "put_trans n d = Some d' \<Longrightarrow> mover_wf n d \<Longrightarrow> mover_wf n d' \<and> d_cur d' = d_cur d \<and> length (d_sent d') \<le> length (d_sent d)"
  unfolding put_trans_def mover_wf_def payloads_def by (auto split: list.splits if_splits)

lemma get_trans_wf: "get_trans d = Some d' \<Longrightarrow> mover_wf n d \<Longrightarrow> mover_wf n d' \<and> d_cur d' = d_cur d \<and> d_sent d' = d_sent d"
  unfolding get_trans_def mover_wf_def payloads_def by (auto split: list.splits if_splits)

lemma get_answer_wf: "get_answer d = Some (t, d') \<Longrightarrow> mover_wf n d \<Longrightarrow> mover_wf n d' \<and> d_cur d' = d_cur d \<and> d_sent d' = d_sent d"
  unfolding get_answer_def mover_wf_def payloads_def free_payload_def by (auto split: list.splits)

lemma mem_answer_wf:
  assumes "mem_answer i d = Some d'" "mover_wf n d"
  shows "mover_wf n d' \<and> d_cur d' = d_cur d \<and> d_sent d' = d_sent d"
proof -
  have i: "i < length (d_flight d)"
    and d': "d' = d\<lparr>d_flight := take i (d_flight d) @ drop (Suc i) (d_flight d), d_peq := d_peq d @ [d_flight d ! i]\<rparr>"
    using assms(1) by (auto simp: mem_answer_def split: if_splits)
  have "mset (d_flight d) = mset (take i (d_flight d)) + {#d_flight d ! i#} + mset (drop (Suc i) (d_flight d))"
    using arg_cong [OF id_take_nth_drop [OF i], of mset] by simp
  then show ?thesis
    using assms(2) by (simp add: d' mover_wf_def payloads_def ac_simps)
qed

lemma request_wf:
  "request t d = Some d' \<Longrightarrow> mover_wf n d \<Longrightarrow> d_sent d = [] \<Longrightarrow> mover_wf n d' \<and> d_cur d' = d_cur d"
  unfolding request_def allocate_def mover_wf_def payloads_def by (auto split: list.splits)

lemma mover_wf_upd [simp]: "mover_wf n (d\<lparr>d_pend := p\<rparr>) = mover_wf n d" "mover_wf n (d\<lparr>d_cur := c\<rparr>) = mover_wf n d"
  "length e \<le> 1 \<Longrightarrow> mover_wf n d \<Longrightarrow> mover_wf n (d\<lparr>d_done := e\<rparr>)"
  by (simp_all add: mover_wf_def payloads_def)

lemma mm2s_wf:
  "mm2s_request d = Some d' \<Longrightarrow> mover_wf n d \<Longrightarrow> mover_wf n d'" "mm2s_answer d = Some d' \<Longrightarrow> mover_wf n d \<Longrightarrow> mover_wf n d'"
  "mm2s_get d = Some d' \<Longrightarrow> mover_wf n d \<Longrightarrow> mover_wf n d'"
  unfolding mm2s_request_def mm2s_answer_def mm2s_get_def
  by (auto split: list.splits if_splits dest: get_answer_wf [where n = n] get_trans_wf [where n = n] elim!: request_wf [THEN conjunct1])

lemma s2mm_wf:
  "s2mm_begin d = Some d' \<Longrightarrow> mover_wf n d \<Longrightarrow> mover_wf n d' \<and> (d_cur d' \<noteq> None \<longrightarrow> d_sent d' = [])"
  "s2mm_answer d = Some d' \<Longrightarrow> mover_wf n d \<Longrightarrow> mover_wf n d' \<and> d_cur d' = d_cur d \<and> d_sent d' = d_sent d"
  "s2mm_get d = Some d' \<Longrightarrow> mover_wf n d \<Longrightarrow> mover_wf n d' \<and> d_cur d' = d_cur d \<and> d_sent d' = d_sent d"
  unfolding s2mm_begin_def s2mm_answer_def s2mm_get_def
  by (auto split: list.splits option.splits if_splits dest: get_answer_wf [where n = n] get_trans_wf [where n = n])

lemma csw_demux_wf: "csw_demux s = Some s' \<Longrightarrow> lsu_wf s \<Longrightarrow> lsu_wf s'"
  unfolding csw_demux_def on_ch_def lsu_wf_def by (auto simp: ctl_wf_def split: list.splits if_splits)

lemma csw_mux_wf:
  assumes "csw_mux s = Some s'" "lsu_wf s"
  shows "lsu_wf s'"
proof (cases "l_mux s")
  case Nil
  then obtain b x xs where "c_out (l_ch s b) = x # xs" and s': "s' = s\<lparr>l_mux := [x], l_ch := (l_ch s)(b := (l_ch s b)\<lparr>c_out := xs\<rparr>)\<rparr>"
    using assms(1) by (auto simp: csw_mux_def Let_def split: list.splits)
  moreover have "ctl_wf (l_ch s b)"
    using assms(2) by (simp add: lsu_wf_def)
  ultimately have "ctl_wf ((l_ch s b)\<lparr>c_out := xs\<rparr>)"
    by (simp add: ctl_wf_def)
  then show ?thesis
    using assms(2) by (simp add: s' lsu_wf_def)
next
  case (Cons x xs)
  then show ?thesis
    using assms by (auto simp: csw_mux_def lsu_wf_def split: if_splits)
qed

lemma mm2s_data_wf: "mm2s_data s = Some s' \<Longrightarrow> lsu_wf s \<Longrightarrow> lsu_wf s'"
  unfolding mm2s_data_def lsu_wf_def by (auto elim!: put_status_wf split: option.splits if_splits)

lemma s2mm_data_wf: "s2mm_data s = Some s' \<Longrightarrow> lsu_wf s \<Longrightarrow> lsu_wf s'"
  unfolding s2mm_data_def lsu_wf_def on_s2mm_def
  by (auto simp: split_beta Let_def dest!: request_wf [where n = OUTSTANDING_WRITE] split: option.splits list.splits if_splits)

lemma s2mm_status_wf: "s2mm_status s = Some s' \<Longrightarrow> lsu_wf s \<Longrightarrow> lsu_wf s'"
  unfolding s2mm_status_def lsu_wf_def by (auto simp: mover_wf_def payloads_def elim!: put_status_wf split: list.splits)

lemma take_wf: "mm2s_take s = Some s' \<Longrightarrow> lsu_wf s \<Longrightarrow> lsu_wf s'" "s2mm_take s = Some s' \<Longrightarrow> lsu_wf s \<Longrightarrow> lsu_wf s'"
  unfolding mm2s_take_def s2mm_take_def lsu_wf_def
  by (auto dest: take_dmac_wf [where n = OUTSTANDING_READ] take_dmac_wf [where n = OUTSTANDING_WRITE] split: if_splits)

lemma env_wf: "dat_wire s = Some s' \<Longrightarrow> lsu_wf s \<Longrightarrow> lsu_wf s'" "root_read s = Some s' \<Longrightarrow> lsu_wf s \<Longrightarrow> lsu_wf s'"
  unfolding dat_wire_def root_read_def lsu_wf_def by (auto split: list.splits if_splits)

lemma on_ch_wf: "on_ch b f s = Some s' \<Longrightarrow> (\<And>c'. f (l_ch s b) = Some c' \<Longrightarrow> ctl_wf (l_ch s b) \<Longrightarrow> ctl_wf c') \<Longrightarrow> lsu_wf s \<Longrightarrow> lsu_wf s'"
  unfolding on_ch_def lsu_wf_def by auto

lemma on_mm2s_wf:
  "on_mm2s f s = Some s' \<Longrightarrow> (\<And>d'. f (l_mm2s s) = Some d' \<Longrightarrow> mover_wf OUTSTANDING_READ (l_mm2s s) \<Longrightarrow> mover_wf OUTSTANDING_READ d') \<Longrightarrow>
     lsu_wf s \<Longrightarrow> lsu_wf s'"
  unfolding on_mm2s_def lsu_wf_def by auto

lemma on_s2mm_wf:
  assumes "on_s2mm f s = Some s'" "lsu_wf s"
    "\<And>d'. f (l_s2mm s) = Some d' \<Longrightarrow> mover_wf OUTSTANDING_WRITE (l_s2mm s) \<Longrightarrow>
       mover_wf OUTSTANDING_WRITE d' \<and> (d_cur d' = None \<or> d_sent d' = [] \<or> d_cur d' = d_cur (l_s2mm s) \<and> length (d_sent d') \<le> length (d_sent (l_s2mm s)))"
  shows "lsu_wf s'"
  using assms unfolding on_s2mm_def lsu_wf_def by fastforce

lemma lsu_exec_wf:
  assumes "lsu_exec th s = Some s'" "lsu_wf s"
  shows "lsu_wf s'"
  using assms
  by (cases th)
    (auto intro: csw_demux_wf csw_mux_wf mm2s_data_wf s2mm_data_wf s2mm_status_wf take_wf env_wf
      elim!: on_ch_wf on_mm2s_wf on_s2mm_wf
      dest: ctlreg_command_wf ctlreg_response_wf lsuctl_command_wf lsuctl_response_wf put_trans_wf mem_answer_wf mm2s_wf s2mm_wf)

lemma lsu_reset_wf: "lsu_wf (lsu_reset xs m)"
  by (simp add: lsu_wf_def lsu_reset_def ctl_wf_def lsuctl_reset_def mover_wf_def mover_reset_def payloads_def tmanage_def)

text \<open>C11: Whatever packets the load-store unit is sent, and in whatever order its threads run, its state stays well formed: no FIFO ever holds more
  than its depth, no thread holds more than one value, the register file keeps its eight registers, and no payload is lost, used twice or
  freed twice.\<close>

theorem lsu_well_formed:
  assumes "lsu_step\<^sup>*\<^sup>* (lsu_reset xs m) s"
  shows "lsu_wf s"
  using assms
proof (induction rule: rtranclp_induct)
  case (step s s')
  then show ?case
    by (auto elim!: lsu_step.cases intro: lsu_exec_wf)
qed (rule lsu_reset_wf)

theorem lsu_well_formed_witness:
  "lsu_wf (the (lsu_exec Demux (lsu_reset [hdr_flit 0xCB0004 1 False] (\<lambda>a. 0))))"
proof (rule lsu_well_formed)
  show "lsu_step\<^sup>*\<^sup>* (lsu_reset [hdr_flit 0xCB0004 1 False] (\<lambda>a. 0)) (the (lsu_exec Demux (lsu_reset [hdr_flit 0xCB0004 1 False] (\<lambda>a. 0))))"
    by (intro r_into_rtranclp lsu_step.intros [of Demux]) (simp add: csw_demux_def on_ch_def lsu_reset_def lsuctl_reset_def)
qed

end
