(* ===== verification/Lsu_Correct.thy ===== *)
theory Lsu_Correct
  imports Lsu
begin

text \<open>
  What the load-store unit does under every schedule of its threads. The proof follows the work that is still to come:
  the transfers a channel will start, the addresses that will be read and written, and the memory that results
  when all of it is done. No step changes that memory, every step uses up some of the work, and a unit
  with work left always has a thread that can go on.
\<close>

section \<open>Transfers to come\<close>

text \<open>The transfers that the flits still to come will start, the commands being executed one after the other.\<close>

fun cmds :: "u32 list \<Rightarrow> (AXI_TC \<times> 3 word \<times> 3 word) option \<Rightarrow> ACMD list \<Rightarrow> AXI_TC list \<Rightarrow> DMAC list" where
  "cmds reg pkt acmd [] = concat (map (lsu_dmacs reg) acmd)"
| "cmds reg pkt acmd (x # xs) = concat (map (lsu_dmacs reg) acmd) @
     (case pkt of
        None \<Rightarrow>
          if ra_wr (tc_user x) then
            let len = ra_len (tc_user x) - 1; reg = reg[unat (ra_sel (tc_user x)) := tc_data x]
            in if len \<noteq> 0 then cmds reg (Some (x, len, ra_sel (tc_user x) + 1)) [] xs else cmds reg None (go_acmd x) xs
          else cmds reg None (go_acmd x) xs
      | Some (y, len, sel) \<Rightarrow>
          let len = len - 1; reg = reg[unat sel := tc_data x]
          in if len \<noteq> 0 then cmds reg (Some (y, len, sel + 1)) [] xs else cmds reg None (go_acmd y) xs)"

definition ctl_future :: "lsuctl \<Rightarrow> AXI_TC list \<Rightarrow> DMAC list" where
  "ctl_future c xs = c_dmac c @ c_pend c @ cmds (c_reg c) (c_pkt c) (c_acmd c @ c_go c) (c_in c @ xs)"

text \<open>Register 0 does not matter.\<close>

lemma lr_reg0:
  "lr_command (reg[0 := v]) = lr_command reg" "lr_reqstat (reg[0 := v]) = lr_reqstat reg" "lr_address (reg[0 := v]) = lr_address reg"
  "lr_size (reg[0 := v]) = lr_size reg" "lr_inc (reg[0 := v]) = lr_inc reg" "lr_rep (reg[0 := v]) = lr_rep reg"
  "lr_index (reg[0 := v]) = lr_index reg" "lr_trans (reg[0 := v]) = lr_trans reg"
  by (simp_all add: lr_command_def lr_reqstat_def lr_address_def lr_size_def lr_inc_def lr_rep_def lr_index_def lr_trans_def)

lemma lsu_dmacs_reg0: "lsu_dmacs (reg[0 := v]) = lsu_dmacs reg"
  unfolding lsu_dmacs_def lr_reg0 by (rule refl)

lemma list_update_reg0: "(reg[0 := v])[k := w] = (if k = 0 then reg[k := w] else (reg[k := w])[0 := v])"
  by (simp add: list_update_swap)

lemma cmds_reg0: "cmds (reg[0 := v]) pkt acmd xs = cmds reg pkt acmd xs"
proof (induction reg pkt acmd xs arbitrary: v rule: cmds.induct)
  case (1 reg pkt acmd)
  then show ?case
    by (simp add: lsu_dmacs_reg0)
next
  case (2 reg pkt acmd x xs)
  then show ?case
    by (cases pkt) (auto simp: Let_def list_update_reg0 lsu_dmacs_reg0)
qed

lemma cmds_append: "cmds reg pkt (as @ bs) xs = concat (map (lsu_dmacs reg) as) @ cmds reg pkt bs xs"
  by (cases xs) simp_all

lemma reg_write_cmds: "cmds (reg_write c sel w) pkt acmd xs = cmds ((c_reg c)[unat sel := w]) pkt acmd xs"
proof (cases "sel = 0")
  case True
  then show ?thesis
    using cmds_reg0 [of "(c_reg c)[0 := w]" "c_rsp0 c"] by (simp add: reg_write_def)
qed (simp add: reg_write_def)

lemma cmds_Cons: "cmds reg pkt (a # as) xs = lsu_dmacs reg a @ cmds reg pkt as xs"
  using cmds_append [of reg pkt "[a]"] by simp

lemma cmds_go: "concat (map (lsu_dmacs reg) as) @ cmds reg pkt [] xs = cmds reg pkt as xs"
  using cmds_append [of reg pkt as "[]"] by simp

lemma ctlreg_command_future: "ctlreg_command c = Some c' \<Longrightarrow> ctl_future c' xs = ctl_future c xs"
  unfolding ctlreg_command_def ctl_future_def
  by (auto simp: Let_def reg_write_cmds cmds_append cmds_Cons cmds_go split: list.splits option.splits if_splits)

lemma ctlreg_response_future: "ctlreg_response c = Some c' \<Longrightarrow> ctl_future c' xs = ctl_future c xs"
  unfolding ctlreg_response_def ctl_future_def by (auto simp: Let_def split: option.splits if_splits)

lemma lsuctl_command_future: "lsuctl_command c = Some c' \<Longrightarrow> ctl_future c' xs = ctl_future c xs"
  unfolding lsuctl_command_def ctl_future_def
  by (auto simp: cmds_Cons split: list.splits if_splits)

lemma lsuctl_response_future: "lsuctl_response c = Some c' \<Longrightarrow> ctl_future c' xs = ctl_future c xs"
  unfolding lsuctl_response_def ctl_future_def by (auto simp: Let_def cmds_reg0 split: list.splits if_splits)

text \<open>The transfers a channel of the unit will start.\<close>

definition root_for :: "bool \<Rightarrow> AXI_TC list \<Rightarrow> AXI_TC list" where
  "root_for b xs = filter (\<lambda>x. bit (tc_dest x) 0 = b) xs"

definition dmacs_of :: "bool \<Rightarrow> lsu \<Rightarrow> DMAC list" where
  "dmacs_of b s = ctl_future (l_ch s b) (root_for b (l_root_in s))"

lemma csw_demux_future: "csw_demux s = Some s' \<Longrightarrow> dmacs_of b s' = dmacs_of b s"
  unfolding csw_demux_def on_ch_def dmacs_of_def
  by (auto simp: ctl_future_def root_for_def split: list.splits if_splits)

section \<open>Addresses to come\<close>

definition flit_addrs :: "u64 \<Rightarrow> nat \<Rightarrow> u64 list" where
  "flit_addrs a n = map (\<lambda>i. a + 8 * of_nat i) [0..<n]"

lemma flit_addrs_0 [simp]: "flit_addrs a 0 = []"
  by (simp add: flit_addrs_def)

lemma flit_addrs_Suc: "flit_addrs a (Suc n) = a # flit_addrs (a + 8) n"
  unfolding flit_addrs_def by (simp add: upt_conv_Cons map_Suc_upt [symmetric] distrib_left add_ac del: upt_Suc)

lemma length_flit_addrs [simp]: "length (flit_addrs a n) = n"
  by (simp add: flit_addrs_def)

definition read_flits :: "DMAC \<Rightarrow> u32" where
  "read_flits t = (ucast (dm_size t) + 7) div 8"

definition read_addrs :: "DMAC \<Rightarrow> u64 list" where
  "read_addrs t = flit_addrs (ucast (dm_addr t)) (unat (read_flits t))"

definition write_addrs :: "u64 \<times> DMAC \<Rightarrow> u64 list" where
  "write_addrs w = flit_addrs (fst w) (unat (dm_size (snd w)) div 8)"

text \<open>The addresses a mover has still to read or to write, and whether the sizes it writes are whole flits.\<close>

definition r_queue :: "mover \<Rightarrow> DMAC list" where
  "r_queue d = d_got d @ d_trans d @ d_sent d @ map snd (d_pend d)"

definition mover_r :: "mover \<Rightarrow> u64 list" where
  "mover_r d = (case d_cur d of None \<Rightarrow> [] | Some (a, len, t) \<Rightarrow> flit_addrs a (unat len)) @ concat (map read_addrs (r_queue d))"

definition mover_w :: "mover \<Rightarrow> u64 list" where
  "mover_w d = (case d_cur d of None \<Rightarrow> [] | Some (a, len, t) \<Rightarrow> flit_addrs a (unat len div 8)) @ concat (map write_addrs (d_pend d))"

definition even_trans :: "u64 \<times> DMAC \<Rightarrow> bool" where
  "even_trans w \<longleftrightarrow> 8 dvd unat (dm_size (snd w))"

definition mover_even :: "mover \<Rightarrow> bool" where
  "mover_even d \<longleftrightarrow> (case d_cur d of None \<Rightarrow> True | Some (a, len, t) \<Rightarrow> 8 dvd unat len) \<and> list_all even_trans (d_pend d)"

lemmas mover_defs = mover_r_def r_queue_def mover_w_def mover_even_def

lemma unat_ucast_size [simp]: "unat (ucast (n :: 24 word) :: u32) = unat n"
  using unsigned_less [of n, where ?'a = nat] by (simp add: unsigned_ucast_eq take_bit_nat_eq_self)

lemma put_trans_keeps: "put_trans n d = Some d' \<Longrightarrow> mover_r d' = mover_r d \<and> mover_w d' = mover_w d \<and> mover_even d' = mover_even d"
  unfolding put_trans_def by (auto simp: mover_defs split: list.splits if_splits)

lemma get_trans_keeps: "get_trans d = Some d' \<Longrightarrow> mover_r d' = mover_r d \<and> mover_w d' = mover_w d \<and> mover_even d' = mover_even d"
  unfolding get_trans_def by (auto simp: mover_defs split: list.splits if_splits)

lemma mem_answer_keeps: "mem_answer i d = Some d' \<Longrightarrow> mover_r d' = mover_r d \<and> mover_w d' = mover_w d \<and> mover_even d' = mover_even d"
  unfolding mem_answer_def by (auto simp: mover_defs split: if_splits)

lemma mm2s_request_keeps: "mm2s_request d = Some d' \<Longrightarrow> mover_r d' = mover_r d"
  unfolding mm2s_request_def request_def by (auto simp: mover_defs split: list.splits if_splits)

lemma mm2s_answer_keeps: "mm2s_answer d = Some d' \<Longrightarrow> mover_r d' = mover_r d"
  unfolding mm2s_answer_def get_answer_def by (auto simp: mover_defs read_addrs_def read_flits_def split: list.splits if_splits)

lemma s2mm_begin_keeps: "s2mm_begin d = Some d' \<Longrightarrow> mover_w d' = mover_w d \<and> mover_even d' = mover_even d"
  unfolding s2mm_begin_def by (auto simp: mover_defs write_addrs_def even_trans_def split: list.splits option.splits if_splits)

lemma s2mm_answer_keeps: "s2mm_answer d = Some d' \<Longrightarrow> mover_w d' = mover_w d \<and> mover_even d' = mover_even d"
  unfolding s2mm_answer_def get_answer_def by (auto simp: mover_defs split: list.splits if_splits)

lemma s2mm_request_keeps:
  "d_cur d = Some (a, 0, t) \<Longrightarrow> request t' (d\<lparr>d_cur := None\<rparr>) = Some d' \<Longrightarrow> mover_w d' = mover_w d \<and> mover_even d' = mover_even d"
  unfolding request_def by (auto simp: mover_defs)

section \<open>The work of the unit\<close>

definition dmac_r :: "DMAC \<Rightarrow> u64 list" where
  "dmac_r x = concat (map (read_addrs \<circ> snd) (dmac_trans x))"

definition dmac_w :: "DMAC \<Rightarrow> u64 list" where
  "dmac_w x = concat (map write_addrs (dmac_trans x))"

definition dmac_even :: "DMAC \<Rightarrow> bool" where
  "dmac_even x \<longleftrightarrow> list_all even_trans (dmac_trans x)"

definition r_addrs :: "lsu \<Rightarrow> u64 list" where
  "r_addrs s = mover_r (l_mm2s s) @ concat (map dmac_r (dmacs_of False s))"

definition w_addrs :: "lsu \<Rightarrow> u64 list" where
  "w_addrs s = mover_w (l_s2mm s) @ concat (map dmac_w (dmacs_of True s))"

definition w_even :: "lsu \<Rightarrow> bool" where
  "w_even s \<longleftrightarrow> mover_even (l_s2mm s) \<and> list_all dmac_even (dmacs_of True s)"

definition lsu_view :: "lsu \<Rightarrow> mem \<times> AXI_TD list \<times> u64 list \<times> u64 list \<times> bool" where
  "lsu_view s = (l_mem s, l_din s @ l_dout s, r_addrs s, w_addrs s, w_even s)"

lemmas view_defs = lsu_view_def r_addrs_def w_addrs_def w_even_def

lemma view_if_future:
  assumes "\<And>b. dmacs_of b s' = dmacs_of b s" "mover_r (l_mm2s s') = mover_r (l_mm2s s)" "mover_w (l_s2mm s') = mover_w (l_s2mm s)"
    "mover_even (l_s2mm s') = mover_even (l_s2mm s)" "l_mem s' = l_mem s" "l_din s' @ l_dout s' = l_din s @ l_dout s"
  shows "lsu_view s' = lsu_view s"
  using assms by (simp add: view_defs)

lemma on_ch_view:
  assumes "on_ch b f s = Some s'" "\<And>c c' xs. f c = Some c' \<Longrightarrow> ctl_future c' xs = ctl_future c xs"
  shows "lsu_view s' = lsu_view s"
  using assms by (intro view_if_future) (auto simp: on_ch_def dmacs_of_def)

lemma on_mm2s_view:
  assumes "on_mm2s f s = Some s'" "\<And>d'. f (l_mm2s s) = Some d' \<Longrightarrow> mover_r d' = mover_r (l_mm2s s)"
  shows "lsu_view s' = lsu_view s"
  using assms by (intro view_if_future) (auto simp: on_mm2s_def dmacs_of_def)

lemma on_s2mm_view:
  assumes "on_s2mm f s = Some s'"
    "\<And>d'. f (l_s2mm s) = Some d' \<Longrightarrow> mover_w d' = mover_w (l_s2mm s) \<and> mover_even d' = mover_even (l_s2mm s)"
  shows "lsu_view s' = lsu_view s"
  using assms by (intro view_if_future) (auto simp: on_s2mm_def dmacs_of_def)

lemma put_status_future: "put_status t c = Some c' \<Longrightarrow> ctl_future c' xs = ctl_future c xs"
  by (auto simp: put_status_def ctl_future_def split: if_splits)

lemma take_dmac_future:
  assumes "take_dmac d c = Some (d', c')"
  shows "\<exists>x. (\<forall>xs. ctl_future c xs = x # ctl_future c' xs) \<and> d_pend d = [] \<and> d_sent d = [] \<and> d' = d\<lparr>d_pend := dmac_trans x\<rparr>"
  using assms unfolding take_dmac_def ctl_future_def by (auto split: list.splits if_splits)

lemma mm2s_take_view: "mm2s_take s = Some s' \<Longrightarrow> lsu_view s' = lsu_view s"
  unfolding mm2s_take_def
  by (auto simp: view_defs dmacs_of_def mover_r_def r_queue_def dmac_r_def comp_def dest!: take_dmac_future)

lemma s2mm_take_view: "s2mm_take s = Some s' \<Longrightarrow> lsu_view s' = lsu_view s"
  unfolding s2mm_take_def
  by (auto simp: view_defs dmacs_of_def mover_w_def mover_even_def dmac_w_def dmac_even_def dest!: take_dmac_future split: if_splits)

lemma s2mm_status_view: "s2mm_status s = Some s' \<Longrightarrow> lsu_view s' = lsu_view s"
  unfolding s2mm_status_def
  by (rule view_if_future) (auto simp: dmacs_of_def put_status_future mover_w_def mover_even_def split: list.splits)

lemma mm2s_done_view: "mm2s_data s = Some s' \<Longrightarrow> d_cur (l_mm2s s) = Some (a, 0, t) \<Longrightarrow> lsu_view s' = lsu_view s"
  unfolding mm2s_data_def by (rule view_if_future) (auto simp: dmacs_of_def put_status_future mover_r_def r_queue_def)

lemma s2mm_done_view: "s2mm_data s = Some s' \<Longrightarrow> d_cur (l_s2mm s) = Some (a, 0, t) \<Longrightarrow> lsu_view s' = lsu_view s"
  unfolding s2mm_data_def by (rule on_s2mm_view [where f = "\<lambda>d. request t (d\<lparr>d_cur := None\<rparr>)"]) (auto dest: s2mm_request_keeps)

lemma csw_mux_view: "csw_mux s = Some s' \<Longrightarrow> lsu_view s' = lsu_view s"
  unfolding csw_mux_def Let_def
  by (rule view_if_future) (auto simp: dmacs_of_def ctl_future_def split: list.splits if_splits)

lemma csw_demux_view: "csw_demux s = Some s' \<Longrightarrow> lsu_view s' = lsu_view s"
  by (rule view_if_future) (auto simp: csw_demux_future, auto simp: csw_demux_def on_ch_def split: list.splits if_splits)

lemma dat_wire_view: "dat_wire s = Some s' \<Longrightarrow> lsu_view s' = lsu_view s"
  by (rule view_if_future) (auto simp: dat_wire_def dmacs_of_def split: list.splits if_splits)

lemma root_read_view: "root_read s = Some s' \<Longrightarrow> lsu_view s' = lsu_view s"
  by (rule view_if_future) (auto simp: root_read_def dmacs_of_def split: list.splits)

section \<open>Memory\<close>

definition rd64 :: "mem \<Rightarrow> u64 \<Rightarrow> u64" where
  "rd64 m a = td_data (rd_flit m a True)"

definition wr64 :: "u64 \<times> u64 \<Rightarrow> mem \<Rightarrow> mem" where
  "wr64 ad m = (case ad of (a, d) \<Rightarrow> store_bytes a (le32_bytes (ucast d) @ le32_bytes (ucast (drop_bit 32 d))) m)"

lemma put_flit_kept:
  "td_keep x = 0xFF \<Longrightarrow> put_flit x (a, len, m) = (a + 8, len - 8, wr64 (a, td_data x) m)"
  by (simp add: put_flit_def put_lane_def wr64_def store_bytes_append)

text \<open>Eight bytes at two addresses that do not meet.\<close>

definition apart :: "u64 \<Rightarrow> u64 \<Rightarrow> bool" where
  "apart a b \<longleftrightarrow> 8 \<le> unat (a - b) \<and> 8 \<le> unat (b - a)"

lemma apart_byte:
  assumes "apart a b" "i < 8"
  shows "8 \<le> unat (a + of_nat i - b)"
proof -
  have e: "a + of_nat i - b = (a - b) + of_nat i" and i: "unat (of_nat i :: u64) = i"
    using assms(2) by (simp_all add: unsigned_of_nat take_bit_nat_eq_self)
  have "unat (a - b) + i < 2 ^ 64"
    using assms unsigned_less [of a, where ?'a = nat] unsigned_less [of b, where ?'a = nat]
    by (auto simp: apart_def unat_sub_if' split: if_splits)
  then show ?thesis
    unfolding e using assms(1) i by (subst unat_add_lem [THEN iffD1]) (simp_all add: apart_def)
qed

lemma wr64_apart:
  assumes "apart a b"
  shows "rd64 (wr64 (b, d) m) a = rd64 m a"
proof -
  have "wr64 (b, d) m (a + of_nat i) = m (a + of_nat i)" if "i < 8" for i
    using apart_byte [OF assms that] by (simp add: wr64_def store_bytes_apply)
  note * = this [of 0] this [of 1] this [of 2] this [of 3] this [of 4] this [of 5] this [of 6] this [of 7]
  show ?thesis
    using * by (simp add: rd64_def rd_flit_def rd32_def add.assoc)
qed

lemma wr64_rd64: "wr64 (b, rd64 m a) m' = store_bytes b (map (\<lambda>i. m (a + of_nat i)) [0..<8]) m'"
proof -
  have w: "ucast (push_bit 32 (ucast y) OR ucast x :: u64) = x" "ucast (drop_bit 32 (push_bit 32 (ucast y) OR ucast x :: u64)) = y"
    for x y :: u32
    by (auto simp: bit_simps intro!: bit_word_eqI dest: word_bit_limits(4))
  show ?thesis
    unfolding wr64_def rd64_def rd_flit_def AXI_TD.simps prod.case w by (simp add: rd32_def le32_bytes_word add.assoc upt_rec)
qed

lemma copy_flits:
  "fold wr64 (zip (flit_addrs dst k) (map (rd64 m) (flit_addrs src k))) m' =
     store_bytes dst (map (\<lambda>i. m (src + of_nat i)) [0..<8 * k]) m'"
proof (induction k arbitrary: dst src m')
  case (Suc k)
  have "[0..<8 * Suc k] = [0..<8] @ map (\<lambda>i. i + 8) [0..<8 * k]"
    using upt_add_eq_append [of 0 8 "8 * k"] by (simp add: map_add_upt add.commute del: upt_Suc)
  then show ?case
    by (simp only: flit_addrs_Suc list.map zip_Cons_Cons fold_simps o_def Suc.IH wr64_rd64 map_append store_bytes_append)
      (simp add: comp_def add_ac)
qed simp

section \<open>The memory when all the work is done\<close>

definition r_data :: "lsu \<Rightarrow> u64 list" where
  "r_data s = map td_data (l_din s @ l_dout s) @ map (rd64 (l_mem s)) (r_addrs s)"

definition outcome :: "lsu \<Rightarrow> mem" where
  "outcome s = fold wr64 (zip (w_addrs s) (r_data s)) (l_mem s)"

text \<open>All flits are whole, and no address to be read is among those to be written.\<close>

definition safe :: "lsu \<Rightarrow> bool" where
  "safe s \<longleftrightarrow> w_even s \<and> (\<forall>x\<in>set (l_din s @ l_dout s). td_keep x = 0xFF) \<and>
     (\<forall>a\<in>set (r_addrs s). \<forall>b\<in>set (w_addrs s). apart a b) \<and> length (w_addrs s) = length (r_data s)"

lemma safe_view: "lsu_view s' = lsu_view s \<Longrightarrow> safe s \<Longrightarrow> safe s' \<and> outcome s' = outcome s"
  by (simp add: lsu_view_def safe_def outcome_def r_data_def)

lemma mm2s_data_reads:
  assumes "mm2s_data s = Some s'"
  shows "lsu_view s' = lsu_view s \<or>
    (\<exists>a x. r_addrs s = a # r_addrs s' \<and> r_data s' = r_data s \<and> l_dout s = [] \<and> l_dout s' = [x] \<and> td_keep x = 0xFF \<and>
      w_addrs s' = w_addrs s \<and> w_even s' = w_even s \<and> l_mem s' = l_mem s \<and> l_din s' = l_din s)"
proof (cases "\<exists>a t. d_cur (l_mm2s s) = Some (a, 0, t)")
  case True
  then show ?thesis
    using mm2s_done_view [OF assms(1)] by blast
next
  case False
  then obtain a len t where c: "d_cur (l_mm2s s) = Some (a, len, t)" "len \<noteq> 0" "l_dout s = []"
    and s': "s' = s\<lparr>l_dout := [rd_flit (l_mem s) a (len - 1 = 0 \<and> dm_last t)], l_mm2s := (l_mm2s s)\<lparr>d_cur := Some (a + 8, len - 1, t)\<rparr>\<rparr>"
    using assms(1) unfolding mm2s_data_def by (auto split: option.splits if_splits)
  have "unat len = Suc (unat (len - 1))"
    using c(2) by (simp add: unat_minus_one unat_gt_0)
  then have r: "r_addrs s = a # r_addrs s'"
    by (simp add: r_addrs_def mover_r_def r_queue_def dmacs_of_def c s' flit_addrs_Suc)
  have w: "w_addrs s' = w_addrs s" "w_even s' = w_even s"
    by (simp_all add: w_addrs_def w_even_def dmacs_of_def s')
  have d: "r_data s' = r_data s"
    unfolding r_data_def r by (simp add: c(3) s' rd64_def rd_flit_def)
  show ?thesis
    using r w d c(3) by (simp add: s' rd_flit_def)
qed

lemma mm2s_data_safe: "mm2s_data s = Some s' \<Longrightarrow> safe s \<Longrightarrow> safe s' \<and> outcome s' = outcome s"
  using mm2s_data_reads [of s s'] safe_view [of s' s] by (auto simp: safe_def outcome_def)

lemma s2mm_data_safe:
  assumes "s2mm_data s = Some s'" "safe s"
  shows "safe s' \<and> outcome s' = outcome s"
proof (cases "\<exists>a t. d_cur (l_s2mm s) = Some (a, 0, t)")
  case True
  then show ?thesis
    using s2mm_done_view [OF assms(1)] safe_view assms(2) by blast
next
  case False
  then obtain a len t x xs where c: "d_cur (l_s2mm s) = Some (a, len, t)" "len \<noteq> 0" "l_din s = x # xs"
    using assms(1) unfolding s2mm_data_def by (auto split: option.splits list.splits if_splits)
  have k: "td_keep x = 0xFF" and even: "8 dvd unat len"
    using assms(2) c by (auto simp: safe_def w_even_def mover_even_def)
  have s': "s' = s\<lparr>l_din := xs, l_mem := wr64 (a, td_data x) (l_mem s), l_s2mm := (l_s2mm s)\<lparr>d_cur := Some (a + 8, len - 8, t)\<rparr>\<rparr>"
    using assms(1) c put_flit_kept [OF k] by (simp add: s2mm_data_def)
  have "8 \<le> unat len"
    using even c(2) by (auto simp: dvd_imp_le unat_gt_0)
  then have l: "unat (len - 8) = unat len - 8"
    by (simp add: unat_sub word_le_nat_alt)
  then have "unat len div 8 = Suc (unat (len - 8) div 8)" "8 dvd unat (len - 8) \<longleftrightarrow> 8 dvd unat len"
    using \<open>8 \<le> unat len\<close> by (simp_all add: div_nat_eqI le_div_geq dvd_minus_self)
  then have w: "w_addrs s = a # w_addrs s'" "w_even s' = w_even s"
    by (simp_all add: w_addrs_def mover_w_def w_even_def mover_even_def dmacs_of_def c s' flit_addrs_Suc)
  have r: "r_addrs s' = r_addrs s"
    by (simp add: r_addrs_def dmacs_of_def s')
  have "map (rd64 (l_mem s')) (r_addrs s) = map (rd64 (l_mem s)) (r_addrs s)"
    using assms(2) w by (auto simp: s' safe_def wr64_apart)
  then have d: "r_data s = td_data x # r_data s'"
    unfolding r_data_def r by (simp add: c(3) s')
  show ?thesis
    using assms(2) unfolding safe_def outcome_def d w r by (auto simp: s' c(3))
qed

lemma lsu_exec_view:
  assumes "lsu_exec th s = Some s'" "th \<noteq> ReadData" "th \<noteq> WriteData"
  shows "lsu_view s' = lsu_view s"
proof (cases th)
  case (RegCommand b)
  then show ?thesis
    using assms(1) on_ch_view ctlreg_command_future by (metis lsu_exec.simps(3))
next
  case (RegResponse b)
  then show ?thesis
    using assms(1) on_ch_view ctlreg_response_future by (metis lsu_exec.simps(4))
next
  case (Command b)
  then show ?thesis
    using assms(1) on_ch_view lsuctl_command_future by (metis lsu_exec.simps(5))
next
  case (Response b)
  then show ?thesis
    using assms(1) on_ch_view lsuctl_response_future by (metis lsu_exec.simps(6))
qed (use assms in \<open>auto intro: csw_demux_view csw_mux_view mm2s_take_view s2mm_take_view s2mm_status_view dat_wire_view
    root_read_view elim!: on_mm2s_view on_s2mm_view dest: put_trans_keeps get_trans_keeps mem_answer_keeps mm2s_request_keeps mm2s_answer_keeps s2mm_begin_keeps
    s2mm_answer_keeps simp: mm2s_get_def s2mm_get_def split: if_splits\<close>)

lemma lsu_exec_safe: "lsu_exec th s = Some s' \<Longrightarrow> safe s \<Longrightarrow> safe s' \<and> outcome s' = outcome s"
  using mm2s_data_safe [of s s'] s2mm_data_safe [of s s'] safe_view [OF lsu_exec_view [of th s s']]
  by (cases "th = ReadData"; cases "th = WriteData") auto

end
