(* ===== verification/Lsu_Progress.thy ===== *)
theory Lsu_Progress
  imports Lsu_Correct
begin

text \<open>
  Every step of the load-store unit uses up some of the work (\<open>lsu_potential\<close>), no step loses or invents a response
  (\<open>responses\<close>), and the movers account for every transaction (\<open>balanced\<close>). A unit that cannot go on has therefore
  done all its work.
\<close>

abbreviation total :: "('a \<Rightarrow> nat) \<Rightarrow> 'a list \<Rightarrow> nat" where
  "total f xs \<equiv> sum_list (map f xs)"

section \<open>Only write packets\<close>

definition writes :: "AXI_TC list \<Rightarrow> bool" where
  "writes xs \<longleftrightarrow> (\<forall>x\<in>set xs. ra_wr (tc_user x))"

definition ctl_writes :: "lsuctl \<Rightarrow> bool" where
  "ctl_writes c \<longleftrightarrow> writes (c_in c) \<and> c_loop c = []"

definition lsu_writes :: "lsu \<Rightarrow> bool" where
  "lsu_writes s \<longleftrightarrow> writes (l_root_in s) \<and> (\<forall>b. ctl_writes (l_ch s b))"

lemma ctlreg_command_writes: "ctlreg_command c = Some c' \<Longrightarrow> ctl_writes c \<Longrightarrow> ctl_writes c'"
  unfolding ctlreg_command_def ctl_writes_def writes_def by (auto simp: Let_def split: list.splits option.splits if_splits)

lemma ctlreg_response_writes: "ctlreg_response c = Some c' \<Longrightarrow> ctl_writes c \<Longrightarrow> ctl_writes c'"
  unfolding ctlreg_response_def ctl_writes_def by (auto simp: Let_def split: option.splits if_splits)

lemma lsuctl_command_writes: "lsuctl_command c = Some c' \<Longrightarrow> ctl_writes c \<Longrightarrow> ctl_writes c'"
  unfolding lsuctl_command_def ctl_writes_def by (auto split: list.splits if_splits)

lemma lsuctl_response_writes: "lsuctl_response c = Some c' \<Longrightarrow> ctl_writes c \<Longrightarrow> ctl_writes c'"
  unfolding lsuctl_response_def ctl_writes_def by (auto simp: Let_def split: list.splits if_splits)

lemma put_status_writes: "put_status t c = Some c' \<Longrightarrow> ctl_writes c \<Longrightarrow> ctl_writes c'"
  unfolding put_status_def ctl_writes_def by (auto split: if_splits)

lemma take_dmac_writes: "take_dmac d c = Some (d', c') \<Longrightarrow> ctl_writes c \<Longrightarrow> ctl_writes c'"
  unfolding take_dmac_def ctl_writes_def by (auto split: list.splits if_splits)

lemma csw_demux_writes: "csw_demux s = Some s' \<Longrightarrow> lsu_writes s \<Longrightarrow> lsu_writes s'"
  unfolding csw_demux_def on_ch_def lsu_writes_def ctl_writes_def writes_def by (auto split: list.splits if_splits)

lemma csw_mux_writes: "csw_mux s = Some s' \<Longrightarrow> lsu_writes s \<Longrightarrow> lsu_writes s'"
  unfolding csw_mux_def lsu_writes_def ctl_writes_def Let_def by (auto split: list.splits if_splits)

lemma lsu_exec_writes:
  assumes "lsu_exec th s = Some s'" "lsu_writes s"
  shows "lsu_writes s'"
proof (cases th)
  case Demux
  then show ?thesis
    using assms csw_demux_writes by simp
next
  case Mux
  then show ?thesis
    using assms csw_mux_writes by simp
qed (use assms in \<open>auto simp: lsu_writes_def on_ch_def on_mm2s_def on_s2mm_def mm2s_take_def s2mm_take_def mm2s_data_def s2mm_data_def s2mm_status_def
    dat_wire_def root_read_def split_beta split: list.splits option.splits if_splits
    dest: ctlreg_command_writes ctlreg_response_writes lsuctl_command_writes lsuctl_response_writes take_dmac_writes put_status_writes\<close>)

section \<open>Movers\<close>

definition balanced :: "nat \<Rightarrow> mover \<Rightarrow> bool" where
  "balanced n d \<longleftrightarrow> length (d_pool d) + length (d_flight d) + length (d_peq d) = n \<and>
     length (d_sent d) + length (d_trans d) + length (d_got d) = length (d_flight d) + length (d_peq d)"

lemma put_trans_balanced: "put_trans k d = Some d' \<Longrightarrow> balanced n d \<Longrightarrow> balanced n d'"
  unfolding put_trans_def balanced_def by (auto split: list.splits if_splits)

lemma get_trans_balanced: "get_trans d = Some d' \<Longrightarrow> balanced n d \<Longrightarrow> balanced n d'"
  unfolding get_trans_def balanced_def by (auto split: list.splits if_splits)

lemma get_answer_balanced: "get_answer d = Some (t, d') \<Longrightarrow> balanced n d \<Longrightarrow> balanced n d'"
  unfolding get_answer_def balanced_def free_payload_def by (auto split: list.splits)

lemma mem_answer_balanced: "mem_answer i d = Some d' \<Longrightarrow> balanced n d \<Longrightarrow> balanced n d'"
  unfolding mem_answer_def balanced_def by (auto split: if_splits)

lemma request_balanced: "request t d = Some d' \<Longrightarrow> balanced n d \<Longrightarrow> balanced n d'"
  unfolding request_def allocate_def balanced_def by (auto split: list.splits)

lemma balanced_upd [simp]:
  "balanced n (d\<lparr>d_pend := p\<rparr>) = balanced n d" "balanced n (d\<lparr>d_cur := c\<rparr>) = balanced n d" "balanced n (d\<lparr>d_done := e\<rparr>) = balanced n d"
  by (simp_all add: balanced_def)

lemma take_dmac_balanced: "take_dmac d c = Some (d', c') \<Longrightarrow> balanced n d \<Longrightarrow> balanced n d'"
  unfolding take_dmac_def by (auto split: list.splits if_splits)

lemma mm2s_balanced:
  "mm2s_request d = Some d' \<Longrightarrow> balanced n d \<Longrightarrow> balanced n d'" "mm2s_answer d = Some d' \<Longrightarrow> balanced n d \<Longrightarrow> balanced n d'"
  unfolding mm2s_request_def mm2s_answer_def
  by (auto split: list.splits if_splits dest: get_answer_balanced elim!: request_balanced)

lemma s2mm_balanced:
  "s2mm_begin d = Some d' \<Longrightarrow> balanced n d \<Longrightarrow> balanced n d'" "s2mm_answer d = Some d' \<Longrightarrow> balanced n d \<Longrightarrow> balanced n d'"
  unfolding s2mm_begin_def s2mm_answer_def
  by (auto split: list.splits option.splits if_splits dest: get_answer_balanced)

lemma lsu_exec_balanced:
  assumes "lsu_exec th s = Some s'" "balanced n (l_mm2s s)" "balanced k (l_s2mm s)"
  shows "balanced n (l_mm2s s') \<and> balanced k (l_s2mm s')"
proof (cases th)
  case WriteData
  then show ?thesis
    using assms request_balanced [where n = k]
    by (auto simp: s2mm_data_def on_s2mm_def split_beta Let_def split: option.splits list.splits if_splits)
qed (use assms in \<open>auto simp: csw_demux_def csw_mux_def Let_def on_ch_def on_mm2s_def on_s2mm_def mm2s_take_def s2mm_take_def mm2s_data_def
    s2mm_status_def mm2s_get_def s2mm_get_def dat_wire_def root_read_def split: list.splits option.splits if_splits
    dest: put_trans_balanced get_trans_balanced mem_answer_balanced take_dmac_balanced mm2s_balanced s2mm_balanced\<close>)

section \<open>Responses\<close>

text \<open>A transaction after which a response is sent, and the responses that are still to come or have come.\<close>

definition asks :: "DMAC \<Rightarrow> bool" where
  "asks t \<longleftrightarrow> dm_last t \<and> tg_req (dm_tag t)"

definition n_asks :: "DMAC list \<Rightarrow> nat" where
  "n_asks ts = length (filter asks ts)"

lemma n_asks_simps [simp]: "n_asks [] = 0" "n_asks (t # ts) = of_bool (asks t) + n_asks ts" "n_asks (ts @ us) = n_asks ts + n_asks us"
  by (simp_all add: n_asks_def)

definition rac_len :: "ACMD \<Rightarrow> nat" where
  "rac_len a = unat (ra_len (ac_srac a))"

definition ctl_responses :: "lsuctl \<Rightarrow> nat" where
  "ctl_responses c = (case c_send c of None \<Rightarrow> 0 | Some a \<Rightarrow> rac_len a) + total rac_len (c_arsp c) + length (c_out c) +
     length (filter (tg_req \<circ> ds_tag) (c_stat c @ c_dmas c))"

lemma ctlreg_command_responses: "ctlreg_command c = Some c' \<Longrightarrow> ctl_responses c' = ctl_responses c"
  unfolding ctlreg_command_def ctl_responses_def by (auto simp: Let_def split: list.splits option.splits if_splits)

lemma ctlreg_response_responses:
  assumes "ctlreg_response c = Some c'" "c_loop c = []"
  shows "ctl_responses c' = ctl_responses c"
proof (cases "c_send c")
  case None
  then show ?thesis
    using assms by (cases "c_arsp c") (auto simp: ctlreg_response_def ctl_responses_def)
next
  case (Some a)
  have "ra_len (ac_srac a) \<noteq> 0 \<Longrightarrow> rac_len a = Suc (unat (ra_len (ac_srac a) - 1))"
    by (simp add: rac_len_def unat_minus_one unat_gt_0)
  then show ?thesis
    using assms Some by (auto simp: ctlreg_response_def ctl_responses_def rac_len_def Let_def split: if_splits)
qed

lemma lsuctl_command_responses: "lsuctl_command c = Some c' \<Longrightarrow> ctl_responses c' = ctl_responses c"
  unfolding lsuctl_command_def ctl_responses_def by (auto split: list.splits option.splits if_splits)

lemma lsuctl_response_responses: "lsuctl_response c = Some c' \<Longrightarrow> ctl_responses c' = ctl_responses c"
  unfolding lsuctl_response_def ctl_responses_def
  by (auto simp: Let_def rac_len_def rsp_rac_def split: list.splits option.splits if_splits)

lemma put_status_responses: "put_status t c = Some c' \<Longrightarrow> ctl_responses c' = ctl_responses c + n_asks [t]"
  unfolding put_status_def ctl_responses_def by (auto simp: asks_def split: if_splits)

lemma take_dmac_responses: "take_dmac d c = Some (d', c') \<Longrightarrow> ctl_responses c' = ctl_responses c"
  unfolding take_dmac_def ctl_responses_def by (auto split: list.splits if_splits)

definition cur_trans :: "mover \<Rightarrow> DMAC list" where
  "cur_trans d = (case d_cur d of None \<Rightarrow> [] | Some (a, len, t) \<Rightarrow> [t])"

text \<open>The transactions a mover holds; those of \<^verbatim>\<open>s2mm\<close> whose data is not yet written are counted with the ones to come.\<close>

definition r_held :: "mover \<Rightarrow> nat" where
  "r_held d = n_asks (cur_trans d @ r_queue d)"

definition w_held :: "mover \<Rightarrow> nat" where
  "w_held d = n_asks (d_done d @ d_got d @ d_trans d @ d_sent d)"

definition w_todo :: "mover \<Rightarrow> DMAC list" where
  "w_todo d = cur_trans d @ map snd (d_pend d)"

definition dmac_todo :: "DMAC \<Rightarrow> DMAC list" where
  "dmac_todo x = map snd (dmac_trans x)"

definition w_list :: "lsu \<Rightarrow> DMAC list" where
  "w_list s = w_todo (l_s2mm s) @ concat (map dmac_todo (dmacs_of True s))"

definition responses :: "lsu \<Rightarrow> nat" where
  "responses s = length (l_root_out s) + length (l_queue s) + length (l_mux s) + ctl_responses (l_ch s False) + ctl_responses (l_ch s True) +
     r_held (l_mm2s s) + n_asks (concat (map dmac_todo (dmacs_of False s))) + w_held (l_s2mm s) + n_asks (w_list s)"

lemmas held_defs = r_held_def w_held_def w_todo_def cur_trans_def r_queue_def

lemma put_trans_held: "put_trans n d = Some d' \<Longrightarrow> r_held d' = r_held d \<and> w_held d' = w_held d \<and> w_todo d' = w_todo d"
  unfolding put_trans_def by (auto simp: held_defs split: list.splits if_splits)

lemma get_trans_held: "get_trans d = Some d' \<Longrightarrow> r_held d' = r_held d \<and> w_held d' = w_held d \<and> w_todo d' = w_todo d"
  unfolding get_trans_def by (auto simp: held_defs split: list.splits if_splits)

lemma mem_answer_held: "mem_answer i d = Some d' \<Longrightarrow> r_held d' = r_held d \<and> w_held d' = w_held d \<and> w_todo d' = w_todo d"
  unfolding mem_answer_def by (auto simp: held_defs split: if_splits)

lemma mm2s_request_held: "mm2s_request d = Some d' \<Longrightarrow> r_held d' = r_held d"
  unfolding mm2s_request_def request_def by (auto simp: held_defs split: list.splits if_splits)

lemma mm2s_answer_held: "mm2s_answer d = Some d' \<Longrightarrow> r_held d' = r_held d"
  unfolding mm2s_answer_def get_answer_def by (auto simp: held_defs split: list.splits if_splits)

lemma s2mm_begin_held: "s2mm_begin d = Some d' \<Longrightarrow> w_held d' = w_held d \<and> w_todo d' = w_todo d"
  unfolding s2mm_begin_def by (auto simp: held_defs split: list.splits option.splits if_splits)

lemma s2mm_answer_held: "s2mm_answer d = Some d' \<Longrightarrow> w_held d' = w_held d \<and> w_todo d' = w_todo d"
  unfolding s2mm_answer_def get_answer_def by (auto simp: held_defs split: list.splits if_splits)

text \<open>What a step does to the writes to come: nothing, or the first of them is done.\<close>

definition advances :: "lsu \<Rightarrow> lsu \<Rightarrow> bool" where
  "advances s s' \<longleftrightarrow> responses s' = responses s \<and> (w_list s' = w_list s \<or> (\<exists>t. w_list s = t # w_list s'))"

lemma on_ch_advances:
  assumes "on_ch b f s = Some s'" "\<And>c' xs. f (l_ch s b) = Some c' \<Longrightarrow> ctl_future c' xs = ctl_future (l_ch s b) xs"
    "\<And>c'. f (l_ch s b) = Some c' \<Longrightarrow> ctl_responses c' = ctl_responses (l_ch s b)"
  shows "advances s s'"
proof -
  obtain c' where "f (l_ch s b) = Some c'" "s' = s\<lparr>l_ch := (l_ch s)(b := c')\<rparr>"
    using assms(1) by (auto simp: on_ch_def)
  then show ?thesis
    using assms(2,3) by (cases b) (simp_all add: advances_def responses_def w_list_def dmacs_of_def)
qed

lemma on_mm2s_advances:
  assumes "on_mm2s f s = Some s'" "\<And>d'. f (l_mm2s s) = Some d' \<Longrightarrow> r_held d' = r_held (l_mm2s s)"
  shows "advances s s'"
  using assms by (auto simp: on_mm2s_def advances_def responses_def w_list_def dmacs_of_def)

lemma on_s2mm_advances:
  assumes "on_s2mm f s = Some s'"
    "\<And>d'. f (l_s2mm s) = Some d' \<Longrightarrow> w_held d' = w_held (l_s2mm s) \<and> w_todo d' = w_todo (l_s2mm s)"
  shows "advances s s'"
  using assms by (auto simp: on_s2mm_def advances_def responses_def w_list_def dmacs_of_def)

lemma take_advances: "mm2s_take s = Some s' \<Longrightarrow> advances s s'" "s2mm_take s = Some s' \<Longrightarrow> advances s s'"
proof -
  assume "mm2s_take s = Some s'"
  then obtain d' c' where t: "take_dmac (l_mm2s s) (l_ch s False) = Some (d', c')" and s': "s' = s\<lparr>l_mm2s := d', l_ch := (l_ch s)(False := c')\<rparr>"
    by (auto simp: mm2s_take_def)
  obtain x where x: "\<And>xs. ctl_future (l_ch s False) xs = x # ctl_future c' xs" "d_pend (l_mm2s s) = []"
      "d_sent (l_mm2s s) = []" "d' = (l_mm2s s)\<lparr>d_pend := dmac_trans x\<rparr>"
    using take_dmac_future [OF t] by blast
  show "advances s s'"
    using take_dmac_responses [OF t] x by (simp add: s' advances_def responses_def w_list_def dmacs_of_def dmac_todo_def held_defs)
next
  assume a: "s2mm_take s = Some s'"
  then obtain d' c' where t: "take_dmac (l_s2mm s) (l_ch s True) = Some (d', c')" and s': "s' = s\<lparr>l_s2mm := d', l_ch := (l_ch s)(True := c')\<rparr>"
    and c: "d_cur (l_s2mm s) = None"
    by (cases "d_cur (l_s2mm s)") (auto simp: s2mm_take_def)
  obtain x where x: "\<And>xs. ctl_future (l_ch s True) xs = x # ctl_future c' xs" "d_pend (l_s2mm s) = []"
      "d_sent (l_s2mm s) = []" "d' = (l_s2mm s)\<lparr>d_pend := dmac_trans x\<rparr>"
    using take_dmac_future [OF t] by blast
  show "advances s s'"
    using take_dmac_responses [OF t] x c by (simp add: s' advances_def responses_def w_list_def dmacs_of_def dmac_todo_def held_defs)
qed

lemmas advances_defs = advances_def responses_def w_list_def dmacs_of_def held_defs

lemma mm2s_data_advances:
  assumes "mm2s_data s = Some s'"
  shows "advances s s'"
proof -
  obtain a len t where c: "d_cur (l_mm2s s) = Some (a, len, t)"
    using assms by (auto simp: mm2s_data_def split: option.splits)
  show ?thesis
  proof (cases "len = 0")
    case True
    then obtain c' where p: "put_status t (l_ch s False) = Some c'"
      and s': "s' = s\<lparr>l_ch := (l_ch s)(False := c'), l_mm2s := (l_mm2s s)\<lparr>d_cur := None\<rparr>\<rparr>"
      using assms c by (auto simp: mm2s_data_def)
    show ?thesis
      using put_status_responses [OF p] by (simp add: advances_defs c s' put_status_future [OF p])
  next
    case False
    then show ?thesis
      using assms by (auto simp: mm2s_data_def c advances_defs split: if_splits)
  qed
qed

lemma s2mm_data_advances:
  assumes "s2mm_data s = Some s'"
  shows "advances s s'"
proof -
  obtain a len t where c: "d_cur (l_s2mm s) = Some (a, len, t)"
    using assms by (auto simp: s2mm_data_def split: option.splits)
  show ?thesis
  proof (cases "len = 0")
    case True
    then show ?thesis
      using assms by (auto simp: s2mm_data_def on_s2mm_def request_def c advances_defs)
  next
    case False
    then show ?thesis
      using assms by (auto simp: s2mm_data_def c advances_defs split_beta Let_def split: list.splits)
  qed
qed

lemma s2mm_status_advances: "s2mm_status s = Some s' \<Longrightarrow> advances s s'"
  unfolding s2mm_status_def
  by (auto simp: advances_def responses_def w_list_def dmacs_of_def put_status_responses put_status_future held_defs
      split: list.splits)

lemma csw_demux_advances: "csw_demux s = Some s' \<Longrightarrow> advances s s'"
  by (frule csw_demux_future [of _ _ False], frule csw_demux_future [of _ _ True])
    (auto simp: advances_def responses_def w_list_def csw_demux_def on_ch_def ctl_responses_def split: list.splits if_splits)

lemma csw_mux_advances: "csw_mux s = Some s' \<Longrightarrow> advances s s'"
  unfolding csw_mux_def Let_def
  by (auto simp: advances_def responses_def w_list_def dmacs_of_def ctl_future_def ctl_responses_def split: list.splits if_splits)

lemma env_advances: "dat_wire s = Some s' \<Longrightarrow> advances s s'" "root_read s = Some s' \<Longrightarrow> advances s s'"
  unfolding dat_wire_def root_read_def
  by (auto simp: advances_def responses_def w_list_def dmacs_of_def split: list.splits if_splits)

lemma lsu_exec_advances:
  assumes "lsu_exec th s = Some s'" "lsu_writes s"
  shows "advances s s'"
proof (cases th)
  case (RegCommand b)
  then show ?thesis
    using assms by (auto intro: on_ch_advances ctlreg_command_future ctlreg_command_responses)
next
  case (RegResponse b)
  then show ?thesis
    using assms by (auto simp: lsu_writes_def ctl_writes_def intro: on_ch_advances ctlreg_response_future ctlreg_response_responses)
next
  case (Command b)
  then show ?thesis
    using assms by (auto intro: on_ch_advances lsuctl_command_future lsuctl_command_responses)
next
  case (Response b)
  then show ?thesis
    using assms by (auto intro: on_ch_advances lsuctl_response_future lsuctl_response_responses)
qed (use assms in \<open>auto intro: csw_demux_advances csw_mux_advances take_advances mm2s_data_advances s2mm_data_advances s2mm_status_advances
    env_advances elim!: on_mm2s_advances on_s2mm_advances dest: put_trans_held get_trans_held mem_answer_held mm2s_request_held mm2s_answer_held
    s2mm_begin_held s2mm_answer_held simp: mm2s_get_def s2mm_get_def split: if_splits\<close>)

text \<open>The last write to come asks for a response, so none of the responses there are can be early.\<close>

definition w_last :: "lsu \<Rightarrow> bool" where
  "w_last s \<longleftrightarrow> w_list s = [] \<or> asks (last (w_list s))"

lemma advances_w_last: "advances s s' \<Longrightarrow> w_last s \<Longrightarrow> w_last s' \<and> responses s' = responses s"
  unfolding advances_def w_last_def by (auto split: if_splits)

section \<open>Work\<close>

definition status_work :: "TAG \<Rightarrow> nat" where
  "status_work t = (if tg_req t then 7 else 1)"

definition done_work :: "DMAC \<Rightarrow> nat" where
  "done_work t = (if dm_last t then status_work (dm_tag t) + 2 else 1)"

definition read_work :: "DMAC \<Rightarrow> nat" where
  "read_work t = 3 * unat (read_flits t) + done_work t"

definition mm2s_work :: "mover \<Rightarrow> nat" where
  "mm2s_work d = length (d_flight d) + (case d_cur d of None \<Rightarrow> 0 | Some (a, len, t) \<Rightarrow> 3 * unat len + done_work t) +
     total (\<lambda>t. read_work t + 1) (d_got d) + total (\<lambda>t. read_work t + 2) (d_trans d) + total (\<lambda>t. read_work t + 3) (d_sent d) +
     total (\<lambda>(a, t). read_work t + 5) (d_pend d)"

definition s2mm_work :: "mover \<Rightarrow> nat" where
  "s2mm_work d = length (d_flight d) + total done_work (d_done d) +
     total (\<lambda>t. done_work t + 1) (d_got d) + total (\<lambda>t. done_work t + 2) (d_trans d) + total (\<lambda>t. done_work t + 3) (d_sent d) +
     (case d_cur d of None \<Rightarrow> 0 | Some (a, len, t) \<Rightarrow> done_work t + 5) + total (\<lambda>(a, t). done_work t + 6) (d_pend d)"

definition dmac_work :: "bool \<Rightarrow> DMAC \<Rightarrow> nat" where
  "dmac_work b x = 1 + (if b then total (\<lambda>(a, t). done_work t + 6) (dmac_trans x) else total (\<lambda>(a, t). read_work t + 5) (dmac_trans x))"

definition ctl_work :: "(DMAC \<Rightarrow> nat) \<Rightarrow> lsuctl \<Rightarrow> AXI_TC list \<Rightarrow> nat" where
  "ctl_work wd c xs = 3 * length (c_out c) + (case c_send c of None \<Rightarrow> 0 | Some a \<Rightarrow> 4 * rac_len a + 1) +
     total (\<lambda>a. 4 * rac_len a + 2) (c_arsp c) + total (\<lambda>d. status_work (ds_tag d)) (c_stat c) + total (\<lambda>d. status_work (ds_tag d) + 1) (c_dmas c) +
     total wd (c_dmac c) + total (\<lambda>x. wd x + 1) (c_pend c) + length (c_acmd c) + 2 * length (c_go c) + 3 * length (c_in c) +
     total (\<lambda>x. wd x + 2) (cmds (c_reg c) (c_pkt c) (c_acmd c @ c_go c) (c_in c @ xs))"

definition ch_work :: "bool \<Rightarrow> lsu \<Rightarrow> nat" where
  "ch_work b s = ctl_work (dmac_work b) (l_ch s b) (root_for b (l_root_in s))"

definition lsu_work :: "lsu \<Rightarrow> nat" where
  "lsu_work s = 4 * length (l_root_in s) + ch_work False s + ch_work True s + mm2s_work (l_mm2s s) + s2mm_work (l_s2mm s) +
     2 * length (l_dout s) + length (l_din s) + 2 * length (l_mux s) + length (l_queue s)"

lemma ctlreg_command_work:
  assumes "ctlreg_command c = Some c'" "ctl_writes c"
  shows "ctl_work wd c' xs < ctl_work wd c xs"
proof -
  have "c_dmac c' = c_dmac c" "c_pend c' = c_pend c"
    using assms(1) unfolding ctlreg_command_def by (auto simp: Let_def split: list.splits option.splits if_splits)
  then have "cmds (c_reg c') (c_pkt c') (c_acmd c' @ c_go c') (c_in c' @ xs) = cmds (c_reg c) (c_pkt c) (c_acmd c @ c_go c) (c_in c @ xs)"
    using ctlreg_command_future [OF assms(1), of xs] by (simp add: ctl_future_def)
  moreover have "2 * length (go_acmd x) < 3" for x
    by (simp add: go_acmd_def)
  ultimately show ?thesis
    using assms unfolding ctl_work_def
    by (auto simp: ctlreg_command_def ctl_writes_def writes_def Let_def split: list.splits option.splits if_splits)
qed

lemma ctlreg_response_work:
  assumes "ctlreg_response c = Some c'" "c_loop c = []"
  shows "ctl_work wd c' xs < ctl_work wd c xs"
proof (cases "c_send c")
  case None
  then show ?thesis
    using assms by (cases "c_arsp c") (auto simp: ctlreg_response_def ctl_work_def)
next
  case (Some a)
  have "ra_len (ac_srac a) \<noteq> 0 \<Longrightarrow> rac_len a = Suc (unat (ra_len (ac_srac a) - 1))"
    by (simp add: rac_len_def unat_minus_one unat_gt_0)
  then show ?thesis
    using assms Some by (auto simp: ctlreg_response_def ctl_work_def rac_len_def Let_def split: if_splits)
qed

lemma total_le: "total (\<lambda>x. Suc (f x)) xs \<le> total (\<lambda>x. Suc (Suc (f x))) xs"
  by (induction xs) auto

lemma lsuctl_command_work: "lsuctl_command c = Some c' \<Longrightarrow> ctl_work wd c' xs < ctl_work wd c xs"
  unfolding lsuctl_command_def ctl_work_def
  by (auto simp: cmds_Cons less_Suc_eq_le total_le split: list.splits if_splits)

lemma lsuctl_response_work: "lsuctl_response c = Some c' \<Longrightarrow> ctl_work wd c' xs < ctl_work wd c xs"
  unfolding lsuctl_response_def ctl_work_def
  by (auto simp: Let_def cmds_reg0 rac_len_def rsp_rac_def status_work_def split: list.splits if_splits)

lemma put_status_work: "put_status t c = Some c' \<Longrightarrow> ctl_work wd c' xs < ctl_work wd c xs + done_work t"
  unfolding put_status_def ctl_work_def by (auto simp: done_work_def split: if_splits)

lemma take_dmac_work:
  assumes "take_dmac d c = Some (d', c')"
  shows "\<exists>x. (\<forall>wd xs. ctl_work wd c xs = wd x + ctl_work wd c' xs) \<and> d_pend d = [] \<and> d_sent d = [] \<and> d' = d\<lparr>d_pend := dmac_trans x\<rparr>"
  using assms unfolding take_dmac_def ctl_work_def by (auto split: list.splits if_splits)

lemmas work_defs = mm2s_work_def s2mm_work_def

lemma put_trans_work: "put_trans n d = Some d' \<Longrightarrow> mm2s_work d' < mm2s_work d \<and> s2mm_work d' < s2mm_work d"
  unfolding put_trans_def by (auto simp: work_defs split: list.splits if_splits)

lemma get_trans_work: "get_trans d = Some d' \<Longrightarrow> mm2s_work d' < mm2s_work d \<and> s2mm_work d' < s2mm_work d"
  unfolding get_trans_def by (auto simp: work_defs split: list.splits if_splits)

lemma mem_answer_work: "mem_answer i d = Some d' \<Longrightarrow> mm2s_work d' < mm2s_work d \<and> s2mm_work d' < s2mm_work d"
  unfolding mem_answer_def by (auto simp: work_defs split: if_splits)

lemma mm2s_request_work: "mm2s_request d = Some d' \<Longrightarrow> mm2s_work d' < mm2s_work d"
  unfolding mm2s_request_def request_def by (auto simp: work_defs split: list.splits if_splits)

lemma mm2s_answer_work: "mm2s_answer d = Some d' \<Longrightarrow> mm2s_work d' < mm2s_work d"
  unfolding mm2s_answer_def get_answer_def
  by (auto simp: work_defs read_work_def read_flits_def split: list.splits if_splits)

lemma s2mm_begin_work: "s2mm_begin d = Some d' \<Longrightarrow> s2mm_work d' < s2mm_work d"
  unfolding s2mm_begin_def by (auto simp: work_defs split: list.splits option.splits if_splits)

lemma s2mm_answer_work: "s2mm_answer d = Some d' \<Longrightarrow> s2mm_work d' < s2mm_work d"
  unfolding s2mm_answer_def get_answer_def by (auto simp: work_defs split: list.splits if_splits)

lemma s2mm_request_work:
  "d_cur d = Some (a, len, t) \<Longrightarrow> request t (d\<lparr>d_cur := None\<rparr>) = Some d' \<Longrightarrow> s2mm_work d' < s2mm_work d"
  unfolding request_def by (auto simp: work_defs)

lemma on_ch_work:
  assumes "on_ch b f s = Some s'" "\<And>c' wd xs. f (l_ch s b) = Some c' \<Longrightarrow> ctl_work wd c' xs < ctl_work wd (l_ch s b) xs"
  shows "lsu_work s' < lsu_work s"
proof -
  obtain c' where "f (l_ch s b) = Some c'" "s' = s\<lparr>l_ch := (l_ch s)(b := c')\<rparr>"
    using assms(1) by (auto simp: on_ch_def)
  then show ?thesis
    using assms(2) by (cases b) (simp_all add: lsu_work_def ch_work_def)
qed

lemma on_mm2s_work:
  assumes "on_mm2s f s = Some s'" "\<And>d'. f (l_mm2s s) = Some d' \<Longrightarrow> mm2s_work d' < mm2s_work (l_mm2s s)"
  shows "lsu_work s' < lsu_work s"
  using assms by (auto simp: on_mm2s_def lsu_work_def ch_work_def)

lemma on_s2mm_work:
  assumes "on_s2mm f s = Some s'" "\<And>d'. f (l_s2mm s) = Some d' \<Longrightarrow> s2mm_work d' < s2mm_work (l_s2mm s)"
  shows "lsu_work s' < lsu_work s"
  using assms by (auto simp: on_s2mm_def lsu_work_def ch_work_def)

lemma take_work: "mm2s_take s = Some s' \<Longrightarrow> lsu_work s' < lsu_work s" "s2mm_take s = Some s' \<Longrightarrow> lsu_work s' < lsu_work s"
proof -
  assume "mm2s_take s = Some s'"
  then obtain d' c' where t: "take_dmac (l_mm2s s) (l_ch s False) = Some (d', c')" and s': "s' = s\<lparr>l_mm2s := d', l_ch := (l_ch s)(False := c')\<rparr>"
    by (auto simp: mm2s_take_def)
  obtain x where "\<And>wd xs. ctl_work wd (l_ch s False) xs = wd x + ctl_work wd c' xs" "d_pend (l_mm2s s) = []" "d' = (l_mm2s s)\<lparr>d_pend := dmac_trans x\<rparr>"
    using take_dmac_work [OF t] by blast
  then show "lsu_work s' < lsu_work s"
    by (simp add: s' lsu_work_def ch_work_def dmac_work_def work_defs)
next
  assume "s2mm_take s = Some s'"
  then obtain d' c' where t: "take_dmac (l_s2mm s) (l_ch s True) = Some (d', c')" and s': "s' = s\<lparr>l_s2mm := d', l_ch := (l_ch s)(True := c')\<rparr>"
    by (auto simp: s2mm_take_def split: if_splits)
  obtain x where "\<And>wd xs. ctl_work wd (l_ch s True) xs = wd x + ctl_work wd c' xs" "d_pend (l_s2mm s) = []" "d' = (l_s2mm s)\<lparr>d_pend := dmac_trans x\<rparr>"
    using take_dmac_work [OF t] by blast
  then show "lsu_work s' < lsu_work s"
    by (simp add: s' lsu_work_def ch_work_def dmac_work_def work_defs)
qed

lemma mm2s_data_work:
  assumes "mm2s_data s = Some s'"
  shows "lsu_work s' < lsu_work s"
proof -
  obtain a len t where c: "d_cur (l_mm2s s) = Some (a, len, t)"
    using assms by (auto simp: mm2s_data_def split: option.splits)
  show ?thesis
  proof (cases "len = 0")
    case True
    then obtain c' where p: "put_status t (l_ch s False) = Some c'"
      and s': "s' = s\<lparr>l_ch := (l_ch s)(False := c'), l_mm2s := (l_mm2s s)\<lparr>d_cur := None\<rparr>\<rparr>"
      using assms c by (auto simp: mm2s_data_def)
    show ?thesis
      using put_status_work [OF p, of "dmac_work False" "root_for False (l_root_in s)"]
      by (simp add: lsu_work_def ch_work_def work_defs c s')
  next
    case False
    then have "unat len = Suc (unat (len - 1))"
      by (simp add: unat_minus_one unat_gt_0)
    then show ?thesis
      using assms False by (auto simp: mm2s_data_def c lsu_work_def ch_work_def work_defs split: if_splits)
  qed
qed

lemma s2mm_data_work:
  assumes "s2mm_data s = Some s'"
  shows "lsu_work s' < lsu_work s"
proof -
  obtain a len t where c: "d_cur (l_s2mm s) = Some (a, len, t)"
    using assms by (auto simp: s2mm_data_def split: option.splits)
  show ?thesis
  proof (cases "len = 0")
    case True
    then have "on_s2mm (\<lambda>d. request t (d\<lparr>d_cur := None\<rparr>)) s = Some s'"
      using assms c by (simp add: s2mm_data_def)
    then show ?thesis
      by (rule on_s2mm_work) (rule s2mm_request_work [OF c])
  next
    case False
    then show ?thesis
      using assms by (auto simp: s2mm_data_def c lsu_work_def ch_work_def work_defs split_beta Let_def split: list.splits)
  qed
qed

lemma s2mm_status_work:
  assumes "s2mm_status s = Some s'"
  shows "lsu_work s' < lsu_work s"
proof -
  obtain t ts c' where c: "d_done (l_s2mm s) = t # ts" and p: "put_status t (l_ch s True) = Some c'"
    and s': "s' = s\<lparr>l_s2mm := (l_s2mm s)\<lparr>d_done := ts\<rparr>, l_ch := (l_ch s)(True := c')\<rparr>"
    using assms by (auto simp: s2mm_status_def split: list.splits)
  show ?thesis
    using put_status_work [OF p, of "dmac_work True" "root_for True (l_root_in s)"]
    by (simp add: lsu_work_def ch_work_def work_defs c s')
qed

lemma csw_demux_work: "csw_demux s = Some s' \<Longrightarrow> lsu_work s' < lsu_work s"
  unfolding csw_demux_def on_ch_def
  by (auto simp: lsu_work_def ch_work_def ctl_work_def root_for_def split: list.splits if_splits)

lemma csw_mux_work: "csw_mux s = Some s' \<Longrightarrow> lsu_work s' < lsu_work s"
  unfolding csw_mux_def Let_def
  by (auto simp: lsu_work_def ch_work_def ctl_work_def split: list.splits if_splits)

lemma env_work: "dat_wire s = Some s' \<Longrightarrow> lsu_work s' < lsu_work s" "root_read s = Some s' \<Longrightarrow> lsu_work s' < lsu_work s"
  unfolding dat_wire_def root_read_def by (auto simp: lsu_work_def ch_work_def split: list.splits if_splits)

lemma lsu_exec_work:
  assumes "lsu_exec th s = Some s'" "lsu_writes s"
  shows "lsu_work s' < lsu_work s"
proof (cases th)
  case (RegCommand b)
  then show ?thesis
    using assms by (auto simp: lsu_writes_def intro: on_ch_work ctlreg_command_work)
next
  case (RegResponse b)
  then show ?thesis
    using assms by (auto simp: lsu_writes_def ctl_writes_def intro: on_ch_work ctlreg_response_work)
next
  case (Command b)
  then show ?thesis
    using assms by (auto intro: on_ch_work lsuctl_command_work)
next
  case (Response b)
  then show ?thesis
    using assms by (auto intro: on_ch_work lsuctl_response_work)
qed (use assms in \<open>auto intro: csw_demux_work csw_mux_work take_work mm2s_data_work s2mm_data_work s2mm_status_work
    env_work elim!: on_mm2s_work on_s2mm_work dest: put_trans_work get_trans_work mem_answer_work mm2s_request_work mm2s_answer_work
    s2mm_begin_work s2mm_answer_work simp: mm2s_get_def s2mm_get_def split: if_splits\<close>)

end
