(* ===== verification/Lsu_Runs.thy ===== *)
theory Lsu_Runs
  imports Lsu_Progress
begin

text \<open>
  Runs of the load-store unit: with one command for each channel the unit never blocks, so under every schedule
  of its threads and of the memory it comes to an end with all its work done, and the response is never early. What any
  system with an invariant and a measure of work promises about its runs is the locale \<open>worked\<close>.
\<close>

section \<open>Systems that use up work\<close>

lemma bounded_run_ends:
  assumes "\<And>k s. (R ^^ k) s0 s \<Longrightarrow> k \<le> (N :: nat)"
  shows "\<exists>k s. (R ^^ k) s0 s \<and> (\<nexists>s'. R s s')"
proof -
  let ?K = "GREATEST k. \<exists>s. (R ^^ k) s0 s"
  have "\<exists>s. (R ^^ ?K) s0 s"
    by (rule GreatestI_nat [where k = 0 and b = N]) (use assms in auto)
  then obtain s where s: "(R ^^ ?K) s0 s"
    by blast
  have "\<not> R s s'" for s'
  proof
    assume "R s s'"
    then have "(R ^^ Suc ?K) s0 s'"
      using s by auto
    then have "Suc ?K \<le> ?K"
      by (intro Greatest_le_nat [where b = N]) (use assms in blast)+
    then show False
      by simp
  qed
  then show ?thesis
    using s by blast
qed

locale worked =
  fixes step :: "'s \<Rightarrow> 's \<Rightarrow> bool" and inv :: "'s \<Rightarrow> bool" and work :: "'s \<Rightarrow> nat"
  assumes step_inv: "step s s' \<Longrightarrow> inv s \<Longrightarrow> inv s'"
    and step_work: "step s s' \<Longrightarrow> inv s \<Longrightarrow> work s' < work s"
begin

lemma run: "(step ^^ k) s0 s \<Longrightarrow> inv s0 \<Longrightarrow> inv s \<and> k + work s \<le> work s0"
proof (induction k arbitrary: s)
  case (Suc k)
  then obtain s1 where "(step ^^ k) s0 s1" "step s1 s"
    by auto
  then show ?case
    using Suc step_inv [of s1 s] step_work [of s1 s] by fastforce
qed simp

lemma ends: "inv s0 \<Longrightarrow> \<exists>k s. (step ^^ k) s0 s \<and> inv s \<and> (\<nexists>s'. step s s')"
  using bounded_run_ends [of step s0 "work s0"] run by fastforce

end

section \<open>One command for each channel\<close>

definition solo :: "lsuctl \<Rightarrow> AXI_TC list \<Rightarrow> bool" where
  "solo c xs \<longleftrightarrow>
     (case c_in c @ xs of
        [] \<Rightarrow> c_pkt c = None \<and> length (c_acmd c) + length (c_go c) + of_bool (c_pend c \<noteq> []) \<le> 1
      | z # zs \<Rightarrow> c_acmd c = [] \<and> c_go c = [] \<and> c_pend c = [] \<and>
          Suc (length zs) = unat (case c_pkt c of None \<Rightarrow> ra_len (tc_user z) | Some (y, len, sel) \<Rightarrow> len))"

lemma go_acmd_one: "length (go_acmd x) \<le> 1"
  by (simp add: go_acmd_def)

lemma unat_pred: "Suc n = unat (len :: 3 word) \<Longrightarrow> unat (len - 1) = n \<and> (len - 1 = 0 \<longleftrightarrow> n = 0)"
proof -
  assume a: "Suc n = unat len"
  then have "len \<noteq> 0"
    by auto
  then have "unat (len - 1) = n"
    using a by (simp add: unat_minus_one)
  then show ?thesis
    by (auto simp: unat_eq_0 [symmetric])
qed

lemma ctlreg_command_solo:
  assumes "ctlreg_command c = Some c'" "solo c xs" "ctl_writes c"
  shows "solo c' xs"
proof (cases "c_go c")
  case (Cons a as)
  then show ?thesis
    using assms by (auto simp: ctlreg_command_def solo_def split: list.splits if_splits)
next
  case Nil
  then obtain x ys where x: "c_in c = x # ys"
    using assms(1) by (cases "c_in c") (auto simp: ctlreg_command_def)
  have c: "c_acmd c = []" "c_pend c = []" "ra_wr (tc_user x)"
    using assms x by (auto simp: solo_def ctl_writes_def writes_def)
  show ?thesis
  proof (cases "c_pkt c")
    case None
    then have "Suc (length (ys @ xs)) = unat (ra_len (tc_user x))"
      using assms(2) x by (simp add: solo_def)
    note p = unat_pred [OF this]
    show ?thesis
      using assms(1) p go_acmd_one [of x] by (cases "ys @ xs") (auto simp: ctlreg_command_def Nil x c None Let_def solo_def)
  next
    case (Some q)
    then obtain y len sel where q: "c_pkt c = Some (y, len, sel)"
      by (cases q) auto
    then have "Suc (length (ys @ xs)) = unat len"
      using assms(2) x by (simp add: solo_def)
    note p = unat_pred [OF this]
    show ?thesis
      using assms(1) p go_acmd_one [of y] by (cases "ys @ xs") (auto simp: ctlreg_command_def Nil x c q Let_def solo_def)
  qed
qed

text \<open>What the property depends on.\<close>

lemma solo_cong:
  assumes "solo c xs" "c_in c' @ xs' = c_in c @ xs" "c_pkt c' = c_pkt c" "c_acmd c' = c_acmd c" "c_go c' = c_go c" "c_pend c' = c_pend c"
  shows "solo c' xs'"
  using assms(1) unfolding solo_def assms(2-6) .

lemma lsuctl_command_solo: "lsuctl_command c = Some c' \<Longrightarrow> solo c xs \<Longrightarrow> solo c' xs"
  unfolding lsuctl_command_def solo_def by (cases "c_in c @ xs") (auto split: list.splits if_splits)

lemma ctlreg_response_solo: "ctlreg_response c = Some c' \<Longrightarrow> solo c xs \<Longrightarrow> solo c' xs"
  by (erule solo_cong) (auto simp: ctlreg_response_def Let_def split: option.splits if_splits)

lemma lsuctl_response_solo: "lsuctl_response c = Some c' \<Longrightarrow> solo c xs \<Longrightarrow> solo c' xs"
  by (erule solo_cong) (auto simp: lsuctl_response_def Let_def split: list.splits if_splits)

lemma put_status_solo: "put_status t c = Some c' \<Longrightarrow> solo c xs \<Longrightarrow> solo c' xs"
  by (erule solo_cong) (auto simp: put_status_def split: if_splits)

lemma take_dmac_solo: "take_dmac d c = Some (d', c') \<Longrightarrow> solo c xs \<Longrightarrow> solo c' xs"
  by (erule solo_cong) (auto simp: take_dmac_def split: list.splits if_splits)

definition lsu_solo :: "lsu \<Rightarrow> bool" where
  "lsu_solo s \<longleftrightarrow> (\<forall>b. solo (l_ch s b) (root_for b (l_root_in s)))"

lemma csw_demux_solo: "csw_demux s = Some s' \<Longrightarrow> lsu_solo s \<Longrightarrow> lsu_solo s'"
  unfolding lsu_solo_def
  by (rule allI, erule_tac x = b in allE, erule solo_cong)
    (auto simp: csw_demux_def on_ch_def root_for_def split: list.splits if_splits)

lemma csw_mux_solo: "csw_mux s = Some s' \<Longrightarrow> lsu_solo s \<Longrightarrow> lsu_solo s'"
  unfolding lsu_solo_def
  by (rule allI, erule_tac x = b in allE, erule solo_cong)
    (auto simp: csw_mux_def Let_def split: list.splits if_splits)

lemma lsu_exec_solo:
  assumes "lsu_exec th s = Some s'" "lsu_solo s" "lsu_writes s"
  shows "lsu_solo s'"
proof (cases th)
  case Demux
  then show ?thesis
    using assms csw_demux_solo by simp
next
  case Mux
  then show ?thesis
    using assms csw_mux_solo by simp
next
  case (RegCommand b)
  then obtain c' where c: "ctlreg_command (l_ch s b) = Some c'" and s': "s' = s\<lparr>l_ch := (l_ch s)(b := c')\<rparr>"
    using assms(1) by (auto simp: on_ch_def)
  have "solo c' (root_for b (l_root_in s))"
    using ctlreg_command_solo [OF c] assms(2,3) by (simp add: lsu_solo_def lsu_writes_def)
  then show ?thesis
    using assms(2) by (simp add: s' lsu_solo_def)
qed (use assms in \<open>auto simp: lsu_solo_def on_ch_def on_mm2s_def on_s2mm_def mm2s_take_def s2mm_take_def mm2s_data_def s2mm_data_def
    s2mm_status_def dat_wire_def root_read_def split_beta split: list.splits option.splits if_splits
    dest: ctlreg_response_solo lsuctl_command_solo lsuctl_response_solo take_dmac_solo put_status_solo\<close>)

section \<open>A unit that cannot go on\<close>

lemma ctl_in_idle:
  assumes "ctlreg_command c = None" "lsuctl_command c = None" "solo c xs" "ctl_writes c"
  shows "c_in c = [] \<and> c_go c = [] \<and> c_acmd c = [] \<and> (c_dmac c = [] \<longrightarrow> c_pend c = [])"
proof -
  have i: "c_in c = []"
  proof (rule ccontr)
    assume "c_in c \<noteq> []"
    then show False
      using assms by (cases "c_in c") (auto simp: ctlreg_command_def solo_def ctl_writes_def writes_def Let_def split: option.splits)
  qed
  moreover have "c_go c = []"
    using assms(1,3) by (cases "c_go c"; cases "xs") (auto simp: ctlreg_command_def solo_def i split: if_splits)
  moreover have "c_acmd c = []"
    using assms(2,3) by (cases "c_acmd c"; cases "xs") (auto simp: lsuctl_command_def solo_def i split: list.splits if_splits)
  moreover have "c_dmac c = [] \<Longrightarrow> c_pend c = []"
    using assms(2) by (auto simp: lsuctl_command_def DMAC_DEPTH_def split: list.splits)
  ultimately show ?thesis
    by blast
qed

lemma ctl_out_idle:
  assumes "ctlreg_response c = None" "lsuctl_response c = None" "c_out c = []"
  shows "c_send c = None \<and> c_arsp c = [] \<and> c_loop c = [] \<and> c_stat c = [] \<and> c_dmas c = []"
proof -
  have "c_send c = None" "c_arsp c = []" "c_loop c = []"
    using assms(1,3) by (auto simp: ctlreg_response_def Let_def split: option.splits if_splits)
  then show ?thesis
    using assms(2) by (auto simp: lsuctl_response_def Let_def split: list.splits)
qed

lemma mover_idle:
  assumes "balanced n d" "0 < n" "mem_answer 0 d = None" "put_trans (Suc k) d = None" "get_trans d = None" "get_answer d = None"
  shows "d_sent d = [] \<and> d_trans d = [] \<and> d_got d = [] \<and> d_pool d \<noteq> []"
proof -
  have f: "d_flight d = []"
    using assms(3) by (auto simp: mem_answer_def split: if_splits)
  have g: "d_got d = []"
    using assms(1,6) f by (cases "d_got d"; cases "d_peq d") (auto simp: get_answer_def balanced_def)
  then have "d_trans d = []"
    using assms(5) by (auto simp: get_trans_def split: list.splits)
  moreover from this have "d_sent d = []"
    using assms(4) by (auto simp: put_trans_def split: list.splits)
  ultimately show ?thesis
    using assms(1,2) f g by (auto simp: balanced_def)
qed

lemma on_ch_None: "on_ch b f s = None \<longleftrightarrow> f (l_ch s b) = None"
  by (simp add: on_ch_def)

lemma on_mover_None: "on_mm2s f s = None \<longleftrightarrow> f (l_mm2s s) = None" "on_s2mm f s = None \<longleftrightarrow> f (l_s2mm s) = None"
  by (simp_all add: on_mm2s_def on_s2mm_def)

definition stuck :: "lsu \<Rightarrow> bool" where
  "stuck s \<longleftrightarrow> (\<forall>th. lsu_exec th s = None)"

lemma stuckD: "stuck s \<Longrightarrow> lsu_exec th s = None"
  by (simp add: stuck_def)

lemma stuck_out:
  assumes "stuck s"
  shows "l_queue s = [] \<and> l_mux s = [] \<and> (\<forall>b. c_out (l_ch s b) = [])"
proof -
  have q: "l_queue s = []"
    using stuckD [OF assms, of Root] by (auto simp: root_read_def split: list.splits)
  then have m: "l_mux s = []"
    using stuckD [OF assms, of Mux] by (auto simp: csw_mux_def QDEPTH_def split: list.splits)
  have "c_out (l_ch s (c_out (l_ch s False) = [])) = []"
    using stuckD [OF assms, of Mux] by (auto simp: csw_mux_def m Let_def split: list.splits)
  then have "c_out (l_ch s False) = []" "c_out (l_ch s True) = []"
    by (cases "c_out (l_ch s False)", auto)+
  then show ?thesis
    using q m by (metis (full_types))
qed

lemma stuck_ctl_out:
  assumes "stuck s"
  shows "c_send (l_ch s b) = None \<and> c_arsp (l_ch s b) = [] \<and> c_loop (l_ch s b) = [] \<and> c_stat (l_ch s b) = [] \<and> c_dmas (l_ch s b) = []"
  using stuckD [OF assms, of "RegResponse b"] stuckD [OF assms, of "Response b"] stuck_out [OF assms]
  by (intro ctl_out_idle) (simp_all add: on_ch_None)

lemma stuck_ctl_in:
  assumes "stuck s" "lsu_solo s" "lsu_writes s"
  shows "l_root_in s = [] \<and> (c_dmac (l_ch s b) = [] \<longrightarrow> dmacs_of b s = [])"
proof -
  have c: "c_in (l_ch s b) = [] \<and> c_go (l_ch s b) = [] \<and> c_acmd (l_ch s b) = [] \<and> (c_dmac (l_ch s b) = [] \<longrightarrow> c_pend (l_ch s b) = [])" for b
    using stuckD [OF assms(1), of "RegCommand b"] stuckD [OF assms(1), of "Command b"] assms(2,3)
    by (intro ctl_in_idle) (auto simp: on_ch_None lsu_solo_def lsu_writes_def)
  have "l_root_in s = []"
    using stuckD [OF assms(1), of Demux] c by (auto simp: csw_demux_def on_ch_None split: list.splits)
  then show ?thesis
    using c [of b] by (simp add: dmacs_of_def ctl_future_def root_for_def)
qed

lemma put_status_ready: "c_dmas c = [] \<Longrightarrow> put_status t c = None \<longleftrightarrow> False"
  by (simp add: put_status_def DMAS_DEPTH_def)

lemma stuck_s2mm:
  assumes "stuck s" "balanced 17 (l_s2mm s)"
  shows "d_done (l_s2mm s) = [] \<and> d_sent (l_s2mm s) = [] \<and> d_trans (l_s2mm s) = [] \<and> d_got (l_s2mm s) = [] \<and> d_pool (l_s2mm s) \<noteq> []"
proof -
  have d: "d_done (l_s2mm s) = []"
    using stuckD [OF assms(1), of WriteStatus] stuck_ctl_out [OF assms(1), of True]
    by (auto simp: s2mm_status_def put_status_ready split: list.splits)
  then have "d_sent (l_s2mm s) = [] \<and> d_trans (l_s2mm s) = [] \<and> d_got (l_s2mm s) = [] \<and> d_pool (l_s2mm s) \<noteq> []"
    using stuckD [OF assms(1), of "MemWrite 0"] stuckD [OF assms(1), of WritePut] stuckD [OF assms(1), of WriteGet] stuckD [OF assms(1), of WriteAnswer]
    by (intro mover_idle [OF assms(2), of 15]) (auto simp: on_mover_None s2mm_get_def s2mm_answer_def OUTSTANDING_WRITE_def)
  then show ?thesis
    using d by simp
qed

lemma stuck_mm2s:
  assumes "stuck s" "balanced 17 (l_mm2s s)" "l_dout s = []"
  shows "d_cur (l_mm2s s) = None \<and> r_queue (l_mm2s s) = [] \<and> d_pend (l_mm2s s) = [] \<and> c_dmac (l_ch s False) = []"
proof -
  have c: "d_cur (l_mm2s s) = None"
    using stuckD [OF assms(1), of ReadData] stuck_ctl_out [OF assms(1), of False] assms(3)
    by (auto simp: mm2s_data_def put_status_ready split: option.splits if_splits)
  then have d: "d_sent (l_mm2s s) = [] \<and> d_trans (l_mm2s s) = [] \<and> d_got (l_mm2s s) = [] \<and> d_pool (l_mm2s s) \<noteq> []"
    using stuckD [OF assms(1), of "MemRead 0"] stuckD [OF assms(1), of ReadPut] stuckD [OF assms(1), of ReadGet] stuckD [OF assms(1), of ReadAnswer]
    by (intro mover_idle [OF assms(2), of 15]) (auto simp: on_mover_None mm2s_get_def mm2s_answer_def OUTSTANDING_READ_def)
  then have p: "d_pend (l_mm2s s) = []"
    using stuckD [OF assms(1), of ReadRequest]
    by (auto simp: on_mover_None mm2s_request_def request_def allocate_def split: list.splits)
  then have "c_dmac (l_ch s False) = []"
    using stuckD [OF assms(1), of ReadTake] d by (auto simp: mm2s_take_def take_dmac_def split: list.splits)
  then show ?thesis
    using c d p by (simp add: r_queue_def)
qed

lemma stuck_done:
  assumes "stuck s" "lsu_solo s" "lsu_writes s" "balanced 17 (l_mm2s s)" "balanced 17 (l_s2mm s)" "safe s"
  shows "responses s = length (l_root_out s)"
proof -
  note w = stuck_s2mm [OF assms(1,5)] and dm = stuck_ctl_in [OF assms(1-3)]
  have len: "length (w_addrs s) = length (r_data s)" and even: "w_even s"
    using assms(6) by (simp_all add: safe_def)
  have c: "d_cur (l_s2mm s) = None"
  proof (rule ccontr)
    assume "d_cur (l_s2mm s) \<noteq> None"
    then obtain a l t where c: "d_cur (l_s2mm s) = Some (a, l, t)"
      by auto
    have l: "l \<noteq> 0" and din: "l_din s = []"
      using stuckD [OF assms(1), of WriteData] w
      by (auto simp: s2mm_data_def c on_s2mm_def request_def allocate_def split_beta split: list.splits if_splits)
    then have dout: "l_dout s = []"
      using stuckD [OF assms(1), of Wire] by (auto simp: dat_wire_def split: list.splits)
    note r = stuck_mm2s [OF assms(1,4) this]
    have "r_data s = []"
      using r dm [of False] din dout by (simp add: r_data_def r_addrs_def mover_r_def)
    moreover have "8 dvd unat l"
      using even c by (simp add: w_even_def mover_even_def)
    moreover from this have "unat l div 8 \<noteq> 0"
      using l by (auto simp: unat_eq_zero dvd_div_eq_0_iff)
    ultimately show False
      using len by (cases "unat l div 8") (simp_all add: w_addrs_def mover_w_def c flit_addrs_Suc)
  qed
  have p: "d_pend (l_s2mm s) = []"
    using stuckD [OF assms(1), of WriteBegin] w by (auto simp: on_mover_None s2mm_begin_def c split: list.splits)
  then have "c_dmac (l_ch s True) = []"
    using stuckD [OF assms(1), of WriteTake] w by (auto simp: s2mm_take_def take_dmac_def c split: list.splits)
  then have dw: "dmacs_of True s = []"
    using dm [of True] by simp
  then have "r_data s = []"
    using len by (simp add: w_addrs_def mover_w_def c p)
  then have "l_dout s = []"
    by (simp add: r_data_def)
  note r = stuck_mm2s [OF assms(1,4) this]
  have "ctl_responses (l_ch s b) = 0" for b
    using stuck_ctl_out [OF assms(1), of b] stuck_out [OF assms(1)] by (simp add: ctl_responses_def)
  then show ?thesis
    using stuck_out [OF assms(1)] r w dw dm [of False] by (simp add: responses_def w_list_def r_held_def w_held_def w_todo_def cur_trans_def c p)
qed

section \<open>Runs\<close>

definition lsu_inv :: "lsu \<Rightarrow> bool" where
  "lsu_inv s \<longleftrightarrow> lsu_solo s \<and> lsu_writes s \<and> balanced 17 (l_mm2s s) \<and> balanced 17 (l_s2mm s) \<and> safe s \<and> w_last s"

lemma lsu_step_inv:
  assumes "lsu_step s s'" "lsu_inv s"
  shows "lsu_inv s' \<and> outcome s' = outcome s \<and> responses s' = responses s \<and> lsu_work s' < lsu_work s"
proof -
  obtain th where e: "lsu_exec th s = Some s'"
    using assms(1) by (auto elim: lsu_step.cases)
  have inv: "lsu_solo s" "lsu_writes s" "balanced 17 (l_mm2s s)" "balanced 17 (l_s2mm s)" "safe s" "w_last s"
    using assms(2) by (simp_all add: lsu_inv_def)
  show ?thesis
    using lsu_exec_solo [OF e inv(1,2)] lsu_exec_writes [OF e inv(2)] lsu_exec_balanced [OF e inv(3,4)] lsu_exec_safe [OF e inv(5)]
      advances_w_last [OF lsu_exec_advances [OF e inv(2)] inv(6)] lsu_exec_work [OF e inv(2)]
    by (simp add: lsu_inv_def)
qed

interpretation lsu: worked lsu_step "\<lambda>s. lsu_inv s \<and> outcome s = m \<and> responses s = r" lsu_work for m r
  using lsu_step_inv by unfold_locales auto

lemma w_list_done:
  assumes "w_list s = []"
  shows "outcome s = l_mem s"
proof -
  have "mover_w (l_s2mm s) = []"
    using assms by (auto simp: w_list_def w_todo_def cur_trans_def mover_w_def split: option.splits)
  moreover have "concat (map dmac_w (dmacs_of True s)) = []"
    using assms by (simp add: w_list_def dmac_todo_def dmac_w_def)
  ultimately show ?thesis
    by (simp only: outcome_def w_addrs_def append_Nil zip_Nil fold_simps)
qed

lemma lsu_run:
  assumes "(lsu_step ^^ k) s0 s" "lsu_inv s0" "responses s0 = 1"
  shows "k \<le> lsu_work s0 \<and> (l_root_out s \<noteq> [] \<longrightarrow> length (l_root_out s) = 1 \<and> l_mem s = outcome s0) \<and>
    ((\<nexists>s'. lsu_step s s') \<longrightarrow> l_root_out s \<noteq> [])"
proof -
  have i: "lsu_inv s" "outcome s = outcome s0" "responses s = 1" "k \<le> lsu_work s0"
    using lsu.run [OF assms(1), of "outcome s0" 1] assms(2,3) by auto
  have "l_mem s = outcome s0" if out: "l_root_out s \<noteq> []"
  proof -
    have "0 < length (l_root_out s)"
      using out by simp
    then have "n_asks (w_list s) = 0"
      using i(3) unfolding responses_def by linarith
    moreover have "0 < n_asks (xs @ [x])" if "asks x" for xs x
      using that by simp
    ultimately have "w_list s = []"
      using i(1) unfolding lsu_inv_def w_last_def by (metis append_butlast_last_id less_numeral_extra(3))
    then show ?thesis
      using w_list_done i(2) by simp
  qed
  moreover have "length (l_root_out s) \<le> 1"
    using i(3) unfolding responses_def by linarith
  moreover have "l_root_out s \<noteq> []" if "\<nexists>s'. lsu_step s s'"
  proof -
    have "stuck s"
      using that by (metis lsu_step.intros not_Some_eq stuck_def)
    then show ?thesis
      using stuck_done i(1,3) by (auto simp: lsu_inv_def)
  qed
  ultimately show ?thesis
    using i(4) by (cases "l_root_out s") auto
qed

end
