(* ===== verification/Lsu_Copy.thy ===== *)
theory Lsu_Copy
  imports Lsu_Runs
begin

text \<open>
  The copies of the load-store unit: what the packets of \<^verbatim>\<open>lsu_memcpy\<close> and \<^verbatim>\<open>lsu_smemcpy\<close> make the unit do, from the transfers they
  start over the blocks these are cut into to the memory that results.
\<close>

section \<open>Blocks\<close>

lemma ucast_up_down: "unat a < 2 ^ 32 \<Longrightarrow> ucast (ucast (a :: u64) :: u32) = a"
proof -
  assume "unat a < 2 ^ 32"
  then have "unat (ucast a :: u32) = unat a"
    by (simp add: unsigned_ucast_eq take_bit_nat_eq_self)
  then have "unat (ucast (ucast a :: u32) :: u64) = unat a"
    using unsigned_less [of "ucast a :: u32", where ?'a = nat] by (subst unsigned_ucast_eq) (simp add: take_bit_nat_eq_self)
  then show ?thesis
    by (simp only: word_unat_eq_iff)
qed

lemma flit_addrs_append: "flit_addrs a (m + n) = flit_addrs a m @ flit_addrs (a + 8 * of_nat m) n"
proof (induction m arbitrary: a)
  case (Suc m)
  then show ?case
    using Suc.IH [of "a + 8"] by (simp add: flit_addrs_Suc distrib_left add_ac)
qed simp

text \<open>A transaction of whole flits reads and writes the same addresses.\<close>

lemma trans_addrs:
  assumes "8 dvd unat n" "unat n \<le> 128" "unat a < 2 ^ 32"
  shows "read_addrs \<lparr>dm_size = ucast (n :: u32), dm_last = l, dm_addr = ucast a, dm_tag = g\<rparr> = flit_addrs a (unat n div 8)"
    and "write_addrs (a, \<lparr>dm_size = ucast n, dm_last = l, dm_addr = ucast a, dm_tag = g\<rparr>) = flit_addrs a (unat n div 8)"
    and "even_trans (a, \<lparr>dm_size = ucast n, dm_last = l, dm_addr = ucast a, dm_tag = g\<rparr>)"
proof -
  have n: "unat (ucast n :: 24 word) = unat n"
    using assms(2) by (simp add: unsigned_ucast_eq take_bit_nat_eq_self)
  have a: "ucast (ucast a :: u32) = a"
    using assms(3) by (intro ucast_up_down) simp
  have "unat (ucast (ucast n :: 24 word) + 7 :: u32) = unat n + 7"
    using assms(2) n by (subst unat_add_lem [THEN iffD1]) simp_all
  then have r: "unat ((ucast (ucast n :: 24 word) + 7 :: u32) div 8) = unat n div 8"
    using assms(1) by (auto simp: unat_div elim!: dvdE)
  show "read_addrs \<lparr>dm_size = ucast n, dm_last = l, dm_addr = ucast a, dm_tag = g\<rparr> = flit_addrs a (unat n div 8)"
    by (simp add: read_addrs_def read_flits_def r a)
  show "write_addrs (a, \<lparr>dm_size = ucast n, dm_last = l, dm_addr = ucast a, dm_tag = g\<rparr>) = flit_addrs a (unat n div 8)"
    by (simp add: write_addrs_def n)
  show "even_trans (a, \<lparr>dm_size = ucast n, dm_last = l, dm_addr = ucast a, dm_tag = g\<rparr>)"
    using assms(1) by (simp add: even_trans_def n)
qed

lemma split_trans_addrs:
  assumes "8 dvd unat a" "8 dvd unat sz" "unat a + unat sz \<le> 2 ^ 32"
  shows "concat (map (read_addrs \<circ> snd) (split_trans a sz d)) = flit_addrs a (unat sz div 8) \<and>
    concat (map write_addrs (split_trans a sz d)) = flit_addrs a (unat sz div 8) \<and> list_all even_trans (split_trans a sz d)"
  using assms
proof (induction a sz d rule: split_trans.induct)
  case (1 a sz d)
  show ?case
  proof (cases "sz = 0")
    case True
    then show ?thesis
      by (simp add: split_trans.simps)
  next
    case False
    define bs :: u32 where "bs = ucast (MAX_BLOCK_SIZE - a mod MAX_BLOCK_SIZE)"
    define n where "n = (if sz < bs then sz else bs)"
    have b: "unat bs = 128 - unat a mod 128"
      unfolding bs_def by (rule block_size)
    have n: "unat n = min (unat sz) (128 - unat a mod 128)"
      by (auto simp: n_def b word_less_nat_alt min_def)
    have e: "8 dvd unat n" "unat n \<le> 128" "unat n \<le> unat sz" "0 < unat n"
      using 1(2,3) False n by (auto simp: min_def dvd_mod_iff unat_gt_0 intro!: dvd_diff_nat)
    have a: "unat a < 2 ^ 32"
      using 1(4) e(3,4) by linarith
    have s: "unat (sz - n) = unat sz - unat n"
      using e(3) by (simp add: unat_sub word_le_nat_alt)
    have n64: "unat (ucast n :: u64) = unat n"
      using e(2) by (simp add: unsigned_ucast_eq take_bit_nat_eq_self)
    have a': "unat (a + ucast n) = unat a + unat n"
      using 1(4) e(3) n64 by (subst unat_add_lem [THEN iffD1]) simp_all
    have a8: "a + ucast n = a + 8 * of_nat (unat n div 8)"
    proof -
      have "(of_nat (8 * (unat n div 8)) :: u64) = ucast n"
        using e(1) by (metis dvd_mult_div_cancel of_nat_unat)
      then show ?thesis
        by simp
    qed
    have IH: "concat (map (read_addrs \<circ> snd) (split_trans (a + ucast n) (sz - n) d)) = flit_addrs (a + ucast n) (unat (sz - n) div 8) \<and>
        concat (map write_addrs (split_trans (a + ucast n) (sz - n) d)) = flit_addrs (a + ucast n) (unat (sz - n) div 8) \<and>
        list_all even_trans (split_trans (a + ucast n) (sz - n) d)"
      using 1(2-4) e s a' by (intro 1(1) [OF False bs_def n_def]) (auto simp: dvd_diff_nat)
    have "unat sz div 8 = unat n div 8 + unat (sz - n) div 8"
      using e(1,3) s by (metis div_add dvd_diff_nat le_add_diff_inverse 1(3))
    then show ?thesis
      using False IH trans_addrs [OF e(1,2) a]
      by (subst (1 2 3) split_trans.simps) (simp add: Let_def flit_addrs_append flip: bs_def n_def a8)
  qed
qed
text \<open>Only the last transaction of a transfer can be the last of a packet.\<close>

lemma split_trans_last:
  assumes "sz \<noteq> 0"
  shows "\<exists>ts t. map snd (split_trans a sz d) = ts @ [t] \<and> n_asks ts = 0 \<and> (asks t \<longleftrightarrow> asks d)"
  using assms
proof (induction a sz d rule: split_trans.induct)
  case (1 a sz d)
  define bs :: u32 where "bs = ucast (MAX_BLOCK_SIZE - a mod MAX_BLOCK_SIZE)"
  define n where "n = (if sz < bs then sz else bs)"
  define t where "t = \<lparr>dm_size = ucast n, dm_last = (sz = n \<and> dm_last d), dm_addr = ucast a, dm_tag = dm_tag d\<rparr>"
  have s: "split_trans a sz d = (a, t) # split_trans (a + ucast n) (sz - n) d"
    using 1(2) by (subst split_trans.simps) (simp add: Let_def flip: bs_def n_def t_def)
  show ?case
  proof (cases "sz = n")
    case True
    then have "map snd (split_trans a sz d) = [] @ [t]" "asks t \<longleftrightarrow> asks d"
      unfolding s by (simp_all add: split_trans.simps asks_def t_def)
    then show ?thesis
      by fastforce
  next
    case False
    then obtain ts t' where "map snd (split_trans (a + ucast n) (sz - n) d) = ts @ [t']" "n_asks ts = 0" "asks t' \<longleftrightarrow> asks d"
      using 1(1) [OF 1(2) bs_def n_def] by auto
    moreover have "\<not> asks t"
      using False by (simp add: asks_def t_def)
    ultimately have "map snd (split_trans a sz d) = (t # ts) @ [t']" "n_asks (t # ts) = 0" "asks t' \<longleftrightarrow> asks d"
      unfolding s by simp_all
    then show ?thesis
      by blast
  qed
qed

section \<open>Packets\<close>

lemma cmd_flit:
  "tc_user (hdr_flit (lsu_head c) d l) = RACC_of (ucast (lsu_tuser c))" "bit (tc_dest (hdr_flit (lsu_head c) d l)) 0 = bit (lsu_tdest c) 0"
  "tc_data (hdr_flit h d l) = d"
proof -
  have "(ucast (drop_bit 16 (lsu_head c)) :: u8) = ucast (lsu_tuser c)"
    by (rule bit_word_eqI) (auto simp: lsu_head_def bit_parts bit_drop_bit_eq dest: word_bit_limits(5))
  then show "tc_user (hdr_flit (lsu_head c) d l) = RACC_of (ucast (lsu_tuser c))"
    by (simp add: hdr_flit_def)
  show "bit (tc_dest (hdr_flit (lsu_head c) d l)) 0 = bit (lsu_tdest c) 0"
    by (simp add: hdr_flit_def lsu_head_def bit_simps)
qed (simp add: hdr_flit_def)

lemma move_flits:
  "packet_flits (lsu_move_words c) = [hdr_flit (lsu_head c) (lsu_cmdw c) False, hdr_flit (lsu_head c) (lsu_addr c) False, hdr_flit (lsu_head c) (lsu_size c) True]"
  by (simp add: packet_flits_def lsu_move_words_def upt_rec)

lemma smove_flits:
  "packet_flits (lsu_smove_words c) = [hdr_flit (lsu_head c) (lsu_cmdw c) False, hdr_flit (lsu_head c) (lsu_addr c) False,
     hdr_flit (lsu_head c) (lsu_size c) False, hdr_flit (lsu_head c) (lsu_inc c) False, hdr_flit (lsu_head c) (lsu_rep c) True]"
  by (simp add: packet_flits_def lsu_smove_words_def upt_rec)

lemma replicate_8: "replicate 8 (0 :: u32) = [0, 0, 0, 0, 0, 0, 0, 0]"
  by (simp add: numeral_eq_Suc)

lemma user_values:
  "RACC_of 0xCB = \<lparr>ra_len = 3, ra_sel = 1, ra_wr = True, ra_go = True\<rparr>"
  "RACC_of 0xCD = \<lparr>ra_len = 5, ra_sel = 1, ra_wr = True, ra_go = True\<rparr>"
  by (simp_all add: RACC_of_def)

lemma reset_idle: "c_in lsuctl_reset = []" "c_acmd lsuctl_reset = []" "c_go lsuctl_reset = []" "c_pend lsuctl_reset = []" "c_pkt lsuctl_reset = None"
  by (simp_all add: lsuctl_reset_def)

lemma move_cmds:
  assumes "lsu_tuser c = 0xCB"
  shows "cmds (replicate 8 0) None [] (packet_flits (lsu_move_words c)) =
      lsu_dmacs [0, lsu_cmdw c, lsu_addr c, lsu_size c, 0, 0, 0, 0] (hd (go_acmd (hdr_flit (lsu_head c) (lsu_cmdw c) False)))"
    and "solo lsuctl_reset (packet_flits (lsu_move_words c))" "writes (packet_flits (lsu_move_words c))"
  using assms
  by (simp_all add: move_flits cmd_flit user_values Let_def replicate_8 solo_def reset_idle writes_def go_acmd_def)

lemma smove_cmds:
  assumes "lsu_tuser c = 0xCD"
  shows "cmds (replicate 8 0) None [] (packet_flits (lsu_smove_words c)) =
      lsu_dmacs [0, lsu_cmdw c, lsu_addr c, lsu_size c, lsu_inc c, lsu_rep c, 0, 0] (hd (go_acmd (hdr_flit (lsu_head c) (lsu_cmdw c) False)))"
    and "solo lsuctl_reset (packet_flits (lsu_smove_words c))" "writes (packet_flits (lsu_smove_words c))"
  using assms
  by (simp_all add: smove_flits cmd_flit user_values Let_def replicate_8 solo_def reset_idle writes_def go_acmd_def)

section \<open>Copies\<close>

text \<open>The unit after a reset, with flits of one command for each channel to come.\<close>

lemma reset_dmacs: "dmacs_of b (lsu_reset xs m) = cmds (replicate 8 0) None [] (root_for b xs)"
  by (simp add: dmacs_of_def ctl_future_def lsu_reset_def lsuctl_reset_def)

lemma root_for_cmd:
  assumes "\<And>x. x \<in> set xs \<Longrightarrow> bit (tc_dest x) 0 = False" "\<And>x. x \<in> set ys \<Longrightarrow> bit (tc_dest x) 0 = True"
  shows "root_for b (xs @ ys) = (if b then ys else xs)"
proof -
  have "filter (\<lambda>x. bit (tc_dest x) 0 = b) xs = (if b then [] else xs)" "filter (\<lambda>x. bit (tc_dest x) 0 = b) ys = (if b then ys else [])"
    using assms by (cases b; auto intro!: filter_True filter_False)+
  then show ?thesis
    by (simp add: root_for_def)
qed

lemma reset_inv:
  assumes "\<And>x. x \<in> set rd \<Longrightarrow> bit (tc_dest x) 0 = False" "\<And>x. x \<in> set wr \<Longrightarrow> bit (tc_dest x) 0 = True"
    and "writes rd" "writes wr" "solo lsuctl_reset rd" "solo lsuctl_reset wr"
    and r: "cmds (replicate 8 0) None [] rd = xs" "concat (map dmac_r xs) = ra" "n_asks (concat (map dmac_todo xs)) = 0"
    and w: "cmds (replicate 8 0) None [] wr = ys" "concat (map dmac_w ys) = wa" "list_all dmac_even ys"
      "concat (map dmac_todo ys) = ts @ [t]" "n_asks ts = 0" "asks t"
    and "length wa = length ra" "\<forall>a\<in>set ra. \<forall>b\<in>set wa. apart a b"
  shows "lsu_inv (lsu_reset (rd @ wr) m) \<and> responses (lsu_reset (rd @ wr) m) = 1 \<and>
    outcome (lsu_reset (rd @ wr) m) = fold wr64 (zip wa (map (rd64 m) ra)) m"
proof -
  let ?s = "lsu_reset (rd @ wr) m"
  have root: "root_for b (rd @ wr) = (if b then wr else rd)" for b
    by (rule root_for_cmd) (use assms(1,2) in auto)
  have d: "dmacs_of b ?s = (if b then ys else xs)" for b
    unfolding reset_dmacs root using r(1) w(1) by simp
  have m: "mover_r (l_mm2s ?s) = []" "mover_w (l_s2mm ?s) = []" "mover_even (l_s2mm ?s)" "l_mem ?s = m" "l_din ?s = []" "l_dout ?s = []"
    "balanced 17 (l_mm2s ?s)" "balanced 17 (l_s2mm ?s)" "r_held (l_mm2s ?s) = 0" "w_held (l_s2mm ?s) = 0" "w_todo (l_s2mm ?s) = []"
    "l_root_out ?s = []" "l_queue ?s = []" "l_mux ?s = []" "ctl_responses lsuctl_reset = 0" "l_root_in ?s = rd @ wr" "\<And>b. l_ch ?s b = lsuctl_reset"
    by (simp_all add: lsu_reset_def mover_reset_def mover_defs held_defs balanced_def tmanage_def OUTSTANDING_READ_def OUTSTANDING_WRITE_def
        lsuctl_reset_def ctl_responses_def)
  have ra: "r_addrs ?s = ra" and wa: "w_addrs ?s = wa" and e: "w_even ?s" and l: "w_list ?s = ts @ [t]"
    using r w by (simp_all add: r_addrs_def w_addrs_def w_even_def w_list_def m d)
  have da: "r_data ?s = map (rd64 m) ra"
    by (simp add: r_data_def m ra)
  have "safe ?s" "w_last ?s"
    using assms by (simp_all add: safe_def da ra wa e m w_last_def l)
  moreover have "lsu_solo ?s" "lsu_writes ?s"
    using assms(3-6) by (auto simp: lsu_solo_def lsu_writes_def m root ctl_writes_def lsuctl_reset_def writes_def)
  moreover have "responses ?s = 1"
    using r(3) w(5,6) by (simp add: responses_def m d l)
  ultimately show ?thesis
    by (simp add: lsu_inv_def m outcome_def da wa)
qed

lemma apart_flits:
  assumes "k * 8 + unat b \<le> unat a \<or> k * 8 + unat a \<le> unat b" "unat a + 8 * k \<le> 2 ^ 32" "unat b + 8 * k \<le> 2 ^ 32"
  shows "\<forall>x\<in>set (flit_addrs a k). \<forall>y\<in>set (flit_addrs b k). apart x y"
proof (intro ballI)
  fix x y
  assume "x \<in> set (flit_addrs a k)" "y \<in> set (flit_addrs b k)"
  then obtain i j where i: "i < k" "x = a + 8 * of_nat i" and j: "j < k" "y = b + 8 * of_nat j"
    by (auto simp: flit_addrs_def)
  have u: "unat (c + 8 * of_nat n) = unat c + 8 * n" if "n < k" "unat c + 8 * k \<le> 2 ^ 32" for c :: u64 and n
  proof -
    have "unat (of_nat (8 * n) :: u64) = 8 * n"
      using that by (simp add: unsigned_of_nat take_bit_nat_eq_self del: of_nat_mult)
    then show ?thesis
      using that by (subst unat_add_lem [THEN iffD1]) simp_all
  qed
  show "apart x y"
    using assms u [OF i(1) assms(2)] u [OF j(1) assms(3)] i(1) j(1) unfolding apart_def i(2) j(2) unat_sub_if' by auto
qed

lemma bit_LSU_ACMD: "n < 16 \<Longrightarrow> bit (LSU_ACMD a (of_bool q) c) n \<longleftrightarrow> q \<and> n = 7 \<or> bit c n"
proof -
  assume n: "n < 16"
  have "bit (0x70000 :: u64) n = bit (push_bit 16 (7 :: u64)) n"
    by simp
  also have "\<dots> = False"
    using n unfolding bit_push_bit_iff by simp
  finally show ?thesis
    by (auto simp: LSU_ACMD_def bit_or_iff bit_and_iff bit_flag)
qed

lemma copy_cmd_fields:
  "(ucast (ucast (LSU_ACMD a (of_bool q) LSU_move) :: u32) :: 3 word) = 1" "(ucast (ucast (LSU_ACMD a (of_bool q) LSU_smove) :: u32) :: 3 word) = 2"
  "bit (ucast (LSU_ACMD a (of_bool q) LSU_move) :: u32) 7 \<longleftrightarrow> q" "bit (ucast (LSU_ACMD a (of_bool q) LSU_smove) :: u32) 7 \<longleftrightarrow> q"
proof -
  have n: "n < 3 \<Longrightarrow> n = 0 \<or> n = 1 \<or> n = 2" for n :: nat
    by auto
  show "(ucast (ucast (LSU_ACMD a (of_bool q) LSU_move) :: u32) :: 3 word) = 1" "(ucast (ucast (LSU_ACMD a (of_bool q) LSU_smove) :: u32) :: 3 word) = 2"
    by (rule bit_word_eqI, use n in \<open>fastforce simp: bit_ucast_iff bit_LSU_ACMD LSU_move_def LSU_smove_def\<close>)+
qed (simp_all add: bit_ucast_iff bit_LSU_ACMD LSU_move_def LSU_smove_def)

lemma unat_ucast_small: "unat x < 2 ^ LENGTH('b) \<Longrightarrow> unat (ucast (x :: 'a::len word) :: 'b::len word) = unat x"
  by (simp add: unsigned_ucast_eq take_bit_nat_eq_self)

text \<open>The flits of a copy and the channels they go to.\<close>

definition ch_id :: "bool \<Rightarrow> u32" where
  "ch_id b = (if b then WRITE_CH else READ_CH)"

lemma channel_bit: "\<not> bit i 0 \<Longrightarrow> bit (ucast (i + ch_id b) :: u8) 0 = b"
  unfolding bit_ucast_iff by (simp add: ch_id_def READ_CH_def WRITE_CH_def bit_0)

lemma move_packet_dmacs:
  fixes n :: u64
  assumes "unat n < 2 ^ 24"
  shows "\<exists>x. cmds (replicate 8 0) None [] (packet_flits (move_packet g ch a (of_bool q) n)) = [x] \<and>
    unat (dm_size x) = unat n \<and> dm_addr x = ucast a \<and> (asks x \<longleftrightarrow> q)"
proof -
  have "unat (ucast n :: u32) = unat n"
    using assms by (intro unat_ucast_small) simp
  moreover from this have "unat (ucast (ucast n :: u32) :: 30 word) = unat n"
    using assms by (subst unat_ucast_small) simp_all
  ultimately have "unat (ucast (ucast (ucast n :: u32) :: 30 word) :: 24 word) = unat n"
    using assms by (subst unat_ucast_small) simp_all
  then show ?thesis
    unfolding move_packet_def
    by (subst move_cmds) (simp_all add: lsu_dmacs_def lr_command_def lr_reqstat_def lr_address_def lr_size_def copy_cmd_fields asks_def)
qed

lemma move_packet_ch: "\<not> bit (gfwd_id g) 0 \<Longrightarrow> x \<in> set (packet_flits (move_packet g (ch_id b) a r n)) \<Longrightarrow> bit (tc_dest x) 0 = b"
  unfolding move_packet_def move_flits by (auto simp: cmd_flit channel_bit)

lemma writes_append: "writes (xs @ ys) \<longleftrightarrow> writes xs \<and> writes ys"
  by (auto simp: writes_def)

lemma move_packet_ok: "solo lsuctl_reset (packet_flits (move_packet g ch a r n))" "writes (packet_flits (move_packet g ch a r n))"
  unfolding move_packet_def by (rule move_cmds(2,3), simp)+

lemma dmac_copy:
  assumes "unat (dm_size x) = unat n" "dm_addr x = ucast a" "8 dvd unat a" "8 dvd unat n" "0 < unat n" "unat a + unat n \<le> 2 ^ 32"
  shows "dmac_r x = flit_addrs a (unat n div 8)" "dmac_w x = flit_addrs a (unat n div 8)" "dmac_even x"
    "\<exists>ts t. dmac_todo x = ts @ [t] \<and> n_asks ts = 0 \<and> (asks t \<longleftrightarrow> asks x)"
proof -
  have a: "ucast (dm_addr x) = a"
    using assms(2,5,6) by (simp add: ucast_up_down)
  have "(ucast (dm_size x) :: u32) \<noteq> 0"
    using assms(1,5) by (metis unat_ucast_size unsigned_0 less_irrefl)
  then show "\<exists>ts t. dmac_todo x = ts @ [t] \<and> n_asks ts = 0 \<and> (asks t \<longleftrightarrow> asks x)"
    using split_trans_last by (simp add: dmac_todo_def dmac_trans_def)
  show "dmac_r x = flit_addrs a (unat n div 8)" "dmac_w x = flit_addrs a (unat n div 8)" "dmac_even x"
    using split_trans_addrs [of a "ucast (dm_size x)" x] assms unfolding dmac_r_def dmac_w_def dmac_even_def dmac_trans_def a by simp_all
qed

text \<open>C2: A copy by the load-store unit works under every schedule of its threads and whenever the memory answers. Started with the
  two packets of \<^verbatim>\<open>lsu_memcpy\<close>, every run is finite, a unit that cannot go on has sent its response, there is only one response,
  and when it has been sent the memory at the destination is a copy of the source and nothing else has changed. This holds
  for addresses and sizes that are multiples of eight, sizes below 16 MB and regions that do not overlap.\<close>

theorem lsu_copies:
  fixes src dst n :: u64
  assumes "s0 = lsu_reset (packet_flits (move_packet g READ_CH src 0 n) @ packet_flits (move_packet g WRITE_CH dst 1 n)) m"
    and "\<not> bit (gfwd_id g) 0" "8 dvd unat src" "8 dvd unat dst" "8 dvd unat n" "0 < unat n" "unat n < 2 ^ 24"
    and "unat src + unat n \<le> 2 ^ 32" "unat dst + unat n \<le> 2 ^ 32" "unat src + unat n \<le> unat dst \<or> unat dst + unat n \<le> unat src"
    and "(lsu_step ^^ k) s0 s"
  shows "k \<le> lsu_work s0 \<and>
    (l_root_out s \<noteq> [] \<longrightarrow> length (l_root_out s) = 1 \<and> l_mem s = store_bytes dst (map (\<lambda>i. m (src + of_nat i)) [0..<unat n]) m) \<and>
    ((\<nexists>s'. lsu_step s s') \<longrightarrow> l_root_out s \<noteq> [])"
proof -
  let ?rd = "packet_flits (move_packet g (ch_id False) src (of_bool False) n)" and ?wr = "packet_flits (move_packet g (ch_id True) dst (of_bool True) n)"
  have s0: "s0 = lsu_reset (?rd @ ?wr) m"
    by (simp add: assms(1) ch_id_def)
  obtain x where x: "cmds (replicate 8 0) None [] ?rd = [x]" "unat (dm_size x) = unat n" "dm_addr x = ucast src" "\<not> asks x"
    using move_packet_dmacs [OF assms(7), of g "ch_id False" src False] by blast
  obtain y where y: "cmds (replicate 8 0) None [] ?wr = [y]" "unat (dm_size y) = unat n" "dm_addr y = ucast dst" "asks y"
    using move_packet_dmacs [OF assms(7), of g "ch_id True" dst True] by blast
  note dx = dmac_copy [OF x(2,3) assms(3,5,6,8)] and dy = dmac_copy [OF y(2,3) assms(4,5,6,9)]
  obtain ts t us u where t: "dmac_todo x = ts @ [t]" "n_asks ts = 0" "\<not> asks t" and u: "dmac_todo y = us @ [u]" "n_asks us = 0" "asks u"
    using dx(4) dy(4) x(4) y(4) by blast
  have n: "8 * (unat n div 8) = unat n"
    using assms(5) by simp
  have ap: "\<forall>a\<in>set (flit_addrs src (unat n div 8)). \<forall>b\<in>set (flit_addrs dst (unat n div 8)). apart a b"
    by (rule apart_flits) (use assms(8-10) n in auto)
  have "lsu_inv s0 \<and> responses s0 = 1 \<and> outcome s0 = fold wr64 (zip (flit_addrs dst (unat n div 8)) (map (rd64 m) (flit_addrs src (unat n div 8)))) m"
    unfolding s0
    by (rule reset_inv [where ts = us and t = u, OF move_packet_ch [OF assms(2)] move_packet_ch [OF assms(2)] move_packet_ok(2) move_packet_ok(2)
          move_packet_ok(1) move_packet_ok(1) x(1) _ _ y(1)])
      (simp_all add: dx dy t u ap)
  then show ?thesis
    using lsu_run [OF assms(11)] copy_flits [of dst _ m src m] n by simp
qed

text \<open>A copy of 8 bytes from address 4096 to 8192: some run ends with the response and the copy.\<close>

theorem lsu_copies_witness:
  "\<exists>k s. (lsu_step ^^ k) (lsu_reset (packet_flits (move_packet core_accel READ_CH 4096 0 8) @ packet_flits (move_packet core_accel WRITE_CH 8192 1 8)) (\<lambda>a. ucast a)) s \<and>
     length (l_root_out s) = 1 \<and> l_mem s 8195 = 3"
proof -
  let ?s0 = "lsu_reset (packet_flits (move_packet core_accel READ_CH 4096 0 8) @ packet_flits (move_packet core_accel WRITE_CH 8192 1 8)) (\<lambda>a. ucast a)"
  have g: "\<not> bit (gfwd_id core_accel) 0"
    by (simp add: core_accel_def)
  note c = lsu_copies [OF refl g, of 4096 8192 8 _ "\<lambda>a. ucast a", simplified]
  obtain k s where "(lsu_step ^^ k) ?s0 s" "\<nexists>s'. lsu_step s s'"
    using bounded_run_ends [of lsu_step ?s0] c by blast
  then show ?thesis
    using c by (fastforce simp: store_bytes_apply)
qed

section \<open>Strided copies\<close>

lemma take_bit_add_64: "take_bit 32 (take_bit 64 a + take_bit 64 b) = take_bit 32 (a + b)" for a b :: int
  using take_bit_add [of 32 "take_bit 64 a" "take_bit 64 b"] take_bit_add [of 32 a b] by simp

lemma ucast_add_32: "(ucast (a + b :: u64) :: u32) = ucast a + ucast b"
  by transfer (simp add: take_bit_add take_bit_add_64)

definition strided :: "u64 \<Rightarrow> u64 \<Rightarrow> nat \<Rightarrow> nat \<Rightarrow> u64 list" where
  "strided a inc k n = concat (map (\<lambda>i. flit_addrs (a + of_nat i * inc) k) [0..<n])"

lemma strided_Suc: "strided a inc k (Suc n) = flit_addrs a k @ strided (a + inc) inc k n"
  unfolding strided_def
  by (simp add: upt_conv_Cons map_Suc_upt [symmetric] distrib_right add_ac comp_def del: upt_Suc)

lemma length_strided [simp]: "length (strided a inc k n) = k * n"
  by (induction n arbitrary: a) (simp_all add: strided_Suc, simp add: strided_def)

lemma smove_dmacs_copy:
  assumes "unat sz = unat n" "8 dvd unat a" "8 dvd unat inc" "8 dvd unat n" "0 < unat n" "0 < rep \<Longrightarrow> unat a + (rep - 1) * unat inc + unat n \<le> 2 ^ 32"
  shows "concat (map dmac_r (smove_dmacs (ucast a) sz (ucast inc) did req rep)) = strided a inc (unat n div 8) rep \<and>
    concat (map dmac_w (smove_dmacs (ucast a) sz (ucast inc) did req rep)) = strided a inc (unat n div 8) rep \<and>
    list_all dmac_even (smove_dmacs (ucast a) sz (ucast inc) did req rep) \<and>
    (\<not> req \<longrightarrow> n_asks (concat (map dmac_todo (smove_dmacs (ucast a) sz (ucast inc) did req rep))) = 0) \<and>
    (req \<and> 0 < rep \<longrightarrow> (\<exists>ts t. concat (map dmac_todo (smove_dmacs (ucast a) sz (ucast inc) did req rep)) = ts @ [t] \<and> n_asks ts = 0 \<and> asks t))"
  using assms(2,6)
proof (induction rep arbitrary: a)
  case 0
  then show ?case
    by (simp add: strided_def)
next
  case (Suc rep)
  define z where "z = \<lparr>dm_size = sz, dm_last = (rep = 0), dm_addr = ucast a, dm_tag = \<lparr>tg_did = did, tg_req = (req \<and> rep = 0)\<rparr>\<rparr>"
  have p: "unat a + rep * unat inc + unat n \<le> 2 ^ 32"
    using Suc.prems(2) by simp
  then have le: "unat a + unat n \<le> 2 ^ 32"
    by linarith
  have nx: "unat (a + inc) = unat a + unat inc" if "0 < rep"
  proof -
    have "unat inc \<le> rep * unat inc"
      using that by simp
    then have "unat a + unat inc \<le> 2 ^ 32"
      using p by linarith
    then show ?thesis
      by (subst unat_add_lem [THEN iffD1]) simp_all
  qed
  have z: "unat (dm_size z) = unat n" "dm_addr z = ucast a" "asks z \<longleftrightarrow> req \<and> rep = 0"
    using assms(1) by (auto simp: z_def asks_def)
  note x = dmac_copy [OF z(1,2) Suc.prems(1) assms(4,5) le]
  obtain ts t where t: "dmac_todo z = ts @ [t]" "n_asks ts = 0" "asks t \<longleftrightarrow> asks z"
    using x(4) by auto
  have s: "smove_dmacs (ucast a) sz (ucast inc) did req (Suc rep) = z # smove_dmacs (ucast (a + inc)) sz (ucast inc) did req rep"
    by (simp add: ucast_add_32 z_def)
  show ?case
  proof (cases "rep = 0")
    case True
    then show ?thesis
      using x(1-3) t z(3) unfolding s by (auto simp: strided_def)
  next
    case False
    have d: "8 dvd unat (a + inc)"
      using nx False Suc.prems(1) assms(3) by simp
    have b: "unat (a + inc) + (rep - 1) * unat inc + unat n \<le> 2 ^ 32"
      using nx False Suc.prems(2) by (cases rep) simp_all
    note IH = Suc.IH [OF d b]
    have "\<not> asks t"
      using t(3) z(3) False by simp
    moreover have "\<exists>vs v. concat (map dmac_todo (z # smove_dmacs (ucast (a + inc)) sz (ucast inc) did req rep)) = vs @ [v] \<and> n_asks vs = 0 \<and> asks v"
      if r: req
    proof -
      obtain us u where "concat (map dmac_todo (smove_dmacs (ucast (a + inc)) sz (ucast inc) did req rep)) = us @ [u]" "n_asks us = 0" "asks u"
        using IH r False by auto
      then show ?thesis
        using t \<open>\<not> asks t\<close> by (intro exI [of _ "ts @ t # us"] exI [of _ u]) simp
    qed
    ultimately show ?thesis
      using IH x(1-3) t(1,2) unfolding s strided_Suc by simp
  qed
qed

lemma smove_packet_dmacs:
  fixes bsz inc cnt :: u64
  assumes "unat bsz < 2 ^ 24" "unat inc < 2 ^ 30" "unat cnt < 2 ^ 30"
  shows "\<exists>sz did. cmds (replicate 8 0) None [] (packet_flits (smove_packet g ch a (of_bool q) bsz inc cnt)) =
      smove_dmacs (ucast a) sz (ucast inc) did q (unat cnt) \<and> unat sz = unat bsz"
proof -
  have z: "unat (ucast (ucast (ucast bsz :: u32) :: 30 word) :: 24 word) = unat bsz"
    using assms(1) by (subst unat_ucast_small; (subst unat_ucast_small)?; (subst unat_ucast_small)?; simp)
  have c: "unat (ucast (ucast cnt :: u32) :: 30 word) = unat cnt"
    using assms(3) by (subst unat_ucast_small; (subst unat_ucast_small)?; simp)
  have i: "ucast (ucast (ucast inc :: u32) :: 30 word) = (ucast inc :: u32)"
  proof -
    have "unat (ucast inc :: u32) = unat inc"
      using assms(2) by (intro unat_ucast_small) simp
    moreover from this have "unat (ucast (ucast inc :: u32) :: 30 word) = unat inc"
      using assms(2) by (subst unat_ucast_small) simp_all
    ultimately have "unat (ucast (ucast (ucast inc :: u32) :: 30 word) :: u32) = unat (ucast inc :: u32)"
      using assms(2) by (subst unat_ucast_small) simp_all
    then show ?thesis
      by (simp only: word_unat_eq_iff)
  qed
  show ?thesis
    unfolding smove_packet_def
    by (subst smove_cmds) (use z in \<open>auto simp: lsu_dmacs_def lr_command_def lr_reqstat_def lr_address_def lr_size_def lr_inc_def lr_rep_def
        copy_cmd_fields c i\<close>)
qed

lemma smove_packet_ch: "\<not> bit (gfwd_id g) 0 \<Longrightarrow> x \<in> set (packet_flits (smove_packet g (ch_id b) a r z i n)) \<Longrightarrow> bit (tc_dest x) 0 = b"
  unfolding smove_packet_def smove_flits by (auto simp: cmd_flit channel_bit)

lemma smove_packet_ok: "solo lsuctl_reset (packet_flits (smove_packet g ch a r z i n))" "writes (packet_flits (smove_packet g ch a r z i n))"
  unfolding smove_packet_def by (rule smove_cmds(2,3), simp)+

lemma zip_map_append: "length xs = length ys \<Longrightarrow> zip (xs @ xs') (map f (ys @ ys')) = zip xs (map f ys) @ zip xs' (map f ys')"
  by simp

lemma copy_strided:
  "fold wr64 (zip (strided dst dinc k n) (map (rd64 m) (strided src sinc k n))) m' =
     fold (\<lambda>i. store_bytes (dst + of_nat i * dinc) (map (\<lambda>j. m (src + of_nat i * sinc + of_nat j)) [0..<8 * k])) [0..<n] m'"
proof (induction n arbitrary: dst src m')
  case 0
  then show ?case
    by (simp add: strided_def)
next
  case (Suc n)
  have "[0..<Suc n] = 0 # map Suc [0..<n]"
    by (simp add: upt_conv_Cons map_Suc_upt del: upt_Suc)
  then show ?case
    unfolding strided_Suc
    by (simp add: zip_map_append copy_flits Suc fold_map comp_def distrib_right add_ac del: map_append upt_Suc)
qed

lemma apart_strided:
  assumes "\<And>i j. i < n \<Longrightarrow> j < n \<Longrightarrow> \<forall>x\<in>set (flit_addrs (a + of_nat i * p) k). \<forall>y\<in>set (flit_addrs (b + of_nat j * q) k). apart x y"
  shows "\<forall>x\<in>set (strided a p k n). \<forall>y\<in>set (strided b q k n). apart x y"
  using assms by (fastforce simp: strided_def)

lemma unat_stride:
  assumes "i < n" "unat a + (n - 1) * unat inc + l \<le> 2 ^ 32"
  shows "unat (a + of_nat i * inc :: u64) = unat a + i * unat inc" "unat a + i * unat inc + l \<le> 2 ^ 32"
proof -
  have "i * unat inc \<le> (n - 1) * unat inc"
    using assms(1) by (intro mult_le_mono1) linarith
  then show l: "unat a + i * unat inc + l \<le> 2 ^ 32"
    using assms(2) by linarith
  have "of_nat (i * unat inc) = (of_nat i * inc :: u64)"
    by simp
  moreover have "unat (of_nat (i * unat inc) :: u64) = i * unat inc"
    using l by (simp add: unsigned_of_nat take_bit_nat_eq_self del: of_nat_mult)
  ultimately have "unat (of_nat i * inc :: u64) = i * unat inc"
    by simp
  then show "unat (a + of_nat i * inc :: u64) = unat a + i * unat inc"
    using l by (subst unat_add_lem [THEN iffD1]) simp_all
qed

text \<open>The same for a strided copy, started with the two packets of \<^verbatim>\<open>lsu_smemcpy\<close>: every run is finite and ends with one response,
  and when the response has been sent block after block of the source is at its place in the destination. Block size, increments
  and addresses are multiples of eight, and no source block overlaps a destination block.\<close>

theorem lsu_strided_copies:
  fixes src dst bsz dinc sinc cnt :: u64
  assumes "s0 = lsu_reset (packet_flits (smove_packet g READ_CH src 0 bsz sinc cnt) @ packet_flits (smove_packet g WRITE_CH dst 1 bsz dinc cnt)) m"
    and "\<not> bit (gfwd_id g) 0" "8 dvd unat src" "8 dvd unat dst" "8 dvd unat bsz" "8 dvd unat sinc" "8 dvd unat dinc"
    and "0 < unat bsz" "unat bsz < 2 ^ 24" "unat sinc < 2 ^ 30" "unat dinc < 2 ^ 30" "0 < unat cnt" "unat cnt < 2 ^ 30"
    and "unat src + (unat cnt - 1) * unat sinc + unat bsz \<le> 2 ^ 32" "unat dst + (unat cnt - 1) * unat dinc + unat bsz \<le> 2 ^ 32"
    and "\<And>i j. i < unat cnt \<Longrightarrow> j < unat cnt \<Longrightarrow> unat src + i * unat sinc + unat bsz \<le> unat dst + j * unat dinc \<or>
      unat dst + j * unat dinc + unat bsz \<le> unat src + i * unat sinc"
    and "(lsu_step ^^ k) s0 s"
  shows "k \<le> lsu_work s0 \<and>
    (l_root_out s \<noteq> [] \<longrightarrow> length (l_root_out s) = 1 \<and>
       l_mem s = fold (\<lambda>i. store_bytes (dst + of_nat i * dinc) (map (\<lambda>j. m (src + of_nat i * sinc + of_nat j)) [0..<unat bsz])) [0..<unat cnt] m) \<and>
    ((\<nexists>s'. lsu_step s s') \<longrightarrow> l_root_out s \<noteq> [])"
proof -
  let ?rd = "packet_flits (smove_packet g (ch_id False) src (of_bool False) bsz sinc cnt)"
    and ?wr = "packet_flits (smove_packet g (ch_id True) dst (of_bool True) bsz dinc cnt)" and ?k = "unat bsz div 8"
  have s0: "s0 = lsu_reset (?rd @ ?wr) m"
    by (simp add: assms(1) ch_id_def)
  obtain sz did where x: "cmds (replicate 8 0) None [] ?rd = smove_dmacs (ucast src) sz (ucast sinc) did False (unat cnt)" "unat sz = unat bsz"
    using smove_packet_dmacs [OF assms(9,10,13), of g "ch_id False" src False] by blast
  obtain tz tid where y: "cmds (replicate 8 0) None [] ?wr = smove_dmacs (ucast dst) tz (ucast dinc) tid True (unat cnt)" "unat tz = unat bsz"
    using smove_packet_dmacs [OF assms(9,11,13), of g "ch_id True" dst True] by blast
  note dx = smove_dmacs_copy [OF x(2) assms(3,6,5,8,14), of did False] and dy = smove_dmacs_copy [OF y(2) assms(4,7,5,8,15), of tid True]
  obtain ts t where t: "concat (map dmac_todo (smove_dmacs (ucast dst) tz (ucast dinc) tid True (unat cnt))) = ts @ [t]" "n_asks ts = 0" "asks t"
    using dy assms(12) by blast
  have n: "8 * ?k = unat bsz"
    using assms(5) by simp
  have ap: "\<forall>a\<in>set (strided src sinc ?k (unat cnt)). \<forall>b\<in>set (strided dst dinc ?k (unat cnt)). apart a b"
  proof (rule apart_strided, rule apart_flits)
    fix i j
    assume i: "i < unat cnt" and j: "j < unat cnt"
    note u = unat_stride [OF i assms(14)] unat_stride [OF j assms(15)]
    show "?k * 8 + unat (dst + of_nat j * dinc) \<le> unat (src + of_nat i * sinc) \<or> ?k * 8 + unat (src + of_nat i * sinc) \<le> unat (dst + of_nat j * dinc)"
      "unat (src + of_nat i * sinc) + 8 * ?k \<le> 2 ^ 32" "unat (dst + of_nat j * dinc) + 8 * ?k \<le> 2 ^ 32"
      using assms(16) [OF i j] u n by (auto simp: mult.commute)
  qed
  have "lsu_inv s0 \<and> responses s0 = 1 \<and>
      outcome s0 = fold wr64 (zip (strided dst dinc ?k (unat cnt)) (map (rd64 m) (strided src sinc ?k (unat cnt)))) m"
    unfolding s0
    by (rule reset_inv [where ts = ts and t = t, OF smove_packet_ch [OF assms(2)] smove_packet_ch [OF assms(2)] smove_packet_ok(2) smove_packet_ok(2)
          smove_packet_ok(1) smove_packet_ok(1) x(1) _ _ y(1)])
      (use dx dy in \<open>simp_all add: t ap\<close>)
  then show ?thesis
    using lsu_run [OF assms(17)] copy_strided [of dst dinc ?k "unat cnt" m src sinc m] n by simp
qed

theorem lsu_strided_copies_witness:
  "\<exists>k s. (lsu_step ^^ k) (lsu_reset (packet_flits (smove_packet core_accel READ_CH 4096 0 8 32 2) @
      packet_flits (smove_packet core_accel WRITE_CH 8192 1 8 8 2)) (\<lambda>a. ucast a)) s \<and> length (l_root_out s) = 1 \<and> l_mem s 8200 = 32"
proof -
  let ?s0 = "lsu_reset (packet_flits (smove_packet core_accel READ_CH 4096 0 8 32 2) @ packet_flits (smove_packet core_accel WRITE_CH 8192 1 8 8 2)) (\<lambda>a. ucast a)"
  have g: "\<not> bit (gfwd_id core_accel) 0"
    by (simp add: core_accel_def)
  note c = lsu_strided_copies [OF refl g, where src = 4096 and dst = 8192 and bsz = 8 and sinc = 32 and dinc = 8 and cnt = 2 and m = "\<lambda>a. ucast a", simplified]
  obtain k s where "(lsu_step ^^ k) ?s0 s" "\<nexists>s'. lsu_step s s'"
    using bounded_run_ends [of lsu_step ?s0] c by blast
  then show ?thesis
    using c by (fastforce simp: store_bytes_apply upt_rec)
qed

section \<open>Where the copies go wrong\<close>

text \<open>A size that is no multiple of eight is passed over: the count of bytes left wraps around, and the unit goes on writing.\<close>

lemma s2mm_overruns: "td_keep x = 0xFF \<Longrightarrow> fst (snd (put_flit x (a, 4, m))) = 0xFFFFFFFC"
  by (simp add: put_flit_kept)

text \<open>A transfer of size zero, or of a multiple of 16 MB, has no transaction, so no response is sent for it.\<close>

lemma empty_transfer: "dm_size x = 0 \<Longrightarrow> dmac_trans x = []"
  by (simp add: dmac_trans_def split_trans.simps)

text \<open>The bit of the status that says that a transfer was completed.\<close>

lemma status_okay: "ds_okay d = bit (DMAS_ui d) 8"
  by (simp add: bit_DMAS_ui)

end
