(* ===== verification/Kvs_Units.thy ===== *)
theory Kvs_Units
  imports Sysc_Fifo Sysc_Port
begin

text \<open>
  Two units of the lookup accelerator: the one that splits a stream (\<^verbatim>\<open>src/ip/sysc/spsel.h\<close>), cycle by cycle, and the one that compares keys with the
  slots of a hash table (\<^verbatim>\<open>src/ip/sysc/indel.h\<close>), as the steps of its thread from one blocking call to the next.
\<close>

section \<open>Splitting a stream\<close>

text \<open>
  Two FIFOs of depth two, each written only when the other one can be written too. Seen from one of the two outputs the unit is a stream unit
  whose input carries, beside the data, the \<^verbatim>\<open>ready\<close> of the other output.
\<close>

record spsel =
  u_slice_d1 :: "AXI_TD sfifo"
  u_slice_d2 :: "AXI_TD sfifo"

definition AXI_TD_0 :: AXI_TD where
  "AXI_TD_0 = \<lparr>td_data = 0, td_id = 0, td_dest = 0, td_keep = 0, td_user = False, td_last = False\<rparr>"

definition spsel_ready :: "spsel \<Rightarrow> bool \<Rightarrow> bool" where
  "spsel_ready s r \<longleftrightarrow> fifo_ready (u_slice_d1 s) r \<and> fifo_ready (u_slice_d2 s) r"

definition spsel_clock :: "spsel \<Rightarrow> bool \<Rightarrow> AXI_TD \<Rightarrow> bool \<Rightarrow> bool \<Rightarrow> spsel" where
  "spsel_clock s v d r1 r2 =
     \<lparr>u_slice_d1 = ms_proc 1 2 AXI_TD_0 False (u_slice_d1 s) (v \<and> fifo_ready (u_slice_d2 s) r2, d, r1),
      u_slice_d2 = ms_proc 1 2 AXI_TD_0 False (u_slice_d2 s) (v \<and> fifo_ready (u_slice_d1 s) r1, d, r2)\<rparr>"

definition spsel_valid1 :: "spsel \<Rightarrow> bool \<Rightarrow> bool" where "spsel_valid1 s v = fifo_valid (u_slice_d1 s) v"
definition spsel_valid2 :: "spsel \<Rightarrow> bool \<Rightarrow> bool" where "spsel_valid2 s v = fifo_valid (u_slice_d2 s) v"
definition spsel_data1 :: "spsel \<Rightarrow> AXI_TD \<times> bool \<Rightarrow> AXI_TD" where "spsel_data1 s x = fifo_data (u_slice_d1 s) (fst x)"
definition spsel_data2 :: "spsel \<Rightarrow> AXI_TD \<times> bool \<Rightarrow> AXI_TD" where "spsel_data2 s x = fifo_data (u_slice_d2 s) (fst x)"

definition spsel_clock1 :: "spsel \<Rightarrow> (AXI_TD \<times> bool) cycle \<Rightarrow> spsel" where
  "spsel_clock1 s i = (case i of (v, (d, r2), r1) \<Rightarrow> spsel_clock s v d r1 r2)"

definition spsel_clock2 :: "spsel \<Rightarrow> (AXI_TD \<times> bool) cycle \<Rightarrow> spsel" where
  "spsel_clock2 s i = (case i of (v, (d, r1), r2) \<Rightarrow> spsel_clock s v d r1 r2)"

definition spsel_inv :: "spsel \<Rightarrow> bool" where
  "spsel_inv s \<longleftrightarrow> fifo_inv 1 2 (u_slice_d1 s) \<and> fifo_inv 1 2 (u_slice_d2 s)"

lemmas spsel_defs = spsel_ready_def spsel_valid1_def spsel_valid2_def spsel_data1_def spsel_data2_def
lemmas spsel_clock_defs = spsel_clock1_def spsel_clock2_def spsel_clock_def

lemma spsel_kept: "spsel_inv s \<Longrightarrow> spsel_inv (spsel_clock s v d r1 r2)"
  by (simp add: spsel_inv_def spsel_clock_def sfifo.kept)

interpretation spsel1: stream_unit spsel_ready spsel_valid1 spsel_data1 spsel_clock1 fst "\<lambda>s. fifo_stored 2 (u_slice_d1 s)" spsel_inv 2
proof
  fix s :: spsel and i :: "(AXI_TD \<times> bool) cycle"
  assume "spsel_inv s"
  then have inv: "fifo_inv 1 2 (u_slice_d1 s)"
    by (simp add: spsel_inv_def)
  obtain v d r2 r1 where i: "i = (v, (d, r2), r1)"
    by (cases i) auto
  show "given spsel_valid1 spsel_data1 s i @ fifo_stored 2 (u_slice_d1 (spsel_clock1 s i)) =
      fifo_stored 2 (u_slice_d1 s) @ map fst (taken spsel_ready s i)"
  proof -
    let ?i = "(v \<and> fifo_ready (u_slice_d2 s) r2, d, r1)"
    have "given fifo_valid fifo_data (u_slice_d1 s) ?i = given spsel_valid1 spsel_data1 s i" "taken fifo_ready (u_slice_d1 s) ?i = map fst (taken spsel_ready s i)"
      by (auto simp: i given_def taken_def spsel_defs fifo_ready_def fifo_valid_def fifo_data_def)
    then show ?thesis
      using sfifo.conserved [OF inv, of ?i AXI_TD_0] by (simp add: i spsel_clock_defs)
  qed
  show "length (fifo_stored 2 (u_slice_d1 s)) \<le> 2"
    by (rule sfifo.bounded [OF inv])
  show "spsel_inv (spsel_clock1 s i)"
    using spsel_kept [OF \<open>spsel_inv s\<close>] by (simp add: i spsel_clock1_def)
qed

interpretation spsel2: stream_unit spsel_ready spsel_valid2 spsel_data2 spsel_clock2 fst "\<lambda>s. fifo_stored 2 (u_slice_d2 s)" spsel_inv 2
proof
  fix s :: spsel and i :: "(AXI_TD \<times> bool) cycle"
  assume "spsel_inv s"
  then have inv: "fifo_inv 1 2 (u_slice_d2 s)"
    by (simp add: spsel_inv_def)
  obtain v d r2 r1 where i: "i = (v, (d, r1), r2)"
    by (cases i) auto
  show "given spsel_valid2 spsel_data2 s i @ fifo_stored 2 (u_slice_d2 (spsel_clock2 s i)) =
      fifo_stored 2 (u_slice_d2 s) @ map fst (taken spsel_ready s i)"
  proof -
    let ?i = "(v \<and> fifo_ready (u_slice_d1 s) r1, d, r2)"
    have "given fifo_valid fifo_data (u_slice_d2 s) ?i = given spsel_valid2 spsel_data2 s i" "taken fifo_ready (u_slice_d2 s) ?i = map fst (taken spsel_ready s i)"
      by (auto simp: i given_def taken_def spsel_defs fifo_ready_def fifo_valid_def fifo_data_def)
    then show ?thesis
      using sfifo.conserved [OF inv, of ?i AXI_TD_0] by (simp add: i spsel_clock_defs)
  qed
  show "length (fifo_stored 2 (u_slice_d2 s)) \<le> 2"
    by (rule sfifo.bounded [OF inv])
  show "spsel_inv (spsel_clock2 s i)"
    using spsel_kept [OF \<open>spsel_inv s\<close>] by (simp add: i spsel_clock2_def)
qed

text \<open>The same cycle seen from the other output.\<close>

definition other :: "(AXI_TD \<times> bool) cycle \<Rightarrow> (AXI_TD \<times> bool) cycle" where
  "other i = (case i of (v, (d, r2), r1) \<Rightarrow> (v, (d, r1), r2))"

lemma spsel_taken_other:
  "map fst (trace_of spsel_clock2 (taken spsel_ready) s (map other is)) = map fst (trace_of spsel_clock1 (taken spsel_ready) s is)"
proof (induction "is" arbitrary: s)
  case (Cons i "is")
  obtain v d r2 r1 where i: "i = (v, (d, r2), r1)"
    by (cases i) auto
  then show ?case
    using Cons by (simp add: other_def spsel_clock1_def spsel_clock2_def taken_def spsel_ready_def fifo_ready_def)
qed simp

text \<open>C37: The split unit gives on both of its outputs the stream it takes, in order and complete but for at most two values still
  inside, whatever the two readers do.\<close>

theorem spsel_copies:
  assumes "spsel_inv s" "fifo_stored 2 (u_slice_d1 s) = []" "fifo_stored 2 (u_slice_d2 s) = []"
  shows "\<exists>rest1 rest2. length rest1 \<le> 2 \<and> length rest2 \<le> 2 \<and>
    trace_of spsel_clock1 (given spsel_valid1 spsel_data1) s is @ rest1 = map fst (trace_of spsel_clock1 (taken spsel_ready) s is) \<and>
    trace_of spsel_clock2 (given spsel_valid2 spsel_data2) s (map other is) @ rest2 = map fst (trace_of spsel_clock1 (taken spsel_ready) s is)"
  using spsel1.in_order [OF assms(1), of "is"] spsel2.in_order [OF assms(1), of "map other is"] assms(2,3)
    spsel1.never_full [OF assms(1), of "is"] spsel2.never_full [OF assms(1), of "map other is"]
  unfolding spsel_taken_other by fastforce

definition spsel_reset :: spsel where
  "spsel_reset = (let q = \<lparr>fdata = [AXI_TD_0, AXI_TD_0], rd_idx = 0, wr_idx = 0, full_i = False, empty_i = True\<rparr> in \<lparr>u_slice_d1 = q, u_slice_d2 = q\<rparr>)"

theorem spsel_copies_witness:
  "\<exists>rest2. length rest2 \<le> 2 \<and> trace_of spsel_clock2 (given spsel_valid2 spsel_data2) spsel_reset
     (map other [(True, (AXI_TD_0\<lparr>td_data := 5\<rparr>, True), False), (False, (AXI_TD_0, True), True)]) @ rest2 = [AXI_TD_0\<lparr>td_data := 5\<rparr>]"
proof -
  let ?is = "[(True, (AXI_TD_0\<lparr>td_data := 5\<rparr>, True), False), (False, (AXI_TD_0, True), True)]"
  have i: "spsel_inv spsel_reset" "fifo_stored 2 (u_slice_d1 spsel_reset) = []" "fifo_stored 2 (u_slice_d2 spsel_reset) = []"
    by (simp_all add: spsel_reset_def Let_def spsel_inv_def fifo_inv_def fifo_stored_def fifo_count_def)
  have "map fst (trace_of spsel_clock1 (taken spsel_ready) spsel_reset ?is) = [AXI_TD_0\<lparr>td_data := 5\<rparr>]"
    by (simp add: taken_def spsel_ready_def spsel_reset_def Let_def fifo_ready_def)
  then show ?thesis
    using spsel_copies [OF i, of ?is] by auto
qed

section \<open>Comparing keys with slots\<close>

record slot_s =
  slot_key :: u64
  slot_value :: u32
  slot_probes :: u32

text \<open>
  The thread \<^verbatim>\<open>ct_indel_in\<close>. \<open>id_cur\<close> is the key it works on, the probe length read with it, the loop counter and \<^verbatim>\<open>found\<close>; \<open>id_half\<close> is
  the key of the slot whose second word it is waiting for; \<open>id_out\<close> is the flit it is writing.
\<close>

record indel =
  id_reg :: "u32 list"
  id_cur :: "(u64 \<times> nat \<times> nat \<times> bool) option"
  id_half :: "u64 list"
  id_out :: "AXI_TD list"

definition id_plen :: "u32 list \<Rightarrow> nat" where
  "id_plen reg = unat (ucast (reg ! 1) :: 10 word)"

definition id_flit :: "u32 \<Rightarrow> AXI_TD" where
  "id_flit v = \<lparr>td_data = ucast v, td_id = 0, td_dest = 0, td_keep = 0xF, td_user = False, td_last = True\<rparr>"

definition slot_of :: "u64 \<Rightarrow> u64 \<Rightarrow> slot_s" where
  "slot_of a b = \<lparr>slot_key = a, slot_value = ucast b, slot_probes = ucast (drop_bit 32 b)\<rparr>"

definition indel_key :: "AXI_TD \<Rightarrow> indel \<Rightarrow> indel option" where
  "indel_key x s =
     (if id_cur s = None \<and> id_out s = [] then Some (s\<lparr>id_cur := Some (td_data x, id_plen (id_reg s), 0, False)\<rparr>) else None)"

definition indel_data :: "AXI_TD \<Rightarrow> indel \<Rightarrow> indel option" where
  "indel_data x s =
     (case id_cur s of
        None \<Rightarrow> None
      | Some (key, plen, i, found) \<Rightarrow>
          if id_out s \<noteq> [] then None
          else (case id_half s of
                  [] \<Rightarrow> Some (s\<lparr>id_half := [td_data x]\<rparr>)
                | k # ks \<Rightarrow>
                    (let slot = slot_of k (td_data x);
                         hit = (\<not> found \<and> slot_probes slot \<noteq> 0 \<and> slot_key slot = key)
                     in Some (s\<lparr>id_half := ks,
                          id_cur := (if i < plen then Some (key, plen, i + 1, found \<or> hit) else None),
                          id_out := (if hit then [id_flit (slot_value slot)]
                                     else if i = plen \<and> \<not> found then [id_flit 0] else [])\<rparr>))))"

definition indel_out :: "indel \<Rightarrow> (AXI_TD \<times> indel) option" where
  "indel_out s = (case id_out s of [] \<Rightarrow> None | x # xs \<Rightarrow> Some (x, s\<lparr>id_out := xs\<rparr>))"

definition indel_reset :: "u32 list \<Rightarrow> indel" where
  "indel_reset reg = \<lparr>id_reg = reg, id_cur = None, id_half = [], id_out = []\<rparr>"

text \<open>What the unit is for: the value of the first used slot with the key.\<close>

definition slot_find :: "u64 \<Rightarrow> slot_s list \<Rightarrow> u32" where
  "slot_find key ss = (case find (\<lambda>s. slot_probes s \<noteq> 0 \<and> slot_key s = key) ss of None \<Rightarrow> 0 | Some s \<Rightarrow> slot_value s)"

fun slots :: "u64 list \<Rightarrow> slot_s list" where
  "slots (a # b # ws) = slot_of a b # slots ws"
| "slots ws = []"

fun id_values :: "nat \<Rightarrow> u64 list \<Rightarrow> u64 list \<Rightarrow> u32 list" where
  "id_values n [] ws = []"
| "id_values n (k # ks) ws = slot_find k (slots (take (2 * n) ws)) # id_values n ks (drop (2 * n) ws)"

text \<open>The words the current key still needs, and the flits still to come when the keys \<open>ks\<close> and the words \<open>ws\<close> arrive.\<close>

definition id_need :: "indel \<Rightarrow> nat" where
  "id_need s = (case id_cur s of None \<Rightarrow> 0 | Some (key, plen, i, found) \<Rightarrow> 2 * (plen + 1 - i) - length (id_half s))"

definition id_rest :: "indel \<Rightarrow> u64 list \<Rightarrow> u64 list \<Rightarrow> AXI_TD list" where
  "id_rest s ks ws = id_out s @
     (case id_cur s of
        None \<Rightarrow> []
      | Some (key, plen, i, found) \<Rightarrow> if found then [] else [id_flit (slot_find key (slots (id_half s @ take (id_need s) ws)))]) @
     map id_flit (id_values (id_plen (id_reg s) + 1) ks (drop (id_need s) ws))"

definition id_wf :: "indel \<Rightarrow> bool" where
  "id_wf s \<longleftrightarrow> length (id_half s) \<le> 1 \<and>
     (case id_cur s of None \<Rightarrow> id_half s = [] | Some (key, plen, i, found) \<Rightarrow> plen = id_plen (id_reg s) \<and> i \<le> plen)"

lemma indel_key_rest:
  assumes "indel_key x s = Some s'" "id_wf s"
  shows "id_wf s' \<and> id_reg s' = id_reg s \<and> id_rest s' ks ws = id_rest s (td_data x # ks) ws \<and> id_need s' = id_need s + 2 * (id_plen (id_reg s) + 1)"
  using assms by (auto simp: indel_key_def id_wf_def id_rest_def id_need_def split: if_splits)

lemma slot_find_Cons:
  "slot_find key (s # ss) = (if slot_probes s \<noteq> 0 \<and> slot_key s = key then slot_value s else slot_find key ss)"
  by (simp add: slot_find_def)

lemma indel_data_rest:
  assumes "indel_data x s = Some s'" "id_wf s"
  shows "id_wf s' \<and> id_reg s' = id_reg s \<and> id_rest s' ks ws = id_rest s ks (td_data x # ws) \<and> id_need s = Suc (id_need s')"
proof -
  obtain key plen i found where c: "id_cur s = Some (key, plen, i, found)" "id_out s = []" "plen = id_plen (id_reg s)" "i \<le> plen"
    using assms by (auto simp: indel_data_def id_wf_def split: option.splits if_splits)
  show ?thesis
  proof (cases "id_half s")
    case Nil
    have "2 * (plen + 1 - i) = Suc (2 * (plen - i) + 1)"
      using c(4) by simp
    then show ?thesis
      using assms c Nil by (auto simp: indel_data_def id_wf_def id_rest_def id_need_def)
  next
    case (Cons k ks')
    have "2 * (plen + 1 - i) - 1 = Suc (2 * (plen - i))" "i < plen \<Longrightarrow> 2 * (plen - i) = 2 * (plen + 1 - (i + 1))"
      using c(4) by simp_all
    then show ?thesis
      using assms c Cons
      by (cases "i < plen") (auto simp: indel_data_def id_wf_def id_rest_def id_need_def Let_def slot_find_Cons slot_find_def)
  qed
qed

lemma indel_out_rest: "indel_out s = Some (x, s') \<Longrightarrow> id_wf s' = id_wf s \<and> id_reg s' = id_reg s \<and> id_rest s ks ws = x # id_rest s' ks ws \<and> id_need s' = id_need s"
  by (cases "id_cur s") (auto simp: indel_out_def id_rest_def id_wf_def id_need_def split: list.splits)

end
