(* ===== verification/Cswitch.thy ===== *)
theory Cswitch
  imports Lsu_Runs "HOL-Library.Sublist"
begin

text \<open>
  The control switch of the simulated accelerator (\<^verbatim>\<open>cswitch\<close> of \<^verbatim>\<open>src/ip/sysc/cswitch.h\<close>): \<open>N\<close> demultiplexers and
  \<open>N\<close> multiplexers, connected each with each. A demultiplexer reads a flit and holds it until the multiplexer it is for takes it;
  a multiplexer takes the flit of the lowest port that has one for it, holds it and writes it to a queue.
\<close>

section \<open>The switch\<close>

text \<open>The port a flit is sent to.\<close>

definition csw_port :: "nat \<Rightarrow> 4 word \<Rightarrow> nat" where
  "csw_port N dest = (if N = 2 then unat dest AND (N - 1) else drop_bit 1 (unat dest) AND (N - 1))"

text \<open>\<open>sw_hold\<close> are the flits in the demultiplexers, \<open>sw_mux\<close> those in the multiplexers, \<open>sw_queue\<close> the queues behind them. A flit that
  has passed the crossbar carries the port it came from, which the switch does not look at: it is there to state
  what comes from where.\<close>

record cswitch =
  sw_hold :: "nat \<Rightarrow> AXI_TC list"
  sw_mux :: "nat \<Rightarrow> (nat \<times> AXI_TC) list"
  sw_queue :: "nat \<Rightarrow> (nat \<times> AXI_TC) list"

definition sw_demux :: "nat \<Rightarrow> AXI_TC \<Rightarrow> cswitch \<Rightarrow> cswitch option" where
  "sw_demux i x s = (if sw_hold s i = [] then Some (s\<lparr>sw_hold := (sw_hold s)(i := [x])\<rparr>) else None)"

definition xbar_valid :: "nat \<Rightarrow> cswitch \<Rightarrow> nat \<Rightarrow> nat \<Rightarrow> bool" where
  "xbar_valid N s i j \<longleftrightarrow> (case sw_hold s i of [] \<Rightarrow> False | x # xs \<Rightarrow> csw_port N (tc_dest x) = j)"

definition sw_mux_take :: "nat \<Rightarrow> nat \<Rightarrow> cswitch \<Rightarrow> cswitch option" where
  "sw_mux_take N j s =
     (if sw_mux s j \<noteq> [] then None
      else map_option (\<lambda>i. s\<lparr>sw_hold := (sw_hold s)(i := tl (sw_hold s i)), sw_mux := (sw_mux s)(j := [(i, hd (sw_hold s i))])\<rparr>)
             (find (\<lambda>i. xbar_valid N s i j) [0..<N]))"

definition sw_mux_put :: "nat \<Rightarrow> cswitch \<Rightarrow> cswitch option" where
  "sw_mux_put j s =
     (case sw_mux s j of
        [] \<Rightarrow> None
      | x # xs \<Rightarrow>
          if length (sw_queue s j) < QDEPTH then Some (s\<lparr>sw_mux := (sw_mux s)(j := xs), sw_queue := (sw_queue s)(j := sw_queue s j @ [x])\<rparr>)
          else None)"

definition sw_out :: "nat \<Rightarrow> cswitch \<Rightarrow> ((nat \<times> AXI_TC) \<times> cswitch) option" where
  "sw_out j s = (case sw_queue s j of [] \<Rightarrow> None | x # xs \<Rightarrow> Some (x, s\<lparr>sw_queue := (sw_queue s)(j := xs)\<rparr>))"

definition cswitch_reset :: cswitch where
  "cswitch_reset = \<lparr>sw_hold = (\<lambda>i. []), sw_mux = (\<lambda>j. []), sw_queue = (\<lambda>j. [])\<rparr>"

lemma csw_port_less: "0 < N \<Longrightarrow> csw_port N dest < N"
proof -
  assume N: "0 < N"
  have "int a AND int (N - 1) \<le> int (N - 1)" for a
    by (rule AND_upper2) simp
  then have "a AND (N - 1) < N" for a :: nat
    using N by (metis of_nat_and_eq of_nat_le_iff One_nat_def Suc_pred less_Suc_eq_le)
  then show ?thesis
    by (simp only: csw_port_def split: if_split) blast
qed

section \<open>The flits on the way from one port to another\<close>

definition sent_by :: "nat \<Rightarrow> (nat \<times> AXI_TC) list \<Rightarrow> AXI_TC list" where
  "sent_by i xs = map snd (filter (\<lambda>p. fst p = i) xs)"

lemma sent_by_simps [simp]:
  "sent_by i [] = []" "sent_by i (p # xs) = (if fst p = i then [snd p] else []) @ sent_by i xs" "sent_by i (xs @ ys) = sent_by i xs @ sent_by i ys"
  by (simp_all add: sent_by_def)

definition bound_for :: "nat \<Rightarrow> nat \<Rightarrow> AXI_TC list \<Rightarrow> AXI_TC list" where
  "bound_for N j xs = filter (\<lambda>x. csw_port N (tc_dest x) = j) xs"

lemma bound_for_simps [simp]:
  "bound_for N j [] = []" "bound_for N j (x # xs) = (if csw_port N (tc_dest x) = j then [x] else []) @ bound_for N j xs"
  "bound_for N j (xs @ ys) = bound_for N j xs @ bound_for N j ys"
  by (simp_all add: bound_for_def)

definition sw_path :: "nat \<Rightarrow> nat \<Rightarrow> nat \<Rightarrow> cswitch \<Rightarrow> AXI_TC list" where
  "sw_path N i j s = sent_by i (sw_queue s j @ sw_mux s j) @ bound_for N j (sw_hold s i)"

text \<open>The threads hold one flit at most, and the queues have room for \<^const>\<open>QDEPTH\<close>.\<close>

definition sw_wf :: "cswitch \<Rightarrow> bool" where
  "sw_wf s \<longleftrightarrow> (\<forall>i. length (sw_hold s i) \<le> 1) \<and> (\<forall>j. length (sw_mux s j) \<le> 1 \<and> length (sw_queue s j) \<le> QDEPTH)"

lemma sw_demux_path:
  assumes "sw_demux i x s = Some s'"
  shows "sw_path N i' j s' = sw_path N i' j s @ (if i' = i then bound_for N j [x] else [])"
  using assms by (auto simp: sw_demux_def sw_path_def split: if_splits)

lemma xbar_validD: "xbar_valid N s i j \<Longrightarrow> \<exists>x xs. sw_hold s i = x # xs \<and> csw_port N (tc_dest x) = j"
  by (auto simp: xbar_valid_def split: list.splits)

lemma sw_mux_takeD:
  assumes "sw_mux_take N j s = Some s'"
  shows "\<exists>i x xs. i < N \<and> sw_hold s i = x # xs \<and> csw_port N (tc_dest x) = j \<and> sw_mux s j = [] \<and>
    s' = s\<lparr>sw_hold := (sw_hold s)(i := xs), sw_mux := (sw_mux s)(j := [(i, x)])\<rparr>"
proof -
  obtain i where i: "find (\<lambda>i. xbar_valid N s i j) [0..<N] = Some i" "sw_mux s j = []"
    and s': "s' = s\<lparr>sw_hold := (sw_hold s)(i := tl (sw_hold s i)), sw_mux := (sw_mux s)(j := [(i, hd (sw_hold s i))])\<rparr>"
    using assms by (auto simp: sw_mux_take_def split: if_splits)
  have "i < N" "xbar_valid N s i j"
    using i(1) by (auto simp: find_Some_iff)
  then show ?thesis
    using i(2) s' xbar_validD by fastforce
qed

lemma sw_mux_take_path:
  assumes "sw_mux_take N j s = Some s'"
  shows "sw_path N i' j' s' = sw_path N i' j' s"
proof -
  obtain i x xs where i: "sw_hold s i = x # xs" "csw_port N (tc_dest x) = j" "sw_mux s j = []"
    and s': "s' = s\<lparr>sw_hold := (sw_hold s)(i := xs), sw_mux := (sw_mux s)(j := [(i, x)])\<rparr>"
    using sw_mux_takeD [OF assms] by blast
  then show ?thesis
    by (auto simp: sw_path_def)
qed

lemma sw_mux_put_path: "sw_mux_put j s = Some s' \<Longrightarrow> sw_path N i' j' s' = sw_path N i' j' s"
  unfolding sw_mux_put_def sw_path_def by (auto split: list.splits if_splits)

lemma sw_out_path: "sw_out j s = Some (p, s') \<Longrightarrow> sw_path N i' j' s = (if j' = j \<and> fst p = i' then [snd p] else []) @ sw_path N i' j' s'"
  unfolding sw_out_def sw_path_def by (auto split: list.splits if_splits)

lemma length_tail_le: "xs = y # ys \<Longrightarrow> length xs \<le> n \<Longrightarrow> length ys \<le> n"
  by simp

lemma sw_wf_step:
  "sw_demux i x s = Some s' \<Longrightarrow> sw_wf s \<Longrightarrow> sw_wf s'" "sw_mux_take N j s = Some s' \<Longrightarrow> sw_wf s \<Longrightarrow> sw_wf s'"
  "sw_mux_put j s = Some s' \<Longrightarrow> sw_wf s \<Longrightarrow> sw_wf s'" "sw_out j s = Some (p, s') \<Longrightarrow> sw_wf s \<Longrightarrow> sw_wf s'"
proof -
  show "sw_demux i x s = Some s' \<Longrightarrow> sw_wf s \<Longrightarrow> sw_wf s'"
    by (auto simp: sw_demux_def sw_wf_def split: if_splits)
  show "sw_mux_take N j s = Some s' \<Longrightarrow> sw_wf s \<Longrightarrow> sw_wf s'"
    using sw_mux_takeD [of N j s s'] by (auto simp: sw_wf_def) (metis length_tail_le)
  show "sw_mux_put j s = Some s' \<Longrightarrow> sw_wf s \<Longrightarrow> sw_wf s'" "sw_out j s = Some (p, s') \<Longrightarrow> sw_wf s \<Longrightarrow> sw_wf s'"
    by (auto simp: sw_mux_put_def sw_out_def sw_wf_def Suc_leI split: list.splits if_splits) (metis length_tail_le)+
qed

section \<open>The switch and the units around it\<close>

text \<open>\<open>x_in\<close> are the flits the units will send, \<open>x_out\<close> those they have got.\<close>

record xnet =
  x_in :: "nat \<Rightarrow> AXI_TC list"
  x_sw :: cswitch
  x_out :: "nat \<Rightarrow> (nat \<times> AXI_TC) list"

datatype xnet_thread = Send nat | Take nat | Put nat | Receive nat

fun xnet_exec :: "nat \<Rightarrow> xnet_thread \<Rightarrow> xnet \<Rightarrow> xnet option" where
  "xnet_exec N (Send i) s =
     (case x_in s i of
        [] \<Rightarrow> None
      | x # xs \<Rightarrow> if i < N then map_option (\<lambda>w. s\<lparr>x_in := (x_in s)(i := xs), x_sw := w\<rparr>) (sw_demux i x (x_sw s)) else None)"
| "xnet_exec N (Take j) s = (if j < N then map_option (\<lambda>w. s\<lparr>x_sw := w\<rparr>) (sw_mux_take N j (x_sw s)) else None)"
| "xnet_exec N (Put j) s = (if j < N then map_option (\<lambda>w. s\<lparr>x_sw := w\<rparr>) (sw_mux_put j (x_sw s)) else None)"
| "xnet_exec N (Receive j) s =
     (if j < N then map_option (\<lambda>(p, w). s\<lparr>x_sw := w, x_out := (x_out s)(j := x_out s j @ [p])\<rparr>) (sw_out j (x_sw s)) else None)"

inductive xnet_step :: "nat \<Rightarrow> xnet \<Rightarrow> xnet \<Rightarrow> bool" for N where
  thread: "xnet_exec N t s = Some s' \<Longrightarrow> xnet_step N s s'"

inductive_cases xnet_stepE: "xnet_step N s s'"

definition x_path :: "nat \<Rightarrow> nat \<Rightarrow> nat \<Rightarrow> xnet \<Rightarrow> AXI_TC list" where
  "x_path N i j s = sent_by i (x_out s j) @ sw_path N i j (x_sw s) @ bound_for N j (x_in s i)"

definition flits_in :: "nat \<Rightarrow> (nat \<Rightarrow> 'a list) \<Rightarrow> nat" where
  "flits_in N f = (\<Sum>i<N. length (f i))"

lemma flits_in_upd: "k < N \<Longrightarrow> flits_in N (f(k := xs)) + length (f k) = flits_in N f + length xs"
proof -
  assume "k < N"
  then have "flits_in N g = length (g k) + (\<Sum>i\<in>{..<N} - {k}. length (g i))" for g :: "nat \<Rightarrow> 'a list"
    unfolding flits_in_def by (intro sum.remove) auto
  moreover have "(\<Sum>i\<in>{..<N} - {k}. length ((f(k := xs)) i)) = (\<Sum>i\<in>{..<N} - {k}. length (f i))"
    by (rule sum.cong) auto
  ultimately show ?thesis
    by simp
qed

definition x_work :: "nat \<Rightarrow> xnet \<Rightarrow> nat" where
  "x_work N s = 4 * flits_in N (x_in s) + 3 * flits_in N (sw_hold (x_sw s)) + 2 * flits_in N (sw_mux (x_sw s)) + flits_in N (sw_queue (x_sw s))"

lemma xnet_exec_path: "xnet_exec N t s = Some s' \<Longrightarrow> x_path N i j s' = x_path N i j s"
  by (cases t) (auto simp: x_path_def sw_demux_path sw_mux_take_path sw_mux_put_path sw_out_path split: list.splits if_splits)

lemma xnet_exec_wf: "xnet_exec N t s = Some s' \<Longrightarrow> sw_wf (x_sw s) \<Longrightarrow> sw_wf (x_sw s')"
  by (cases t) (auto intro: sw_wf_step split: list.splits if_splits)

lemma xnet_exec_work:
  assumes "xnet_exec N t s = Some s'"
  shows "x_work N s' < x_work N s"
proof (cases t)
  case (Send i)
  then obtain x xs where "x_in s i = x # xs" "i < N" "sw_hold (x_sw s) i = []"
    "s' = s\<lparr>x_in := (x_in s)(i := xs), x_sw := (x_sw s)\<lparr>sw_hold := (sw_hold (x_sw s))(i := [x])\<rparr>\<rparr>"
    using assms by (auto simp: sw_demux_def split: list.splits if_splits)
  then show ?thesis
    using flits_in_upd [of i N "x_in s" xs] flits_in_upd [of i N "sw_hold (x_sw s)" "[x]"] by (simp add: x_work_def)
next
  case (Take j)
  then obtain w where j: "j < N" "sw_mux_take N j (x_sw s) = Some w" "s' = s\<lparr>x_sw := w\<rparr>"
    using assms by (auto split: if_splits)
  then obtain i x xs where "i < N" "sw_hold (x_sw s) i = x # xs" "sw_mux (x_sw s) j = []"
    "w = (x_sw s)\<lparr>sw_hold := (sw_hold (x_sw s))(i := xs), sw_mux := (sw_mux (x_sw s))(j := [(i, x)])\<rparr>"
    using sw_mux_takeD by blast
  then show ?thesis
    using j flits_in_upd [of i N "sw_hold (x_sw s)" xs] flits_in_upd [of j N "sw_mux (x_sw s)" "[(i, x)]"] by (simp add: x_work_def)
next
  case (Put j)
  then obtain p ps where "j < N" "sw_mux (x_sw s) j = p # ps"
    "s' = s\<lparr>x_sw := (x_sw s)\<lparr>sw_mux := (sw_mux (x_sw s))(j := ps), sw_queue := (sw_queue (x_sw s))(j := sw_queue (x_sw s) j @ [p])\<rparr>\<rparr>"
    using assms by (auto simp: sw_mux_put_def split: list.splits if_splits)
  then show ?thesis
    using flits_in_upd [of j N "sw_mux (x_sw s)" ps] flits_in_upd [of j N "sw_queue (x_sw s)" "sw_queue (x_sw s) j @ [p]"] by (simp add: x_work_def)
next
  case (Receive j)
  then obtain p ps where "j < N" "sw_queue (x_sw s) j = p # ps"
    "s' = s\<lparr>x_sw := (x_sw s)\<lparr>sw_queue := (sw_queue (x_sw s))(j := ps)\<rparr>, x_out := (x_out s)(j := x_out s j @ [p])\<rparr>"
    using assms by (auto simp: sw_out_def split: list.splits if_splits)
  then show ?thesis
    using flits_in_upd [of j N "sw_queue (x_sw s)" ps] by (simp add: x_work_def)
qed

interpretation xnet: worked "xnet_step N" "\<lambda>s. sw_wf (x_sw s) \<and> (\<forall>i j. x_path N i j s = r i j)" "x_work N" for N r
  by unfold_locales (auto elim!: xnet_stepE dest: xnet_exec_wf xnet_exec_path xnet_exec_work)

text \<open>A switch that cannot go on is empty.\<close>

lemma sw_mux_take_None: "sw_mux_take N j s = None \<Longrightarrow> sw_mux s j = [] \<Longrightarrow> i < N \<Longrightarrow> \<not> xbar_valid N s i j"
  by (auto simp: sw_mux_take_def find_None_iff split: if_splits)

lemma xnet_stuck:
  assumes "\<nexists>s'. xnet_step N s s'" "0 < N"
  shows "i < N \<Longrightarrow> x_in s i = [] \<and> sw_hold (x_sw s) i = [] \<and> sw_mux (x_sw s) i = [] \<and> sw_queue (x_sw s) i = []"
proof -
  have none: "xnet_exec N t s = None" for t
    using assms(1) by (cases "xnet_exec N t s") (auto intro: xnet_step.thread)
  have q: "sw_queue (x_sw s) j = []" if "j < N" for j
    using none [of "Receive j"] that by (auto simp: sw_out_def split: list.splits)
  then have m: "sw_mux (x_sw s) j = []" if "j < N" for j
    using none [of "Put j"] that by (auto simp: sw_mux_put_def QDEPTH_def split: list.splits)
  have h: "sw_hold (x_sw s) i = []" if i: "i < N" for i
  proof (rule ccontr)
    assume "sw_hold (x_sw s) i \<noteq> []"
    then obtain x xs where x: "sw_hold (x_sw s) i = x # xs"
      by (cases "sw_hold (x_sw s) i") auto
    let ?j = "csw_port N (tc_dest x)"
    have "\<not> xbar_valid N (x_sw s) i ?j"
      using none [of "Take ?j"] m csw_port_less [OF assms(2)] i by (intro sw_mux_take_None) auto
    then show False
      by (simp add: xbar_valid_def x)
  qed
  show "i < N \<Longrightarrow> x_in s i = [] \<and> sw_hold (x_sw s) i = [] \<and> sw_mux (x_sw s) i = [] \<and> sw_queue (x_sw s) i = []"
    using none [of "Send i"] q m h by (auto simp: sw_demux_def split: list.splits if_splits)
qed

text \<open>C17: Whatever the order in which the threads of the control switch run, the flits one port sends to another arrive there in
  order, none lost or doubled and none at a wrong port; no queue holds more than \<^const>\<open>QDEPTH\<close> flits; every run is finite, and when nothing can
  move any more all flits have arrived.\<close>

theorem cswitch_delivers:
  assumes "0 < N" "s0 = \<lparr>x_in = flits, x_sw = cswitch_reset, x_out = (\<lambda>j. [])\<rparr>" "(xnet_step N ^^ k) s0 s"
  shows "sw_wf (x_sw s) \<and> k \<le> 4 * (\<Sum>i<N. length (flits i)) \<and> prefix (sent_by i (x_out s j)) (bound_for N j (flits i)) \<and>
    ((\<nexists>s'. xnet_step N s s') \<longrightarrow> i < N \<longrightarrow> j < N \<longrightarrow> sent_by i (x_out s j) = bound_for N j (flits i))"
proof -
  have p0: "x_path N i j s0 = bound_for N j (flits i)" for i j
    by (simp add: assms(2) x_path_def sw_path_def cswitch_reset_def)
  have w0: "sw_wf (x_sw s0)" "x_work N s0 = 4 * (\<Sum>i<N. length (flits i))"
    by (simp_all add: assms(2) sw_wf_def x_work_def flits_in_def cswitch_reset_def)
  have "(sw_wf (x_sw s) \<and> (\<forall>i j. x_path N i j s = bound_for N j (flits i))) \<and> k + x_work N s \<le> x_work N s0"
    using w0(1) by (intro xnet.run [OF assms(3)]) (simp add: p0)
  then have r: "sw_wf (x_sw s)" "x_path N i j s = bound_for N j (flits i)" "k \<le> 4 * (\<Sum>i<N. length (flits i))" for i j
    using w0(2) by simp_all
  moreover have "prefix (sent_by i (x_out s j)) (bound_for N j (flits i))"
    using r(2) [of i j] unfolding x_path_def prefix_def by metis
  moreover have "sent_by i (x_out s j) = bound_for N j (flits i)" if "\<nexists>s'. xnet_step N s s'" "i < N" "j < N"
    using r(2) [of i j] xnet_stuck [OF that(1) assms(1) that(2)] xnet_stuck [OF that(1) assms(1) that(3)]
    by (simp add: x_path_def sw_path_def)
  ultimately show ?thesis
    by blast
qed

text \<open>Two units of the lookup accelerator, the processor at port 0 and the hash unit at port 4, send to the load-store unit at port 5.\<close>

theorem cswitch_delivers_witness:
  "let f = (\<lambda>i d. \<lparr>tc_data = d, tc_id = i, tc_dest = 10, tc_user = RACC_0, tc_last = True\<rparr>);
       s0 = \<lparr>x_in = (\<lambda>i. if i = 0 then [f 0 7] else if i = 4 then [f 4 1, f 4 2] else []), x_sw = cswitch_reset, x_out = (\<lambda>j. [])\<rparr>
   in \<exists>k s. (xnet_step 8 ^^ k) s0 s \<and> sent_by 4 (x_out s 5) = [f 4 1, f 4 2] \<and> sent_by 0 (x_out s 5) = [f 0 7]"
proof -
  define f where "f = (\<lambda>i d. \<lparr>tc_data = d, tc_id = i, tc_dest = 10, tc_user = RACC_0, tc_last = True\<rparr>)"
  define fl where "fl = (\<lambda>i :: nat. if i = 0 then [f 0 7] else if i = 4 then [f 4 1, f 4 2] else [])"
  let ?s0 = "\<lparr>x_in = fl, x_sw = cswitch_reset, x_out = (\<lambda>j. [])\<rparr>"
  have p: "csw_port 8 (tc_dest (f i d)) = 5" for i d
    by (simp add: csw_port_def f_def)
  note c = cswitch_delivers [of 8 ?s0 fl, OF _ refl]
  obtain k s where k: "(xnet_step 8 ^^ k) ?s0 s" "\<nexists>s'. xnet_step 8 s s'"
    using bounded_run_ends [of "xnet_step 8" ?s0 "4 * (\<Sum>i<8. length (fl i))"] c by auto
  have "sent_by i (x_out s 5) = bound_for 8 5 (fl i)" if "i < 8" for i
    using c [OF _ k(1), of i 5] k(2) that by simp
  then have "sent_by 4 (x_out s 5) = [f 4 1, f 4 2]" "sent_by 0 (x_out s 5) = [f 0 7]"
    by (simp_all add: fl_def p)
  then show ?thesis
    using k(1) unfolding Let_def f_def fl_def by blast
qed

end
