(* ===== verification/Kvs.thy ===== *)
theory Kvs
  imports Kvs_Units Cswitch Hash_Unit Lsu_Copy
begin

text \<open>
  The lookup accelerator (\<^verbatim>\<open>src/ip/sysc/kvs.h\<close>) with its registers set: load-store unit 1 reads keys from memory, the split unit gives
  them to the queue of the comparing unit and to the hash unit, the hash unit sends an index for each key through the control switch to
  load-store unit 2, which reads slots of the table from memory, and the comparing unit gives a value for each key.
\<close>

section \<open>The accelerator\<close>

text \<open>
  \<open>k_d1\<close> and \<open>k_d2\<close> are the FIFOs of the split unit, \<open>k_que\<close> is the queue of keys. Of the hash unit there are the pipeline, its registers, the response
  FIFO \<open>k_arsp\<close>, and of the thread \<^verbatim>\<open>ctlreg::ct_response\<close> the response it is sending and the flit it is writing. The thread reads a
  response and the register for its first flit at the same clock edge, and a register for a further flit at the edge that takes the flit
  before. \<open>k_out\<close> are the values the reader of the accelerator has got.
\<close>

record kvs =
  k_lsu1 :: lsu
  k_d1 :: "AXI_TD list"
  k_d2 :: "AXI_TD list"
  k_que :: "AXI_TD list"
  k_hash :: short_hash
  k_hreg :: regs
  k_arsp :: "ACMD list"
  k_send :: "ACMD option"
  k_hout :: "AXI_TC list"
  k_sw :: cswitch
  k_lsu2 :: lsu
  k_idu :: indel
  k_out :: "AXI_TD list"

definition QUE0_DEPTH :: nat where "QUE0_DEPTH = 256"
definition HSU_PORT :: nat where "HSU_PORT = 4"
definition LSU2_PORT :: nat where "LSU2_PORT = 5"

text \<open>The split unit takes a flit from load-store unit 1 when both of its FIFOs have room.\<close>

definition kvs_split :: "kvs \<Rightarrow> kvs option" where
  "kvs_split k =
     (case l_dout (k_lsu1 k) of
        [] \<Rightarrow> None
      | x # xs \<Rightarrow>
          if length (k_d1 k) < 2 \<and> length (k_d2 k) < 2
          then Some (k\<lparr>k_lsu1 := (k_lsu1 k)\<lparr>l_dout := xs\<rparr>, k_d1 := k_d1 k @ [x], k_d2 := k_d2 k @ [x]\<rparr>) else None)"

definition kvs_queue :: "kvs \<Rightarrow> kvs option" where
  "kvs_queue k =
     (case k_d1 k of
        [] \<Rightarrow> None
      | x # xs \<Rightarrow> if length (k_que k) < QUE0_DEPTH then Some (k\<lparr>k_d1 := xs, k_que := k_que k @ [x]\<rparr>) else None)"

text \<open>A clock edge of the hash unit at which something moves: a key is taken, the pipeline goes on, and an index goes to the response FIFO
  and to the registers. Nothing moves while the response FIFO, which has one place, is full.\<close>

definition kvs_hash :: "kvs \<Rightarrow> kvs option" where
  "kvs_hash k =
     (let r = (k_arsp k = []); v = (k_d2 k \<noteq> []); h = k_hash k; reg = k_hreg k;
          i = (v, if v then td_data (hd (k_d2 k)) else 0, r);
          out = hsu_out reg h r
      in if \<not> r \<or> (\<not> v \<and> True \<notin> set (h_v h)) then None
         else Some (k\<lparr>k_hash := hsu_clock reg h i,
                k_d2 := (if v \<and> hsu_ready reg h r then tl (k_d2 k) else k_d2 k),
                k_arsp := (if ho_arsp_valid out then [ho_arsp out] else []),
                k_hreg := map (\<lambda>n. if ho_vwe out ! n then ho_vrsp out ! n else reg ! n) [0..<8]\<rparr>))"

definition rsp_flit :: "regs \<Rightarrow> ACMD \<Rightarrow> AXI_TC list \<times> ACMD option" where
  "rsp_flit reg a =
     (let rac = ac_srac a; len = ra_len rac - 1
      in if ra_len rac = 0 then ([], None)
         else ([\<lparr>tc_data = reg ! unat (ra_sel rac), tc_id = ac_sid a, tc_dest = ac_did a, tc_user = ac_drac a, tc_last = (len = 0)\<rparr>],
               Some (a\<lparr>ac_srac := rac\<lparr>ra_len := len, ra_sel := ra_sel rac + 1\<rparr>\<rparr>)))"

definition kvs_respond :: "kvs \<Rightarrow> kvs option" where
  "kvs_respond k =
     (case (k_hout k, k_send k, k_arsp k) of
        ([], None, a # as) \<Rightarrow> (case rsp_flit (k_hreg k) a of (xs, a) \<Rightarrow> Some (k\<lparr>k_arsp := as, k_hout := xs, k_send := a\<rparr>))
      | _ \<Rightarrow> None)"

text \<open>The switch takes the flit, and the thread goes on with the next one.\<close>

definition kvs_route :: "kvs \<Rightarrow> kvs option" where
  "kvs_route k =
     (case k_hout k of
        [] \<Rightarrow> None
      | x # xs \<Rightarrow>
          map_option (\<lambda>w. case (case k_send k of None \<Rightarrow> ([], None) | Some a \<Rightarrow> rsp_flit (k_hreg k) a) of
              (ys, b) \<Rightarrow> k\<lparr>k_sw := w, k_hout := ys, k_send := b\<rparr>) (sw_demux HSU_PORT x (k_sw k)))"

definition on_sw :: "(cswitch \<Rightarrow> cswitch option) \<Rightarrow> kvs \<Rightarrow> kvs option" where
  "on_sw f k = map_option (\<lambda>w. k\<lparr>k_sw := w\<rparr>) (f (k_sw k))"

text \<open>Load-store unit 2 reads its control flits from the queue of its port, so its own list of flits is empty.\<close>

definition kvs_control :: "kvs \<Rightarrow> kvs option" where
  "kvs_control k =
     (case sw_out LSU2_PORT (k_sw k) of
        None \<Rightarrow> None
      | Some ((i, x), w) \<Rightarrow> map_option (\<lambda>u. k\<lparr>k_sw := w, k_lsu2 := u\<rparr>) (csw_demux ((k_lsu2 k)\<lparr>l_root_in := [x]\<rparr>)))"

definition on_lsu1 :: "lsu_thread \<Rightarrow> kvs \<Rightarrow> kvs option" where
  "on_lsu1 t k = (if t = Wire then None else map_option (\<lambda>u. k\<lparr>k_lsu1 := u\<rparr>) (lsu_exec t (k_lsu1 k)))"

definition on_lsu2 :: "lsu_thread \<Rightarrow> kvs \<Rightarrow> kvs option" where
  "on_lsu2 t k = (if t = Wire then None else map_option (\<lambda>u. k\<lparr>k_lsu2 := u\<rparr>) (lsu_exec t (k_lsu2 k)))"

definition kvs_key :: "kvs \<Rightarrow> kvs option" where
  "kvs_key k = (case k_que k of [] \<Rightarrow> None | x # xs \<Rightarrow> map_option (\<lambda>u. k\<lparr>k_que := xs, k_idu := u\<rparr>) (indel_key x (k_idu k)))"

definition kvs_slot :: "kvs \<Rightarrow> kvs option" where
  "kvs_slot k =
     (case l_dout (k_lsu2 k) of
        [] \<Rightarrow> None
      | x # xs \<Rightarrow> map_option (\<lambda>u. k\<lparr>k_lsu2 := (k_lsu2 k)\<lparr>l_dout := xs\<rparr>, k_idu := u\<rparr>) (indel_data x (k_idu k)))"

definition kvs_value :: "kvs \<Rightarrow> kvs option" where
  "kvs_value k = map_option (\<lambda>(x, u). k\<lparr>k_idu := u, k_out := k_out k @ [x]\<rparr>) (indel_out (k_idu k))"

datatype kvs_thread =
    Lsu1 lsu_thread | Split | Queue | Hash | Respond | Route | XTake nat | XPut nat | Control | Lsu2 lsu_thread | Key | Slot | Value

fun kvs_exec :: "kvs_thread \<Rightarrow> kvs \<Rightarrow> kvs option" where
  "kvs_exec (Lsu1 t) k = on_lsu1 t k"
| "kvs_exec Split k = kvs_split k"
| "kvs_exec Queue k = kvs_queue k"
| "kvs_exec Hash k = kvs_hash k"
| "kvs_exec Respond k = kvs_respond k"
| "kvs_exec Route k = kvs_route k"
| "kvs_exec (XTake j) k = on_sw (sw_mux_take 8 j) k"
| "kvs_exec (XPut j) k = on_sw (sw_mux_put j) k"
| "kvs_exec Control k = kvs_control k"
| "kvs_exec (Lsu2 t) k = on_lsu2 t k"
| "kvs_exec Key k = kvs_key k"
| "kvs_exec Slot k = kvs_slot k"
| "kvs_exec Value k = kvs_value k"

inductive kvs_step :: "kvs \<Rightarrow> kvs \<Rightarrow> bool" where
  thread: "kvs_exec t k = Some k' \<Longrightarrow> kvs_step k k'"

inductive_cases kvs_stepE: "kvs_step k k'"

section \<open>Start\<close>

text \<open>
  After a reset, with the registers of the hash unit, of the read channel of load-store unit 2 and of the comparing unit written, and with a
  command for load-store unit 1 on its way.
\<close>

definition hash_reset :: short_hash where
  "hash_reset = \<lparr>h_a = replicate STAGES 0, h_b = replicate STAGES 0, h_c = replicate STAGES 0, h_d = replicate STAGES 0, h_v = replicate STAGES False\<rparr>"

definition kvs_start :: "regs \<Rightarrow> u32 list \<Rightarrow> u32 list \<Rightarrow> AXI_TC list \<Rightarrow> mem \<Rightarrow> kvs" where
  "kvs_start R L I xs m =
     \<lparr>k_lsu1 = lsu_reset xs m, k_d1 = [], k_d2 = [], k_que = [], k_hash = hash_reset, k_hreg = R, k_arsp = [], k_send = None, k_hout = [],
      k_sw = cswitch_reset, k_lsu2 = (lsu_reset [] m)\<lparr>l_ch := (\<lambda>b. lsuctl_reset)(False := lsuctl_reset\<lparr>c_reg := L\<rparr>)\<rparr>,
      k_idu = indel_reset I, k_out = []\<rparr>"

end
