(* ===== verification/Lsu_Read.thy ===== *)
theory Lsu_Read
  imports Lsu_Copy
begin

text \<open>
  A load-store unit that only reads: its write channel is idle and its data goes to another unit. The data it will give is a function of the control
  flits it gets, and these may come in while it works.
\<close>

section \<open>A unit that only reads\<close>

definition quiet :: "lsu \<Rightarrow> bool" where
  "quiet s \<longleftrightarrow> l_ch s True = lsuctl_reset \<and> l_s2mm s = mover_reset OUTSTANDING_WRITE \<and> l_din s = [] \<and> root_for True (l_root_in s) = []"

lemma quiet_write_idle:
  assumes "quiet s"
  shows "on_ch True ctlreg_command s = None" "on_ch True ctlreg_response s = None" "on_ch True lsuctl_command s = None" "on_ch True lsuctl_response s = None"
    "s2mm_take s = None" "on_s2mm s2mm_begin s = None" "s2mm_data s = None" "on_s2mm (put_trans n) s = None" "on_s2mm s2mm_get s = None"
    "on_s2mm s2mm_answer s = None" "s2mm_status s = None" "on_s2mm (mem_answer i) s = None"
  using assms
  by (simp_all add: quiet_def on_ch_def on_s2mm_def lsuctl_reset_def mover_reset_def ctlreg_command_def ctlreg_response_def lsuctl_command_def
      lsuctl_response_def s2mm_take_def take_dmac_def s2mm_begin_def s2mm_data_def put_trans_def s2mm_get_def get_trans_def s2mm_answer_def get_answer_def
      s2mm_status_def mem_answer_def)

lemma csw_mux_quiet: "csw_mux s = Some s' \<Longrightarrow> quiet s \<Longrightarrow> quiet s'"
  by (auto simp: csw_mux_def quiet_def lsuctl_reset_def Let_def split: list.splits if_splits)

lemma csw_demux_quiet: "csw_demux s = Some s' \<Longrightarrow> quiet s \<Longrightarrow> quiet s'"
  by (auto simp: csw_demux_def quiet_def on_ch_def root_for_def split: list.splits if_splits)

lemma on_ch_False_quiet: "on_ch False f s = Some s' \<Longrightarrow> quiet s \<Longrightarrow> quiet s'"
  by (auto simp: on_ch_def quiet_def)

lemma on_mm2s_quiet: "on_mm2s f s = Some s' \<Longrightarrow> quiet s \<Longrightarrow> quiet s'"
  by (auto simp: on_mm2s_def quiet_def)

lemma read_quiet: "mm2s_take s = Some s' \<Longrightarrow> quiet s \<Longrightarrow> quiet s'" "mm2s_data s = Some s' \<Longrightarrow> quiet s \<Longrightarrow> quiet s'" "root_read s = Some s' \<Longrightarrow> quiet s \<Longrightarrow> quiet s'"
  by (auto simp: mm2s_take_def mm2s_data_def root_read_def quiet_def split: option.splits list.splits if_splits)

lemma lsu_exec_quiet:
  assumes "lsu_exec t s = Some s'" "t \<noteq> Wire" "quiet s"
  shows "quiet s'"
proof (cases t)
  case (RegCommand b)
  then show ?thesis
    using assms quiet_write_idle [OF assms(3)] on_ch_False_quiet by (cases b) auto
next
  case (RegResponse b)
  then show ?thesis
    using assms quiet_write_idle [OF assms(3)] on_ch_False_quiet by (cases b) auto
next
  case (Command b)
  then show ?thesis
    using assms quiet_write_idle [OF assms(3)] on_ch_False_quiet by (cases b) auto
next
  case (Response b)
  then show ?thesis
    using assms quiet_write_idle [OF assms(3)] on_ch_False_quiet by (cases b) auto
qed (use assms quiet_write_idle [OF assms(3)] csw_mux_quiet csw_demux_quiet on_mm2s_quiet read_quiet in auto)

lemma view_reads: "lsu_view s' = lsu_view s \<Longrightarrow> r_data s' = r_data s \<and> l_mem s' = l_mem s"
  by (simp add: lsu_view_def r_data_def del: map_append)

lemma lsu_exec_reads:
  assumes "lsu_exec t s = Some s'" "quiet s"
  shows "r_data s' = r_data s \<and> l_mem s' = l_mem s"
proof (cases "t = ReadData \<or> t = WriteData")
  case True
  then show ?thesis
    using assms quiet_write_idle(7) [OF assms(2)] mm2s_data_reads [of s s'] view_reads [of s' s] by auto
next
  case False
  then show ?thesis
    using lsu_exec_view [OF assms(1)] view_reads [of s' s] by auto
qed

section \<open>Control flits to come\<close>

definition feed :: "AXI_TC list \<Rightarrow> lsu \<Rightarrow> lsu" where
  "feed xs s = s\<lparr>l_root_in := l_root_in s @ xs\<rparr>"

lemma feed_simps [simp]:
  "l_root_in (feed xs s) = l_root_in s @ xs" "l_ch (feed xs s) = l_ch s" "l_mm2s (feed xs s) = l_mm2s s" "l_s2mm (feed xs s) = l_s2mm s"
  "l_dout (feed xs s) = l_dout s" "l_din (feed xs s) = l_din s" "l_mem (feed xs s) = l_mem s" "l_mux (feed xs s) = l_mux s" "l_queue (feed xs s) = l_queue s"
  "l_root_out (feed xs s) = l_root_out s"
  by (simp_all add: feed_def)

lemma feed_upd:
  "feed xs (s\<lparr>l_ch := c\<rparr>) = (feed xs s)\<lparr>l_ch := c\<rparr>" "feed xs (s\<lparr>l_mm2s := d\<rparr>) = (feed xs s)\<lparr>l_mm2s := d\<rparr>" "feed xs (s\<lparr>l_s2mm := d\<rparr>) = (feed xs s)\<lparr>l_s2mm := d\<rparr>"
  "feed xs (s\<lparr>l_dout := o'\<rparr>) = (feed xs s)\<lparr>l_dout := o'\<rparr>" "feed xs (s\<lparr>l_din := o'\<rparr>) = (feed xs s)\<lparr>l_din := o'\<rparr>" "feed xs (s\<lparr>l_mem := m\<rparr>) = (feed xs s)\<lparr>l_mem := m\<rparr>"
  "feed xs (s\<lparr>l_mux := q\<rparr>) = (feed xs s)\<lparr>l_mux := q\<rparr>" "feed xs (s\<lparr>l_queue := q\<rparr>) = (feed xs s)\<lparr>l_queue := q\<rparr>"
  "feed xs (s\<lparr>l_root_out := r\<rparr>) = (feed xs s)\<lparr>l_root_out := r\<rparr>"
  by (simp_all add: feed_def)

lemma on_feed:
  "on_ch b f (feed xs s) = map_option (feed xs) (on_ch b f s)" "on_mm2s g (feed xs s) = map_option (feed xs) (on_mm2s g s)"
  "on_s2mm g (feed xs s) = map_option (feed xs) (on_s2mm g s)"
  by (simp_all add: on_ch_def on_mm2s_def on_s2mm_def option.map_comp comp_def feed_upd)

lemma csw_demux_feed: "csw_demux s = Some s' \<Longrightarrow> csw_demux (feed xs s) = Some (feed xs s')"
  by (auto simp: csw_demux_def on_ch_def feed_def split: list.splits if_splits)

lemma take_feed: "mm2s_take (feed xs s) = map_option (feed xs) (mm2s_take s)" "s2mm_take (feed xs s) = map_option (feed xs) (s2mm_take s)"
  unfolding mm2s_take_def s2mm_take_def
  by (cases "take_dmac (l_mm2s s) (l_ch s False)"; cases "take_dmac (l_s2mm s) (l_ch s True)"; auto simp: feed_upd)+

lemma thread_feed:
  "csw_mux (feed xs s) = map_option (feed xs) (csw_mux s)" "mm2s_data (feed xs s) = map_option (feed xs) (mm2s_data s)"
  "s2mm_data (feed xs s) = map_option (feed xs) (s2mm_data s)" "s2mm_status (feed xs s) = map_option (feed xs) (s2mm_status s)"
  "dat_wire (feed xs s) = map_option (feed xs) (dat_wire s)" "root_read (feed xs s) = map_option (feed xs) (root_read s)"
  unfolding csw_mux_def mm2s_data_def s2mm_data_def s2mm_status_def dat_wire_def root_read_def
  by (auto simp: feed_upd on_feed option.map_comp comp_def Let_def split_beta split: list.splits option.splits)

lemma lsu_exec_feed: "lsu_exec t s = Some s' \<Longrightarrow> lsu_exec t (feed xs s) = Some (feed xs s')"
  by (cases t) (simp_all add: csw_demux_feed thread_feed take_feed on_feed)

lemma lsu_exec_root_in: "lsu_exec t s = Some s' \<Longrightarrow> l_root_in s = [] \<Longrightarrow> l_root_in s' = []"
  by (cases t) (auto simp: csw_demux_def csw_mux_def on_ch_def on_mm2s_def on_s2mm_def mm2s_take_def s2mm_take_def mm2s_data_def s2mm_data_def
      s2mm_status_def dat_wire_def root_read_def Let_def split_beta split: list.splits option.splits if_splits)

section \<open>A unit with nothing left to read\<close>

lemma ctl_drained:
  assumes "ctlreg_command c = None" "lsuctl_command c = None" "ctl_writes c" "c_dmac c = []"
  shows "c_in c = [] \<and> c_go c = [] \<and> c_acmd c = [] \<and> c_pend c = []"
proof -
  have p: "c_pend c = []"
    using assms(2,4) by (auto simp: lsuctl_command_def DMAC_DEPTH_def split: list.splits)
  then have a: "c_acmd c = []"
    using assms(2) by (auto simp: lsuctl_command_def split: list.splits)
  then have g: "c_go c = []"
    using assms(1) by (auto simp: ctlreg_command_def split: list.splits)
  have "c_in c = []"
  proof (rule ccontr)
    assume "c_in c \<noteq> []"
    then show False
      using assms(1,3) a g by (cases "c_in c") (auto simp: ctlreg_command_def ctl_writes_def writes_def Let_def split: option.splits)
  qed
  then show ?thesis
    using p a g by simp
qed

lemma reads_drained:
  assumes "\<And>t. t \<noteq> Wire \<Longrightarrow> lsu_exec t s = None" "quiet s" "lsu_writes s" "balanced 17 (l_mm2s s)" "l_dout s = []"
  shows "c_in (l_ch s False) = [] \<and> l_root_in s = [] \<and> r_data s = []"
proof -
  have "lsu_exec Wire s = None"
    by (simp add: dat_wire_def assms(5))
  then have st: "stuck s"
    using assms(1) by (metis stuck_def)
  note m = stuck_mm2s [OF st assms(4,5)]
  have "c_in (l_ch s False) = [] \<and> c_go (l_ch s False) = [] \<and> c_acmd (l_ch s False) = [] \<and> c_pend (l_ch s False) = []"
    using stuckD [OF st, of "RegCommand False"] stuckD [OF st, of "Command False"] assms(3) m
    by (intro ctl_drained) (auto simp: on_ch_None lsu_writes_def)
  moreover from this have "l_root_in s = []"
    using stuckD [OF st, of Demux] assms(2) by (auto simp: csw_demux_def on_ch_None quiet_def root_for_def split: list.splits if_splits)
  ultimately show ?thesis
    using m assms(2,5) by (simp add: r_data_def r_addrs_def mover_r_def dmacs_of_def ctl_future_def root_for_def quiet_def)
qed

end
