(* ===== verification/Kvs_Lookup.thy ===== *)
theory Kvs_Lookup
  imports Kvs Lsu_Read
begin

text \<open>
  What the lookup accelerator computes. Every state of a run stands for a list of values: those given already and those that the keys and
  flits on the way lead to. No step changes this list, every step uses up work, and a state without a next step has given all values.
\<close>

section \<open>The hash unit\<close>

text \<open>The registers of the hash unit but for the two that hold the last index.\<close>

definition same_cfg :: "regs \<Rightarrow> regs \<Rightarrow> bool" where
  "same_cfg R reg \<longleftrightarrow> length reg = 8 \<and> (\<forall>n<6. reg ! n = R ! n)"

text \<open>Keys from the data stream, indices as responses of one word to the read channel of load-store unit 2.\<close>

definition hsu_setup :: "regs \<Rightarrow> bool" where
  "hsu_setup R \<longleftrightarrow> hs_seldi R \<and> \<not> hs_seldo R \<and> 0 < hs_hashlen R \<and> hs_hashlen R \<le> 4 \<and> hs_tdest R = 10"

definition rsp_acmd :: "regs \<Rightarrow> ACMD" where
  "rsp_acmd R = \<lparr>ac_sid = hs_tid R, ac_did = hs_tdest R, ac_srac = \<lparr>ra_len = 1, ra_sel = 6, ra_wr = False, ra_go = False\<rparr>,
     ac_drac = \<lparr>ra_len = 1, ra_sel = 4, ra_wr = True, ra_go = True\<rparr>\<rparr>"

definition idx_flit :: "regs \<Rightarrow> u32 \<Rightarrow> AXI_TC" where
  "idx_flit R w = \<lparr>tc_data = w, tc_id = hs_tid R, tc_dest = hs_tdest R, tc_user = \<lparr>ra_len = 1, ra_sel = 4, ra_wr = True, ra_go = True\<rparr>, tc_last = True\<rparr>"

definition key_index :: "regs \<Rightarrow> u64 \<Rightarrow> u64" where
  "key_index R key = tap_index R (hash_tap (hsu_word R key))"

lemma same_cfg_fields:
  assumes "same_cfg R reg"
  shows "hs_tlen reg = hs_tlen R" "hs_keylen reg = hs_keylen R" "hs_hashlen reg = hs_hashlen R" "hs_tid reg = hs_tid R" "hs_tdest reg = hs_tdest R"
    "hs_seed reg = hs_seed R" "hs_seldo reg = hs_seldo R" "hs_seldi reg = hs_seldi R" "hs_data reg = hs_data R"
  using assms
  by (simp_all add: same_cfg_def hs_tlen_def hs_keylen_def hs_hashlen_def hs_tid_def hs_tdest_def hs_seed_def hs_seldo_def hs_seldi_def hs_data_def)

lemma same_cfg_index:
  assumes "same_cfg R reg"
  shows "tap_index reg = tap_index R" "hsu_word reg = hsu_word R" "key_index reg = key_index R"
  using same_cfg_fields [OF assms] by (simp_all add: fun_eq_iff tap_index_def hsu_word_def key_index_def)

lemma rsp_words:
  assumes "hsu_setup R"
  shows "ucast (drop_bit 2 (ucast (hs_hashlen R) + 3 :: u32)) = (1 :: 3 word)"
proof -
  have "unat (hs_hashlen R) \<in> {1, 2, 3, 4}"
    using assms by (auto simp: hsu_setup_def word_less_nat_alt word_le_nat_alt)
  then have "hs_hashlen R = 1 \<or> hs_hashlen R = 2 \<or> hs_hashlen R = 3 \<or> hs_hashlen R = 4"
    by (auto simp: word_unat_eq_iff)
  then show ?thesis
    by auto
qed

lemma hsu_out_cfg:
  assumes "hsu_setup R" "same_cfg R reg"
  shows "ho_arsp_valid (hsu_out reg s r) = mix_valid s True" "ho_arsp (hsu_out reg s r) = rsp_acmd R"
    "ho_vrsp (hsu_out reg s r) = (replicate 8 0)[6 := ucast (tap_index R (mix_out s)), 7 := ucast (drop_bit 32 (tap_index R (mix_out s)))]"
    "ho_vwe (hsu_out reg s r) = (replicate 8 False)[6 := mix_valid s True \<and> r, 7 := mix_valid s True \<and> r]"
  using assms(1) same_cfg_fields [OF assms(2)] rsp_words [OF assms(1)]
  by (simp_all add: hsu_out_def mc_hash_out_def Let_def hreg_def rsp_acmd_def hsu_setup_def tap_index_def split_beta)

section \<open>What is on the way\<close>

text \<open>The index flits, from the switch on back to the keys that have not been read yet.\<close>

definition hash_flits :: "regs \<Rightarrow> kvs \<Rightarrow> AXI_TC list" where
  "hash_flits R k = map (\<lambda>a. idx_flit R (k_hreg k ! 6)) (k_arsp k) @ map (idx_flit R \<circ> ucast \<circ> tap_index R) (mix_stored (k_hash k)) @
     map (idx_flit R \<circ> ucast \<circ> key_index R) (map td_data (k_d2 k))"

definition kvs_flits :: "regs \<Rightarrow> kvs \<Rightarrow> AXI_TC list" where
  "kvs_flits R k = sw_path 8 HSU_PORT LSU2_PORT (k_sw k) @ k_hout k @ hash_flits R k @ map (idx_flit R \<circ> ucast \<circ> key_index R) (r_data (k_lsu1 k))"

definition kvs_unit2 :: "regs \<Rightarrow> kvs \<Rightarrow> lsu" where
  "kvs_unit2 R k = feed (kvs_flits R k) (k_lsu2 k)"

definition kvs_words :: "regs \<Rightarrow> kvs \<Rightarrow> u64 list" where
  "kvs_words R k = r_data (kvs_unit2 R k)"

definition kvs_keys :: "kvs \<Rightarrow> u64 list" where
  "kvs_keys k = map td_data (k_que k @ k_d1 k) @ r_data (k_lsu1 k)"

definition kvs_result :: "regs \<Rightarrow> kvs \<Rightarrow> AXI_TD list" where
  "kvs_result R k = k_out k @ id_rest (k_idu k) (kvs_keys k) (kvs_words R k)"

text \<open>Nothing but index flits is in the switch.\<close>

definition transit :: "cswitch \<Rightarrow> nat \<Rightarrow> (nat \<times> AXI_TC) set" where
  "transit w j = set (sw_queue w j) \<union> set (sw_mux w j)"

lemma transit_put: "sw_mux_put j w = Some w' \<Longrightarrow> transit w' j' = transit w j'"
  by (auto simp: sw_mux_put_def transit_def split: list.splits if_splits)

lemma transit_out: "sw_out j w = Some (p, w') \<Longrightarrow> p \<in> transit w j \<and> transit w' j' \<subseteq> transit w j'"
  by (auto simp: sw_out_def transit_def split: list.splits if_splits)

lemma transit_demux: "sw_demux i x w = Some w' \<Longrightarrow> transit w' j = transit w j"
  by (auto simp: sw_demux_def transit_def split: if_splits)

definition may_pass :: "nat \<Rightarrow> (nat \<times> AXI_TC) set" where
  "may_pass j = (if j = LSU2_PORT then {p. fst p = HSU_PORT} else {})"

definition sw_ok :: "regs \<Rightarrow> cswitch \<Rightarrow> bool" where
  "sw_ok R w \<longleftrightarrow> (\<forall>i. i \<noteq> HSU_PORT \<longrightarrow> sw_hold w i = []) \<and> (\<forall>x\<in>set (sw_hold w HSU_PORT). tc_dest x = hs_tdest R) \<and>
     (\<forall>j. transit w j \<subseteq> may_pass j)"

definition hsu_ok :: "regs \<Rightarrow> kvs \<Rightarrow> bool" where
  "hsu_ok R k \<longleftrightarrow> mix_inv (k_hash k) \<and> same_cfg R (k_hreg k) \<and> (k_arsp k = [] \<or> k_arsp k = [rsp_acmd R]) \<and>
     (k_hout k = [] \<and> k_send k = None \<or> (\<exists>w a. k_hout k = [idx_flit R w] \<and> k_send k = Some a \<and> ra_len (ac_srac a) = 0))"

definition lsu_ok :: "lsu \<Rightarrow> bool" where
  "lsu_ok s \<longleftrightarrow> quiet s \<and> lsu_writes s \<and> balanced 17 (l_mm2s s)"

text \<open>The table: the memory, the address of the first slot and the probe length. The words load-store unit 2 reads for an index.\<close>

record lookup_table =
  tb_mem :: mem
  tb_base :: u32
  tb_plen :: nat

definition slot_words :: "lookup_table \<Rightarrow> u32 \<Rightarrow> u64 list" where
  "slot_words T w = map (rd64 (tb_mem T)) (flit_addrs (ucast (tb_base T) + 16 * ucast w) (2 * (tb_plen T + 1)))"

definition in_reach :: "lookup_table \<Rightarrow> u32 \<Rightarrow> bool" where
  "in_reach T w \<longleftrightarrow> unat w < 2 ^ 28 \<and> unat (tb_base T) + 16 * unat w + 16 * (tb_plen T + 1) \<le> 2 ^ 32"

definition answers :: "regs \<Rightarrow> lookup_table \<Rightarrow> lsu \<Rightarrow> bool" where
  "answers R T s \<longleftrightarrow> (\<forall>ws. list_all (in_reach T) ws \<longrightarrow> r_data (feed (map (idx_flit R) ws) s) = r_data s @ concat (map (slot_words T) ws))"

definition unit2_ok :: "regs \<Rightarrow> lookup_table \<Rightarrow> kvs \<Rightarrow> bool" where
  "unit2_ok R T k \<longleftrightarrow> lsu_ok (kvs_unit2 R k) \<and> l_root_in (k_lsu2 k) = [] \<and> answers R T (k_lsu2 k) \<and>
     (\<exists>ws. kvs_flits R k = map (idx_flit R) ws \<and> list_all (in_reach T) ws)"

definition kvs_ok :: "regs \<Rightarrow> lookup_table \<Rightarrow> kvs \<Rightarrow> bool" where
  "kvs_ok R T k \<longleftrightarrow> hsu_ok R k \<and> sw_ok R (k_sw k) \<and> lsu_ok (k_lsu1 k) \<and> unit2_ok R T k \<and> id_wf (k_idu k) \<and> id_plen (id_reg (k_idu k)) = tb_plen T \<and>
     length (kvs_words R k) = id_need (k_idu k) + 2 * (tb_plen T + 1) * length (kvs_keys k)"

lemma kvs_port: "csw_port 8 10 = LSU2_PORT"
  by (simp add: csw_port_def LSU2_PORT_def)

section \<open>The steps of the hash unit\<close>

lemma kvs_hashD:
  assumes "kvs_hash k = Some k'" "hsu_setup R" "hsu_ok R k"
  shows "hash_flits R k' = hash_flits R k \<and> hsu_ok R k' \<and>
    (\<exists>h d2 ar reg. k' = k\<lparr>k_hash := h, k_d2 := d2, k_arsp := ar, k_hreg := reg\<rparr>)"
proof -
  let ?reg = "k_hreg k" and ?h = "k_hash k" and ?v = "k_d2 k \<noteq> []"
  let ?i = "(?v, if ?v then td_data (hd (k_d2 k)) else 0, True)" and ?out = "hsu_out (k_hreg k) (k_hash k) True"
  have inv: "mix_inv ?h" and cfg: "same_cfg R ?reg" and len: "length ?reg = 8"
    using assms(3) by (simp_all add: hsu_ok_def same_cfg_def)
  have r: "k_arsp k = []"
    using assms(1) by (auto simp: kvs_hash_def Let_def split: if_splits)
  have rdy: "hsu_ready ?reg ?h True"
    by (simp add: hsu_simps mix_ready_def mix_dat_ready_def)
  have k': "k' = k\<lparr>k_hash := hsu_clock ?reg ?h ?i, k_d2 := tl (k_d2 k), k_arsp := (if mix_valid ?h True then [rsp_acmd R] else []),
      k_hreg := map (\<lambda>n. if ho_vwe ?out ! n then ho_vrsp ?out ! n else ?reg ! n) [0..<8]\<rparr>"
    using assms(1) r rdy by (auto simp: kvs_hash_def Let_def hsu_out_cfg [OF assms(2) cfg] split: if_splits)
  have six: "mix_valid ?h True \<Longrightarrow> k_hreg k' ! 6 = ucast (tap_index R (mix_out ?h))"
    by (simp add: k' hsu_out_cfg [OF assms(2) cfg])
  have cfg': "same_cfg R (k_hreg k')"
    using cfg by (auto simp: same_cfg_def k' hsu_out_cfg [OF assms(2) cfg] nth_list_update)
  have c: "(if mix_valid ?h True then [tap_index R (mix_out ?h)] else []) @ map (tap_index R) (mix_stored (k_hash k')) =
      map (tap_index R) (mix_stored ?h) @ map (key_index R) (if ?v then [td_data (hd (k_d2 k))] else [])"
    using hsu.conserved [OF inv, of ?reg ?i] rdy
    by (cases "h_v ?h ! 11"; cases "k_d2 k") (simp_all add: k' given_def taken_def hsu_simps same_cfg_index [OF cfg] key_index_def mix_valid_def)
  have "map (idx_flit R \<circ> ucast) (map (tap_index R) (mix_stored ?h) @ map (key_index R) (map td_data (k_d2 k))) =
      map (idx_flit R \<circ> ucast) ((map (tap_index R) (mix_stored ?h) @ map (key_index R) (if ?v then [td_data (hd (k_d2 k))] else [])) @
        map (key_index R) (map td_data (tl (k_d2 k))))"
    by (cases "k_d2 k") simp_all
  also have "\<dots> = map (\<lambda>a. idx_flit R (k_hreg k' ! 6)) (k_arsp k') @ map (idx_flit R \<circ> ucast) (map (tap_index R) (mix_stored (k_hash k')) @
        map (key_index R) (map td_data (k_d2 k')))"
    unfolding c [symmetric] using six by (simp add: k')
  finally have "hash_flits R k' = hash_flits R k"
    by (simp add: hash_flits_def r comp_assoc)
  moreover have "mix_inv (k_hash k')"
    using hsu.kept [OF inv, of ?reg ?i] by (simp add: k')
  ultimately show ?thesis
    using assms(3) cfg' by (auto simp: hsu_ok_def k')
qed

lemma rsp_flit_first: "rsp_flit reg (rsp_acmd R) = ([idx_flit R (reg ! 6)], Some ((rsp_acmd R)\<lparr>ac_srac := \<lparr>ra_len = 0, ra_sel = 7, ra_wr = False, ra_go = False\<rparr>\<rparr>))"
  by (simp add: rsp_flit_def rsp_acmd_def idx_flit_def Let_def)

lemma rsp_flit_last: "ra_len (ac_srac a) = 0 \<Longrightarrow> rsp_flit reg a = ([], None)"
  by (simp add: rsp_flit_def)

lemma kvs_respondD:
  assumes "kvs_respond k = Some k'" "hsu_ok R k"
  shows "k_hout k' @ hash_flits R k' = k_hout k @ hash_flits R k \<and> hsu_ok R k' \<and> k_arsp k = [rsp_acmd R] \<and> k_hout k = [] \<and>
    (\<exists>x a. k' = k\<lparr>k_arsp := [], k_hout := [x], k_send := Some a\<rparr>)"
proof -
  have "k_arsp k = [rsp_acmd R]" "k_hout k = []" "k_send k = None"
    using assms by (auto simp: kvs_respond_def hsu_ok_def split: list.splits option.splits)
  then show ?thesis
    using assms by (auto simp: kvs_respond_def rsp_flit_first hsu_ok_def hash_flits_def)
qed

section \<open>The load-store units\<close>

lemma lsu_exec_ok:
  assumes "lsu_exec t s = Some s'" "t \<noteq> Wire" "lsu_ok s"
  shows "lsu_ok s' \<and> r_data s' = r_data s \<and> lsu_work s' < lsu_work s"
proof -
  have q: "quiet s" "lsu_writes s" "balanced 17 (l_mm2s s)"
    using assms(3) by (simp_all add: lsu_ok_def)
  have "balanced 17 (l_s2mm s)"
    using q(1) by (simp add: quiet_def mover_reset_def balanced_def tmanage_def OUTSTANDING_WRITE_def)
  then show ?thesis
    using lsu_exec_quiet [OF assms(1,2) q(1)] lsu_exec_reads [OF assms(1) q(1)] lsu_exec_writes [OF assms(1) q(2)]
      lsu_exec_balanced [OF assms(1) q(3)] lsu_exec_work [OF assms(1) q(2)]
    by (simp add: lsu_ok_def)
qed

lemma lsu_take_dout:
  assumes "lsu_ok s" "l_dout s = x # xs"
  shows "lsu_ok (s\<lparr>l_dout := xs\<rparr>) \<and> r_data s = td_data x # r_data (s\<lparr>l_dout := xs\<rparr>) \<and> lsu_work s = lsu_work (s\<lparr>l_dout := xs\<rparr>) + 2"
  using assms
  by (auto simp: lsu_ok_def quiet_def lsu_writes_def r_data_def r_addrs_def dmacs_of_def lsu_work_def ch_work_def)

section \<open>The result does not change\<close>

definition kvs_keeps :: "regs \<Rightarrow> lookup_table \<Rightarrow> kvs \<Rightarrow> kvs \<Rightarrow> bool" where
  "kvs_keeps R T k k' \<longleftrightarrow> kvs_ok R T k' \<and> kvs_result R k' = kvs_result R k \<and> lsu_work (kvs_unit2 R k') \<le> lsu_work (kvs_unit2 R k)"

lemma kvs_keepsI:
  assumes "kvs_ok R T k" "kvs_flits R k' = kvs_flits R k" "k_lsu2 k' = k_lsu2 k" "k_idu k' = k_idu k" "kvs_keys k' = kvs_keys k" "k_out k' = k_out k"
    and "hsu_ok R k'" "sw_ok R (k_sw k')" "lsu_ok (k_lsu1 k')"
  shows "kvs_keeps R T k k'"
  using assms by (simp add: kvs_keeps_def kvs_ok_def unit2_ok_def kvs_result_def kvs_words_def kvs_unit2_def)

lemmas kvs_flits_defs = kvs_flits_def hash_flits_def

lemma lsu1_keeps:
  assumes "on_lsu1 t k = Some k'" "kvs_ok R T k"
  shows "kvs_keeps R T k k'"
proof -
  obtain u where "lsu_exec t (k_lsu1 k) = Some u" "t \<noteq> Wire" "k' = k\<lparr>k_lsu1 := u\<rparr>"
    using assms(1) by (auto simp: on_lsu1_def split: if_splits)
  then show ?thesis
    using assms(2) lsu_exec_ok [of t "k_lsu1 k" u]
    by (intro kvs_keepsI) (auto simp: kvs_ok_def kvs_flits_defs kvs_keys_def hsu_ok_def)
qed

lemma split_keeps:
  assumes "kvs_split k = Some k'" "kvs_ok R T k"
  shows "kvs_keeps R T k k'"
proof -
  obtain x xs where x: "l_dout (k_lsu1 k) = x # xs" "k' = k\<lparr>k_lsu1 := (k_lsu1 k)\<lparr>l_dout := xs\<rparr>, k_d1 := k_d1 k @ [x], k_d2 := k_d2 k @ [x]\<rparr>"
    using assms(1) by (auto simp: kvs_split_def split: list.splits if_splits)
  then show ?thesis
    using assms(2) lsu_take_dout [of "k_lsu1 k" x xs]
    by (intro kvs_keepsI) (auto simp: kvs_ok_def kvs_flits_defs kvs_keys_def hsu_ok_def)
qed

lemma queue_keeps: "kvs_queue k = Some k' \<Longrightarrow> kvs_ok R T k \<Longrightarrow> kvs_keeps R T k k'"
  by (rule kvs_keepsI) (auto simp: kvs_queue_def kvs_ok_def kvs_flits_defs kvs_keys_def hsu_ok_def split: list.splits if_splits)

lemma hash_keeps: "kvs_hash k = Some k' \<Longrightarrow> hsu_setup R \<Longrightarrow> kvs_ok R T k \<Longrightarrow> kvs_keeps R T k k'"
  by (rule kvs_keepsI) (use kvs_hashD [of k k' R] in \<open>auto simp: kvs_ok_def kvs_flits_def kvs_keys_def\<close>)

lemma respond_keeps: "kvs_respond k = Some k' \<Longrightarrow> kvs_ok R T k \<Longrightarrow> kvs_keeps R T k k'"
  by (rule kvs_keepsI) (use kvs_respondD [of k k' R] in \<open>auto simp: kvs_ok_def kvs_flits_def kvs_keys_def\<close>)

lemma route_keeps:
  assumes "kvs_route k = Some k'" "hsu_setup R" "kvs_ok R T k"
  shows "kvs_keeps R T k k'"
proof -
  have ok: "hsu_ok R k" "sw_ok R (k_sw k)" "lsu_ok (k_lsu1 k)"
    using assms(3) by (simp_all add: kvs_ok_def)
  obtain v a where h: "k_hout k = [idx_flit R v]" "k_send k = Some a" "ra_len (ac_srac a) = 0"
    using assms(1) ok(1) by (auto simp: kvs_route_def hsu_ok_def)
  then obtain w where w: "sw_demux HSU_PORT (idx_flit R v) (k_sw k) = Some w" and k': "k' = k\<lparr>k_sw := w, k_hout := [], k_send := None\<rparr>"
    using assms(1) by (auto simp: kvs_route_def rsp_flit_last)
  have "sw_path 8 HSU_PORT LSU2_PORT w = sw_path 8 HSU_PORT LSU2_PORT (k_sw k) @ [idx_flit R v]"
    using sw_demux_path [OF w, of 8 HSU_PORT LSU2_PORT] assms(2) kvs_port by (simp add: idx_flit_def hsu_setup_def)
  moreover have "sw_ok R w"
    using ok(2) w transit_demux [OF w] by (auto simp: sw_ok_def sw_demux_def idx_flit_def split: if_splits)
  ultimately show ?thesis
    using assms(3) ok h by (intro kvs_keepsI) (auto simp: kvs_flits_defs kvs_keys_def k' hsu_ok_def)
qed

lemma sw_keeps:
  assumes "on_sw f k = Some k'" "kvs_ok R T k" "\<And>w. f (k_sw k) = Some w \<Longrightarrow> sw_path 8 HSU_PORT LSU2_PORT w = sw_path 8 HSU_PORT LSU2_PORT (k_sw k) \<and> sw_ok R w"
  shows "kvs_keeps R T k k'"
proof -
  obtain w where "f (k_sw k) = Some w" "k' = k\<lparr>k_sw := w\<rparr>"
    using assms(1) by (auto simp: on_sw_def)
  then show ?thesis
    using assms(2,3) by (intro kvs_keepsI) (auto simp: kvs_ok_def kvs_flits_defs kvs_keys_def hsu_ok_def)
qed

lemma sw_mux_take_ok: "sw_mux_take 8 j w = Some w' \<Longrightarrow> hsu_setup R \<Longrightarrow> sw_ok R w \<Longrightarrow> sw_ok R w'"
proof -
  assume a: "sw_mux_take 8 j w = Some w'" "hsu_setup R" "sw_ok R w"
  obtain i x xs where i: "sw_hold w i = x # xs" "csw_port 8 (tc_dest x) = j"
    and w': "w' = w\<lparr>sw_hold := (sw_hold w)(i := xs), sw_mux := (sw_mux w)(j := [(i, x)])\<rparr>"
    using sw_mux_takeD [OF a(1)] by blast
  have "i = HSU_PORT"
    using a(3) i(1) by (auto simp: sw_ok_def)
  moreover from this have "j = LSU2_PORT"
    using a(2,3) i kvs_port by (auto simp: sw_ok_def hsu_setup_def)
  moreover have "transit w' j' \<subseteq> transit w j' \<union> (if j' = j then {(i, x)} else {})" for j'
    by (auto simp: w' transit_def split: if_splits)
  ultimately show "sw_ok R w'"
    using a(3) i by (fastforce simp: sw_ok_def w' may_pass_def)
qed

lemma sw_mux_put_ok: "sw_mux_put j w = Some w' \<Longrightarrow> sw_ok R w \<Longrightarrow> sw_ok R w'"
  using transit_put [of j w w'] by (auto simp: sw_ok_def) (auto simp: sw_mux_put_def split: list.splits if_splits)

lemma take_keeps: "on_sw (sw_mux_take 8 j) k = Some k' \<Longrightarrow> hsu_setup R \<Longrightarrow> kvs_ok R T k \<Longrightarrow> kvs_keeps R T k k'"
  by (erule sw_keeps) (auto simp: sw_mux_take_path kvs_ok_def intro: sw_mux_take_ok)

lemma put_keeps: "on_sw (sw_mux_put j) k = Some k' \<Longrightarrow> kvs_ok R T k \<Longrightarrow> kvs_keeps R T k k'"
  by (erule sw_keeps) (auto simp: sw_mux_put_path kvs_ok_def intro: sw_mux_put_ok)

text \<open>Steps of load-store unit 2.\<close>

lemma quiet_feed: "quiet s \<Longrightarrow> hsu_setup R \<Longrightarrow> quiet (feed (map (idx_flit R) ws) s)"
  by (auto simp: quiet_def root_for_def hsu_setup_def idx_flit_def filter_empty_conv)

lemma quiet_unfeed: "quiet (feed xs s) \<Longrightarrow> quiet s"
  by (simp add: quiet_def root_for_def)

lemma lsu_exec_answers:
  assumes "lsu_exec t s = Some s'" "quiet s" "hsu_setup R" "answers R T s"
  shows "answers R T s'"
  using assms(4) lsu_exec_reads [OF assms(1,2)] lsu_exec_reads [OF lsu_exec_feed [OF assms(1)] quiet_feed [OF assms(2,3)]]
  by (simp add: answers_def)

lemma unit2_keeps:
  assumes "kvs_ok R T k" "lsu_exec t (kvs_unit2 R k) = Some (kvs_unit2 R k')" "t \<noteq> Wire"
    and "hsu_ok R k'" "sw_ok R (k_sw k')" "k_lsu1 k' = k_lsu1 k" "l_root_in (k_lsu2 k') = []" "k_idu k' = k_idu k" "kvs_keys k' = kvs_keys k" "k_out k' = k_out k"
    and "answers R T (k_lsu2 k')" "\<exists>n. kvs_flits R k' = drop n (kvs_flits R k)"
  shows "kvs_keeps R T k k'" "lsu_work (kvs_unit2 R k') < lsu_work (kvs_unit2 R k)"
proof -
  obtain n ws where "kvs_flits R k' = map (idx_flit R) (drop n ws)" "list_all (in_reach T) ws"
    using assms(1,12) by (auto simp: kvs_ok_def unit2_ok_def drop_map)
  then have "\<exists>ws. kvs_flits R k' = map (idx_flit R) ws \<and> list_all (in_reach T) ws"
    by (intro exI [of _ "drop n ws"]) (auto simp: list_all_iff dest: in_set_dropD)
  then show "kvs_keeps R T k k'" "lsu_work (kvs_unit2 R k') < lsu_work (kvs_unit2 R k)"
    using assms(1,4-11) lsu_exec_ok [OF assms(2,3)] by (simp_all add: kvs_keeps_def kvs_ok_def unit2_ok_def kvs_result_def kvs_words_def)
qed

lemma lsu2_keeps:
  assumes "on_lsu2 t k = Some k'" "hsu_setup R" "kvs_ok R T k"
  shows "kvs_keeps R T k k'" "lsu_work (kvs_unit2 R k') < lsu_work (kvs_unit2 R k)"
proof -
  obtain u where u: "lsu_exec t (k_lsu2 k) = Some u" "t \<noteq> Wire" and k': "k' = k\<lparr>k_lsu2 := u\<rparr>"
    using assms(1) by (auto simp: on_lsu2_def split: if_splits)
  have f: "kvs_flits R k' = kvs_flits R k"
    by (simp add: kvs_flits_defs k')
  then have "lsu_exec t (kvs_unit2 R k) = Some (kvs_unit2 R k')"
    using lsu_exec_feed [OF u(1), of "kvs_flits R k"] by (simp add: kvs_unit2_def k')
  note c = unit2_keeps [OF assms(3) this u(2)]
  have "hsu_ok R k'" "sw_ok R (k_sw k')" "l_root_in (k_lsu2 k') = []" "answers R T (k_lsu2 k')" "\<exists>n. kvs_flits R k' = drop n (kvs_flits R k)"
    using assms(3) lsu_exec_root_in [OF u(1)] lsu_exec_answers [OF u(1) _ assms(2)] f
    by (auto simp: kvs_ok_def unit2_ok_def lsu_ok_def kvs_unit2_def hsu_ok_def k' dest: quiet_unfeed intro: exI [of _ 0])
  then show "kvs_keeps R T k k'" "lsu_work (kvs_unit2 R k') < lsu_work (kvs_unit2 R k)"
    using c by (simp_all add: k' kvs_keys_def)
qed

lemma control_keeps:
  assumes "kvs_control k = Some k'" "hsu_setup R" "kvs_ok R T k"
  shows "kvs_keeps R T k k'" "lsu_work (kvs_unit2 R k') < lsu_work (kvs_unit2 R k)"
proof -
  obtain i x w u where w: "sw_out LSU2_PORT (k_sw k) = Some ((i, x), w)" and u: "csw_demux ((k_lsu2 k)\<lparr>l_root_in := [x]\<rparr>) = Some u"
    and k': "k' = k\<lparr>k_sw := w, k_lsu2 := u\<rparr>"
    using assms(1) by (auto simp: kvs_control_def split: option.splits)
  let ?s = "(k_lsu2 k)\<lparr>l_root_in := [x]\<rparr>"
  have ok: "hsu_ok R k" "sw_ok R (k_sw k)" "l_root_in (k_lsu2 k) = []" "quiet (k_lsu2 k)" "answers R T (k_lsu2 k)"
    using assms(3) by (auto simp: kvs_ok_def unit2_ok_def lsu_ok_def kvs_unit2_def dest: quiet_unfeed)
  have i: "i = HSU_PORT" "sw_ok R w"
    using transit_out [OF w] ok(2) w by (fastforce simp: sw_ok_def may_pass_def, fastforce simp: sw_ok_def sw_out_def split: list.splits)
  then have f: "kvs_flits R k = x # kvs_flits R k'"
    using sw_out_path [OF w, of 8 HSU_PORT LSU2_PORT] by (simp add: kvs_flits_defs k')
  then have "kvs_unit2 R k = feed (kvs_flits R k') ?s"
    by (simp add: kvs_unit2_def feed_def ok(3))
  then have "lsu_exec Demux (kvs_unit2 R k) = Some (kvs_unit2 R k')"
    using csw_demux_feed [OF u, of "kvs_flits R k'"] by (simp add: kvs_unit2_def k')
  note c = unit2_keeps [OF assms(3) this]
  obtain v where v: "x = idx_flit R v" "in_reach T v"
    using assms(3) f by (auto simp: kvs_ok_def unit2_ok_def Cons_eq_map_conv)
  have s: "feed (map (idx_flit R) ws) ?s = feed (map (idx_flit R) (v # ws)) (k_lsu2 k)" for ws
    by (simp add: feed_def ok(3) v(1))
  then have "?s = feed (map (idx_flit R) [v]) (k_lsu2 k)"
    by (simp add: feed_def ok(3) v(1))
  then have q: "quiet ?s" and "r_data ?s = r_data (k_lsu2 k) @ slot_words T v"
    using quiet_feed [OF ok(4) assms(2), of "[v]"] ok(5) [unfolded answers_def, rule_format, of "[v]"] v(2) by simp_all
  then have a: "answers R T ?s"
    using ok(5) [unfolded answers_def, rule_format, of "v # ws" for ws] v(2) unfolding answers_def s by simp
  have "answers R T u"
    by (rule lsu_exec_answers [OF _ q assms(2) a, of Demux]) (simp add: u)
  then have "hsu_ok R k'" "sw_ok R (k_sw k')" "l_root_in (k_lsu2 k') = []" "answers R T (k_lsu2 k')" "\<exists>n. kvs_flits R k' = drop n (kvs_flits R k)"
    using ok i u f by (auto simp: hsu_ok_def k' csw_demux_def on_ch_def intro: exI [of _ 1])
  then show "kvs_keeps R T k k'" "lsu_work (kvs_unit2 R k') < lsu_work (kvs_unit2 R k)"
    using c by (simp_all add: k' kvs_keys_def)
qed

text \<open>Steps of the comparing unit.\<close>

lemma key_keeps:
  assumes "kvs_key k = Some k'" "kvs_ok R T k"
  shows "kvs_keeps R T k k'"
proof -
  obtain x xs u where x: "k_que k = x # xs" and u: "indel_key x (k_idu k) = Some u" and k': "k' = k\<lparr>k_que := xs, k_idu := u\<rparr>"
    using assms(1) by (auto simp: kvs_key_def split: list.splits)
  have "kvs_keys k = td_data x # kvs_keys k'" "kvs_flits R k' = kvs_flits R k"
    by (simp_all add: kvs_keys_def kvs_flits_defs x k')
  then show ?thesis
    using assms(2) indel_key_rest [OF u, of "kvs_keys k'" "kvs_words R k"]
    by (simp add: kvs_keeps_def kvs_ok_def unit2_ok_def kvs_unit2_def kvs_result_def kvs_words_def k' hsu_ok_def)
qed

lemma r_data_dout: "l_dout s = x # xs \<Longrightarrow> l_din s = [] \<Longrightarrow> r_data s = td_data x # r_data (s\<lparr>l_dout := xs\<rparr>)"
  by (simp add: r_data_def r_addrs_def dmacs_of_def)

lemma slot_keeps:
  assumes "kvs_slot k = Some k'" "kvs_ok R T k"
  shows "kvs_keeps R T k k'" "lsu_work (kvs_unit2 R k) = lsu_work (kvs_unit2 R k') + 2"
proof -
  obtain x xs u where x: "l_dout (k_lsu2 k) = x # xs" and u: "indel_data x (k_idu k) = Some u"
    and k': "k' = k\<lparr>k_lsu2 := (k_lsu2 k)\<lparr>l_dout := xs\<rparr>, k_idu := u\<rparr>"
    using assms(1) by (auto simp: kvs_slot_def split: list.splits)
  have f: "kvs_keys k' = kvs_keys k" "kvs_flits R k' = kvs_flits R k" "kvs_unit2 R k' = (kvs_unit2 R k)\<lparr>l_dout := xs\<rparr>"
    by (simp_all add: kvs_keys_def kvs_unit2_def kvs_flits_defs x k' feed_upd)
  have ok: "lsu_ok (kvs_unit2 R k)" "l_dout (kvs_unit2 R k) = x # xs"
    using assms(2) x by (simp_all add: kvs_ok_def unit2_ok_def kvs_unit2_def)
  then have din: "l_din (k_lsu2 k) = []"
    by (simp add: lsu_ok_def quiet_def kvs_unit2_def)
  have "answers R T (k_lsu2 k')"
    using assms(2) r_data_dout [OF x din] r_data_dout [of "feed ys (k_lsu2 k)" x xs for ys] x din
    by (simp add: kvs_ok_def unit2_ok_def answers_def k' feed_upd)
  then show "kvs_keeps R T k k'" "lsu_work (kvs_unit2 R k) = lsu_work (kvs_unit2 R k') + 2"
    using assms(2) indel_data_rest [OF u, of "kvs_keys k" "kvs_words R k'"] lsu_take_dout [OF ok(1,2)] f
    by (simp_all add: kvs_keeps_def kvs_ok_def unit2_ok_def kvs_result_def kvs_words_def k' hsu_ok_def)
qed

lemma value_keeps:
  assumes "kvs_value k = Some k'" "kvs_ok R T k"
  shows "kvs_keeps R T k k'"
proof -
  obtain x u where u: "indel_out (k_idu k) = Some (x, u)" and k': "k' = k\<lparr>k_idu := u, k_out := k_out k @ [x]\<rparr>"
    using assms(1) by (auto simp: kvs_value_def)
  have "kvs_keys k' = kvs_keys k" "kvs_flits R k' = kvs_flits R k"
    by (simp_all add: kvs_keys_def kvs_flits_defs k')
  then show ?thesis
    using assms(2) indel_out_rest [OF u, of "kvs_keys k" "kvs_words R k"]
    by (simp add: kvs_keeps_def kvs_ok_def unit2_ok_def kvs_unit2_def kvs_result_def kvs_words_def k' hsu_ok_def)
qed

lemma kvs_exec_keeps: "kvs_exec t k = Some k' \<Longrightarrow> hsu_setup R \<Longrightarrow> kvs_ok R T k \<Longrightarrow> kvs_keeps R T k k'"
  by (cases t) (auto intro: lsu1_keeps split_keeps queue_keeps hash_keeps respond_keeps route_keeps take_keeps put_keeps control_keeps lsu2_keeps
      key_keeps slot_keeps value_keeps)

section \<open>Responses of two words\<close>

text \<open>
  With an index of more than four bytes the response has a second word. It is read from register 7 when the switch takes the first one, and by
  then the response FIFO is free: the hash unit may have written the index of the next key there.
\<close>

lemma second_word_of_next_key:
  assumes "k_hout k = [x]" "k_send k = Some a" "ra_len (ac_srac a) = 1" "ra_sel (ac_srac a) = 7" "k_arsp k = []"
    and "\<not> hs_seldo (k_hreg k)" "mix_inv (k_hash k)" "mix_valid (k_hash k) True" "sw_hold (k_sw k) HSU_PORT = []"
  shows "\<exists>k' k''. kvs_hash k = Some k' \<and> kvs_route k' = Some k'' \<and>
    map tc_data (k_hout k'') = [ucast (drop_bit 32 (tap_index (k_hreg k) (mix_out (k_hash k))))]"
proof -
  let ?out = "hsu_out (k_hreg k) (k_hash k) True"
  have v: "True \<in> set (h_v (k_hash k))"
    using assms(7,8) by (auto simp: mix_valid_def mix_inv_def STAGES_def in_set_conv_nth intro!: exI [of _ 11])
  have o: "ho_vwe ?out ! 7" "ho_vrsp ?out ! 7 = ucast (drop_bit 32 (tap_index (k_hreg k) (mix_out (k_hash k))))"
    using assms(6,8) by (simp_all add: hsu_out_def mc_hash_out_def Let_def hreg_def tap_index_def split_beta)
  obtain k' where k': "kvs_hash k = Some k'" "k_hreg k' ! 7 = ucast (drop_bit 32 (tap_index (k_hreg k) (mix_out (k_hash k))))"
    "k_hout k' = [x]" "k_send k' = Some a" "k_sw k' = k_sw k"
    using v o assms(1,2,5) by (auto simp: kvs_hash_def Let_def)
  then show ?thesis
    using assms(3,4,9) by (auto simp: kvs_route_def sw_demux_def rsp_flit_def Let_def)
qed

end
