(* ===== verification/Kvs_Runs.thy ===== *)
theory Kvs_Runs
  imports Kvs_Lookup
begin

text \<open>
  Runs of the lookup accelerator: every step uses up work, and a state without a next step has nothing left on the way. With the registers
  set as for a lookup, the values are those that a search of the table in memory gives.
\<close>

section \<open>Work\<close>

text \<open>A key has the more way to go in the hash unit the lower its stage.\<close>

fun weigh :: "nat \<Rightarrow> bool list \<Rightarrow> nat" where
  "weigh n [] = 0"
| "weigh n (v # vs) = (if v then n else 0) + weigh (n - 1) vs"

lemma weigh_append: "weigh n (xs @ ys) = weigh n xs + weigh (n - length xs) ys"
  by (induction n xs rule: weigh.induct) auto

lemma weigh_Suc: "length xs \<le> n \<Longrightarrow> weigh (Suc n) xs = weigh n xs + count_list xs True"
proof (induction xs arbitrary: n)
  case (Cons x xs)
  then show ?case
    by (cases n) auto
qed simp

lemma weigh_shift:
  assumes "length vs = 12"
  shows "weigh 21 (v # take 11 vs) + count_list (take 11 vs) True + (if vs ! 11 then 10 else 0) = weigh 21 vs + (if v then 21 else 0)"
proof -
  have "vs = take 11 vs @ [vs ! 11]"
    using take_Suc_conv_app_nth [of 11 vs] assms by simp
  then have "weigh 21 vs = weigh 21 (take 11 vs) + (if vs ! 11 then 10 else 0)"
    using weigh_append [of 21 "take 11 vs" "[vs ! 11]"] assms by simp
  then show ?thesis
    using weigh_Suc [of "take 11 vs" 20] by simp
qed

definition sw_work :: "cswitch \<Rightarrow> nat" where
  "sw_work w = 3 * flits_in 8 (sw_hold w) + 2 * flits_in 8 (sw_mux w) + flits_in 8 (sw_queue w)"

definition up_work :: "kvs \<Rightarrow> nat" where
  "up_work k = 64 * lsu_work (k_lsu1 k) + 5 * length (k_d1 k) + 4 * length (k_que k) + 40 * length (k_d2 k) + weigh 21 (h_v (k_hash k)) +
     9 * length (k_arsp k) + 7 * length (k_hout k) + sw_work (k_sw k) + length (id_out (k_idu k))"

definition kvs_work :: "regs \<Rightarrow> kvs \<Rightarrow> nat" where
  "kvs_work R k = up_work k + 10 * lsu_work (kvs_unit2 R k)"

lemma lsu1_work: "on_lsu1 t k = Some k' \<Longrightarrow> kvs_ok R T k \<Longrightarrow> up_work k' < up_work k"
  by (auto simp: on_lsu1_def up_work_def kvs_ok_def split: if_splits dest: lsu_exec_ok)

lemma split_work: "kvs_split k = Some k' \<Longrightarrow> kvs_ok R T k \<Longrightarrow> up_work k' < up_work k"
  by (auto simp: kvs_split_def up_work_def kvs_ok_def split: list.splits if_splits dest: lsu_take_dout)

lemma queue_work: "kvs_queue k = Some k' \<Longrightarrow> up_work k' < up_work k"
  by (auto simp: kvs_queue_def up_work_def split: list.splits if_splits)

lemma hash_work:
  assumes "kvs_hash k = Some k'" "hsu_setup R" "hsu_ok R k"
  shows "up_work k' < up_work k"
proof -
  let ?vs = "h_v (k_hash k)" and ?v = "k_d2 k \<noteq> []"
  have len: "length ?vs = 12" and cfg: "same_cfg R (k_hreg k)"
    using assms(3) by (simp_all add: hsu_ok_def mix_inv_def STAGES_def)
  have r: "k_arsp k = []" "?v \<or> True \<in> set ?vs"
    using assms(1) by (auto simp: kvs_hash_def Let_def split: if_splits)
  have h: "h_v (k_hash k') = ?v # take 11 ?vs"
    using assms(1) by (auto simp: kvs_hash_def Let_def hsu_simps mix_clock_def mix_v_clock hsu_word_def split: if_splits)
  have d: "length (k_d2 k) = length (k_d2 k') + (if ?v then 1 else 0)" "length (k_arsp k') = (if ?vs ! 11 then 1 else 0)"
    using assms(1) r(1)
    by (auto simp: kvs_hash_def Let_def hsu_out_cfg [OF assms(2) cfg] hsu_simps mix_ready_def mix_dat_ready_def mix_valid_def split: if_splits)
  have o: "k_lsu1 k' = k_lsu1 k" "k_d1 k' = k_d1 k" "k_que k' = k_que k" "k_hout k' = k_hout k" "k_sw k' = k_sw k" "k_idu k' = k_idu k"
    using kvs_hashD [OF assms] by auto
  have "?v \<or> ?vs ! 11 \<or> 0 < count_list (take 11 ?vs) True"
  proof -
    have "?vs = take 11 ?vs @ [?vs ! 11]"
      using take_Suc_conv_app_nth [of 11 ?vs] len by simp
    then show ?thesis
      using r(2) by (metis Un_iff count_notin count_list_0_iff insert_iff list.simps(15) neq0_conv set_append singletonD list.set(1))
  qed
  then show ?thesis
    using weigh_shift [OF len, of ?v] d r(1) unfolding up_work_def o h by (auto split: if_splits)
qed

lemma respond_work: "kvs_respond k = Some k' \<Longrightarrow> hsu_ok R k \<Longrightarrow> up_work k' < up_work k"
  using kvs_respondD [of k k' R] by (auto simp: up_work_def)

lemma route_work:
  assumes "kvs_route k = Some k'" "hsu_ok R k"
  shows "up_work k' < up_work k"
proof -
  obtain v a where h: "k_hout k = [idx_flit R v]" "k_send k = Some a" "ra_len (ac_srac a) = 0"
    using assms by (auto simp: kvs_route_def hsu_ok_def)
  then obtain w where w: "sw_demux HSU_PORT (idx_flit R v) (k_sw k) = Some w" and k': "k' = k\<lparr>k_sw := w, k_hout := [], k_send := None\<rparr>"
    using assms(1) by (auto simp: kvs_route_def rsp_flit_last)
  have "sw_hold (k_sw k) HSU_PORT = []" "w = (k_sw k)\<lparr>sw_hold := (sw_hold (k_sw k))(HSU_PORT := [idx_flit R v])\<rparr>"
    using w by (auto simp: sw_demux_def split: if_splits)
  then show ?thesis
    using flits_in_upd [of HSU_PORT 8 "sw_hold (k_sw k)" "[idx_flit R v]"] by (simp add: up_work_def sw_work_def k' h HSU_PORT_def)
qed

lemma sw_mux_take_work: "sw_mux_take 8 j w = Some w' \<Longrightarrow> sw_work w' < sw_work w"
proof -
  assume "sw_mux_take 8 j w = Some w'"
  then obtain i x xs where i: "i < 8" "sw_hold w i = x # xs" "csw_port 8 (tc_dest x) = j" "sw_mux w j = []"
    "w' = w\<lparr>sw_hold := (sw_hold w)(i := xs), sw_mux := (sw_mux w)(j := [(i, x)])\<rparr>"
    using sw_mux_takeD by blast
  then show ?thesis
    using flits_in_upd [of i 8 "sw_hold w" xs] flits_in_upd [of j 8 "sw_mux w" "[(i, x)]"] csw_port_less [of 8 "tc_dest x"] by (simp add: sw_work_def)
qed

lemma sw_mux_put_work: "sw_mux_put j w = Some w' \<Longrightarrow> sw_ok R w \<Longrightarrow> sw_work w' < sw_work w"
proof -
  assume a: "sw_mux_put j w = Some w'" "sw_ok R w"
  then obtain p ps where p: "sw_mux w j = p # ps" "w' = w\<lparr>sw_mux := (sw_mux w)(j := ps), sw_queue := (sw_queue w)(j := sw_queue w j @ [p])\<rparr>"
    by (auto simp: sw_mux_put_def split: list.splits if_splits)
  then have "p \<in> transit w j"
    by (simp add: transit_def)
  then have "p \<in> may_pass j"
    using a(2) by (auto simp: sw_ok_def)
  then have "j < 8"
    by (simp add: may_pass_def LSU2_PORT_def split: if_splits)
  then show ?thesis
    using flits_in_upd [of j 8 "sw_mux w" ps] flits_in_upd [of j 8 "sw_queue w" "sw_queue w j @ [p]"] p by (simp add: sw_work_def)
qed

lemma sw_out_work: "sw_out LSU2_PORT w = Some (p, w') \<Longrightarrow> sw_work w' < sw_work w"
  using flits_in_upd [of LSU2_PORT 8 "sw_queue w" "tl (sw_queue w LSU2_PORT)"]
  by (auto simp: sw_out_def sw_work_def LSU2_PORT_def split: list.splits)

lemma on_sw_work: "on_sw f k = Some k' \<Longrightarrow> (\<And>w. f (k_sw k) = Some w \<Longrightarrow> sw_work w < sw_work (k_sw k)) \<Longrightarrow> up_work k' < up_work k"
  by (auto simp: on_sw_def up_work_def)

lemma control_work: "kvs_control k = Some k' \<Longrightarrow> up_work k' < up_work k"
  by (auto simp: kvs_control_def up_work_def split: option.splits dest: sw_out_work)

lemma idu_work: "kvs_key k = Some k' \<Longrightarrow> up_work k' < up_work k" "kvs_value k = Some k' \<Longrightarrow> up_work k' < up_work k" "kvs_slot k = Some k' \<Longrightarrow> up_work k' \<le> up_work k + 1"
  by (auto simp: kvs_key_def kvs_value_def kvs_slot_def indel_key_def indel_out_def indel_data_def up_work_def Let_def split: list.splits option.splits if_splits)

lemma kvs_exec_work:
  assumes "kvs_exec t k = Some k'" "hsu_setup R" "kvs_ok R T k"
  shows "kvs_work R k' < kvs_work R k"
proof -
  have k: "lsu_work (kvs_unit2 R k') \<le> lsu_work (kvs_unit2 R k)"
    using kvs_exec_keeps [OF assms] by (simp add: kvs_keeps_def)
  have ok: "hsu_ok R k" "sw_ok R (k_sw k)"
    using assms(3) by (simp_all add: kvs_ok_def)
  show ?thesis
  proof (cases t)
    case (Lsu1 u)
    then show ?thesis
      using assms k lsu1_work [of u k k' R T] by (simp add: kvs_work_def)
  next
    case (Lsu2 u)
    then have "up_work k' = up_work k" "lsu_work (kvs_unit2 R k') < lsu_work (kvs_unit2 R k)"
      using assms lsu2_keeps(2) by (auto simp: on_lsu2_def up_work_def split: if_splits)
    then show ?thesis
      by (simp add: kvs_work_def)
  next
    case Slot
    then show ?thesis
      using assms idu_work(3) [of k k'] slot_keeps(2) [of k k' R T] by (simp add: kvs_work_def)
  next
    case (XTake j)
    then have "up_work k' < up_work k"
      using assms(1) on_sw_work sw_mux_take_work by (metis kvs_exec.simps(7))
    then show ?thesis
      using k by (simp add: kvs_work_def)
  next
    case (XPut j)
    then have "up_work k' < up_work k"
      using assms(1) on_sw_work sw_mux_put_work [OF _ ok(2)] by (metis kvs_exec.simps(8))
    then show ?thesis
      using k by (simp add: kvs_work_def)
  qed (use assms k ok split_work [of k k' R T] queue_work [of k k'] hash_work [of k k' R] respond_work [of k k' R] route_work [of k k' R]
      control_work [of k k'] idu_work(1,2) [of k k'] in \<open>simp_all add: kvs_work_def\<close>)
qed

section \<open>An accelerator that cannot go on\<close>

lemma lsu_unfeed: "lsu_ok (feed xs s) \<Longrightarrow> lsu_ok s"
  by (auto simp: lsu_ok_def lsu_writes_def writes_append dest: quiet_unfeed)

lemma kvs_words_answer:
  assumes "kvs_ok R T k" "kvs_flits R k = map (idx_flit R) ws" "list_all (in_reach T) ws"
  shows "kvs_words R k = r_data (k_lsu2 k) @ concat (map (slot_words T) ws)"
  using assms by (simp add: kvs_ok_def unit2_ok_def kvs_words_def kvs_unit2_def answers_def)

lemma length_slot_words: "length (concat (map (slot_words T) ws)) = 2 * (tb_plen T + 1) * length ws"
  by (induction ws) (simp_all add: slot_words_def)

lemma sw_drained:
  assumes "\<And>j. sw_mux_take 8 j w = None" "\<And>j. sw_mux_put j w = None" "sw_queue w LSU2_PORT = []" "hsu_setup R" "sw_ok R w"
  shows "sw_path 8 HSU_PORT LSU2_PORT w = [] \<and> sw_hold w HSU_PORT = []"
proof -
  have m: "sw_mux w LSU2_PORT = []"
    using assms(2) [of LSU2_PORT] assms(3) by (auto simp: sw_mux_put_def QDEPTH_def split: list.splits)
  have "sw_hold w HSU_PORT = []"
  proof (rule ccontr)
    assume "sw_hold w HSU_PORT \<noteq> []"
    then obtain x xs where "sw_hold w HSU_PORT = x # xs"
      by (cases "sw_hold w HSU_PORT") auto
    then have "xbar_valid 8 w HSU_PORT LSU2_PORT"
      using assms(4,5) kvs_port by (auto simp: sw_ok_def xbar_valid_def hsu_setup_def)
    moreover have "HSU_PORT < 8"
      by (simp add: HSU_PORT_def)
    ultimately show False
      using sw_mux_take_None [OF assms(1) m] by blast
  qed
  then show ?thesis
    using m assms(3) by (simp add: sw_path_def)
qed

lemma mix_stored_empty: "mix_inv s \<Longrightarrow> True \<notin> set (h_v s) \<Longrightarrow> mix_stored s = []"
proof -
  assume a: "mix_inv s" "True \<notin> set (h_v s)"
  have "\<not> h_v s ! n" if "n < 12" for n
    using a that by (metis (full_types) mix_inv_def STAGES_def nth_mem)
  then show ?thesis
    by (simp add: mix_stored_def mix_pending_def)
qed

lemma hsu_drained:
  assumes "\<And>t. kvs_exec t k = None" "hsu_ok R k" "sw_hold (k_sw k) HSU_PORT = []"
  shows "k_hout k = [] \<and> hash_flits R k = [] \<and> k_d2 k = []"
proof -
  have o: "k_hout k = []"
    using assms(1) [of Route] assms(3) by (auto simp: kvs_route_def sw_demux_def split: list.splits)
  then have a: "k_arsp k = []"
    using assms(1) [of Respond] assms(2) by (auto simp: kvs_respond_def hsu_ok_def split: list.splits prod.splits)
  then have "k_d2 k = []" "True \<notin> set (h_v (k_hash k))"
    using assms(1) [of Hash] by (auto simp: kvs_hash_def Let_def split: if_splits)
  then show ?thesis
    using o a assms(2) mix_stored_empty by (simp add: hash_flits_def hsu_ok_def)
qed

lemma id_need_0: "id_wf s \<Longrightarrow> id_need s = 0 \<Longrightarrow> id_cur s = None"
  by (auto simp: id_wf_def id_need_def split: option.splits)

lemma idu_stuck:
  assumes "\<And>t. kvs_exec t k = None"
  shows "id_out (k_idu k) = []" "id_cur (k_idu k) = None \<Longrightarrow> k_que k = [] \<and> k_d1 k = []" "l_dout (k_lsu2 k) \<noteq> [] \<Longrightarrow> id_cur (k_idu k) = None"
proof -
  show out: "id_out (k_idu k) = []"
    using assms [of Value] by (auto simp: kvs_value_def indel_out_def split: list.splits)
  assume "id_cur (k_idu k) = None"
  then have "k_que k = []"
    using assms [of Key] out by (auto simp: kvs_key_def indel_key_def split: list.splits)
  then show "k_que k = [] \<and> k_d1 k = []"
    using assms [of Queue] by (auto simp: kvs_queue_def QUE0_DEPTH_def split: list.splits)
next
  assume "l_dout (k_lsu2 k) \<noteq> []"
  then show "id_cur (k_idu k) = None"
    using assms [of Slot] assms [of Value]
    by (auto simp: kvs_slot_def indel_data_def kvs_value_def indel_out_def Let_def split: list.splits option.splits if_splits)
qed

lemma lsu2_drained:
  assumes "\<And>t. kvs_exec t k = None" "lsu_ok (k_lsu2 k)" "l_dout (k_lsu2 k) = []"
  shows "r_data (k_lsu2 k) = [] \<and> sw_queue (k_sw k) LSU2_PORT = []"
proof -
  have "lsu_exec t (k_lsu2 k) = None" if "t \<noteq> Wire" for t
    using assms(1) [of "Lsu2 t"] that by (simp add: on_lsu2_def)
  then have l2: "c_in (l_ch (k_lsu2 k) False) = [] \<and> l_root_in (k_lsu2 k) = [] \<and> r_data (k_lsu2 k) = []"
    using assms(2,3) by (intro reads_drained) (auto simp: lsu_ok_def)
  then have c: "c_in (l_ch (k_lsu2 k) b) = []" for b
    using assms(2) by (cases b) (simp_all add: lsu_ok_def quiet_def lsuctl_reset_def)
  have "sw_queue (k_sw k) LSU2_PORT = []"
    using assms(1) [of Control] c by (auto simp: kvs_control_def sw_out_def csw_demux_def on_ch_def split: list.splits option.splits)
  then show ?thesis
    using l2 by simp
qed

text \<open>By the count of words, no flit is held back by a unit that waits for another one.\<close>

lemma kvs_stuck:
  assumes none: "\<And>t. kvs_exec t k = None" and "hsu_setup R" and ok: "kvs_ok R T k"
  shows "kvs_result R k = k_out k"
proof -
  have o: "hsu_ok R k" "sw_ok R (k_sw k)" "lsu_ok (k_lsu1 k)" "lsu_ok (k_lsu2 k)" "id_wf (k_idu k)"
    and count: "length (kvs_words R k) = id_need (k_idu k) + 2 * (tb_plen T + 1) * length (kvs_keys k)"
    using ok by (auto simp: kvs_ok_def unit2_ok_def kvs_unit2_def dest: lsu_unfeed)
  obtain ws where ws: "kvs_flits R k = map (idx_flit R) ws" "list_all (in_reach T) ws"
    using ok by (auto simp: kvs_ok_def unit2_ok_def)
  have words: "length (kvs_words R k) = length (r_data (k_lsu2 k)) + 2 * (tb_plen T + 1) * length (kvs_flits R k)"
    using kvs_words_answer [OF ok ws] ws(1) by (simp add: length_slot_words)
  have "l_dout (k_lsu2 k) = []"
  proof (rule ccontr)
    assume d: "l_dout (k_lsu2 k) \<noteq> []"
    have "length (kvs_words R k) = 2 * (tb_plen T + 1) * length (r_data (k_lsu1 k))"
      unfolding count using idu_stuck(2,3) [OF none] d by (simp add: id_need_def kvs_keys_def)
    moreover have "0 < length (r_data (k_lsu2 k))" "length (r_data (k_lsu1 k)) \<le> length (kvs_flits R k)"
      using d by (simp_all add: r_data_def kvs_flits_def)
    moreover from this(2) have "2 * (tb_plen T + 1) * length (r_data (k_lsu1 k)) \<le> 2 * (tb_plen T + 1) * length (kvs_flits R k)"
      by (rule mult_le_mono2)
    ultimately show False
      using words by linarith
  qed
  note l2 = lsu2_drained [OF none o(4) this]
  have "sw_mux_take 8 j (k_sw k) = None" "sw_mux_put j (k_sw k) = None" for j
    using none [of "XTake j"] none [of "XPut j"] by (simp_all add: on_sw_def)
  then have "sw_path 8 HSU_PORT LSU2_PORT (k_sw k) = [] \<and> sw_hold (k_sw k) HSU_PORT = []"
    using assms(2) o(2) l2 by (intro sw_drained) auto
  then have h: "k_d2 k = []" and f: "length (kvs_flits R k) = length (r_data (k_lsu1 k))"
    using hsu_drained [OF none o(1)] by (auto simp: kvs_flits_def)
  have "id_need (k_idu k) + 2 * (tb_plen T + 1) * length (k_que k @ k_d1 k) = 0"
    using count words f l2 by (simp add: kvs_keys_def distrib_left)
  then have c: "id_cur (k_idu k) = None" "k_que k = []" "k_d1 k = []"
    using id_need_0 o(5) by auto
  then have "l_dout (k_lsu1 k) = []"
    using none [of Split] h by (auto simp: kvs_split_def split: list.splits)
  moreover have "lsu_exec t (k_lsu1 k) = None" if "t \<noteq> Wire" for t
    using none [of "Lsu1 t"] that by (simp add: on_lsu1_def)
  ultimately have "r_data (k_lsu1 k) = []"
    using o(3) reads_drained [of "k_lsu1 k"] by (simp add: lsu_ok_def)
  then show ?thesis
    using c idu_stuck(1) [OF none] by (simp add: kvs_result_def id_rest_def kvs_keys_def)
qed

section \<open>Runs\<close>

lemma kvs_step_inv:
  assumes "kvs_step k k'" "hsu_setup R" "kvs_ok R T k"
  shows "kvs_ok R T k' \<and> kvs_result R k' = kvs_result R k \<and> kvs_work R k' < kvs_work R k"
  using assms(1) kvs_exec_keeps [OF _ assms(2,3)] kvs_exec_work [OF _ assms(2,3)] by (auto elim!: kvs_stepE simp: kvs_keeps_def)

interpretation kvs: worked kvs_step "\<lambda>k. hsu_setup R \<and> kvs_ok R T k \<and> kvs_result R k = r" "kvs_work R" for R T r
  using kvs_step_inv by unfold_locales blast+

lemma kvs_run:
  assumes "(kvs_step ^^ j) k0 k" "hsu_setup R" "kvs_ok R T k0"
  shows "j \<le> kvs_work R k0 \<and> prefix (k_out k) (kvs_result R k0) \<and> ((\<nexists>k'. kvs_step k k') \<longrightarrow> k_out k = kvs_result R k0)"
proof -
  have r: "kvs_ok R T k" "kvs_result R k = kvs_result R k0" "j \<le> kvs_work R k0"
    using kvs.run [OF assms(1), of R T "kvs_result R k0"] assms(2,3) by auto
  moreover have "prefix (k_out k) (kvs_result R k)"
    by (simp add: kvs_result_def prefix_def)
  moreover have "k_out k = kvs_result R k" if "\<nexists>k'. kvs_step k k'"
  proof -
    have "kvs_exec t k = None" for t
      using that by (cases "kvs_exec t k") (auto intro: kvs_step.thread)
    then show ?thesis
      using kvs_stuck [OF _ assms(2) r(1)] by simp
  qed
  ultimately show ?thesis
    by auto
qed

end
