(* ===== verification/Kvs_Values.thy ===== *)
theory Kvs_Values
  imports Kvs_Runs
begin

text \<open>
  The values the lookup accelerator gives: with the registers set for a lookup, the value of every key is the one that a search of the slots
  in memory gives, starting at the index of the software hash.
\<close>

section \<open>The table in memory\<close>

definition table_slot :: "lookup_table \<Rightarrow> nat \<Rightarrow> slot_s" where
  "table_slot T i = (let a = ucast (tb_base T) + 16 * of_nat i in slot_of (rd64 (tb_mem T) a) (rd64 (tb_mem T) (a + 8)))"

definition table_lookup :: "lookup_table \<Rightarrow> nat \<Rightarrow> u64 \<Rightarrow> u32" where
  "table_lookup T i key = slot_find key (map (table_slot T) [i..<i + tb_plen T + 1])"

lemma slots_of_words: "slots (map (rd64 m) (flit_addrs a (2 * n))) = map (\<lambda>i. slot_of (rd64 m (a + 16 * of_nat i)) (rd64 m (a + 16 * of_nat i + 8))) [0..<n]"
proof (induction n arbitrary: a)
  case (Suc n)
  have "[0..<Suc n] = 0 # map Suc [0..<n]"
    by (simp add: upt_conv_Cons map_Suc_upt del: upt_Suc)
  then show ?case
    using Suc.IH [of "a + 16"] by (simp add: flit_addrs_Suc distrib_left add_ac del: upt_Suc)
qed simp

lemma slots_lookup: "slot_find key (slots (slot_words T w)) = table_lookup T (unat w) key"
proof -
  have "[unat w..<unat w + tb_plen T + 1] = map (\<lambda>i. unat w + i) [0..<tb_plen T + 1]"
    using map_add_upt [of "unat w" "tb_plen T + 1"] by (simp only: add.commute [of "unat w"] add.left_commute [of "unat w"] add.assoc)
  then have "map (table_slot T) [unat w..<unat w + tb_plen T + 1] = slots (slot_words T w)"
    unfolding slot_words_def slots_of_words
    by (simp add: table_slot_def Let_def distrib_left add.assoc comp_def del: upt_Suc)
  then show ?thesis
    by (simp only: table_lookup_def)
qed

lemma id_values_lookup:
  "id_values (tb_plen T + 1) ks (concat (map (\<lambda>key. slot_words T (f key)) ks)) = map (\<lambda>key. table_lookup T (unat (f key)) key) ks"
proof (induction ks)
  case (Cons key ks)
  have "length (slot_words T (f key)) = 2 * (tb_plen T + 1)"
    by (simp add: slot_words_def)
  then show ?case
    using Cons.IH by (simp add: slots_lookup del: mult_Suc_right)
qed simp

section \<open>Load-store unit 2 reads slots\<close>

definition lsu2_setup :: "u32 list \<Rightarrow> lookup_table \<Rightarrow> bool" where
  "lsu2_setup L T \<longleftrightarrow> length L = 8 \<and> lr_command L = 4 \<and> \<not> lr_reqstat L \<and> lr_address L = tb_base T \<and> lr_size L = 16 \<and>
     unat (lr_trans L) = 16 * (tb_plen T + 1) \<and> 8 dvd unat (tb_base T) \<and> tb_plen T < 1024"

lemma idx_cmds:
  "length reg = 8 \<Longrightarrow> cmds reg None [] (map (idx_flit R) ws) = concat (map (\<lambda>w. lsu_dmacs (reg[4 := w]) (hd (go_acmd (idx_flit R w)))) ws)"
proof (induction ws arbitrary: reg)
  case (Cons w ws)
  then show ?case
    using Cons.IH [of "reg[4 := w]"] by (simp add: idx_flit_def go_acmd_def Let_def cmds_Cons)
qed simp

lemma unat_slot_addr:
  assumes "in_reach T w"
  shows "unat (ucast (tb_base T) + 16 * ucast w :: u64) = unat (tb_base T) + 16 * unat w"
    and "(ucast (ucast w :: 30 word) * 16 + tb_base T :: u32) = ucast (ucast (tb_base T) + 16 * ucast w :: u64)"
proof -
  have w: "unat w < 2 ^ 28" "unat (tb_base T) + 16 * unat w < 2 ^ 32"
    using assms by (auto simp: in_reach_def)
  have u: "unat (ucast w :: u64) = unat w" "unat (ucast (tb_base T) :: u64) = unat (tb_base T)"
    by (simp_all add: unsigned_ucast_eq take_bit_nat_eq_self unsigned_less [THEN less_le_trans])
  have "unat (16 * ucast w :: u64) = 16 * unat w"
    using w(1) by (simp add: unat_word_ariths u)
  then show a: "unat (ucast (tb_base T) + 16 * ucast w :: u64) = unat (tb_base T) + 16 * unat w"
    using w(2) by (simp add: unat_word_ariths u)
  have "unat (ucast (ucast w :: 30 word) :: u32) = unat w"
    using w(1) by (simp add: unat_ucast_small)
  then have "unat (ucast (ucast w :: 30 word) * 16 + tb_base T :: u32) = unat (tb_base T) + 16 * unat w"
    using w by (simp add: unat_word_ariths)
  moreover have "unat (ucast (ucast (tb_base T) + 16 * ucast w :: u64) :: u32) = unat (tb_base T) + 16 * unat w"
    using w(2) a by (simp add: unat_ucast_small)
  ultimately show "(ucast (ucast w :: 30 word) * 16 + tb_base T :: u32) = ucast (ucast (tb_base T) + 16 * ucast w :: u64)"
    by (simp only: word_unat_eq_iff)
qed

lemma idx_dmac:
  assumes "lsu2_setup L T" "in_reach T w"
  shows "concat (map dmac_r (lsu_dmacs (L[4 := w]) a)) = flit_addrs (ucast (tb_base T) + 16 * ucast w) (2 * (tb_plen T + 1))"
proof -
  let ?a = "ucast (tb_base T) + 16 * ucast w :: u64" and ?n = "of_nat (16 * (tb_plen T + 1)) :: u64"
  define x where "x = \<lparr>dm_size = ucast (lr_trans L), dm_last = True, dm_addr = ucast (ucast w :: 30 word) * 16 + tb_base T, dm_tag = \<lparr>tg_did = ac_sid a, tg_req = False\<rparr>\<rparr>"
  have p: "length L = 8" "lr_command L = 4" "\<not> lr_reqstat L" "lr_address L = tb_base T" "lr_size L = 16" "unat (lr_trans L) = 16 * (tb_plen T + 1)"
    "8 dvd unat (tb_base T)" "tb_plen T < 1024"
    using assms(1) by (simp_all add: lsu2_setup_def)
  have "lsu_dmacs (L[4 := w]) a = [x]"
    using p unfolding lsu_dmacs_def x_def by (simp add: lr_command_def lr_reqstat_def lr_address_def lr_size_def lr_index_def lr_trans_def Let_def)
  moreover have n: "unat ?n = 16 * (tb_plen T + 1)"
    using p(8) by (simp add: unsigned_of_nat take_bit_nat_eq_self del: of_nat_mult of_nat_add)
  have "dmac_r x = flit_addrs ?a (unat ?n div 8)"
  proof (rule dmac_copy)
    show "unat (dm_size x) = unat ?n"
      unfolding n using p(6,8) by (simp add: x_def unat_ucast_small)
    show "dm_addr x = ucast ?a"
      by (simp add: x_def unat_slot_addr(2) [OF assms(2)])
    show "8 dvd unat ?a" "8 dvd unat ?n" "0 < unat ?n" "unat ?a + unat ?n \<le> 2 ^ 32"
      unfolding n unat_slot_addr(1) [OF assms(2)] using p(7) assms(2) by (simp_all add: in_reach_def dvd_add)
  qed
  moreover have "unat ?n div 8 = 2 * (tb_plen T + 1)"
    unfolding n by simp
  ultimately show ?thesis
    by simp
qed

lemma start_answers:
  assumes "hsu_setup R" "lsu2_setup L T" "tb_mem T = m"
  shows "answers R T (k_lsu2 (kvs_start R L I xs m))" "r_data (k_lsu2 (kvs_start R L I xs m)) = []"
proof -
  let ?s = "k_lsu2 (kvs_start R L I xs m)"
  have c: "l_ch ?s False = lsuctl_reset\<lparr>c_reg := L\<rparr>" "l_mem ?s = m" "l_din ?s = []" "l_dout ?s = []" "mover_r (l_mm2s ?s) = []" "l_root_in ?s = []"
    by (simp_all add: kvs_start_def lsu_reset_def mover_reset_def mover_defs)
  have len: "length L = 8"
    using assms(2) by (simp add: lsu2_setup_def)
  have r: "root_for False (map (idx_flit R) ws) = map (idx_flit R) ws" for ws
    using assms(1) by (auto simp: root_for_def idx_flit_def hsu_setup_def intro!: filter_True)
  have d: "dmacs_of False (feed (map (idx_flit R) ws) ?s) = concat (map (\<lambda>w. lsu_dmacs (L[4 := w]) (hd (go_acmd (idx_flit R w)))) ws)" for ws
    using idx_cmds [OF len, of R ws] by (simp add: dmacs_of_def c r ctl_future_def reset_idle) (simp add: lsuctl_reset_def)
  have "concat (map dmac_r (dmacs_of False (feed (map (idx_flit R) ws) ?s))) =
      concat (map (\<lambda>w. flit_addrs (ucast (tb_base T) + 16 * ucast w) (2 * (tb_plen T + 1))) ws)" if "list_all (in_reach T) ws" for ws
    using that unfolding d by (induction ws) (simp_all add: idx_dmac [OF assms(2)])
  then have "r_data (feed (map (idx_flit R) ws) ?s) = concat (map (slot_words T) ws)" if "list_all (in_reach T) ws" for ws
    using that by (simp add: r_data_def r_addrs_def c map_concat slot_words_def [abs_def] assms(3) comp_def)
  from this this [of "[]"] show "answers R T ?s" "r_data ?s = []"
    by (simp_all add: answers_def feed_def)
qed

section \<open>The start\<close>

lemma start_keys:
  assumes "\<not> bit (gfwd_id g) 0" "8 dvd unat src" "8 dvd unat n" "0 < unat n" "unat n < 2 ^ 24" "unat src + unat n \<le> 2 ^ 32"
  shows "r_data (lsu_reset (packet_flits (move_packet g READ_CH src 0 n)) m) = map (rd64 m) (flit_addrs src (unat n div 8))"
    and "lsu_ok (lsu_reset (packet_flits (move_packet g READ_CH src 0 n)) m)"
proof -
  let ?rd = "packet_flits (move_packet g (ch_id False) src (of_bool False) n)"
  have rd: "packet_flits (move_packet g READ_CH src 0 n) = ?rd"
    by (simp add: ch_id_def)
  obtain x where x: "cmds (replicate 8 0) None [] ?rd = [x]" "unat (dm_size x) = unat n" "dm_addr x = ucast src"
    using move_packet_dmacs [OF assms(5), of g "ch_id False" src False] by blast
  have r: "root_for b ?rd = (if b then [] else ?rd)" for b
    using root_for_cmd [of ?rd "[]" b] move_packet_ch [OF assms(1)] by simp
  show "r_data (lsu_reset (packet_flits (move_packet g READ_CH src 0 n)) m) = map (rd64 m) (flit_addrs src (unat n div 8))"
    unfolding rd r_data_def r_addrs_def reset_dmacs r using x(1) dmac_copy(1) [OF x(2,3) assms(2-4,6)]
    by (simp add: lsu_reset_def mover_reset_def mover_defs)
  show "lsu_ok (lsu_reset (packet_flits (move_packet g READ_CH src 0 n)) m)"
    unfolding rd using r [of True] move_packet_ok(2) [of g "ch_id False" src "of_bool False" n]
    by (simp add: lsu_ok_def quiet_def lsu_writes_def ctl_writes_def balanced_def lsu_reset_def lsuctl_reset_def mover_reset_def tmanage_def writes_def
        OUTSTANDING_READ_def)
qed

text \<open>The table fits, and the indices are those of the software hash.\<close>

definition table_setup :: "regs \<Rightarrow> lookup_table \<Rightarrow> bool" where
  "table_setup R T \<longleftrightarrow> 0 < hs_keylen R \<and> hs_keylen R \<le> 8 \<and> unat (hs_tlen R) < 2 ^ 28 \<and>
     unat (tb_base T) + 16 * unat (hs_tlen R) + 16 * (tb_plen T + 1) \<le> 2 ^ 32"

lemma index_in_reach:
  assumes "table_setup R T" "hsu_setup R" "unat key < 2 ^ (8 * unat (hs_keylen R))"
  shows "unat (ucast (key_index R key) :: u32) = unat (soft_index R key)" "in_reach T (ucast (key_index R key))"
proof -
  have k: "key_index R key = soft_index R key"
    using hash_tap_index [of R key] assms by (simp add: table_setup_def hsu_setup_def key_index_def)
  have "unat (soft_index R key) \<le> unat (hs_tlen R)"
    unfolding soft_index_def by (simp add: word_and_le1 flip: word_le_nat_alt)
  then have s: "unat (soft_index R key) < 2 ^ 28" "16 * unat (soft_index R key) \<le> 16 * unat (hs_tlen R)"
    using assms(1) by (simp_all add: table_setup_def)
  then show u: "unat (ucast (key_index R key) :: u32) = unat (soft_index R key)"
    by (simp add: k unat_ucast_small)
  show "in_reach T (ucast (key_index R key))"
    using assms(1) s unfolding in_reach_def u table_setup_def by linarith
qed

definition table_of :: "u32 list \<Rightarrow> u32 list \<Rightarrow> mem \<Rightarrow> lookup_table" where
  "table_of L I m = \<lparr>tb_mem = m, tb_base = lr_address L, tb_plen = id_plen I\<rparr>"

lemma kvs_start_views:
  fixes R L I xs m
  defines "k0 \<equiv> kvs_start R L I xs m"
  shows "kvs_flits R k0 = map (idx_flit R) (map (ucast \<circ> key_index R) (r_data (lsu_reset xs m)))" "kvs_keys k0 = r_data (lsu_reset xs m)" "k_out k0 = []"
    "id_cur (k_idu k0) = None" "id_out (k_idu k0) = []" "id_reg (k_idu k0) = I" "k_lsu1 k0 = lsu_reset xs m" "l_root_in (k_lsu2 k0) = []" "id_wf (k_idu k0)"
    "sw_ok R (k_sw k0)" "length R = 8 \<Longrightarrow> hsu_ok R k0"
proof -
  have "mix_inv hash_reset" "mix_stored hash_reset = []"
    by (simp_all add: mix_inv_def mix_stored_def mix_pending_def hash_reset_def STAGES_def)
  then show "kvs_flits R k0 = map (idx_flit R) (map (ucast \<circ> key_index R) (r_data (lsu_reset xs m)))" "length R = 8 \<Longrightarrow> hsu_ok R k0"
    by (simp_all add: k0_def kvs_start_def kvs_flits_def hash_flits_def sw_path_def cswitch_reset_def hsu_ok_def same_cfg_def comp_assoc)
qed (simp_all add: k0_def kvs_start_def kvs_keys_def indel_reset_def lsu_reset_def id_wf_def sw_ok_def cswitch_reset_def transit_def)

lemma kvs_start_ok:
  fixes R L I xs m
  defines "k0 \<equiv> kvs_start R L I xs m" and "T \<equiv> table_of L I m"
  assumes "length R = 8" "hsu_setup R" "lsu2_setup L T" "table_setup R T" "lsu_ok (lsu_reset xs m)"
    and keys: "\<And>key. key \<in> set (r_data (lsu_reset xs m)) \<Longrightarrow> unat key < 2 ^ (8 * unat (hs_keylen R))"
  shows "kvs_ok R T k0" "kvs_result R k0 = map (\<lambda>key. id_flit (table_lookup T (unat (soft_index R key)) key)) (r_data (lsu_reset xs m))"
proof -
  let ?keys = "r_data (lsu_reset xs m)"
  let ?ws = "map (ucast \<circ> key_index R) ?keys"
  note v = kvs_start_views [of R L I xs m, folded k0_def]
  have T: "tb_mem T = m" "tb_plen T = id_plen I"
    by (simp_all add: T_def table_of_def)
  have a: "answers R T (k_lsu2 k0)" "r_data (k_lsu2 k0) = []"
    unfolding k0_def by (rule start_answers [OF assms(4,5) T(1)])+
  have ws: "list_all (in_reach T) ?ws"
    using index_in_reach(2) [OF assms(6,4)] keys by (simp add: list_all_iff)
  then have w: "kvs_words R k0 = concat (map (\<lambda>key. slot_words T (ucast (key_index R key))) ?keys)"
    using a(1) [unfolded answers_def, rule_format, OF ws] a(2) unfolding kvs_words_def kvs_unit2_def v(1) by (simp add: comp_def)
  have "lsu_ok (k_lsu2 k0)"
    by (simp add: k0_def kvs_start_def lsu_ok_def quiet_def lsu_writes_def ctl_writes_def balanced_def lsu_reset_def lsuctl_reset_def mover_reset_def
        tmanage_def writes_def OUTSTANDING_READ_def root_for_def)
  then have "lsu_ok (kvs_unit2 R k0)"
    using quiet_feed [OF _ assms(4), of "k_lsu2 k0" ?ws] unfolding kvs_unit2_def v(1)
    by (auto simp: lsu_ok_def lsu_writes_def writes_def idx_flit_def v(8) simp del: map_map)
  moreover have "length (kvs_words R k0) = 2 * (tb_plen T + 1) * length ?keys"
    using length_slot_words [of T ?ws] unfolding w by (simp add: comp_def)
  moreover have "\<exists>ws. kvs_flits R k0 = map (idx_flit R) ws \<and> list_all (in_reach T) ws"
    using v(1) ws by blast
  ultimately show "kvs_ok R T k0"
    using v(2-) assms(3,7) a T by (simp add: kvs_ok_def unit2_ok_def id_need_def)
  have "id_values (tb_plen T + 1) ?keys (kvs_words R k0) = map (\<lambda>key. table_lookup T (unat (soft_index R key)) key) ?keys"
    unfolding w id_values_lookup using index_in_reach(1) [OF assms(6,4)] keys by simp
  then show "kvs_result R k0 = map (\<lambda>key. id_flit (table_lookup T (unat (soft_index R key)) key)) ?keys"
    by (simp add: kvs_result_def id_rest_def id_need_def v T)
qed

section \<open>Lookups\<close>

text \<open>C1: The lookup accelerator, with its registers set for a lookup and load-store unit 1 commanded to read an array of keys, gives for
  every key, in order, the value of the first used slot with this key among the slots from the index of the software hash on, or zero when
  there is none. This holds under every schedule of its units, whenever the memory answers: what has been given is always a prefix of
  these values, every run is finite, and a run that cannot go on has given all of them.\<close>

theorem kvs_looks_up:
  fixes src n :: u64
  assumes "k0 = kvs_start R L I (packet_flits (move_packet g READ_CH src 0 n)) m" "T = table_of L I m"
    and "keys = map (rd64 m) (flit_addrs src (unat n div 8))" "values = map (\<lambda>key. id_flit (table_lookup T (unat (soft_index R key)) key)) keys"
    and "\<not> bit (gfwd_id g) 0" "8 dvd unat src" "8 dvd unat n" "0 < unat n" "unat n < 2 ^ 24" "unat src + unat n \<le> 2 ^ 32"
    and "length R = 8" "hsu_setup R" "lsu2_setup L T" "table_setup R T" "\<And>key. key \<in> set keys \<Longrightarrow> unat key < 2 ^ (8 * unat (hs_keylen R))"
    and "(kvs_step ^^ j) k0 k"
  shows "j \<le> kvs_work R k0 \<and> prefix (k_out k) values \<and> ((\<nexists>k'. kvs_step k k') \<longrightarrow> k_out k = values)"
proof -
  note s = start_keys [OF assms(5-10), of m]
  note r = kvs_start_ok [OF assms(11,12) assms(13,14) [unfolded assms(2)] s(2), unfolded s(1)]
  have "kvs_ok R T k0" "kvs_result R k0 = values"
    unfolding assms(1,2,4) assms(3) by (rule r, rule assms(15) [unfolded assms(3)], assumption)+
  then show ?thesis
    using kvs_run [OF assms(16,12)] by simp
qed

text \<open>
  A table with a single bucket at address 8192: the slot at its start has another key, the next slot has the key 7, which is read from address 4096.
\<close>

definition demo_mem :: mem where
  "demo_mem a = (if a = 4096 then 7 else if a = 8192 then 5 else if a = 8200 then 9 else if a = 8204 then 1
     else if a = 8208 then 7 else if a = 8216 then 42 else if a = 8220 then 1 else 0)"

theorem kvs_looks_up_witness:
  "\<exists>j k. (kvs_step ^^ j) (kvs_start [0, 0, 0, 0x20A80408, 0, 0, 0, 0] [0, 4, 8192, 16, 0, 32, 0, 0] [0, 1, 0, 0, 0, 0, 0, 0]
     (packet_flits (move_packet core_accel READ_CH 4096 0 8)) demo_mem) k \<and> k_out k = [id_flit 42]"
proof -
  let ?R = "[0, 0, 0, 0x20A80408, 0, 0, 0, 0] :: regs" and ?L = "[0, 4, 8192, 16, 0, 32, 0, 0] :: u32 list" and ?I = "[0, 1, 0, 0, 0, 0, 0, 0] :: u32 list"
  let ?k0 = "kvs_start ?R ?L ?I (packet_flits (move_packet core_accel READ_CH 4096 0 8)) demo_mem" and ?T = "table_of ?L ?I demo_mem"
  have g: "\<not> bit (gfwd_id core_accel) 0"
    by (simp add: core_accel_def)
  have T: "?T = \<lparr>tb_mem = demo_mem, tb_base = 8192, tb_plen = 1\<rparr>"
    by (simp add: table_of_def lr_address_def id_plen_def)
  have h: "hs_seldi ?R" "\<not> hs_seldo ?R" "hs_hashlen ?R = 4" "hs_tdest ?R = 10" "hs_keylen ?R = 8" "hs_tlen ?R = 0"
    by code_simp+
  have l: "lr_command ?L = 4" "\<not> lr_reqstat ?L" "lr_address ?L = 8192" "lr_size ?L = 16" "unat (lr_trans ?L) = 32"
    by code_simp+
  have R: "hsu_setup ?R" "lsu2_setup ?L ?T" "table_setup ?R ?T"
    unfolding T hsu_setup_def lsu2_setup_def table_setup_def using h l by simp_all
  have m: "rd64 demo_mem 4096 = 7" "rd64 demo_mem 8192 = 5" "rd64 demo_mem 8200 = push_bit 32 1 OR 9" "rd64 demo_mem 8208 = 7" "rd64 demo_mem 8216 = push_bit 32 1 OR 42"
    by (simp_all add: rd64_def rd_flit_def rd32_def demo_mem_def le32_word_def)
  have "soft_index ?R 7 = 0"
    by (simp add: soft_index_def h)
  moreover have "table_lookup ?T 0 7 = 42"
    unfolding T by (simp add: table_lookup_def table_slot_def slot_of_def slot_find_def m upt_rec Let_def)
  moreover have "flit_addrs 4096 1 = [4096]"
    by (simp add: flit_addrs_def)
  ultimately have c: "j \<le> kvs_work ?R ?k0 \<and> ((\<nexists>k'. kvs_step k k') \<longrightarrow> k_out k = [id_flit 42])" if "(kvs_step ^^ j) ?k0 k" for j k
    using kvs_looks_up [OF refl refl refl refl g _ _ _ _ _ _ R(1-3) _ that] by (simp add: h m)
  obtain j k where "(kvs_step ^^ j) ?k0 k" "\<nexists>k'. kvs_step k k'"
    using bounded_run_ends [of kvs_step ?k0 "kvs_work ?R ?k0"] c by blast
  then show ?thesis
    using c by blast
qed

end
