(* ===== verification/Hmc.thy ===== *)
theory Hmc
  imports Sysc_Port
begin

text \<open>
  The memory controller of the simulation (\<^verbatim>\<open>HMCController\<close> in \<^verbatim>\<open>src/ip/sysc/kvs.cpp\<close>), which answers the requests of the load-store units after
  delays for queueing, bandwidth and access. Times are in picoseconds and unbounded; products of machine integers that are
  turned into times wrap around as in the source.
\<close>

section \<open>The controller\<close>

definition NSOCKETS :: nat where "NSOCKETS = 4"
definition HMC_T_W :: nat where "HMC_T_W = 106"
definition HMC_T_R :: nat where "HMC_T_R = 85"
definition HMC_T_TRANS :: nat where "HMC_T_TRANS = 24"
definition HMC_T_SRAM_W :: nat where "HMC_T_SRAM_W = 12"
definition HMC_T_DRAM_W :: nat where "HMC_T_DRAM_W = 45"
definition HMC_T_DRAM_R :: nat where "HMC_T_DRAM_R = 45"
definition HMC_T_QUEUE_W :: nat where "HMC_T_QUEUE_W = HMC_T_W - HMC_T_DRAM_W - HMC_T_TRANS"
definition HMC_T_QUEUE_R :: nat where "HMC_T_QUEUE_R = HMC_T_R - HMC_T_DRAM_R - HMC_T_TRANS"
definition PSPE :: u32 where "PSPE = 1900"
definition PSPB :: u32 where "PSPB = 30"

text \<open>What the controller uses of a payload: the streaming width, which is the number of the socket, the command and the length.\<close>

record payload =
  p_id :: u32
  p_write :: bool
  p_len :: u32

record hmc =
  reqcnt :: "u32 list"
  treqcnt :: u32
  nextrd :: nat
  nextwr :: nat

definition tslot :: "payload \<Rightarrow> nat" where
  "tslot p = unat (p_len p * PSPB)"

text \<open>The delay of a request, and of a response.\<close>

definition nb_transport_fw :: "nat \<Rightarrow> payload \<Rightarrow> nat \<Rightarrow> hmc \<Rightarrow> nat \<times> hmc" where
  "nb_transport_fw now p dl s =
     (let i = unat (p_id p);
          s = (if i < NSOCKETS then s\<lparr>reqcnt := (reqcnt s)[i := reqcnt s ! i + 1], treqcnt := treqcnt s + 1\<rparr> else s);
          dl = dl + unat (treqcnt s * PSPE);
          (dl, s) = (if p_write p then
              (let ttarg = now + dl; dl = (if ttarg < nextwr s then dl + (nextwr s - ttarg) else dl)
               in (dl, s\<lparr>nextwr := now + dl + tslot p\<rparr>)) else (dl, s));
          dl = dl + 1000 * (if p_write p then (if i = 2 then HMC_T_SRAM_W else HMC_T_DRAM_W + HMC_T_QUEUE_W) else HMC_T_DRAM_R + HMC_T_QUEUE_R)
      in (dl, s))"

text \<open>A socket that does not exist ends the simulation with an exception.\<close>

definition hmc_peq_cb :: "nat \<Rightarrow> payload \<Rightarrow> hmc \<Rightarrow> (nat \<times> hmc) option" where
  "hmc_peq_cb now p s =
     (let i = unat (p_id p);
          s = (if i < NSOCKETS then s\<lparr>reqcnt := (reqcnt s)[i := reqcnt s ! i - 1], treqcnt := treqcnt s - 1\<rparr> else s);
          (dl, s) = (if \<not> p_write p then
              (let dl = (if now < nextrd s then nextrd s - now else 0)
               in (dl, s\<lparr>nextrd := now + dl + tslot p\<rparr>)) else (0, s))
      in if i < NSOCKETS then Some (dl, s) else None)"

text \<open>The constructor leaves \<^verbatim>\<open>treqcnt\<close> as it is.\<close>

definition HMCController :: "u32 \<Rightarrow> hmc" where
  "HMCController t0 = \<lparr>reqcnt = replicate NSOCKETS 0, treqcnt = t0, nextrd = 0, nextwr = 0\<rparr>"

section \<open>Requests and responses\<close>

text \<open>The event queue calls back at the time that is due, the earliest first; between two events time passes.\<close>

record hmc_system =
  h_now :: nat
  h_ctl :: hmc
  h_pend :: "(payload \<times> nat) list"
  h_resp :: "(payload \<times> nat) list"

datatype hmc_event = Request nat nat payload | Answer nat

fun hmc_exec :: "hmc_event \<Rightarrow> hmc_system \<Rightarrow> hmc_system option" where
  "hmc_exec (Request t dl p) s =
     (if h_now s \<le> t \<and> (\<forall>(q, due)\<in>set (h_pend s). t \<le> due)
      then (case nb_transport_fw t p dl (h_ctl s) of (dl, c) \<Rightarrow> Some (s\<lparr>h_now := t, h_ctl := c, h_pend := h_pend s @ [(p, t + dl)]\<rparr>))
      else None)"
| "hmc_exec (Answer i) s =
     (if i < length (h_pend s) then
        (case h_pend s ! i of (p, t) \<Rightarrow>
           if \<forall>(q, due)\<in>set (h_pend s). t \<le> due
           then map_option (\<lambda>(dl, c). s\<lparr>h_now := t, h_ctl := c, h_pend := take i (h_pend s) @ drop (Suc i) (h_pend s), h_resp := h_resp s @ [(p, t + dl)]\<rparr>)
                  (hmc_peq_cb t p (h_ctl s))
           else None)
      else None)"

fun hmc_run :: "hmc_system \<Rightarrow> hmc_event list \<Rightarrow> hmc_system option" where
  "hmc_run s [] = Some s"
| "hmc_run s (e # es) = (case hmc_exec e s of None \<Rightarrow> None | Some s' \<Rightarrow> hmc_run s' es)"

section \<open>Counts\<close>

text \<open>The requests that wait at a socket, and those that wait at any.\<close>

definition waiting :: "nat \<Rightarrow> (payload \<times> nat) list \<Rightarrow> nat" where
  "waiting i xs = length (filter (\<lambda>(p, t). unat (p_id p) = i) xs)"

definition waiting_all :: "(payload \<times> nat) list \<Rightarrow> nat" where
  "waiting_all xs = length (filter (\<lambda>(p, t). unat (p_id p) < NSOCKETS) xs)"

definition counts_ok :: "u32 \<Rightarrow> hmc \<Rightarrow> (payload \<times> nat) list \<Rightarrow> bool" where
  "counts_ok t0 c xs \<longleftrightarrow> length (reqcnt c) = NSOCKETS \<and> (\<forall>i<NSOCKETS. reqcnt c ! i = of_nat (waiting i xs)) \<and> treqcnt c = t0 + of_nat (waiting_all xs)"

lemma fw_counts:
  assumes "nb_transport_fw t p dl c = (dl', c')" "counts_ok t0 c xs"
  shows "counts_ok t0 c' (xs @ [(p, u)]) \<and> nextrd c' = nextrd c"
  using assms by (auto simp: nb_transport_fw_def counts_ok_def waiting_def waiting_all_def Let_def nth_list_update split: if_splits)

lemma split_at: "i < length xs \<Longrightarrow> xs = take i xs @ xs ! i # drop (Suc i) xs"
  by (simp add: id_take_nth_drop)

lemma waiting_split:
  "waiting n (xs @ (p, t) # ys) = waiting n (xs @ ys) + of_bool (unat (p_id p) = n)"
  "waiting_all (xs @ (p, t) # ys) = waiting_all (xs @ ys) + of_bool (unat (p_id p) < NSOCKETS)"
  by (simp_all add: waiting_def waiting_all_def)

lemma cb_counts:
  assumes "hmc_peq_cb t p c = Some (dl, c')" "counts_ok t0 c (xs @ (p, u) # ys)"
  shows "counts_ok t0 c' (xs @ ys)"
  using assms by (auto simp: hmc_peq_cb_def counts_ok_def waiting_split Let_def nth_list_update split: if_splits)

section \<open>Bandwidth\<close>

definition reads :: "(payload \<times> nat) list \<Rightarrow> (payload \<times> nat) list" where
  "reads xs = filter (\<lambda>(p, t). \<not> p_write p) xs"

text \<open>A read response keeps the memory for the time its bytes take.\<close>

definition spaced :: "(payload \<times> nat) list \<Rightarrow> bool" where
  "spaced xs \<longleftrightarrow> sorted_wrt (\<lambda>(p, t) (q, u). t + tslot p \<le> u) xs"

definition hmc_ok :: "u32 \<Rightarrow> hmc_system \<Rightarrow> bool" where
  "hmc_ok t0 s \<longleftrightarrow> counts_ok t0 (h_ctl s) (h_pend s) \<and> spaced (reads (h_resp s)) \<and> (\<forall>(p, t)\<in>set (reads (h_resp s)). t + tslot p \<le> nextrd (h_ctl s))"

lemma cb_read:
  assumes "hmc_peq_cb t p c = Some (dl, c')"
  shows "if p_write p then nextrd c' = nextrd c else nextrd c \<le> t + dl \<and> nextrd c' = t + dl + tslot p"
  using assms by (auto simp: hmc_peq_cb_def Let_def split: if_splits)

lemma spaced_read:
  assumes "spaced (reads xs)" "\<forall>(p, t)\<in>set (reads xs). t + tslot p \<le> n" "n \<le> u" "\<not> p_write q"
  shows "spaced (reads (xs @ [(q, u)])) \<and> (\<forall>(p, t)\<in>set (reads (xs @ [(q, u)])). t + tslot p \<le> u + tslot q)"
  using assms by (fastforce simp: spaced_def reads_def sorted_wrt_append)

lemma hmc_exec_ok:
  assumes "hmc_exec e s = Some s'" "hmc_ok t0 s"
  shows "hmc_ok t0 s'"
proof (cases e)
  case (Request t dl p)
  then obtain dl' c' where c: "nb_transport_fw t p dl (h_ctl s) = (dl', c')" "s' = s\<lparr>h_now := t, h_ctl := c', h_pend := h_pend s @ [(p, t + dl')]\<rparr>"
    using assms(1) by (auto split: if_splits prod.splits)
  then show ?thesis
    using fw_counts [OF c(1), of t0 "h_pend s" "t + dl'"] assms(2) by (simp add: hmc_ok_def)
next
  case (Answer i)
  then obtain p t dl c' where i: "i < length (h_pend s)" "h_pend s ! i = (p, t)" "hmc_peq_cb t p (h_ctl s) = Some (dl, c')"
    and s': "s' = s\<lparr>h_now := t, h_ctl := c', h_pend := take i (h_pend s) @ drop (Suc i) (h_pend s), h_resp := h_resp s @ [(p, t + dl)]\<rparr>"
    using assms(1) by (auto split: if_splits prod.splits)
  have "counts_ok t0 c' (h_pend s')"
    using cb_counts [OF i(3), of t0 "take i (h_pend s)" t "drop (Suc i) (h_pend s)"] split_at [OF i(1)] assms(2) i(2) by (simp add: hmc_ok_def s')
  moreover have "spaced (reads (h_resp s')) \<and> (\<forall>(p, t)\<in>set (reads (h_resp s')). t + tslot p \<le> nextrd c')"
  proof (cases "p_write p")
    case True
    then show ?thesis
      using assms(2) cb_read [OF i(3)] by (simp add: hmc_ok_def s' reads_def)
  next
    case False
    then show ?thesis
      using assms(2) cb_read [OF i(3)] spaced_read [of "h_resp s" "nextrd (h_ctl s)" "t + dl" p] by (simp add: hmc_ok_def s')
  qed
  ultimately show ?thesis
    by (simp add: hmc_ok_def s')
qed

lemma hmc_run_ok: "hmc_run s es = Some s' \<Longrightarrow> hmc_ok t0 s \<Longrightarrow> hmc_ok t0 s'"
  by (induction s es rule: hmc_run.induct) (auto split: option.splits dest: hmc_exec_ok)

definition hmc_start :: "u32 \<Rightarrow> hmc_system" where
  "hmc_start t0 = \<lparr>h_now = 0, h_ctl = HMCController t0, h_pend = [], h_resp = []\<rparr>"

text \<open>C38: Whatever requests the units make, the memory controller counts for every socket the requests that have not been answered, and the
  time between two read responses is never shorter than the bytes of the first one take: the bandwidth is never exceeded. The count of all
  requests is off by the value that its memory had before the constructor.\<close>

theorem hmc_bandwidth:
  assumes "hmc_run (hmc_start t0) es = Some s"
  shows "(\<forall>i<NSOCKETS. reqcnt (h_ctl s) ! i = of_nat (waiting i (h_pend s))) \<and> treqcnt (h_ctl s) = t0 + of_nat (waiting_all (h_pend s)) \<and>
    sorted_wrt (\<lambda>(p, t) (q, u). t + tslot p \<le> u) (filter (\<lambda>(p, t). \<not> p_write p) (h_resp s))"
proof -
  have "hmc_ok t0 (hmc_start t0)"
    by (simp add: hmc_ok_def hmc_start_def HMCController_def counts_ok_def waiting_def waiting_all_def spaced_def reads_def)
  then show ?thesis
    using hmc_run_ok [OF assms] by (simp add: hmc_ok_def counts_ok_def spaced_def reads_def)
qed

text \<open>Two reads of 128 bytes at the same time: the first is due after 62900 ps and answered then, the second waits for the bandwidth.\<close>

theorem hmc_bandwidth_witness:
  "case hmc_run (hmc_start 0) [Request 0 0 \<lparr>p_id = 1, p_write = False, p_len = 128\<rparr>, Request 0 0 \<lparr>p_id = 3, p_write = False, p_len = 128\<rparr>, Answer 0, Answer 0] of
     None \<Rightarrow> False
   | Some s \<Rightarrow> map snd (h_resp s) = [62900, 66740] \<and> sorted_wrt (\<lambda>(p, t) (q, u). t + tslot p \<le> u) (filter (\<lambda>(p, t). \<not> p_write p) (h_resp s))"
proof -
  let ?es = "[Request 0 0 \<lparr>p_id = 1, p_write = False, p_len = 128\<rparr>, Request 0 0 \<lparr>p_id = 3, p_write = False, p_len = 128\<rparr>, Answer 0, Answer 0]"
  have "map_option (\<lambda>s. map snd (h_resp s)) (hmc_run (hmc_start 0) ?es) = Some [62900, 66740]"
    by (simp add: hmc_start_def HMCController_def nb_transport_fw_def hmc_peq_cb_def NSOCKETS_def PSPE_def tslot_def PSPB_def HMC_T_DRAM_R_def HMC_T_QUEUE_R_def HMC_T_R_def
        HMC_T_TRANS_def)
  then obtain s where "hmc_run (hmc_start 0) ?es = Some s" "map snd (h_resp s) = [62900, 66740]"
    by auto
  then show ?thesis
    using hmc_bandwidth [of 0 ?es s] by simp
qed

text \<open>The delay of the very first request contains the value \<^verbatim>\<open>treqcnt\<close> happened to have.\<close>

lemma first_delay_uninitialised:
  "fst (nb_transport_fw now \<lparr>p_id = 1, p_write = False, p_len = n\<rparr> 0 (HMCController t0)) = unat ((t0 + 1) * PSPE) + 61000"
  by (simp add: nb_transport_fw_def HMCController_def NSOCKETS_def HMC_T_DRAM_R_def HMC_T_QUEUE_R_def HMC_T_R_def HMC_T_TRANS_def Let_def)

end
