(* ===== verification/Ap_Uint.thy ===== *)
theory Ap_Uint
  imports Lime_Prelude
begin

text \<open>
  The fixed width integers of the units that are written for high level
  synthesis (\<^verbatim>\<open>ap_uint<N>\<close>, here \<^typ>\<open>'n word\<close>) and what those units use of them:
  the range \<^verbatim>\<open>x(hi,lo)\<close>, as a value and as the target of an assignment, and the
  concatenation \<^verbatim>\<open>(x, y, ...)\<close>, whose first operand is the most significant one.
  A range whose first index is the smaller one has its bits in reverse order.
  Both are given over the list of the bits, least significant first.

  The locale \<open>wire_format\<close> is the interface of the structures that are packed
  into such an integer by hand: a conversion in each direction.
\<close>

section \<open>Ranges and concatenations\<close>

definition ap_bits :: "'a::len word \<Rightarrow> bool list" where
  "ap_bits w = map (bit w) [0..<LENGTH('a)]"

definition ap_of :: "bool list \<Rightarrow> 'a::len word" where
  "ap_of bs = horner_sum of_bool 2 bs"

definition ap_range :: "nat \<Rightarrow> nat \<Rightarrow> 'a::len word \<Rightarrow> 'b::len word" where
  "ap_range hi lo w =
     (if lo \<le> hi then ap_of (take (hi + 1 - lo) (drop lo (ap_bits w)))
      else ap_of (rev (take (lo + 1 - hi) (drop hi (ap_bits w)))))"

definition ap_set_range :: "nat \<Rightarrow> nat \<Rightarrow> 'b::len word \<Rightarrow> 'a::len word \<Rightarrow> 'a word" where
  "ap_set_range hi lo v w =
     (if lo \<le> hi
      then ap_of (take lo (ap_bits w) @ take (hi + 1 - lo) (ap_bits v) @ drop (hi + 1) (ap_bits w))
      else ap_of (take hi (ap_bits w) @ rev (take (lo + 1 - hi) (ap_bits v)) @ drop (lo + 1) (ap_bits w)))"

definition ap_cat :: "bool list list \<Rightarrow> 'a::len word" where
  "ap_cat fs = ap_of (concat (rev fs))"

lemma length_ap_bits [simp]: "length (ap_bits (w :: 'a::len word)) = LENGTH('a)"
  by (simp add: ap_bits_def)

lemma nth_ap_bits [simp]: "n < LENGTH('a) \<Longrightarrow> ap_bits (w :: 'a::len word) ! n = bit w n"
  by (simp add: ap_bits_def)

lemma bit_ap_bits: "bit (w :: 'a::len word) n \<longleftrightarrow> n < LENGTH('a) \<and> ap_bits w ! n"
  using bit_imp_le_length by auto

lemma word_reverse_eq_iff: "word_reverse v = word_reverse w \<longleftrightarrow> v = w"
  by (metis word_rev_rev)

lemma bit_ap_of: "bit (ap_of bs :: 'a::len word) n \<longleftrightarrow> n < LENGTH('a) \<and> n < length bs \<and> bs ! n"
  by (auto simp: ap_of_def bit_horner_sum_bit_word_iff)

lemma ap_of_bits [simp]: "ap_of (ap_bits w) = w"
  by (rule bit_word_eqI) (simp add: bit_ap_of)

lemma ap_bits_of [simp]: "length bs = LENGTH('a) \<Longrightarrow> ap_bits (ap_of bs :: 'a::len word) = bs"
  by (rule nth_equalityI) (simp_all add: bit_ap_of)

lemma ap_bits_inject [simp]: "ap_bits v = ap_bits w \<longleftrightarrow> v = w"
  by (metis ap_of_bits)

lemma ap_bits_0 [simp]: "ap_bits (0 :: 'a::len word) = replicate LENGTH('a) False"
  by (rule nth_equalityI) simp_all

lemma ap_bits_range:
  assumes "lo \<le> hi" "hi < LENGTH('a)" "LENGTH('b) = hi + 1 - lo"
  shows "ap_bits (ap_range hi lo (w :: 'a::len word) :: 'b::len word) = take (hi + 1 - lo) (drop lo (ap_bits w))"
  using assms by (simp add: ap_range_def)

lemma ap_range_reversed:
  assumes "lo \<le> hi" "hi < LENGTH('a)" "LENGTH('b) = hi + 1 - lo"
  shows "(ap_range lo hi (w :: 'a::len word) :: 'b::len word) = word_reverse (ap_range hi lo w)"
  using assms
  by (intro bit_word_eqI) (auto simp: ap_range_def bit_ap_of bit_word_reverse_iff rev_nth)

text \<open>A range of a list joins with what follows it.\<close>

lemma take_drop_join: "hi = lo + m \<Longrightarrow> take m (drop lo xs) @ drop hi xs = drop lo xs"
  using append_take_drop_id [of m "drop lo xs"] by (simp add: add.commute)

lemma ap_of_zeros [simp]: "ap_of (replicate n False) = 0"
  by (rule bit_word_eqI) (simp add: bit_ap_of)

lemma ap_range_0 [simp]: "ap_range hi lo 0 = 0"
  by (simp add: ap_range_def)

lemma word1_nonzero: "(w :: 1 word) \<noteq> 0 \<longleftrightarrow> bit w 0"
  by (simp add: bit_eq_iff [of w 0])

lemma of_bool_word1 [simp]: "of_bool (w \<noteq> 0) = (w :: 1 word)"
  by (rule bit_word_eqI) (simp add: bit_eq_iff [of w 0] bit_of_bool_iff)

section \<open>Structures packed by hand\<close>

locale wire_format =
  fixes pack :: "'p \<Rightarrow> 'w" and unpack :: "'w \<Rightarrow> 'p"
  assumes unpack_pack: "unpack (pack p) = p"
    and pack_unpack: "pack (unpack w) = w"
begin

lemma pack_eq_iff: "pack p = pack q \<longleftrightarrow> p = q"
  by (metis unpack_pack)

lemma bij_pack: "bij pack"
  by (rule o_bij [of unpack]) (simp_all add: fun_eq_iff unpack_pack pack_unpack)

lemma map_unpack_pack: "map unpack (map pack ps) = ps"
  by (simp add: unpack_pack comp_def)

lemma map_pack_eq_iff: "map pack ps = ws \<longleftrightarrow> ps = map unpack ws"
  by (auto simp: unpack_pack pack_unpack comp_def)

end

end
