(* ===== verification/Compress.thy ===== *)
theory Compress
  imports Ap_Uint "HOL-Library.Sublist"
begin

text \<open>
  The unit that shortens the events of the performance monitor
  (\<^verbatim>\<open>src/ip/hls/compress/compress.hpp\<close> and \<^verbatim>\<open>compress.cpp\<close>). The monitor gives one
  entry of 320 bits for a cycle in which anything happened on the write or the
  read channels of its two slots; the unit puts out one event of 128 bits for
  each of the four channels that has one, and the first of them carries the
  time. Entries of the software pass with their low 64 bits.

  The unit is two processes with a buffer of 1024 packages between them:
  \<open>convert_inputs\<close> makes a package of four events with a flag for each, and
  \<open>write_out\<close> is the state machine that puts the marked ones out, one for a
  call. The state has the streams, the static variables of the two processes
  and nothing else. The assertion of \<open>write_out\<close> is a failure of the model (\<open>None\<close>).
\<close>

section \<open>The entry of the monitor and the event put out\<close>

type_synonym in_t = "320 word"
type_synonym out_t = "128 word"
type_synonym pack_t = "516 word"

text \<open>The current format of the monitor.\<close>

record in_packet_t =
  i_logID :: "1 word"
  i_timestamp :: "30 word"
  i_loop :: "1 word"
  a0_ext_event :: "3 word"
  a0_wr_addr_latch :: "1 word"
  a0_first_wr :: "1 word"
  a0_last_wr :: "1 word"
  a0_response :: "1 word"
  a0_rd_addr_latch :: "1 word"
  a0_first_rd :: "1 word"
  a0_last_rd :: "1 word"
  a0_arlen :: "8 word"
  a0_awlen :: "8 word"
  a0_rid :: "16 word"
  a0_arid :: "16 word"
  a0_bid :: "16 word"
  a0_awid :: "16 word"
  a0_araddr :: "40 word"
  a0_awaddr :: "40 word"
  a1_ext_event :: "3 word"
  a1_wr_addr_latch :: "1 word"
  a1_first_wr :: "1 word"
  a1_last_wr :: "1 word"
  a1_response :: "1 word"
  a1_rd_addr_latch :: "1 word"
  a1_first_rd :: "1 word"
  a1_last_rd :: "1 word"
  a1_arlen :: "8 word"
  a1_awlen :: "8 word"
  a1_rid :: "3 word"
  a1_arid :: "3 word"
  a1_bid :: "3 word"
  a1_awid :: "3 word"
  a1_araddr :: "40 word"
  a1_awaddr :: "40 word"

definition in_packet :: "in_t \<Rightarrow> in_packet_t" where
  "in_packet i = \<lparr>
     i_logID = ap_range 0 0 i,
     i_timestamp = ap_range 30 1 i,
     i_loop = ap_range 31 31 i,
     a0_ext_event = ap_range 34 32 i,
     a0_wr_addr_latch = ap_range 35 35 i,
     a0_first_wr = ap_range 36 36 i,
     a0_last_wr = ap_range 37 37 i,
     a0_response = ap_range 38 38 i,
     a0_rd_addr_latch = ap_range 39 39 i,
     a0_first_rd = ap_range 40 40 i,
     a0_last_rd = ap_range 41 41 i,
     a0_arlen = ap_range 49 42 i,
     a0_awlen = ap_range 57 50 i,
     a0_rid = ap_range 73 58 i,
     a0_arid = ap_range 89 74 i,
     a0_bid = ap_range 105 90 i,
     a0_awid = ap_range 121 106 i,
     a0_araddr = ap_range 161 122 i,
     a0_awaddr = ap_range 201 162 i,
     a1_ext_event = ap_range 204 202 i,
     a1_wr_addr_latch = ap_range 205 205 i,
     a1_first_wr = ap_range 206 206 i,
     a1_last_wr = ap_range 207 207 i,
     a1_response = ap_range 208 208 i,
     a1_rd_addr_latch = ap_range 209 209 i,
     a1_first_rd = ap_range 210 210 i,
     a1_last_rd = ap_range 211 211 i,
     a1_arlen = ap_range 219 212 i,
     a1_awlen = ap_range 227 220 i,
     a1_rid = ap_range 230 228 i,
     a1_arid = ap_range 233 231 i,
     a1_bid = ap_range 236 234 i,
     a1_awid = ap_range 239 237 i,
     a1_araddr = ap_range 279 240 i,
     a1_awaddr = ap_range 319 280 i\<rparr>"

definition in_packet_word :: "in_packet_t \<Rightarrow> in_t" where
  "in_packet_word p = ap_cat [
     ap_bits (a1_awaddr p), ap_bits (a1_araddr p), ap_bits (a1_awid p), ap_bits (a1_bid p),
     ap_bits (a1_arid p), ap_bits (a1_rid p), ap_bits (a1_awlen p), ap_bits (a1_arlen p),
     ap_bits (a1_last_rd p), ap_bits (a1_first_rd p), ap_bits (a1_rd_addr_latch p),
     ap_bits (a1_response p), ap_bits (a1_last_wr p), ap_bits (a1_first_wr p),
     ap_bits (a1_wr_addr_latch p), ap_bits (a1_ext_event p), ap_bits (a0_awaddr p),
     ap_bits (a0_araddr p), ap_bits (a0_awid p), ap_bits (a0_bid p), ap_bits (a0_arid p),
     ap_bits (a0_rid p), ap_bits (a0_awlen p), ap_bits (a0_arlen p), ap_bits (a0_last_rd p),
     ap_bits (a0_first_rd p), ap_bits (a0_rd_addr_latch p), ap_bits (a0_response p),
     ap_bits (a0_last_wr p), ap_bits (a0_first_wr p), ap_bits (a0_wr_addr_latch p),
     ap_bits (a0_ext_event p), ap_bits (i_loop p), ap_bits (i_timestamp p), ap_bits (i_logID p)]"

text \<open>The event that is put out.\<close>

record out_packet_t =
  o_logID :: "1 word"
  o_timestamp :: "30 word"
  o_loop :: "1 word"
  o_slot :: "1 word"
  o_write :: "1 word"
  o_ext_event :: "3 word"
  o_addr_latch :: "1 word"
  o_first :: "1 word"
  o_last :: "1 word"
  o_response :: "1 word"
  o_a_len :: "8 word"
  o_id :: "16 word"
  o_a_id :: "16 word"
  o_a_addr :: "40 word"
  o_padding :: "7 word"

definition out_packet :: "out_t \<Rightarrow> out_packet_t" where
  "out_packet i = \<lparr>
     o_logID = ap_range 0 0 i,
     o_timestamp = ap_range 30 1 i,
     o_loop = ap_range 31 31 i,
     o_slot = ap_range 32 32 i,
     o_write = ap_range 33 33 i,
     o_ext_event = ap_range 36 34 i,
     o_addr_latch = ap_range 37 37 i,
     o_first = ap_range 38 38 i,
     o_last = ap_range 39 39 i,
     o_response = ap_range 40 40 i,
     o_a_len = ap_range 48 41 i,
     o_id = ap_range 64 49 i,
     o_a_id = ap_range 80 65 i,
     o_a_addr = ap_range 120 81 i,
     o_padding = ap_range 127 121 i\<rparr>"

definition out_packet_word :: "out_packet_t \<Rightarrow> out_t" where
  "out_packet_word p = ap_cat [
     ap_bits (o_padding p), ap_bits (o_a_addr p), ap_bits (o_a_id p), ap_bits (o_id p),
     ap_bits (o_a_len p), ap_bits (o_response p), ap_bits (o_last p), ap_bits (o_first p),
     ap_bits (o_addr_latch p), ap_bits (o_ext_event p), ap_bits (o_write p), ap_bits (o_slot p),
     ap_bits (o_loop p), ap_bits (o_timestamp p), ap_bits (o_logID p)]"

text \<open>A package of four events; a package that is just made has no valid event.\<close>

record pack_packet_t =
  data0 :: out_t
  data1 :: out_t
  data2 :: out_t
  data3 :: out_t
  valid0 :: bool
  valid1 :: bool
  valid2 :: bool
  valid3 :: bool

definition pack_packet_init :: pack_packet_t where
  "pack_packet_init = \<lparr>data0 = 0, data1 = 0, data2 = 0, data3 = 0,
     valid0 = False, valid1 = False, valid2 = False, valid3 = False\<rparr>"

definition pack_packet :: "pack_t \<Rightarrow> pack_packet_t" where
  "pack_packet i = \<lparr>
     data0 = ap_range 127 0 i,
     data1 = ap_range 255 128 i,
     data2 = ap_range 383 256 i,
     data3 = ap_range 511 384 i,
     valid0 = ((ap_range 512 512 i :: 1 word) \<noteq> 0),
     valid1 = ((ap_range 513 513 i :: 1 word) \<noteq> 0),
     valid2 = ((ap_range 514 514 i :: 1 word) \<noteq> 0),
     valid3 = ((ap_range 515 515 i :: 1 word) \<noteq> 0)\<rparr>"

definition pack_packet_word :: "pack_packet_t \<Rightarrow> pack_t" where
  "pack_packet_word p = ap_cat [
     ap_bits (of_bool (valid3 p) :: 1 word), ap_bits (of_bool (valid2 p) :: 1 word),
     ap_bits (of_bool (valid1 p) :: 1 word), ap_bits (of_bool (valid0 p) :: 1 word),
     ap_bits (data3 p), ap_bits (data2 p), ap_bits (data1 p), ap_bits (data0 p)]"

section \<open>The two processes\<close>

datatype wr_state = S_IDLE | S_ONE_LEFT | S_TWO_LEFT | S_THREE_LEFT | S_FOUR_LEFT

record compress_st =
  cmp_in :: "in_t list"
  pack_buffer :: "pack_t list"
  cmp_out :: "out_t list"
  time_acc :: "30 word"
  wr_state :: wr_state
  current_input :: pack_packet_t

definition compress_init :: compress_st where
  "compress_init = \<lparr>cmp_in = [], pack_buffer = [], cmp_out = [], time_acc = 0,
     wr_state = S_IDLE, current_input = pack_packet_init\<rparr>"

definition PACK_BUFFER_DEPTH :: nat where
  "PACK_BUFFER_DEPTH = 1024"

text \<open>A buffer in front of the unit, which \<open>compress\<close> does not use: its two streams.\<close>

definition buffer_inputs :: "nat \<Rightarrow> in_t list \<times> in_t list \<Rightarrow> in_t list \<times> in_t list" where
  "buffer_inputs depth = (\<lambda>(inp, outp).
     case inp of
       [] \<Rightarrow> (inp, outp)
     | input # rest \<Rightarrow> if length outp < depth then (rest, outp @ [input]) else (inp, outp))"

lemma buffer_inputs_order:
  assumes "buffer_inputs depth (inp, outp) = (inp', outp')" "length outp \<le> depth"
  shows "outp' @ inp' = outp @ inp \<and> length outp' \<le> depth"
  using assms by (auto simp: buffer_inputs_def split: list.splits if_splits)

subsection \<open>One entry to four events\<close>

definition output0 :: "in_packet_t \<Rightarrow> out_packet_t" where
  "output0 input = (out_packet 0)\<lparr>
     o_logID := i_logID input,
     o_timestamp := 0,
     o_loop := 0,
     o_slot := 0,
     o_write := 1,
     o_ext_event := a0_ext_event input,
     o_addr_latch := a0_wr_addr_latch input,
     o_first := a0_first_wr input,
     o_last := a0_last_wr input,
     o_response := a0_response input,
     o_a_len := a0_awlen input,
     o_id := a0_bid input,
     o_a_id := a0_awid input,
     o_a_addr := a0_awaddr input\<rparr>"

definition output1 :: "in_packet_t \<Rightarrow> out_packet_t" where
  "output1 input = (out_packet 0)\<lparr>
     o_logID := i_logID input,
     o_timestamp := 0,
     o_loop := 0,
     o_slot := 0,
     o_write := 0,
     o_ext_event := a0_ext_event input,
     o_addr_latch := a0_rd_addr_latch input,
     o_first := a0_first_rd input,
     o_last := a0_last_rd input,
     o_response := 0,
     o_a_len := a0_arlen input,
     o_id := a0_rid input,
     o_a_id := a0_arid input,
     o_a_addr := a0_araddr input\<rparr>"

definition output2 :: "in_packet_t \<Rightarrow> out_packet_t" where
  "output2 input = (out_packet 0)\<lparr>
     o_logID := i_logID input,
     o_timestamp := 0,
     o_loop := 0,
     o_slot := 1,
     o_write := 1,
     o_ext_event := a1_ext_event input,
     o_addr_latch := a1_wr_addr_latch input,
     o_first := a1_first_wr input,
     o_last := a1_last_wr input,
     o_response := a1_response input,
     o_a_len := a1_awlen input,
     o_id := ucast (a1_bid input),
     o_a_id := ucast (a1_awid input),
     o_a_addr := a1_awaddr input\<rparr>"

definition output3 :: "in_packet_t \<Rightarrow> out_packet_t" where
  "output3 input = (out_packet 0)\<lparr>
     o_logID := i_logID input,
     o_timestamp := 0,
     o_loop := 0,
     o_slot := 1,
     o_write := 0,
     o_ext_event := a1_ext_event input,
     o_addr_latch := a1_rd_addr_latch input,
     o_first := a1_first_rd input,
     o_last := a1_last_rd input,
     o_response := 0,
     o_a_len := a1_arlen input,
     o_id := ucast (a1_rid input),
     o_a_id := ucast (a1_arid input),
     o_a_addr := a1_araddr input\<rparr>"

text \<open>The part of \<open>convert_inputs\<close> for an entry of the software.\<close>

definition convert_sw :: "in_t \<Rightarrow> pack_packet_t" where
  "convert_sw packed_input =
     pack_packet_init\<lparr>
       data0 := ap_set_range 63 0 (ap_range 63 0 packed_input :: 64 word) 0,
       valid0 := True\<rparr>"

text \<open>The part for regular data; \<open>acc\<close> is the time with that of the entry added.\<close>

definition set_time :: "30 word \<Rightarrow> in_packet_t \<Rightarrow> out_packet_t \<Rightarrow> out_packet_t" where
  "set_time acc input p = p\<lparr>o_timestamp := acc, o_loop := i_loop input\<rparr>"

definition convert_data :: "30 word \<Rightarrow> in_packet_t \<Rightarrow> pack_packet_t" where
  "convert_data acc input =
     (let v0 = (a0_wr_addr_latch input \<noteq> 0 \<or> a0_first_wr input \<noteq> 0 \<or> a0_last_wr input \<noteq> 0 \<or> a0_response input \<noteq> 0);
          v1 = (a0_rd_addr_latch input \<noteq> 0 \<or> a0_first_rd input \<noteq> 0 \<or> a0_last_rd input \<noteq> 0);
          v2 = (a1_wr_addr_latch input \<noteq> 0 \<or> a1_first_wr input \<noteq> 0 \<or> a1_last_wr input \<noteq> 0 \<or> a1_response input \<noteq> 0);
          v3 = (a1_rd_addr_latch input \<noteq> 0 \<or> a1_first_rd input \<noteq> 0 \<or> a1_last_rd input \<noteq> 0);
          (p0, p1, p2, p3) =
            (if v0 then (set_time acc input (output0 input), output1 input, output2 input, output3 input)
             else if v1 then (output0 input, set_time acc input (output1 input), output2 input, output3 input)
             else if v2 then (output0 input, output1 input, set_time acc input (output2 input), output3 input)
             else if v3 then (output0 input, output1 input, output2 input, set_time acc input (output3 input))
             else (output0 input, output1 input, output2 input, output3 input))
      in \<lparr>data0 = out_packet_word p0, data1 = out_packet_word p1,
          data2 = out_packet_word p2, data3 = out_packet_word p3,
          valid0 = v0, valid1 = v1, valid2 = v2, valid3 = v3\<rparr>)"

definition convert_inputs :: "compress_st \<Rightarrow> compress_st" where
  "convert_inputs s =
     (case cmp_in s of
        [] \<Rightarrow> s
      | packed_input # rest \<Rightarrow>
          if length (pack_buffer s) < PACK_BUFFER_DEPTH then
            let input = in_packet packed_input in
            if i_logID input \<noteq> 0 then
              s\<lparr>cmp_in := rest, pack_buffer := pack_buffer s @ [pack_packet_word (convert_sw packed_input)]\<rparr>
            else
              let acc = time_acc s + i_timestamp input in
              s\<lparr>cmp_in := rest, time_acc := acc,
                pack_buffer := pack_buffer s @ [pack_packet_word (convert_data acc input)]\<rparr>
          else s)"

subsection \<open>One event for a call\<close>

definition num_left :: "pack_packet_t \<Rightarrow> nat" where
  "num_left p = of_bool (valid0 p) + of_bool (valid1 p) + of_bool (valid2 p) + of_bool (valid3 p)"

text \<open>The conversion to the enumeration, which has no value over four.\<close>

definition state_of :: "nat \<Rightarrow> wr_state option" where
  "state_of n =
     (if n = 0 then Some S_IDLE else if n = 1 then Some S_ONE_LEFT else if n = 2 then Some S_TWO_LEFT
      else if n = 3 then Some S_THREE_LEFT else if n = 4 then Some S_FOUR_LEFT else None)"

text \<open>Take the next package, when there is one.\<close>

definition read_package :: "compress_st \<Rightarrow> compress_st option" where
  "read_package s =
     (case pack_buffer s of
        [] \<Rightarrow> Some s
      | next_input_temp # rest \<Rightarrow>
          let next_input = pack_packet next_input_temp in
          map_option (\<lambda>st. s\<lparr>pack_buffer := rest, wr_state := st, current_input := next_input\<rparr>)
            (state_of (num_left next_input)))"

text \<open>The first valid event, and the package without it.\<close>

definition first_valid :: "pack_packet_t \<Rightarrow> out_t" where
  "first_valid p =
     (if valid0 p then data0 p else if valid1 p then data1 p else if valid2 p then data2 p else data3 p)"

definition clear_valid :: "pack_packet_t \<Rightarrow> pack_packet_t" where
  "clear_valid p =
     (if valid0 p then p\<lparr>valid0 := False\<rparr> else if valid1 p then p\<lparr>valid1 := False\<rparr>
      else if valid2 p then p\<lparr>valid2 := False\<rparr> else p\<lparr>valid3 := False\<rparr>)"

text \<open>One of the three states with more than one event left.\<close>

definition put_valid :: "nat \<Rightarrow> wr_state \<Rightarrow> compress_st \<Rightarrow> compress_st" where
  "put_valid depth st s =
     (if length (cmp_out s) < depth then
        s\<lparr>cmp_out := cmp_out s @ [first_valid (current_input s)],
          current_input := clear_valid (current_input s), wr_state := st\<rparr>
      else s)"

definition write_out :: "nat \<Rightarrow> compress_st \<Rightarrow> compress_st option" where
  "write_out depth s =
     (case wr_state s of
        S_IDLE \<Rightarrow> read_package s
      | S_ONE_LEFT \<Rightarrow>
          if length (cmp_out s) < depth then
            read_package (s\<lparr>cmp_out := cmp_out s @ [first_valid (current_input s)], wr_state := S_IDLE\<rparr>)
          else Some s
      | S_TWO_LEFT \<Rightarrow> Some (put_valid depth S_ONE_LEFT s)
      | S_THREE_LEFT \<Rightarrow> Some (put_valid depth S_TWO_LEFT s)
      | S_FOUR_LEFT \<Rightarrow> Some (put_valid depth S_THREE_LEFT s))"

text \<open>The unit; \<open>depth\<close> is the room of the stream it writes to.\<close>

definition compress :: "nat \<Rightarrow> compress_st \<Rightarrow> compress_st option" where
  "compress depth s = write_out depth (convert_inputs s)"

section \<open>Packing loses nothing\<close>

lemma in_packet_roundtrip: "in_packet (in_packet_word p) = p"
  by (cases p) (simp add: in_packet_def in_packet_word_def ap_cat_def ap_range_def)

lemma in_packet_word_roundtrip: "in_packet_word (in_packet w) = w"
proof -
  have "ap_bits (in_packet_word (in_packet w)) = ap_bits w"
    by (simp add: in_packet_def in_packet_word_def ap_cat_def ap_bits_range take_drop_join)
  then show ?thesis
    by simp
qed

lemma out_packet_roundtrip: "out_packet (out_packet_word p) = p"
  by (cases p) (simp add: out_packet_def out_packet_word_def ap_cat_def ap_range_def)

lemma out_packet_word_roundtrip: "out_packet_word (out_packet w) = w"
proof -
  have "ap_bits (out_packet_word (out_packet w)) = ap_bits w"
    by (simp add: out_packet_def out_packet_word_def ap_cat_def ap_bits_range take_drop_join)
  then show ?thesis
    by simp
qed

lemma pack_packet_roundtrip: "pack_packet (pack_packet_word p) = p"
  by (cases p) (simp add: pack_packet_def pack_packet_word_def ap_cat_def ap_range_def)

lemma pack_packet_word_roundtrip: "pack_packet_word (pack_packet w) = w"
proof -
  have "ap_bits (pack_packet_word (pack_packet w)) = ap_bits w"
    by (simp add: pack_packet_def pack_packet_word_def ap_cat_def ap_bits_range take_drop_join)
  then show ?thesis
    by simp
qed

interpretation inpkt: wire_format in_packet_word in_packet
  by unfold_locales (simp_all add: in_packet_roundtrip in_packet_word_roundtrip)

interpretation outpkt: wire_format out_packet_word out_packet
  by unfold_locales (simp_all add: out_packet_roundtrip out_packet_word_roundtrip)

interpretation pkg: wire_format pack_packet_word pack_packet
  by unfold_locales (simp_all add: pack_packet_roundtrip pack_packet_word_roundtrip)

section \<open>What the unit promises\<close>

text \<open>
  The events of an entry, stated over the fields: the channels of the entry in
  the order write and read of slot 0, write and read of slot 1; those on which
  nothing happened are left out, and the first that is left has the time.
\<close>

definition channel ::
  "1 word \<Rightarrow> 1 word \<Rightarrow> 3 word \<Rightarrow> 1 word \<times> 1 word \<times> 1 word \<times> 1 word \<Rightarrow> 8 word \<Rightarrow> 16 word \<Rightarrow> 16 word \<Rightarrow> 40 word \<Rightarrow> out_packet_t"
where
  "channel slot wr ext fl len i ai addr =
     (case fl of (latch, fst_beat, lst_beat, resp) \<Rightarrow>
       \<lparr>o_logID = 0, o_timestamp = 0, o_loop = 0, o_slot = slot, o_write = wr, o_ext_event = ext,
        o_addr_latch = latch, o_first = fst_beat, o_last = lst_beat, o_response = resp,
        o_a_len = len, o_id = i, o_a_id = ai, o_a_addr = addr, o_padding = 0\<rparr>)"

definition in_channels :: "in_packet_t \<Rightarrow> out_packet_t list" where
  "in_channels p =
     [channel 0 1 (a0_ext_event p) (a0_wr_addr_latch p, a0_first_wr p, a0_last_wr p, a0_response p)
        (a0_awlen p) (a0_bid p) (a0_awid p) (a0_awaddr p),
      channel 0 0 (a0_ext_event p) (a0_rd_addr_latch p, a0_first_rd p, a0_last_rd p, 0)
        (a0_arlen p) (a0_rid p) (a0_arid p) (a0_araddr p),
      channel 1 1 (a1_ext_event p) (a1_wr_addr_latch p, a1_first_wr p, a1_last_wr p, a1_response p)
        (a1_awlen p) (ucast (a1_bid p)) (ucast (a1_awid p)) (a1_awaddr p),
      channel 1 0 (a1_ext_event p) (a1_rd_addr_latch p, a1_first_rd p, a1_last_rd p, 0)
        (a1_arlen p) (ucast (a1_rid p)) (ucast (a1_arid p)) (a1_araddr p)]"

definition has_event :: "out_packet_t \<Rightarrow> bool" where
  "has_event e \<longleftrightarrow> o_addr_latch e \<noteq> 0 \<or> o_first e \<noteq> 0 \<or> o_last e \<noteq> 0 \<or> o_response e \<noteq> 0"

fun stamp :: "30 word \<Rightarrow> 1 word \<Rightarrow> out_packet_t list \<Rightarrow> out_packet_t list" where
  "stamp t l [] = []"
| "stamp t l (e # es) = e\<lparr>o_timestamp := t, o_loop := l\<rparr> # es"

datatype apm_event = Sw_event "64 word" | Ch_event out_packet_t

text \<open>How a word of the output is read: its lowest bit tells the two kinds apart.\<close>

definition event_of :: "out_t \<Rightarrow> apm_event" where
  "event_of w = (if bit w 0 then Sw_event (ucast w) else Ch_event (out_packet w))"

definition time_after :: "30 word \<Rightarrow> in_t \<Rightarrow> 30 word" where
  "time_after t x = (if bit x 0 then t else t + i_timestamp (in_packet x))"

definition entry_events :: "30 word \<Rightarrow> in_t \<Rightarrow> apm_event list" where
  "entry_events t x =
     (if bit x 0 then [Sw_event (ucast x)]
      else map Ch_event (stamp t (i_loop (in_packet x)) (filter has_event (in_channels (in_packet x)))))"

text \<open>
  The events of a sequence of entries with the times \<open>ts\<close>, one for each entry; what the
  times are is left open here.
\<close>

definition apm_events_at :: "30 word list \<Rightarrow> in_t list \<Rightarrow> apm_event list" where
  "apm_events_at ts xs = concat (map2 entry_events ts xs)"

text \<open>The times the unit puts out: the sum over the entries so far that are not of the software.\<close>

fun entry_times :: "30 word \<Rightarrow> in_t list \<Rightarrow> 30 word list" where
  "entry_times t [] = []"
| "entry_times t (x # xs) = time_after t x # entry_times (time_after t x) xs"

fun apm_events :: "30 word \<Rightarrow> in_t list \<Rightarrow> apm_event list" where
  "apm_events t [] = []"
| "apm_events t (x # xs) = entry_events (time_after t x) x @ apm_events (time_after t x) xs"

lemma length_entry_times [simp]: "length (entry_times t xs) = length xs"
  by (induction xs arbitrary: t) simp_all

lemma apm_events_times: "apm_events t xs = apm_events_at (entry_times t xs) xs"
  by (induction xs arbitrary: t) (simp_all add: apm_events_at_def)

lemma entry_times_hd: "xs \<noteq> [] \<Longrightarrow> \<not> bit (hd xs) 0 \<Longrightarrow> hd (entry_times 0 xs) = i_timestamp (in_packet (hd xs))"
  by (cases xs) (simp_all add: time_after_def)

lemma length_entry_events: "length (entry_events t x) = length (entry_events 0 x)"
proof -
  have "length (stamp t l es) = length es" for t l es
    by (cases es) simp_all
  then show ?thesis
    by (simp add: entry_events_def)
qed

lemma length_apm_events: "length (apm_events t xs) = (\<Sum>x\<leftarrow>xs. length (entry_events 0 x))"
  by (induction xs arbitrary: t) (simp_all add: length_entry_events [of "time_after _ _"])

lemma apm_events_append:
  "apm_events t (xs @ ys) = apm_events t xs @ apm_events (foldl time_after t xs) ys"
  by (induction xs arbitrary: t) simp_all

section \<open>One package\<close>

definition valid_data :: "pack_packet_t \<Rightarrow> out_t list" where
  "valid_data p = map fst (filter snd
     [(data0 p, valid0 p), (data1 p, valid1 p), (data2 p, valid2 p), (data3 p, valid3 p)])"

lemma num_left_length: "num_left p = length (valid_data p)"
  by (simp add: num_left_def valid_data_def)

lemma valid_data_cons: "valid_data p \<noteq> [] \<Longrightarrow> valid_data p = first_valid p # valid_data (clear_valid p)"
  by (auto simp: valid_data_def first_valid_def clear_valid_def split: if_splits)

lemma num_left_le: "num_left p \<le> 4"
  by (simp add: num_left_def)

lemma state_of_total: "n \<le> 4 \<Longrightarrow> \<exists>st. state_of n = Some st"
  by (simp add: state_of_def)

lemma bit0_logID: "bit w 0 \<longleftrightarrow> i_logID (in_packet w) \<noteq> 0"
  by (simp add: in_packet_def word1_nonzero ap_range_def bit_ap_of)

lemma event_of_packet: "o_logID p = 0 \<Longrightarrow> event_of (out_packet_word p) = Ch_event p"
proof -
  assume "o_logID p = 0"
  then have "\<not> bit (out_packet_word p) 0"
    by (simp add: out_packet_word_def ap_cat_def bit_ap_of nth_append)
  then show ?thesis
    by (simp add: event_of_def out_packet_roundtrip)
qed

lemma low64: "ap_set_range 63 0 (ap_range 63 0 (w :: in_t) :: 64 word) (0 :: out_t) = ucast (ucast w :: 64 word)"
  by (rule bit_word_eqI) (auto simp: ap_set_range_def ap_range_def bit_ap_of nth_append bit_simps)

lemma outputs_channels:
  assumes "i_logID p = 0"
  shows "[output0 p, output1 p, output2 p, output3 p] = in_channels p"
  using assms
  by (simp add: output0_def output1_def output2_def output3_def in_channels_def channel_def
      out_packet_def ap_range_def)

lemma outputs_fields:
  "o_logID (output0 p) = i_logID p" "o_logID (output1 p) = i_logID p"
  "o_logID (output2 p) = i_logID p" "o_logID (output3 p) = i_logID p"
  "has_event (output0 p) \<longleftrightarrow> a0_wr_addr_latch p \<noteq> 0 \<or> a0_first_wr p \<noteq> 0 \<or> a0_last_wr p \<noteq> 0 \<or> a0_response p \<noteq> 0"
  "has_event (output1 p) \<longleftrightarrow> a0_rd_addr_latch p \<noteq> 0 \<or> a0_first_rd p \<noteq> 0 \<or> a0_last_rd p \<noteq> 0"
  "has_event (output2 p) \<longleftrightarrow> a1_wr_addr_latch p \<noteq> 0 \<or> a1_first_wr p \<noteq> 0 \<or> a1_last_wr p \<noteq> 0 \<or> a1_response p \<noteq> 0"
  "has_event (output3 p) \<longleftrightarrow> a1_rd_addr_latch p \<noteq> 0 \<or> a1_first_rd p \<noteq> 0 \<or> a1_last_rd p \<noteq> 0"
  by (simp_all add: output0_def output1_def output2_def output3_def has_event_def)

lemma event_of_outputs:
  assumes "i_logID p = 0"
  shows "event_of (out_packet_word (output0 p)) = Ch_event (output0 p)"
    "event_of (out_packet_word (output1 p)) = Ch_event (output1 p)"
    "event_of (out_packet_word (output2 p)) = Ch_event (output2 p)"
    "event_of (out_packet_word (output3 p)) = Ch_event (output3 p)"
    "o_logID e = 0 \<Longrightarrow> event_of (out_packet_word (set_time t p e)) = Ch_event (set_time t p e)"
  using assms by (simp_all add: event_of_packet outputs_fields set_time_def)

lemma convert_data_flags: "convert_data t p =
   (let v0 = has_event (output0 p); v1 = has_event (output1 p);
        v2 = has_event (output2 p); v3 = has_event (output3 p) in
    \<lparr>data0 = out_packet_word (if v0 then set_time t p (output0 p) else output0 p),
     data1 = out_packet_word (if \<not> v0 \<and> v1 then set_time t p (output1 p) else output1 p),
     data2 = out_packet_word (if \<not> v0 \<and> \<not> v1 \<and> v2 then set_time t p (output2 p) else output2 p),
     data3 = out_packet_word (if \<not> v0 \<and> \<not> v1 \<and> \<not> v2 \<and> v3 then set_time t p (output3 p) else output3 p),
     valid0 = v0, valid1 = v1, valid2 = v2, valid3 = v3\<rparr>)"
  unfolding convert_data_def outputs_fields [symmetric] Let_def by (simp split: if_splits)

lemma convert_data_events:
  assumes p: "i_logID p = 0"
  shows "map event_of (valid_data (convert_data t p)) =
     map Ch_event (stamp t (i_loop p) (filter has_event (in_channels p)))"
  unfolding outputs_channels [OF p, symmetric] convert_data_flags Let_def valid_data_def
  by (cases "has_event (output0 p)"; cases "has_event (output1 p)";
      cases "has_event (output2 p)"; cases "has_event (output3 p)")
    (simp_all add: event_of_outputs p outputs_fields(1-4) set_time_def event_of_packet)

lemma ucast64_128 [simp]: "ucast (ucast (w :: 64 word) :: out_t) = w"
  by (rule bit_word_eqI) (simp add: bit_simps)

lemma convert_sw_events: "bit x 0 \<Longrightarrow> map event_of (valid_data (convert_sw x)) = [Sw_event (ucast x)]"
  by (simp add: convert_sw_def pack_packet_init_def valid_data_def low64 event_of_def bit_simps)

section \<open>Executions\<close>

text \<open>
  An execution has the entries that arrived and the events that the reader of
  the output took. The two processes run in any order.
\<close>

inductive compress_exec :: "nat \<Rightarrow> in_t list \<Rightarrow> out_t list \<Rightarrow> compress_st \<Rightarrow> bool" where
  start: "compress_exec depth [] [] compress_init"
| arrive: "compress_exec depth xs ys s \<Longrightarrow>
    compress_exec depth (xs @ [x]) ys (s\<lparr>cmp_in := cmp_in s @ [x]\<rparr>)"
| taken: "compress_exec depth xs ys s \<Longrightarrow> cmp_out s = y # rest \<Longrightarrow>
    compress_exec depth xs (ys @ [y]) (s\<lparr>cmp_out := rest\<rparr>)"
| convert: "compress_exec depth xs ys s \<Longrightarrow> compress_exec depth xs ys (convert_inputs s)"
| written: "compress_exec depth xs ys s \<Longrightarrow> write_out depth s = Some s' \<Longrightarrow> compress_exec depth xs ys s'"

definition left_data :: "compress_st \<Rightarrow> out_t list" where
  "left_data s = (if wr_state s = S_IDLE then [] else valid_data (current_input s))"

lemma left_data_update [simp]:
  "left_data (s\<lparr>cmp_in := q\<rparr>) = left_data s" "left_data (s\<lparr>cmp_out := r\<rparr>) = left_data s"
  by (simp_all add: left_data_def)

definition in_flight :: "compress_st \<Rightarrow> out_t list" where
  "in_flight s = cmp_out s @ left_data s @ concat (map (valid_data \<circ> pack_packet) (pack_buffer s))"

definition compress_inv :: "compress_st \<Rightarrow> bool" where
  "compress_inv s \<longleftrightarrow> state_of (length (left_data s)) = Some (wr_state s) \<and> length (pack_buffer s) \<le> PACK_BUFFER_DEPTH"

text \<open>What the rest of an execution from a state puts out.\<close>

definition to_come :: "compress_st \<Rightarrow> apm_event list" where
  "to_come s = map event_of (in_flight s) @ apm_events (time_acc s) (cmp_in s)"

lemma convert_to_come: "to_come (convert_inputs s) = to_come s"
  by (auto simp: convert_inputs_def to_come_def in_flight_def left_data_def entry_events_def time_after_def Let_def
      bit0_logID pack_packet_roundtrip convert_data_events convert_sw_events split: list.splits)

lemma convert_time: "foldl time_after (time_acc (convert_inputs s)) (cmp_in (convert_inputs s)) = foldl time_after (time_acc s) (cmp_in s)"
  by (auto simp: convert_inputs_def time_after_def Let_def bit0_logID split: list.splits)

lemma convert_inv: "compress_inv s \<Longrightarrow> compress_inv (convert_inputs s)"
  by (auto simp: convert_inputs_def compress_inv_def left_data_def Let_def split: list.splits)

text \<open>The state machine moves what is in flight and changes nothing else.\<close>

definition write_keeps :: "compress_st \<Rightarrow> compress_st \<Rightarrow> bool" where
  "write_keeps s s' \<longleftrightarrow> in_flight s' = in_flight s \<and> compress_inv s' \<and> time_acc s' = time_acc s \<and> cmp_in s' = cmp_in s"

lemma state_of_eq_iff:
  "state_of n = Some S_IDLE \<longleftrightarrow> n = 0" "state_of n = Some S_ONE_LEFT \<longleftrightarrow> n = 1"
  "state_of n = Some S_TWO_LEFT \<longleftrightarrow> n = 2" "state_of n = Some S_THREE_LEFT \<longleftrightarrow> n = 3"
  "state_of n = Some S_FOUR_LEFT \<longleftrightarrow> n = 4"
  by (simp_all add: state_of_def)

lemma read_package_total: "\<exists>s'. read_package s = Some s'"
  using state_of_total [OF num_left_le]
  by (auto simp: read_package_def Let_def split: list.splits)

lemma write_out_total: "\<exists>s'. write_out depth s = Some s'"
  using read_package_total by (simp add: write_out_def split: wr_state.splits)

lemma read_package_keeps:
  assumes "read_package s = Some s'" "compress_inv s" "wr_state s = S_IDLE"
  shows "write_keeps s s'"
  using assms
  by (auto simp: read_package_def write_keeps_def in_flight_def left_data_def compress_inv_def num_left_length Let_def
      state_of_eq_iff split: list.splits if_splits)

lemma put_valid_keeps:
  assumes "compress_inv s" "wr_state s \<noteq> S_IDLE" "st \<noteq> S_IDLE"
    "state_of (length (valid_data (current_input s)) - 1) = Some st"
  shows "write_keeps s (put_valid depth st s)"
proof -
  have "valid_data (current_input s) \<noteq> []"
    using assms by (auto simp: state_of_def)
  then show ?thesis
    using assms valid_data_cons [of "current_input s"]
    by (auto simp: put_valid_def write_keeps_def in_flight_def left_data_def compress_inv_def)
qed

lemma write_out_keeps:
  assumes s: "compress_inv s" and w: "write_out depth s = Some s'"
  shows "write_keeps s s'"
proof (cases "wr_state s")
  case S_IDLE
  then show ?thesis
    using assms read_package_keeps by (simp add: write_out_def)
next
  case S_ONE_LEFT
  let ?s = "s\<lparr>cmp_out := cmp_out s @ [first_valid (current_input s)], wr_state := S_IDLE\<rparr>"
  have "length (valid_data (current_input s)) = 1"
    using s S_ONE_LEFT by (simp add: compress_inv_def left_data_def state_of_eq_iff)
  then have "valid_data (current_input s) = [first_valid (current_input s)]"
    using valid_data_cons [of "current_input s"] by (cases "valid_data (current_input s)") auto
  then have "write_keeps s ?s"
    using s S_ONE_LEFT by (simp add: write_keeps_def in_flight_def left_data_def compress_inv_def state_of_def)
  moreover have "write_keeps ?s s'" if "read_package ?s = Some s'"
    using read_package_keeps [OF that] calculation by (simp add: write_keeps_def)
  ultimately show ?thesis
    using w s S_ONE_LEFT by (auto simp: write_out_def write_keeps_def split: if_splits)
next
  case S_TWO_LEFT
  then show ?thesis
    using assms put_valid_keeps [of s S_ONE_LEFT depth]
    by (auto simp: write_out_def compress_inv_def left_data_def state_of_eq_iff)
next
  case S_THREE_LEFT
  then show ?thesis
    using assms put_valid_keeps [of s S_TWO_LEFT depth]
    by (auto simp: write_out_def compress_inv_def left_data_def state_of_eq_iff)
next
  case S_FOUR_LEFT
  then show ?thesis
    using assms put_valid_keeps [of s S_THREE_LEFT depth]
    by (auto simp: write_out_def compress_inv_def left_data_def state_of_eq_iff)
qed

lemma to_come_arrive:
  "to_come (s\<lparr>cmp_in := cmp_in s @ [x]\<rparr>) = to_come s @ apm_events (foldl time_after (time_acc s) (cmp_in s)) [x]"
  by (simp add: to_come_def in_flight_def left_data_def apm_events_append)

text \<open>Every execution: what was taken and what is to come are the events of what arrived.\<close>

lemma compress_exec_inv:
  "compress_exec depth xs ys s \<Longrightarrow>
     compress_inv s \<and> map event_of ys @ to_come s = apm_events 0 xs \<and>
     foldl time_after (time_acc s) (cmp_in s) = foldl time_after 0 xs"
proof (induction rule: compress_exec.induct)
  case (start depth)
  show ?case
    by (simp add: compress_init_def compress_inv_def to_come_def in_flight_def left_data_def state_of_def)
next
  case (arrive depth xs ys s x)
  then show ?case
    by (simp add: to_come_arrive apm_events_append compress_inv_def flip: append_assoc)
next
  case (taken depth xs ys s y rest)
  then show ?case
    by (simp add: compress_inv_def to_come_def in_flight_def)
next
  case (convert depth xs ys s)
  then show ?case
    by (simp add: convert_to_come convert_time convert_inv)
next
  case (written depth xs ys s s')
  then show ?case
    using write_out_keeps [of s depth s'] by (simp add: write_keeps_def to_come_def)
qed

definition compress_empty :: "compress_st \<Rightarrow> bool" where
  "compress_empty s \<longleftrightarrow> cmp_in s = [] \<and> pack_buffer s = [] \<and> wr_state s = S_IDLE"

text \<open>C16: In every execution of the unit, in whatever order its two processes
  run and its reader takes the events, the events taken are in order those of
  the entries that arrived: for an entry of the software its low 64 bits, for
  any other the events of the channels on which something happened, the first
  of them with a time and the overflow bit of the entry, the others with time
  zero. When the unit is empty none is missing. The buffer between the
  processes never has more than 1024 packages and the assertion of the state
  machine never fails. There is one time for each entry; which one is left open
  but for the first entry, whose time is its own.\<close>

theorem compress_events:
  assumes "compress_exec depth xs ys s"
  shows "(\<exists>ts. length ts = length xs \<and> prefix (map event_of ys) (apm_events_at ts xs) \<and>
      (compress_empty s \<and> cmp_out s = [] \<longrightarrow> map event_of ys = apm_events_at ts xs) \<and>
      (xs \<noteq> [] \<and> \<not> bit (hd xs) 0 \<longrightarrow> hd ts = i_timestamp (in_packet (hd xs)))) \<and>
    length (pack_buffer s) \<le> PACK_BUFFER_DEPTH \<and> (\<exists>s'. write_out depth s = Some s')"
proof (intro conjI exI [of _ "entry_times 0 xs"] impI)
  note inv = compress_exec_inv [OF assms]
  then show "prefix (map event_of ys) (apm_events_at (entry_times 0 xs) xs)"
    by (metis apm_events_times prefixI)
  show "map event_of ys = apm_events_at (entry_times 0 xs) xs" if "compress_empty s \<and> cmp_out s = []"
    using inv that by (simp add: compress_empty_def to_come_def in_flight_def left_data_def flip: apm_events_times)
  show "length (pack_buffer s) \<le> PACK_BUFFER_DEPTH"
    using inv by (simp add: compress_inv_def)
  show "\<exists>s'. write_out depth s = Some s'"
    by (rule write_out_total)
qed (simp_all add: entry_times_hd)

text \<open>An entry of the software passes through an output with room for one event.\<close>

lemma sw_entry_flags: "i_logID (in_packet 1) \<noteq> 0" "num_left (convert_sw x) = 1"
  "first_valid (convert_sw x) = ucast (ucast x :: 64 word)"
  using bit0_logID [of 1]
  by (simp_all add: convert_sw_def pack_packet_init_def num_left_def first_valid_def low64)

theorem compress_events_witness:
  "\<exists>s. compress_exec 1 [1] [1] s \<and> compress_empty s \<and> map event_of [1] = [Sw_event 1]"
proof -
  let ?p = "convert_sw 1"
  let ?s1 = "compress_init\<lparr>cmp_in := [1]\<rparr>"
  let ?s2 = "compress_init\<lparr>pack_buffer := [pack_packet_word ?p]\<rparr>"
  let ?s3 = "compress_init\<lparr>wr_state := S_ONE_LEFT, current_input := ?p\<rparr>"
  let ?s4 = "compress_init\<lparr>cmp_out := [1], current_input := ?p\<rparr>"
  let ?s5 = "compress_init\<lparr>current_input := ?p\<rparr>"
  have "compress_exec 1 [1] [] ?s1"
    using compress_exec.arrive [OF compress_exec.start, of 1 1] by (simp add: compress_init_def)
  from compress_exec.convert [OF this] have "compress_exec 1 [1] [] ?s2"
    by (simp add: convert_inputs_def compress_init_def PACK_BUFFER_DEPTH_def sw_entry_flags)
  then have "compress_exec 1 [1] [] ?s3"
    by (rule compress_exec.written)
      (simp add: write_out_def read_package_def compress_init_def pack_packet_roundtrip sw_entry_flags state_of_def)
  then have "compress_exec 1 [1] [] ?s4"
    by (rule compress_exec.written)
      (simp add: write_out_def read_package_def compress_init_def sw_entry_flags)
  then have "compress_exec 1 [1] ([] @ [1]) (?s4\<lparr>cmp_out := []\<rparr>)"
    by (rule compress_exec.taken) simp
  then have run: "compress_exec 1 [1] [1] ?s5"
    by (simp add: compress_init_def)
  moreover have "compress_empty ?s5" "cmp_out ?s5 = []"
    by (simp_all add: compress_empty_def compress_init_def)
  ultimately show ?thesis
    using compress_events [OF run] by (auto simp: apm_events_at_def length_Suc_conv entry_events_def)
qed

section \<open>The unit called again and again\<close>

fun compress_calls :: "nat \<Rightarrow> nat \<Rightarrow> compress_st \<Rightarrow> compress_st option" where
  "compress_calls depth 0 s = Some s"
| "compress_calls depth (Suc n) s = Option.bind (compress depth s) (compress_calls depth n)"

definition compress_work :: "compress_st \<Rightarrow> nat" where
  "compress_work s = 6 * length (cmp_in s) + 5 * length (pack_buffer s) + length (left_data s)"

lemma convert_work:
  "compress_work (convert_inputs s) \<le> compress_work s"
  "cmp_in s \<noteq> [] \<Longrightarrow> pack_buffer s = [] \<Longrightarrow> compress_work (convert_inputs s) < compress_work s"
  by (auto simp: convert_inputs_def compress_work_def left_data_def Let_def PACK_BUFFER_DEPTH_def split: list.splits)

lemma read_package_work:
  assumes "read_package s = Some s'" "wr_state s = S_IDLE"
  shows "compress_work s' + of_bool (pack_buffer s \<noteq> []) \<le> compress_work s"
  using assms num_left_le
  by (auto simp: read_package_def compress_work_def left_data_def Let_def num_left_length
      split: list.splits)

lemma put_valid_work:
  assumes "left_data s \<noteq> []" "length (cmp_out s) < depth" "st \<noteq> S_IDLE"
  shows "compress_work (put_valid depth st s) + 1 = compress_work s"
  using assms arg_cong [OF valid_data_cons [of "current_input s"], of length]
  by (auto simp: put_valid_def compress_work_def left_data_def split: if_splits)

lemma write_out_work:
  assumes s: "compress_inv s" and w: "write_out depth s = Some s'"
    and room: "left_data s \<noteq> [] \<longrightarrow> length (cmp_out s) < depth"
  shows "compress_work s' + of_bool (left_data s \<noteq> [] \<or> pack_buffer s \<noteq> []) \<le> compress_work s"
proof (cases "wr_state s")
  case S_IDLE
  then show ?thesis
    using w read_package_work [of s s'] by (simp add: write_out_def left_data_def)
next
  case S_ONE_LEFT
  let ?s = "s\<lparr>cmp_out := cmp_out s @ [first_valid (current_input s)], wr_state := S_IDLE\<rparr>"
  have l: "length (left_data s) = 1"
    using s S_ONE_LEFT by (simp add: compress_inv_def state_of_eq_iff)
  then have "read_package ?s = Some s'"
    using w room S_ONE_LEFT by (auto simp: write_out_def)
  from read_package_work [OF this]
  have "compress_work s' \<le> 6 * length (cmp_in s) + 5 * length (pack_buffer s)"
    by (simp add: compress_work_def left_data_def)
  with l show ?thesis
    by (auto simp: compress_work_def [of s])
qed (use assms put_valid_work [of s depth] in
    \<open>cases "left_data s", auto simp: write_out_def compress_inv_def state_of_eq_iff\<close>)+

lemma compress_step:
  assumes s: "compress_inv s" and room: "length (to_come s) \<le> depth"
  obtains s' where "compress depth s = Some s'" "compress_inv s'" "to_come s' = to_come s"
    "compress_empty s \<and> s' = s \<or> compress_work s' < compress_work s"
proof -
  obtain s' where s': "write_out depth (convert_inputs s) = Some s'"
    using write_out_total by blast
  have inv: "compress_inv (convert_inputs s)"
    using s by (rule convert_inv)
  have keeps: "write_keeps (convert_inputs s) s'"
    using inv s' by (rule write_out_keeps)
  have "length (to_come (convert_inputs s)) \<le> depth"
    using room by (simp add: convert_to_come)
  then have "left_data (convert_inputs s) \<noteq> [] \<longrightarrow> length (cmp_out (convert_inputs s)) < depth"
    by (auto simp: to_come_def in_flight_def neq_Nil_conv)
  from write_out_work [OF inv s' this]
  have work: "compress_work s' + of_bool (left_data (convert_inputs s) \<noteq> [] \<or> pack_buffer (convert_inputs s) \<noteq> []) \<le> compress_work (convert_inputs s)" .
  have "compress_empty s \<and> s' = s \<or> compress_work s' < compress_work s"
  proof (cases "left_data (convert_inputs s) = [] \<and> pack_buffer (convert_inputs s) = []")
    case True
    then have c: "cmp_in s = []"
      by (auto simp: convert_inputs_def PACK_BUFFER_DEPTH_def Let_def split: list.splits if_splits)
    then have "convert_inputs s = s"
      by (simp add: convert_inputs_def)
    with True s s' c show ?thesis
      by (auto simp: compress_empty_def write_out_def read_package_def compress_inv_def state_of_def)
  next
    case False
    then show ?thesis
      using work convert_work(1) [of s] by auto
  qed
  then show thesis
    using that s' keeps convert_to_come [of s] by (auto simp: compress_def write_keeps_def to_come_def)
qed

lemma compress_calls_end:
  "compress_inv s \<Longrightarrow> length (to_come s) \<le> depth \<Longrightarrow> compress_work s \<le> n \<Longrightarrow>
   \<exists>s'. compress_calls depth n s = Some s' \<and> compress_empty s' \<and> to_come s' = to_come s"
proof (induction n arbitrary: s)
  case 0
  then show ?case
    by (auto simp: compress_work_def compress_empty_def compress_inv_def state_of_def split: if_splits)
next
  case (Suc n)
  obtain s' where s': "compress depth s = Some s'" "compress_inv s'" "to_come s' = to_come s"
    "compress_empty s \<and> s' = s \<or> compress_work s' < compress_work s"
    using compress_step [OF Suc.prems(1,2)] .
  have "compress_work s' \<le> n"
    using s' Suc.prems(3) by (auto simp: compress_empty_def compress_work_def left_data_def)
  then show ?case
    using Suc.IH [of s'] Suc.prems(2) s' by simp
qed

text \<open>C39: The unit called again and again on entries that wait at its input ends
  with all of them put out, as the test bench runs it: after six calls for an
  entry, or more, nothing is left in the unit and its output has exactly the
  events of the entries, with one time for each entry, when the output has the
  room for them. The times are left open but for the first entry, as above.\<close>

theorem compress_ends:
  assumes "(\<Sum>x\<leftarrow>xs. length (entry_events 0 x)) \<le> depth" "6 * length xs \<le> n"
  shows "\<exists>s ts. compress_calls depth n (compress_init\<lparr>cmp_in := xs\<rparr>) = Some s \<and> compress_empty s \<and>
    length ts = length xs \<and> map event_of (cmp_out s) = apm_events_at ts xs \<and>
    (xs \<noteq> [] \<and> \<not> bit (hd xs) 0 \<longrightarrow> hd ts = i_timestamp (in_packet (hd xs)))"
proof -
  let ?s = "compress_init\<lparr>cmp_in := xs\<rparr>"
  have "compress_inv ?s" "to_come ?s = apm_events 0 xs" "compress_work ?s = 6 * length xs"
    by (simp_all add: compress_init_def compress_inv_def to_come_def in_flight_def left_data_def
        state_of_def compress_work_def)
  then obtain s where s: "compress_calls depth n ?s = Some s" "compress_empty s" "to_come s = apm_events 0 xs"
    using compress_calls_end [of ?s depth n] assms by (auto simp: length_apm_events)
  then have "map event_of (cmp_out s) = apm_events_at (entry_times 0 xs) xs"
    by (simp add: compress_empty_def to_come_def in_flight_def left_data_def flip: apm_events_times)
  with s show ?thesis
    by (intro exI [of _ s] exI [of _ "entry_times 0 xs"]) (simp add: entry_times_hd)
qed

definition sample_entry :: in_packet_t where
  "sample_entry = (in_packet 0)\<lparr>i_timestamp := 5, i_loop := 1, a0_wr_addr_latch := 1, a0_awaddr := 64,
     a1_last_rd := 1, a1_rid := 3\<rparr>"

text \<open>Two of the four channels have an event; the first has the time.\<close>

theorem compress_ends_witness:
  "\<exists>s. compress_calls 2 6 (compress_init\<lparr>cmp_in := [in_packet_word sample_entry]\<rparr>) = Some s \<and> compress_empty s \<and>
    map event_of (cmp_out s) =
      [Ch_event (channel 0 1 0 (1, 0, 0, 0) 0 0 0 64\<lparr>o_timestamp := 5, o_loop := 1\<rparr>),
       Ch_event (channel 1 0 0 (0, 0, 1, 0) 0 3 0 0)]"
proof -
  let ?x = "in_packet_word sample_entry"
  have b: "\<not> bit ?x 0"
    by (simp add: bit0_logID in_packet_roundtrip sample_entry_def in_packet_def [of 0])
  then have ev: "entry_events t ?x =
      [Ch_event (channel 0 1 0 (1, 0, 0, 0) 0 0 0 64\<lparr>o_timestamp := t, o_loop := 1\<rparr>),
       Ch_event (channel 1 0 0 (0, 0, 1, 0) 0 3 0 0)]" for t
    by (simp add: entry_events_def in_packet_roundtrip sample_entry_def in_packet_def [of 0]
        in_channels_def has_event_def channel_def)
  have "i_timestamp (in_packet ?x) = 5"
    by (simp add: in_packet_roundtrip sample_entry_def)
  with b ev show ?thesis
    using compress_ends [of "[?x]" 2 6] by (auto simp: apm_events_at_def length_Suc_conv)
qed

end
