(* ===== verification/Eth_Fifo.thy ===== *)
theory Eth_Fifo
  imports Ap_Uint
begin

text \<open>
  The unit that sends trace data over the FIFO interface of the processor's
  Ethernet controller (\<^verbatim>\<open>src/ip/hls/eth_fifo_interface\<close>). One call of
  \<open>eth_fifo_interface\<close> is a clock cycle: the outputs are registers, the state
  machine then prepares the next byte, at most one byte of the current word goes
  into the buffer, and a new word is taken from the input stream.

  The state \<open>eth_st\<close> has the static variables of the function, the buffer and the
  input stream. A cycle that would wait for an empty stream, or use an array
  outside its bounds, is \<open>None\<close>. Signals of one bit are \<^typ>\<open>bool\<close>.
\<close>

section \<open>The unit\<close>

type_synonym u4t = "4 word"
type_synonym u8t = "8 word"
type_synonym u14t = "14 word"
type_synonym u16t = "16 word"
type_synonym u128t = "128 word"

definition PACKET_SIZE :: nat where
  "PACKET_SIZE = 1488"

datatype eth_state_t = IDLE | MAC_DST | MAC_SRC | ETH_TYPE | PAYLOAD | ZEROS | ID

definition src_mac :: "u8t list" where
  "src_mac = [0x00, 0x0A, 0x35, 0x03, 0x59, 0xF5]"

definition dst_mac :: "u8t list" where
  "dst_mac = [0xFF, 0xFF, 0xFF, 0xFF, 0xFF, 0xFF]"

definition idle_count :: u14t where "idle_count = 16000"
definition mac_count :: u14t where "mac_count = 6"
definition type_count :: u14t where "type_count = 2"

definition DATA_BUFFER_DEPTH :: nat where
  "DATA_BUFFER_DEPTH = 16384"

record eth_st =
  eth_state :: eth_state_t
  eth_count :: u14t
  eth_length :: u16t
  ID_num :: u8t
  data_buffer :: "u8t list"
  data_word :: u128t
  data_word_valid :: bool
  word_byte :: u4t
  last_tx_status_valid :: bool
  buffer_count :: u14t
  buffer_added :: bool
  buffer_data :: u8t
  data_ready :: bool
  tx_valid :: bool
  eth_sop :: bool
  eth_eop :: bool
  tx_data :: u8t
  data_in :: "u128t list"

definition eth_init :: eth_st where
  "eth_init = \<lparr>eth_state = IDLE, eth_count = idle_count, eth_length = 0, ID_num = 0,
     data_buffer = [], data_word = 0, data_word_valid = False, word_byte = 0,
     last_tx_status_valid = False, buffer_count = 0, buffer_added = False, buffer_data = 0,
     data_ready = False, tx_valid = False, eth_sop = False, eth_eop = False, tx_data = 0, data_in = []\<rparr>"

record eth_out =
  dma_tx_status_tog :: bool
  tx_r_control :: bool
  tx_r_data :: u8t
  tx_r_data_rdy :: bool
  tx_r_eop :: bool
  tx_r_err :: bool
  tx_r_flushed :: bool
  tx_r_sop :: bool
  tx_r_underflow :: bool
  tx_r_valid :: bool

text \<open>The outputs of a cycle are registers; the unused ones are tied off.\<close>

definition eth_outputs :: "eth_st \<Rightarrow> eth_out" where
  "eth_outputs s = \<lparr>
     dma_tx_status_tog = last_tx_status_valid s,
     tx_r_control = False,
     tx_r_data = tx_data s,
     tx_r_data_rdy = data_ready s,
     tx_r_eop = eth_eop s,
     tx_r_err = False,
     tx_r_flushed = False,
     tx_r_sop = eth_sop s,
     tx_r_underflow = False,
     tx_r_valid = tx_valid s\<rparr>"

subsection \<open>The states\<close>

text \<open>The byte of an address of six that is sent when \<open>c\<close> are left.\<close>

definition mac_byte :: "u8t list \<Rightarrow> u14t \<Rightarrow> u8t option" where
  "mac_byte mac c = (if 1 \<le> unat c \<and> unat c \<le> 6 then Some (mac ! (6 - unat c)) else None)"

text \<open>The number of buffered bytes in whole words.\<close>

definition whole_words :: "u14t \<Rightarrow> u14t" where
  "whole_words n = ap_set_range 4 13 (ap_range 4 13 n :: 10 word) 0"

definition st_idle :: "eth_st \<Rightarrow> eth_st" where
  "st_idle s =
     (if PACKET_SIZE \<le> unat (buffer_count s) then
        s\<lparr>eth_length := of_nat (PACKET_SIZE + 1), eth_count := mac_count, eth_state := MAC_DST\<rparr>
      else if eth_count s = 0 \<and> data_buffer s \<noteq> [] then
        s\<lparr>eth_length := (if unat (whole_words (buffer_count s)) < 48 then 49 else ucast (whole_words (buffer_count s)) + 1),
          eth_count := mac_count, eth_state := MAC_DST\<rparr>
      else if buffer_added s then s\<lparr>eth_count := idle_count\<rparr>
      else if eth_count s \<noteq> 0 then s\<lparr>eth_count := eth_count s - 1\<rparr>
      else s)"

text \<open>Count down, or go on to the next state with its count.\<close>

definition next_byte :: "bool \<Rightarrow> eth_state_t \<Rightarrow> u14t \<Rightarrow> eth_st \<Rightarrow> eth_st" where
  "next_byte tx_read st c s =
     (if tx_read then
        if eth_count s = 1 then s\<lparr>eth_state := st, eth_count := c\<rparr> else s\<lparr>eth_count := eth_count s - 1\<rparr>
      else s)"

definition st_mac_dst :: "bool \<Rightarrow> eth_st \<Rightarrow> eth_st option" where
  "st_mac_dst tx_read s =
     map_option (\<lambda>b.
         next_byte tx_read MAC_SRC mac_count
           (s\<lparr>data_ready := True, tx_data := b,
             eth_sop := (if (ap_range 0 3 (eth_count s) :: u4t) = ap_range 0 3 mac_count then True else eth_sop s)\<rparr>))
       (mac_byte dst_mac (eth_count s))"

definition st_mac_src :: "bool \<Rightarrow> eth_st \<Rightarrow> eth_st option" where
  "st_mac_src tx_read s =
     map_option (\<lambda>b. next_byte tx_read ETH_TYPE type_count (s\<lparr>data_ready := False, tx_data := b\<rparr>))
       (mac_byte src_mac (eth_count s))"

text \<open>A read of the buffer, which must not be empty.\<close>

definition read_buffer :: "eth_st \<Rightarrow> eth_st option" where
  "read_buffer s = (case data_buffer s of [] \<Rightarrow> None | b # r \<Rightarrow> Some (s\<lparr>buffer_data := b, data_buffer := r\<rparr>))"

text \<open>The next two also tell whether a byte was removed from the buffer.\<close>

definition st_type :: "bool \<Rightarrow> eth_st \<Rightarrow> (eth_st \<times> bool) option" where
  "st_type tx_read s =
     (let s1 = s\<lparr>tx_data := (if eth_count s = type_count then ap_range 15 8 (eth_length s) else ap_range 7 0 (eth_length s))\<rparr> in
      if tx_read then
        if eth_count s = 1 then
          map_option (\<lambda>s2. (s2\<lparr>eth_count := ucast (eth_length s - 1), eth_state := PAYLOAD\<rparr>, True)) (read_buffer s1)
        else Some (s1\<lparr>eth_count := eth_count s - 1\<rparr>, False)
      else Some (s1, False))"

definition st_payload :: "bool \<Rightarrow> eth_st \<Rightarrow> (eth_st \<times> bool) option" where
  "st_payload tx_read s =
     (let s1 = s\<lparr>tx_data := buffer_data s\<rparr> in
      if tx_read then
        if eth_count s = 1 then Some (s1\<lparr>eth_state := ID\<rparr>, False)
        else
          let s2 = s1\<lparr>eth_count := eth_count s - 1\<rparr> in
          if data_buffer s = [] then Some (s2\<lparr>eth_state := ZEROS\<rparr>, False)
          else map_option (\<lambda>s3. (s3, True)) (read_buffer s2)
      else Some (s1, False))"

definition st_zeros :: "bool \<Rightarrow> eth_st \<Rightarrow> eth_st" where
  "st_zeros tx_read s =
     (let s1 = s\<lparr>tx_data := 0\<rparr> in
      if tx_read then
        if eth_count s = 1 then s1\<lparr>eth_state := ID\<rparr> else s1\<lparr>eth_count := eth_count s - 1\<rparr>
      else s1)"

definition st_id :: "bool \<Rightarrow> eth_st \<Rightarrow> eth_st" where
  "st_id tx_read s =
     (let s1 = s\<lparr>tx_data := ID_num s, eth_eop := True\<rparr> in
      if tx_read then s1\<lparr>eth_count := idle_count, eth_state := IDLE, ID_num := ID_num s + 1\<rparr> else s1)"

definition eth_machine :: "bool \<Rightarrow> eth_st \<Rightarrow> (eth_st \<times> bool) option" where
  "eth_machine tx_read s =
     (case eth_state s of
        IDLE \<Rightarrow> Some (st_idle s, False)
      | MAC_DST \<Rightarrow> map_option (\<lambda>s'. (s', False)) (st_mac_dst tx_read s)
      | MAC_SRC \<Rightarrow> map_option (\<lambda>s'. (s', False)) (st_mac_src tx_read s)
      | ETH_TYPE \<Rightarrow> st_type tx_read s
      | PAYLOAD \<Rightarrow> st_payload tx_read s
      | ZEROS \<Rightarrow> Some (st_zeros tx_read s, False)
      | ID \<Rightarrow> Some (st_id tx_read s, False))"

subsection \<open>The buffer\<close>

text \<open>Byte \<open>b\<close> of a word: the range \<^verbatim>\<open>data_word(8*b, 8*b+7)\<close>.\<close>

definition byte_of_word :: "u128t \<Rightarrow> u4t \<Rightarrow> u8t" where
  "byte_of_word w b = ap_range (8 * unat b) (8 * unat b + 7) w"

definition add_byte :: "bool \<Rightarrow> eth_st \<Rightarrow> eth_st" where
  "add_byte buffer_full s =
     (let s1 = s\<lparr>buffer_added := False\<rparr> in
      if data_word_valid s1 \<and> \<not> buffer_full then
        let s2 = s1\<lparr>data_buffer := data_buffer s1 @ [byte_of_word (data_word s1) (word_byte s1)], buffer_added := True\<rparr> in
        if word_byte s2 = 15 then s2\<lparr>data_word_valid := False\<rparr> else s2\<lparr>word_byte := word_byte s2 + 1\<rparr>
      else s1)"

definition read_word :: "eth_st \<Rightarrow> eth_st" where
  "read_word s =
     (case data_in s of
        [] \<Rightarrow> s
      | w # ws \<Rightarrow>
          if data_word_valid s then s
          else s\<lparr>data_word := w, data_in := ws, data_word_valid := True, word_byte := 0\<rparr>)"

definition update_count :: "bool \<Rightarrow> eth_st \<Rightarrow> eth_st" where
  "update_count buffer_removed s =
     (if buffer_added s \<and> \<not> buffer_removed then s\<lparr>buffer_count := buffer_count s + 1\<rparr>
      else if buffer_removed \<and> \<not> buffer_added s then s\<lparr>buffer_count := buffer_count s - 1\<rparr>
      else s)"

subsection \<open>A cycle\<close>

text \<open>The inputs \<^verbatim>\<open>tx_r_fixed_lat\<close> and \<^verbatim>\<open>tx_r_status\<close> are read and not used.\<close>

definition eth_fifo_interface ::
  "bool \<Rightarrow> bool \<Rightarrow> bool \<Rightarrow> u4t \<Rightarrow> eth_st \<Rightarrow> (eth_out \<times> eth_st) option"
where
  "eth_fifo_interface dma_tx_end_tog tx_r_fixed_lat tx_r_rd tx_r_status s =
     (let buffer_full = (DATA_BUFFER_DEPTH \<le> length (data_buffer s));
          s0 = s\<lparr>last_tx_status_valid := dma_tx_end_tog, tx_valid := tx_r_rd, eth_sop := False, eth_eop := False\<rparr>
      in map_option (\<lambda>(s1, buffer_removed).
           (eth_outputs s, update_count buffer_removed (read_word (add_byte buffer_full s1))))
         (eth_machine tx_r_rd s0))"

end
