(* ===== verification/Eth_Frames.thy ===== *)
theory Eth_Frames
  imports Eth_Fifo
begin

text \<open>
  What the controller sees of the unit of theory \<open>Eth_Fifo\<close>: a receiver that
  collects the valid bytes between the start and the end of a packet gets whole
  frames, numbered one after the other, with the words of the input in order,
  each once, and nothing but zeros after them. The invariant is kept state by
  state of the machine, then by the three operations on the buffer.
\<close>

section \<open>The receiver and the frames\<close>

text \<open>The receiver: the packet that has begun, and the packets that are complete.\<close>

definition rx :: "u8t list option \<times> u8t list list \<Rightarrow> eth_out \<Rightarrow> u8t list option \<times> u8t list list" where
  "rx r out =
     (if tx_r_valid out then
        let cur = (if tx_r_sop out then Some [tx_r_data out] else map_option (\<lambda>f. f @ [tx_r_data out]) (fst r)) in
        if tx_r_eop out then (None, snd r @ (case cur of None \<Rightarrow> [] | Some f \<Rightarrow> [f])) else (cur, snd r)
      else r)"

text \<open>The sixteen bytes of a word in the order they are sent.\<close>

definition word16_bytes :: "u128t \<Rightarrow> u8t list" where
  "word16_bytes w = map (\<lambda>k. ap_range (8 * k) (8 * k + 7) w) [0..<16]"

definition wbytes :: "u128t list \<Rightarrow> u8t list" where
  "wbytes ws = concat (map word16_bytes ws)"

definition len_bytes :: "nat \<Rightarrow> u8t list" where
  "len_bytes n = [of_nat (n div 256), of_nat (n mod 256)]"

text \<open>A frame with the number \<open>i\<close>, the words \<open>ws\<close> and room for \<open>n\<close> bytes of them.\<close>

definition eth_frame :: "u8t \<Rightarrow> u128t list \<times> nat \<Rightarrow> u8t list" where
  "eth_frame i = (\<lambda>(ws, n). dst_mac @ src_mac @ len_bytes (n + 1) @ wbytes ws @ replicate (n - 16 * length ws) 0 @ [i])"

fun eth_frames :: "u8t \<Rightarrow> (u128t list \<times> nat) list \<Rightarrow> u8t list list" where
  "eth_frames i [] = []"
| "eth_frames i (f # fs) = eth_frame i f # eth_frames (i + 1) fs"

definition frame_ok :: "u128t list \<times> nat \<Rightarrow> bool" where
  "frame_ok = (\<lambda>(ws, n). ws \<noteq> [] \<and> 48 \<le> n \<and> n \<le> PACKET_SIZE \<and> 16 dvd n \<and> 16 * length ws \<le> n)"

lemma eth_frames_snoc: "eth_frames i (fs @ [f]) = eth_frames i fs @ [eth_frame (i + of_nat (length fs)) f]"
  by (induction fs arbitrary: i) (simp_all add: algebra_simps)

lemma length_word16_bytes [simp]: "length (word16_bytes w) = 16"
  by (simp add: word16_bytes_def)

lemma wbytes_simps [simp]: "wbytes [] = []" "wbytes (w # ws) = word16_bytes w @ wbytes ws"
  "wbytes (us @ vs) = wbytes us @ wbytes vs"
  by (simp_all add: wbytes_def)

lemma length_wbytes [simp]: "length (wbytes ws) = 16 * length ws"
  by (induction ws) simp_all

lemma wbytes_take: "wbytes (take k ws) = take (16 * k) (wbytes ws)"
proof (induction ws arbitrary: k)
  case (Cons w ws)
  then show ?case
    by (cases k) simp_all
qed simp

lemma wbytes_drop: "wbytes (drop k ws) = drop (16 * k) (wbytes ws)"
proof (induction ws arbitrary: k)
  case (Cons w ws)
  then show ?case
    by (cases k) simp_all
qed simp

lemma byte_of_word_nth: "byte_of_word w b = word16_bytes w ! unat b"
proof -
  have "unat b < 2 ^ LENGTH(4)"
    by (rule unsigned_less)
  then show ?thesis
    by (simp add: byte_of_word_def word16_bytes_def)
qed

section \<open>The invariant\<close>

text \<open>The byte that waits to be sent, and the bytes of the current word not yet in the buffer.\<close>

definition held :: "eth_st \<Rightarrow> u8t list" where
  "held s = (if eth_state s = PAYLOAD then [buffer_data s] else [])"

definition word_left :: "eth_st \<Rightarrow> u8t list" where
  "word_left s = (if data_word_valid s then drop (unat (word_byte s)) (word16_bytes (data_word s)) else [])"

text \<open>The bytes of the frame that are there in each state; \<open>p\<close> are those from the buffer.\<close>

definition header :: "eth_st \<Rightarrow> u8t list" where
  "header s = dst_mac @ src_mac @ len_bytes (unat (eth_length s))"

definition room :: "eth_st \<Rightarrow> nat" where
  "room s = unat (eth_length s) - 1"

definition length_ok :: "eth_st \<Rightarrow> bool" where
  "length_ok s \<longleftrightarrow> 1 \<le> unat (eth_length s) \<and> 48 \<le> room s \<and> room s \<le> PACKET_SIZE \<and> 16 dvd room s"

definition phase :: "u8t list option \<Rightarrow> u8t list \<Rightarrow> eth_st \<Rightarrow> bool" where
  "phase cur p s =
     (let c = unat (eth_count s) in
      case eth_state s of
        IDLE \<Rightarrow> cur = None \<and> p = []
      | MAC_DST \<Rightarrow> length_ok s \<and> p = [] \<and> data_buffer s \<noteq> [] \<and> 1 \<le> c \<and> c \<le> 6 \<and>
          cur = (if c = 6 then None else Some (take (6 - c) dst_mac))
      | MAC_SRC \<Rightarrow> length_ok s \<and> p = [] \<and> data_buffer s \<noteq> [] \<and> 1 \<le> c \<and> c \<le> 6 \<and>
          cur = Some (dst_mac @ take (6 - c) src_mac)
      | ETH_TYPE \<Rightarrow> length_ok s \<and> p = [] \<and> data_buffer s \<noteq> [] \<and> 1 \<le> c \<and> c \<le> 2 \<and>
          cur = Some (dst_mac @ src_mac @ take (2 - c) (len_bytes (unat (eth_length s))))
      | PAYLOAD \<Rightarrow> length_ok s \<and> 1 \<le> c \<and> length p + c = room s \<and> cur = Some (header s @ p)
      | ZEROS \<Rightarrow> length_ok s \<and> 1 \<le> c \<and> p \<noteq> [] \<and> 16 dvd length p \<and> length p + c \<le> room s \<and>
          cur = Some (header s @ p @ replicate (room s - length p - c) 0)
      | ID \<Rightarrow> length_ok s \<and> p \<noteq> [] \<and> 16 dvd length p \<and> length p \<le> room s \<and>
          cur = Some (header s @ p @ replicate (room s - length p) 0))"

text \<open>
  The words \<open>W\<close> that have arrived are those of the complete frames \<open>fs\<close> and then \<open>V\<close>;
  the bytes of \<open>V\<close> are in the frame that is being sent, held, in the buffer, or in \<open>T\<close>.
\<close>

definition machine_ok :: "u8t list \<Rightarrow> u128t list \<Rightarrow> u8t list option \<times> u8t list list \<Rightarrow> eth_st \<Rightarrow> bool" where
  "machine_ok T W r s \<longleftrightarrow> (\<exists>fs V p.
     W = concat (map fst fs) @ V \<and> wbytes V = p @ held s @ data_buffer s @ T \<and>
     list_all frame_ok fs \<and> snd r = eth_frames 0 fs \<and> ID_num s = of_nat (length fs) \<and> phase (fst r) p s)"

definition buffer_ok :: "eth_st \<Rightarrow> bool" where
  "buffer_ok s \<longleftrightarrow> buffer_count s = of_nat (length (data_buffer s)) \<and> length (data_buffer s) \<le> DATA_BUFFER_DEPTH \<and>
     (data_word_valid s \<and> data_buffer s = [] \<longrightarrow> word_byte s = 0)"

text \<open>What the machine leaves alone, and the bytes it takes from the buffer.\<close>

definition same_input :: "bool \<Rightarrow> eth_st \<Rightarrow> eth_st \<Rightarrow> bool" where
  "same_input removed s s' \<longleftrightarrow>
     data_word s' = data_word s \<and> data_word_valid s' = data_word_valid s \<and> word_byte s' = word_byte s \<and>
     data_in s' = data_in s \<and> buffer_count s' = buffer_count s \<and>
     length (data_buffer s) = length (data_buffer s') + of_bool removed"

definition machine_step :: "bool \<Rightarrow> u8t list \<Rightarrow> u128t list \<Rightarrow> u8t list option \<times> u8t list list \<Rightarrow> eth_st \<Rightarrow> bool" where
  "machine_step rd T W r s \<longleftrightarrow> (\<exists>s' removed. eth_machine rd s = Some (s', removed) \<and>
     machine_ok T W (rx r (eth_outputs s')) s' \<and> same_input removed s s')"

section \<open>Each state\<close>

lemma whole_words_eq: "unat (whole_words n) = 16 * (unat n div 16)"
proof -
  have "unat (whole_words n) = push_bit 4 (drop_bit 4 (unat n))"
    by (rule bit_eqI)
      (auto simp: whole_words_def ap_set_range_def ap_range_def bit_ap_of nth_append rev_nth bit_simps
        bit_ap_bits [of n] simp del: nth_ap_bits)
  then show ?thesis
    by (simp add: push_bit_eq_mult drop_bit_eq_div)
qed

lemma length_range: "ap_range 15 8 (l :: u16t) = (of_nat (unat l div 256) :: u8t)"
  "ap_range 7 0 (l :: u16t) = (of_nat (unat l mod 256) :: u8t)"
proof -
  have "(of_nat (drop_bit 8 (unat l)) :: u8t) = ap_range 15 8 l"
    by (rule bit_word_eqI) (auto simp: ap_range_def bit_ap_of bit_simps)
  then show "ap_range 15 8 l = (of_nat (unat l div 256) :: u8t)"
    by (simp add: drop_bit_eq_div)
  have "(of_nat (take_bit 8 (unat l)) :: u8t) = ap_range 7 0 l"
    by (rule bit_word_eqI) (auto simp: ap_range_def bit_ap_of bit_simps)
  then show "ap_range 7 0 l = (of_nat (unat l mod 256) :: u8t)"
    by (simp add: take_bit_eq_mod)
qed

lemma low_range: "(ap_range 0 3 (c :: u14t) :: u4t) = word_reverse (of_nat (unat c))"
  by (rule bit_word_eqI) (auto simp: ap_range_def bit_ap_of rev_nth bit_word_reverse_iff bit_simps)

lemma sop_test:
  assumes "unat c \<le> 6"
  shows "(ap_range 0 3 (c :: u14t) :: u4t) = ap_range 0 3 mac_count \<longleftrightarrow> unat c = 6"
proof -
  have "(of_nat (unat c) :: u4t) = of_nat 6 \<longleftrightarrow> unat c = 6"
    using assms by (simp only: word_of_nat_eq_iff) (simp add: take_bit_nat_eq_self)
  then show ?thesis
    by (simp add: low_range word_reverse_eq_iff mac_count_def)
qed

text \<open>The registers at the start of the machine's part of a cycle.\<close>

definition cleared :: "bool \<Rightarrow> eth_st \<Rightarrow> bool" where
  "cleared rd s \<longleftrightarrow> tx_valid s = rd \<and> \<not> eth_sop s \<and> \<not> eth_eop s"

lemma rx_outputs: "rx r (eth_outputs s) =
  (if tx_valid s then
     let cur = (if eth_sop s then Some [tx_data s] else map_option (\<lambda>f. f @ [tx_data s]) (fst r)) in
     if eth_eop s then (None, snd r @ (case cur of None \<Rightarrow> [] | Some f \<Rightarrow> [f])) else (cur, snd r)
   else r)"
  by (simp add: rx_def eth_outputs_def)

lemma machine_okE:
  assumes "machine_ok T W r s"
  obtains fs V p where "W = concat (map fst fs) @ V" "wbytes V = p @ held s @ data_buffer s @ T"
    "list_all frame_ok fs" "snd r = eth_frames 0 fs" "ID_num s = of_nat (length fs)" "phase (fst r) p s"
  using assms by (auto simp: machine_ok_def)

text \<open>A step within a frame: the complete frames stay, and so do the bytes of the other words.\<close>

lemma machine_stepI:
  assumes "eth_machine rd s = Some (s', removed)" "same_input removed s s'" "ID_num s' = ID_num s"
    and ok: "machine_ok T W r s" and rx: "rx r (eth_outputs s') = (cur, snd r)"
    and ph: "\<And>p V. phase (fst r) p s \<Longrightarrow> wbytes V = p @ held s @ data_buffer s @ T \<Longrightarrow> \<exists>p'. p' @ held s' @ data_buffer s' = p @ held s @ data_buffer s \<and> phase cur p' s'"
  shows "machine_step rd T W r s"
proof -
  obtain fs V p where g: "W = concat (map fst fs) @ V" "wbytes V = p @ held s @ data_buffer s @ T"
    "list_all frame_ok fs" "snd r = eth_frames 0 fs" "ID_num s = of_nat (length fs)" "phase (fst r) p s"
    using ok by (rule machine_okE)
  obtain p' where p': "p' @ held s' @ data_buffer s' = p @ held s @ data_buffer s" "phase cur p' s'"
    using ph [OF g(6,2)] by blast
  have "wbytes V = p' @ held s' @ data_buffer s' @ T"
    using g(2) arg_cong [OF p'(1), of "\<lambda>b. b @ T"] by simp
  then have "machine_ok T W (rx r (eth_outputs s')) s'"
    unfolding machine_ok_def using g p'(2) rx assms(3) by (intro exI [of _ fs] exI [of _ V] exI [of _ p']) simp
  then show ?thesis
    using assms(1,2) by (auto simp: machine_step_def)
qed

lemma unat_dec: "1 \<le> unat (c :: u14t) \<Longrightarrow> unat (c - 1) = unat c - 1"
  by (metis not_one_le_zero unat_0 unat_minus_one)

lemma unat_1_iff: "(c :: u14t) = 1 \<longleftrightarrow> unat c = 1"
  by (metis unat_1 word_unat_eq_iff)

lemma unat_length: "unat (ucast (w :: u14t) + 1 :: u16t) = unat w + 1"
proof -
  have "unat w < 2 ^ LENGTH(14)"
    by (rule unsigned_less)
  then show ?thesis
    by (simp add: unat_word_ariths unsigned_ucast_eq take_bit_nat_eq_self)
qed

lemma idle_step:
  assumes st: "eth_state s = IDLE" and ok: "machine_ok T W r s" and b: "buffer_ok s" and c: "cleared rd s"
  shows "machine_step rd T W r s"
proof (rule machine_stepI [OF _ _ _ ok])
  show "eth_machine rd s = Some (st_idle s, False)"
    using st by (simp add: eth_machine_def)
  show "same_input False s (st_idle s)" "ID_num (st_idle s) = ID_num s"
    by (simp_all add: same_input_def st_idle_def)
  have none: "fst r = None"
    using ok st by (auto simp: machine_ok_def phase_def)
  then show "rx r (eth_outputs (st_idle s)) = (fst r, snd r)"
    using c by (auto simp: rx_outputs cleared_def st_idle_def intro: prod_eqI)
  have cnt: "unat (buffer_count s) \<noteq> 0 \<Longrightarrow> data_buffer s \<noteq> []"
    using b by (auto simp: buffer_ok_def)
  have "length_ok (st_idle s) \<and> data_buffer (st_idle s) \<noteq> [] \<and> eth_count (st_idle s) = mac_count" if "eth_state (st_idle s) \<noteq> IDLE"
    using that st cnt whole_words_eq [of "buffer_count s"]
    by (auto simp: st_idle_def length_ok_def room_def PACKET_SIZE_def unat_length split: if_splits)
  moreover have "eth_state (st_idle s) \<in> {IDLE, MAC_DST}"
    using st by (simp add: st_idle_def)
  ultimately show "\<exists>p'. p' @ held (st_idle s) @ data_buffer (st_idle s) = p @ held s @ data_buffer s \<and> phase (fst r) p' (st_idle s)"
    if "phase (fst r) p s" for p
    using that st none by (auto simp: phase_def held_def mac_count_def st_idle_def)
qed

lemma length_mac [simp]: "length dst_mac = 6" "length src_mac = 6"
  by (simp_all add: dst_mac_def src_mac_def)

lemma take_next: "1 \<le> c \<Longrightarrow> c \<le> length xs \<Longrightarrow>
  take (length xs - c) xs @ [xs ! (length xs - c)] = take (length xs - (c - 1)) xs"
  using take_Suc_conv_app_nth [of "length xs - c" xs] by (simp add: Suc_diff_le)

lemma next_byte_simps [simp]:
  "tx_valid (next_byte rd st c s) = tx_valid s" "eth_sop (next_byte rd st c s) = eth_sop s"
  "eth_eop (next_byte rd st c s) = eth_eop s" "tx_data (next_byte rd st c s) = tx_data s"
  "ID_num (next_byte rd st c s) = ID_num s" "data_buffer (next_byte rd st c s) = data_buffer s"
  "eth_length (next_byte rd st c s) = eth_length s"
  by (simp_all add: next_byte_def)

lemma mac_dst_step:
  assumes st: "eth_state s = MAC_DST" and ok: "machine_ok T W r s" and c: "cleared rd s"
  shows "machine_step rd T W r s"
proof -
  let ?c = "unat (eth_count s)"
  have r: "length_ok s" "data_buffer s \<noteq> []" "1 \<le> ?c" "?c \<le> 6" "fst r = (if ?c = 6 then None else Some (take (6 - ?c) dst_mac))"
    using ok st by (auto simp: machine_ok_def phase_def Let_def)
  let ?t = "s\<lparr>data_ready := True, tx_data := dst_mac ! (6 - ?c), eth_sop := (?c = 6)\<rparr>"
  let ?s = "next_byte rd MAC_SRC mac_count ?t"
  let ?cur = "if rd then Some (take (6 - (?c - 1)) dst_mac) else fst r"
  show ?thesis
  proof (rule machine_stepI [OF _ _ _ ok])
    show "eth_machine rd s = Some (?s, False)"
      using st r c sop_test [of "eth_count s"] by (simp add: eth_machine_def st_mac_dst_def mac_byte_def cleared_def)
    show "same_input False s ?s" "ID_num ?s = ID_num s"
      by (simp_all add: same_input_def next_byte_def)
    show "rx r (eth_outputs ?s) = (?cur, snd r)"
      using c r take_next [of ?c dst_mac] by (auto simp: rx_outputs cleared_def intro: prod_eqI)
    show "\<exists>p'. p' @ held ?s @ data_buffer ?s = p @ held s @ data_buffer s \<and> phase ?cur p' ?s"
      if "phase (fst r) p s" for p
      using that st r
      by (cases rd; cases "?c = 1") (auto simp: phase_def Let_def held_def next_byte_def mac_count_def length_ok_def room_def
          unat_dec unat_1_iff)
  qed
qed

lemma mac_src_step:
  assumes st: "eth_state s = MAC_SRC" and ok: "machine_ok T W r s" and c: "cleared rd s"
  shows "machine_step rd T W r s"
proof -
  let ?c = "unat (eth_count s)"
  have r: "length_ok s" "data_buffer s \<noteq> []" "1 \<le> ?c" "?c \<le> 6" "fst r = Some (dst_mac @ take (6 - ?c) src_mac)"
    using ok st by (auto simp: machine_ok_def phase_def Let_def)
  let ?t = "s\<lparr>data_ready := False, tx_data := src_mac ! (6 - ?c)\<rparr>"
  let ?s = "next_byte rd ETH_TYPE type_count ?t"
  let ?cur = "if rd then Some (dst_mac @ take (6 - (?c - 1)) src_mac) else fst r"
  show ?thesis
  proof (rule machine_stepI [OF _ _ _ ok])
    show "eth_machine rd s = Some (?s, False)"
      using st r by (simp add: eth_machine_def st_mac_src_def mac_byte_def)
    show "same_input False s ?s" "ID_num ?s = ID_num s"
      by (simp_all add: same_input_def next_byte_def)
    show "rx r (eth_outputs ?s) = (?cur, snd r)"
      using c r take_next [of ?c src_mac] by (auto simp: rx_outputs cleared_def intro: prod_eqI)
    show "\<exists>p'. p' @ held ?s @ data_buffer ?s = p @ held s @ data_buffer s \<and> phase ?cur p' ?s"
      if "phase (fst r) p s" for p
      using that st r
      by (cases rd; cases "?c = 1") (auto simp: phase_def Let_def held_def next_byte_def type_count_def length_ok_def room_def
          unat_dec unat_1_iff)
  qed
qed

lemma unat_room: "length_ok s \<Longrightarrow> unat (ucast (eth_length s - 1) :: u14t) = room s"
proof -
  assume l: "length_ok s"
  then have "eth_length s \<noteq> 0"
    by (auto simp: length_ok_def)
  then have "unat (eth_length s - 1) = room s"
    by (simp add: unat_minus_one room_def)
  with l show ?thesis
    by (simp add: unsigned_ucast_eq take_bit_nat_eq_self length_ok_def PACKET_SIZE_def)
qed

lemma length_len_bytes [simp]: "length (len_bytes n) = 2"
  by (simp add: len_bytes_def)

lemma type_step:
  assumes st: "eth_state s = ETH_TYPE" and ok: "machine_ok T W r s" and c: "cleared rd s"
  shows "machine_step rd T W r s"
proof -
  let ?c = "unat (eth_count s)" and ?l = "len_bytes (unat (eth_length s))"
  have r: "length_ok s" "data_buffer s \<noteq> []" "1 \<le> ?c" "?c \<le> 2" "fst r = Some (dst_mac @ src_mac @ take (2 - ?c) ?l)"
    using ok st by (auto simp: machine_ok_def phase_def Let_def)
  obtain b q where q: "data_buffer s = b # q"
    using r(2) by (cases "data_buffer s") auto
  have c2: "eth_count s = type_count \<longleftrightarrow> ?c = 2"
    by (simp add: type_count_def word_unat_eq_iff)
  let ?t = "s\<lparr>tx_data := ?l ! (2 - ?c)\<rparr>"
  have t: "(if eth_count s = type_count then ap_range 15 8 (eth_length s) else ap_range 7 0 (eth_length s)) = ?l ! (2 - ?c)"
    using r(3,4) by (auto simp: c2 length_range len_bytes_def le_Suc_eq numeral_2_eq_2)
  let ?s = "if rd \<and> ?c = 1 then ?t\<lparr>buffer_data := b, data_buffer := q, eth_count := ucast (eth_length s - 1), eth_state := PAYLOAD\<rparr>
     else if rd then ?t\<lparr>eth_count := eth_count s - 1\<rparr> else ?t"
  let ?cur = "if rd then Some (dst_mac @ src_mac @ take (2 - (?c - 1)) ?l) else fst r"
  show ?thesis
  proof (rule machine_stepI [OF _ _ _ ok])
    show "eth_machine rd s = Some (?s, rd \<and> ?c = 1)"
      using st by (simp add: eth_machine_def st_type_def Let_def t read_buffer_def q unat_1_iff)
    show "same_input (rd \<and> ?c = 1) s ?s" "ID_num ?s = ID_num s"
      by (simp_all add: same_input_def q)
    show "rx r (eth_outputs ?s) = (?cur, snd r)"
      using c r take_next [of ?c ?l] by (auto simp: rx_outputs cleared_def intro: prod_eqI)
    show "\<exists>p'. p' @ held ?s @ data_buffer ?s = p @ held s @ data_buffer s \<and> phase ?cur p' ?s"
      if "phase (fst r) p s" for p
      using that st r q unat_room [OF r(1)]
      by (cases rd; cases "?c = 1")
        (auto simp: phase_def Let_def held_def length_ok_def room_def header_def len_bytes_def unat_dec unat_1_iff)
  qed
qed

lemma payload_step:
  assumes st: "eth_state s = PAYLOAD" and ok: "machine_ok T W r s" and c: "cleared rd s"
    and whole: "data_buffer s = [] \<Longrightarrow> 16 dvd length T"
  shows "machine_step rd T W r s"
proof -
  let ?c = "unat (eth_count s)"
  have r: "length_ok s" "1 \<le> ?c" "\<exists>p. fst r = Some (header s @ p)"
    using ok st by (auto simp: machine_ok_def phase_def Let_def)
  let ?t = "s\<lparr>tx_data := buffer_data s\<rparr>"
  let ?u = "?t\<lparr>eth_count := eth_count s - 1\<rparr>"
  let ?s = "if \<not> rd then ?t else if ?c = 1 then ?t\<lparr>eth_state := ID\<rparr> else
     case data_buffer s of [] \<Rightarrow> ?u\<lparr>eth_state := ZEROS\<rparr> | b # q \<Rightarrow> ?u\<lparr>buffer_data := b, data_buffer := q\<rparr>"
  let ?cur = "if rd then map_option (\<lambda>f. f @ [buffer_data s]) (fst r) else fst r"
  show ?thesis
  proof (rule machine_stepI [OF _ _ _ ok])
    show "eth_machine rd s = Some (?s, rd \<and> ?c \<noteq> 1 \<and> data_buffer s \<noteq> [])"
      using st by (simp add: eth_machine_def st_payload_def Let_def read_buffer_def unat_1_iff split: list.splits)
    show "same_input (rd \<and> ?c \<noteq> 1 \<and> data_buffer s \<noteq> []) s ?s" "ID_num ?s = ID_num s"
      by (simp_all add: same_input_def split: list.splits)
    show "rx r (eth_outputs ?s) = (?cur, snd r)"
      using c by (auto simp: rx_outputs cleared_def intro: prod_eqI split: list.splits)
    show "\<exists>p'. p' @ held ?s @ data_buffer ?s = p @ held s @ data_buffer s \<and> phase ?cur p' ?s"
      if ph: "phase (fst r) p s" and V: "wbytes V = p @ held s @ data_buffer s @ T" for p V
    proof (cases rd)
      case True
      have "16 dvd length (p @ [buffer_data s])" if "data_buffer s = []"
        using whole [OF that] arg_cong [OF V, of length] that st
        by (simp add: held_def) (metis dvd_add_left_iff dvd_triv_left add_Suc)
      then show ?thesis
        using ph st True r
        by (intro exI [of _ "p @ [buffer_data s]"])
          (auto simp: phase_def Let_def held_def length_ok_def room_def header_def unat_dec unat_1_iff split: list.splits)
    qed (use ph st in \<open>auto simp: phase_def Let_def held_def length_ok_def room_def header_def\<close>)
  qed
qed

lemma replicate_snoc_eq: "replicate n x @ [x] = replicate m x \<longleftrightarrow> m = Suc n"
proof -
  have "replicate n x @ [x] = replicate (Suc n) x"
    by (simp add: replicate_append_same)
  then show ?thesis
    by (metis length_replicate)
qed

lemma zeros_step:
  assumes st: "eth_state s = ZEROS" and ok: "machine_ok T W r s" and c: "cleared rd s"
  shows "machine_step rd T W r s"
proof -
  let ?c = "unat (eth_count s)"
  have r: "length_ok s" "1 \<le> ?c" "\<exists>p. fst r = Some (header s @ p)"
    using ok st by (auto simp: machine_ok_def phase_def Let_def)
  let ?cur = "if rd then map_option (\<lambda>f. f @ [0]) (fst r) else fst r"
  show ?thesis
  proof (rule machine_stepI [OF _ _ _ ok])
    show "eth_machine rd s = Some (st_zeros rd s, False)"
      using st by (simp add: eth_machine_def)
    show "same_input False s (st_zeros rd s)" "ID_num (st_zeros rd s) = ID_num s"
      by (simp_all add: same_input_def st_zeros_def Let_def)
    show "rx r (eth_outputs (st_zeros rd s)) = (?cur, snd r)"
      using c by (auto simp: rx_outputs cleared_def st_zeros_def Let_def intro: prod_eqI)
    show "\<exists>p'. p' @ held (st_zeros rd s) @ data_buffer (st_zeros rd s) = p @ held s @ data_buffer s \<and> phase ?cur p' (st_zeros rd s)"
      if "phase (fst r) p s" for p
      using that st r
      by (intro exI [of _ p])
        (auto simp: phase_def Let_def held_def st_zeros_def length_ok_def room_def header_def unat_dec unat_1_iff
          replicate_snoc_eq)
  qed
qed

text \<open>The end of a frame: its words leave those that are still to be sent.\<close>

lemma id_step:
  assumes st: "eth_state s = ID" and ok: "machine_ok T W r s" and c: "cleared rd s"
  shows "machine_step rd T W r s"
proof -
  obtain fs V p where g: "W = concat (map fst fs) @ V" "wbytes V = p @ data_buffer s @ T"
    "list_all frame_ok fs" "snd r = eth_frames 0 fs" "ID_num s = of_nat (length fs)"
    "length_ok s" "p \<noteq> []" "16 dvd length p" "length p \<le> room s"
    "fst r = Some (header s @ p @ replicate (room s - length p) 0)"
    using ok st by (auto elim!: machine_okE simp: phase_def held_def)
  let ?k = "length p div 16"
  let ?f = "(take ?k V, room s)"
  have k: "16 * ?k = length p"
    using g(8) by simp
  have pos: "0 < ?k"
    using g(7) k by (intro gr0I) auto
  have p: "wbytes (take ?k V) = p" "wbytes (drop ?k V) = data_buffer s @ T"
    by (simp_all add: wbytes_take wbytes_drop k g(2))
  then have l: "16 * length (take ?k V) = length p"
    by (metis length_wbytes)
  have f: "frame_ok ?f" "eth_frame (of_nat (length fs)) ?f = header s @ p @ replicate (room s - length p) 0 @ [ID_num s]"
    using g(5-9) l p pos
    by (auto simp: frame_ok_def eth_frame_def header_def length_ok_def room_def simp del: length_take)
  have "machine_ok T W (rx r (eth_outputs (st_id rd s))) (st_id rd s)"
  proof (cases rd)
    case True
    then have "rx r (eth_outputs (st_id rd s)) = (None, eth_frames 0 (fs @ [?f]))"
      using c g(4,10) f(2) by (simp add: rx_outputs cleared_def st_id_def Let_def eth_frames_snoc)
    then show ?thesis
      unfolding machine_ok_def using g f p True
      by (intro exI [of _ "fs @ [?f]"] exI [of _ "drop ?k V"] exI [of _ "[]"])
        (simp add: st_id_def Let_def held_def phase_def)
  next
    case False
    then have "rx r (eth_outputs (st_id rd s)) = r"
      using c by (simp add: rx_outputs cleared_def st_id_def Let_def)
    with False show ?thesis
      unfolding machine_ok_def using g st
      by (intro exI [of _ fs] exI [of _ V] exI [of _ p])
        (simp add: st_id_def Let_def held_def phase_def length_ok_def room_def header_def)
  qed
  moreover have "same_input False s (st_id rd s)"
    by (simp add: same_input_def st_id_def Let_def)
  ultimately show ?thesis
    using st by (auto simp: machine_step_def eth_machine_def)
qed

lemmas state_steps = idle_step mac_dst_step mac_src_step type_step payload_step zeros_step id_step

lemma machine_steps:
  assumes "machine_ok T W r s" "buffer_ok s" "cleared rd s" "data_buffer s = [] \<Longrightarrow> 16 dvd length T"
  shows "machine_step rd T W r s"
  using assms by (cases "eth_state s") (blast intro: state_steps)+

section \<open>The buffer\<close>

text \<open>What is not yet in the buffer.\<close>

definition rest_bytes :: "eth_st \<Rightarrow> u8t list" where
  "rest_bytes s = word_left s @ wbytes (data_in s)"

definition eth_ok :: "u128t list \<Rightarrow> u8t list option \<times> u8t list list \<Rightarrow> eth_st \<Rightarrow> bool" where
  "eth_ok W r s \<longleftrightarrow> machine_ok (rest_bytes s) W r s \<and> buffer_ok s"

lemma rest_whole: "buffer_ok s \<Longrightarrow> data_buffer s = [] \<Longrightarrow> 16 dvd length (rest_bytes s)"
  by (simp add: buffer_ok_def rest_bytes_def word_left_def)

text \<open>The state machine reads the buffer only through its bytes and whether it is empty.\<close>

definition same_machine :: "eth_st \<Rightarrow> eth_st \<Rightarrow> bool" where
  "same_machine s s' \<longleftrightarrow> eth_state s' = eth_state s \<and> eth_count s' = eth_count s \<and> eth_length s' = eth_length s \<and>
     ID_num s' = ID_num s \<and> buffer_data s' = buffer_data s \<and> (data_buffer s \<noteq> [] \<longrightarrow> data_buffer s' \<noteq> [])"

lemma phase_same: "same_machine s s' \<Longrightarrow> phase cur p s \<Longrightarrow> phase cur p s'"
  by (cases "eth_state s") (simp_all add: same_machine_def phase_def Let_def length_ok_def room_def header_def)

lemma machine_ok_buffer:
  assumes "machine_ok T W r s" "same_machine s s'" "data_buffer s' @ T' = data_buffer s @ T @ wbytes ws"
  shows "machine_ok T' (W @ ws) r s'"
proof -
  obtain fs V p where g: "W = concat (map fst fs) @ V" "wbytes V = p @ held s @ data_buffer s @ T"
    "list_all frame_ok fs" "snd r = eth_frames 0 fs" "ID_num s = of_nat (length fs)" "phase (fst r) p s"
    using assms(1) by (rule machine_okE)
  have "held s' = held s" "ID_num s' = ID_num s"
    using assms(2) by (simp_all add: same_machine_def held_def)
  with g show ?thesis
    unfolding machine_ok_def using phase_same [OF assms(2)] assms(3)
    by (intro exI [of _ fs] exI [of _ "V @ ws"] exI [of _ p]) simp
qed

lemma add_byte_rest:
  "data_buffer (add_byte full s) @ rest_bytes (add_byte full s) = data_buffer s @ rest_bytes s"
proof -
  have b: "unat (word_byte s) < 2 ^ LENGTH(4)"
    by (rule unsigned_less)
  then have "drop (unat (word_byte s)) (word16_bytes (data_word s)) =
      byte_of_word (data_word s) (word_byte s) # drop (Suc (unat (word_byte s))) (word16_bytes (data_word s))"
    by (simp add: Cons_nth_drop_Suc byte_of_word_nth)
  moreover have "word_byte s \<noteq> 15 \<Longrightarrow> unat (word_byte s + 1) = Suc (unat (word_byte s))"
    using b by (simp add: unat_word_ariths word_unat_eq_iff)
  ultimately show ?thesis
    using b by (auto simp: add_byte_def Let_def rest_bytes_def word_left_def)
qed

lemma read_word_rest: "data_buffer (read_word s) @ rest_bytes (read_word s) = data_buffer s @ rest_bytes s"
  by (simp add: read_word_def rest_bytes_def word_left_def split: list.splits)

lemma update_count_rest [simp]: "data_buffer (update_count removed s) = data_buffer s"
  "rest_bytes (update_count removed s) = rest_bytes s"
  by (simp_all add: update_count_def rest_bytes_def word_left_def)

definition after_machine :: "bool \<Rightarrow> bool \<Rightarrow> eth_st \<Rightarrow> eth_st" where
  "after_machine full removed s = update_count removed (read_word (add_byte full s))"

lemma outputs_update [simp]: "eth_outputs (update_count removed s) = eth_outputs s"
  by (simp add: update_count_def eth_outputs_def)

lemma outputs_read [simp]: "eth_outputs (read_word s) = eth_outputs s"
  by (simp add: read_word_def eth_outputs_def split: list.splits)

lemma outputs_add [simp]: "eth_outputs (add_byte full s) = eth_outputs s"
  by (simp add: add_byte_def eth_outputs_def Let_def)

lemma outputs_after [simp]: "eth_outputs (after_machine full removed s) = eth_outputs s"
  by (simp add: after_machine_def)

lemma after_machine_ok:
  assumes "machine_ok (rest_bytes s) W r s"
  shows "machine_ok (rest_bytes (after_machine full removed s)) W r (after_machine full removed s)"
proof -
  have "data_buffer (after_machine full removed s) @ rest_bytes (after_machine full removed s) = data_buffer s @ rest_bytes s"
    using add_byte_rest [of full s] read_word_rest [of "add_byte full s"]
    by (simp add: after_machine_def)
  moreover have "same_machine s (after_machine full removed s)"
    by (simp add: same_machine_def after_machine_def update_count_def read_word_def add_byte_def Let_def split: list.splits)
  ultimately show ?thesis
    using machine_ok_buffer [OF assms, of "after_machine full removed s" _ "[]"] by simp
qed

lemma after_machine_buffer:
  assumes "buffer_ok s" "same_input removed s s'"
  shows "buffer_ok (after_machine (DATA_BUFFER_DEPTH \<le> length (data_buffer s)) removed s')"
  using assms
  by (auto simp: buffer_ok_def same_input_def after_machine_def update_count_def read_word_def add_byte_def Let_def
      DATA_BUFFER_DEPTH_def split: list.splits)

text \<open>A cycle, with the words that arrive before it.\<close>

lemma eth_ok_arrive:
  assumes "eth_ok W r s"
  shows "eth_ok (W @ ws) r (s\<lparr>data_in := data_in s @ ws\<rparr>)"
proof -
  have "rest_bytes (s\<lparr>data_in := data_in s @ ws\<rparr>) = rest_bytes s @ wbytes ws"
    by (simp add: rest_bytes_def word_left_def)
  then show ?thesis
    using assms machine_ok_buffer [of "rest_bytes s" W r s "s\<lparr>data_in := data_in s @ ws\<rparr>" _ ws]
    by (simp add: eth_ok_def buffer_ok_def same_machine_def)
qed

lemma eth_ok_cycle:
  assumes ok: "eth_ok W r s"
  obtains s' where "eth_fifo_interface tog lat rd status s = Some (eth_outputs s, s')" "eth_ok W (rx r (eth_outputs s')) s'"
proof -
  let ?full = "DATA_BUFFER_DEPTH \<le> length (data_buffer s)"
  let ?s = "s\<lparr>last_tx_status_valid := tog, tx_valid := rd, eth_sop := False, eth_eop := False\<rparr>"
  have start: "machine_ok (rest_bytes s) W r ?s" "buffer_ok ?s" "cleared rd ?s"
    using ok machine_ok_buffer [of "rest_bytes s" W r s ?s "rest_bytes s" "[]"]
    by (simp_all add: eth_ok_def buffer_ok_def cleared_def same_machine_def)
  have "data_buffer ?s = [] \<Longrightarrow> 16 dvd length (rest_bytes s)"
    using ok rest_whole [of s] by (simp add: eth_ok_def)
  with start obtain s1 removed where m: "eth_machine rd ?s = Some (s1, removed)"
    "machine_ok (rest_bytes s) W (rx r (eth_outputs s1)) s1" "same_input removed ?s s1"
    using machine_steps [of "rest_bytes s" W r ?s rd] by (auto simp: machine_step_def)
  have rest: "rest_bytes s = rest_bytes s1"
    using m(3) by (simp add: same_input_def rest_bytes_def word_left_def)
  have "buffer_ok (after_machine ?full removed s1)"
    using after_machine_buffer [OF start(2) m(3)] by simp
  moreover have "rx r (eth_outputs (after_machine ?full removed s1)) = rx r (eth_outputs s1)"
    by simp
  moreover have "eth_fifo_interface tog lat rd status s = Some (eth_outputs s, after_machine ?full removed s1)"
    using m(1) by (simp add: eth_fifo_interface_def after_machine_def Let_def)
  ultimately show thesis
    using that [of "after_machine ?full removed s1"] m(2) after_machine_ok [of s1 W] rest by (simp add: eth_ok_def)
qed

text \<open>
  The count of the buffered bytes has 14 bits and the buffer room for \<open>2 ^ 14\<close>: the
  count of a full buffer is 0. The idle state then sees no packet and waits its
  whole time, although every byte of a packet is there.
\<close>

lemma full_buffer_counts_zero:
  assumes "buffer_ok s" "length (data_buffer s) = DATA_BUFFER_DEPTH"
  shows "buffer_count s = 0 \<and> (eth_state s = IDLE \<and> eth_count s \<noteq> 0 \<longrightarrow> eth_state (st_idle s) = IDLE)"
  using assms by (simp add: buffer_ok_def st_idle_def DATA_BUFFER_DEPTH_def PACKET_SIZE_def)

section \<open>Runs\<close>

record eth_in =
  dma_tx_end_tog :: bool
  tx_r_fixed_lat :: bool
  tx_r_rd :: bool
  tx_r_status :: u4t
  arriving :: "u128t list"

fun eth_run :: "eth_in list \<Rightarrow> eth_st \<Rightarrow> (eth_out list \<times> eth_st) option" where
  "eth_run [] s = Some ([], s)"
| "eth_run (i # is) s =
     (case eth_fifo_interface (dma_tx_end_tog i) (tx_r_fixed_lat i) (tx_r_rd i) (tx_r_status i)
             (s\<lparr>data_in := data_in s @ arriving i\<rparr>) of
        None \<Rightarrow> None
      | Some (out, s1) \<Rightarrow> map_option (\<lambda>(outs, s2). (out # outs, s2)) (eth_run is s1))"

definition arrived :: "eth_in list \<Rightarrow> u128t list" where
  "arrived is = concat (map arriving is)"

lemma eth_run_ok:
  "eth_ok W (rx r (eth_outputs s)) s \<Longrightarrow>
   \<exists>outs s'. eth_run is s = Some (outs, s') \<and> length outs = length is \<and>
     eth_ok (W @ arrived is) (rx (foldl rx r outs) (eth_outputs s')) s'"
proof (induction "is" arbitrary: W r s)
  case (Cons i "is")
  let ?s = "s\<lparr>data_in := data_in s @ arriving i\<rparr>"
  have out: "eth_outputs ?s = eth_outputs s"
    by (simp add: eth_outputs_def)
  obtain s' where s': "eth_fifo_interface (dma_tx_end_tog i) (tx_r_fixed_lat i) (tx_r_rd i) (tx_r_status i) ?s = Some (eth_outputs s, s')"
    "eth_ok (W @ arriving i) (rx (rx r (eth_outputs s)) (eth_outputs s')) s'"
    using eth_ok_cycle [OF eth_ok_arrive [OF Cons.prems]] out by metis
  show ?case
    using Cons.IH [OF s'(2)] s'(1) by (auto simp: arrived_def)
qed (simp add: arrived_def)

lemma eth_ok_init: "eth_ok [] (rx (None, []) (eth_outputs eth_init)) eth_init"
  unfolding eth_ok_def machine_ok_def
  by (intro conjI exI [of _ "[]"])
    (simp_all add: buffer_ok_def rest_bytes_def word_left_def held_def phase_def rx_outputs eth_init_def)

text \<open>C15: However the controller asks for bytes and the words arrive, no cycle of the
  unit waits for its buffer or leaves its arrays, and the controller gets whole
  frames: the two addresses, the number of bytes that follow, the bytes of some
  words of the input, zeros, and the number of the frame, which counts up from 0.
  The words are those that arrived, in order and each once. A frame has at least
  one word and between 48 and 1488 bytes for them, a multiple of 16, so that no
  word is divided between frames.\<close>

theorem eth_sends_frames:
  "\<exists>outs s fs rest. eth_run is eth_init = Some (outs, s) \<and> length outs = length is \<and>
     snd (foldl rx (None, []) outs) = eth_frames 0 fs \<and> list_all frame_ok fs \<and>
     arrived is = concat (map fst fs) @ rest"
proof -
  obtain outs s where run: "eth_run is eth_init = Some (outs, s)" "length outs = length is"
    "eth_ok (arrived is) (rx (foldl rx (None, []) outs) (eth_outputs s)) s"
    using eth_run_ok [OF eth_ok_init, of "is"] by auto
  then obtain fs V where fs: "arrived is = concat (map fst fs) @ V" "list_all frame_ok fs"
    "snd (rx (foldl rx (None, []) outs) (eth_outputs s)) = eth_frames 0 fs"
    by (auto simp: eth_ok_def elim!: machine_okE)
  let ?r = "foldl rx (None, []) outs"
  show ?thesis
  proof (cases "snd (rx ?r (eth_outputs s)) = snd ?r")
    case True
    with run fs show ?thesis
      by auto
  next
    case False
    then have "\<exists>f. snd (rx ?r (eth_outputs s)) = snd ?r @ [f]"
      by (auto simp: rx_def Let_def split: if_splits option.splits)
    with fs(3) obtain f fs' where f: "fs = fs' @ [f]" "snd ?r = eth_frames 0 fs'"
      by (cases fs rule: rev_cases) (auto simp: eth_frames_snoc)
    have "arrived is = concat (map fst fs') @ (fst f @ V)" "list_all frame_ok fs'"
      using fs f by simp_all
    with run f show ?thesis
      by blast
  qed
qed

end
