(* ===== verification/Eth_Live.thy ===== *)
theory Eth_Live
  imports Eth_Frames
begin

text \<open>
  The unit of theory \<open>Eth_Fifo\<close> sends everything: when the controller asks for a
  byte in every cycle and no more words come, the work that is left gets less in
  every cycle until the unit is empty. The waiting time of the idle state, which
  starts again after a byte was buffered, is part of the work.
\<close>

section \<open>The work that is left\<close>

fun work_in :: "eth_state_t \<Rightarrow> nat \<Rightarrow> nat" where
  "work_in IDLE c = 100 + c"
| "work_in MAC_DST c = 80 + c"
| "work_in MAC_SRC c = 60 + c"
| "work_in ETH_TYPE c = 40 + c"
| "work_in PAYLOAD c = 30"
| "work_in ZEROS c = 20000 + c"
| "work_in ID c = 19000"

definition state_work :: "eth_st \<Rightarrow> nat" where
  "state_work s = work_in (eth_state s) (unat (eth_count s))"

definition machine_work :: "eth_st \<Rightarrow> nat" where
  "machine_work s = state_work s + 100000 * (length (data_buffer s) + length (held s))"

definition input_work :: "eth_st \<Rightarrow> nat" where
  "input_work s = 140000 * length (rest_bytes s) + of_bool (\<not> data_word_valid s \<and> data_in s \<noteq> [])"

definition eth_work :: "eth_st \<Rightarrow> nat" where
  "eth_work s = machine_work s + input_work s + 20000 * of_bool (buffer_added s)"

definition eth_waits :: "eth_st \<Rightarrow> bool" where
  "eth_waits s \<longleftrightarrow> eth_state s = IDLE \<and> eth_count s = 0 \<and> data_buffer s = [] \<and> \<not> buffer_added s"

definition eth_empty :: "eth_st \<Rightarrow> bool" where
  "eth_empty s \<longleftrightarrow> eth_state s = IDLE \<and> data_buffer s = [] \<and> \<not> data_word_valid s \<and> data_in s = []"

section \<open>A cycle with a byte asked for\<close>

lemma unat_count_less: "unat (c :: u14t) < 16384"
proof -
  have "unat c < 2 ^ LENGTH(14)"
    by (rule unsigned_less)
  then show ?thesis
    by simp
qed

lemma phase_zero: "phase cur p s \<Longrightarrow> eth_state s \<notin> {IDLE, ID} \<Longrightarrow> 1 \<le> unat (eth_count s)"
  by (auto simp: phase_def Let_def split: eth_state_t.splits)

lemma idle_work:
  assumes "eth_state s = IDLE"
  shows "eth_waits s \<and> st_idle s = s \<or> machine_work (st_idle s) < machine_work s + 20000 * of_bool (buffer_added s)"
proof -
  have "eth_count s \<noteq> 0 \<Longrightarrow> 1 \<le> unat (eth_count s)"
    by (metis One_nat_def Suc_leI unat_gt_0)
  then show ?thesis
    using assms unat_dec [of "eth_count s"]
    by (auto simp: st_idle_def eth_waits_def machine_work_def state_work_def held_def mac_count_def idle_count_def)
qed

lemma machine_works:
  assumes ph: "phase cur p s" and m: "eth_machine True s = Some (s', removed)"
  shows "eth_waits s \<and> s' = s \<or> machine_work s' < machine_work s + 20000 * of_bool (buffer_added s)"
proof (cases "eth_state s = IDLE")
  case True
  then show ?thesis
    using idle_work [of s] m by (auto simp: eth_machine_def)
next
  case False
  have c: "unat (eth_count s - 1) = unat (eth_count s) - 1 \<and> 1 \<le> unat (eth_count s)" if "eth_state s \<noteq> ID"
    using unat_dec phase_zero [OF ph] False that by simp
  have "machine_work s' < machine_work s"
  proof (cases "eth_state s")
    case MAC_DST
    then show ?thesis
      using m c by (cases "eth_count s = 1")
        (auto simp: eth_machine_def st_mac_dst_def next_byte_def machine_work_def state_work_def held_def mac_count_def)
  next
    case MAC_SRC
    then show ?thesis
      using m c by (cases "eth_count s = 1")
        (auto simp: eth_machine_def st_mac_src_def next_byte_def machine_work_def state_work_def held_def type_count_def)
  next
    case ETH_TYPE
    then show ?thesis
      using m c by (cases "eth_count s = 1")
        (auto simp: eth_machine_def st_type_def Let_def machine_work_def state_work_def held_def read_buffer_def
          split: list.splits)
  next
    case PAYLOAD
    then show ?thesis
      using m unat_count_less [of "eth_count s - 1"] by (cases "eth_count s = 1"; cases "data_buffer s")
        (auto simp: eth_machine_def st_payload_def Let_def machine_work_def state_work_def held_def read_buffer_def
          split: list.splits)
  next
    case ZEROS
    then show ?thesis
      using m c by (cases "eth_count s = 1")
        (auto simp: eth_machine_def st_zeros_def Let_def machine_work_def state_work_def held_def)
  next
    case ID
    then show ?thesis
      using m by (auto simp: eth_machine_def st_id_def Let_def machine_work_def state_work_def held_def idle_count_def)
  qed (use False in simp)
  then show ?thesis
    by simp
qed

lemma add_byte_works:
  "eth_work (add_byte full s) + of_bool (data_word_valid s \<and> \<not> full) \<le> machine_work s + input_work s"
proof (cases "data_word_valid s \<and> \<not> full")
  case True
  let ?s = "add_byte full s"
  have same: "length (data_buffer ?s) = length (data_buffer s) + 1" "state_work ?s = state_work s" "held ?s = held s" "buffer_added ?s"
    using True by (simp_all add: add_byte_def Let_def state_work_def held_def)
  then have "length (rest_bytes s) = length (rest_bytes ?s) + 1"
    using arg_cong [OF add_byte_rest [of full s], of length] by simp
  then show ?thesis
    using same True by (simp add: eth_work_def machine_work_def input_work_def)
next
  case False
  then have s: "add_byte full s = s\<lparr>buffer_added := False\<rparr>"
    by (auto simp: add_byte_def Let_def)
  show ?thesis
    unfolding s using False
    by (simp add: eth_work_def machine_work_def input_work_def state_work_def held_def rest_bytes_def word_left_def)
qed

lemma read_word_works: "eth_work (read_word s) + of_bool (\<not> data_word_valid s \<and> data_in s \<noteq> []) \<le> eth_work s"
proof -
  have "data_buffer (read_word s) = data_buffer s" "length (rest_bytes (read_word s)) = length (rest_bytes s)"
    "state_work (read_word s) = state_work s" "held (read_word s) = held s" "buffer_added (read_word s) = buffer_added s"
    using arg_cong [OF read_word_rest [of s], of length]
    by (auto simp: read_word_def state_work_def held_def split: list.splits)
  moreover have "\<not> data_word_valid s \<Longrightarrow> data_in s \<noteq> [] \<Longrightarrow> data_word_valid (read_word s)"
    "data_word_valid (read_word s) \<or> data_in (read_word s) = []"
    by (auto simp: read_word_def split: list.splits)
  ultimately show ?thesis
    by (auto simp: eth_work_def machine_work_def input_work_def)
qed

lemma update_count_works [simp]: "eth_work (update_count removed s) = eth_work s"
  by (simp add: update_count_def eth_work_def machine_work_def input_work_def state_work_def held_def rest_bytes_def word_left_def)

lemma after_machine_works:
  "eth_work (after_machine full removed s) +
     of_bool (data_word_valid s \<and> \<not> full \<or> \<not> data_word_valid s \<and> data_in s \<noteq> []) \<le> machine_work s + input_work s"
proof -
  have "\<not> data_word_valid s \<Longrightarrow> \<not> data_word_valid (add_byte full s) \<and> data_in (add_byte full s) = data_in s"
    by (simp add: add_byte_def Let_def)
  then show ?thesis
    using add_byte_works [of full s] read_word_works [of "add_byte full s"]
    by (auto simp: after_machine_def split: if_splits)
qed

lemma machine_input:
  "eth_machine rd s = Some (s', removed) \<Longrightarrow>
     data_word s' = data_word s \<and> data_word_valid s' = data_word_valid s \<and> word_byte s' = word_byte s \<and> data_in s' = data_in s"
  by (cases "eth_state s")
    (auto simp: eth_machine_def st_idle_def st_mac_dst_def st_mac_src_def st_type_def st_payload_def st_zeros_def st_id_def
      next_byte_def read_buffer_def Let_def split: if_splits list.splits)

lemma cycle_works:
  assumes ok: "eth_ok W r s" and cyc: "eth_fifo_interface tog lat True status s = Some (out, s')"
  shows "eth_empty s \<or> eth_work s' < eth_work s"
proof -
  let ?full = "DATA_BUFFER_DEPTH \<le> length (data_buffer s)"
  let ?s = "s\<lparr>last_tx_status_valid := tog, tx_valid := True, eth_sop := False, eth_eop := False\<rparr>"
  obtain p where ph: "phase (fst r) p s"
    using ok by (auto simp: eth_ok_def elim: machine_okE)
  then have "phase (fst r) p ?s"
    by (rule phase_same [rotated]) (simp add: same_machine_def)
  moreover obtain s1 removed where m: "eth_machine True ?s = Some (s1, removed)" "s' = after_machine ?full removed s1"
    using cyc by (auto simp: eth_fifo_interface_def after_machine_def Let_def)
  ultimately have "eth_waits ?s \<and> s1 = ?s \<or> machine_work s1 < machine_work ?s + 20000 * of_bool (buffer_added ?s)"
    using machine_works by blast
  moreover have i: "input_work s1 = input_work s" "data_word_valid s1 = data_word_valid s" "data_in s1 = data_in s"
    using machine_input [OF m(1)] by (simp_all add: input_work_def rest_bytes_def word_left_def)
  moreover have "machine_work ?s = machine_work s" "eth_waits ?s = eth_waits s"
    by (simp_all add: machine_work_def state_work_def held_def eth_waits_def)
  ultimately have "eth_waits s \<and> s1 = ?s \<or> machine_work s1 < machine_work s + 20000 * of_bool (buffer_added s)"
    by simp
  then show ?thesis
  proof
    assume w: "eth_waits s \<and> s1 = ?s"
    have "\<not> ?full" "machine_work s1 = machine_work s"
      using w by (simp_all add: eth_waits_def DATA_BUFFER_DEPTH_def machine_work_def state_work_def held_def)
    moreover have "data_word_valid s \<or> data_in s \<noteq> []" if "\<not> eth_empty s"
      using that w by (auto simp: eth_waits_def eth_empty_def)
    ultimately show ?thesis
      using after_machine_works [of ?full removed s1] m(2) w i
      by (cases "eth_empty s"; cases "data_word_valid s") (simp_all add: eth_work_def [of s])
  next
    assume "machine_work s1 < machine_work s + 20000 * of_bool (buffer_added s)"
    then show ?thesis
      using after_machine_works [of ?full removed s1] m(2) i by (simp add: eth_work_def)
  qed
qed

text \<open>An empty unit stays empty and ends no frame.\<close>

lemma idle_empty:
  assumes "unat (buffer_count s) < PACKET_SIZE" "data_buffer s = []"
  shows "eth_state (st_idle s) = eth_state s" "data_buffer (st_idle s) = []" "data_word_valid (st_idle s) = data_word_valid s"
    "data_in (st_idle s) = data_in s" "eth_eop (st_idle s) = eth_eop s"
  using assms by (simp_all add: st_idle_def)

lemma after_empty:
  assumes "\<not> data_word_valid s" "data_in s = []"
  shows "eth_state (after_machine full removed s) = eth_state s" "data_buffer (after_machine full removed s) = data_buffer s"
    "\<not> data_word_valid (after_machine full removed s)" "data_in (after_machine full removed s) = []"
    "eth_eop (after_machine full removed s) = eth_eop s"
  using assms by (simp_all add: after_machine_def update_count_def read_word_def add_byte_def)

lemma cycle_empty:
  assumes "eth_ok W r s" "eth_empty s" "eth_fifo_interface tog lat rd status s = Some (out, s')"
  shows "eth_empty s' \<and> \<not> eth_eop s'"
proof -
  have "PACKET_SIZE > unat (buffer_count s)"
    using assms(1,2) by (simp add: eth_ok_def buffer_ok_def eth_empty_def PACKET_SIZE_def)
  then show ?thesis
    using assms(2,3) idle_empty [of "s\<lparr>last_tx_status_valid := tog, tx_valid := rd, eth_sop := False, eth_eop := False\<rparr>"]
      after_empty
    by (auto simp: eth_fifo_interface_def eth_machine_def eth_empty_def Let_def simp flip: after_machine_def)
qed

section \<open>Everything is sent\<close>

definition reading :: eth_in where
  "reading = \<lparr>dma_tx_end_tog = False, tx_r_fixed_lat = False, tx_r_rd = True, tx_r_status = 0, arriving = []\<rparr>"

lemma reading_simps [simp]: "\<not> dma_tx_end_tog reading" "\<not> tx_r_fixed_lat reading" "tx_r_rd reading" "tx_r_status reading = 0"
  "arriving reading = []"
  by (simp_all add: reading_def)

lemma eth_run_reading: "eth_run (replicate (Suc n) reading) s =
  (case eth_fifo_interface False False True 0 s of
     None \<Rightarrow> None
   | Some (out, s1) \<Rightarrow> map_option (\<lambda>(outs, s2). (out # outs, s2)) (eth_run (replicate n reading) s1))"
  by simp

lemma eth_run_append:
  "eth_run (xs @ ys) s = (case eth_run xs s of None \<Rightarrow> None | Some (outs, s1) \<Rightarrow> map_option (\<lambda>(outs', s2). (outs @ outs', s2)) (eth_run ys s1))"
proof (induction xs arbitrary: s)
  case Nil
  then show ?case
    by (cases "eth_run ys s") auto
next
  case (Cons x xs)
  then show ?case
    by (auto split: option.splits simp: option.map_comp comp_def case_prod_unfold)
qed

lemma reading_empty:
  "eth_ok W (rx r (eth_outputs s)) s \<Longrightarrow> eth_empty s \<Longrightarrow> eth_run (replicate (Suc n) reading) s = Some (outs, s') \<Longrightarrow>
   eth_empty s' \<and> \<not> eth_eop s'"
proof (induction n arbitrary: s r outs)
  case (Suc n)
  obtain s1 where s1: "eth_fifo_interface False False True 0 s = Some (eth_outputs s, s1)"
    "eth_ok W (rx (rx r (eth_outputs s)) (eth_outputs s1)) s1"
    using eth_ok_cycle [OF Suc.prems(1)] by metis
  have "eth_empty s1"
    using cycle_empty [OF Suc.prems(1,2) s1(1)] by simp
  moreover obtain outs' where "eth_run (replicate (Suc n) reading) s1 = Some (outs', s')"
    using Suc.prems(3) s1(1) unfolding eth_run_reading [of "Suc n"] by auto
  ultimately show ?case
    using Suc.IH [OF s1(2)] by blast
next
  case 0
  then show ?case
    using cycle_empty [OF 0(1,2)] by (auto simp: eth_run_reading [of 0, simplified] split: option.splits)
qed

lemma reading_ends:
  "eth_ok W (rx r (eth_outputs s)) s \<Longrightarrow> eth_work s < n \<Longrightarrow> eth_run (replicate n reading) s = Some (outs, s') \<Longrightarrow>
   eth_empty s' \<and> \<not> eth_eop s'"
proof (induction n arbitrary: s r outs)
  case (Suc n)
  obtain s1 where s1: "eth_fifo_interface False False True 0 s = Some (eth_outputs s, s1)"
    "eth_ok W (rx (rx r (eth_outputs s)) (eth_outputs s1)) s1"
    using eth_ok_cycle [OF Suc.prems(1)] by metis
  obtain outs' where "eth_run (replicate n reading) s1 = Some (outs', s')"
    using Suc.prems(3) s1(1) unfolding eth_run_reading by auto
  then show ?case
    using cycle_works [OF Suc.prems(1) s1(1)] Suc.prems Suc.IH [OF s1(2)] reading_empty [OF Suc.prems(1)] by fastforce
qed simp

text \<open>C14: Whatever happened before, when from some cycle on the controller asks for a
  byte in every cycle and no more words come, there is a number of cycles after
  which every word that arrived has been sent: the controller has whole frames,
  numbered one after the other, whose words are those that arrived, in order and
  with none left over. More cycles change nothing.\<close>

theorem eth_sends_all:
  "\<exists>N. \<forall>k. \<exists>outs s fs. eth_run (is @ replicate (N + k) reading) eth_init = Some (outs, s) \<and>
     snd (foldl rx (None, []) outs) = eth_frames 0 fs \<and> list_all frame_ok fs \<and>
     arrived is = concat (map fst fs)"
proof -
  obtain outs s where run: "eth_run is eth_init = Some (outs, s)"
    "eth_ok (arrived is) (rx (foldl rx (None, []) outs) (eth_outputs s)) s"
    using eth_run_ok [OF eth_ok_init, of "is"] by auto
  have "\<exists>outs' s' fs. eth_run (is @ replicate (Suc (eth_work s) + k) reading) eth_init = Some (outs', s') \<and>
     snd (foldl rx (None, []) outs') = eth_frames 0 fs \<and> list_all frame_ok fs \<and> arrived is = concat (map fst fs)" for k
  proof -
    let ?n = "Suc (eth_work s) + k"
    have "arrived (replicate ?n reading) = []"
      by (simp add: arrived_def reading_def)
    then obtain outs2 s2 where run2: "eth_run (replicate ?n reading) s = Some (outs2, s2)"
      "eth_ok (arrived is) (rx (foldl rx (foldl rx (None, []) outs) outs2) (eth_outputs s2)) s2"
      using eth_run_ok [OF run(2), of "replicate ?n reading"] by auto
    have e: "eth_empty s2 \<and> \<not> eth_eop s2"
      using reading_ends [OF run(2) _ run2(1)] by simp
    then obtain fs V where "arrived is = concat (map fst fs) @ V" "wbytes V = []" "list_all frame_ok fs"
      "snd (foldl rx (None, []) (outs @ outs2)) = eth_frames 0 fs"
      using run2(2)
      by (auto simp: eth_ok_def eth_empty_def rest_bytes_def word_left_def held_def phase_def rx_outputs
          elim!: machine_okE split: if_splits)
    moreover have "V = []"
      using \<open>wbytes V = []\<close> length_wbytes [of V] by simp
    moreover have "eth_run (is @ replicate ?n reading) eth_init = Some (outs @ outs2, s2)"
      using run(1) run2(1) by (simp add: eth_run_append)
    ultimately show ?thesis
      by auto
  qed
  then show ?thesis
    by blast
qed

end
