(* ===== verification/Dre.thy ===== *)
theory Dre
  imports Lsu_Copy Alloc
begin

text \<open>
  The test of the data reorganisation engine (\<^verbatim>\<open>src/test/dre/src/dre.c\<close>) in the
  builds for Linux without stream port: the functions that move data, the arguments, and
  the four tests. The program is written against \<^verbatim>\<open>memcpy\<close> and \<^verbatim>\<open>smemcpy\<close>, and the build
  selects who moves the data: the processor, the DMA controller or the load-store
  unit. So the two functions are arguments of the model (record \<open>copy_fns\<close>), their
  contract is the locale \<open>data_mover\<close>, which the processor's functions fulfil, and
  the load-store unit is shown to leave the same memory as the processor. What the
  program finds is stated for any two functions.

  What the program prints, and its calls of the cache, clock, trace and
  statistics functions, are a log in the state.
\<close>

section \<open>Moving data\<close>

text \<open>The function of the C library.\<close>

definition memcpy_c :: "u64 \<Rightarrow> u64 \<Rightarrow> u64 \<Rightarrow> mem \<Rightarrow> mem" where
  "memcpy_c dst src n m = store_bytes dst (map (\<lambda>i. m (src + of_nat i)) [0..<unat n]) m"

definition memset_c :: "u64 \<Rightarrow> u8 \<Rightarrow> u64 \<Rightarrow> mem \<Rightarrow> mem" where
  "memset_c dst c n m = store_bytes dst (replicate (unat n) c) m"

fun smemcpy_loop :: "nat \<Rightarrow> u64 \<Rightarrow> u64 \<Rightarrow> u64 \<Rightarrow> u64 \<Rightarrow> u64 \<Rightarrow> mem \<Rightarrow> mem" where
  "smemcpy_loop 0 rdst rsrc block_sz dst_inc src_inc m = m"
| "smemcpy_loop (Suc n) rdst rsrc block_sz dst_inc src_inc m =
     smemcpy_loop n (rdst + dst_inc) (rsrc + src_inc) block_sz dst_inc src_inc (memcpy_c rdst rsrc block_sz m)"

definition smemcpy :: "u64 \<Rightarrow> u64 \<Rightarrow> u64 \<Rightarrow> u64 \<Rightarrow> u64 \<Rightarrow> u64 \<Rightarrow> mem \<Rightarrow> u64 \<times> mem" where
  "smemcpy dst src block_sz dst_inc src_inc n m = (dst, smemcpy_loop (unat n) dst src block_sz dst_inc src_inc m)"

record copy_fns =
  mv_memcpy :: "u64 \<Rightarrow> u64 \<Rightarrow> u64 \<Rightarrow> mem \<Rightarrow> mem"
  mv_smemcpy :: "u64 \<Rightarrow> u64 \<Rightarrow> u64 \<Rightarrow> u64 \<Rightarrow> u64 \<Rightarrow> u64 \<Rightarrow> mem \<Rightarrow> mem"

definition cpu_fns :: copy_fns where
  "cpu_fns = \<lparr>mv_memcpy = memcpy_c, mv_smemcpy = (\<lambda>dst src b di si n m. snd (smemcpy dst src b di si n m))\<rparr>"

section \<open>Arguments\<close>

definition DEFAULT_TSIZE :: u64 where "DEFAULT_TSIZE = 512"
definition DEFAULT_SFAC :: u32 where "DEFAULT_SFAC = 8"
definition DFLAG :: u32 where "DFLAG = 0x01"
definition MEM_WORDS :: nat where "MEM_WORDS = 16"

text \<open>Characters of the C locale, by their codes.\<close>

definition ch :: "char \<Rightarrow> nat" where
  "ch c = of_char c"

definition isdigit :: "char \<Rightarrow> bool" where
  "isdigit c \<longleftrightarrow> 48 \<le> ch c \<and> ch c \<le> 57"

definition isalpha :: "char \<Rightarrow> bool" where
  "isalpha c \<longleftrightarrow> 65 \<le> ch c \<and> ch c \<le> 90 \<or> 97 \<le> ch c \<and> ch c \<le> 122"

definition toupper :: "char \<Rightarrow> nat" where
  "toupper c = (if 97 \<le> ch c \<and> ch c \<le> 122 then ch c - 32 else ch c)"

text \<open>The value of a digit in any base up to 16.\<close>

definition digit_value :: "char \<Rightarrow> nat option" where
  "digit_value c = (if isdigit c then Some (ch c - 48)
     else if 65 \<le> toupper c \<and> toupper c \<le> 70 then Some (toupper c - 55) else None)"

fun scan_digits :: "nat \<Rightarrow> nat \<Rightarrow> string \<Rightarrow> nat \<times> string" where
  "scan_digits base v [] = (v, [])"
| "scan_digits base v (c # cs) =
     (case digit_value c of
        Some d \<Rightarrow> if d < base then scan_digits base (v * base + d) cs else (v, c # cs)
      | None \<Rightarrow> (v, c # cs))"

text \<open>
  \<^verbatim>\<open>strtoul\<close> with base 0 for a string that starts with a digit, which the callers have
  tested: hexadecimal after \<^verbatim>\<open>0x\<close>, octal after \<^verbatim>\<open>0\<close>, else decimal; the greatest number when it is too large.
\<close>

definition strtoul_0 :: "string \<Rightarrow> u64 \<times> string" where
  "strtoul_0 s =
     (let (base, t) =
            (case s of
               z # x # h # r \<Rightarrow>
                 if ch z = 48 \<and> toupper x = 88 \<and> digit_value h \<noteq> None then (16, h # r)
                 else if ch z = 48 then (8, s) else (10, s)
             | z # r \<Rightarrow> if ch z = 48 then (8, s) else (10, s)
             | [] \<Rightarrow> (10, s));
          (v, rest) = scan_digits base 0 t
      in (if v < 2 ^ 64 then of_nat v else - 1, rest))"

text \<open>The character at a position of a terminated string.\<close>

definition at_char :: "string \<Rightarrow> nat \<Rightarrow> char" where
  "at_char s i = (if i < length s then s ! i else CHR 0x00)"

definition atoulk :: "string \<Rightarrow> u64" where
  "atoulk s =
     (let (num, kptr) = strtoul_0 s;
          k = (if isalpha (at_char kptr 0) \<and> toupper (at_char kptr 1) = 73 then 1024 else 1000 :: u32);
          c = toupper (at_char kptr 0)
      in if c = 75 then num * ucast k
         else if c = 77 then num * ucast (k * k)
         else if c = 71 then num * ucast (k * k * k)
         else num)"

datatype item = Str string | Dec u64 | Hex u64

datatype dre_call =
    DCacheInvalidate | DCacheFlush | DCacheInvalidateRange u64 u64 | DCacheFlushRange u64 u64
  | Clocks_emulate | Clocks_normal | Trace_start | Trace_stop | Trace_event nat | Trace_cap
  | Stats_start | Stats_stop | Stats_print

datatype dre_log = Out "item list" | Call dre_call

record dre_opts =
  o_nok :: bool
  o_flags :: u32
  o_sfac :: u32
  o_tsize :: u64
  o_log :: "dre_log list"

definition dre_defaults :: dre_opts where
  "dre_defaults = \<lparr>o_nok = False, o_flags = 0, o_sfac = DEFAULT_SFAC, o_tsize = DEFAULT_TSIZE, o_log = []\<rparr>"

definition crnl :: string where
  "crnl = [CHR 0x0D, CHR 0x0A]"

text \<open>The letters of an argument; the number of \<^verbatim>\<open>-s\<close> and \<^verbatim>\<open>-t\<close> takes the rest of it.\<close>

fun dre_letters :: "string \<Rightarrow> dre_opts \<Rightarrow> dre_opts" where
  "dre_letters [] q = q"
| "dre_letters (c # cs) q =
     (if c = CHR ''d'' then dre_letters cs (q\<lparr>o_flags := o_flags q OR DFLAG\<rparr>)
      else if c = CHR ''s'' then
        if isdigit (at_char cs 0) then q\<lparr>o_sfac := ucast (atoulk cs)\<rparr> else q\<lparr>o_nok := True\<rparr>
      else if c = CHR ''t'' then
        if isdigit (at_char cs 0) then q\<lparr>o_tsize := atoulk cs\<rparr> else q\<lparr>o_nok := True\<rparr>
      else dre_letters cs (q\<lparr>o_nok := True, o_log := o_log q @ [Out [Str ('' -- not an option: '' @ [c] @ crnl)]]\<rparr>))"

fun dre_args :: "string list \<Rightarrow> dre_opts \<Rightarrow> string list \<times> dre_opts" where
  "dre_args [] q = ([], q)"
| "dre_args (arg # argv) q =
     (if at_char arg 0 = CHR ''-'' then dre_args argv (dre_letters (drop 1 arg) q) else (arg # argv, q))"

definition dre_usage :: "dre_log list" where
  "dre_usage =
     [Out [Str (''Usage: dre {-flag} {-option<arg>} (example: dre -d -s4 -t16Mi)'' @ crnl)],
      Out [Str (''  -d  display errors'' @ crnl)],
      Out [Str ''  -s  LSU stride factor <int>, default '', Dec (ucast DEFAULT_SFAC), Str crnl],
      Out [Str ''  -t  LSU transfer size <int>, default '', Dec DEFAULT_TSIZE, Str crnl],
      Out [Str (''(stride fac. * trans. size) determines largest memory allocation'' @ crnl)]]"

section \<open>The tests\<close>

record dre_st =
  d_mem :: mem
  d_status :: u32
  d_log :: "dre_log list"

definition logs :: "dre_log list \<Rightarrow> dre_st \<Rightarrow> dre_st" where
  "logs xs s = s\<lparr>d_log := d_log s @ xs\<rparr>"

definition upd_mem :: "(mem \<Rightarrow> mem) \<Rightarrow> dre_st \<Rightarrow> dre_st" where
  "upd_mem f s = s\<lparr>d_mem := f (d_mem s)\<rparr>"

definition ld32 :: "mem \<Rightarrow> u64 \<Rightarrow> u32" where
  "ld32 m a = le32_word (m a) (m (a + 1)) (m (a + 2)) (m (a + 3))"

definition st32 :: "u64 \<Rightarrow> u32 \<Rightarrow> mem \<Rightarrow> mem" where
  "st32 a w m = store_bytes a (le32_bytes w) m"

text \<open>A loop of comparisons: a difference sets a bit of the status and is printed when that was asked for.\<close>

definition check_loop :: "u32 \<Rightarrow> u32 \<Rightarrow> (mem \<Rightarrow> nat \<Rightarrow> bool) \<Rightarrow> (mem \<Rightarrow> nat \<Rightarrow> item list) \<Rightarrow> nat \<Rightarrow> dre_st \<Rightarrow> dre_st" where
  "check_loop flags fail ok msg n s =
     fold (\<lambda>i s. if ok (d_mem s) i then s
                 else (logs (if flags AND DFLAG \<noteq> 0 then [Out (msg (d_mem s) i)] else []) s)\<lparr>d_status := d_status s OR fail\<rparr>)
       [0..<n] s"

definition verdict :: "u32 \<Rightarrow> dre_st \<Rightarrow> dre_st" where
  "verdict fail s = logs [Out [Str (if d_status s AND fail \<noteq> 0 then ''FAILED'' @ crnl else ''PASSED'' @ crnl)]] s"

text \<open>The tests of the two memories, which differ in the name, the address and the bit.\<close>

definition word_test :: "u32 \<Rightarrow> string \<Rightarrow> u32 \<Rightarrow> u64 \<Rightarrow> dre_st \<Rightarrow> dre_st" where
  "word_test flags name fail ptr s =
     (let s = logs [Out [Str name], Call (DCacheInvalidateRange ptr (4 * of_nat MEM_WORDS))] s;
          s = upd_mem (fold (\<lambda>i. st32 (ptr + 4 * of_nat i) (of_nat i)) [0..<MEM_WORDS]) s;
          s = logs [Call (DCacheFlushRange ptr (4 * of_nat MEM_WORDS))] s;
          s = check_loop flags fail (\<lambda>m i. ld32 m (ptr + 4 * of_nat i) = of_nat i)
                (\<lambda>m i. [Str (crnl @ ''init: ''), Dec (of_nat i), Str '', buf['', Dec (of_nat i), Str '']: '',
                        Dec (ucast (ld32 m (ptr + 4 * of_nat i))), Str '' ''])
                MEM_WORDS s
      in verdict fail s)"

definition clear_dst :: "u64 \<Rightarrow> u64 \<Rightarrow> dre_st \<Rightarrow> dre_st" where
  "clear_dst dst len s =
     logs [Call (DCacheFlushRange dst len)] (upd_mem (memset_c dst 0 len) (logs [Call (DCacheInvalidateRange dst len)] s))"

definition contiguous_test :: "copy_fns \<Rightarrow> u32 \<Rightarrow> u64 \<Rightarrow> u64 \<Rightarrow> u64 \<Rightarrow> dre_st \<Rightarrow> dre_st" where
  "contiguous_test mv flags tsize src dst s =
     (let len = ucast (ucast tsize :: u32) :: u64;
          s = logs [Out [Str ''Contiguous read & write LSU test... ''], Call (DCacheInvalidateRange src len)] s;
          s = upd_mem (fold (\<lambda>i m. m(src + of_nat i := of_nat i)) [0..<unat len]) s;
          s = logs [Call (DCacheFlushRange src len)] s;
          s = clear_dst dst len s;
          s = logs [Call (Trace_event 0x1A)] s;
          s = upd_mem (mv_memcpy mv dst src len) s;
          s = logs [Call (Trace_event 0x1B), Call (DCacheInvalidateRange dst len)] s;
          s = check_loop flags 0x20 (\<lambda>m i. m (src + of_nat i) = m (dst + of_nat i))
                (\<lambda>m i. [Str (crnl @ ''src[''), Dec (of_nat i), Str '']: 0x'', Hex (scast (m (src + of_nat i))),
                        Str '', dst['', Dec (of_nat i), Str '']: 0x'', Hex (scast (m (dst + of_nat i))), Str '' ''])
                (unat len) s
      in verdict 0x20 s)"

text \<open>The address of an element of 32 bits with an index of 32 bits.\<close>

definition elem :: "u64 \<Rightarrow> u32 \<Rightarrow> u64" where
  "elem buf i = buf + 4 * ucast i"

definition strided_test :: "copy_fns \<Rightarrow> u32 \<Rightarrow> u32 \<Rightarrow> u64 \<Rightarrow> u64 \<Rightarrow> u64 \<Rightarrow> dre_st \<Rightarrow> dre_st" where
  "strided_test mv flags sfac tsize src dst s =
     (let inc = ucast (ucast sfac * 4 :: u64) :: u32;
          len = ucast (ucast tsize :: u32) :: u64;
          n = ucast (tsize div 4) :: u32;
          s = logs [Out [Str ''Strided read & contiguous write LSU test... ''], Call (DCacheInvalidateRange src (ucast (n * inc)))] s;
          s = upd_mem (fold (\<lambda>i. fold (\<lambda>j. st32 (elem src (of_nat i * sfac + of_nat j)) (if j \<noteq> 0 then NOT (of_nat i) else of_nat i))
                  [0..<unat sfac]) [0..<unat n]) s;
          s = logs [Call (DCacheFlushRange src (ucast (n * inc)))] s;
          s = clear_dst dst len s;
          s = logs [Call (Trace_event 0x2A)] s;
          s = upd_mem (mv_smemcpy mv dst src 4 4 (ucast inc) (ucast n)) s;
          s = logs [Call (Trace_event 0x2B), Call (DCacheInvalidateRange dst len)] s;
          s = check_loop flags 0x40 (\<lambda>m i. ld32 m (elem src (of_nat i * sfac)) = ld32 m (elem dst (of_nat i)))
                (\<lambda>m i. [Str (crnl @ ''src[''), Dec (ucast (of_nat i * sfac)), Str '']: 0x'', Hex (ucast (ld32 m (elem src (of_nat i * sfac)))),
                        Str '', dst['', Dec (of_nat i), Str '']: 0x'', Hex (ucast (ld32 m (elem dst (of_nat i)))), Str '' ''])
                (unat n) s
      in verdict 0x40 s)"

text \<open>The part after the buffers were allocated.\<close>

definition dre_tests :: "copy_fns \<Rightarrow> u32 \<Rightarrow> u64 \<Rightarrow> u32 \<Rightarrow> u64 \<Rightarrow> u64 \<Rightarrow> dre_st \<Rightarrow> dre_st" where
  "dre_tests mv flags tsize sfac mem_sp mem_dram s =
     (let s = logs [Out [Str (''########## DRE ##########'' @ crnl)], Out [Str ''transfer size: '', Dec tsize, Str crnl],
                    Out [Str ''stride factor: '', Dec (ucast sfac), Str crnl], Call DCacheInvalidate, Call Clocks_emulate] s;
          s = word_test flags ''Scratchpad test... '' 0x01 mem_sp s;
          s = word_test flags ''DRAM test... '' 0x02 mem_dram s;
          s = logs [Call Trace_start, Call Stats_start] s;
          s = contiguous_test mv flags tsize mem_dram mem_sp s;
          s = strided_test mv flags sfac tsize mem_dram mem_sp s
      in logs [Call DCacheFlush, Call Stats_stop, Call Trace_stop, Call Clocks_normal, Call Stats_print,
               Out [Str (''Done'' @ crnl)], Call Trace_cap] s)"

text \<open>
  The program: \<open>sp_nalloc\<close> and \<open>nalloc\<close> give the address of a new block, 0 when there
  is none. \<open>None\<close> is the end of the program by \<open>chk_alloc\<close>.
\<close>

definition dre_main ::
  "copy_fns \<Rightarrow> (u64 \<Rightarrow> u64) \<Rightarrow> (u64 \<Rightarrow> u64) \<Rightarrow> string list \<Rightarrow> mem \<Rightarrow> (int \<times> dre_st) option"
where
  "dre_main mv sp_nalloc nalloc argv m =
     (let (rest, q) = dre_args argv dre_defaults;
          s = \<lparr>d_mem = m, d_status = 0, d_log = o_log q\<rparr>
      in if o_nok q \<or> rest \<noteq> [] then Some (1, logs dre_usage s)
         else
           let mem_sp = sp_nalloc (o_tsize q); mem_dram = nalloc (o_tsize q * ucast (o_sfac q)) in
           case chk_alloc mem_sp of None \<Rightarrow> None | Some _ \<Rightarrow>
           case chk_alloc mem_dram of None \<Rightarrow> None | Some _ \<Rightarrow>
             Some (0, dre_tests mv (o_flags q) (o_tsize q) (o_sfac q) mem_sp mem_dram s))"

lemmas scan_simps = atoulk_def strtoul_0_def digit_value_def toupper_def isdigit_def isalpha_def ch_def at_char_def

lemma atoulk_examples:
  "atoulk ''16Mi'' = 16777216" "atoulk ''2k'' = 2000" "atoulk ''0x10'' = 16" "atoulk ''017'' = 15"
  by (simp_all add: scan_simps)

section \<open>Blocks that do not overlap\<close>

text \<open>Source and destination of a copy in \<open>n\<close> blocks, within the address space.\<close>

definition blocks_apart :: "nat \<Rightarrow> nat \<Rightarrow> nat \<Rightarrow> nat \<Rightarrow> nat \<Rightarrow> nat \<Rightarrow> bool" where
  "blocks_apart dst src b di si n \<longleftrightarrow>
     (\<forall>i<n. dst + i * di + b \<le> 2 ^ 64 \<and> src + i * si + b \<le> 2 ^ 64) \<and>
     (\<forall>i<n. \<forall>j<n. src + i * si + b \<le> dst + j * di \<or> dst + j * di + b \<le> src + i * si)"

definition block :: "mem \<Rightarrow> u64 \<Rightarrow> u64 \<Rightarrow> nat \<Rightarrow> nat \<Rightarrow> u8 list" where
  "block m src si b i = map (\<lambda>j. m (src + of_nat i * si + of_nat j)) [0..<b]"

text \<open>The memory after a copy in blocks that are all read before.\<close>

definition copied :: "u64 \<Rightarrow> u64 \<Rightarrow> nat \<Rightarrow> u64 \<Rightarrow> u64 \<Rightarrow> nat \<Rightarrow> mem \<Rightarrow> mem" where
  "copied dst src b di si n m = fold (\<lambda>i. store_bytes (dst + of_nat i * di) (block m src si b i)) [0..<n] m"

lemma length_block [simp]: "length (block m src si b i) = b"
  by (simp add: block_def)

lemma unat_at:
  fixes a d :: u64
  assumes "unat a + i * unat d + j < 2 ^ 64"
  shows "unat (a + of_nat i * d + of_nat j) = unat a + i * unat d + j"
proof -
  have "a + of_nat i * d + of_nat j = of_nat (unat a + i * unat d + j)"
    by simp
  then show ?thesis
    using assms by (simp only: unsigned_of_nat) (simp add: take_bit_nat_eq_self)
qed

lemma store_outside:
  fixes a p :: u64
  assumes "unat p + length bs \<le> 2 ^ 64" "unat a < unat p \<or> unat p + length bs \<le> unat a"
  shows "store_bytes p bs m a = m a"
proof -
  have "unat a < 2 ^ 64"
    using unsigned_less [of a] by simp
  then have "\<not> unat (a - p) < length bs"
    using assms by (auto simp: unat_sub_if')
  moreover have "length bs \<le> 2 ^ 64"
    using assms by simp
  ultimately show ?thesis
    by (simp add: store_bytes_apply)
qed

lemma copied_Suc:
  "copied dst src b di si (Suc n) m = store_bytes (dst + of_nat n * di) (block m src si b n) (copied dst src b di si n m)"
  by (simp add: copied_def)

lemma copied_outside:
  fixes dst di a :: u64
  assumes "\<And>k. k < n \<Longrightarrow> unat dst + k * unat di + b \<le> 2 ^ 64 \<and> (unat a < unat dst + k * unat di \<or> unat dst + k * unat di + b \<le> unat a)"
    and "0 < b"
  shows "copied dst src b di si n m a = m a"
  using assms(1)
proof (induction n)
  case (Suc n)
  have "unat (dst + of_nat n * di) = unat dst + n * unat di"
    using unat_at [of dst n di 0] Suc.prems [of n] assms(2) by simp
  then show ?case
    using Suc by (simp add: copied_Suc store_outside)
qed (simp add: copied_def)

lemma copied_source:
  assumes "blocks_apart (unat dst) (unat src) b (unat di) (unat si) n" "k \<le> n" "i < n" "j < b"
  shows "copied dst src b di si k m (src + of_nat i * si + of_nat j) = m (src + of_nat i * si + of_nat j)"
proof (rule copied_outside)
  fix k' assume "k' < k"
  then have "k' < n"
    using assms(2) by simp
  moreover have "unat (src + of_nat i * si + of_nat j) = unat src + i * unat si + j"
    using assms unat_at [of src i si j] by (force simp: blocks_apart_def)
  ultimately show "unat dst + k' * unat di + b \<le> 2 ^ 64 \<and> (unat (src + of_nat i * si + of_nat j) < unat dst + k' * unat di \<or>
      unat dst + k' * unat di + b \<le> unat (src + of_nat i * si + of_nat j))"
    using assms by (fastforce simp: blocks_apart_def)
qed (use assms in simp)

lemma smemcpy_loop_fold:
  "smemcpy_loop n dst src b di si m = fold (\<lambda>i. memcpy_c (dst + of_nat i * di) (src + of_nat i * si) b) [0..<n] m"
proof (induction n arbitrary: dst src m)
  case (Suc n)
  have "[0..<Suc n] = 0 # map Suc [0..<n]"
    by (simp add: map_Suc_upt upt_conv_Cons)
  then show ?case
    by (simp add: Suc fold_map comp_def algebra_simps)
qed simp

lemma smemcpy_loop_copied:
  assumes ap: "blocks_apart (unat dst) (unat src) (unat b) (unat di) (unat si) n"
  shows "smemcpy_loop n dst src b di si m = copied dst src (unat b) di si n m"
proof -
  have "fold (\<lambda>i. memcpy_c (dst + of_nat i * di) (src + of_nat i * si) b) [0..<k] m = copied dst src (unat b) di si k m" if "k \<le> n" for k
    using that
  proof (induction k)
    case (Suc k)
    then have "map (\<lambda>j. copied dst src (unat b) di si k m (src + of_nat k * si + of_nat j)) [0..<unat b] = block m src si (unat b) k"
      unfolding block_def using copied_source [OF ap, of k k] by (intro map_cong) auto
    with Suc show ?case
      by (simp add: copied_Suc memcpy_c_def)
  qed (simp add: copied_def)
  then show ?thesis
    by (simp add: smemcpy_loop_fold)
qed

text \<open>C19: The strided copy that the load-store unit does for the two packets of \<^verbatim>\<open>lsu_smemcpy\<close> is that of the
  processor's \<^verbatim>\<open>smemcpy\<close>, which it replaces in a build with the unit: whatever the order of the unit's threads, its run is
  finite, it does not stop before the response, and with the response the memory is the one \<^verbatim>\<open>smemcpy\<close> would have
  left. Block size, increments and addresses are multiples of eight, and no source block overlaps a destination block.\<close>

theorem lsu_equals_cpu:
  fixes src dst bsz dinc sinc cnt :: u64
  assumes "s0 = lsu_reset (packet_flits (smove_packet g READ_CH src 0 bsz sinc cnt) @ packet_flits (smove_packet g WRITE_CH dst 1 bsz dinc cnt)) m"
    and "\<not> bit (gfwd_id g) 0" "8 dvd unat src" "8 dvd unat dst" "8 dvd unat bsz" "8 dvd unat sinc" "8 dvd unat dinc"
    and "0 < unat bsz" "unat bsz < 2 ^ 24" "unat sinc < 2 ^ 30" "unat dinc < 2 ^ 30" "0 < unat cnt" "unat cnt < 2 ^ 30"
    and "unat src + (unat cnt - 1) * unat sinc + unat bsz \<le> 2 ^ 32" "unat dst + (unat cnt - 1) * unat dinc + unat bsz \<le> 2 ^ 32"
    and "\<And>i j. i < unat cnt \<Longrightarrow> j < unat cnt \<Longrightarrow> unat src + i * unat sinc + unat bsz \<le> unat dst + j * unat dinc \<or>
      unat dst + j * unat dinc + unat bsz \<le> unat src + i * unat sinc"
    and "(lsu_step ^^ k) s0 s"
  shows "k \<le> lsu_work s0 \<and>
    (l_root_out s \<noteq> [] \<longrightarrow> length (l_root_out s) = 1 \<and> smemcpy dst src bsz dinc sinc cnt m = (dst, l_mem s)) \<and>
    ((\<nexists>s'. lsu_step s s') \<longrightarrow> l_root_out s \<noteq> [])"
proof -
  have "dst' + i * di + b \<le> 2 ^ 64" if "dst' + (unat cnt - 1) * di + b \<le> 2 ^ 32" "i < unat cnt" for dst' di b i :: nat
  proof -
    have "dst' + i * di + b \<le> dst' + (unat cnt - 1) * di + b"
      using that(2) by (intro add_mono mult_right_mono) auto
    also have "\<dots> \<le> 2 ^ 32"
      by (rule that(1))
    also have "(2 :: nat) ^ 32 \<le> 2 ^ 64"
      by simp
    finally show ?thesis .
  qed
  then have "blocks_apart (unat dst) (unat src) (unat bsz) (unat dinc) (unat sinc) (unat cnt)"
    unfolding blocks_apart_def using assms(14-16) by blast
  then have "smemcpy dst src bsz dinc sinc cnt m = (dst, copied dst src (unat bsz) dinc sinc (unat cnt) m)"
    by (simp add: smemcpy_def smemcpy_loop_copied)
  then show ?thesis
    using lsu_strided_copies [OF assms] by (auto simp: copied_def block_def)
qed

theorem lsu_equals_cpu_witness:
  "\<exists>k s. (lsu_step ^^ k) (lsu_reset (packet_flits (smove_packet core_accel READ_CH 4096 0 8 32 2) @
      packet_flits (smove_packet core_accel WRITE_CH 8192 1 8 8 2)) (\<lambda>a. ucast a)) s \<and> length (l_root_out s) = 1 \<and>
      smemcpy 8192 4096 8 8 32 2 (\<lambda>a. ucast a) = (8192, l_mem s)"
proof -
  let ?s0 = "lsu_reset (packet_flits (smove_packet core_accel READ_CH 4096 0 8 32 2) @ packet_flits (smove_packet core_accel WRITE_CH 8192 1 8 8 2)) (\<lambda>a. ucast a)"
  have g: "\<not> bit (gfwd_id core_accel) 0"
    by (simp add: core_accel_def)
  note c = lsu_equals_cpu [OF refl g, where src = 4096 and dst = 8192 and bsz = 8 and sinc = 32 and dinc = 8 and cnt = 2 and m = "\<lambda>a. ucast a", simplified]
  obtain k s where "(lsu_step ^^ k) ?s0 s" "\<nexists>s'. lsu_step s s'"
    using bounded_run_ends [of lsu_step ?s0] c by blast
  then show ?thesis
    using c by fastforce
qed

section \<open>What the tests find\<close>

definition failed :: dre_log where
  "failed = Out [Str (''FAILED'' @ crnl)]"

text \<open>A test that sets its bit and prints the failure exactly when something is not \<open>good\<close>.\<close>

definition judged :: "u32 \<Rightarrow> bool \<Rightarrow> dre_st \<Rightarrow> dre_st \<Rightarrow> bool" where
  "judged fail good s s' \<longleftrightarrow> d_status s' = d_status s OR (if good then 0 else fail) \<and>
     (d_status s AND fail = 0 \<longrightarrow> (failed \<in> set (d_log s') \<longleftrightarrow> failed \<in> set (d_log s) \<or> \<not> good))"

lemma outcome_before [simp]:
  "failed \<notin> set xs \<Longrightarrow> judged fail good (logs xs s) s' \<longleftrightarrow> judged fail good s s'"
  "judged fail good (upd_mem f s) s' \<longleftrightarrow> judged fail good s s'"
  by (auto simp: judged_def logs_def upd_mem_def)

lemma outcome_from:
  "judged fail good s s'' \<Longrightarrow> d_status s = d_status s' \<Longrightarrow> failed \<in> set (d_log s) \<longleftrightarrow> failed \<in> set (d_log s') \<Longrightarrow> good = good' \<Longrightarrow>
   judged fail good' s' s''"
  by (simp add: judged_def)

lemma check_loop_status:
  assumes "\<And>m i. length (msg m i) \<noteq> 1"
  shows "d_mem (check_loop flags fail ok msg n s) = d_mem s \<and>
   d_status (check_loop flags fail ok msg n s) = d_status s OR (if \<forall>i<n. ok (d_mem s) i then 0 else fail) \<and>
   (failed \<in> set (d_log (check_loop flags fail ok msg n s)) \<longleftrightarrow> failed \<in> set (d_log s))"
proof (induction n)
  case (Suc n)
  let ?s = "check_loop flags fail ok msg n s"
  have "check_loop flags fail ok msg (Suc n) s =
      (if ok (d_mem ?s) n then ?s
       else (logs (if flags AND DFLAG \<noteq> 0 then [Out (msg (d_mem ?s) n)] else []) ?s)\<lparr>d_status := d_status ?s OR fail\<rparr>)"
    by (simp add: check_loop_def)
  moreover have "Out (msg (d_mem ?s) n) \<noteq> failed"
    using assms [of "d_mem ?s" n] by (auto simp: failed_def)
  ultimately show ?case
    using Suc by (auto simp: less_Suc_eq or.assoc logs_def)
qed (simp add: check_loop_def)

lemma check_outcome:
  assumes "\<And>m i. length (msg m i) \<noteq> 1" "fail \<noteq> 0"
  shows "judged fail (\<forall>i<n. ok (d_mem s) i) s (verdict fail (check_loop flags fail ok msg n s))"
proof -
  have "(d_status s OR fail) AND fail = fail"
    by (simp add: bit_eq_iff bit_simps)
  then show ?thesis
    using check_loop_status [of msg flags fail ok n s] assms
    by (auto simp: judged_def verdict_def logs_def failed_def crnl_def)
qed

lemma ld32_st32: "ld32 (st32 a w m) a = w"
  by (simp add: ld32_def st32_def store_bytes_apply le32_bytes_def le32_word_bytes)

lemma ld32_cong:
  assumes "\<And>j. j < 4 \<Longrightarrow> m (a + of_nat j) = m' (a' + of_nat j)"
  shows "ld32 m a = ld32 m' a'"
  using assms [of 0] assms [of 1] assms [of 2] assms [of 3] by (simp add: ld32_def)

lemma unat_elem: "unat (p :: u64) + 4 * i + j < 2 ^ 64 \<Longrightarrow> unat (p + 4 * of_nat i + of_nat j) = unat p + 4 * i + j"
  using unat_at [of p i 4 j] by (simp add: mult.commute)

text \<open>Words that were written one after the other are read back.\<close>

lemma ld32_words:
  assumes "i < n" "unat p + 4 * n \<le> 2 ^ 64"
  shows "ld32 (fold (\<lambda>i. st32 (p + 4 * of_nat i) (f i)) [0..<n] m) (p + 4 * of_nat i) = f i"
  using assms
proof (induction n)
  case (Suc n)
  let ?m = "fold (\<lambda>i. st32 (p + 4 * of_nat i) (f i)) [0..<n] m"
  show ?case
  proof (cases "i = n")
    case True
    then show ?thesis
      by (simp add: ld32_st32)
  next
    case False
    then have "i < n"
      using Suc.prems by simp
    then have "ld32 (st32 (p + 4 * of_nat n) (f n) ?m) (p + 4 * of_nat i) = ld32 ?m (p + 4 * of_nat i)"
      unfolding st32_def using Suc.prems unat_elem [of p n 0] unat_elem [of p i]
      by (intro ld32_cong store_outside) auto
    with Suc \<open>i < n\<close> show ?thesis
      by simp
  qed
qed simp

text \<open>The destination after a copy in blocks that are not longer than the increment.\<close>

lemma copied_dest:
  assumes "blocks_apart (unat dst) (unat src) b (unat di) (unat si) n" "i < n" "j < b" "b \<le> unat di \<or> n = 1"
  shows "copied dst src b di si n m (dst + of_nat i * di + of_nat j) = m (src + of_nat i * si + of_nat j)"
proof -
  have u: "unat (dst + of_nat k * di + of_nat l) = unat dst + k * unat di + l" if "k < n" "l < b" for k l
    using assms that unat_at [of dst k di l] by (force simp: blocks_apart_def)
  have "copied dst src b di si k m (dst + of_nat i * di + of_nat j) = m (src + of_nat i * si + of_nat j)" if "k \<le> n" "i < k" for k
    using that
  proof (induction k)
    case (Suc k)
    have k: "unat (dst + of_nat k * di) = unat dst + k * unat di" "unat dst + k * unat di + b \<le> 2 ^ 64"
      using u [of k 0] assms(1,3) Suc.prems by (auto simp: blocks_apart_def)
    show ?case
    proof (cases "i = k")
      case True
      have "unat (of_nat j :: u64) = j"
        using k assms(3) by (simp add: unsigned_of_nat take_bit_nat_eq_self)
      moreover have "b \<le> 2 ^ 64"
        using k(2) by simp
      ultimately show ?thesis
        using True assms(3) by (simp add: copied_Suc store_bytes_apply block_def)
    next
      case False
      then have "i < k" "n \<noteq> 1"
        using Suc.prems by auto
      then have "Suc i * unat di \<le> k * unat di" "b \<le> unat di"
        using assms(4) by (auto intro: mult_right_mono simp del: mult_Suc)
      then have "unat dst + i * unat di + j < unat dst + k * unat di"
        using assms(3) by simp
      then show ?thesis
        using Suc \<open>i < k\<close> k u [OF assms(2,3)] by (simp add: copied_Suc store_outside)
    qed
  qed simp
  then show ?thesis
    using assms(2) by simp
qed

text \<open>Bytes that were written one after the other, and words in rows.\<close>

lemma fold_bytes:
  assumes "i < n" "n \<le> 2 ^ 64"
  shows "fold (\<lambda>i m. m(p + of_nat i := f i)) [0..<n] m (p + of_nat i :: u64) = f i"
  using assms
proof (induction n)
  case (Suc n)
  show ?case
  proof (cases "i = n")
    case False
    then have "(of_nat i :: u64) \<noteq> of_nat n"
      using Suc.prems by (simp add: word_of_nat_eq_iff take_bit_nat_eq_self)
    then show ?thesis
      using Suc False by simp
  qed simp
qed simp

lemma fold_rows: "fold (\<lambda>i. fold (\<lambda>j. g (i * F + j)) [0..<F]) [0..<n] m = fold g [0..<n * F] m"
proof (induction n)
  case (Suc n)
  have "[0..<n * F + F] = [0..<n * F] @ [n * F..<n * F + F]"
    by (rule upt_add_eq_append) simp
  moreover have "[n * F..<n * F + F] = map (\<lambda>j. j + n * F) [0..<F]"
    by (simp only: map_add_upt add.commute [of "n * F" F])
  ultimately show ?case
    using Suc by (simp add: fold_map comp_def add.commute)
qed simp

lemma row_index_less: "i < n \<Longrightarrow> j < F \<Longrightarrow> i * F + j < n * F" for n :: nat
  using mult_right_mono [of "Suc i" n F] by simp

lemma memset_0:
  assumes "i < unat n" "unat dst + unat n \<le> 2 ^ 64"
  shows "memset_c dst 0 n m (dst + of_nat i) = 0"
proof -
  have "unat (of_nat i :: u64) = i"
    using assms by (simp add: unsigned_of_nat take_bit_nat_eq_self)
  then show ?thesis
    using assms by (simp add: memset_c_def store_bytes_apply)
qed

lemma memset_outside:
  assumes "unat dst + unat n \<le> 2 ^ 64" "unat a < unat dst \<or> unat dst + unat n \<le> unat a"
  shows "memset_c dst c n m a = m a"
  unfolding memset_c_def using assms by (intro store_outside) simp_all

section \<open>The program with something that moves data\<close>

text \<open>What the program needs of the two functions, whoever moves the data.\<close>

locale data_mover =
  fixes mv :: copy_fns
  assumes memcpy_law: "blocks_apart (unat dst) (unat src) (unat n) 0 0 1 \<Longrightarrow>
      mv_memcpy mv dst src n m = copied dst src (unat n) 0 0 1 m"
    and smemcpy_law: "blocks_apart (unat dst) (unat src) (unat b) (unat di) (unat si) (unat n) \<Longrightarrow>
      mv_smemcpy mv dst src b di si n m = copied dst src (unat b) di si (unat n) m"

interpretation cpu: data_mover cpu_fns
proof
  show "mv_memcpy cpu_fns dst src n m = copied dst src (unat n) 0 0 1 m" for dst src n :: u64 and m
    by (simp add: cpu_fns_def memcpy_c_def copied_def block_def)
qed (simp add: cpu_fns_def smemcpy_def smemcpy_loop_copied)

text \<open>The two buffers: large enough for the words of the first tests, apart, and within 32 bits in size.\<close>

definition buffers_ok :: "u64 \<Rightarrow> u32 \<Rightarrow> u64 \<Rightarrow> u64 \<Rightarrow> bool" where
  "buffers_ok tsize sfac sp dram \<longleftrightarrow>
     64 \<le> unat tsize \<and> 1 \<le> unat sfac \<and> unat tsize * unat sfac < 2 ^ 32 \<and>
     unat sp + unat tsize \<le> 2 ^ 64 \<and> unat dram + unat tsize * unat sfac \<le> 2 ^ 64 \<and>
     (unat sp + unat tsize \<le> unat dram \<or> unat dram + unat tsize * unat sfac \<le> unat sp)"

lemma of_nat_u32: "k < 2 ^ 32 \<Longrightarrow> ucast (of_nat k :: u32) = (of_nat k :: u64)"
  by (simp add: word_unat_eq_iff unsigned_ucast_eq unsigned_of_nat take_bit_nat_eq_self)

lemma ucast_small: "unat (t :: u64) < 2 ^ 32 \<Longrightarrow> ucast (ucast t :: u32) = t"
  using of_nat_u32 [of "unat t"] by simp

lemma unat_up: "unat (ucast (t :: u32) :: u64) = unat t"
proof -
  have "unat t < 2 ^ LENGTH(32)"
    by (rule unsigned_less)
  then show ?thesis
    by (simp add: unsigned_ucast_eq take_bit_nat_eq_self)
qed

lemma buffers_tsize: "buffers_ok tsize sfac sp dram \<Longrightarrow> unat tsize \<le> unat tsize * unat sfac \<and> unat tsize < 2 ^ 32 \<and> 4 * unat sfac < 2 ^ 32"
proof -
  assume b: "buffers_ok tsize sfac sp dram"
  then have "64 * unat sfac \<le> unat tsize * unat sfac" "unat tsize * 1 \<le> unat tsize * unat sfac"
    unfolding buffers_ok_def by (intro mult_right_mono mult_left_mono; simp)+
  with b show ?thesis
    unfolding buffers_ok_def by linarith
qed

lemma contiguous_apart:
  "buffers_ok tsize sfac sp dram \<Longrightarrow> blocks_apart (unat sp) (unat dram) (unat tsize) 0 0 1"
proof -
  assume b: "buffers_ok tsize sfac sp dram"
  define D where "D = unat tsize * unat sfac"
  have "unat tsize \<le> D" "unat sp + unat tsize \<le> 2 ^ 64" "unat dram + D \<le> 2 ^ 64" "unat sp + unat tsize \<le> unat dram \<or> unat dram + D \<le> unat sp"
    using b buffers_tsize [OF b] unfolding buffers_ok_def D_def by blast+
  then show ?thesis
    by (auto simp: blocks_apart_def)
qed

lemma strided_apart:
  assumes "buffers_ok tsize sfac sp dram"
  shows "blocks_apart (unat sp) (unat dram) 4 4 (4 * unat sfac) (unat tsize div 4)"
proof -
  have "i * 4 + 4 \<le> unat tsize \<and> i * (4 * unat sfac) + 4 \<le> unat tsize * unat sfac" if "i < unat tsize div 4" for i
  proof -
    have i: "Suc i * 4 \<le> unat tsize"
      using that by (simp add: less_eq_div_iff_mult_less_eq Suc_le_eq)
    then have "(Suc i * 4) * unat sfac \<le> unat tsize * unat sfac"
      by (rule mult_right_mono) simp
    moreover have "4 \<le> 4 * unat sfac"
      using assms by (simp add: buffers_ok_def)
    ultimately show ?thesis
      using i by (simp add: algebra_simps)
  qed
  then show ?thesis
    using assms unfolding blocks_apart_def buffers_ok_def by (auto; fastforce)
qed

text \<open>
  What the two tests of the copies lay out before they call the functions: byte \<open>i\<close> of the
  source is \<open>i\<close>; the first word of row \<open>i\<close> of the source is \<open>i\<close> and the others its complement;
  the destination is zero. And what they find good after it.
\<close>

definition byte_pattern :: "mem \<Rightarrow> u64 \<Rightarrow> u64 \<Rightarrow> nat \<Rightarrow> bool" where
  "byte_pattern m src dst n \<longleftrightarrow> (\<forall>i<n. m (src + of_nat i) = of_nat i \<and> m (dst + of_nat i) = 0)"

definition row_pattern :: "mem \<Rightarrow> u64 \<Rightarrow> u64 \<Rightarrow> nat \<Rightarrow> nat \<Rightarrow> bool" where
  "row_pattern m src dst sfac n \<longleftrightarrow>
     (\<forall>i<n div 4. \<forall>j < sfac. ld32 m (src + 4 * of_nat (i * sfac + j)) = (if j = 0 then of_nat i else NOT (of_nat i))) \<and>
     (\<forall>i<n. m (dst + of_nat i) = 0)"

definition bytes_equal :: "mem \<Rightarrow> u64 \<Rightarrow> u64 \<Rightarrow> nat \<Rightarrow> bool" where
  "bytes_equal m src dst n \<longleftrightarrow> (\<forall>i<n. m (src + of_nat i) = m (dst + of_nat i))"

definition heads_equal :: "mem \<Rightarrow> u64 \<Rightarrow> u64 \<Rightarrow> nat \<Rightarrow> nat \<Rightarrow> bool" where
  "heads_equal m src dst sfac k \<longleftrightarrow> (\<forall>i<k. ld32 m (src + 4 * of_nat (i * sfac)) = ld32 m (dst + 4 * of_nat i))"

lemma word_test_outcome:
  assumes "unat ptr + 64 \<le> 2 ^ 64" "name \<noteq> ''FAILED'' @ crnl" "fail \<noteq> 0"
  shows "judged fail True s (word_test flags name fail ptr s)"
proof -
  let ?m = "fold (\<lambda>i. st32 (ptr + 4 * of_nat i) (of_nat i)) [0..<MEM_WORDS] (d_mem s)"
  have r: "ld32 ?m (ptr + 4 * of_nat i) = of_nat i" if "i < MEM_WORDS" for i
    using ld32_words [OF that, of ptr of_nat] assms(1) by (simp add: MEM_WORDS_def)
  let ?s = "logs [Call (DCacheFlushRange ptr (4 * of_nat MEM_WORDS))]
      (upd_mem (fold (\<lambda>i. st32 (ptr + 4 * of_nat i) (of_nat i)) [0..<MEM_WORDS])
        (logs [Out [Str name], Call (DCacheInvalidateRange ptr (4 * of_nat MEM_WORDS))] s))"
  have "judged fail (\<forall>i<MEM_WORDS. ld32 (d_mem ?s) (ptr + 4 * of_nat i) = of_nat i) ?s (word_test flags name fail ptr s)"
    unfolding word_test_def Let_def by (rule check_outcome) (simp_all add: assms(3))
  moreover have "d_mem ?s = ?m"
    by (simp add: logs_def upd_mem_def)
  ultimately show ?thesis
    using r assms(2) by (simp add: failed_def)
qed

lemma contiguous_outcome:
  assumes b: "buffers_ok tsize sfac sp dram"
  shows "\<exists>m. byte_pattern m dram sp (unat tsize) \<and>
    judged 0x20 (bytes_equal (mv_memcpy mv sp dram tsize m) dram sp (unat tsize)) s (contiguous_test mv flags tsize dram sp s)"
proof (intro exI conjI)
  let ?m = "fold (\<lambda>i m. m(dram + of_nat i := of_nat i)) [0..<unat tsize] (d_mem s)"
  have t: "ucast (ucast tsize :: u32) = tsize"
    using buffers_tsize [OF b] by (simp add: ucast_small)
  have ap: "unat sp + unat tsize \<le> 2 ^ 64" "unat dram + unat tsize \<le> 2 ^ 64"
    "unat sp + unat tsize \<le> unat dram \<or> unat dram + unat tsize \<le> unat sp"
    using contiguous_apart [OF b] by (auto simp: blocks_apart_def)
  show "byte_pattern (memset_c sp 0 tsize ?m) dram sp (unat tsize)"
    unfolding byte_pattern_def
  proof (intro allI impI conjI)
    fix i assume i: "i < unat tsize"
    then have "unat (dram + of_nat i) = unat dram + i"
      using unat_at [of dram i 1 0] ap(2) by simp
    with i ap have "memset_c sp 0 tsize ?m (dram + of_nat i) = ?m (dram + of_nat i)"
      by (intro memset_outside) auto
    with i ap(2) show "memset_c sp 0 tsize ?m (dram + of_nat i) = of_nat i"
      by (simp add: fold_bytes)
  qed (use ap(1) in \<open>simp add: memset_0\<close>)
  show "judged 0x20 (bytes_equal (mv_memcpy mv sp dram tsize (memset_c sp 0 tsize ?m)) dram sp (unat tsize)) s
      (contiguous_test mv flags tsize dram sp s)"
    unfolding contiguous_test_def Let_def t
    by (rule check_outcome [THEN outcome_from]) (simp_all add: failed_def crnl_def logs_def upd_mem_def clear_dst_def bytes_equal_def)
qed

lemma strided_sizes:
  assumes b: "buffers_ok tsize sfac sp dram"
  shows "ucast (ucast (ucast sfac * 4 :: u64) :: u32) = (4 * ucast sfac :: u64)" "unat (4 * ucast sfac :: u64) = 4 * unat sfac"
    and "ucast (ucast (tsize div 4) :: u32) = tsize div 4" "unat (ucast (tsize div 4) :: u32) = unat tsize div 4"
    and "i < unat tsize div 4 \<Longrightarrow> j < unat sfac \<Longrightarrow> elem dram (of_nat i * sfac + of_nat j) = dram + 4 * of_nat (i * unat sfac + j)"
    and "i < unat tsize div 4 \<Longrightarrow> elem sp (of_nat i) = sp + 4 * of_nat i"
proof -
  note z = buffers_tsize [OF b]
  have f: "4 * ucast sfac = (of_nat (4 * unat sfac) :: u64)"
    by simp
  have "unat (of_nat (4 * unat sfac) :: u64) = 4 * unat sfac"
    using z by (simp only: unsigned_of_nat) (simp add: take_bit_nat_eq_self)
  then show u: "unat (4 * ucast sfac :: u64) = 4 * unat sfac"
    by (simp only: f)
  show "ucast (ucast (ucast sfac * 4 :: u64) :: u32) = (4 * ucast sfac :: u64)"
    using z u ucast_small [of "4 * ucast sfac"] by (simp add: mult.commute)
  have "unat (tsize div 4) < 2 ^ 32"
    using z div_le_dividend [of "unat tsize" 4] by (simp add: unat_div del: div_le_dividend)
  then show "ucast (ucast (tsize div 4) :: u32) = tsize div 4" "unat (ucast (tsize div 4) :: u32) = unat tsize div 4"
    by (simp_all add: ucast_small unat_div flip: unat_up)
  have i: "Suc i \<le> unat tsize" "i < 2 ^ 32" if "i < unat tsize div 4"
    using that z div_le_dividend [of "unat tsize" 4] by linarith+
  show "elem sp (of_nat i) = sp + 4 * of_nat i" if "i < unat tsize div 4"
    using i(2) [OF that] by (simp only: elem_def of_nat_u32)
  show "elem dram (of_nat i * sfac + of_nat j) = dram + 4 * of_nat (i * unat sfac + j)" if "i < unat tsize div 4" "j < unat sfac"
  proof -
    have "i * unat sfac + j < Suc i * unat sfac" "Suc i * unat sfac \<le> unat tsize * unat sfac"
      using that(2) i(1) [OF that(1)] by (simp, intro mult_right_mono) simp_all
    then have "i * unat sfac + j < 2 ^ 32"
      using b unfolding buffers_ok_def by linarith
    from of_nat_u32 [OF this] show ?thesis
      by (simp add: elem_def)
  qed
qed

lemma strided_outcome:
  assumes b: "buffers_ok tsize sfac sp dram"
  shows "\<exists>m. row_pattern m dram sp (unat sfac) (unat tsize) \<and>
    judged 0x40 (heads_equal (mv_smemcpy mv sp dram 4 4 (4 * ucast sfac) (tsize div 4) m) dram sp (unat sfac) (unat tsize div 4)) s
      (strided_test mv flags sfac tsize dram sp s)"
proof (intro exI conjI)
  let ?F = "unat sfac" and ?n = "unat tsize div 4"
  let ?v = "\<lambda>k. (if k mod ?F = 0 then of_nat (k div ?F) else NOT (of_nat (k div ?F))) :: u32"
  let ?m = "fold (\<lambda>k. st32 (dram + 4 * of_nat k) (?v k)) [0..<?n * ?F] (d_mem s)"
  note z = strided_sizes [OF b]
  have t: "ucast (ucast tsize :: u32) = tsize"
    using buffers_tsize [OF b] by (simp add: ucast_small)
  define D where "D = unat tsize * ?F"
  have ap: "unat sp + unat tsize \<le> 2 ^ 64" "unat dram + D \<le> 2 ^ 64"
    "unat sp + unat tsize \<le> unat dram \<or> unat dram + D \<le> unat sp"
    using b unfolding buffers_ok_def D_def by blast+
  have D: "4 * (?n * ?F) \<le> D"
    using mult_right_mono [of "4 * ?n" "unat tsize" ?F] by (simp add: D_def mult.assoc)
  show "row_pattern (memset_c sp 0 tsize ?m) dram sp ?F (unat tsize)"
    unfolding row_pattern_def
  proof (intro allI impI conjI)
    fix i j assume ij: "i < ?n" "j < ?F"
    let ?k = "i * ?F + j"
    have k: "?k < ?n * ?F"
      using ij by (rule row_index_less)
    have "ld32 (memset_c sp 0 tsize ?m) (dram + 4 * of_nat ?k) = ld32 ?m (dram + 4 * of_nat ?k)"
    proof (rule ld32_cong, rule memset_outside [OF ap(1)])
      fix l :: nat assume "l < 4"
      then show "unat (dram + 4 * of_nat ?k + of_nat l) < unat sp \<or> unat sp + unat tsize \<le> unat (dram + 4 * of_nat ?k + of_nat l)"
        using unat_elem [of dram ?k l] k D ap by (auto simp del: of_nat_add of_nat_mult)
    qed
    also have "\<dots> = ?v ?k"
      using k D ap(2) by (intro ld32_words) auto
    finally show "ld32 (memset_c sp 0 tsize ?m) (dram + 4 * of_nat ?k) = (if j = 0 then of_nat i else NOT (of_nat i))"
      using ij(2) by simp
  qed (use ap(1) in \<open>simp add: memset_0\<close>)
  have fill: "fold (\<lambda>i. fold (\<lambda>j. st32 (elem dram (of_nat i * sfac + of_nat j)) (if j \<noteq> 0 then NOT (of_nat i) else of_nat i)) [0..<?F]) [0..<?n] =
      fold (\<lambda>k. st32 (dram + 4 * of_nat k) (?v k)) [0..<?n * ?F]"
    unfolding fold_rows [symmetric, abs_def] using z(5) by (intro fold_cong refl ext) auto
  have "0 < ?F"
    using b by (simp add: buffers_ok_def)
  then have e: "elem dram (of_nat i * sfac) = dram + 4 * of_nat (i * ?F)" if "i < ?n" for i
    using z(5) [OF that, of 0] by simp
  show "judged 0x40 (heads_equal (mv_smemcpy mv sp dram 4 4 (4 * ucast sfac) (tsize div 4) (memset_c sp 0 tsize ?m)) dram sp ?F ?n) s
      (strided_test mv flags sfac tsize dram sp s)"
    unfolding strided_test_def Let_def t z(1,3,4) fill
    by (rule check_outcome [THEN outcome_from])
      (simp_all add: failed_def crnl_def logs_def upd_mem_def clear_dst_def heads_equal_def e z(6) del: of_nat_mult)
qed

text \<open>What the program finds, in terms of what the two functions leave in memory.\<close>

definition memcpy_good :: "copy_fns \<Rightarrow> u64 \<Rightarrow> u64 \<Rightarrow> u64 \<Rightarrow> mem \<Rightarrow> bool" where
  "memcpy_good mv tsize sp dram m = bytes_equal (mv_memcpy mv sp dram tsize m) dram sp (unat tsize)"

definition smemcpy_good :: "copy_fns \<Rightarrow> u64 \<Rightarrow> u32 \<Rightarrow> u64 \<Rightarrow> u64 \<Rightarrow> mem \<Rightarrow> bool" where
  "smemcpy_good mv tsize sfac sp dram m =
     heads_equal (mv_smemcpy mv sp dram 4 4 (4 * ucast sfac) (tsize div 4) m) dram sp (unat sfac) (unat tsize div 4)"

lemma outcome_chain:
  assumes "judged 1 True s s1" "judged 2 True s1 s2" "judged 0x20 g1 s2 s3" "judged 0x40 g2 s3 s4"
    and "d_status s = 0" "failed \<notin> set (d_log s)"
  shows "d_status s4 = (if g1 then 0 else 0x20) OR (if g2 then 0 else 0x40) \<and> (failed \<in> set (d_log s4) \<longleftrightarrow> \<not> (g1 \<and> g2))"
  using assms by (auto simp: judged_def)

lemma dre_tests_outcome:
  fixes mv flags
  assumes b: "buffers_ok tsize sfac sp dram" and s: "d_status s = 0" "failed \<notin> set (d_log s)"
  defines "s' \<equiv> dre_tests mv flags tsize sfac sp dram s"
  shows "\<exists>m1 m2. byte_pattern m1 dram sp (unat tsize) \<and> row_pattern m2 dram sp (unat sfac) (unat tsize) \<and>
    d_status s' = (if memcpy_good mv tsize sp dram m1 then 0 else 0x20) OR (if smemcpy_good mv tsize sfac sp dram m2 then 0 else 0x40) \<and>
    (failed \<in> set (d_log s') \<longleftrightarrow> \<not> (memcpy_good mv tsize sp dram m1 \<and> smemcpy_good mv tsize sfac sp dram m2))"
proof -
  have u: "unat sp + 64 \<le> 2 ^ 64" "unat dram + 64 \<le> 2 ^ 64"
    using b buffers_tsize [OF b] unfolding buffers_ok_def by linarith+
  let ?s0 = "logs [Out [Str (''########## DRE ##########'' @ crnl)], Out [Str ''transfer size: '', Dec tsize, Str crnl],
      Out [Str ''stride factor: '', Dec (ucast sfac), Str crnl], Call DCacheInvalidate, Call Clocks_emulate] s"
  let ?s1 = "word_test flags ''Scratchpad test... '' 0x01 sp ?s0"
  let ?s2 = "word_test flags ''DRAM test... '' 0x02 dram ?s1"
  let ?s3 = "logs [Call Trace_start, Call Stats_start] ?s2"
  let ?s4 = "contiguous_test mv flags tsize dram sp ?s3"
  let ?s5 = "strided_test mv flags sfac tsize dram sp ?s4"
  have w: "judged 1 True ?s0 ?s1" "judged 2 True ?s1 ?s2"
    by (rule word_test_outcome [OF u(1)]; simp add: crnl_def) (rule word_test_outcome [OF u(2)]; simp add: crnl_def)
  obtain m1 where m1: "byte_pattern m1 dram sp (unat tsize)" "judged 0x20 (memcpy_good mv tsize sp dram m1) ?s3 ?s4"
    unfolding memcpy_good_def using contiguous_outcome [OF b] by blast
  obtain m2 where m2: "row_pattern m2 dram sp (unat sfac) (unat tsize)" "judged 0x40 (smemcpy_good mv tsize sfac sp dram m2) ?s4 ?s5"
    unfolding smemcpy_good_def using strided_outcome [OF b] by blast
  have s0: "d_status ?s0 = 0" "failed \<notin> set (d_log ?s0)"
    using s by (simp_all add: logs_def failed_def crnl_def)
  have "judged 0x20 (memcpy_good mv tsize sp dram m1) ?s2 ?s4"
    using m1(2) by (simp add: failed_def)
  note chain = outcome_chain [OF w this m2(2) s0]
  moreover have "d_status s' = d_status ?s5" "failed \<in> set (d_log s') \<longleftrightarrow> failed \<in> set (d_log ?s5)"
    unfolding s'_def dre_tests_def Let_def by (simp_all add: logs_def failed_def crnl_def)
  ultimately show ?thesis
    using m1(1) m2(1) by (intro exI [of _ m1] exI [of _ m2]) simp
qed

context data_mover
begin

lemma memcpy_is_good:
  assumes "buffers_ok tsize sfac sp dram"
  shows "memcpy_good mv tsize sp dram m"
  using copied_source [of sp dram "unat tsize" 0 0 1 1 0 _ m] copied_dest [of sp dram "unat tsize" 0 0 1 0 _ m] contiguous_apart [OF assms]
    memcpy_law [OF contiguous_apart [OF assms]]
  by (simp add: memcpy_good_def bytes_equal_def)

lemma smemcpy_is_good:
  assumes b: "buffers_ok tsize sfac sp dram"
  shows "smemcpy_good mv tsize sfac sp dram m"
proof -
  let ?inc = "4 * ucast sfac :: u64" and ?n = "unat (tsize div 4)"
  have ap: "blocks_apart (unat sp) (unat dram) (unat (4 :: u64)) (unat (4 :: u64)) (unat ?inc) ?n"
    using strided_apart [OF b] strided_sizes(2) [OF b] by (simp add: unat_div)
  have "ld32 (copied sp dram 4 4 ?inc ?n m) (dram + of_nat i * ?inc) = ld32 (copied sp dram 4 4 ?inc ?n m) (sp + of_nat i * 4)" if "i < ?n" for i
    by (rule ld32_cong) (use copied_source [OF ap order.refl that] copied_dest [OF ap that] in simp)
  moreover have "mv_smemcpy mv sp dram 4 4 ?inc (tsize div 4) m = copied sp dram 4 4 ?inc ?n m"
    using smemcpy_law [OF ap] by simp
  moreover have "4 * of_nat (i * unat sfac) = of_nat i * ?inc" "4 * of_nat i = (of_nat i * 4 :: u64)" for i
    by simp_all
  moreover have "unat tsize div 4 = ?n"
    by (simp add: unat_div)
  ultimately show ?thesis
    by (simp only: smemcpy_good_def heads_equal_def) blast
qed

lemma mover_passes:
  assumes "buffers_ok tsize sfac sp dram" "d_status s = 0" "failed \<notin> set (d_log s)"
  shows "d_status (dre_tests mv flags tsize sfac sp dram s) = 0 \<and> failed \<notin> set (d_log (dre_tests mv flags tsize sfac sp dram s))"
  using dre_tests_outcome [OF assms, of mv flags] memcpy_is_good [OF assms(1)] smemcpy_is_good [OF assms(1)] by auto

end

text \<open>Arguments that are accepted print nothing.\<close>

lemma dre_letters_log: "(o_nok (dre_letters cs q) \<or> o_log (dre_letters cs q) = o_log q) \<and> (o_nok q \<longrightarrow> o_nok (dre_letters cs q))"
  by (induction cs q rule: dre_letters.induct) auto

lemma dre_args_log: "(o_nok (snd (dre_args argv q)) \<or> o_log (snd (dre_args argv q)) = o_log q) \<and> (o_nok q \<longrightarrow> o_nok (snd (dre_args argv q)))"
proof (induction argv q rule: dre_args.induct)
  case (2 arg argv q)
  then show ?case
    using dre_letters_log [of "drop 1 arg" q] by auto
qed simp

lemma dre_args_quiet: "dre_args argv dre_defaults = (rest, q) \<Longrightarrow> \<not> o_nok q \<Longrightarrow> o_log q = []"
  using dre_args_log [of argv dre_defaults] by (simp add: dre_defaults_def)

text \<open>With the processor as the mover nothing fails; the two functions are used only through their contract.\<close>

lemma dre_passes:
  assumes "dre_args argv dre_defaults = ([], q)" "\<not> o_nok q"
    and "sp_nalloc (o_tsize q) \<noteq> 0" "nalloc (o_tsize q * ucast (o_sfac q)) \<noteq> 0"
    and "buffers_ok (o_tsize q) (o_sfac q) (sp_nalloc (o_tsize q)) (nalloc (o_tsize q * ucast (o_sfac q)))"
  shows "\<exists>s. dre_main cpu_fns sp_nalloc nalloc argv m = Some (0, s) \<and> d_status s = 0 \<and> failed \<notin> set (d_log s)"
  using cpu.mover_passes [OF assms(5), of "\<lparr>d_mem = m, d_status = 0, d_log = o_log q\<rparr>" "o_flags q"] assms(1-4) dre_args_quiet [OF assms(1,2)]
  by (simp add: dre_main_def chk_alloc_def)

text \<open>C40: The program judges whoever moves the data: for arguments it accepts, and allocated buffers that are apart, of at
  least 64 bytes and less than \<open>2 ^ 32\<close> in size with the stride, it ends, having called the two functions on memories with
  its patterns (each byte, or the first word of each row, of the source is its index, the other words of a row are the complement,
  and the destination is zero). Bit 5 of its status is set exactly when the bytes of source and destination differ somewhere after the
  contiguous copy, bit 6 exactly when the first word of a row differs from its word of the destination after the strided copy, no other
  bit is set, and a failure is printed exactly when a bit is.\<close>

theorem dre_verdict:
  assumes "dre_args argv dre_defaults = ([], q)" "\<not> o_nok q"
    and "sp = sp_nalloc (o_tsize q)" "sp \<noteq> 0" "dram = nalloc (o_tsize q * ucast (o_sfac q))" "dram \<noteq> 0"
    and "buffers_ok (o_tsize q) (o_sfac q) sp dram"
  shows "\<exists>r s m1 m2. dre_main mv sp_nalloc nalloc argv m = Some (r, s) \<and>
    byte_pattern m1 dram sp (unat (o_tsize q)) \<and> row_pattern m2 dram sp (unat (o_sfac q)) (unat (o_tsize q)) \<and>
    d_status s = (if memcpy_good mv (o_tsize q) sp dram m1 then 0 else 0x20) OR
      (if smemcpy_good mv (o_tsize q) (o_sfac q) sp dram m2 then 0 else 0x40) \<and>
    (failed \<in> set (d_log s) \<longleftrightarrow> d_status s \<noteq> 0)"
proof -
  let ?s = "\<lparr>d_mem = m, d_status = 0, d_log = o_log q\<rparr>"
  have "dre_main mv sp_nalloc nalloc argv m = Some (0, dre_tests mv (o_flags q) (o_tsize q) (o_sfac q) sp dram ?s)"
    using assms(1-6) by (simp add: dre_main_def chk_alloc_def)
  moreover obtain m1 m2 where "byte_pattern m1 dram sp (unat (o_tsize q))" "row_pattern m2 dram sp (unat (o_sfac q)) (unat (o_tsize q))"
    "d_status (dre_tests mv (o_flags q) (o_tsize q) (o_sfac q) sp dram ?s) =
       (if memcpy_good mv (o_tsize q) sp dram m1 then 0 else 0x20) OR (if smemcpy_good mv (o_tsize q) (o_sfac q) sp dram m2 then 0 else 0x40)"
    "failed \<in> set (d_log (dre_tests mv (o_flags q) (o_tsize q) (o_sfac q) sp dram ?s)) \<longleftrightarrow>
       \<not> (memcpy_good mv (o_tsize q) sp dram m1 \<and> smemcpy_good mv (o_tsize q) (o_sfac q) sp dram m2)"
    using dre_tests_outcome [OF assms(7), of ?s mv "o_flags q"] dre_args_quiet [OF assms(1,2)] by auto
  ultimately show ?thesis
    by (intro exI [of _ 0] exI [of _ "dre_tests mv (o_flags q) (o_tsize q) (o_sfac q) sp dram ?s"] exI [of _ m1] exI [of _ m2]) simp
qed

lemma sample_args: "dre_args [''-d'', ''-s4'', ''-t1k''] dre_defaults = ([], dre_defaults\<lparr>o_flags := 1, o_sfac := 4, o_tsize := 1000\<rparr>)"
  by (simp add: dre_defaults_def DFLAG_def scan_simps)

text \<open>A mover that does nothing is found out by both tests.\<close>

theorem dre_verdict_witness:
  "\<exists>r s. dre_main \<lparr>mv_memcpy = (\<lambda>_ _ _ m. m), mv_smemcpy = (\<lambda>_ _ _ _ _ _ m. m)\<rparr> (\<lambda>_. 0x1000) (\<lambda>_. 0x10000) [''-d'', ''-s4'', ''-t1k''] (\<lambda>_. 0) =
     Some (r, s) \<and> d_status s = 0x60 \<and> failed \<in> set (d_log s)"
proof -
  let ?mv = "\<lparr>mv_memcpy = (\<lambda>_ _ _ m. m), mv_smemcpy = (\<lambda>_ _ _ _ _ _ m. m)\<rparr>"
  have bad1: "\<not> memcpy_good ?mv 1000 0x1000 0x10000 m" if "byte_pattern m 0x10000 0x1000 1000" for m
    using that by (auto simp: memcpy_good_def bytes_equal_def byte_pattern_def intro!: exI [of _ 1])
  have bad2: "\<not> smemcpy_good ?mv 1000 4 0x1000 0x10000 m" if "row_pattern m 0x10000 0x1000 4 1000" for m
  proof -
    have "\<forall>i<250. \<forall>j < 4. ld32 m (0x10000 + 4 * of_nat (i * 4 + j)) = (if j = 0 then of_nat i else NOT (of_nat i))"
      using that by (simp add: row_pattern_def)
    from this [rule_format, of 1 0] have "ld32 m 0x10010 = 1"
      by simp
    moreover have "m (0x1000 + of_nat i) = 0" if "i < 1000" for i
      using \<open>row_pattern m 0x10000 0x1000 4 1000\<close> that by (simp add: row_pattern_def)
    from this [of 4] this [of 5] this [of 6] this [of 7] have "ld32 m 0x1004 = 0"
      by (simp add: ld32_def le32_word_def)
    ultimately show ?thesis
      by (auto simp: smemcpy_good_def heads_equal_def intro!: exI [of _ 1])
  qed
  show ?thesis
    using dre_verdict [OF sample_args, of "0x1000" "\<lambda>_. 0x1000" "0x10000" "\<lambda>_. 0x10000" ?mv "\<lambda>_. 0"] bad1 bad2
    by (auto simp: dre_defaults_def buffers_ok_def)
qed

text \<open>The program returns 0 in any case: the tests decide only what is printed.\<close>

lemma dre_returns_0:
  "dre_args argv dre_defaults = ([], q) \<Longrightarrow> \<not> o_nok q \<Longrightarrow> dre_main mv sp_nalloc nalloc argv m = Some (r, s) \<Longrightarrow> r = 0"
  by (auto simp: dre_main_def Let_def split: option.splits)

text \<open>A failed \<^verbatim>\<open>sbrk\<close>, which the allocation of the simulation is, gives a pointer that is not 0, and so is not found.\<close>

lemma sbrk_failure_not_found:
  "sbrk heap_start heap_end n heap_ptr = (a, p, True) \<Longrightarrow> chk_alloc a = Some ()"
  by (auto simp: sbrk_def sys_sbrk_def chk_alloc_def Let_def split: if_splits)

end
