(* ===== verification/Spec2Isabelle.thy ===== *)
theory Spec2Isabelle
  imports Apm_Correct Aport Lmalloc Hash Trace_Parser Fatfs Trace_Capture Monitor Clocks Dmac Lmcache Memtest
    Sysc_Fifo Sysc_Port Hash_Unit Lsu_Types Lsu_Copy Kvs_Values Hmc Compress Eth_Live Dre
begin

text \<open>
  \<^bold>\<open>LiME run-time and drivers.\<close> LiME (Logic in Memory Emulator) runs benchmarks on a Zynq board with emulated
  memory latencies and near-memory accelerators. This development models the C code of its run-time:
  the code a benchmark is linked with (\<^verbatim>\<open>src/shared\<close>, for Linux and for the standalone board), the two
  kernel modules (\<^verbatim>\<open>src/linux/drivers\<close>), the hash function of the hash unit, the trace converter
  (\<^verbatim>\<open>src/trace\<close>), the accelerator units of the simulation (\<^verbatim>\<open>src/ip/sysc\<close>),
  and the units written for high level synthesis (\<^verbatim>\<open>src/ip/hls\<close>). One theory holds one part; the properties are the theorems whose text starts with
  their number.

  \<^bold>\<open>How the parts interact.\<close> A benchmark switches the clocks and delay units to emulation (\<open>Clocks\<close>),
  allocates memory the accelerators can reach (\<open>Alloc\<close>, which under Linux asks the module of \<open>Lmalloc\<close>),
  flushes caches (\<open>Lmcache\<close>, whose kernel side executes the instructions of \<open>A53_Cache\<close>), and sends
  commands to accelerator units (\<open>Aport\<close>) as packets (\<open>Stream_Port\<close>) through a hardware FIFO (\<open>Llfifo\<close>),
  whose driver moves bytes through a streamer (\<open>Streamer\<close>); without accelerator the DMA controller copies
  (\<open>Dmac\<close>). Meanwhile the performance monitor (\<open>Apm_Regs\<close>, \<open>Apm\<close>, \<open>Apm_Correct\<close>) counts or traces the memory
  transactions under control of \<open>Monitor\<close>; at the end \<open>Trace_Capture\<close> writes the trace to a file, on the
  standalone board through the file calls of \<open>Fatfs\<close>, and \<open>Trace_Parser\<close> converts it to text. Under Linux the
  devices are found in the device tree (\<open>Devtree\<close>).

  \<^bold>\<open>Theories, sources and what is shown.\<close>

  \<^item> \<open>Lime_Prelude\<close>: word types, status codes, bytes of words, and the bus: a volatile access is a load or store
    of a record of two functions over a device state, composed in the state monad. The locale \<open>reg_cells\<close> is
    the contract of registers that keep what was stored; its interpretation is plain memory.
  \<^item> \<open>Streamer\<close> (\<^verbatim>\<open>xllfifo/xstreamer.c\<close>, \<^verbatim>\<open>.h\<close>): buffered byte access over word-wise FIFO access functions, which
    are the locales \<open>tx_fifo\<close> and \<open>rx_fifo\<close>. \<open>Llfifo\<close> (\<^verbatim>\<open>xllfifo.c\<close>, \<^verbatim>\<open>xllfifo_hw.h\<close>, \<^verbatim>\<open>xllfifo_g.c\<close>, \<^verbatim>\<open>xllfifo_sinit.c\<close>):
    registers and driver; \<open>llf_dev\<close> is the contract of the device, from which both FIFO contracts follow by
    \<open>sublocale\<close>, and it is interpreted on an executable FIFO core. Frames written from any buffers arrive as
    the concatenated bytes, padded to words, and reads deliver the stream.
  \<^item> \<open>Stream_Port\<close> (\<^verbatim>\<open>linux/stream.c\<close>, \<^verbatim>\<open>standalone/stream.c\<close>): packets, polling, draining. \<open>Aport\<close> (\<^verbatim>\<open>aport.c\<close>, \<^verbatim>\<open>lsu_cmd.c\<close>):
    register access and copy commands; headers, addresses, sizes and status words of every command.
  \<^item> \<open>Devtree\<close> (\<^verbatim>\<open>linux/devtree.c\<close>): search in a tree of files and mapping of registers.
  \<^item> \<open>Apm_Regs\<close>, \<open>Apm\<close>, \<open>Apm_Correct\<close> (\<^verbatim>\<open>linux/xapm.h\<close>, \<^verbatim>\<open>xapm.c\<close>): register map, all operations, and their correctness
    over the contract \<open>apm_dev\<close>: selections, ranges, identifiers and latency points read back, resets are
    pulses. \<open>Monitor\<close> (\<^verbatim>\<open>linux/monitor.c\<close>): set-up from the device tree and the measurement calls.
  \<^item> \<open>Trace_Capture\<close> (\<^verbatim>\<open>trace_capture\<close> of \<^verbatim>\<open>linux/monitor.c\<close> and \<^verbatim>\<open>standalone/monitor.c\<close>) over the contract \<open>tcd_dev\<close> of
    the capture device; \<open>Trace_Parser\<close> (\<^verbatim>\<open>trace/parser.c\<close>, \<^verbatim>\<open>def_config.c\<close>): bounds, totality, and decoding of every
    sequence of events into a table that is specified event by event from the fields of the entries. The property of this theory joins the two: what was captured is what is printed.
  \<^item> \<open>Fatfs\<close> (\<^verbatim>\<open>standalone/fatfs.c\<close>): descriptors, console and error numbers over a FAT library that is a parameter.
  \<^item> \<open>Alloc\<close> (\<^verbatim>\<open>alloc.h\<close>, \<^verbatim>\<open>accmem.c\<close>, \<^verbatim>\<open>sbrk.c\<close>, \<^verbatim>\<open>heap.c\<close>, \<^verbatim>\<open>lmalloc.h\<close>) and \<open>Lmalloc\<close> (\<^verbatim>\<open>drivers/lmalloc.c\<close>): allocation; the
    module is a step relation over the mappings of the processes that share a file, which the kernel may also unmap in part,
    divide and copy: listed and live buffers agree, and no buffer is freed twice unless a mapping was divided or copied.
  \<^item> \<open>A53_Cache\<close> (\<^verbatim>\<open>drivers/arm64/xil_cache.c\<close>) and \<open>Lmcache\<close> (\<^verbatim>\<open>drivers/lmcache_ops.c\<close>, \<^verbatim>\<open>lmcache.h\<close>, \<^verbatim>\<open>linux/xil_cache.c\<close>):
    maintenance instructions by set and way and by range; a range request of a user program reaches exactly
    the lines of the range. The contract \<open>cache_dev\<close> is what the library needs of the module.
  \<^item> \<open>Clocks\<close> (\<^verbatim>\<open>clocks.h\<close>, \<^verbatim>\<open>standalone/clocks.c\<close>, \<^verbatim>\<open>linux/clocks.c\<close>): registers after emulate and normal, and release of
    every mapping. \<open>Dmac\<close> (\<^verbatim>\<open>standalone/dmac_cmd.c\<close>): the generated controller program, executed by a step function
    for the controller, touches exactly the addresses of the strided copy.
  \<^item> \<open>Hash\<close> (\<^verbatim>\<open>short.c\<close> of the hash unit): the pipelined version equals the software version.
  \<^item> \<open>Memtest\<close> (\<^verbatim>\<open>test/mem/src/xil_testmem.c\<close>): the memory tests over a memory that may be faulty; a good memory
    passes, a stuck bit and two words that are one are found.

  \<^item> \<open>Sysc_Fifo\<close> (\<^verbatim>\<open>ip/sysc/sfifo_cc.h\<close>, \<^verbatim>\<open>fifo_cc.h\<close>, \<^verbatim>\<open>rvfifo_cc.h\<close>, \<^verbatim>\<open>sreg.h\<close>, \<^verbatim>\<open>sc_stream.h\<close>, \<^verbatim>\<open>pulse.h\<close>): the stream
    channels of the simulated accelerator, clock edge by clock edge. The contract of a stream unit is the locale
    \<open>stream_unit\<close>: what was given and what is stored is what was taken; it is interpreted on the FIFOs, the register slices and,
    in \<open>Hash_Unit\<close> (\<^verbatim>\<open>shash.h\<close>, \<^verbatim>\<open>hsu.h\<close>), on the hash pipeline and the hash unit, whose indices are those of the software hash.
  \<^item> \<open>Sysc_Port\<close> (\<^verbatim>\<open>port_axis.h\<close>, \<^verbatim>\<open>port_dma.h\<close>, \<^verbatim>\<open>shared/sysc/stream.cpp\<close>): the words on the streams and the port of the simulated
    processor; a packet comes back as it was sent.
  \<^item> \<open>Lsu\<close> (\<^verbatim>\<open>lsu.h\<close>, \<^verbatim>\<open>ctlreg.h\<close>, \<^verbatim>\<open>cswitch.h\<close>): the load-store unit as concurrent threads, a step relation that leaves open which
    thread runs next and when the memory answers. \<open>Lsu_Types\<close>: states stay well formed for every input. \<open>Lsu_Correct\<close>: no step changes the
    memory that the work under way will lead to. \<open>Lsu_Progress\<close>: every step uses up work and keeps the responses to come. \<open>Lsu_Runs\<close>: a unit
    with one command for each channel never blocks (locale \<open>worked\<close>). \<open>Lsu_Copy\<close>: the packets of \<open>Aport\<close> make it copy memory, plain and
    strided, with one response that is never early. \<open>Lsu_Read\<close>: a unit that only reads, while control flits still come in.
  \<^item> \<open>Cswitch\<close> (\<^verbatim>\<open>cswitch.h\<close>): the control switch; flits arrive at the right port, complete and in order per sender, and nothing gets stuck.
    \<open>Kvs_Units\<close> (\<^verbatim>\<open>spsel.h\<close>, \<^verbatim>\<open>indel.h\<close>): the split unit as a stream unit for each of its outputs, and the unit that compares keys with slots.
    \<open>Kvs\<close> (\<^verbatim>\<open>kvs.h\<close>): the lookup accelerator, in which two load-store units, the split unit, the hash unit, the switch and the comparing
    unit work at the same time. \<open>Kvs_Lookup\<close>: no step changes the values that the keys on the way lead to. \<open>Kvs_Runs\<close>: every step uses up
    work, and by the count of words no unit waits for ever (interpretation of \<open>worked\<close>). \<open>Kvs_Values\<close>: the values are those of a search of the
    table in memory from the index of the software hash on.
  \<^item> \<open>Hmc\<close> (\<^verbatim>\<open>kvs.cpp\<close>): the memory controller of the simulation, its counts and its bandwidth.
  \<^item> \<open>Ap_Uint\<close>: ranges and concatenations of the integers that the units for high level synthesis use, and the contract \<open>wire_format\<close> of
    structures packed by hand. \<open>Compress\<close> (\<^verbatim>\<open>ip/hls/compress\<close>): the unit that makes short events of the entries of the monitor; in every
    interleaving of its processes it puts out the events of a specification over the fields, and it ends. The properties leave open
    which time an entry gets, on which the unit and its test bench differ; the times of the unit are in the lemma \<open>compress_exec_inv\<close>.
  \<^item> \<open>Eth_Fifo\<close> (\<^verbatim>\<open>ip/hls/eth_fifo_interface\<close>): the unit that sends trace data over Ethernet, cycle by cycle. \<open>Eth_Frames\<close>: the
    controller gets whole, numbered frames with the words in order, none divided. \<open>Eth_Live\<close>: every word is sent.

  \<^item> \<open>Dre\<close> (\<^verbatim>\<open>test/dre/src/dre.c\<close>): the test of the data movers. The contract of a mover is the locale \<open>data_mover\<close>, interpreted on the
    functions of the processor, with which the program passes; the load-store unit leaves the same memory as the processor; and
    whoever moves the data, the program reports exactly the copies that are wrong.

  \<^bold>\<open>Conventions.\<close> Integers have their C widths; a size that the code keeps below the width is a natural number
  where that is noted. State is passed explicitly or in the state monad. A result \<open>None\<close> is a fault, an access out of
  bounds or a loop that does not end; loops that poll hardware or run over an address range are
  \<open>partial_function (option)\<close>, so a statement with \<open>Some\<close> includes that they return. No fuel is used. Code that
  is not in the repository (kernel, C library, FAT library, Xilinx driver library) is a parameter, with the laws
  used as hypotheses or as assumptions of a locale that is interpreted on an executable instance.
  Console output is a list of values of a message type where the text itself is not the point.

  \<^bold>\<open>Not modelled.\<close> Simulated time in the units, tracing, the main function of the simulation, the thread of the simulated processor (\<^verbatim>\<open>cpu.h\<close>)
  and the port classes of \<^verbatim>\<open>ip/sysc\<close>, which only forward calls; the hardware descriptions
  (\<^verbatim>\<open>ip/2018.2\<close>), whose meaning is given by other languages, and the test benches of \<^verbatim>\<open>ip/hls\<close>; the vendored allocator (\<^verbatim>\<open>dlmalloc.c\<close>)
  and vendored Xilinx headers beyond the constants used; the preprocessor selections of \<^verbatim>\<open>cache.h\<close>, \<^verbatim>\<open>config.h\<close>,
  \<^verbatim>\<open>monitor.h\<close>, \<^verbatim>\<open>ticks.h\<close>, \<^verbatim>\<open>sysinit.h\<close>; the statistics calls of \<^verbatim>\<open>standalone/monitor.c\<close>, which only call the board
  support package; code that the sources switch off; of the programs in \<^verbatim>\<open>test\<close>
  the main function of the memory tests, the STREAM benchmark, and the tests of \<^verbatim>\<open>dre.c\<close> for builds with stream port.
\<close>

section \<open>From the capture to the converter\<close>

lemma entry_size_rules: "2 ^ k < n \<Longrightarrow> entry_size n k = entry_size n (Suc k)" "n \<le> 2 ^ k \<Longrightarrow> entry_size n k = 2 ^ k"
  by (simp_all add: entry_size.simps [of n k])

lemma entry_size_values:
  assumes "8 < n" "n \<le> 128"
  shows "entry_size n 0 = (if n \<le> 16 then 16 else if n \<le> 32 then 32 else if n \<le> 64 then 64 else 128)"
  using assms by (simp add: entry_size_rules)

lemma entry_sizes_agree:
  assumes "64 < FIFO_AXIS_TDATA_WIDTH cfg" "FIFO_AXIS_TDATA_WIDTH cfg \<le> 1024" "8 dvd FIFO_AXIS_TDATA_WIDTH cfg"
  shows "entry_size (FIFO_AXIS_TDATA_WIDTH cfg div 8) 0 = TCD_ENTRY_BITS cfg div 8"
proof -
  obtain n where "FIFO_AXIS_TDATA_WIDTH cfg = 8 * n"
    using assms(3) by (auto elim: dvdE)
  with assms(1,2) entry_size_values [of n] show ?thesis
    by (auto simp: TCD_ENTRY_BITS_def)
qed

lemma entry_bytes_nonzero:
  assumes "cfg_ok cfg" "ev_ok cfg ev"
  shows "length (entry_bytes cfg ev) = TCD_ENTRY_BITS cfg div 8" "\<exists>b\<in>set (entry_bytes cfg ev). b \<noteq> 0"
proof -
  define n where "n = TCD_ENTRY_BITS cfg div 8"
  have r: "read_entry_loop n (entry_bytes cfg ev) 0 [] t = (True, pad_entry cfg ev, [], t)" for t
    using read_entry_bytes [OF assms, of "[]" t] by (simp add: read_entry_def n_def)
  from read_entry_loop_length [OF this] show "length (entry_bytes cfg ev) = TCD_ENTRY_BITS cfg div 8"
    by (simp add: n_def)
  show "\<exists>b\<in>set (entry_bytes cfg ev). b \<noteq> 0"
  proof (rule ccontr)
    assume "\<not> ?thesis"
    then have "\<forall>b\<in>set (take n (entry_bytes cfg ev)). b = 0"
      by (meson in_set_takeD)
    with read_entry_loop_tail [of "entry_bytes cfg ev" n 0 "[]"] r show False
      by fastforce
  qed
qed

lemma word_bytes_entry:
  assumes "word_bytes w (E * length xs) = concat xs" "\<forall>x\<in>set xs. length x = 4 * E" "i < length xs"
  shows "word_bytes (\<lambda>k. w (E * i + k)) E = xs ! i"
  using assms
proof (induction xs arbitrary: w i)
  case (Cons x xs)
  have "word_bytes w E = x \<and> word_bytes (\<lambda>k. w (E + k)) (E * length xs) = concat xs"
    using Cons.prems(1,2) word_bytes_add [of w E "E * length xs"] by (simp add: append_eq_append_conv)
  with Cons.IH [of "\<lambda>k. w (E + k)" "i - 1"] Cons.prems(2,3) show ?case
    by (cases i) (auto simp: add.assoc)
qed simp

lemma word_bytes_zero: "zero_entry w E i \<Longrightarrow> word_bytes (\<lambda>k. w (E * i + k)) E = replicate (4 * E) 0"
proof -
  assume "zero_entry w E i"
  then have "word_bytes (\<lambda>k. w (E * i + k)) E = word_bytes (\<lambda>k. 0) E"
    by (auto simp: word_bytes_def zero_entry_def intro!: arg_cong [of _ _ concat])
  also have "\<dots> = replicate (4 * E) 0"
  proof (induction E)
    case (Suc E)
    have "replicate (4 * Suc E) (0 :: u8) = [0, 0, 0, 0] @ replicate (4 * E) 0"
      by (simp add: numeral_eq_Suc)
    with Suc show ?case
      by (simp add: word_bytes_Suc le32_bytes_def del: mult_Suc_right)
  qed (simp add: word_bytes_def)
  finally show ?thesis .
qed

lemma captured_events:
  assumes "cfg_ok cfg" "\<forall>ev\<in>set evs. ev_ok cfg ev" "TCD_ENTRY_BITS cfg div 8 = 4 * E"
    and "word_bytes w (E * length evs) = concat (map (entry_bytes cfg) evs)" "zero_entry w E (length evs)"
    and "4 * E * Suc (length evs) < mem_sz" "\<forall>t n. fw t n = n" "captured fw w E mem_sz m fl"
  shows "fl = concat (map (entry_bytes cfg) evs) @ replicate (4 * E) 0"
proof -
  have c: "fl = word_bytes w (E * Suc m)" "zero_entry w E m \<or> mem_sz \<le> 4 * E * Suc m" "\<forall>i<m. \<not> zero_entry w E i"
    using assms(7,8) by (auto simp: captured_def simp del: mult_Suc_right split: if_splits)
  have le: "m \<le> length evs"
    using c(3) assms(5) by (meson not_le)
  then have "4 * E * Suc m \<le> 4 * E * Suc (length evs)"
    by (intro mult_le_mono2) simp
  then have z: "zero_entry w E m"
    using c(2) assms(6) by linarith
  have "\<not> m < length evs"
  proof
    assume m: "m < length evs"
    have "\<forall>x\<in>set (map (entry_bytes cfg) evs). length x = 4 * E"
      using entry_bytes_nonzero(1) [OF assms(1)] assms(2,3) by auto
    from word_bytes_entry [OF _ this, of w m] assms(4) m word_bytes_zero [OF z]
    have "entry_bytes cfg (evs ! m) = replicate (4 * E) 0"
      by simp
    with entry_bytes_nonzero(2) [OF assms(1), of "evs ! m"] assms(2) m show False
      by auto
  qed
  with le have "m = length evs"
    by simp
  moreover have "E * Suc (length evs) = E * length evs + E"
    by simp
  ultimately show ?thesis
    using c(1) z by (simp only: word_bytes_add assms(4) word_bytes_zero)
qed

text \<open>C3: The capture and the converter fit together: when the trace memory holds the entries of any events
  and then zeros, and there is room, the file that the Linux capture leaves is converted without an
  error into the text of exactly these events, in order and at their times.\<close>

theorem captured_trace_decodes:
  assumes "tcd_dev M tcd tw trace" "take 1 fn \<noteq> [CHR 0x0A]" "opens (strip_nl fn)"
    and "dev_u32 tree g ''axi_perf_mon'' ''xlnx,fifo-axis-tdata-width'' = Some width"
    and "dev_u32 tree g ''axi_tcd'' ''xlnx,mem-addr-width'' = Some maw" "dev_reg tree g ''axi_tcd'' = Some addr"
    and "dev_mmap S addr d = (tcd, d')" "tcd \<noteq> MAP_FAILED" "length buf = BLK_SZ" "\<forall>t n. fw t n = n"
    and cfg: "cfg_ok cfg" "unat width = FIFO_AXIS_TDATA_WIDTH cfg" "64 < unat width" "unat width \<le> 1024" "8 dvd unat width"
    and maw: "unat maw < 64"
    and E: "4 * E = TCD_ENTRY_BITS cfg div 8"
    and evs: "\<forall>ev\<in>set evs. ev_ok cfg ev" "word_bytes (trace s) (E * length evs) = concat (map (entry_bytes cfg) evs)"
      "zero_entry (trace s) E (length evs)" "4 * E * Suc (length evs) < 2 ^ unat maw"
    and fn: "take 1 (strip_nl fn) \<noteq> ''-''" "take 1 (strip_nl fn) \<noteq> ''?''"
  shows "\<exists>fl tot msgs s'. trace_capture M S tree (Some fn) opens fw buf g d s =
      Some (Cap_file (strip_nl fn) fl tot msgs (dev_munmap S tcd d'), d', s') \<and>
    parser_main cfg (\<lambda>f. if f = strip_nl fn then Some fl else None) (\<lambda>f. True) [] [strip_nl fn, ofile] =
      Some (EXIT_SUCCESS, errp (''TRACE END... ZEROES FOUND'' @ nl)
        (snd (fold (show_ev cfg) evs (0, \<lparr>tout = [], terr = ''TRACE START...'' @ nl\<rparr>))))"
proof -
  have w: "unat (width div 8) = FIFO_AXIS_TDATA_WIDTH cfg div 8"
    by (simp add: unat_div cfg(2))
  have e: "entry_size (unat (width div 8)) 0 div 4 = E"
    unfolding w using entry_sizes_agree [of cfg] cfg(2-5) E by simp
  have "2 < unat (width div 8)" "unat (width div 8) \<le> 2 ^ 17" "\<forall>t n. fw t n \<le> n" "unat maw < 64"
    using cfg(2-4) assms(10) maw unfolding w by auto
  with capture_file [where opens = opens and fn = fn and fw = fw, OF assms(1-9)] obtain m fl tot msgs s' where
    c: "trace_capture M S tree (Some fn) opens fw buf g d s = Some (Cap_file (strip_nl fn) fl tot msgs (dev_munmap S tcd d'), d', s')"
    "captured fw (trace s) E (2 ^ unat maw) m fl"
    unfolding e by blast
  have "fl = concat (map (entry_bytes cfg) evs) @ replicate (4 * E) 0"
    using captured_events [OF cfg(1) evs(1) E [symmetric] evs(2-4) assms(10) c(2)] .
  moreover have "trace_tail cfg (replicate (4 * E) 0)" "end_message cfg (replicate (4 * E) 0) = ''TRACE END... ZEROES FOUND'' @ nl"
    by (simp_all add: trace_tail_def end_message_def E)
  ultimately have "trace_loop cfg fl 0 t = Some (errp (''TRACE END... ZEROES FOUND'' @ nl) (snd (fold (show_ev cfg) evs (0, t))))" for t
    using trace_loop_decodes [OF cfg(1) _ evs(1), of "replicate (4 * E) 0" 0 t] by simp
  moreover have "opt_args [strip_nl fn, ofile] 0 False t = ([strip_nl fn, ofile], 0, False, t)" for t
    using fn(1) by simp
  ultimately show ?thesis
    using c(1) fn(2) by (intro exI [of _ fl] exI [of _ tot] exI [of _ msgs] exI [of _ s']) (simp add: parser_main_def errp_def)
qed

text \<open>A trace of one software event.\<close>

definition demo_ev :: trace_ev where
  "demo_ev = SwEv 5 False 0xCAFE"

definition demo_words :: "u32 list" where
  "demo_words = map (ptr_words (nth (entry_bytes def_config demo_ev))) [0..<16]"

lemma demo_trace:
  "ev_ok def_config demo_ev" "word_bytes (tcd_word (demo_words, 0)) 16 = entry_bytes def_config demo_ev"
  "zero_entry (tcd_word (demo_words, 0)) 16 1"
proof -
  show ok: "ev_ok def_config demo_ev"
    by (simp add: ev_ok_def demo_ev_def TIMESTAMP_def SW_PACKET_def)
  have "length (entry_bytes def_config demo_ev) = 64"
    using entry_bytes_nonzero(1) [OF configs_ok(1) ok] by (simp add: TCD_ENTRY_BITS_def def_config_def)
  moreover have "word_bytes (tcd_word (demo_words, 0)) 16 =
      concat (map (\<lambda>i. le32_bytes (ptr_words (nth (entry_bytes def_config demo_ev)) i)) [0..<16])"
    by (auto simp: word_bytes_def tcd_word_def demo_words_def intro!: arg_cong [of _ _ concat])
  ultimately show "word_bytes (tcd_word (demo_words, 0)) 16 = entry_bytes def_config demo_ev"
    using map_nth [of "entry_bytes def_config demo_ev"] by (simp add: ptr_words_bytes)
  show "zero_entry (tcd_word (demo_words, 0)) 16 1"
    by (simp add: zero_entry_def tcd_word_def demo_words_def)
qed

theorem captured_trace_decodes_witness:
  "\<exists>fl tot msgs s'. trace_capture (tcd_mmio 0x7F0000000000) mon_os mon_tree (Some (''t.bin'' @ [CHR 0x0A])) (\<lambda>f. True) (\<lambda>t n. n)
      (replicate BLK_SZ 0) (replicate 16 7) \<lparr>mfd = 0, page_size = 0\<rparr> (demo_words, 9) =
      Some (Cap_file ''t.bin'' fl tot msgs 0, \<lparr>mfd = 3, page_size = 4096\<rparr>, s') \<and>
    parser_main def_config (\<lambda>f. if f = ''t.bin'' then Some fl else None) (\<lambda>f. True) [] [''t.bin'', ''t.csv''] =
      Some (EXIT_SUCCESS, errp (''TRACE END... ZEROES FOUND'' @ nl)
        (snd (show_ev def_config demo_ev (0, \<lparr>tout = [], terr = ''TRACE START...'' @ nl\<rparr>))))"
proof -
  have f: "strip_nl (''t.bin'' @ [CHR 0x0A]) = ''t.bin''"
    by (simp add: strip_nl_def)
  have m: "dev_mmap mon_os 0xB0000000 \<lparr>mfd = 0, page_size = 0\<rparr> = (0x7F0000000000, \<lparr>mfd = 3, page_size = 4096\<rparr>)"
    by (simp add: dev_mmap_def mon_os_def)
  have "FIFO_AXIS_TDATA_WIDTH def_config = 328" "TCD_ENTRY_BITS def_config = 512"
    by (simp_all add: def_config_def TCD_ENTRY_BITS_def)
  with demo_trace configs_ok(1) f m
  show ?thesis
    using captured_trace_decodes [where opens = "\<lambda>f. True" and fn = "''t.bin'' @ [CHR 0x0A]" and fw = "\<lambda>t n. n" and cfg = def_config and
        E = 16 and evs = "[demo_ev]" and buf = "replicate BLK_SZ 0" and s = "(demo_words, 9)" and ofile = "''t.csv''",
        OF mem_tcd_dev [of "0x7F0000000000"] _ _ mon_tree_props m]
    by (simp add: MAP_FAILED_def dev_munmap_def mon_os_def)
qed

end
